(* ===== verification/Prelude.thy ===== *)
theory Prelude
  imports Main
begin

section \<open>Shared vocabulary: JavaScript strings, objects and lists\<close>

text \<open>
  The code is TypeScript. A JavaScript string is modelled as a \<open>string\<close> (a list of
  \<open>char\<close>, that is of code units below 256). HTTP header values, cookie values,
  host names and environment names are byte strings, so this is their exact type; for
  other text the model speaks of strings whose code units are all below 256.
  This theory holds the string operations of the language that the sources use
  (\<open>split\<close>, \<open>trim\<close>, \<open>toLowerCase\<close>, \<open>indexOf\<close>, \<open>startsWith\<close>, \<open>includes\<close>, \<open>join\<close>),
  plain objects as ordered association lists, and the list lemmas the components share.
\<close>

named_theorems js_defs \<open>definitions of the constants and helpers of the model\<close>

type_synonym env = "string \<Rightarrow> string option"
  \<comment> \<open>\<open>process.env\<close>: \<open>None\<close> is a missing variable\<close>

subsection \<open>Characters\<close>

abbreviation code :: "char \<Rightarrow> nat" where
  "code c \<equiv> of_char c"

definition is_digit :: "char \<Rightarrow> bool" where
  "is_digit c \<longleftrightarrow> 48 \<le> code c \<and> code c \<le> 57"

definition digit_val :: "char \<Rightarrow> nat" where
  "digit_val c = code c - 48"

definition digit_char :: "nat \<Rightarrow> char" where
  "digit_char n = char_of (48 + n)"

text \<open>The white space \<open>trim\<close> removes and \<open>\s\<close> matches, below code unit 256.\<close>

definition is_ws :: "char \<Rightarrow> bool" where
  "is_ws c \<longleftrightarrow> code c \<in> {9, 10, 11, 12, 13, 32, 160}"

definition lower_char :: "char \<Rightarrow> char" where
  "lower_char c =
     (if 65 \<le> code c \<and> code c \<le> 90 \<or> 192 \<le> code c \<and> code c \<le> 222 \<and> code c \<noteq> 215
      then char_of (code c + 32) else c)"

text \<open>
  \<open>toUpperCase\<close>: the sources apply it to HTTP methods and to OAuth tokens. The sharp s
  becomes two letters; the two letters whose capital lies beyond code unit 255 are kept.
\<close>

definition upper_char :: "char \<Rightarrow> string" where
  "upper_char c =
     (if 97 \<le> code c \<and> code c \<le> 122 \<or> 224 \<le> code c \<and> code c \<le> 254 \<and> code c \<noteq> 247
      then [char_of (code c - 32)]
      else if code c = 223 then ''SS'' else [c])"

definition to_lower :: "string \<Rightarrow> string" where
  "to_lower s = map lower_char s"

definition to_upper :: "string \<Rightarrow> string" where
  "to_upper s = concat (map upper_char s)"

subsection \<open>Trimming, searching, splitting\<close>

definition trim_start :: "string \<Rightarrow> string" where
  "trim_start s = dropWhile is_ws s"

definition trim_end :: "string \<Rightarrow> string" where
  "trim_end s = rev (dropWhile is_ws (rev s))"

definition js_trim :: "string \<Rightarrow> string" where
  "js_trim s = trim_end (trim_start s)"

definition starts_with :: "string \<Rightarrow> string \<Rightarrow> bool" where
  "starts_with s p \<longleftrightarrow> take (length p) s = p"

definition ends_with :: "string \<Rightarrow> string \<Rightarrow> bool" where
  "ends_with s p \<longleftrightarrow> length p \<le> length s \<and> drop (length s - length p) s = p"

fun js_includes :: "string \<Rightarrow> string \<Rightarrow> bool" where
  "js_includes [] p \<longleftrightarrow> p = []"
| "js_includes (c # s) p \<longleftrightarrow> starts_with (c # s) p \<or> js_includes s p"

text \<open>\<open>indexOf\<close> and \<open>lastIndexOf\<close> of one character; \<open>None\<close> stands for \<open>-1\<close>.\<close>

fun index_of :: "char \<Rightarrow> string \<Rightarrow> nat option" where
  "index_of x [] = None"
| "index_of x (c # s) = (if c = x then Some 0 else map_option Suc (index_of x s))"

fun last_index_of :: "char \<Rightarrow> string \<Rightarrow> nat option" where
  "last_index_of x [] = None"
| "last_index_of x (c # s) =
     (case last_index_of x s of
        Some i \<Rightarrow> Some (Suc i)
      | None \<Rightarrow> if c = x then Some 0 else None)"

text \<open>\<open>s.split(c)\<close> for a separator of one character.\<close>

fun split_char :: "char \<Rightarrow> string \<Rightarrow> string list" where
  "split_char x [] = [[]]"
| "split_char x (c # s) =
     (if c = x then [] # split_char x s
      else case split_char x s of p # ps \<Rightarrow> (c # p) # ps | [] \<Rightarrow> [[c]])"

text \<open>\<open>s.split(sep)\<close> for a longer separator: leftmost, non-overlapping.\<close>

function split_str_acc :: "string \<Rightarrow> string \<Rightarrow> string \<Rightarrow> string list" where
  "split_str_acc sep acc [] = [rev acc]"
| "split_str_acc sep acc (c # s) =
     (if starts_with (c # s) sep then rev acc # split_str_acc sep [] (drop (length sep - 1) s)
      else split_str_acc sep (c # acc) s)"
  by pat_completeness auto
termination
  by (relation "measure (\<lambda>(sep, acc, s). length s)") auto

definition split_str :: "string \<Rightarrow> string \<Rightarrow> string list" where
  "split_str sep s = split_str_acc sep [] s"

text \<open>\<open>s.split(/P+/)\<close>: the pieces between maximal runs of characters in \<open>P\<close>.\<close>

fun split_runs_aux :: "(char \<Rightarrow> bool) \<Rightarrow> bool \<Rightarrow> string \<Rightarrow> string list" where
  "split_runs_aux P in_run [] = [[]]"
| "split_runs_aux P in_run (c # s) =
     (if P c then (if in_run then split_runs_aux P True s else [] # split_runs_aux P True s)
      else case split_runs_aux P False s of p # ps \<Rightarrow> (c # p) # ps | [] \<Rightarrow> [[c]])"

definition split_runs :: "(char \<Rightarrow> bool) \<Rightarrow> string \<Rightarrow> string list" where
  "split_runs P s = split_runs_aux P False s"

fun js_join :: "string \<Rightarrow> string list \<Rightarrow> string" where
  "js_join sep [] = []"
| "js_join sep [x] = x"
| "js_join sep (x # y # ys) = x @ sep @ js_join sep (y # ys)"

text \<open>Removing every trailing, or one trailing, slash: \<open>replace(/\/+$/, "")\<close>, \<open>replace(/\/$/, "")\<close>.\<close>

definition strip_trailing :: "char \<Rightarrow> string \<Rightarrow> string" where
  "strip_trailing x s = rev (dropWhile (\<lambda>c. c = x) (rev s))"

definition strip_one_trailing :: "char \<Rightarrow> string \<Rightarrow> string" where
  "strip_one_trailing x s = (if s \<noteq> [] \<and> last s = x then butlast s else s)"

subsection \<open>Numbers as text\<close>

fun digits_val_acc :: "nat \<Rightarrow> string \<Rightarrow> nat" where
  "digits_val_acc acc [] = acc"
| "digits_val_acc acc (c # s) = digits_val_acc (acc * 10 + digit_val c) s"

definition digits_val :: "string \<Rightarrow> nat" where
  "digits_val s = digits_val_acc 0 s"

fun nat_to_string :: "nat \<Rightarrow> string" where
  "nat_to_string n =
     (if n < 10 then [digit_char n] else nat_to_string (n div 10) @ [digit_char (n mod 10)])"

declare nat_to_string.simps [simp del]

definition int_to_string :: "int \<Rightarrow> string" where
  "int_to_string i = (if i < 0 then CHR ''-'' # nat_to_string (nat (- i)) else nat_to_string (nat i))"

subsection \<open>Plain objects: ordered association lists\<close>

fun obj_get :: "('k \<times> 'v) list \<Rightarrow> 'k \<Rightarrow> 'v option" where
  "obj_get [] k = None"
| "obj_get ((k', v) # o') k = (if k' = k then Some v else obj_get o' k)"

text \<open>Assignment keeps the position of a member that exists and appends a new one.\<close>

fun obj_set :: "('k \<times> 'v) list \<Rightarrow> 'k \<Rightarrow> 'v \<Rightarrow> ('k \<times> 'v) list" where
  "obj_set [] k v = [(k, v)]"
| "obj_set ((k', v') # o') k v = (if k' = k then (k, v) # o' else (k', v') # obj_set o' k v)"

definition obj_delete :: "('k \<times> 'v) list \<Rightarrow> 'k \<Rightarrow> ('k \<times> 'v) list" where
  "obj_delete ob k = filter (\<lambda>(k', _). k' \<noteq> k) ob"

text \<open>\<open>{ ...a, ...b }\<close>\<close>

definition obj_spread :: "('k \<times> 'v) list \<Rightarrow> ('k \<times> 'v) list \<Rightarrow> ('k \<times> 'v) list" where
  "obj_spread a b = fold (\<lambda>(k, v) ob. obj_set ob k v) b a"

definition obj_wf :: "('k \<times> 'v) list \<Rightarrow> bool" where
  "obj_wf ob \<longleftrightarrow> distinct (map fst ob)"

text \<open>
  \<open>ob[key] = value\<close> on an object literal: the key \<open>__proto__\<close> names an accessor of its prototype, so
  that member never becomes the object's own.
\<close>

definition proto_key :: string where "proto_key = ''__proto__''"

definition assign_key :: "(string \<times> 'v) list \<Rightarrow> string \<Rightarrow> 'v \<Rightarrow> (string \<times> 'v) list" where
  "assign_key ob key v = (if key = proto_key then ob else obj_set ob key v)"

lemma obj_get_set [simp]: "obj_get (obj_set ob k v) k' = (if k' = k then Some v else obj_get ob k')"
  by (induction ob k v rule: obj_set.induct) auto

lemma obj_get_delete [simp]: "obj_get (obj_delete ob k) k' = (if k' = k then None else obj_get ob k')"
  by (induction ob) (auto simp: obj_delete_def)

lemma obj_get_append: "obj_get (a @ b) k = (case obj_get a k of Some v \<Rightarrow> Some v | None \<Rightarrow> obj_get b k)"
  by (induction a) auto

lemma obj_get_None_iff: "obj_get ob k = None \<longleftrightarrow> k \<notin> fst ` set ob"
  by (induction ob k rule: obj_get.induct) auto

lemma obj_get_in_set: "obj_get ob k = Some v \<Longrightarrow> (k, v) \<in> set ob"
  by (induction ob) (auto split: if_splits)

lemma in_obj_set: "e \<in> set (obj_set ob k v) \<Longrightarrow> e = (k, v) \<or> e \<in> set ob"
  by (induction ob k v rule: obj_set.induct) (auto split: if_split_asm)

lemma keys_obj_set: "fst ` set (obj_set ob k v) = insert k (fst ` set ob)"
  by (induction ob k v rule: obj_set.induct) auto

lemma obj_wf_Nil [simp]: "obj_wf []"
  by (simp add: obj_wf_def)

lemma obj_wf_set [intro]: "obj_wf ob \<Longrightarrow> obj_wf (obj_set ob k v)"
proof (induction ob k v rule: obj_set.induct)
  case (2 k' v' o' k v)
  then show ?case using keys_obj_set [of o' k v] by (auto simp: obj_wf_def image_iff)
qed (simp add: obj_wf_def)

lemma obj_wf_delete [intro]: "obj_wf ob \<Longrightarrow> obj_wf (obj_delete ob k)"
  by (auto simp: obj_wf_def obj_delete_def distinct_map_filter)

lemma length_obj_delete_le: "length (obj_delete ob k) \<le> length ob"
  by (simp add: obj_delete_def)

lemma length_obj_set:
  "length (obj_set ob k v) = (if k \<in> fst ` set ob then length ob else Suc (length ob))"
  by (induction ob k v rule: obj_set.induct) auto

lemma obj_get_spread:
  "obj_wf b \<Longrightarrow> obj_get (obj_spread a b) k
     = (case obj_get b k of Some v \<Rightarrow> Some v | None \<Rightarrow> obj_get a k)"
proof (induction b arbitrary: a)
  case Nil
  then show ?case by (simp add: obj_spread_def)
next
  case (Cons kv b)
  obtain k' v where kv: "kv = (k', v)" by fastforce
  have IH: "obj_get (obj_spread (obj_set a k' v) b) k
      = (case obj_get b k of Some v \<Rightarrow> Some v | None \<Rightarrow> obj_get (obj_set a k' v) k)"
    using Cons by (simp add: obj_wf_def)
  have fresh: "obj_get b k' = None"
    using Cons.prems by (simp add: kv obj_wf_def obj_get_None_iff)
  show ?case
    using IH fresh by (auto simp: kv obj_spread_def split: option.splits)
qed

text \<open>Filtering an association list by key, after another key was removed.\<close>

lemma filter_key_delete [simp]:
  "filter (\<lambda>(k, _). k = m) (filter (\<lambda>(k, _). k \<noteq> n) kvs)
     = (if m = n then [] else filter (\<lambda>(k, _). k = m) kvs)"
  by (induction kvs) auto

lemma obj_wf_spread: "obj_wf a \<Longrightarrow> obj_wf (obj_spread a b)"
  by (induction b arbitrary: a) (auto simp: obj_spread_def)

subsection \<open>Splitting and joining\<close>

lemma split_char_nonempty [simp]: "split_char x s \<noteq> []"
  by (cases s) (auto split: list.splits)

lemma split_char_cons_ne:
  "c \<noteq> x \<Longrightarrow> split_char x (c # s) = (c # hd (split_char x s)) # tl (split_char x s)"
  by (auto split: list.splits)

lemma split_char_sep [simp]: "split_char x (x # s) = [] # split_char x s"
  by simp

lemma split_char_append_sep: "split_char x (a @ x # b) = split_char x a @ split_char x b"
proof (induction a)
  case (Cons c a)
  then show ?case by (cases "c = x") (auto split: list.splits)
qed simp

lemma split_char_notin: "x \<notin> set s \<Longrightarrow> split_char x s = [s]"
  by (induction s) auto

lemma split_char_parts: "p \<in> set (split_char x s) \<Longrightarrow> x \<notin> set p"
  by (induction s arbitrary: p) (fastforce split: list.splits if_splits)+

lemma js_join_cons: "xs \<noteq> [] \<Longrightarrow> js_join sep (x # xs) = x @ sep @ js_join sep xs"
  by (cases xs) auto

lemma split_char_join:
  "xs \<noteq> [] \<Longrightarrow> \<forall>p\<in>set xs. x \<notin> set p \<Longrightarrow> split_char x (js_join [x] xs) = xs"
proof (induction xs)
  case (Cons p xs)
  show ?case
  proof (cases "xs = []")
    case True
    with Cons.prems show ?thesis by (simp add: split_char_notin)
  next
    case False
    with Cons show ?thesis by (simp add: js_join_cons split_char_append_sep split_char_notin)
  qed
qed simp

lemma js_join_split [simp]: "js_join [x] (split_char x s) = s"
proof (induction s)
  case (Cons c s)
  obtain p ps where s: "split_char x s = p # ps" by (cases "split_char x s") auto
  with Cons show ?case by (cases ps) auto
qed simp

lemma length_split_char: "length (split_char x s) = Suc (count_list s x)"
  by (induction s) (auto split: list.splits)

lemma starts_with_iff: "starts_with s p \<longleftrightarrow> (\<exists>t. s = p @ t)"
  by (metis append_eq_conv_conj append_take_drop_id starts_with_def)

lemma starts_with_Nil [simp]: "starts_with s []"
  by (simp add: starts_with_def)

lemma starts_with_append [simp]: "starts_with (p @ t) p"
  by (simp add: starts_with_def)

lemma starts_with_singleton: "starts_with s [c] \<longleftrightarrow> s \<noteq> [] \<and> hd s = c"
  by (cases s) (auto simp: starts_with_def)

lemma js_includes_iff: "js_includes s p \<longleftrightarrow> (\<exists>a b. s = a @ p @ b)"
proof (induction s)
  case (Cons c s)
  have "(\<exists>a b. c # s = a @ p @ b) \<longleftrightarrow> starts_with (c # s) p \<or> (\<exists>a b. s = a @ p @ b)"
    unfolding starts_with_iff by (metis append_Cons append_eq_Cons_conv)
  with Cons show ?case by simp
qed auto

lemma js_includes_single [simp]: "js_includes s [c] \<longleftrightarrow> c \<in> set s"
  by (metis append_Cons append_Nil in_set_conv_decomp js_includes_iff)

lemma index_of_None: "index_of x s = None \<longleftrightarrow> x \<notin> set s"
  by (induction s) auto

lemma last_index_of_None: "last_index_of x s = None \<longleftrightarrow> x \<notin> set s"
  by (induction s) (auto split: option.splits)

lemma last_index_of_append:
  "x \<notin> set b \<Longrightarrow> last_index_of x (a @ x # b) = Some (length a)"
  using last_index_of_None [of x b] by (induction a) auto

lemma index_of_append: "x \<notin> set a \<Longrightarrow> index_of x (a @ x # b) = Some (length a)"
  by (induction a) auto

lemma dropWhile_id: "s = [] \<or> \<not> P (hd s) \<Longrightarrow> dropWhile P s = s"
  by (cases s) auto

lemma js_trim_id: "s = [] \<or> (\<not> is_ws (hd s) \<and> \<not> is_ws (last s)) \<Longrightarrow> js_trim s = s"
  by (cases "s = []") (simp_all add: js_trim_def trim_start_def trim_end_def dropWhile_id hd_rev)

lemma js_trim_no_ws: "\<forall>c\<in>set s. \<not> is_ws c \<Longrightarrow> js_trim s = s"
  by (cases "s = []") (auto intro: js_trim_id)

subsection \<open>Decimal numerals\<close>

lemma code_char_of [simp]: "n < 256 \<Longrightarrow> code (char_of n :: char) = n"
  by simp

lemma code_digit_char [simp]: "n < 10 \<Longrightarrow> code (digit_char n) = 48 + n"
  by (simp add: digit_char_def)

lemma digit_char_0: "digit_char 0 = CHR ''0''"
  by code_simp

lemma is_digit_digit_char [simp]: "n < 10 \<Longrightarrow> is_digit (digit_char n)"
  by (simp add: is_digit_def)

lemma digit_val_digit_char [simp]: "n < 10 \<Longrightarrow> digit_val (digit_char n) = n"
  by (simp add: digit_val_def)

lemma digit_char_val [simp]: "is_digit c \<Longrightarrow> digit_char (digit_val c) = c"
  by (simp add: digit_char_def digit_val_def is_digit_def)

lemma digit_val_less [simp]: "is_digit c \<Longrightarrow> digit_val c < 10"
  by (auto simp: is_digit_def digit_val_def)

lemma digits_val_acc_snoc: "digits_val_acc acc (s @ [c]) = digits_val_acc acc s * 10 + digit_val c"
  by (induction acc s rule: digits_val_acc.induct) auto

lemma digits_val_snoc: "digits_val (s @ [c]) = digits_val s * 10 + digit_val c"
  by (simp add: digits_val_def digits_val_acc_snoc)

lemma digits_val_nat_to_string [simp]: "digits_val (nat_to_string n) = n"
proof (induction n rule: nat_to_string.induct)
  case (1 n)
  show ?case
  proof (cases "n < 10")
    case True
    then show ?thesis by (simp add: nat_to_string.simps [of n] digits_val_def)
  next
    case False
    with "1.IH" show ?thesis by (simp add: nat_to_string.simps [of n] digits_val_snoc)
  qed
qed

lemma nat_to_string_not_Nil [simp]: "nat_to_string n \<noteq> []"
  by (subst nat_to_string.simps) simp

lemma nat_to_string_digits: "c \<in> set (nat_to_string n) \<Longrightarrow> is_digit c"
proof (induction n rule: nat_to_string.induct)
  case (1 n)
  then show ?case by (cases "n < 10") (auto simp: nat_to_string.simps [of n])
qed

lemma nat_to_string_hd: "n \<noteq> 0 \<Longrightarrow> hd (nat_to_string n) \<noteq> CHR ''0''"
proof (induction n rule: nat_to_string.induct)
  case (1 n)
  show ?case
  proof (cases "n < 10")
    case True
    have "CHR ''0'' = digit_char 0" by (simp add: digit_char_0)
    moreover have "digit_char n \<noteq> digit_char 0"
      using True "1.prems" by (metis digit_val_digit_char zero_less_numeral)
    ultimately show ?thesis using True by (simp add: nat_to_string.simps [of n])
  next
    case False
    with "1.IH" show ?thesis by (simp add: nat_to_string.simps [of n] div_eq_0_iff)
  qed
qed

lemma nat_to_string_length1: "n < 10 \<Longrightarrow> length (nat_to_string n) = 1"
  by (simp add: nat_to_string.simps [of n])

lemma digits_val_pos:
  "s \<noteq> [] \<Longrightarrow> \<forall>c\<in>set s. is_digit c \<Longrightarrow> hd s \<noteq> CHR ''0'' \<Longrightarrow> 0 < digits_val s"
proof (induction s rule: rev_induct)
  case (snoc c s)
  show ?case
  proof (cases "s = []")
    case True
    with snoc.prems have "is_digit c" "c \<noteq> CHR ''0''" by auto
    then have "digit_val c \<noteq> 0" by (metis digit_char_0 digit_char_val)
    with True show ?thesis by (simp add: digits_val_def)
  next
    case False
    with snoc show ?thesis by (simp add: digits_val_snoc)
  qed
qed simp

lemma nat_to_string_digits_val:
  "s \<noteq> [] \<Longrightarrow> \<forall>c\<in>set s. is_digit c \<Longrightarrow> length s = 1 \<or> hd s \<noteq> CHR ''0''
   \<Longrightarrow> nat_to_string (digits_val s) = s"
proof (induction s rule: rev_induct)
  case (snoc c s)
  show ?case
  proof (cases "s = []")
    case True
    with snoc.prems show ?thesis by (simp add: digits_val_def nat_to_string.simps)
  next
    case False
    with snoc.prems have hd: "hd s \<noteq> CHR ''0''" and dig: "\<forall>c\<in>set s. is_digit c" "is_digit c"
      by auto
    with False have pos: "0 < digits_val s" by (simp add: digits_val_pos)
    have IH: "nat_to_string (digits_val s) = s" using snoc.IH False hd dig by simp
    show ?thesis using pos dig(2) IH
      by (simp add: digits_val_snoc nat_to_string.simps [of "digits_val s * 10 + digit_val c"])
  qed
qed simp

end
