(* ===== verification/Http.thy ===== *)
theory Http
  imports Prelude "HOL-Library.Char_ord" "HOL-Library.List_Lexorder"
begin

section \<open>Web-standard values: Headers, URL, Request, Response\<close>

text \<open>
  The handlers of the program are functions from a WHATWG \<open>Request\<close> to a \<open>Response\<close>.
  This theory models the platform classes they use. A \<open>Headers\<close> object is its header
  list: names in lower case, values stripped of surrounding HTTP white space, in insertion
  order. A \<open>URL\<close> is the record of the members the sources read; \<open>Request.url\<close> is always
  a serialised absolute URL, so \<open>new URL(request.url)\<close> is that record.
\<close>

subsection \<open>Headers\<close>

type_synonym headers = "(string \<times> string) list"

definition http_ws :: "char \<Rightarrow> bool" where
  "http_ws c \<longleftrightarrow> code c \<in> {9, 10, 13, 32}"

definition header_value :: "string \<Rightarrow> string" where
  "header_value v = rev (dropWhile http_ws (rev (dropWhile http_ws v)))"

definition h_values :: "headers \<Rightarrow> string \<Rightarrow> string list" where
  "h_values hs n = map snd (filter (\<lambda>(k, _). k = to_lower n) hs)"

text \<open>\<open>get\<close> joins a repeated header with a comma and a space.\<close>

definition h_get :: "headers \<Rightarrow> string \<Rightarrow> string option" where
  "h_get hs n = (let vs = h_values hs n in if vs = [] then None else Some (js_join '', '' vs))"

definition h_has :: "headers \<Rightarrow> string \<Rightarrow> bool" where
  "h_has hs n \<longleftrightarrow> h_values hs n \<noteq> []"

definition h_append :: "headers \<Rightarrow> string \<Rightarrow> string \<Rightarrow> headers" where
  "h_append hs n v = hs @ [(to_lower n, header_value v)]"

definition h_delete :: "headers \<Rightarrow> string \<Rightarrow> headers" where
  "h_delete hs n = filter (\<lambda>(k, _). k \<noteq> to_lower n) hs"

fun h_set_list :: "headers \<Rightarrow> string \<Rightarrow> string \<Rightarrow> headers" where
  "h_set_list [] k v = [(k, v)]"
| "h_set_list ((k', v') # hs) k v =
     (if k' = k then (k, v) # filter (\<lambda>(k'', _). k'' \<noteq> k) hs else (k', v') # h_set_list hs k v)"

text \<open>\<open>set\<close> replaces the first occurrence and removes the others.\<close>

definition h_set :: "headers \<Rightarrow> string \<Rightarrow> string \<Rightarrow> headers" where
  "h_set hs n v = h_set_list hs (to_lower n) (header_value v)"

definition h_get_set_cookie :: "headers \<Rightarrow> string list" where
  "h_get_set_cookie hs = h_values hs ''set-cookie''"

text \<open>
  Iteration (\<open>forEach\<close>, \<open>entries\<close>, and the copy \<open>new Headers(h)\<close>): names in byte order, a
  repeated header combined, but each \<open>set-cookie\<close> on its own.
\<close>

definition h_entries :: "headers \<Rightarrow> headers" where
  "h_entries hs = concat (map (\<lambda>k.
     if k = ''set-cookie'' then map (\<lambda>v. (k, v)) (h_values hs k)
     else [(k, js_join '', '' (map snd (filter (\<lambda>(k', _). k' = k) hs)))])
     (sort (remdups (map fst hs))))"

definition h_of :: "(string \<times> string) list \<Rightarrow> headers" where
  "h_of ps = fold (\<lambda>(n, v) hs. h_append hs n v) ps []"

text \<open>Every name of the list is in lower case.\<close>

definition h_wf :: "headers \<Rightarrow> bool" where
  "h_wf hs \<longleftrightarrow> (\<forall>(k, v) \<in> set hs. to_lower k = k)"

lemma to_lower_idem [simp]: "to_lower (to_lower s) = to_lower s"
proof -
  have "lower_char (lower_char c) = lower_char c" for c
  proof (cases "65 \<le> code c \<and> code c \<le> 90 \<or> 192 \<le> code c \<and> code c \<le> 222 \<and> code c \<noteq> 215")
    case True
    then have "code (char_of (code c + 32) :: char) = code c + 32" by auto
    with True show ?thesis by (auto simp: lower_char_def)
  next
    case False
    then have "lower_char c = c" by (auto simp: lower_char_def)
    then show ?thesis by simp
  qed
  then show ?thesis by (simp add: to_lower_def)
qed

lemma h_values_append [simp]:
  "h_values (h_append hs n v) m
     = (if to_lower n = to_lower m then h_values hs m @ [header_value v] else h_values hs m)"
  by (simp add: h_values_def h_append_def)

lemma h_values_delete [simp]:
  "h_values (h_delete hs n) m = (if to_lower n = to_lower m then [] else h_values hs m)"
  by (simp add: h_values_def h_delete_def del: filter_filter)

lemma h_values_set [simp]:
  "h_values (h_set hs n v) m
     = (if to_lower n = to_lower m then [header_value v] else h_values hs m)"
proof -
  have "map snd (filter (\<lambda>(k, _). k = m') (h_set_list hs k v'))
      = (if k = m' then [v'] else map snd (filter (\<lambda>(k, _). k = m') hs))" for k m' v'
    by (induction hs k v' rule: h_set_list.induct) (auto simp del: filter_filter)
  then show ?thesis by (simp add: h_values_def h_set_def)
qed

lemma h_get_set: "h_get (h_set hs n v) m
    = (if to_lower n = to_lower m then Some (header_value v) else h_get hs m)"
  by (simp add: h_get_def)

lemma h_get_delete: "h_get (h_delete hs n) m = (if to_lower n = to_lower m then None else h_get hs m)"
  by (simp add: h_get_def)

lemma h_get_append_other: "to_lower n \<noteq> to_lower m \<Longrightarrow> h_get (h_append hs n v) m = h_get hs m"
  by (simp add: h_get_def)

lemma h_has_iff: "h_has hs n \<longleftrightarrow> h_get hs n \<noteq> None"
  by (simp add: h_has_def h_get_def Let_def)

lemma h_get_set_cookie_set [simp]:
  "to_lower n \<noteq> ''set-cookie'' \<Longrightarrow> h_get_set_cookie (h_set hs n v) = h_get_set_cookie hs"
  by (simp add: h_get_set_cookie_def to_lower_def lower_char_def)

lemma h_get_set_cookie_append [simp]:
  "h_get_set_cookie (h_append hs n v)
     = (if to_lower n = ''set-cookie'' then h_get_set_cookie hs @ [header_value v]
        else h_get_set_cookie hs)"
  by (simp add: h_get_set_cookie_def to_lower_def lower_char_def)

subsection \<open>Copying\<close>

text \<open>\<open>new Headers(h)\<close>: an iteration, appended name by name.\<close>

definition h_copy :: "headers \<Rightarrow> headers" where
  "h_copy hs = h_of (h_entries hs)"

text \<open>What the operations above build: lower-case names and stripped values.\<close>

definition h_norm :: "headers \<Rightarrow> bool" where
  "h_norm hs \<longleftrightarrow> (\<forall>(k, v) \<in> set hs. to_lower k = k \<and> header_value v = v)"

lemma dropWhile_idem: "dropWhile P (dropWhile P xs) = dropWhile P xs"
  by (induction xs) auto

lemma rev_dropWhile_rev_hd:
  "xs = [] \<or> \<not> P (hd xs) \<Longrightarrow> rev (dropWhile P (rev xs)) = [] \<or> \<not> P (hd (rev (dropWhile P (rev xs))))"
  by (cases xs) (auto simp: dropWhile_append)

lemma header_value_idem [simp]: "header_value (header_value v) = header_value v"
proof -
  let ?y = "dropWhile http_ws v"
  have fixed: "z = [] \<or> \<not> http_ws (hd z) \<Longrightarrow> dropWhile http_ws z = z" for z by (cases z) auto
  have "?y = [] \<or> \<not> http_ws (hd ?y)" using hd_dropWhile [of http_ws v] by blast
  then have "dropWhile http_ws (rev (dropWhile http_ws (rev ?y))) = rev (dropWhile http_ws (rev ?y))"
    by (intro fixed rev_dropWhile_rev_hd)
  then show ?thesis unfolding header_value_def by (simp add: dropWhile_idem)
qed

lemma h_norm_intros [simp]:
  "h_norm []" "h_norm hs \<Longrightarrow> h_norm (h_append hs n v)" "h_norm hs \<Longrightarrow> h_norm (h_set hs n v)"
  "h_norm hs \<Longrightarrow> h_norm (h_delete hs n)"
proof -
  have "h_norm hs \<Longrightarrow> h_norm (h_set_list hs (to_lower n) (header_value v))"
    by (induction hs "to_lower n" "header_value v" rule: h_set_list.induct) (auto simp: h_norm_def)
  then show "h_norm hs \<Longrightarrow> h_norm (h_set hs n v)" by (simp add: h_set_def)
qed (auto simp: h_norm_def h_append_def h_delete_def)

lemma h_of_snoc: "h_of (ps @ [(n, v)]) = h_append (h_of ps) n v"
  by (simp add: h_of_def)

lemma h_of_Nil [simp]: "h_of [] = []" by (simp add: h_of_def)

lemma h_norm_of [simp]: "h_norm (h_of ps)"
  by (induction ps rule: rev_induct) (auto simp: h_of_snoc)

lemma h_norm_copy [simp]: "h_norm (h_copy hs)"
  by (simp add: h_copy_def)

lemma h_values_of:
  "h_values (h_of ps) n = map (\<lambda>(k, v). header_value v) (filter (\<lambda>(k, v). to_lower k = to_lower n) ps)"
  by (induction ps rule: rev_induct) (auto simp: h_of_snoc h_values_def [of "[]"])

lemma filter_block:
  assumes "distinct ks" "\<And>k x. x \<in> set (f k) \<Longrightarrow> fst x = k"
  shows "filter (\<lambda>x. fst x = m) (concat (map f ks)) = (if m \<in> set ks then f m else [])"
proof -
  have *: "filter (\<lambda>x. fst x = m) (f k) = (if k = m then f k else [])" for k
    using assms(2) [of _ k] by (auto simp: filter_id_conv filter_empty_conv)
  from assms(1) show ?thesis by (induction ks) (auto simp: *)
qed

text \<open>A copy keeps every \<open>set-cookie\<close> line and the combined value of every other header.\<close>

lemma h_values_copy:
  assumes "h_norm hs"
  shows "h_values (h_copy hs) n
    = (if to_lower n = ''set-cookie'' then h_values hs n
       else case h_get hs n of None \<Rightarrow> [] | Some v \<Rightarrow> [header_value v])"
proof -
  let ?m = "to_lower n"
  let ?f = "\<lambda>k. if k = ''set-cookie'' then map (\<lambda>v. (k, v)) (h_values hs k)
     else [(k, js_join '', '' (map snd (filter (\<lambda>(k', _). k' = k) hs)))]"
  have keys: "to_lower k = k" if "(k, v) \<in> set hs" for k v using assms that by (auto simp: h_norm_def)
  have E: "h_entries hs = concat (map ?f (sort (remdups (map fst hs))))" by (simp add: h_entries_def)
  have "filter (\<lambda>(k, v). to_lower k = ?m) (h_entries hs) = filter (\<lambda>x. fst x = ?m) (h_entries hs)"
    unfolding E by (intro filter_cong) (auto split: if_splits dest: keys)
  also have "\<dots> = (if ?m \<in> fst ` set hs then ?f ?m else [])"
    unfolding E by (subst filter_block) (auto split: if_splits)
  finally have F: "h_values (h_copy hs) n
      = map (\<lambda>(k, v). header_value v) (if ?m \<in> fst ` set hs then ?f ?m else [])"
    by (simp add: h_copy_def h_values_of)
  have V: "h_values hs n = map snd (filter (\<lambda>(k, _). k = ?m) hs)" by (simp add: h_values_def)
  have empty: "h_values hs n = [] \<longleftrightarrow> ?m \<notin> fst ` set hs" unfolding V by (force simp: filter_empty_conv)
  have stripped: "map header_value (h_values hs n) = h_values hs n"
    using assms unfolding V by (intro map_idI) (auto simp: h_norm_def)
  show ?thesis
  proof (cases "?m = ''set-cookie''")
    case True
    have "h_values hs ''set-cookie'' = h_values hs n"
      using True by (simp add: h_values_def to_lower_def lower_char_def)
    then show ?thesis using F empty stripped True by (auto simp: comp_def)
  next
    case False
    then show ?thesis using F empty V by (auto simp: h_get_def Let_def)
  qed
qed

lemma h_get_set_cookie_copy [simp]: "h_norm hs \<Longrightarrow> h_get_set_cookie (h_copy hs) = h_get_set_cookie hs"
  by (simp add: h_get_set_cookie_def h_values_copy to_lower_def lower_char_def)

lemma js_join_singleton [simp]: "js_join sep [x] = x"
  by simp

lemma h_get_copy:
  "h_norm hs \<Longrightarrow> to_lower n \<noteq> ''set-cookie'' \<Longrightarrow> h_get (h_copy hs) n = map_option header_value (h_get hs n)"
  by (simp add: h_get_def [of "h_copy hs"] h_values_copy split: option.splits)

subsection \<open>URL, Request and Response\<close>

record url =
  protocol :: string
  host :: string
  pathname :: string
  search :: string
  search_params :: "(string \<times> string) list"

definition url_origin :: "url \<Rightarrow> string" where
  "url_origin u = protocol u @ ''//'' @ host u"

text \<open>\<open>searchParams.get\<close>: the first value of a repeated parameter.\<close>

definition param_get :: "url \<Rightarrow> string \<Rightarrow> string option" where
  "param_get u n = obj_get (search_params u) n"

text \<open>\<open>PeerRequest\<close>: the request and the peer address the server runtime puts on \<open>ip\<close>.\<close>

record request =
  req_method :: string
  req_url :: url
  req_headers :: headers
  req_body :: string
  req_ip :: "string option"

record response =
  status :: nat
  resp_headers :: headers
  resp_body :: "string option"
  status_text :: string

definition resp_ok :: "response \<Rightarrow> bool" where
  "resp_ok r \<longleftrightarrow> 200 \<le> status r \<and> status r \<le> 299"

end
