(* ===== verification/ClientAddress.thy ===== *)
theory ClientAddress
  imports Http
begin

unbundle bit_operations_syntax

section \<open>Client addresses and trusted proxies (\<open>sdk/src/server/client-address.ts\<close>)\<close>

text \<open>
  The caller's address is the input of every rate limit, so it is resolved from the socket
  peer and a list of trusted CIDR blocks, never from what the caller wrote. This theory
  translates the address parsers and printers, the CIDR parser, the trust test and the walk
  along \<open>X-Forwarded-For\<close>. A \<open>bigint\<close> is an \<open>int\<close>, with the shifts and masks of the code.
\<close>

subsection \<open>Constants\<close>

definition forwarded_for_header :: string where "forwarded_for_header = ''x-forwarded-for''"
definition trusted_proxies_env_key :: string where "trusted_proxies_env_key = ''WALLOW_TRUSTED_PROXIES''"
definition ipv4_width :: nat where "ipv4_width = 32"
definition ipv6_width :: nat where "ipv6_width = 128"
definition ipv4_octets :: nat where "ipv4_octets = 4"
definition ipv6_groups :: nat where "ipv6_groups = 8"
definition ipv6_group_digits :: nat where "ipv6_group_digits = 4"
definition bits_per_octet :: nat where "bits_per_octet = 8"
definition bits_per_group :: nat where "bits_per_group = 16"
definition octet_mask :: int where "octet_mask = push_bit bits_per_octet 1 - 1"
definition group_mask :: int where "group_mask = push_bit bits_per_group 1 - 1"
definition ipv4_mask :: int where "ipv4_mask = push_bit ipv4_width 1 - 1"
definition v4_mapped_prefix :: int where "v4_mapped_prefix = group_mask"
definition v4_mapped_shift :: nat where "v4_mapped_shift = ipv4_width"
definition max_elision_halves :: nat where "max_elision_halves = 2"
definition min_elided_groups :: int where "min_elided_groups = 1"

lemmas address_consts = forwarded_for_header_def ipv4_width_def ipv6_width_def ipv4_octets_def
  ipv6_groups_def ipv6_group_digits_def bits_per_octet_def bits_per_group_def octet_mask_def
  group_mask_def ipv4_mask_def v4_mapped_prefix_def v4_mapped_shift_def max_elision_halves_def
  min_elided_groups_def

text \<open>An \<open>Address\<close> and a \<open>CidrBlock\<close>.\<close>

record address =
  addr_value :: int
  addr_width :: nat
  addr_text :: string

record cidr_block =
  network :: int
  cidr_mask :: int
  cidr_width :: nat

type_synonym trusted_proxies = "cidr_block list"

definition trust_no_proxies :: trusted_proxies where "trust_no_proxies = []"

subsection \<open>Parsing\<close>

fun all_digits :: "string \<Rightarrow> bool" where
  "all_digits [] = True"
| "all_digits (c # s) = (if \<not> is_digit c then False else all_digits s)"

definition is_digits :: "string \<Rightarrow> bool" where
  "is_digits text = (if length text = 0 then False else all_digits text)"

fun parse_octets :: "int \<Rightarrow> string list \<Rightarrow> int option" where
  "parse_octets v [] = Some v"
| "parse_octets v (part # parts) =
     (if \<not> is_digits part \<or> (length part > 1 \<and> starts_with part ''0'') then None
      else let octet = int (digits_val part) in
        if octet > octet_mask then None
        else parse_octets (push_bit bits_per_octet v OR octet) parts)"

definition parse_ipv4 :: "string \<Rightarrow> int option" where
  "parse_ipv4 text =
     (let parts = split_char (CHR ''.'') text in
      if length parts \<noteq> ipv4_octets then None else parse_octets 0 parts)"

definition split_groups :: "string \<Rightarrow> string list" where
  "split_groups half = (if half = '''' then [] else split_char (CHR '':'') half)"

definition expand_groups :: "string \<Rightarrow> string list option" where
  "expand_groups text =
     (let halves = split_str ''::'' text in
      if length halves > max_elision_halves then None
      else if length halves < max_elision_halves then
        (let groups = split_groups text in
         if length groups = ipv6_groups then Some groups else None)
      else
        (let leading = split_groups (halves ! 0);
             trailing = split_groups (halves ! 1);
             missing = int ipv6_groups - int (length leading) - int (length trailing) in
         if missing < min_elided_groups then None
         else Some (leading @ replicate (nat missing) ''0'' @ trailing)))"

definition is_hex_digit :: "char \<Rightarrow> bool" where
  "is_hex_digit c \<longleftrightarrow> is_digit c \<or> 97 \<le> code c \<and> code c \<le> 102 \<or> 65 \<le> code c \<and> code c \<le> 70"

definition hex_val :: "char \<Rightarrow> nat" where
  "hex_val c =
     (if is_digit c then code c - 48
      else if 97 \<le> code c then code c - 87 else code c - 55)"

fun parse_hex_acc :: "nat \<Rightarrow> string \<Rightarrow> nat" where
  "parse_hex_acc acc [] = acc"
| "parse_hex_acc acc (c # s) = parse_hex_acc (acc * 16 + hex_val c) s"

fun parse_groups :: "int \<Rightarrow> string list \<Rightarrow> int option" where
  "parse_groups v [] = Some v"
| "parse_groups v (grp # grps) =
     (if grp = '''' \<or> length grp > ipv6_group_digits \<or> \<not> list_all is_hex_digit grp then None
      else let parsed = int (parse_hex_acc 0 grp) in
        if parsed > group_mask then None
        else parse_groups (push_bit bits_per_group v OR parsed) grps)"

text \<open>
  A dotted-quad tail occupies the last two groups: the head keeps the colon and two
  placeholder groups, and the embedded value overwrites them.
\<close>

definition parse_ipv6 :: "string \<Rightarrow> int option" where
  "parse_ipv6 text =
     (let last_colon = last_index_of (CHR '':'') text;
          split = (case last_colon of
              Some i \<Rightarrow> if js_includes (drop i text) ''.''
                then (case parse_ipv4 (drop (Suc i) text) of
                        None \<Rightarrow> None
                      | Some embedded \<Rightarrow> Some (take (Suc i) text @ ''0:0'', Some embedded))
                else Some (text, None)
            | None \<Rightarrow> Some (text, None)) in
      case split of
        None \<Rightarrow> None
      | Some (head, tail) \<Rightarrow>
          (case expand_groups head of
             None \<Rightarrow> None
           | Some groups \<Rightarrow>
               (case parse_groups 0 groups of
                  None \<Rightarrow> None
                | Some v \<Rightarrow>
                    (case tail of
                       None \<Rightarrow> Some v
                     | Some t \<Rightarrow> Some (push_bit v4_mapped_shift (drop_bit v4_mapped_shift v) OR t)))))"

subsection \<open>Printing\<close>

definition format_ipv4 :: "int \<Rightarrow> string" where
  "format_ipv4 v = js_join ''.'' (map (\<lambda>index.
     int_to_string (drop_bit ((ipv4_octets - 1 - index) * bits_per_octet) v AND octet_mask))
     [0..<ipv4_octets])"

definition hex_digit :: "nat \<Rightarrow> char" where
  "hex_digit n = (if n < 10 then char_of (48 + n) else char_of (87 + n))"

fun nat_to_hex :: "nat \<Rightarrow> string" where
  "nat_to_hex n = (if n < 16 then [hex_digit n] else nat_to_hex (n div 16) @ [hex_digit (n mod 16)])"

declare nat_to_hex.simps [simp del]

definition format_ipv6 :: "int \<Rightarrow> string" where
  "format_ipv6 v = js_join '':'' (map (\<lambda>index.
     nat_to_hex (nat (drop_bit ((ipv6_groups - 1 - index) * bits_per_group) v AND group_mask)))
     [0..<ipv6_groups])"

subsection \<open>Addresses, CIDR blocks, the trust list\<close>

text \<open>Brackets, a port and a zone index are stripped before parsing.\<close>

definition undecorate :: "string \<Rightarrow> string" where
  "undecorate raw =
     (let text = js_trim raw;
          bracket_end = last_index_of (CHR '']'') text;
          text' =
            (if starts_with text ''['' \<and> bracket_end \<noteq> None
             then take (the bracket_end - 1) (drop 1 text)
             else
               (let first_colon = index_of (CHR '':'') text in
                if first_colon \<noteq> None \<and> first_colon = last_index_of (CHR '':'') text
                   \<and> js_includes text ''.''
                then take (the first_colon) text else text)) in
      case index_of (CHR ''%'') text' of None \<Rightarrow> text' | Some zone \<Rightarrow> take zone text')"

definition parse_address :: "string \<Rightarrow> address option" where
  "parse_address raw =
     (let text = undecorate raw in
      if length text = 0 then None
      else if \<not> js_includes text '':'' then
        (case parse_ipv4 text of
           None \<Rightarrow> None
         | Some v \<Rightarrow> Some \<lparr>addr_value = v, addr_width = ipv4_width, addr_text = format_ipv4 v\<rparr>)
      else
        (case parse_ipv6 text of
           None \<Rightarrow> None
         | Some v \<Rightarrow>
             if drop_bit v4_mapped_shift v = v4_mapped_prefix then
               (let mapped = v AND ipv4_mask in
                Some \<lparr>addr_value = mapped, addr_width = ipv4_width, addr_text = format_ipv4 mapped\<rparr>)
             else Some \<lparr>addr_value = v, addr_width = ipv6_width, addr_text = format_ipv6 v\<rparr>))"

definition cidr_of :: "address \<Rightarrow> nat \<Rightarrow> cidr_block" where
  "cidr_of a prefix =
     (let host_bits = addr_width a - prefix;
          mask = push_bit host_bits (- 1) AND (push_bit (addr_width a) 1 - 1) in
      \<lparr>network = addr_value a AND mask, cidr_mask = mask, cidr_width = addr_width a\<rparr>)"

definition parse_cidr :: "string \<Rightarrow> cidr_block option" where
  "parse_cidr entry =
     (let slash = last_index_of (CHR ''/'') entry;
          address_text = (case slash of None \<Rightarrow> entry | Some i \<Rightarrow> take i entry) in
      case parse_address address_text of
        None \<Rightarrow> None
      | Some a \<Rightarrow>
          (case slash of
             None \<Rightarrow> Some (cidr_of a (addr_width a))
           | Some i \<Rightarrow>
               (let prefix_text = js_trim (drop (Suc i) entry) in
                if \<not> is_digits prefix_text then None
                else if digits_val prefix_text > addr_width a then None
                else Some (cidr_of a (digits_val prefix_text)))))"

definition loopback_ranges :: "string list" where
  "loopback_ranges = [''127.0.0.0/8'', ''::1/128'']"

definition link_local_ranges :: "string list" where
  "link_local_ranges = [''169.254.0.0/16'', ''fe80::/10'']"

definition unique_local_ranges :: "string list" where
  "unique_local_ranges = [''10.0.0.0/8'', ''172.16.0.0/12'', ''192.168.0.0/16'', ''fc00::/7'']"

definition presets :: "(string \<times> string list) list" where
  "presets =
     [(''loopback'', loopback_ranges),
      (''linklocal'', link_local_ranges),
      (''uniquelocal'', unique_local_ranges),
      (''private'', loopback_ranges @ link_local_ranges @ unique_local_ranges)]"

definition parse_entry :: "string \<Rightarrow> trusted_proxies" where
  "parse_entry entry =
     (let ranges = (case obj_get presets (to_lower entry) of Some preset \<Rightarrow> preset | None \<Rightarrow> [entry]) in
      List.map_filter parse_cidr ranges)"

definition parse_trusted_proxies :: "string option \<Rightarrow> trusted_proxies" where
  "parse_trusted_proxies spec =
     (case spec of
        None \<Rightarrow> trust_no_proxies
      | Some s \<Rightarrow> concat (map parse_entry (split_runs (\<lambda>c. is_ws c \<or> c = CHR '','') s)))"

definition is_trusted :: "address \<Rightarrow> trusted_proxies \<Rightarrow> bool" where
  "is_trusted a trusted \<longleftrightarrow>
     list_ex (\<lambda>block. cidr_width block = addr_width a
                \<and> (addr_value a AND cidr_mask block) = network block) trusted"

definition is_trusted_peer :: "string option \<Rightarrow> trusted_proxies \<Rightarrow> bool" where
  "is_trusted_peer peer trusted =
     (let raw = js_trim (case peer of Some p \<Rightarrow> p | None \<Rightarrow> '''') in
      if raw = '''' \<or> length trusted = 0 then False
      else (case parse_address raw of None \<Rightarrow> False | Some a \<Rightarrow> is_trusted a trusted))"

subsection \<open>Resolving the caller\<close>

text \<open>
  The loop over the chain from right to left: \<open>Inl\<close> is the early return of the first
  untrusted address, \<open>Inr\<close> the leftmost trusted one seen when the loop ends.
\<close>

fun walk_chain :: "trusted_proxies \<Rightarrow> string option \<Rightarrow> string list \<Rightarrow> string + string option" where
  "walk_chain trusted leftmost [] = Inr leftmost"
| "walk_chain trusted leftmost (entry # entries) =
     (case parse_address entry of
        Some candidate \<Rightarrow>
          if \<not> is_trusted candidate trusted then Inl (addr_text candidate)
          else walk_chain trusted (Some (addr_text candidate)) entries
      | None \<Rightarrow> walk_chain trusted leftmost entries)"

definition resolve_client_address ::
    "headers \<Rightarrow> string option \<Rightarrow> trusted_proxies \<Rightarrow> string option" where
  "resolve_client_address hs peer trusted =
     (let raw_peer = js_trim (case peer of Some p \<Rightarrow> p | None \<Rightarrow> '''') in
      if raw_peer = '''' then None
      else
        (case parse_address raw_peer of
           None \<Rightarrow> Some raw_peer
         | Some peer_address \<Rightarrow>
             if length trusted = 0 \<or> \<not> is_trusted peer_address trusted
             then Some (addr_text peer_address)
             else
               (case h_get hs forwarded_for_header of
                  None \<Rightarrow> Some (addr_text peer_address)
                | Some chain \<Rightarrow>
                    (case walk_chain trusted None (rev (split_char (CHR '','') chain)) of
                       Inl text \<Rightarrow> Some text
                     | Inr (Some leftmost) \<Rightarrow> Some leftmost
                     | Inr None \<Rightarrow> Some (addr_text peer_address)))))"

definition resolve_trusted_proxies :: "string option \<Rightarrow> env \<Rightarrow> trusted_proxies" where
  "resolve_trusted_proxies spec env =
     parse_trusted_proxies (case spec of Some s \<Rightarrow> Some s | None \<Rightarrow> env trusted_proxies_env_key)"

definition create_client_address_resolver :: "env \<Rightarrow> request \<Rightarrow> string option" where
  "create_client_address_resolver env =
     (let trusted = parse_trusted_proxies (env trusted_proxies_env_key) in
      (\<lambda>req. resolve_client_address (req_headers req) (req_ip req) trusted))"

subsection \<open>Shifts and masks as arithmetic\<close>

lemma push_or:
  assumes "0 \<le> t" "t < 2 ^ n"
  shows "push_bit n v OR t = v * 2 ^ n + (t :: int)"
  using concat_bit_def [of n t v] concat_bit_eq [of n t v] assms
  by (simp add: take_bit_int_eq_self or.commute push_bit_eq_mult)

lemma drop_and_mask: "drop_bit n v AND (2 ^ k - 1) = v div 2 ^ n mod (2 ^ k :: int)"
  by (simp add: drop_bit_eq_div flip: mask_eq_exp_minus_1 take_bit_eq_mask take_bit_eq_mod)

lemma upt_rev: "map (\<lambda>i. n - 1 - i) [0..<n] = rev [0..<n]"
  by (rule nth_equalityI) (auto simp: rev_nth)

text \<open>Reading the base-\<open>B\<close> digits of a number from the top gives it back.\<close>

lemma horner:
  "fold (\<lambda>d a. a * B + d) (map (\<lambda>i. v div B ^ i mod B) (rev [0..<n])) a0
     = a0 * B ^ n + v mod (B ^ n :: int)" if "0 < B"
proof (induction n arbitrary: a0)
  case (Suc n)
  have "v mod (B ^ n * B) = B ^ n * (v div B ^ n mod B) + v mod B ^ n"
    using that by (intro zmod_zmult2_eq) simp
  with Suc show ?case by (simp add: algebra_simps)
qed simp

subsection \<open>IPv4: one spelling per address\<close>

lemma octet_mask_eq: "octet_mask = 255"
  by (simp add: octet_mask_def bits_per_octet_def)

lemma group_mask_eq: "group_mask = 65535"
  by (simp add: group_mask_def bits_per_group_def)

lemma all_digits_iff: "all_digits s \<longleftrightarrow> (\<forall>c\<in>set s. is_digit c)"
  by (induction s) auto

lemma is_digits_iff: "is_digits s \<longleftrightarrow> s \<noteq> [] \<and> (\<forall>c\<in>set s. is_digit c)"
  by (simp add: is_digits_def all_digits_iff)

lemma nat_to_string_canonical:
  "is_digits (nat_to_string n)" "\<not> (length (nat_to_string n) > 1 \<and> starts_with (nat_to_string n) ''0'')"
proof -
  show "is_digits (nat_to_string n)" using nat_to_string_digits by (auto simp: is_digits_iff)
  show "\<not> (length (nat_to_string n) > 1 \<and> starts_with (nat_to_string n) ''0'')"
    using nat_to_string_hd [of n] nat_to_string_length1 [of n]
    by (cases "n = 0") (auto simp: starts_with_singleton)
qed

lemma canonical_decimal:
  assumes "is_digits s" "\<not> (length s > 1 \<and> starts_with s ''0'')"
  shows "nat_to_string (digits_val s) = s"
proof (rule nat_to_string_digits_val)
  show "length s = 1 \<or> hd s \<noteq> CHR ''0''"
    using assms by (cases s) (auto simp: is_digits_iff starts_with_singleton)
qed (use assms in \<open>auto simp: is_digits_iff\<close>)

lemma parse_octets_print:
  "\<forall>n\<in>set ns. n < 256 \<Longrightarrow> parse_octets v (map nat_to_string ns)
     = Some (fold (\<lambda>d a. a * 256 + d) (map int ns) v)"
proof (induction ns arbitrary: v)
  case (Cons n ns)
  then have "push_bit bits_per_octet v OR int n = v * 256 + int n"
    by (simp add: push_or bits_per_octet_def)
  with Cons show ?case using nat_to_string_canonical [of n] by (auto simp: octet_mask_eq)
qed simp

lemma parse_octets_inv:
  "parse_octets v parts = Some w \<Longrightarrow>
   \<exists>ns. parts = map nat_to_string ns \<and> (\<forall>n\<in>set ns. n < 256)
      \<and> w = fold (\<lambda>d a. a * 256 + d) (map int ns) v"
proof (induction v parts rule: parse_octets.induct)
  case (2 v part parts)
  let ?n = "digits_val part"
  from "2.prems" have ok: "is_digits part" "\<not> (length part > 1 \<and> starts_with part ''0'')"
      "int ?n \<le> octet_mask" "parse_octets (push_bit bits_per_octet v OR int ?n) parts = Some w"
    by (auto simp: Let_def split: if_splits)
  then have n: "?n < 256" "nat_to_string ?n = part"
    by (simp_all add: octet_mask_eq canonical_decimal)
  have "push_bit bits_per_octet v OR int ?n = v * 256 + int ?n"
    using n by (simp add: push_or bits_per_octet_def)
  with "2.IH" ok obtain ns where "parts = map nat_to_string ns" "\<forall>n\<in>set ns. n < 256"
      "w = fold (\<lambda>d a. a * 256 + d) (map int ns) (v * 256 + int ?n)" by auto
  with n have "part # parts = map nat_to_string (?n # ns) \<and> (\<forall>n\<in>set (?n # ns). n < 256)
      \<and> w = fold (\<lambda>d a. a * 256 + d) (map int (?n # ns)) v" by simp
  then show ?case by (rule exI [of _ "?n # ns"])
qed simp

definition octet_list :: "int \<Rightarrow> nat list" where
  "octet_list v = map (\<lambda>i. nat (v div 256 ^ i mod 256)) (rev [0..<4])"

lemma octet_list_bound: "n \<in> set (octet_list v) \<Longrightarrow> n < 256"
  by (auto simp: octet_list_def)

lemma format_ipv4_octets: "format_ipv4 v = js_join ''.'' (map nat_to_string (octet_list v))"
proof -
  have "int_to_string (drop_bit ((ipv4_octets - 1 - i) * bits_per_octet) v AND octet_mask)
      = nat_to_string (nat (v div 256 ^ (4 - 1 - i) mod 256))" for i
  proof -
    have "drop_bit ((ipv4_octets - 1 - i) * bits_per_octet) v AND octet_mask
        = v div 2 ^ ((4 - 1 - i) * 8) mod 256"
      using drop_and_mask [of "(4 - 1 - i) * 8" v 8]
      by (simp add: ipv4_octets_def bits_per_octet_def octet_mask_eq)
    moreover have "(2 :: int) ^ ((4 - 1 - i) * 8) = 256 ^ (4 - 1 - i)"
      using power_mult [of "2 :: int" 8 "4 - 1 - i"] by (simp add: mult.commute)
    ultimately show ?thesis by (simp add: int_to_string_def)
  qed
  then have "map (\<lambda>i. int_to_string (drop_bit ((ipv4_octets - 1 - i) * bits_per_octet) v AND octet_mask)) [0..<4]
      = map (\<lambda>i. nat_to_string (nat (v div 256 ^ i mod 256))) (map (\<lambda>i. 4 - 1 - i) [0..<4])"
    by simp
  then show ?thesis by (simp only: upt_rev) (simp add: format_ipv4_def octet_list_def ipv4_octets_def comp_def)
qed

lemma octet_list_value:
  assumes "0 \<le> v" "v < 2 ^ 32"
  shows "fold (\<lambda>d a. a * 256 + d) (map int (octet_list v)) 0 = v"
proof -
  have "map int (octet_list v) = map (\<lambda>i. v div 256 ^ i mod 256) (rev [0..<4])"
    by (simp add: octet_list_def comp_def)
  then show ?thesis using horner [of 256 v 4 0] assms by simp
qed

lemma fold_base_bounds:
  "\<forall>n\<in>set ns. n < B \<Longrightarrow> 0 \<le> v \<Longrightarrow> 0 \<le> fold (\<lambda>d a. a * int B + d) (map int ns) v
    \<and> fold (\<lambda>d a. a * int B + d) (map int ns) v < (v + 1) * int B ^ length ns"
proof (induction ns arbitrary: v)
  case (Cons n ns)
  have b: "0 \<le> v * int B + int n" "v * int B + int n + 1 \<le> (v + 1) * int B"
    using Cons.prems by (auto simp add: distrib_right)
  have le: "(v * int B + int n + 1) * int B ^ length ns \<le> (v + 1) * int B * int B ^ length ns"
    by (rule mult_right_mono [OF b(2)]) simp
  have "0 \<le> fold (\<lambda>d a. a * int B + d) (map int ns) (v * int B + int n)
    \<and> fold (\<lambda>d a. a * int B + d) (map int ns) (v * int B + int n)
        < (v * int B + int n + 1) * int B ^ length ns"
    using Cons.IH [of "v * int B + int n"] Cons.prems b by simp
  with le show ?case by (simp add: mult.assoc)
qed simp

lemma base_digits_unique:
  "length ns = n \<Longrightarrow> \<forall>d\<in>set ns. d < B \<Longrightarrow> 0 \<le> v \<Longrightarrow> 0 < B \<Longrightarrow>
   map (\<lambda>i. nat (fold (\<lambda>d a. a * int B + d) (map int ns) v div int B ^ i mod int B)) (rev [0..<n]) = ns"
proof (induction ns arbitrary: n rule: rev_induct)
  case (snoc d ns)
  let ?w = "fold (\<lambda>d a. a * int B + d) (map int ns) v"
  have w: "0 \<le> ?w" using fold_base_bounds [of ns B v] snoc.prems by simp
  have d: "d < B" using snoc.prems by simp
  obtain m where m: "n = Suc m" "length ns = m" using snoc.prems by auto
  have "(?w * int B + int d) div int B ^ Suc i mod int B = ?w div int B ^ i mod int B" for i
    using d by (simp add: zdiv_zmult2_eq)
  then have "map (\<lambda>i. nat ((?w * int B + int d) div int B ^ Suc i mod int B)) (rev [0..<m]) = ns"
    using snoc.IH [of m] snoc.prems m by simp
  moreover have "rev [0..<Suc m] = map Suc (rev [0..<m]) @ [0]"
    by (simp add: map_Suc_upt upt_conv_Cons flip: rev_map)
  moreover have "nat ((?w * int B + int d) mod int B) = d" using d by simp
  ultimately show ?case by (simp add: m comp_def)
qed simp

lemma no_dot_in_decimal: "CHR ''.'' \<notin> set (nat_to_string n)"
  using nat_to_string_digits [of "CHR ''.''" n] by (auto simp: is_digit_def)

lemma parse_format_ipv4:
  assumes "0 \<le> v" "v < 2 ^ 32"
  shows "parse_ipv4 (format_ipv4 v) = Some v"
proof -
  have "split_char (CHR ''.'') (format_ipv4 v) = map nat_to_string (octet_list v)"
    unfolding format_ipv4_octets using no_dot_in_decimal
    by (intro split_char_join) (auto simp: octet_list_def)
  moreover have "length (octet_list v) = 4" by (simp add: octet_list_def)
  ultimately show ?thesis
    using parse_octets_print [of "octet_list v" 0] octet_list_bound octet_list_value [OF assms]
    by (simp add: parse_ipv4_def ipv4_octets_def)
qed

lemma parse_ipv4_Some:
  assumes "parse_ipv4 s = Some v"
  shows "0 \<le> v \<and> v < 2 ^ 32 \<and> s = format_ipv4 v"
proof -
  have len: "length (split_char (CHR ''.'') s) = 4"
    and parse: "parse_octets 0 (split_char (CHR ''.'') s) = Some v"
    using assms by (auto simp: parse_ipv4_def ipv4_octets_def Let_def split: if_splits)
  obtain ns where ns: "split_char (CHR ''.'') s = map nat_to_string ns" "\<forall>n\<in>set ns. n < 256"
      "v = fold (\<lambda>d a. a * 256 + d) (map int ns) 0"
    using parse_octets_inv [OF parse] by blast
  from len ns have l: "length ns = 4" by simp
  have "octet_list v = ns"
    using base_digits_unique [OF l ns(2), of 0] ns(3) by (simp add: octet_list_def)
  moreover have "s = js_join ''.'' (map nat_to_string ns)"
    using js_join_split [of "CHR ''.''" s] ns(1) by simp
  moreover have "0 \<le> v \<and> v < 2 ^ 32"
    using fold_base_bounds [OF ns(2), of 0] ns(3) l by simp
  ultimately show ?thesis by (simp add: format_ipv4_octets)
qed

subsection \<open>IPv6\<close>

lemma code_hex_digit: "n < 16 \<Longrightarrow> code (hex_digit n) = (if n < 10 then 48 + n else 87 + n)"
  by (simp add: hex_digit_def)

lemma hex_digit_is_hex: "n < 16 \<Longrightarrow> is_hex_digit (hex_digit n)"
  by (auto simp: is_hex_digit_def is_digit_def code_hex_digit)

lemma hex_val_hex_digit: "n < 16 \<Longrightarrow> hex_val (hex_digit n) = n"
  by (auto simp: hex_val_def is_digit_def code_hex_digit)

lemma hex_val_less: "is_hex_digit c \<Longrightarrow> hex_val c < 16"
  by (auto simp: hex_val_def is_hex_digit_def is_digit_def)

lemma parse_hex_acc_append: "parse_hex_acc a (s @ t) = parse_hex_acc (parse_hex_acc a s) t"
  by (induction a s rule: parse_hex_acc.induct) auto

lemma nat_to_hex_not_Nil [simp]: "nat_to_hex n \<noteq> []"
  by (subst nat_to_hex.simps) simp

lemma nat_to_hex_chars: "c \<in> set (nat_to_hex n) \<Longrightarrow> is_hex_digit c"
proof (induction n rule: nat_to_hex.induct)
  case (1 n)
  then show ?case
    by (cases "n < 16") (auto simp: nat_to_hex.simps [of n] hex_digit_is_hex)
qed

lemma parse_hex_nat_to_hex [simp]: "parse_hex_acc 0 (nat_to_hex n) = n"
proof (induction n rule: nat_to_hex.induct)
  case (1 n)
  then show ?case
    by (cases "n < 16") (auto simp: nat_to_hex.simps [of n] hex_val_hex_digit parse_hex_acc_append)
qed

lemma nat_to_hex_length: "n < 16 ^ Suc k \<Longrightarrow> length (nat_to_hex n) \<le> Suc k"
proof (induction k arbitrary: n)
  case 0
  then show ?case by (simp add: nat_to_hex.simps)
next
  case (Suc k)
  have "n div 16 < 16 ^ Suc k" using Suc.prems by (simp add: less_mult_imp_div_less)
  with Suc.IH show ?case by (simp add: nat_to_hex.simps [of n])
qed

lemma hex_no_sep:
  assumes "is_hex_digit c"
  shows "c \<noteq> CHR '':''" "c \<noteq> CHR ''.''" "c \<noteq> CHR ''%''" "c \<noteq> CHR ''[''" "\<not> is_ws c"
  using assms by (auto simp: is_hex_digit_def is_digit_def is_ws_def)

text \<open>The groups of a value, most significant first.\<close>

definition group_list :: "int \<Rightarrow> nat list" where
  "group_list v = map (\<lambda>i. nat (v div 65536 ^ i mod 65536)) (rev [0..<8])"

lemma group_list_bound: "n \<in> set (group_list v) \<Longrightarrow> n < 65536"
  by (auto simp: group_list_def)

lemma length_group_list [simp]: "length (group_list v) = 8"
  by (simp add: group_list_def)

lemma format_ipv6_groups: "format_ipv6 v = js_join '':'' (map nat_to_hex (group_list v))"
proof -
  have "nat (drop_bit ((ipv6_groups - 1 - i) * bits_per_group) v AND group_mask)
      = nat (v div 65536 ^ (8 - 1 - i) mod 65536)" for i
  proof -
    have "drop_bit ((ipv6_groups - 1 - i) * bits_per_group) v AND group_mask
        = v div 2 ^ ((8 - 1 - i) * 16) mod 65536"
      using drop_and_mask [of "(8 - 1 - i) * 16" v 16]
      by (simp add: ipv6_groups_def bits_per_group_def group_mask_eq)
    moreover have "(2 :: int) ^ ((8 - 1 - i) * 16) = 65536 ^ (8 - 1 - i)"
      using power_mult [of "2 :: int" 16 "8 - 1 - i"] by (simp add: mult.commute)
    ultimately show ?thesis by simp
  qed
  then have "map (\<lambda>i. nat_to_hex (nat (drop_bit ((ipv6_groups - 1 - i) * bits_per_group) v AND group_mask))) [0..<8]
      = map (\<lambda>i. nat_to_hex (nat (v div 65536 ^ i mod 65536))) (map (\<lambda>i. 8 - 1 - i) [0..<8])"
    by simp
  then show ?thesis by (simp only: upt_rev) (simp add: format_ipv6_def group_list_def ipv6_groups_def comp_def)
qed

lemma parse_groups_print:
  "\<forall>n\<in>set ns. n < 65536 \<Longrightarrow> parse_groups v (map nat_to_hex ns)
     = Some (fold (\<lambda>d a. a * 65536 + d) (map int ns) v)"
proof (induction ns arbitrary: v)
  case (Cons n ns)
  then have "push_bit bits_per_group v OR int n = v * 65536 + int n"
    by (simp add: push_or bits_per_group_def)
  moreover have "length (nat_to_hex n) \<le> 4" using nat_to_hex_length [of n 3] Cons.prems by simp
  moreover have "list_all is_hex_digit (nat_to_hex n)" by (auto simp: list_all_iff nat_to_hex_chars)
  ultimately show ?case using Cons by (auto simp: group_mask_eq ipv6_group_digits_def)
qed simp

lemma parse_groups_inv:
  "parse_groups v gs = Some w \<Longrightarrow>
   \<exists>ns. length ns = length gs \<and> (\<forall>n\<in>set ns. n < 65536)
      \<and> w = fold (\<lambda>d a. a * 65536 + d) (map int ns) v"
proof (induction v gs rule: parse_groups.induct)
  case (2 v g gs)
  let ?n = "parse_hex_acc 0 g"
  from "2.prems" have ok: "list_all is_hex_digit g" "length g \<le> ipv6_group_digits" "g \<noteq> []"
      "int ?n \<le> group_mask" "parse_groups (push_bit bits_per_group v OR int ?n) gs = Some w"
    by (auto simp: Let_def split: if_splits)
  then have n: "?n < 65536" by (simp add: group_mask_eq)
  have "push_bit bits_per_group v OR int ?n = v * 65536 + int ?n"
    using n by (simp add: push_or bits_per_group_def)
  with "2.IH" ok obtain ns where "length ns = length gs" "\<forall>n\<in>set ns. n < 65536"
      "w = fold (\<lambda>d a. a * 65536 + d) (map int ns) (v * 65536 + int ?n)" by auto
  with n have "length (?n # ns) = length (g # gs) \<and> (\<forall>n\<in>set (?n # ns). n < 65536)
      \<and> w = fold (\<lambda>d a. a * 65536 + d) (map int (?n # ns)) v" by simp
  then show ?case by (rule exI [of _ "?n # ns"])
qed simp

lemma split_str_acc_no_sep:
  "\<not> js_includes s sep \<Longrightarrow> sep \<noteq> [] \<Longrightarrow> split_str_acc sep acc s = [rev acc @ s]"
  by (induction sep acc s rule: split_str_acc.induct) auto

lemma no_double_colon:
  "xs \<noteq> [] \<Longrightarrow> \<forall>p\<in>set xs. p \<noteq> [] \<and> CHR '':'' \<notin> set p \<Longrightarrow> \<not> js_includes (js_join '':'' xs) ''::''"
proof
  assume "xs \<noteq> []" and xs: "\<forall>p\<in>set xs. p \<noteq> [] \<and> CHR '':'' \<notin> set p"
    and "js_includes (js_join '':'' xs) ''::''"
  then obtain a b where "js_join '':'' xs = a @ CHR '':'' # (CHR '':'' # b)"
    by (auto simp: js_includes_iff)
  then have "split_char (CHR '':'') (js_join '':'' xs)
      = split_char (CHR '':'') a @ [] # split_char (CHR '':'') b"
    by (simp only: split_char_append_sep split_char_sep)
  moreover have "split_char (CHR '':'') (js_join '':'' xs) = xs"
    using \<open>xs \<noteq> []\<close> xs by (intro split_char_join) auto
  ultimately have "[] \<in> set xs" by simp
  with xs show False by blast
qed

lemma fold_group_bounds:
  "length ns = 8 \<Longrightarrow> \<forall>n\<in>set ns. n < 65536 \<Longrightarrow> 0 \<le> fold (\<lambda>d a. a * 65536 + d) (map int ns) 0
    \<and> fold (\<lambda>d a. a * 65536 + d) (map int ns) 0 < (2 ^ 128 :: int)"
  using fold_base_bounds [of ns 65536 0] by simp

lemma set_js_join: "set (js_join sep xs) \<subseteq> \<Union> (set ` set xs) \<union> set sep"
  by (induction sep xs rule: js_join.induct) auto

lemma format_ipv6_chars: "c \<in> set (format_ipv6 v) \<Longrightarrow> is_hex_digit c \<or> c = CHR '':''"
  using set_js_join [of "'':''" "map nat_to_hex (group_list v)"] nat_to_hex_chars
  by (auto simp: format_ipv6_groups)

lemma format_ipv4_chars: "c \<in> set (format_ipv4 v) \<Longrightarrow> is_digit c \<or> c = CHR ''.''"
  using set_js_join [of "''.''" "map nat_to_string (octet_list v)"] nat_to_string_digits
  by (auto simp: format_ipv4_octets)

lemma expand_groups_format: "expand_groups (format_ipv6 v) = Some (map nat_to_hex (group_list v))"
proof -
  let ?gs = "map nat_to_hex (group_list v)"
  have gs: "\<forall>p\<in>set ?gs. p \<noteq> [] \<and> CHR '':'' \<notin> set p" "?gs \<noteq> []"
    using hex_no_sep(1) nat_to_hex_chars by (auto simp: group_list_def)
  have "split_str ''::'' (format_ipv6 v) = [format_ipv6 v]"
    using no_double_colon [OF gs(2,1)]
    by (simp add: split_str_def split_str_acc_no_sep format_ipv6_groups)
  moreover have "split_char (CHR '':'') (format_ipv6 v) = ?gs"
    unfolding format_ipv6_groups using gs by (intro split_char_join) auto
  moreover have "format_ipv6 v \<noteq> ''''"
    by (auto simp: format_ipv6_groups group_list_def numeral_eq_Suc)
  ultimately show ?thesis
    by (simp add: expand_groups_def split_groups_def max_elision_halves_def ipv6_groups_def)
qed

lemma parse_format_ipv6:
  assumes "0 \<le> v" "v < 2 ^ 128"
  shows "parse_ipv6 (format_ipv6 v) = Some v"
proof -
  have nodot: "\<not> js_includes (drop i (format_ipv6 v)) ''.''" for i
    using format_ipv6_chars [of "CHR ''.''" v] hex_no_sep(2) [of "CHR ''.''"]
    by (auto dest: in_set_dropD)
  have "map int (group_list v) = map (\<lambda>i. v div 65536 ^ i mod 65536) (rev [0..<8])"
    by (simp add: group_list_def comp_def)
  then have "fold (\<lambda>d a. a * 65536 + d) (map int (group_list v)) 0 = v"
    using horner [of 65536 v 8 0] assms by simp
  then have "parse_groups 0 (map nat_to_hex (group_list v)) = Some v"
    using parse_groups_print [of "group_list v" 0] group_list_bound by simp
  then show ?thesis
    using nodot by (auto simp: parse_ipv6_def expand_groups_format Let_def split: option.splits)
qed

lemma expand_groups_length: "expand_groups s = Some gs \<Longrightarrow> length gs = 8"
  by (auto simp: expand_groups_def Let_def ipv6_groups_def min_elided_groups_def split: if_splits)

lemma replace_low_bounds:
  assumes "0 \<le> v" "v < 2 ^ 128" "0 \<le> t" "t < 2 ^ 32"
  shows "0 \<le> push_bit 32 (drop_bit 32 v) OR t" "push_bit 32 (drop_bit 32 v) OR t < (2 ^ 128 :: int)"
proof -
  have "v div 2 ^ 32 \<le> (2 ^ 128 - 1) div 2 ^ 32" using assms by (intro zdiv_mono1) auto
  then have "v div 2 ^ 32 \<le> 2 ^ 96 - 1" by simp
  moreover have "0 \<le> v div 2 ^ 32" using assms by simp
  moreover have "push_bit 32 (drop_bit 32 v) OR t = v div 2 ^ 32 * 2 ^ 32 + t"
    using assms push_or [of t 32 "drop_bit 32 v"] by (simp add: drop_bit_eq_div)
  ultimately show "0 \<le> push_bit 32 (drop_bit 32 v) OR t" "push_bit 32 (drop_bit 32 v) OR t < (2 ^ 128 :: int)"
    using assms by simp_all
qed

lemma parse_ipv6_bounds:
  assumes "parse_ipv6 s = Some v"
  shows "0 \<le> v" "v < 2 ^ 128"
proof -
  have groups: "0 \<le> w \<and> w < 2 ^ 128" if "expand_groups h = Some gs" "parse_groups 0 gs = Some w" for h gs w
    using parse_groups_inv [OF that(2)] expand_groups_length [OF that(1)] fold_group_bounds by auto
  have "\<exists>h gs w. expand_groups h = Some gs \<and> parse_groups 0 gs = Some w
      \<and> (v = w \<or> (\<exists>t q. parse_ipv4 q = Some t \<and> v = push_bit 32 (drop_bit 32 w) OR t))"
    using assms by (auto simp add: parse_ipv6_def Let_def v4_mapped_shift_def ipv4_width_def
        split: option.splits if_splits prod.splits) blast+
  then obtain h gs w where g: "expand_groups h = Some gs" "parse_groups 0 gs = Some w"
    and v: "v = w \<or> (\<exists>t q. parse_ipv4 q = Some t \<and> v = push_bit 32 (drop_bit 32 w) OR t)"
    by blast
  from groups [OF g] v parse_ipv4_Some replace_low_bounds show "0 \<le> v" "v < 2 ^ 128" by blast+
qed

subsection \<open>One text per address\<close>

text \<open>A text without white space, brackets, zone index or port has no decoration.\<close>

lemma undecorate_plain:
  assumes "\<forall>c\<in>set s. \<not> is_ws c \<and> c \<noteq> CHR ''['' \<and> c \<noteq> CHR ''%''"
    "CHR ''.'' \<notin> set s \<or> CHR '':'' \<notin> set s"
  shows "undecorate s = s"
proof -
  have "js_trim s = s" using assms(1) by (simp add: js_trim_no_ws)
  moreover have "\<not> starts_with s ''[''" using assms(1) by (cases s) (auto simp: starts_with_singleton)
  moreover have "index_of (CHR ''%'') s = None" using assms(1) by (auto simp: index_of_None)
  moreover have "index_of (CHR '':'') s = None \<or> \<not> js_includes s ''.''"
    using assms(2) by (auto simp: index_of_None)
  ultimately show ?thesis by (auto simp: undecorate_def)
qed

lemma digit_no_sep:
  assumes "is_digit c"
  shows "c \<noteq> CHR '':''" "c \<noteq> CHR ''.''" "c \<noteq> CHR ''%''" "c \<noteq> CHR ''[''" "\<not> is_ws c"
  using assms by (auto simp: is_digit_def is_ws_def)

lemma format_ipv4_plain: "c \<in> set (format_ipv4 v) \<Longrightarrow> \<not> is_ws c \<and> c \<noteq> CHR ''['' \<and> c \<noteq> CHR ''%'' \<and> c \<noteq> CHR '':''"
  using format_ipv4_chars [of c v] digit_no_sep [of c] by (auto simp: is_ws_def)

lemma format_ipv6_plain: "c \<in> set (format_ipv6 v) \<Longrightarrow> \<not> is_ws c \<and> c \<noteq> CHR ''['' \<and> c \<noteq> CHR ''%'' \<and> c \<noteq> CHR ''.''"
  using format_ipv6_chars [of c v] hex_no_sep [of c] by (auto simp: is_ws_def)

lemma undecorate_ipv4 [simp]: "undecorate (format_ipv4 v) = format_ipv4 v"
  by (rule undecorate_plain) (use format_ipv4_plain in blast)+

lemma undecorate_ipv6 [simp]: "undecorate (format_ipv6 v) = format_ipv6 v"
  by (rule undecorate_plain) (use format_ipv6_plain in blast)+

lemma js_join_sep: "1 < length xs \<Longrightarrow> set sep \<subseteq> set (js_join sep xs)"
  by (induction sep xs rule: js_join.induct) auto

lemma length_octet_list [simp]: "length (octet_list v) = 4"
  by (simp add: octet_list_def)

lemma format_ipv6_colon [simp]: "CHR '':'' \<in> set (format_ipv6 v)"
  using js_join_sep [of "map nat_to_hex (group_list v)" "'':''"] by (simp add: format_ipv6_groups)

lemma format_ipv4_dot [simp]: "CHR ''.'' \<in> set (format_ipv4 v)"
  using js_join_sep [of "map nat_to_string (octet_list v)" "''.''"] by (simp add: format_ipv4_octets)

lemma format_not_Nil [simp]: "format_ipv4 v \<noteq> ''''" "format_ipv6 v \<noteq> ''''"
proof -
  have ne: "c \<in> set s \<Longrightarrow> s \<noteq> ''''" for c :: char and s by auto
  show "format_ipv4 v \<noteq> ''''" "format_ipv6 v \<noteq> ''''"
    by (rule ne, rule format_ipv4_dot) (rule ne, rule format_ipv6_colon)
qed

lemma format_ipv4_no_colon [simp]: "CHR '':'' \<notin> set (format_ipv4 v)"
  using format_ipv4_plain by blast


text \<open>The addresses \<open>parseAddress\<close> makes.\<close>

definition address_ok :: "address \<Rightarrow> bool" where
  "address_ok a \<longleftrightarrow> 0 \<le> addr_value a \<and> addr_value a < 2 ^ addr_width a
     \<and> (addr_width a = 32 \<and> addr_text a = format_ipv4 (addr_value a)
        \<or> addr_width a = 128 \<and> addr_text a = format_ipv6 (addr_value a)
          \<and> addr_value a div 2 ^ 32 \<noteq> 65535)"

lemma ipv4_mask_mod: "v AND ipv4_mask = v mod 2 ^ 32"
  using drop_and_mask [of 0 v 32] by (simp add: ipv4_mask_def ipv4_width_def)

lemma parse_address_ok:
  assumes "parse_address s = Some a"
  shows "address_ok a"
proof -
  have v4: "address_ok \<lparr>addr_value = v, addr_width = 32, addr_text = format_ipv4 v\<rparr>"
    if "0 \<le> v" "v < 2 ^ 32" for v using that by (simp add: address_ok_def)
  have v6: "address_ok \<lparr>addr_value = v, addr_width = 128, addr_text = format_ipv6 v\<rparr>"
    if "0 \<le> v" "v < 2 ^ 128" "v div 2 ^ 32 \<noteq> 65535" for v using that by (simp add: address_ok_def)
  let ?t = "undecorate s"
  show ?thesis
  proof (cases "js_includes ?t '':''")
    case False
    with assms obtain v where "parse_ipv4 ?t = Some v"
      "a = \<lparr>addr_value = v, addr_width = 32, addr_text = format_ipv4 v\<rparr>"
      by (auto simp: parse_address_def ipv4_width_def Let_def split: if_splits option.splits)
    with v4 [of v] parse_ipv4_Some [of ?t v] show ?thesis by blast
  next
    case True
    with assms obtain v where v: "parse_ipv6 ?t = Some v" "?t \<noteq> ''''"
      by (auto simp: parse_address_def Let_def split: if_splits option.splits)
    show ?thesis
    proof (cases "v div 2 ^ 32 = 65535")
      case True
      then have "a = \<lparr>addr_value = v mod 2 ^ 32, addr_width = 32, addr_text = format_ipv4 (v mod 2 ^ 32)\<rparr>"
        using assms v \<open>js_includes ?t '':''\<close>
        by (simp add: parse_address_def ipv4_width_def v4_mapped_shift_def v4_mapped_prefix_def
            group_mask_eq ipv4_mask_mod drop_bit_eq_div Let_def)
      with v4 [of "v mod 2 ^ 32"] show ?thesis by simp
    next
      case False
      then have "a = \<lparr>addr_value = v, addr_width = 128, addr_text = format_ipv6 v\<rparr>"
        using assms v \<open>js_includes ?t '':''\<close>
        by (simp add: parse_address_def ipv4_width_def ipv6_width_def v4_mapped_shift_def
            v4_mapped_prefix_def group_mask_eq drop_bit_eq_div)
      with v6 [of v] False parse_ipv6_bounds [OF v(1)] show ?thesis by simp
    qed
  qed
qed

lemma parse_address_ipv4:
  "0 \<le> v \<Longrightarrow> v < 2 ^ 32 \<Longrightarrow> parse_address (format_ipv4 v)
     = Some \<lparr>addr_value = v, addr_width = 32, addr_text = format_ipv4 v\<rparr>"
  by (simp add: parse_address_def parse_format_ipv4 ipv4_width_def)

lemma parse_address_ipv6:
  "0 \<le> v \<Longrightarrow> v < 2 ^ 128 \<Longrightarrow> v div 2 ^ 32 \<noteq> 65535 \<Longrightarrow> parse_address (format_ipv6 v)
     = Some \<lparr>addr_value = v, addr_width = 128, addr_text = format_ipv6 v\<rparr>"
  by (simp add: parse_address_def parse_format_ipv6 ipv6_width_def v4_mapped_shift_def ipv4_width_def
      v4_mapped_prefix_def group_mask_eq drop_bit_eq_div)

lemma parse_address_text: "address_ok a \<Longrightarrow> parse_address (addr_text a) = Some a"
  by (cases a) (auto simp: address_ok_def parse_address_ipv4 parse_address_ipv6)

subsection \<open>IPv4-mapped addresses\<close>

lemma parse_groups_mapped: "parse_groups 0 [''0'', ''0'', ''0'', ''0'', ''0'', ''ffff'', ''0'', ''0''] = Some (65535 * 2 ^ 32)"
proof -
  have "hex_digit 15 = CHR ''f''" "hex_digit 0 = CHR ''0''" by code_simp+
  then have "map nat_to_hex [0, 0, 0, 0, 0, 65535, 0, 0]
      = [''0'', ''0'', ''0'', ''0'', ''0'', ''ffff'', ''0'', ''0'']"
    by (simp add: nat_to_hex.simps)
  then show ?thesis using parse_groups_print [of "[0, 0, 0, 0, 0, 65535, 0, 0]" 0] by simp
qed

lemma parse_ipv6_mapped:
  assumes "0 \<le> v" "v < 2 ^ 32"
  shows "parse_ipv6 (''::ffff:'' @ format_ipv4 v) = Some (65535 * 2 ^ 32 + v)"
proof -
  let ?s = "''::ffff:'' @ format_ipv4 v"
  have "last_index_of (CHR '':'') (''::ffff'' @ CHR '':'' # format_ipv4 v) = Some (length ''::ffff'')"
    by (rule last_index_of_append) simp
  then have last: "last_index_of (CHR '':'') ?s = Some 6" by simp
  have cut: "take 7 ?s = ''::ffff:''" "drop 7 ?s = format_ipv4 v" "CHR ''.'' \<in> set (drop 6 ?s)"
    by simp_all
  have "expand_groups ''::ffff:0:0'' = Some [''0'', ''0'', ''0'', ''0'', ''0'', ''ffff'', ''0'', ''0'']"
    by code_simp
  moreover have "push_bit 32 (drop_bit 32 (65535 * 2 ^ 32)) OR v = 65535 * 2 ^ 32 + v"
    using push_or [of v 32 65535] assms by (simp add: drop_bit_eq_div)
  ultimately show ?thesis
    using last cut parse_format_ipv4 [OF assms] parse_groups_mapped
    by (simp add: parse_ipv6_def v4_mapped_shift_def ipv4_width_def)
qed

lemma undecorate_mapped: "undecorate (''::ffff:'' @ format_ipv4 v) = ''::ffff:'' @ format_ipv4 v"
proof -
  let ?s = "''::ffff:'' @ format_ipv4 v"
  have c: "\<forall>c\<in>set ?s. \<not> is_ws c \<and> c \<noteq> CHR ''%''"
    using format_ipv4_plain by (auto simp: is_ws_def)
  then have "js_trim ?s = ?s" by (intro js_trim_no_ws) blast
  moreover have "index_of (CHR ''%'') ?s = None" using c by (auto simp: index_of_None)
  moreover have "last_index_of (CHR '':'') (''::ffff'' @ CHR '':'' # format_ipv4 v) = Some (length ''::ffff'')"
    by (rule last_index_of_append) simp
  ultimately show ?thesis by (simp add: undecorate_def starts_with_def)
qed

lemma parse_address_mapped:
  assumes "0 \<le> v" "v < 2 ^ 32"
  shows "parse_address (''::ffff:'' @ format_ipv4 v) = parse_address (format_ipv4 v)"
proof -
  have "js_includes (''::ffff:'' @ format_ipv4 v) '':''" "length (''::ffff:'' @ format_ipv4 v) \<noteq> 0"
    by simp_all
  moreover have "drop_bit 32 (65535 * 2 ^ 32 + v) = 65535"
    using assms by (simp add: drop_bit_eq_div)
  moreover have "(65535 * 2 ^ 32 + v) mod 2 ^ 32 = v mod 2 ^ 32" by (simp only: mod_mult_self3)
  then have "(65535 * 2 ^ 32 + v) AND ipv4_mask = v"
    using assms by (simp add: ipv4_mask_mod)
  ultimately have "parse_address (''::ffff:'' @ format_ipv4 v)
      = Some \<lparr>addr_value = v, addr_width = 32, addr_text = format_ipv4 v\<rparr>"
    unfolding parse_address_def undecorate_mapped Let_def
    by (simp only: parse_ipv6_mapped [OF assms] v4_mapped_shift_def ipv4_width_def
        v4_mapped_prefix_def group_mask_eq option.simps if_True if_False not_True_eq_False simp_thms)
  then show ?thesis by (simp only: parse_address_ipv4 [OF assms])
qed

subsection \<open>A block trusts exactly the addresses of its network prefix\<close>

lemma cidr_mask_and:
  assumes "p \<le> w" "0 \<le> v" "v < 2 ^ w"
  shows "v AND (push_bit (w - p) (- 1) AND (push_bit w 1 - 1)) = v div 2 ^ (w - p) * (2 ^ (w - p) :: int)"
proof -
  have "v AND (push_bit (w - p) (- 1) AND (push_bit w 1 - 1)) = take_bit w (v AND push_bit (w - p) (- 1))"
    by (simp add: take_bit_eq_mask mask_eq_exp_minus_1 ac_simps)
  also have "v AND push_bit (w - p) (- 1) = push_bit (w - p) (drop_bit (w - p) v)"
    by (rule bit_eqI) (auto simp: bit_simps)
  also have "take_bit w \<dots> = push_bit (w - p) (drop_bit (w - p) v)"
  proof (rule take_bit_int_eq_self)
    have "v div 2 ^ (w - p) * 2 ^ (w - p) = v - v mod 2 ^ (w - p)" by (rule minus_mod_eq_div_mult [symmetric])
    then have "v div 2 ^ (w - p) * 2 ^ (w - p) \<le> v" by simp
    then show "push_bit (w - p) (drop_bit (w - p) v) < 2 ^ w"
      using assms by (simp add: push_bit_eq_mult drop_bit_eq_div)
  qed (use assms in \<open>simp add: push_bit_eq_mult drop_bit_eq_div pos_imp_zdiv_nonneg_iff\<close>)
  finally show ?thesis by (simp add: push_bit_eq_mult drop_bit_eq_div)
qed

lemma is_trusted_cidr:
  assumes "address_ok a" "address_ok b" "p \<le> addr_width b"
  shows "is_trusted a [cidr_of b p] \<longleftrightarrow> addr_width a = addr_width b
     \<and> addr_value a div 2 ^ (addr_width b - p) = addr_value b div 2 ^ (addr_width b - p)"
proof (cases "addr_width a = addr_width b")
  case True
  have bounds: "0 \<le> addr_value a" "addr_value a < 2 ^ addr_width b"
      "0 \<le> addr_value b" "addr_value b < 2 ^ addr_width b"
    using assms(1,2) True unfolding address_ok_def by metis+
  have "is_trusted a [cidr_of b p] \<longleftrightarrow>
      addr_value a div 2 ^ (addr_width b - p) * 2 ^ (addr_width b - p)
        = addr_value b div 2 ^ (addr_width b - p) * 2 ^ (addr_width b - p)"
    by (simp only: is_trusted_def cidr_of_def Let_def list_ex_Nil_iff list_ex_Cons_iff cidr_block.simps True
        cidr_mask_and [OF assms(3) bounds(1,2)] cidr_mask_and [OF assms(3) bounds(3,4)] simp_thms)
  with True show ?thesis by simp
qed (simp add: is_trusted_def cidr_of_def Let_def)

lemma is_trusted_any: "is_trusted a blocks \<longleftrightarrow> (\<exists>b\<in>set blocks. is_trusted a [b])"
  by (auto simp: is_trusted_def list_ex_iff)

subsection \<open>The walk along the chain\<close>

lemma walk_chain_append:
  "walk_chain trusted l (xs @ ys) =
     (case walk_chain trusted l xs of Inl t \<Rightarrow> Inl t | Inr l' \<Rightarrow> walk_chain trusted l' ys)"
  by (induction trusted l xs rule: walk_chain.induct) (auto split: option.splits)

lemma walk_chain_find:
  "walk_chain trusted l es =
     (case find (\<lambda>a. \<not> is_trusted a trusted) (List.map_filter parse_address es) of
        Some a \<Rightarrow> Inl (addr_text a)
      | None \<Rightarrow> Inr (if List.map_filter parse_address es = [] then l
                     else Some (addr_text (last (List.map_filter parse_address es)))))"
  by (induction trusted l es rule: walk_chain.induct)
    (auto simp: List.map_filter_simps split: option.splits)

lemma map_filter_rev: "List.map_filter f (rev xs) = rev (List.map_filter f xs)"
  by (simp add: List.map_filter_def rev_map rev_filter)

lemma resolve_untrusted_peer:
  "\<not> is_trusted_peer peer trusted \<Longrightarrow>
   resolve_client_address hs peer trusted =
     (let raw = js_trim (case peer of Some p \<Rightarrow> p | None \<Rightarrow> '''') in
      if raw = '''' then None else
        Some (case parse_address raw of None \<Rightarrow> raw | Some a \<Rightarrow> addr_text a))"
  by (auto simp: resolve_client_address_def is_trusted_peer_def Let_def split: option.splits if_splits)

lemma split_chain:
  "\<forall>e\<in>set es. CHR '','' \<notin> set e \<Longrightarrow>
   split_char (CHR '','') (left @ concat (map (\<lambda>e. '','' @ e) es)) = split_char (CHR '','') left @ es"
proof (induction es arbitrary: left rule: rev_induct)
  case (snoc e es)
  have "split_char (CHR '','') ((left @ concat (map (\<lambda>e. '','' @ e) es)) @ CHR '','' # e)
      = split_char (CHR '','') left @ es @ [e]"
    using snoc split_char_append_sep [of "CHR '',''" "left @ concat (map (\<lambda>e. '','' @ e) es)" e]
    by (simp add: split_char_notin del: append_assoc)
  then show ?case by simp
qed simp

lemma map_filter_append: "List.map_filter f (xs @ ys) = List.map_filter f xs @ List.map_filter f ys"
  by (simp add: List.map_filter_def)

lemma set_map_filter: "set (List.map_filter f xs) = {y. \<exists>x\<in>set xs. f x = Some y}"
  by (force simp: List.map_filter_def)

lemma find_append: "find P (xs @ ys) = (case find P xs of Some x \<Rightarrow> Some x | None \<Rightarrow> find P ys)"
  by (induction xs) auto

lemma parse_cidr_slash:
  assumes "parse_address t = Some b"
  shows "parse_cidr (t @ ''/'' @ nat_to_string p) = (if p \<le> addr_width b then Some (cidr_of b p) else None)"
proof -
  have slash: "CHR ''/'' \<notin> set (nat_to_string p)"
    using nat_to_string_digits [of "CHR ''/''" p] by (auto simp: is_digit_def)
  have "last_index_of (CHR ''/'') (t @ ''/'' @ nat_to_string p) = Some (length t)"
    using last_index_of_append [OF slash] by simp
  moreover have "js_trim (nat_to_string p) = nat_to_string p"
    using nat_to_string_digits digit_no_sep(5) by (blast intro: js_trim_no_ws)
  ultimately show ?thesis
    using assms nat_to_string_canonical(1) [of p] by (simp add: parse_cidr_def)
qed

subsection \<open>Properties\<close>

text \<open>
  The IPv4 parser accepts exactly one spelling of each address: a text parses to a value if
  and only if the value has 32 bits and the text is its canonical dotted quad, so no leading
  zero, sign, white space or overlong octet gives a second way to write an allowlisted address.
\<close>

lemma ipv4_one_spelling:
  "parse_ipv4 s = Some v \<longleftrightarrow> 0 \<le> v \<and> v < 2 ^ 32 \<and> s = format_ipv4 v"
  using parse_ipv4_Some parse_format_ipv4 by blast

text \<open>
  The text of a parsed address is canonical: an address, in either family and however it was
  decorated (port, brackets, zone index, IPv4-mapped form), has the width of its family, a value
  within that width, and a text that parses back to the same address. Two spellings of one client
  therefore never land in two rate-limit buckets.
\<close>

lemma address_text_canonical:
  assumes "parse_address s = Some a"
  shows "parse_address (addr_text a) = Some a \<and> 0 \<le> addr_value a \<and> addr_value a < 2 ^ addr_width a
    \<and> addr_width a \<in> {ipv4_width, ipv6_width}"
proof -
  have ok: "address_ok a" using assms by (rule parse_address_ok)
  then have "addr_width a \<in> {ipv4_width, ipv6_width}"
    by (auto simp: address_ok_def ipv4_width_def ipv6_width_def)
  with ok show ?thesis by (simp add: parse_address_text address_ok_def)
qed

lemma address_text_canonical_witness:
  "parse_address ''10.1.2.3''
     = Some \<lparr>addr_value = 167838211, addr_width = 32, addr_text = ''10.1.2.3''\<rparr>"
proof -
  have "parse_address '' 10.1.2.3:443 ''
      = Some \<lparr>addr_value = 167838211, addr_width = 32, addr_text = ''10.1.2.3''\<rparr>"
    by code_simp
  from address_text_canonical [OF this] show ?thesis by simp
qed

text \<open>
  An IPv4-mapped IPv6 address is the IPv4 address it embeds, so the same client has one
  identity whether the socket was bound dual-stack or not.
\<close>

lemma mapped_address_collapses:
  assumes "0 \<le> v" "v < 2 ^ 32"
  shows "parse_address (''::ffff:'' @ format_ipv4 v) = parse_address (format_ipv4 v)
    \<and> parse_address (format_ipv4 v)
        = Some \<lparr>addr_value = v, addr_width = ipv4_width, addr_text = format_ipv4 v\<rparr>"
  using parse_address_mapped [OF assms] parse_address_ipv4 [OF assms] by (simp add: ipv4_width_def)

lemma mapped_address_collapses_witness:
  "parse_address (''::ffff:'' @ format_ipv4 2130706433) = parse_address (format_ipv4 2130706433)"
  using mapped_address_collapses [of 2130706433] by simp

text \<open>
  A CIDR entry \<open>address/prefix\<close> trusts exactly the addresses of its own family that agree
  with its address on the leading \<open>prefix\<close> bits, and a prefix longer than the family's
  width is no entry at all.
\<close>

lemma cidr_entry_trusts_prefix:
  assumes "parse_address t = Some b"
    and "parse_address s = Some a"
  shows "case parse_cidr (t @ ''/'' @ nat_to_string p) of
      None \<Rightarrow> p > addr_width b
    | Some block \<Rightarrow> p \<le> addr_width b \<and>
        (is_trusted a [block] \<longleftrightarrow> addr_width a = addr_width b
           \<and> addr_value a div 2 ^ (addr_width b - p) = addr_value b div 2 ^ (addr_width b - p))"
  using parse_cidr_slash [OF assms(1), of p]
    is_trusted_cidr [of a b p, OF parse_address_ok [OF assms(2)] parse_address_ok [OF assms(1)]]
  by simp

lemma cidr_entry_trusts_prefix_witness:
  "\<exists>block. parse_cidr (''10.0.0.0'' @ ''/'' @ nat_to_string 8) = Some block
     \<and> is_trusted \<lparr>addr_value = 167838211, addr_width = 32, addr_text = ''10.1.2.3''\<rparr> [block]"
proof -
  have a: "parse_address ''10.1.2.3'' = Some \<lparr>addr_value = 167838211, addr_width = 32, addr_text = ''10.1.2.3''\<rparr>"
    by code_simp
  have b: "parse_address ''10.0.0.0'' = Some \<lparr>addr_value = 167772160, addr_width = 32, addr_text = ''10.0.0.0''\<rparr>"
    by code_simp
  show ?thesis using cidr_entry_trusts_prefix [OF b a, of 8] by (simp split: option.splits)
qed

text \<open>
  C1: The resolver cannot be spoofed. Behind a trusted peer, when the proxies that follow the
  caller's hop in \<open>X-Forwarded-For\<close> are all trusted and that hop itself is not, the
  resolved address is that hop, whatever text the caller wrote to the left of it.
\<close>

theorem resolver_not_spoofed:
  assumes "is_trusted_peer peer trusted"
    and "h_get hs forwarded_for_header = Some (left @ concat (map (\<lambda>e. '','' @ e) (hop # hops)))"
    and "parse_address hop = Some client" "\<not> is_trusted client trusted"
    and "\<forall>e\<in>set (hop # hops). CHR '','' \<notin> set e"
    and "\<forall>e\<in>set hops. \<forall>a. parse_address e = Some a \<longrightarrow> is_trusted a trusted"
  shows "resolve_client_address hs peer trusted = Some (addr_text client)"
proof -
  have "find (\<lambda>a. \<not> is_trusted a trusted) (List.map_filter parse_address (rev hops)) = None"
    using assms(6) by (auto simp add: find_None_iff set_map_filter)
  then have "walk_chain trusted None (rev (split_char (CHR '','') left @ hop # hops)) = Inl (addr_text client)"
    using assms(3,4) by (simp add: walk_chain_find map_filter_append find_append)
  then show ?thesis
    using assms(1,2) split_chain [OF assms(5), of left]
    by (auto simp: resolve_client_address_def is_trusted_peer_def Let_def split: option.splits if_splits)
qed

theorem resolver_not_spoofed_witness:
  "resolve_client_address
     [(''x-forwarded-for'', ''6.6.6.6, 127.0.0.1, 203.0.113.9,10.0.0.2'')] (Some ''10.0.0.1'')
     [cidr_of \<lparr>addr_value = 167772160, addr_width = 32, addr_text = ''10.0.0.0''\<rparr> 8]
   = Some ''203.0.113.9''"
proof -
  let ?b = "[cidr_of \<lparr>addr_value = 167772160, addr_width = 32, addr_text = ''10.0.0.0''\<rparr> 8]"
  have block: "?b = [\<lparr>network = 167772160, cidr_mask = 4278190080, cidr_width = 32\<rparr>]" by code_simp
  have parse: "parse_address '' 203.0.113.9'' = Some \<lparr>addr_value = 3405803785, addr_width = 32, addr_text = ''203.0.113.9''\<rparr>"
    "parse_address ''10.0.0.2'' = Some \<lparr>addr_value = 167772162, addr_width = 32, addr_text = ''10.0.0.2''\<rparr>"
    "is_trusted_peer (Some ''10.0.0.1'') [\<lparr>network = 167772160, cidr_mask = 4278190080, cidr_width = 32\<rparr>]"
    "\<not> is_trusted \<lparr>addr_value = 3405803785, addr_width = 32, addr_text = ''203.0.113.9''\<rparr>
        [\<lparr>network = 167772160, cidr_mask = 4278190080, cidr_width = 32\<rparr>]"
    "is_trusted \<lparr>addr_value = 167772162, addr_width = 32, addr_text = ''10.0.0.2''\<rparr>
        [\<lparr>network = 167772160, cidr_mask = 4278190080, cidr_width = 32\<rparr>]"
    by code_simp+
  show ?thesis
    using resolver_not_spoofed [of "Some ''10.0.0.1''" ?b
        "[(''x-forwarded-for'', ''6.6.6.6, 127.0.0.1, 203.0.113.9,10.0.0.2'')]"
        "''6.6.6.6, 127.0.0.1''" "'' 203.0.113.9''" "[''10.0.0.2'']"
        "\<lparr>addr_value = 3405803785, addr_width = 32, addr_text = ''203.0.113.9''\<rparr>"] parse
    unfolding block
    by (simp add: h_get_def h_values_def forwarded_for_header_def to_lower_def lower_char_def)
qed

text \<open>
  C38: What the resolver answers in every case. A blank peer resolves to nothing; a peer that is
  not a trusted proxy to itself, whatever the header says; behind a trusted peer the answer is
  the last untrusted address of the chain, else its first address of any kind, else the peer.
\<close>

theorem resolver_specification:
  "resolve_client_address hs peer trusted =
     (let raw = js_trim (case peer of Some p \<Rightarrow> p | None \<Rightarrow> '''');
          peer_text = (case parse_address raw of None \<Rightarrow> raw | Some a \<Rightarrow> addr_text a);
          chain = (case h_get hs forwarded_for_header of
              None \<Rightarrow> [] | Some c \<Rightarrow> List.map_filter parse_address (split_char (CHR '','') c)) in
      if raw = '''' then None
      else if \<not> is_trusted_peer peer trusted then Some peer_text
      else case find (\<lambda>a. \<not> is_trusted a trusted) (rev chain) of
          Some a \<Rightarrow> Some (addr_text a)
        | None \<Rightarrow> Some (if chain = [] then peer_text else addr_text (hd chain)))"
proof (cases "is_trusted_peer peer trusted")
  case False
  then show ?thesis using resolve_untrusted_peer [OF False, of hs] by (simp add: Let_def)
next
  case True
  then show ?thesis
    by (auto simp: resolve_client_address_def is_trusted_peer_def Let_def walk_chain_find
        map_filter_rev last_rev split: option.splits if_splits)
qed

end
