(* ===== verification/Base64.thy ===== *)
theory Base64
  imports Prelude
begin

section \<open>Bytes: UTF-8, base64url, PKCE (\<open>sdk/src/server/pkce.ts\<close>)\<close>

text \<open>
  Bytes are natural numbers below 256. \<open>btoa\<close> and the base64url decoder are those of the
  platform; the random source and SHA-256 are arguments. The UTF-8 decoder yields the code
  units below 256 the model's strings hold, and a question mark for anything else.
\<close>

definition b64_char :: "nat \<Rightarrow> char" where
  "b64_char n =
     (if n < 26 then char_of (65 + n) else if n < 52 then char_of (71 + n)
      else if n < 62 then char_of (n - 4) else if n = 62 then CHR ''+'' else CHR ''/'')"

fun btoa_bytes :: "nat list \<Rightarrow> string" where
  "btoa_bytes [] = []"
| "btoa_bytes [a] = [b64_char (a div 4), b64_char (a mod 4 * 16), CHR ''='', CHR ''='']"
| "btoa_bytes [a, b] =
     [b64_char (a div 4), b64_char (a mod 4 * 16 + b div 16), b64_char (b mod 16 * 4), CHR ''='']"
| "btoa_bytes (a # b # c # r) =
     [b64_char (a div 4), b64_char (a mod 4 * 16 + b div 16), b64_char (b mod 16 * 4 + c div 64),
      b64_char (c mod 64)] @ btoa_bytes r"

text \<open>\<open>replaceAll("+", "-").replaceAll("/", "_").replaceAll("=", "")\<close>\<close>

definition base64_url_encode :: "nat list \<Rightarrow> string" where
  "base64_url_encode bytes =
     filter (\<lambda>c. c \<noteq> CHR ''='')
       (map (\<lambda>c. if c = CHR ''/'' then CHR ''_'' else c)
          (map (\<lambda>c. if c = CHR ''+'' then CHR ''-'' else c) (btoa_bytes bytes)))"

definition default_random_bytes :: nat where "default_random_bytes = 32"
definition verifier_bytes :: nat where "verifier_bytes = 48"

text \<open>\<open>randomUrlSafe(n)\<close>, from the bytes the random source drew.\<close>

definition random_url_safe :: "(nat \<Rightarrow> 's \<Rightarrow> nat list \<times> 's) \<Rightarrow> nat \<Rightarrow> 's \<Rightarrow> string \<times> 's" where
  "random_url_safe get_random_values bytes s =
     (let (buffer, s') = get_random_values bytes s in (base64_url_encode buffer, s'))"

definition utf8_encode :: "string \<Rightarrow> nat list" where
  "utf8_encode s = concat (map (\<lambda>c. if code c < 128 then [code c]
     else [192 + code c div 64, 128 + code c mod 64]) s)"

definition sha256_challenge :: "(nat list \<Rightarrow> nat list) \<Rightarrow> string \<Rightarrow> string" where
  "sha256_challenge sha256 verifier = base64_url_encode (sha256 (utf8_encode verifier))"

record pkce_pair =
  verifier :: string
  challenge :: string

definition create_pkce_pair ::
    "(nat list \<Rightarrow> nat list) \<Rightarrow> (nat \<Rightarrow> 's \<Rightarrow> nat list \<times> 's) \<Rightarrow> 's \<Rightarrow> pkce_pair \<times> 's" where
  "create_pkce_pair sha256 get_random_values s =
     (let (v, s') = random_url_safe get_random_values verifier_bytes s in
      (\<lparr>verifier = v, challenge = sha256_challenge sha256 v\<rparr>, s'))"

subsection \<open>Decoding\<close>

definition b64_val :: "char \<Rightarrow> nat option" where
  "b64_val c =
     (if 65 \<le> code c \<and> code c \<le> 90 then Some (code c - 65)
      else if 97 \<le> code c \<and> code c \<le> 122 then Some (code c - 71)
      else if is_digit c then Some (code c + 4)
      else if c \<in> {CHR ''+'', CHR ''-''} then Some 62
      else if c \<in> {CHR ''/'', CHR ''_''} then Some 63 else None)"

fun sextets_to_bytes :: "nat list \<Rightarrow> nat list" where
  "sextets_to_bytes (a # b # c # d # r) =
     [a * 4 + b div 16, b mod 16 * 16 + c div 4, c mod 4 * 64 + d] @ sextets_to_bytes r"
| "sextets_to_bytes [a, b, c] = [a * 4 + b div 16, b mod 16 * 16 + c div 4]"
| "sextets_to_bytes [a, b] = [a * 4 + b div 16]"
| "sextets_to_bytes _ = []"

text \<open>\<open>Buffer.from(s, "base64url")\<close> stops at padding and skips what is not of the alphabet.\<close>

definition base64_url_decode :: "string \<Rightarrow> nat list" where
  "base64_url_decode s =
     sextets_to_bytes (List.map_filter b64_val (takeWhile (\<lambda>c. c \<noteq> CHR ''='') s))"

fun utf8_decode :: "nat list \<Rightarrow> string" where
  "utf8_decode [] = []"
| "utf8_decode (a # r) =
     (if a < 128 then char_of a # utf8_decode r
      else (case r of
          b # r' \<Rightarrow>
            if 194 \<le> a \<and> a \<le> 195 \<and> 128 \<le> b \<and> b < 192
            then char_of ((a - 192) * 64 + (b - 128)) # utf8_decode r'
            else CHR ''?'' # utf8_decode r
        | [] \<Rightarrow> [CHR ''?'']))"

subsection \<open>Lemmas\<close>

lemma three_step_induct [case_names Nil one two more]:
  fixes xs :: "nat list"
  assumes "P []" "\<And>a. P [a]" "\<And>a b. P [a, b]" "\<And>a b c r. P r \<Longrightarrow> P (a # b # c # r)"
  shows "P xs"
  by (induction xs rule: btoa_bytes.induct) (use assms in auto)

text \<open>The letter of a sextet, after the url-safe replacements.\<close>

definition url_char :: "nat \<Rightarrow> char" where
  "url_char n = (if n = 62 then CHR ''-'' else if n = 63 then CHR ''_'' else b64_char n)"

lemma b64_char_code: "n < 62 \<Longrightarrow> code (b64_char n) = (if n < 26 then 65 + n else if n < 52 then 71 + n else n - 4)"
  by (simp add: b64_char_def)

lemma b64_char_plain:
  assumes "n < 62"
  shows "b64_char n \<noteq> CHR ''+''" "b64_char n \<noteq> CHR ''/''" "b64_char n \<noteq> CHR ''=''"
proof -
  have "code (b64_char n) \<noteq> 43 \<and> code (b64_char n) \<noteq> 47 \<and> code (b64_char n) \<noteq> 61"
    using assms by (simp add: b64_char_code) linarith
  then show "b64_char n \<noteq> CHR ''+''" "b64_char n \<noteq> CHR ''/''" "b64_char n \<noteq> CHR ''=''" by auto
qed

definition url_safe_letter :: "char \<Rightarrow> char" where
  "url_safe_letter c =
     (let d = (if c = CHR ''+'' then CHR ''-'' else c) in if d = CHR ''/'' then CHR ''_'' else d)"

lemma url_safe_letter_char: "n < 64 \<Longrightarrow> url_safe_letter (b64_char n) = url_char n"
proof -
  assume "n < 64"
  then consider "n < 62" | "n = 62" | "n = 63" by linarith
  then show ?thesis
  proof cases
    case 1
    then show ?thesis by (simp add: url_safe_letter_def url_char_def b64_char_plain)
  qed (simp_all add: url_safe_letter_def url_char_def b64_char_def)
qed

lemma url_char_not_pad: "n < 64 \<Longrightarrow> url_char n \<noteq> CHR ''=''"
  using b64_char_plain(3) [of n] by (auto simp: url_char_def)

lemma encode_letters:
  "base64_url_encode bs = filter (\<lambda>c. c \<noteq> CHR ''='') (map url_safe_letter (btoa_bytes bs))"
proof -
  have "map (\<lambda>c. if c = CHR ''/'' then CHR ''_'' else c) (map (\<lambda>c. if c = CHR ''+'' then CHR ''-'' else c) xs)
      = map url_safe_letter xs" for xs
    by (simp add: url_safe_letter_def)
  then show ?thesis by (simp only: base64_url_encode_def)
qed

lemma url_safe_letter_pad: "url_safe_letter (CHR ''='') = CHR ''=''"
  by (simp add: url_safe_letter_def)

lemma b64_val_url_char: "n < 64 \<Longrightarrow> b64_val (url_char n) = Some n"
proof -
  assume "n < 64"
  then consider "n < 62" | "n = 62" | "n = 63" by linarith
  then show ?thesis
  proof cases
    case 1
    then show ?thesis using b64_char_code [OF 1] b64_char_plain [OF 1]
      by (simp add: url_char_def b64_val_def is_digit_def) linarith
  qed (simp_all add: url_char_def b64_val_def is_digit_def)
qed

text \<open>The sextets of a byte string.\<close>

fun sextets :: "nat list \<Rightarrow> nat list" where
  "sextets [] = []"
| "sextets [a] = [a div 4, a mod 4 * 16]"
| "sextets [a, b] = [a div 4, a mod 4 * 16 + b div 16, b mod 16 * 4]"
| "sextets (a # b # c # r) =
     [a div 4, a mod 4 * 16 + b div 16, b mod 16 * 4 + c div 64, c mod 64] @ sextets r"

lemma sextets_bound: "\<forall>b\<in>set bs. b < 256 \<Longrightarrow> \<forall>x\<in>set (sextets bs). x < 64"
  by (induction bs rule: three_step_induct) auto

lemma encode_sextets: "\<forall>b\<in>set bs. b < 256 \<Longrightarrow> base64_url_encode bs = map url_char (sextets bs)"
proof (induction bs rule: three_step_induct)
  case (more a b c r)
  have lt: "a div 4 < 64" "a mod 4 * 16 + b div 16 < 64" "b mod 16 * 4 + c div 64 < 64" "c mod 64 < 64"
    using more.prems by auto
  from more show ?case
    by (simp add: encode_letters url_safe_letter_char [OF lt(1)] url_safe_letter_char [OF lt(2)]
        url_safe_letter_char [OF lt(3)] url_safe_letter_char [OF lt(4)] url_char_not_pad [OF lt(1)]
        url_char_not_pad [OF lt(2)] url_char_not_pad [OF lt(3)] url_char_not_pad [OF lt(4)])
next
  case (one a)
  then have lt: "a div 4 < 64" "a mod 4 * 16 < 64" by auto
  show ?case
    by (simp add: encode_letters url_safe_letter_char [OF lt(1)] url_safe_letter_char [OF lt(2)]
        url_char_not_pad [OF lt(1)] url_char_not_pad [OF lt(2)] url_safe_letter_pad)
next
  case (two a b)
  then have lt: "a div 4 < 64" "a mod 4 * 16 + b div 16 < 64" "b mod 16 * 4 < 64" by auto
  show ?case
    by (simp add: encode_letters url_safe_letter_char [OF lt(1)] url_safe_letter_char [OF lt(2)]
        url_safe_letter_char [OF lt(3)] url_char_not_pad [OF lt(1)] url_char_not_pad [OF lt(2)]
        url_char_not_pad [OF lt(3)] url_safe_letter_pad)
qed (simp add: base64_url_encode_def)

lemma sextets_round_trip: "\<forall>b\<in>set bs. b < 256 \<Longrightarrow> sextets_to_bytes (sextets bs) = bs"
proof (induction bs rule: three_step_induct)
  case (more a b c r)
  have "(a mod 4 * 16 + b div 16) div 16 = a mod 4" "(a mod 4 * 16 + b div 16) mod 16 = b div 16"
      "(b mod 16 * 4 + c div 64) div 4 = b mod 16" "(b mod 16 * 4 + c div 64) mod 4 = c div 64"
    using more.prems by auto
  with more show ?case by simp
next
  case (two a b)
  then have "(a mod 4 * 16 + b div 16) div 16 = a mod 4" "(a mod 4 * 16 + b div 16) mod 16 = b div 16"
    by auto
  then show ?case by simp
qed simp_all

lemma base64_round_trip:
  assumes "\<forall>b\<in>set bs. b < 256"
  shows "base64_url_decode (base64_url_encode bs) = bs"
proof -
  have bound: "\<forall>x\<in>set (sextets bs). x < 64" using sextets_bound [OF assms] .
  then have tw: "takeWhile (\<lambda>c. c \<noteq> CHR ''='') (map url_char (sextets bs)) = map url_char (sextets bs)"
    using url_char_not_pad by (intro takeWhile_eq_all_conv [THEN iffD2]) auto
  have "\<forall>x\<in>set xs. x < 64 \<Longrightarrow> List.map_filter b64_val (map url_char xs) = xs" for xs
    by (induction xs) (simp_all add: b64_val_url_char)
  with bound have mf: "List.map_filter b64_val (map url_char (sextets bs)) = sextets bs" by blast
  show ?thesis
    by (simp only: base64_url_decode_def encode_sextets [OF assms] tw mf sextets_round_trip [OF assms])
qed

lemma two_byte_split:
  "(n :: nat) < 256 \<Longrightarrow> \<not> n < 128 \<Longrightarrow> (n div 64 = 2 \<or> n div 64 = 3) \<and> n mod 64 < 64 \<and> n div 64 * 64 + n mod 64 = n"
  using div_le_mono [of 128 n 64] less_mult_imp_div_less [of n 4 64] by auto

lemma utf8_round_trip: "utf8_decode (utf8_encode s) = s"
proof (induction s)
  case (Cons c s)
  have small: "code c < 256" by simp
  show ?case
  proof (cases "code c < 128")
    case False
    define q r where "q = code c div 64" and "r = code c mod 64"
    have q: "q = 2 \<or> q = 3" "r < 64" "q * 64 + r = code c"
      using two_byte_split [OF small False] unfolding q_def r_def by blast+
    have "utf8_encode (c # s) = (192 + q) # (128 + r) # utf8_encode s"
      using False by (simp add: utf8_encode_def q_def r_def)
    moreover have "char_of (q * 64 + r) = c" using q(3) by simp
    ultimately show ?thesis using q(1,2) Cons by auto
  qed (use Cons in \<open>simp add: utf8_encode_def\<close>)
qed (simp add: utf8_encode_def)

end
