(* ===== verification/Forwarding.thy ===== *)
theory Forwarding
  imports ClientAddress Base64
begin

section \<open>What a hop says about its caller: forwarded headers, origin, request id, CSRF token\<close>

text \<open>
  The small shared modules of the server: \<open>forwarded.ts\<close> (headers written on the outgoing
  request), \<open>request-origin.ts\<close> (the origin the browser used), \<open>request-id.ts\<close> (the
  correlation id that may be echoed) and \<open>csrf.ts\<close> (the double-submit token check). A fresh
  \<open>crypto.randomUUID()\<close> is an argument of the operation that may draw one.
\<close>

subsection \<open>Forwarded headers\<close>

definition stripped_client_ip_header :: string where
  "stripped_client_ip_header = ''x-wallow-client-ip''"

text \<open>\<open>s.replace(":", "")\<close> removes the first colon.\<close>

fun remove_first :: "char \<Rightarrow> string \<Rightarrow> string" where
  "remove_first x [] = []"
| "remove_first x (c # s) = (if c = x then s else c # remove_first x s)"

definition apply_forwarded_headers :: "headers \<Rightarrow> url \<Rightarrow> string option \<Rightarrow> headers" where
  "apply_forwarded_headers hs incoming client_address =
     (let hs1 = (if \<not> h_has hs ''x-forwarded-proto''
                 then h_set hs ''x-forwarded-proto'' (remove_first (CHR '':'') (protocol incoming)) else hs);
          hs2 = (if \<not> h_has hs1 ''x-forwarded-host''
                 then h_set hs1 ''x-forwarded-host'' (host incoming) else hs1);
          hs3 = (case client_address of
              Some address \<Rightarrow>
                if address \<noteq> '''' then
                  (case h_get hs2 ''x-forwarded-for'' of
                     Some existing \<Rightarrow>
                       h_set hs2 ''x-forwarded-for''
                         (if existing \<noteq> '''' then existing @ '', '' @ address else address)
                   | None \<Rightarrow> h_set hs2 ''x-forwarded-for'' address)
                else hs2
            | None \<Rightarrow> hs2) in
      h_delete hs3 stripped_client_ip_header)"

subsection \<open>The browser-visible origin\<close>

definition forwarded_proto_header :: string where "forwarded_proto_header = ''x-forwarded-proto''"
definition served_schemes :: "string list" where "served_schemes = [''http'', ''https'']"

definition resolve_request_origin :: "request \<Rightarrow> string option \<Rightarrow> trusted_proxies \<Rightarrow> string" where
  "resolve_request_origin req peer trusted =
     (let url = req_url req in
      if \<not> is_trusted_peer peer trusted then url_origin url
      else
        (case h_get (req_headers req) forwarded_proto_header of
           None \<Rightarrow> url_origin url
         | Some forwarded \<Rightarrow>
             (let first_hop = hd (split_char (CHR '','') forwarded);
                  scheme = to_lower (strip_one_trailing (CHR '':'') (js_trim first_hop)) in
              if scheme \<notin> set served_schemes then url_origin url
              else scheme @ ''://'' @ host url)))"

definition create_request_origin_resolver :: "env \<Rightarrow> request \<Rightarrow> string" where
  "create_request_origin_resolver env =
     (let trusted = parse_trusted_proxies (env trusted_proxies_env_key) in
      (\<lambda>req. resolve_request_origin req (req_ip req) trusted))"

subsection \<open>Request ids\<close>

definition request_id_header :: string where "request_id_header = ''x-request-id''"
definition max_request_id_length :: nat where "max_request_id_length = 200"

definition request_id_char :: "char \<Rightarrow> bool" where
  "request_id_char c \<longleftrightarrow>
     65 \<le> code c \<and> code c \<le> 90 \<or> 97 \<le> code c \<and> code c \<le> 122 \<or> is_digit c
     \<or> c \<in> {CHR ''.'', CHR ''_'', CHR '':'', CHR ''-''}"

definition is_valid_request_id :: "string \<Rightarrow> bool" where
  "is_valid_request_id v \<longleftrightarrow>
     length v \<le> max_request_id_length \<and> v \<noteq> '''' \<and> list_all request_id_char v"

definition resolve_request_id :: "string \<Rightarrow> headers \<Rightarrow> string" where
  "resolve_request_id fresh_uuid hs =
     (case h_get hs request_id_header of
        Some inbound \<Rightarrow> if is_valid_request_id inbound then inbound else fresh_uuid
      | None \<Rightarrow> fresh_uuid)"

subsection \<open>The CSRF token\<close>

definition csrf_header :: string where "csrf_header = ''x-csrf-token''"

definition state_changing_methods :: "string list" where
  "state_changing_methods = [''POST'', ''PUT'', ''PATCH'', ''DELETE'']"

definition is_state_changing_method :: "string \<Rightarrow> bool" where
  "is_state_changing_method m \<longleftrightarrow> to_upper m \<in> set state_changing_methods"

text \<open>\<open>timingSafeEqual\<close> raises on unequal lengths: \<open>None\<close>.\<close>

definition timing_safe_equal :: "nat list \<Rightarrow> nat list \<Rightarrow> bool option" where
  "timing_safe_equal a b = (if length a \<noteq> length b then None else Some (a = b))"

definition csrf_token_matches :: "string option \<Rightarrow> string option \<Rightarrow> bool" where
  "csrf_token_matches expected presented =
     (case (expected, presented) of
        (Some e, Some p) \<Rightarrow>
          if e = '''' \<or> p = '''' then False
          else if length (utf8_encode e) \<noteq> length (utf8_encode p) then False
          else timing_safe_equal (utf8_encode e) (utf8_encode p) = Some True
      | _ \<Rightarrow> False)"

subsection \<open>Lemmas\<close>

lemma utf8_encode_inject: "utf8_encode s = utf8_encode t \<Longrightarrow> s = t"
  by (metis utf8_round_trip)

lemma csrf_token_matches_iff:
  "csrf_token_matches e p \<longleftrightarrow> (\<exists>t. t \<noteq> '''' \<and> e = Some t \<and> p = Some t)"
  using utf8_encode_inject by (auto simp: csrf_token_matches_def timing_safe_equal_def split: option.splits)

lemma header_value_append:
  assumes "c \<noteq> ''''" "\<forall>x\<in>set c. \<not> http_ws x"
  shows "header_value (s @ '', '' @ c) = dropWhile http_ws s @ '', '' @ c"
proof -
  have "dropWhile http_ws (s @ CHR '','' # r) = dropWhile http_ws s @ CHR '','' # r" for r
    by (induction s) (auto simp: http_ws_def)
  moreover have "dropWhile http_ws (rev c @ r) = rev c @ r" for r
    using assms by (cases c rule: rev_cases) auto
  ultimately show ?thesis by (simp add: header_value_def)
qed

lemma header_value_plain: "\<forall>x\<in>set c. \<not> http_ws x \<Longrightarrow> header_value c = c"
  by (cases c rule: rev_cases) (auto simp: header_value_def dropWhile_id hd_append)

lemma forwarded_for_value:
  assumes "c \<noteq> ''''" "\<forall>x\<in>set c. \<not> http_ws x"
  shows "\<exists>chain. h_get (apply_forwarded_headers hs u (Some c)) forwarded_for_header = Some chain
    \<and> (chain = c \<or> (\<exists>left. chain = left @ '', '' @ c))"
  using assms header_value_append [OF assms] header_value_plain [OF assms(2)]
  by (auto simp: apply_forwarded_headers_def Let_def h_get_set h_get_delete forwarded_for_header_def
      stripped_client_ip_header_def to_lower_def lower_char_def split: option.splits)
lemma undecorate_space [simp]: "undecorate (CHR '' '' # s) = undecorate s"
  by (simp add: undecorate_def js_trim_def trim_start_def is_ws_def)

lemma parse_address_space [simp]: "parse_address (CHR '' '' # s) = parse_address s"
  by (simp add: parse_address_def)

lemma walk_last_untrusted:
  assumes "parse_address c = Some a" "\<not> is_trusted a trusted" "CHR '','' \<notin> set c"
    and "chain = c \<or> (\<exists>left. chain = left @ '', '' @ c)"
  shows "walk_chain trusted None (rev (split_char (CHR '','') chain)) = Inl (addr_text a)"
proof -
  have "\<exists>ys e. split_char (CHR '','') chain = ys @ [e] \<and> parse_address e = Some a"
    using assms split_char_append_sep [of "CHR '',''" _ "CHR '' '' # c"]
    by (auto simp: split_char_notin)
  then show ?thesis using assms(2) by auto
qed

lemma address_text_chars:
  assumes "address_ok a"
  shows "addr_text a \<noteq> ''''" "\<forall>x\<in>set (addr_text a). \<not> http_ws x" "CHR '','' \<notin> set (addr_text a)"
proof -
  have ws: "http_ws x \<Longrightarrow> is_ws x" for x by (auto simp: http_ws_def is_ws_def)
  have comma: "CHR '','' \<notin> set (format_ipv4 v)" "CHR '','' \<notin> set (format_ipv6 v)" for v
    using format_ipv4_chars [of "CHR '',''" v] format_ipv6_chars [of "CHR '',''" v]
    by (auto simp: is_digit_def is_hex_digit_def)
  have plain: "\<forall>x\<in>set (format_ipv4 v). \<not> http_ws x" "\<forall>x\<in>set (format_ipv6 v). \<not> http_ws x" for v
    using ws format_ipv4_plain format_ipv6_plain by blast+
  from assms have "addr_text a = format_ipv4 (addr_value a) \<or> addr_text a = format_ipv6 (addr_value a)"
    by (auto simp: address_ok_def)
  then show "addr_text a \<noteq> ''''" "\<forall>x\<in>set (addr_text a). \<not> http_ws x" "CHR '','' \<notin> set (addr_text a)"
    using comma plain by (metis format_not_Nil)+
qed

subsection \<open>Properties\<close>

text \<open>
  C9: The caller survives the hop. When this server resolves a caller and forwards the request,
  the next server, if it trusts this one as a proxy and not the caller, resolves the same caller
  from the headers written here, whatever forwarded chain the caller had sent.
\<close>

theorem forwarded_caller_survives_hop:
  assumes "parse_address raw = Some caller" "\<not> is_trusted caller trusted"
    and "is_trusted_peer this_server trusted"
  shows "resolve_client_address (apply_forwarded_headers hs u (Some (addr_text caller))) this_server trusted
    = Some (addr_text caller)"
proof -
  have ok: "address_ok caller" using assms(1) by (rule parse_address_ok)
  note chars = address_text_chars [OF ok]
  obtain chain where chain: "h_get (apply_forwarded_headers hs u (Some (addr_text caller))) forwarded_for_header = Some chain"
      "chain = addr_text caller \<or> (\<exists>left. chain = left @ '', '' @ addr_text caller)"
    using forwarded_for_value [OF chars(1,2)] by blast
  have "walk_chain trusted None (rev (split_char (CHR '','') chain)) = Inl (addr_text caller)"
    using walk_last_untrusted [OF parse_address_text [OF ok] assms(2) chars(3) chain(2)] .
  with assms(3) chain(1) show ?thesis
    by (auto simp: resolve_client_address_def is_trusted_peer_def Let_def split: option.splits if_splits)
qed

theorem forwarded_caller_survives_hop_witness:
  "resolve_client_address
     (apply_forwarded_headers [(''x-forwarded-for'', ''10.9.9.9'')]
       \<lparr>protocol = ''https:'', host = ''app.test'', pathname = ''/'', search = '''', search_params = []\<rparr>
       (Some ''203.0.113.9''))
     (Some ''10.0.0.1'') [\<lparr>network = 167772160, cidr_mask = 4278190080, cidr_width = 32\<rparr>]
   = Some ''203.0.113.9''"
proof -
  let ?a = "\<lparr>addr_value = 3405803785, addr_width = 32, addr_text = ''203.0.113.9''\<rparr>"
  have "parse_address ''203.0.113.9'' = Some ?a"
    "\<not> is_trusted ?a [\<lparr>network = 167772160, cidr_mask = 4278190080, cidr_width = 32\<rparr>]"
    "is_trusted_peer (Some ''10.0.0.1'') [\<lparr>network = 167772160, cidr_mask = 4278190080, cidr_width = 32\<rparr>]"
    by code_simp+
  from forwarded_caller_survives_hop [OF this] show ?thesis by simp
qed

text \<open>
  The origin used for server rendering never leaves the request's own host: it is the
  request's origin, or its host under http or https, and only a trusted proxy can change the
  scheme.
\<close>

lemma request_origin_keeps_host:
  "resolve_request_origin req peer trusted
     \<in> {url_origin (req_url req), ''http://'' @ host (req_url req), ''https://'' @ host (req_url req)}
   \<and> (is_trusted_peer peer trusted \<or> resolve_request_origin req peer trusted = url_origin (req_url req))"
  by (simp add: resolve_request_origin_def served_schemes_def Let_def split: option.splits)

text \<open>
  The CSRF check accepts exactly a non-empty session token presented back unchanged; a
  missing or empty token on either side is refused, and the constant-time comparison is never
  given buffers of different lengths, on which it would throw.
\<close>

lemma csrf_accepts_exactly_the_session_token:
  "csrf_token_matches expected presented \<longleftrightarrow> (\<exists>t. t \<noteq> '''' \<and> expected = Some t \<and> presented = Some t)"
  by (rule csrf_token_matches_iff)

text \<open>
  The request id carried downstream is the caller's only when it is between 1 and 200
  characters of the allowed set, so no header, log line or trace tag takes an unbounded or
  control-bearing value from a request; otherwise it is the fresh id.
\<close>

lemma request_id_bounded:
  "resolve_request_id fresh hs = fresh
   \<or> (let i = resolve_request_id fresh hs in
        h_get hs request_id_header = Some i \<and> 0 < length i \<and> length i \<le> 200 \<and> list_all request_id_char i)"
  by (auto simp: resolve_request_id_def is_valid_request_id_def max_request_id_length_def Let_def
      split: option.splits)

end
