(* ===== verification/Json.thy ===== *)
theory Json
  imports Prelude
begin

section \<open>JSON values, \<open>JSON.stringify\<close> and \<open>JSON.parse\<close>\<close>

text \<open>
  Session records, problem bodies, token claims and log events are JSON. A value is a
  \<open>json\<close>; an \<open>undefined\<close> member is an absent one. Numbers are exact: \<open>JNum i\<close> is the
  integer \<open>i\<close> and \<open>JDec m k\<close> is \<open>m / 10^k\<close> with \<open>k > 0\<close> and 10 not dividing \<open>m\<close>; the rounding
  of integers beyond \<open>2^53\<close> to doubles is not modelled. Objects keep their members in insertion
  order. Escapes above code unit 255 are outside the model's strings and do not parse.
\<close>

datatype json =
    JNull
  | JBool bool
  | JNum int
  | JDec int nat
  | JStr string
  | JArr "json list"
  | JObj "(string \<times> json) list"

subsection \<open>Reading members\<close>

fun j_get :: "json \<Rightarrow> string \<Rightarrow> json option" where
  "j_get (JObj ms) k = obj_get ms k"
| "j_get _ k = None"

fun as_string :: "json \<Rightarrow> string option" where
  "as_string (JStr s) = Some s"
| "as_string _ = None"

definition j_string :: "json \<Rightarrow> string \<Rightarrow> string option" where
  "j_string j k = (case j_get j k of Some v \<Rightarrow> as_string v | None \<Rightarrow> None)"

fun is_object :: "json \<Rightarrow> bool" where
  "is_object (JObj _) = True"
| "is_object _ = False"

fun is_array :: "json \<Rightarrow> bool" where
  "is_array (JArr _) = True"
| "is_array _ = False"

text \<open>\<open>[("a", x)]\<close> if the optional value is there, no member otherwise.\<close>

definition opt_member :: "string \<Rightarrow> json option \<Rightarrow> (string \<times> json) list" where
  "opt_member k v = (case v of None \<Rightarrow> [] | Some j \<Rightarrow> [(k, j)])"

subsection \<open>\<open>JSON.stringify\<close>\<close>

abbreviation c34 :: char where "c34 \<equiv> CHR 0x22"
abbreviation c92 :: char where "c92 \<equiv> CHR 0x5C"

definition hex4 :: "nat \<Rightarrow> string" where
  "hex4 n = map (\<lambda>d. char_of (if d < 10 then 48 + d else 87 + d)) [0, 0, n div 16, n mod 16]"

definition json_escape :: "char \<Rightarrow> string" where
  "json_escape c =
     (if code c = 34 then [c92, c] else if code c = 92 then [c92, c]
      else if code c = 8 then [c92, CHR ''b''] else if code c = 9 then [c92, CHR ''t'']
      else if code c = 10 then [c92, CHR ''n''] else if code c = 12 then [c92, CHR ''f'']
      else if code c = 13 then [c92, CHR ''r'']
      else if code c < 32 then [c92, CHR ''u''] @ hex4 (code c) else [c])"

definition json_quote :: "string \<Rightarrow> string" where
  "json_quote s = [c34] @ concat (map json_escape s) @ [c34]"

definition dec_to_string :: "int \<Rightarrow> nat \<Rightarrow> string" where
  "dec_to_string m k =
     (let ds = nat_to_string (nat \<bar>m\<bar>);
          padded = replicate (Suc k - length ds) (CHR ''0'') @ ds;
          cut = length padded - k in
      (if m < 0 then ''-'' else '''') @ take cut padded @ ''.'' @ drop cut padded)"

fun json_print :: "json \<Rightarrow> string" where
  "json_print JNull = ''null''"
| "json_print (JBool b) = (if b then ''true'' else ''false'')"
| "json_print (JNum i) = int_to_string i"
| "json_print (JDec m k) = dec_to_string m k"
| "json_print (JStr s) = json_quote s"
| "json_print (JArr xs) = ''['' @ js_join '','' (map json_print xs) @ '']''"
| "json_print (JObj ms) = ''{'' @ js_join '','' (map (\<lambda>(k, v). json_quote k @ '':'' @ json_print v) ms) @ ''}''"

subsection \<open>\<open>JSON.parse\<close>\<close>

definition json_ws :: "char \<Rightarrow> bool" where
  "json_ws c \<longleftrightarrow> code c \<in> {9, 10, 13, 32}"

abbreviation skip_ws :: "string \<Rightarrow> string" where
  "skip_ws \<equiv> dropWhile json_ws"

definition hex_digit_val :: "char \<Rightarrow> nat option" where
  "hex_digit_val c =
     (if is_digit c then Some (code c - 48)
      else if 97 \<le> code c \<and> code c \<le> 102 then Some (code c - 87)
      else if 65 \<le> code c \<and> code c \<le> 70 then Some (code c - 55) else None)"

text \<open>The letter after a backslash, other than \<open>u\<close>.\<close>

definition unescape :: "char \<Rightarrow> char option" where
  "unescape c =
     (if code c = 34 \<or> code c = 92 \<or> code c = 47 then Some c
      else if c = CHR ''b'' then Some (CHR 0x08) else if c = CHR ''t'' then Some (CHR 0x09)
      else if c = CHR ''n'' then Some (CHR 0x0A) else if c = CHR ''f'' then Some (CHR 0x0C)
      else if c = CHR ''r'' then Some (CHR 0x0D) else None)"

fun parse_u :: "string \<Rightarrow> (char \<times> string) option" where
  "parse_u (a # b # c # d # r) =
     (case (hex_digit_val a, hex_digit_val b, hex_digit_val c, hex_digit_val d) of
        (Some x, Some y, Some z, Some w) \<Rightarrow>
          if x = 0 \<and> y = 0 then Some (char_of (z * 16 + w), r) else None
      | _ \<Rightarrow> None)"
| "parse_u _ = None"

text \<open>The rest of a string literal, after its opening quote.\<close>

function parse_string :: "string \<Rightarrow> string \<Rightarrow> (string \<times> string) option" where
  "parse_string acc [] = None"
| "parse_string acc (c # s) =
     (if code c = 34 then Some (rev acc, s)
      else if code c = 92 then
        (case s of
           [] \<Rightarrow> None
         | e # r \<Rightarrow>
             if e = CHR ''u'' then
               (case parse_u r of
                  None \<Rightarrow> None
                | Some (x, r') \<Rightarrow> if length r' < length r then parse_string (x # acc) r' else None)
             else (case unescape e of None \<Rightarrow> None | Some x \<Rightarrow> parse_string (x # acc) r))
      else if code c < 32 then None
      else parse_string (c # acc) s)"
  by pat_completeness auto
termination
  by (relation "measure (\<lambda>(acc, s). length s)") auto

fun strip_tens :: "nat \<Rightarrow> int \<Rightarrow> nat \<Rightarrow> json" where
  "strip_tens 0 m k = JDec m k"
| "strip_tens (Suc fuel) m k =
     (if k = 0 then JNum m
      else if m mod 10 = 0 then strip_tens fuel (m div 10) (k - 1)
      else JDec m k)"

text \<open>\<open>m * 10^e / 10^k\<close> as a number value.\<close>

definition make_number :: "int \<Rightarrow> nat \<Rightarrow> int \<Rightarrow> json" where
  "make_number m k e =
     (if e \<ge> int k then JNum (m * 10 ^ nat (e - int k))
      else let k' = nat (int k - e) in strip_tens (Suc k') m k')"

definition parse_exponent :: "string \<Rightarrow> (int \<times> string) option" where
  "parse_exponent s =
     (if s \<noteq> [] \<and> hd s \<in> {CHR ''e'', CHR ''E''} then
        (let signed = tl s;
             neg = (signed \<noteq> [] \<and> hd signed = CHR ''-'');
             body = (if signed \<noteq> [] \<and> hd signed \<in> {CHR ''-'', CHR ''+''} then tl signed else signed);
             ds = takeWhile is_digit body in
         if ds = [] then None
         else Some (if neg then - int (digits_val ds) else int (digits_val ds), dropWhile is_digit body))
      else Some (0, s))"

definition parse_number :: "string \<Rightarrow> (json \<times> string) option" where
  "parse_number s =
     (let neg = (s \<noteq> [] \<and> hd s = CHR ''-'');
          body = (if neg then tl s else s);
          ds = takeWhile is_digit body;
          r = dropWhile is_digit body in
      if ds = [] \<or> length ds > 1 \<and> hd ds = CHR ''0'' then None
      else
        (let has_frac = (r \<noteq> [] \<and> hd r = CHR ''.'');
             fs = (if has_frac then takeWhile is_digit (tl r) else []);
             r' = (if has_frac then dropWhile is_digit (tl r) else r) in
         if has_frac \<and> fs = [] then None
         else
           (case parse_exponent r' of
              None \<Rightarrow> None
            | Some (e, rest) \<Rightarrow>
                let m = int (digits_val (ds @ fs)) in
                Some (make_number (if neg then - m else m) (length fs) e, rest))))"

text \<open>
  The recursive descent, with fuel: a value or an element costs one unit, so twice the length
  of the text is always enough. A repeated member name keeps its place and takes the last value.
\<close>

fun parse_value :: "nat \<Rightarrow> string \<Rightarrow> (json \<times> string) option"
  and parse_elems :: "nat \<Rightarrow> string \<Rightarrow> (json list \<times> string) option"
  and parse_members :: "nat \<Rightarrow> string \<Rightarrow> ((string \<times> json) list \<times> string) option" where
  "parse_value 0 s = None"
| "parse_value (Suc n) s =
     (case skip_ws s of
        [] \<Rightarrow> None
      | c # r \<Rightarrow>
          if code c = 34 then map_option (\<lambda>(t, r'). (JStr t, r')) (parse_string [] r)
          else if c = CHR ''['' then
            (if skip_ws r \<noteq> [] \<and> hd (skip_ws r) = CHR '']'' then Some (JArr [], tl (skip_ws r))
             else map_option (\<lambda>(vs, r'). (JArr vs, r')) (parse_elems n r))
          else if c = CHR ''{'' then
            (if skip_ws r \<noteq> [] \<and> hd (skip_ws r) = CHR ''}'' then Some (JObj [], tl (skip_ws r))
             else map_option (\<lambda>(ms, r'). (JObj (obj_spread [] ms), r')) (parse_members n r))
          else if starts_with (c # r) ''null'' then Some (JNull, drop 3 r)
          else if starts_with (c # r) ''true'' then Some (JBool True, drop 3 r)
          else if starts_with (c # r) ''false'' then Some (JBool False, drop 4 r)
          else parse_number (c # r))"
| "parse_elems 0 s = None"
| "parse_elems (Suc n) s =
     (case parse_value n s of
        None \<Rightarrow> None
      | Some (v, r) \<Rightarrow>
          (case skip_ws r of
             [] \<Rightarrow> None
           | c # r' \<Rightarrow>
               if c = CHR '','' then map_option (\<lambda>(vs, r''). (v # vs, r'')) (parse_elems n r')
               else if c = CHR '']'' then Some ([v], r') else None))"
| "parse_members 0 s = None"
| "parse_members (Suc n) s =
     (case skip_ws s of
        [] \<Rightarrow> None
      | q # r0 \<Rightarrow>
          if code q \<noteq> 34 then None
          else (case parse_string [] r0 of
              None \<Rightarrow> None
            | Some (k, r1) \<Rightarrow>
                if skip_ws r1 = [] \<or> hd (skip_ws r1) \<noteq> CHR '':'' then None
                else (case parse_value n (tl (skip_ws r1)) of
                    None \<Rightarrow> None
                  | Some (v, r) \<Rightarrow>
                      (case skip_ws r of
                         [] \<Rightarrow> None
                       | c # r' \<Rightarrow>
                           if c = CHR '','' then map_option (\<lambda>(ms, r''). ((k, v) # ms, r'')) (parse_members n r')
                           else if c = CHR ''}'' then Some ([(k, v)], r') else None))))"

definition json_parse :: "string \<Rightarrow> json option" where
  "json_parse s =
     (case parse_value (2 * length s + 2) s of
        Some (j, r) \<Rightarrow> if skip_ws r = [] then Some j else None
      | None \<Rightarrow> None)"

subsection \<open>Strings round trip\<close>

lemma code_eq_char: "code c = n \<Longrightarrow> c = char_of n"
  by auto

lemma hex_digit_val_char:
  "d < 16 \<Longrightarrow> hex_digit_val (char_of (if d < 10 then 48 + d else 87 + d)) = Some d"
  by (auto simp: hex_digit_val_def is_digit_def)

lemma parse_u_hex4:
  assumes "n < 256"
  shows "parse_u (hex4 n @ r) = Some (char_of n, r)"
proof -
  have "hex_digit_val (CHR ''0'') = Some 0" by (simp add: hex_digit_val_def is_digit_def)
  then show ?thesis
    using assms hex_digit_val_char [of "n div 16"] hex_digit_val_char [of "n mod 16"]
      hex_digit_val_char [of 0] by (simp add: hex4_def Let_def)
qed

lemma char_literals:
  "char_of (34 :: nat) = CHR 0x22" "char_of (92 :: nat) = CHR 0x5C" "char_of (8 :: nat) = CHR 0x08"
  "char_of (9 :: nat) = CHR 0x09" "char_of (10 :: nat) = CHR 0x0A" "char_of (12 :: nat) = CHR 0x0C"
  "char_of (13 :: nat) = CHR 0x0D"
  by code_simp+

lemma parse_string_escape:
  "parse_string acc (json_escape c @ s) = parse_string (c # acc) s"
proof -
  have small: "code c = n \<Longrightarrow> c = char_of n" for n by auto
  consider "code c = 34" | "code c = 92" | "code c = 8" | "code c = 9" | "code c = 10"
    | "code c = 12" | "code c = 13"
    | "code c < 32" "code c \<notin> {8, 9, 10, 12, 13}"
    | "code c \<ge> 32" "code c \<noteq> 34" "code c \<noteq> 92" by force
  then show ?thesis
  proof cases
    case 8
    then have "json_escape c @ s = c92 # CHR ''u'' # hex4 (code c) @ s"
      by (auto simp: json_escape_def)
    moreover have "length s < length (hex4 (code c) @ s)" by (simp add: hex4_def)
    ultimately show ?thesis using parse_u_hex4 [of "code c" s] 8 by simp
  next
    case 9
    then show ?thesis by (simp add: json_escape_def)
  qed (auto dest!: small simp: json_escape_def unescape_def char_literals)
qed

lemma parse_string_quote: "parse_string acc (concat (map json_escape s) @ c34 # r) = Some (rev acc @ s, r)"
  by (induction s arbitrary: acc) (simp_all add: parse_string_escape del: parse_string.simps(2),
      simp add: parse_string.simps(2))

subsection \<open>Values round trip\<close>

text \<open>
  The values the model prints and reads back: no fraction, and no member name twice.
\<close>

fun json_ok :: "json \<Rightarrow> bool" where
  "json_ok (JDec m k) \<longleftrightarrow> False"
| "json_ok (JArr xs) \<longleftrightarrow> (\<forall>x\<in>set xs. json_ok x)"
| "json_ok (JObj ms) \<longleftrightarrow> distinct (map fst ms) \<and> (\<forall>(k, v)\<in>set ms. json_ok v)"
| "json_ok _ \<longleftrightarrow> True"

text \<open>The fuel a value needs.\<close>

fun need :: "json \<Rightarrow> nat" where
  "need (JArr xs) = 1 + sum_list (map (\<lambda>x. 1 + need x) xs)"
| "need (JObj ms) = 1 + sum_list (map (\<lambda>(k, v). 1 + need v) ms)"
| "need _ = 1"

definition stops :: "string \<Rightarrow> bool" where
  "stops r \<longleftrightarrow> r = [] \<or> hd r \<in> {CHR '','', CHR '']'', CHR ''}''}"

lemma takeWhile_digits: "\<forall>c\<in>set s. is_digit c \<Longrightarrow> stops r \<Longrightarrow> takeWhile is_digit (s @ r) = s"
  and dropWhile_digits: "\<forall>c\<in>set s. is_digit c \<Longrightarrow> stops r \<Longrightarrow> dropWhile is_digit (s @ r) = r"
  by (cases r; force simp: stops_def is_digit_def takeWhile_append dropWhile_append)+

lemma no_leading_zero: "\<not> (length (nat_to_string n) > 1 \<and> hd (nat_to_string n) = CHR ''0'')"
  using nat_to_string_hd [of n] nat_to_string_length1 [of 0] by (cases "n = 0") auto

lemma hd_nat_to_string: "is_digit (hd (nat_to_string n))"
  using nat_to_string_digits [of "hd (nat_to_string n)" n] by simp

lemma parse_number_digits:
  assumes "ds \<noteq> []" "\<forall>c\<in>set ds. is_digit c" "\<not> (length ds > 1 \<and> hd ds = CHR ''0'')" "stops r"
  shows "parse_number (ds @ r) = Some (JNum (int (digits_val ds)), r)"
    "parse_number (CHR ''-'' # ds @ r) = Some (JNum (- int (digits_val ds)), r)"
proof -
  have exp: "parse_exponent r = Some (0, r)"
    using assms(4) by (auto simp: parse_exponent_def stops_def)
  have frac: "(r \<noteq> [] \<and> hd r = CHR ''.'') = False"
    using assms(4) by (auto simp: stops_def)
  have ok: "(ds = [] \<or> length ds > 1 \<and> hd ds = CHR ''0'') = False" using assms by blast
  have sign: "(ds @ r \<noteq> [] \<and> hd (ds @ r) = CHR ''-'') = False"
    using assms(1,2) by (cases ds) (auto simp: is_digit_def)
  have minus: "(CHR ''-'' # ds @ r \<noteq> [] \<and> hd (CHR ''-'' # ds @ r) = CHR ''-'') = True"
      "tl (CHR ''-'' # ds @ r) = ds @ r" by simp_all
  note rw = takeWhile_digits [OF assms(2,4)] dropWhile_digits [OF assms(2,4)] exp frac ok
  show "parse_number (ds @ r) = Some (JNum (int (digits_val ds)), r)"
    unfolding parse_number_def Let_def sign if_False rw by (simp add: make_number_def)
  show "parse_number (CHR ''-'' # ds @ r) = Some (JNum (- int (digits_val ds)), r)"
    unfolding parse_number_def Let_def minus if_True rw if_False
    by (simp add: make_number_def)
qed

lemma parse_number_int:
  assumes "stops r"
  shows "parse_number (int_to_string i @ r) = Some (JNum i, r)"
proof -
  have "\<forall>c\<in>set (nat_to_string n). is_digit c" for n using nat_to_string_digits by blast
  note num = parse_number_digits [OF nat_to_string_not_Nil this no_leading_zero assms]
  show ?thesis by (simp add: int_to_string_def num)
qed

lemma int_to_string_hd: "\<exists>c s. int_to_string i = c # s \<and> (is_digit c \<or> c = CHR ''-'')"
  using hd_nat_to_string [of "nat i"] nat_to_string_not_Nil [of "nat i"]
  by (cases "i < 0"; cases "nat_to_string (nat i)") (auto simp: int_to_string_def)

lemma parse_value_int:
  assumes "stops r"
  shows "parse_value (Suc n) (int_to_string i @ r) = Some (JNum i, r)"
proof -
  obtain c s where s: "int_to_string i = c # s" "is_digit c \<or> c = CHR ''-''"
    using int_to_string_hd by blast
  then have "\<not> json_ws c" "code c \<noteq> 34" "c \<noteq> CHR ''[''" "c \<noteq> CHR ''{''"
      "c \<noteq> CHR ''n''" "c \<noteq> CHR ''t''" "c \<noteq> CHR ''f''"
    by (auto simp: json_ws_def is_digit_def)
  with s parse_number_int [OF assms, of i] show ?thesis
    by (simp add: starts_with_def)
qed

lemma json_ws_literals [simp]:
  "\<not> json_ws (CHR '','')" "\<not> json_ws (CHR '']'')" "\<not> json_ws (CHR ''}'')" "\<not> json_ws (CHR '':'')"
  "\<not> json_ws (CHR ''['')" "\<not> json_ws (CHR ''{'')" "\<not> json_ws (CHR 0x22)"
  "\<not> json_ws (CHR ''n'')" "\<not> json_ws (CHR ''t'')" "\<not> json_ws (CHR ''f'')"
  by (simp_all add: json_ws_def)

text \<open>A printed value begins with a character that is no white space and closes nothing.\<close>

lemma json_print_hd:
  "\<exists>c s. json_print j = c # s \<and> \<not> json_ws c \<and> c \<noteq> CHR '']''" if "json_ok j"
proof (cases j)
  case (JNum i)
  obtain c s where "int_to_string i = c # s" "is_digit c \<or> c = CHR ''-''"
    using int_to_string_hd by blast
  with JNum show ?thesis by (auto simp: json_ws_def is_digit_def)
qed (use that in \<open>auto simp: json_quote_def json_ws_def\<close>)

lemma parse_elems_print:
  assumes "xs \<noteq> []"
    and "\<And>x n r. x \<in> set xs \<Longrightarrow> need x \<le> n \<Longrightarrow> stops r \<Longrightarrow> parse_value n (json_print x @ r) = Some (x, r)"
    and "sum_list (map (\<lambda>x. 1 + need x) xs) \<le> n"
  shows "parse_elems n (js_join '','' (map json_print xs) @ '']'' @ r) = Some (xs, r)"
  using assms
proof (induction xs arbitrary: n)
  case (Cons x xs)
  obtain m where n: "n = Suc m" using Cons.prems(3) by (cases n) auto
  show ?case
  proof (cases "xs = []")
    case True
    with Cons.prems(2) [of x m "'']'' @ r"] Cons.prems(3) show ?thesis
      by (simp add: n stops_def)
  next
    case False
    let ?rest = "js_join '','' (map json_print xs) @ '']'' @ r"
    have "parse_value m (json_print x @ '','' @ ?rest) = Some (x, '','' @ ?rest)"
      using Cons.prems(2) [of x m "'','' @ ?rest"] Cons.prems(3) by (simp add: n stops_def)
    moreover have "parse_elems m ?rest = Some (xs, r)"
      using Cons.IH [OF False] Cons.prems by (auto simp: n)
    ultimately show ?thesis using False by (simp add: n js_join_cons)
  qed
qed simp

lemma parse_members_print:
  assumes "ms \<noteq> []"
    and "\<And>k v n r. (k, v) \<in> set ms \<Longrightarrow> need v \<le> n \<Longrightarrow> stops r \<Longrightarrow> parse_value n (json_print v @ r) = Some (v, r)"
    and "sum_list (map (\<lambda>(k, v). 1 + need v) ms) \<le> n"
  shows "parse_members n (js_join '','' (map (\<lambda>(k, v). json_quote k @ '':'' @ json_print v) ms) @ ''}'' @ r)
     = Some (ms, r)"
  using assms
proof (induction ms arbitrary: n)
  case (Cons kv ms)
  obtain k v where kv: "kv = (k, v)" by fastforce
  obtain m where n: "n = Suc m" using Cons.prems(3) by (cases n) (auto simp: kv)
  have quote: "json_quote k @ s = c34 # concat (map json_escape k) @ c34 # s" for s
    by (simp add: json_quote_def)
  show ?case
  proof (cases "ms = []")
    case True
    with Cons.prems(2) [of k v m "''}'' @ r"] Cons.prems(3) show ?thesis
      by (simp add: n kv stops_def quote parse_string_quote)
  next
    case False
    let ?rest = "js_join '','' (map (\<lambda>(k, v). json_quote k @ '':'' @ json_print v) ms) @ ''}'' @ r"
    have "parse_value m (json_print v @ '','' @ ?rest) = Some (v, '','' @ ?rest)"
      using Cons.prems(2) [of k v m "'','' @ ?rest"] Cons.prems(3) by (simp add: n kv stops_def)
    moreover have "parse_members m ?rest = Some (ms, r)"
    proof (rule Cons.IH [OF False])
      show "parse_value n (json_print v @ r) = Some (v, r)"
        if "(k, v) \<in> set ms" "need v \<le> n" "stops r" for k v n r
        using that Cons.prems(2) by (meson list.set_intros(2))
      show "sum_list (map (\<lambda>(k, v). 1 + need v) ms) \<le> m" using Cons.prems(3) by (simp add: n kv)
    qed
    ultimately show ?thesis using False by (simp add: n kv js_join_cons quote parse_string_quote)
  qed
qed simp

lemma obj_set_fresh: "k \<notin> fst ` set ob \<Longrightarrow> obj_set ob k v = ob @ [(k, v)]"
  by (induction ob k v rule: obj_set.induct) auto

lemma obj_spread_distinct: "distinct (map fst ms) \<Longrightarrow> fst ` set ob \<inter> fst ` set ms = {} \<Longrightarrow> obj_spread ob ms = ob @ ms"
proof (induction ms arbitrary: ob)
  case (Cons kv ms)
  then show ?case by (cases kv) (auto simp: obj_spread_def obj_set_fresh)
qed (simp add: obj_spread_def)

lemma parse_value_print:
  "json_ok j \<Longrightarrow> need j \<le> n \<Longrightarrow> stops r \<Longrightarrow> parse_value n (json_print j @ r) = Some (j, r)"
proof (induction j arbitrary: n r rule: json_print.induct)
  case (6 xs)
  then obtain m where n: "n = Suc m" by (cases n) auto
  show ?case
  proof (cases "xs = []")
    case False
    then obtain x ys where xs: "xs = x # ys" by (cases xs) auto
    obtain c s where "json_print x = c # s" "\<not> json_ws c" "c \<noteq> CHR '']''"
      using json_print_hd [of x] "6.prems"(1) xs by auto
    then have "\<exists>s'. js_join '','' (map json_print xs) = c # s'" by (cases ys) (auto simp: xs)
    then obtain s' where s': "js_join '','' (map json_print xs) = c # s'" by blast
    have "parse_elems m (js_join '','' (map json_print xs) @ '']'' @ r) = Some (xs, r)"
      using "6.IH" "6.prems" False by (intro parse_elems_print) (auto simp: n)
    then show ?thesis using s' \<open>\<not> json_ws c\<close> \<open>c \<noteq> CHR '']''\<close> by (simp add: n)
  qed (simp add: n)
next
  case (7 ms)
  then obtain m where n: "n = Suc m" by (cases n) auto
  show ?case
  proof (cases "ms = []")
    case False
    then have "\<exists>s'. js_join '','' (map (\<lambda>(k, v). json_quote k @ '':'' @ json_print v) ms) = c34 # s'"
      by (cases ms; cases "tl ms") (auto simp: json_quote_def split: prod.splits)
    then obtain s' where s': "js_join '','' (map (\<lambda>(k, v). json_quote k @ '':'' @ json_print v) ms) = c34 # s'"
      by blast
    have "parse_members m (js_join '','' (map (\<lambda>(k, v). json_quote k @ '':'' @ json_print v) ms) @ ''}'' @ r)
        = Some (ms, r)"
      using "7.IH" "7.prems" False by (intro parse_members_print) (fastforce simp: n)+
    then show ?thesis using s' "7.prems"(1) by (simp add: n obj_spread_distinct json_ws_def)
  qed (simp add: n)
next
  case 1
  then show ?case by (cases n) (simp_all add: starts_with_def)
next
  case (2 b)
  then show ?case by (cases n; cases b) (simp_all add: starts_with_def)
next
  case (3 i)
  then show ?case using parse_value_int [of r] by (cases n) (simp_all del: parse_value.simps(2))
next
  case (5 s)
  then show ?case by (cases n) (simp_all add: json_quote_def parse_string_quote)
qed simp

lemma length_js_join: "xs \<noteq> [] \<Longrightarrow> Suc (length (js_join '','' xs)) = sum_list (map (\<lambda>x. Suc (length x)) xs)"
  by (induction "'',''" xs rule: js_join.induct) auto

lemma need_le: "need j \<le> 2 * length (json_print j)"
proof (induction j rule: json_print.induct)
  case (3 i)
  then show ?case using int_to_string_hd [of i] by auto
next
  case (4 m k)
  then show ?case by (simp add: dec_to_string_def Let_def)
next
  case (6 xs)
  have "sum_list (map (\<lambda>x. 1 + need x) xs) \<le> sum_list (map (\<lambda>x. 2 * Suc (length (json_print x))) xs)"
    using 6 by (intro sum_list_mono) fastforce
  also have "\<dots> = 2 * sum_list (map (\<lambda>x. Suc (length x)) (map json_print xs))"
    by (induction xs) auto
  also have "\<dots> \<le> 2 * Suc (length (js_join '','' (map json_print xs)))"
    using length_js_join [of "map json_print xs"] by (cases "xs = []") auto
  finally show ?case by simp
next
  case (7 ms)
  let ?p = "\<lambda>(k, v). json_quote k @ '':'' @ json_print v"
  have "sum_list (map (\<lambda>(k, v). 1 + need v) ms) \<le> sum_list (map (\<lambda>kv. 2 * Suc (length (?p kv))) ms)"
    using 7 by (intro sum_list_mono) fastforce
  also have "\<dots> = 2 * sum_list (map (\<lambda>x. Suc (length x)) (map ?p ms))"
    by (induction ms) auto
  also have "\<dots> \<le> 2 * Suc (length (js_join '','' (map ?p ms)))"
    using length_js_join [of "map ?p ms"] by (cases "ms = []") auto
  finally show ?case by simp
qed (simp_all add: json_quote_def)

text \<open>What is printed reads back: no session field is lost or confused on its way to a store.\<close>

lemma json_parse_print: "json_ok j \<Longrightarrow> json_parse (json_print j) = Some j"
  using parse_value_print [of j "2 * length (json_print j) + 2" "[]"] need_le [of j]
  by (simp add: json_parse_def stops_def del: parse_value.simps)

end
