(* ===== verification/ApiErrors.thy ===== *)
theory ApiErrors
  imports Json Http
begin

section \<open>API failures (\<open>packages/api-errors\<close>)\<close>

text \<open>
  Every failed call becomes one \<open>ApiFailure\<close>: a problem the API answered with, an OAuth error
  body, a transport fault, or a response nothing could be made of. This theory models the class,
  the two parsers \<open>failureFromResponse\<close> and \<open>toApiFailure\<close>, the \<open>Retry-After\<close> reader, the
  message resolver and the split of validation errors over a form's fields. A thrown JavaScript
  \<open>Error\<close> is a \<open>js_error\<close> with an identity, so that a cyclic chain of causes (an error seen
  again) is expressible. \<open>Date.parse\<close> and \<open>Date.now()\<close> are arguments.
\<close>

subsection \<open>Codes\<close>

definition transport_network_error :: string where "transport_network_error = ''Transport.NetworkError''"
definition transport_timeout :: string where "transport_timeout = ''Transport.Timeout''"
definition transport_aborted :: string where "transport_aborted = ''Transport.Aborted''"
definition client_unrecognized_response :: string where
  "client_unrecognized_response = ''Client.UnrecognizedResponse''"
definition bff_csrf_invalid :: string where "bff_csrf_invalid = ''Bff.CsrfInvalid''"
definition bff_session_refresh_failed :: string where
  "bff_session_refresh_failed = ''Bff.SessionRefreshFailed''"
definition bff_session_missing :: string where "bff_session_missing = ''Bff.SessionMissing''"

definition client_error_codes :: "string list" where
  "client_error_codes =
     [transport_network_error, transport_timeout, transport_aborted, client_unrecognized_response,
      bff_csrf_invalid, bff_session_refresh_failed, bff_session_missing]"

definition is_client_error_code :: "string \<Rightarrow> bool" where
  "is_client_error_code c \<longleftrightarrow> c \<in> set client_error_codes"

text \<open>The codes of the API catalogue that the sources name.\<close>

definition auth_unauthenticated :: string where "auth_unauthenticated = ''Auth.Unauthenticated''"
definition http_method_not_allowed :: string where "http_method_not_allowed = ''Http.MethodNotAllowed''"
definition http_not_found :: string where "http_not_found = ''Http.NotFound''"
definition rate_limit_exceeded :: string where "rate_limit_exceeded = ''RateLimit.Exceeded''"
definition validation_failed :: string where "validation_failed = ''Validation.Failed''"

lemmas code_defs = transport_network_error_def transport_timeout_def transport_aborted_def
  client_unrecognized_response_def bff_csrf_invalid_def bff_session_refresh_failed_def
  bff_session_missing_def auth_unauthenticated_def http_method_not_allowed_def http_not_found_def
  rate_limit_exceeded_def validation_failed_def

subsection \<open>Failures and thrown values\<close>

datatype js_error = JsError (err_id: nat) (err_name: string) (err_message: string)
  (err_code: "json option") (err_cause: "js_error option")

datatype cause = CauseError js_error | CauseValue json

record api_failure =
  f_status :: int
  f_code :: string
  f_title :: string
  f_detail :: "string option"
  f_trace_id :: "string option"
  f_request_id :: "string option"
  f_field_errors :: "(string \<times> string list) list option"
  f_retry_after :: "int option"
  f_cause :: "cause option"
  f_name :: string

text \<open>The constructor with every optional member absent.\<close>

definition new_failure :: "int \<Rightarrow> string \<Rightarrow> string \<Rightarrow> api_failure" where
  "new_failure st c title =
     \<lparr>f_status = st, f_code = c, f_title = title, f_detail = None, f_trace_id = None,
      f_request_id = None, f_field_errors = None, f_retry_after = None, f_cause = None,
      f_name = ''ApiFailure''\<rparr>"

definition failure_message :: "api_failure \<Rightarrow> string" where
  "failure_message f =
     ''['' @ int_to_string (f_status f) @ '' '' @ f_code f @ ''] '' @ f_title f"

text \<open>
  What a \<open>catch\<close> may hold: an \<open>ApiFailure\<close>, one of its two subclasses on the server
  (\<open>RefreshFailedError\<close>; \<open>UpstreamError\<close>, which carries the response and its body text),
  an ordinary \<open>Error\<close>, or any other value. All three failures carry the brand \<open>isApiFailure\<close> reads.
\<close>

datatype thrown =
    Failure api_failure
  | RefreshFailed api_failure
  | Upstream api_failure response string
  | Err js_error
  | Value json

fun thrown_failure :: "thrown \<Rightarrow> api_failure option" where
  "thrown_failure (Failure f) = Some f"
| "thrown_failure (RefreshFailed f) = Some f"
| "thrown_failure (Upstream f r t) = Some f"
| "thrown_failure _ = None"

definition is_api_failure :: "thrown \<Rightarrow> bool" where
  "is_api_failure e \<longleftrightarrow> thrown_failure e \<noteq> None"

subsection \<open>Reading a body\<close>

definition max_cause_depth :: nat where "max_cause_depth = 8"
definition timeout_codes :: "string list" where
  "timeout_codes =
     [''UND_ERR_CONNECT_TIMEOUT'', ''UND_ERR_HEADERS_TIMEOUT'', ''UND_ERR_BODY_TIMEOUT'', ''ETIMEDOUT'']"

record response_facts =
  facts_status :: "int option"
  facts_request_id :: "string option"
  facts_retry_after :: "int option"

definition has_timeout_code :: "js_error \<Rightarrow> bool" where
  "has_timeout_code e = (case err_code e of Some (JStr c) \<Rightarrow> c \<in> set timeout_codes | _ \<Rightarrow> False)"

text \<open>The loop of \<open>isTimeout\<close>: \<open>seen\<close> holds the identities of the errors passed.\<close>

function is_timeout_loop :: "nat list \<Rightarrow> js_error option \<Rightarrow> bool" where
  "is_timeout_loop seen None = False"
| "is_timeout_loop seen (Some e) =
     (if err_id e \<notin> set seen \<and> length seen < max_cause_depth then
        (if err_name e = ''TimeoutError'' \<or> has_timeout_code e then True
         else is_timeout_loop (err_id e # seen) (err_cause e))
      else False)"
  by pat_completeness auto
termination
  by (relation "measure (\<lambda>(seen, e). max_cause_depth - length seen)") auto

definition is_timeout :: "js_error \<Rightarrow> bool" where
  "is_timeout e = is_timeout_loop [] (Some e)"

text \<open>A fractional \<open>status\<close> of a bare body counts as its floor.\<close>

definition read_body_status :: "json \<Rightarrow> int option" where
  "read_body_status problem =
     (case j_get problem ''status'' of
        Some (JNum i) \<Rightarrow> Some i
      | Some (JDec m k) \<Rightarrow> Some (m div 10 ^ k)
      | _ \<Rightarrow> None)"

fun string_array :: "json list \<Rightarrow> string list option" where
  "string_array [] = Some []"
| "string_array (JStr s # xs) = map_option ((#) s) (string_array xs)"
| "string_array (_ # xs) = None"

definition read_field_errors :: "json option \<Rightarrow> (string \<times> string list) list option" where
  "read_field_errors errors =
     (case errors of
        Some (JObj ms) \<Rightarrow>
          (let kept = List.map_filter (\<lambda>(field, v).
                 case v of JArr xs \<Rightarrow> if field = proto_key then None else map_option (Pair field) (string_array xs)
               | _ \<Rightarrow> None) ms in
           if kept = [] then None else Some kept)
      | _ \<Rightarrow> None)"

fun capitalize :: "string \<Rightarrow> string" where
  "capitalize [] = []"
| "capitalize (c # s) = upper_char c @ to_lower s"

definition to_pascal_case :: "string \<Rightarrow> string" where
  "to_pascal_case token =
     concat (map capitalize (filter (\<lambda>w. w \<noteq> '''') (split_runs (\<lambda>c. c = CHR ''_'') token)))"

definition internal_server_error :: int where "internal_server_error = 500"

definition default_status :: "int option \<Rightarrow> int option \<Rightarrow> int" where
  "default_status a b =
     (case a of Some s \<Rightarrow> s | None \<Rightarrow> (case b of Some s \<Rightarrow> s | None \<Rightarrow> internal_server_error))"

definition problem_failure :: "json \<Rightarrow> string \<Rightarrow> response_facts \<Rightarrow> api_failure" where
  "problem_failure problem c facts =
     (new_failure (default_status (facts_status facts) (read_body_status problem)) c
        (case j_string problem ''title'' of Some t \<Rightarrow> t | None \<Rightarrow> ''Request failed''))
     \<lparr>f_detail := j_string problem ''detail'',
      f_trace_id := j_string problem ''traceId'',
      f_request_id := facts_request_id facts,
      f_field_errors := read_field_errors (j_get problem ''errors''),
      f_retry_after := facts_retry_after facts\<rparr>"

definition oauth_failure :: "json \<Rightarrow> string \<Rightarrow> response_facts \<Rightarrow> api_failure" where
  "oauth_failure body token facts =
     (new_failure (default_status (facts_status facts) (read_body_status body))
        (''OAuth.'' @ to_pascal_case token) token)
     \<lparr>f_detail := j_string body ''error_description'',
      f_request_id := facts_request_id facts,
      f_retry_after := facts_retry_after facts\<rparr>"

definition unrecognized :: "cause option \<Rightarrow> response_facts \<Rightarrow> api_failure" where
  "unrecognized c facts =
     (new_failure (default_status (facts_status facts) None) client_unrecognized_response
        ''Unrecognized response'')
     \<lparr>f_request_id := facts_request_id facts, f_retry_after := facts_retry_after facts, f_cause := c\<rparr>"

definition from_body :: "json option \<Rightarrow> cause option \<Rightarrow> response_facts \<Rightarrow> api_failure" where
  "from_body body raw facts =
     (case body of
        Some (JObj ms) \<Rightarrow>
          (case j_string (JObj ms) ''code'' of
             Some c \<Rightarrow> problem_failure (JObj ms) c facts
           | None \<Rightarrow>
               (case j_string (JObj ms) ''error'' of
                  Some token \<Rightarrow> oauth_failure (JObj ms) token facts
                | None \<Rightarrow> unrecognized raw facts))
      | _ \<Rightarrow> unrecognized raw facts)"

definition try_parse_json :: "string \<Rightarrow> json option" where
  "try_parse_json text = (if js_trim text = '''' then None else json_parse text)"

subsection \<open>\<open>Retry-After\<close>\<close>

definition upper_letter :: "char \<Rightarrow> bool" where "upper_letter c \<longleftrightarrow> 65 \<le> code c \<and> code c \<le> 90"
definition lower_letter :: "char \<Rightarrow> bool" where "lower_letter c \<longleftrightarrow> 97 \<le> code c \<and> code c \<le> 122"

text \<open>A fixed-length pattern: one test per character.\<close>

definition shape :: "(char \<Rightarrow> bool) list \<Rightarrow> string \<Rightarrow> bool" where
  "shape ps s \<longleftrightarrow> length s = length ps \<and> list_all (\<lambda>(p, c). p c) (zip ps s)"

abbreviation lit :: "string \<Rightarrow> (char \<Rightarrow> bool) list" where
  "lit s \<equiv> map (\<lambda>x c. c = x) s"

definition http_date_shape :: "(char \<Rightarrow> bool) list" where
  "http_date_shape =
     [upper_letter, lower_letter, lower_letter] @ lit '', '' @ [is_digit, is_digit] @ lit '' ''
     @ [upper_letter, lower_letter, lower_letter] @ lit '' '' @ replicate 4 is_digit @ lit '' ''
     @ [is_digit, is_digit] @ lit '':'' @ [is_digit, is_digit] @ lit '':'' @ [is_digit, is_digit]
     @ lit '' GMT''"

text \<open>\<open>Math.ceil\<close> of milliseconds over 1000.\<close>

definition ceil_seconds :: "int \<Rightarrow> int" where "ceil_seconds ms = - ((- ms) div 1000)"

definition parse_retry_after :: "(string \<Rightarrow> int option) \<Rightarrow> int \<Rightarrow> string option \<Rightarrow> int option" where
  "parse_retry_after date_parse now header =
     (case header of
        None \<Rightarrow> None
      | Some h \<Rightarrow>
          (let v = js_trim h in
           if v = '''' then None
           else if list_all is_digit v then Some (int (digits_val v))
           else if \<not> shape http_date_shape v then None
           else (case date_parse v of None \<Rightarrow> None | Some at \<Rightarrow> Some (max 0 (ceil_seconds (at - now))))))"

subsection \<open>The two parsers\<close>

definition failure_from_response ::
    "(string \<Rightarrow> int option) \<Rightarrow> int \<Rightarrow> int \<Rightarrow> headers \<Rightarrow> string \<Rightarrow> api_failure" where
  "failure_from_response date_parse now st hs body_text =
     from_body (try_parse_json body_text) (Some (CauseValue (JStr body_text)))
       \<lparr>facts_status = Some st, facts_request_id = h_get hs ''x-request-id'',
        facts_retry_after = parse_retry_after date_parse now (h_get hs ''retry-after'')\<rparr>"

definition transport_failure :: "js_error \<Rightarrow> string option \<Rightarrow> api_failure" where
  "transport_failure e request_id =
     (if is_timeout e then
        (new_failure 504 transport_timeout ''The request timed out'')
        \<lparr>f_request_id := request_id, f_cause := Some (CauseError e)\<rparr>
      else if err_name e = ''AbortError'' then
        (new_failure 499 transport_aborted ''The request was aborted'')
        \<lparr>f_request_id := request_id, f_cause := Some (CauseError e)\<rparr>
      else
        (new_failure 503 transport_network_error ''Unable to reach the server'')
        \<lparr>f_request_id := request_id, f_cause := Some (CauseError e)\<rparr>)"

definition to_api_failure :: "thrown \<Rightarrow> response_facts \<Rightarrow> api_failure" where
  "to_api_failure input context =
     (case thrown_failure input of
        Some f \<Rightarrow> f
      | None \<Rightarrow>
          (case input of
             Err e \<Rightarrow>
               (case facts_status context of
                  None \<Rightarrow> transport_failure e (facts_request_id context)
                | Some _ \<Rightarrow> unrecognized (Some (CauseError e)) context)
           | Value j \<Rightarrow> from_body (Some j) (Some (CauseValue j)) context))"

definition no_context :: response_facts where
  "no_context = \<lparr>facts_status = None, facts_request_id = None, facts_retry_after = None\<rparr>"

subsection \<open>From a failure to a sentence\<close>

type_synonym failure_messages = "(string \<times> (api_failure \<Rightarrow> string) option) list"

record message_options =
  mo_unmatched :: "string list option"
  mo_registry :: "failure_messages option"
  mo_messages :: "failure_messages option"
  mo_fallback :: "string option"

definition generic_message :: string where
  "generic_message = ''Something went wrong. Please try again.''"
definition server_side_message :: string where
  "server_side_message = ''Something went wrong on our side. Please try again later.''"
definition session_expired_message :: string where
  "session_expired_message = ''Your session has expired. Please sign in again.''"

definition too_many_requests :: "api_failure \<Rightarrow> string" where
  "too_many_requests f =
     (case f_retry_after f of
        Some n \<Rightarrow>
          if n \<le> 0 then ''Too many requests. Please wait a moment and try again.''
          else ''Too many requests. Please wait '' @ int_to_string n @ '' ''
            @ (if n = 1 then ''second'' else ''seconds'') @ '' and try again.''
      | None \<Rightarrow> ''Too many requests. Please wait a moment and try again.'')"

definition code_messages :: failure_messages where
  "code_messages =
     [(transport_network_error, Some (\<lambda>_. ''Unable to reach the server. Check your connection and try again.'')),
      (transport_timeout, Some (\<lambda>_. ''The server took too long to respond. Please try again.'')),
      (client_unrecognized_response, Some (\<lambda>_. server_side_message)),
      (bff_session_refresh_failed, Some (\<lambda>_. session_expired_message)),
      (rate_limit_exceeded, Some too_many_requests)]"

definition status_messages :: "(int \<times> (api_failure \<Rightarrow> string)) list" where
  "status_messages =
     [(401, \<lambda>_. session_expired_message),
      (403, \<lambda>_. ''You don'' @ [CHR 0x27] @ ''t have permission to do that.''),
      (404, \<lambda>_. ''That could not be found.''),
      (409, \<lambda>_. ''That change conflicts with a newer one. Refresh and try again.''),
      (429, too_many_requests)]"

definition lookup_message :: "failure_messages option \<Rightarrow> string \<Rightarrow> (api_failure \<Rightarrow> string) option" where
  "lookup_message table c =
     (case table of None \<Rightarrow> None
      | Some t \<Rightarrow> (case obj_get t c of Some entry \<Rightarrow> entry | None \<Rightarrow> None))"

definition is_client_problem :: "api_failure \<Rightarrow> bool" where
  "is_client_problem f \<longleftrightarrow> 400 \<le> f_status f \<and> f_status f < 500 \<and> \<not> is_client_error_code (f_code f)"

definition resolve_failure_message :: "thrown \<Rightarrow> message_options \<Rightarrow> string" where
  "resolve_failure_message err options =
     (let f = to_api_failure err no_context;
          first_unmatched =
            (if f_code f = validation_failed \<and> is_client_problem f
             then (case mo_unmatched options of
                     Some ms \<Rightarrow> find (\<lambda>m. js_trim m \<noteq> '''') ms | None \<Rightarrow> None)
             else None) in
      case lookup_message (mo_messages options) (f_code f) of
        Some m \<Rightarrow> m f
      | None \<Rightarrow>
      case lookup_message (mo_registry options) (f_code f) of
        Some m \<Rightarrow> m f
      | None \<Rightarrow>
      case first_unmatched of
        Some m \<Rightarrow> m
      | None \<Rightarrow>
      case lookup_message (Some code_messages) (f_code f) of
        Some m \<Rightarrow> m f
      | None \<Rightarrow>
      case (if is_client_problem f then f_detail f else None) of
        Some d \<Rightarrow> d
      | None \<Rightarrow>
      case (if f_status f \<ge> 500 then Some (\<lambda>_. server_side_message)
            else obj_get status_messages (f_status f)) of
        Some m \<Rightarrow> m f
      | None \<Rightarrow> (case mo_fallback options of Some t \<Rightarrow> t | None \<Rightarrow> generic_message))"

definition is_silent_failure :: "thrown \<Rightarrow> bool" where
  "is_silent_failure err \<longleftrightarrow> f_code (to_api_failure err no_context) = transport_aborted"

definition failure_reference :: "thrown \<Rightarrow> (string option \<times> string option) option" where
  "failure_reference err =
     (let f = to_api_failure err no_context;
          quotable = starts_with (f_code f) ''Transport.'' \<or> f_status f \<ge> 500 in
      if \<not> quotable \<or> (f_trace_id f = None \<and> f_request_id f = None) then None
      else Some (f_trace_id f, f_request_id f))"

subsection \<open>Validation errors over a form's fields\<close>

fun to_camel_case :: "string \<Rightarrow> string" where
  "to_camel_case [] = []"
| "to_camel_case (c # s) = lower_char c # s"

fun upper_first :: "string \<Rightarrow> string" where
  "upper_first [] = []"
| "upper_first (c # s) = upper_char c @ s"

definition to_folded_field_name :: "string \<Rightarrow> string" where
  "to_folded_field_name key =
     (let segments = split_char (CHR ''.'') key in
      to_camel_case (hd segments) @ concat (map upper_first (tl segments)))"

definition split_step ::
    "string list \<Rightarrow> (string \<times> string list) list \<times> string list \<Rightarrow> string \<times> string list
      \<Rightarrow> (string \<times> string list) list \<times> string list" where
  "split_step known acc entry =
     (let (field_errors, unmatched) = acc; (key, messages) = entry in
      case find (\<lambda>candidate. candidate \<in> set known) [key, to_camel_case key, to_folded_field_name key] of
        None \<Rightarrow> (field_errors, unmatched @ messages)
      | Some field \<Rightarrow> (assign_key field_errors field messages, unmatched))"

definition split_field_errors ::
    "api_failure \<Rightarrow> string list \<Rightarrow> (string \<times> string list) list \<times> string list" where
  "split_field_errors f known =
     fold (\<lambda>entry acc. split_step known acc entry)
       (case f_field_errors f of Some es \<Rightarrow> es | None \<Rightarrow> []) ([], [])"

subsection \<open>Lemmas\<close>

lemma from_body_status: "f_status (from_body b raw facts) = default_status (facts_status facts)
    (if \<exists>ms. b = Some (JObj ms) \<and> (j_string (JObj ms) ''code'' \<noteq> None \<or> j_string (JObj ms) ''error'' \<noteq> None)
     then read_body_status (the b) else None)"
  by (auto simp: from_body_def problem_failure_def oauth_failure_def unrecognized_def new_failure_def
      split: option.splits json.splits)

lemma to_api_failure_Failure [simp]: "to_api_failure (Failure f) c = f"
  by (simp add: to_api_failure_def)

lemma too_many_requests_cong: "f_retry_after f = f_retry_after g \<Longrightarrow> too_many_requests f = too_many_requests g"
  by (simp add: too_many_requests_def)

lemma status_message_public:
  "obj_get status_messages st = Some m \<Longrightarrow> f_retry_after f = f_retry_after g \<Longrightarrow> m f = m g"
  by (auto simp: status_messages_def too_many_requests_def split: if_splits)

lemma code_message_public:
  "lookup_message (Some code_messages) c = Some m \<Longrightarrow> f_retry_after f = f_retry_after g \<Longrightarrow> m f = m g"
  by (auto simp: lookup_message_def code_messages_def too_many_requests_def split: if_splits option.splits)

lemma is_timeout_loop_bound:
  "is_timeout_loop seen e \<Longrightarrow> length seen < max_cause_depth"
  by (cases e) (auto split: if_splits)

subsection \<open>Properties\<close>

text \<open>
  What a person is shown never comes from a server fault or from the transport. For a failure
  that is not a 4xx answered by the API, and with no message registered by the application, the
  resolved sentence is independent of the failure's detail and of its cause, so no gateway text
  and no stack trace reaches the screen.
\<close>

lemma failure_message_hides_detail:
  assumes "mo_messages options = None" "mo_registry options = None" "\<not> is_client_problem f"
  shows "resolve_failure_message (Failure (f\<lparr>f_detail := d, f_cause := c\<rparr>)) options
    = resolve_failure_message (Failure f) options"
proof -
  let ?g = "f\<lparr>f_detail := d, f_cause := c\<rparr>"
  have g: "\<not> is_client_problem ?g" using assms(3) by (simp add: is_client_problem_def)
  have m: "m ?g = m f" if "lookup_message (Some code_messages) (f_code f) = Some m" for m
    using code_message_public [OF that, of ?g f] by simp
  have s: "m ?g = m f" if "obj_get status_messages (f_status f) = Some m" for m
    using status_message_public [OF that, of ?g f] by simp
  have none: "lookup_message None k = None" for k by (simp add: lookup_message_def)
  show ?thesis
    using assms(3) g m s
    by (simp add: resolve_failure_message_def assms(1,2) none Let_def split: option.splits)
qed

lemma failure_message_hides_detail_witness:
  "resolve_failure_message (Failure ((new_failure 502 ''Fork.Thing'' ''x'')\<lparr>f_detail := Some ''stack trace'', f_cause := None\<rparr>))
     \<lparr>mo_unmatched = None, mo_registry = None, mo_messages = None, mo_fallback = None\<rparr>
   = server_side_message"
proof -
  let ?o = "\<lparr>mo_unmatched = None, mo_registry = None, mo_messages = None, mo_fallback = None\<rparr>"
  have "\<not> is_client_problem (new_failure 502 ''Fork.Thing'' ''x'')"
    by (simp add: is_client_problem_def new_failure_def)
  with failure_message_hides_detail [of ?o "new_failure 502 ''Fork.Thing'' ''x''" None "Some ''stack trace''"]
  have "resolve_failure_message (Failure ((new_failure 502 ''Fork.Thing'' ''x'')\<lparr>f_detail := Some ''stack trace'', f_cause := None\<rparr>)) ?o
    = resolve_failure_message (Failure (new_failure 502 ''Fork.Thing'' ''x'')) ?o" by simp
  also have "\<dots> = server_side_message" by code_simp
  finally show ?thesis .
qed

text \<open>
  The status HTTP answered with is authoritative: whatever a relayed body says about its own
  status, the failure built from a response carries the response's status and its request id.
\<close>

lemma response_status_authoritative:
  "f_status (failure_from_response date_parse now st hs body) = st
   \<and> f_request_id (failure_from_response date_parse now st hs body) = h_get hs ''x-request-id''"
  by (simp add: failure_from_response_def from_body_def problem_failure_def oauth_failure_def
      unrecognized_def default_status_def new_failure_def split: option.splits json.splits)

end
