(* ===== verification/Problems.thy ===== *)
theory Problems
  imports ApiErrors Forwarding
begin

section \<open>Problem responses and redaction (\<open>sdk/src/server/problem.ts\<close>, \<open>errors.ts\<close>)\<close>

text \<open>
  The answers the server hop writes itself, with their fixed copy per code, the failure that ends
  a session, and the scrubber applied to whatever is logged.
\<close>

subsection \<open>The copy per code\<close>

definition problem_media_type :: string where "problem_media_type = ''application/problem+json''"
definition blank_type :: string where "blank_type = ''about:blank''"

record problem_copy =
  copy_title :: string
  copy_detail :: string

definition session_expired_detail :: string where
  "session_expired_detail = ''Your session has expired. Please sign in again.''"

definition problem_copies :: "(string \<times> problem_copy) list" where
  "problem_copies =
     [(validation_failed, \<lparr>copy_title = ''Validation failed'',
        copy_detail = ''The request is invalid. Check the request and try again.''\<rparr>),
      (http_method_not_allowed, \<lparr>copy_title = ''Method not allowed'',
        copy_detail = ''This HTTP method is not allowed for this endpoint.''\<rparr>),
      (http_not_found, \<lparr>copy_title = ''Not found'', copy_detail = ''That could not be found.''\<rparr>),
      (bff_session_missing, \<lparr>copy_title = ''Not signed in'',
        copy_detail = ''You are not signed in. Please sign in to continue.''\<rparr>),
      (bff_session_refresh_failed, \<lparr>copy_title = ''The session could not be refreshed'',
        copy_detail = session_expired_detail\<rparr>),
      (bff_csrf_invalid, \<lparr>copy_title = ''CSRF token mismatch or missing'',
        copy_detail = ''The request did not carry a valid CSRF token. Reload the page and try again.''\<rparr>),
      (auth_unauthenticated, \<lparr>copy_title = ''Unauthenticated'', copy_detail = session_expired_detail\<rparr>),
      (transport_network_error, \<lparr>copy_title = ''The upstream request failed'',
        copy_detail = ''The server could not be reached. Please try again later.''\<rparr>),
      (transport_timeout, \<lparr>copy_title = ''The upstream request timed out'',
        copy_detail = ''The server took too long to respond. Please try again.''\<rparr>)]"

definition problem_title :: "string \<Rightarrow> string" where
  "problem_title c = (case obj_get problem_copies c of Some p \<Rightarrow> copy_title p | None \<Rightarrow> c)"

record problem_options =
  po_request_id :: string
  po_detail :: "string option"
  po_headers :: headers

definition problem_body :: "nat \<Rightarrow> string \<Rightarrow> string option \<Rightarrow> string \<Rightarrow> json" where
  "problem_body st c detail request_id =
     JObj ([(''type'', JStr blank_type), (''title'', JStr (problem_title c)), (''status'', JNum (int st)),
            (''code'', JStr c)]
       @ opt_member ''detail'' (map_option JStr detail)
       @ [(''requestId'', JStr request_id)])"

definition problem_response :: "nat \<Rightarrow> string \<Rightarrow> problem_options \<Rightarrow> response" where
  "problem_response st c options =
     (let detail = (case po_detail options of
              Some d \<Rightarrow> Some d
            | None \<Rightarrow> map_option copy_detail (obj_get problem_copies c));
          hs = h_copy (po_headers options);
          hs1 = h_set hs ''content-type'' problem_media_type;
          hs2 = h_set hs1 request_id_header (po_request_id options) in
      \<lparr>status = st, resp_headers = hs2,
       resp_body = Some (json_print (problem_body st c detail (po_request_id options))),
       status_text = ''''\<rparr>)"

text \<open>\<open>new RefreshFailedError(detail)\<close>\<close>

definition refresh_failed_error :: "string option \<Rightarrow> thrown" where
  "refresh_failed_error detail =
     RefreshFailed ((new_failure 401 bff_session_refresh_failed (problem_title bff_session_refresh_failed))
       \<lparr>f_detail := detail, f_name := ''RefreshFailedError''\<rparr>)"

subsection \<open>Redaction\<close>

definition redacted :: string where "redacted = ''[redacted]''"
definition sensitive_members :: "string list" where
  "sensitive_members = [''authorization'', ''cookie'', ''set-cookie'', ''password'']"
definition sensitive_member_fragments :: "string list" where
  "sensitive_member_fragments = [''token'', ''secret'']"

definition is_sensitive_member :: "string \<Rightarrow> bool" where
  "is_sensitive_member member \<longleftrightarrow>
     (let normalized = to_lower member in
      normalized \<in> set sensitive_members
      \<or> list_ex (\<lambda>fragment. js_includes normalized fragment) sensitive_member_fragments)"

text \<open>\<open>/^bearer\s+\S/i\<close>\<close>

definition bearer_shaped :: "string \<Rightarrow> bool" where
  "bearer_shaped s \<longleftrightarrow>
     starts_with (to_lower s) ''bearer''
     \<and> (let r = drop 6 s in r \<noteq> [] \<and> is_ws (hd r) \<and> dropWhile is_ws r \<noteq> [])"

definition jwt_char :: "char \<Rightarrow> bool" where
  "jwt_char c \<longleftrightarrow> 65 \<le> code c \<and> code c \<le> 90 \<or> 97 \<le> code c \<and> code c \<le> 122 \<or> is_digit c
     \<or> c = CHR ''_'' \<or> c = CHR ''-''"

definition jwt_shaped :: "string \<Rightarrow> bool" where
  "jwt_shaped s \<longleftrightarrow>
     (let parts = split_char (CHR ''.'') s in
      length parts = 3 \<and> list_all (\<lambda>p. 8 \<le> length p \<and> list_all jwt_char p) parts)"

definition is_token_shaped :: "string \<Rightarrow> bool" where
  "is_token_shaped s \<longleftrightarrow> bearer_shaped s \<or> jwt_shaped s"

fun redact :: "json \<Rightarrow> json" where
  "redact (JArr xs) = JArr (map redact xs)"
| "redact (JObj ms) =
     JObj (map (\<lambda>(member, v). (member, if is_sensitive_member member then JStr redacted else redact v))
       (filter (\<lambda>kv. fst kv \<noteq> proto_key) ms))"
| "redact (JStr s) = (if is_token_shaped s then JStr redacted else JStr s)"
| "redact j = j"

text \<open>\<open>causeDetail\<close> of the proxy: an error's message, scrubbed.\<close>

fun thrown_message :: "thrown \<Rightarrow> string option" where
  "thrown_message (Err e) = Some (err_message e)"
| "thrown_message (Value j) = None"
| "thrown_message t = map_option failure_message (thrown_failure t)"

definition cause_detail :: "thrown \<Rightarrow> string option" where
  "cause_detail e =
     (case thrown_message e of None \<Rightarrow> None | Some m \<Rightarrow> as_string (redact (JStr m)))"

subsection \<open>Lemmas\<close>

text \<open>No credential is left, nor a member the copy loses: what \<open>redact\<close> promises of a value.\<close>

fun credential_free :: "json \<Rightarrow> bool" where
  "credential_free (JArr xs) \<longleftrightarrow> (\<forall>x\<in>set xs. credential_free x)"
| "credential_free (JObj ms) \<longleftrightarrow>
     (\<forall>(member, v)\<in>set ms. member \<noteq> proto_key \<and> (is_sensitive_member member \<longrightarrow> v = JStr redacted) \<and> credential_free v)"
| "credential_free (JStr s) \<longleftrightarrow> \<not> is_token_shaped s"
| "credential_free _ \<longleftrightarrow> True"

lemma redacted_not_token: "\<not> is_token_shaped redacted"
  by code_simp

lemma credential_free_redact: "credential_free (redact j)"
  by (induction j rule: redact.induct) (auto simp: redacted_not_token)

lemma redact_idem: "redact (redact j) = redact j"
  by (induction j rule: redact.induct) (auto simp: redacted_not_token)

lemma redact_id: "credential_free j \<Longrightarrow> redact j = j"
proof (induction j rule: redact.induct)
  case (1 xs)
  then show ?case by (simp add: map_idI)
next
  case (2 ms)
  then have "(\<lambda>(member, v). (member, if is_sensitive_member member then JStr redacted else redact v)) kv = kv"
    if "kv \<in> set ms" for kv using that by (cases kv) force
  moreover have "filter (\<lambda>kv. fst kv \<noteq> proto_key) ms = ms" using 2(2) by (auto simp: filter_id_conv)
  ultimately show ?case by (simp add: map_idI)
qed auto

lemma problem_response_simps [simp]:
  "status (problem_response st c opts) = st"
  "h_get (resp_headers (problem_response st c opts)) request_id_header = Some (header_value (po_request_id opts))"
  by (simp_all add: problem_response_def Let_def h_get_set)

lemma problem_response_content_type:
  "h_get (resp_headers (problem_response st c opts)) ''content-type'' = Some problem_media_type"
proof -
  have "header_value problem_media_type = problem_media_type" by code_simp
  moreover have "to_lower request_id_header \<noteq> to_lower ''content-type''" by code_simp
  ultimately show ?thesis by (simp add: problem_response_def Let_def h_get_set)
qed

subsection \<open>Properties\<close>

text \<open>
  Nothing credential-shaped survives redaction at any depth: after it, every member whose
  name marks a credential holds the placeholder and no string is a bearer header or a JWT. The values
  logged unchanged are exactly those that had nothing to hide and no member named \<open>__proto__\<close>, so redacting twice is redacting once.
\<close>

lemma redact_removes_credentials:
  "credential_free (redact j) \<and> redact (redact j) = redact j \<and> (redact j = j \<longleftrightarrow> credential_free j)"
  using credential_free_redact [of j] redact_idem redact_id by metis

end
