(* ===== verification/JsNumber.thy ===== *)
theory JsNumber
  imports Prelude
begin

section \<open>\<open>Number(text)\<close>\<close>

text \<open>
  The conversion the configuration readers and the retry logic apply to text. The result is
  exact: \<open>Fin m k\<close> is \<open>m / 10^k\<close>. Literals that a double represents only after rounding keep
  their exact value here; literals beyond the largest double are \<open>Inf\<close>, as in the language.
\<close>

datatype js_number = NaN | Inf bool | Fin int nat

text \<open>The least integer that rounds to \<open>Infinity\<close>.\<close>

definition overflow_bound :: int where "overflow_bound = 2 ^ 1024 - 2 ^ 970"

definition make_fin :: "int \<Rightarrow> nat \<Rightarrow> js_number" where
  "make_fin m k =
     (if \<bar>m\<bar> \<ge> overflow_bound * 10 ^ k then Inf (m > 0) else Fin m k)"

definition radix_digit :: "nat \<Rightarrow> char \<Rightarrow> nat option" where
  "radix_digit b c =
     (let v = (if is_digit c then Some (code c - 48)
               else if 97 \<le> code c \<and> code c \<le> 122 then Some (code c - 87)
               else if 65 \<le> code c \<and> code c \<le> 90 then Some (code c - 55) else None) in
      case v of Some d \<Rightarrow> if d < b then Some d else None | None \<Rightarrow> None)"

fun radix_value :: "nat \<Rightarrow> nat \<Rightarrow> string \<Rightarrow> nat option" where
  "radix_value b acc [] = Some acc"
| "radix_value b acc (c # s) =
     (case radix_digit b c of Some d \<Rightarrow> radix_value b (acc * b + d) s | None \<Rightarrow> None)"

definition radix_literal :: "nat \<Rightarrow> string \<Rightarrow> js_number" where
  "radix_literal b s =
     (if s = '''' then NaN
      else case radix_value b 0 s of Some n \<Rightarrow> make_fin (int n) 0 | None \<Rightarrow> NaN)"

text \<open>\<open>digits [. digits] [e digits]\<close>, with a digit on at least one side of the point.\<close>

definition unsigned_decimal :: "bool \<Rightarrow> string \<Rightarrow> js_number" where
  "unsigned_decimal neg s =
     (let ds = takeWhile is_digit s;
          r = dropWhile is_digit s;
          has_point = (r \<noteq> [] \<and> hd r = CHR ''.'');
          fs = (if has_point then takeWhile is_digit (tl r) else []);
          r' = (if has_point then dropWhile is_digit (tl r) else r);
          m = int (digits_val (ds @ fs)) * (if neg then - 1 else 1) in
      if ds = [] \<and> fs = [] then NaN
      else if r' = [] then make_fin m (length fs)
      else if hd r' \<in> {CHR ''e'', CHR ''E''} then
        (let signed = tl r';
             eneg = (signed \<noteq> [] \<and> hd signed = CHR ''-'');
             es = (if signed \<noteq> [] \<and> hd signed \<in> {CHR ''-'', CHR ''+''} then tl signed else signed) in
         if es = [] \<or> \<not> list_all is_digit es then NaN
         else if m = 0 then Fin 0 0
         else
           (let e = digits_val es in
            if eneg then Fin m (length fs + e)
            else if e \<ge> length fs then
              (if e - length fs > 400 then Inf (m > 0) else make_fin (m * 10 ^ (e - length fs)) 0)
            else make_fin m (length fs - e)))
      else NaN)"

definition js_to_number :: "string \<Rightarrow> js_number" where
  "js_to_number text =
     (let s = js_trim text in
      if s = '''' then Fin 0 0
      else if starts_with s ''0x'' \<or> starts_with s ''0X'' then radix_literal 16 (drop 2 s)
      else if starts_with s ''0o'' \<or> starts_with s ''0O'' then radix_literal 8 (drop 2 s)
      else if starts_with s ''0b'' \<or> starts_with s ''0B'' then radix_literal 2 (drop 2 s)
      else
        (let neg = (hd s = CHR ''-'');
             body = (if hd s \<in> {CHR ''-'', CHR ''+''} then tl s else s) in
         if body = ''Infinity'' then Inf (\<not> neg) else unsigned_decimal neg body))"

text \<open>\<open>Number.isInteger\<close>, with the value; and \<open>Number.isFinite\<close>.\<close>

fun number_integer :: "js_number \<Rightarrow> int option" where
  "number_integer (Fin m k) = (if m mod 10 ^ k = 0 then Some (m div 10 ^ k) else None)"
| "number_integer _ = None"

fun is_finite :: "js_number \<Rightarrow> bool" where
  "is_finite (Fin m k) = True"
| "is_finite _ = False"

lemma takeWhile_all: "\<forall>c\<in>set s. P c \<Longrightarrow> takeWhile P s = s"
  and dropWhile_all: "\<forall>c\<in>set s. P c \<Longrightarrow> dropWhile P s = []"
  by simp_all

text \<open>A plain decimal numeral reads as the number it writes.\<close>

lemma js_to_number_nat:
  assumes "int n < overflow_bound"
  shows "js_to_number (nat_to_string n) = Fin (int n) 0"
proof -
  let ?s = "nat_to_string n"
  have digits: "\<forall>c\<in>set ?s. is_digit c" using nat_to_string_digits by blast
  have ws: "js_trim ?s = ?s" using digits by (intro js_trim_no_ws) (auto simp: is_ws_def is_digit_def)
  have hd: "is_digit (hd ?s)" using digits by simp
  have second: "\<not> starts_with ?s [a, b]" if "\<not> is_digit b" for a b
    using digits that by (auto simp: starts_with_iff)
  have "?s \<noteq> ''Infinity''" using digits by (auto simp: is_digit_def)
  moreover have "hd ?s \<noteq> CHR ''-''" "hd ?s \<noteq> CHR ''+''" using hd by (auto simp: is_digit_def)
  moreover have "unsigned_decimal False ?s = Fin (int n) 0"
    using assms unfolding unsigned_decimal_def Let_def takeWhile_all [OF digits] dropWhile_all [OF digits]
    by (simp add: make_fin_def)
  ultimately show ?thesis
    using second by (simp add: js_to_number_def ws is_digit_def Let_def)
qed

end
