(* ===== verification/Config.thy ===== *)
theory Config
  imports Json JsNumber
begin

section \<open>BFF configuration (\<open>sdk/src/server/config.ts\<close>, \<open>cookie-secret.ts\<close>)\<close>

text \<open>
  The environment contract, read once at start-up: every problem is collected and reported in one
  error, so a configuration either satisfies the whole contract or does not load. Also the two
  password shapes the session seal takes.
\<close>

subsection \<open>Cookie secrets\<close>

record cookie_password_set =
  active_key_id :: string
  keys :: "(string \<times> string) list"

datatype cookie_secret = PlainSecret string | KeyedSecret cookie_password_set

datatype same_site = Lax | Strict

definition default_cookie_key_id :: string where "default_cookie_key_id = ''default''"
definition default_session_ttl_seconds :: int where "default_session_ttl_seconds = 86400"
definition min_session_ttl_seconds :: int where "min_session_ttl_seconds = 1"
definition min_cookie_password_length :: nat where "min_cookie_password_length = 32"

record bff_config =
  issuer :: string
  client_id :: string
  client_secret :: string
  redirect_uri :: string
  post_logout_redirect_uri :: string
  scopes :: "string list"
  api_base_url :: string
  cookie_name :: string
  app_id :: "string option"
  cookie_password :: string
  cookie_passwords :: "cookie_password_set option"
  metadata_url :: "string option"
  session_ttl_seconds :: int
  cookie_secure :: bool
  cookie_same_site :: "same_site option"

text \<open>\<open>config.cookiePasswords ?? config.cookiePassword\<close>\<close>

definition config_secret :: "bff_config \<Rightarrow> cookie_secret" where
  "config_secret cfg =
     (case cookie_passwords cfg of Some ks \<Rightarrow> KeyedSecret ks | None \<Rightarrow> PlainSecret (cookie_password cfg))"

text \<open>
  What the seal takes (a secret, with the identifier it embeds) and what the unseal takes
  (one secret, or the whole map). \<open>Inl\<close> is the thrown error's message.
\<close>

datatype seal_password = SealPlain string | SealKeyed string string
datatype unseal_password = UnsealPlain string | UnsealKeyed "(string \<times> string) list"

definition seal_password_of :: "cookie_secret \<Rightarrow> string + seal_password" where
  "seal_password_of secret =
     (case secret of
        PlainSecret p \<Rightarrow> Inr (SealPlain p)
      | KeyedSecret ks \<Rightarrow>
          (case obj_get (keys ks) (active_key_id ks) of
             None \<Rightarrow> Inl (''Cookie password set has no secret for its active key ID '' @ [CHR 0x22]
                        @ active_key_id ks @ [CHR 0x22])
           | Some active \<Rightarrow> Inr (SealKeyed (active_key_id ks) active)))"

definition unseal_password_of :: "cookie_secret \<Rightarrow> unseal_password" where
  "unseal_password_of secret =
     (case secret of PlainSecret p \<Rightarrow> UnsealPlain p | KeyedSecret ks \<Rightarrow> UnsealKeyed (keys ks))"

subsection \<open>\<open>COOKIE_PASSWORDS\<close>\<close>

definition word_char :: "char \<Rightarrow> bool" where
  "word_char c \<longleftrightarrow> 65 \<le> code c \<and> code c \<le> 90 \<or> 97 \<le> code c \<and> code c \<le> 122 \<or> is_digit c \<or> c = CHR ''_''"

definition quoted :: "string \<Rightarrow> string" where "quoted s = [CHR 0x22] @ s @ [CHR 0x22]"

definition cookie_passwords_problem :: string where
  "cookie_passwords_problem = ''Invalid environment variable COOKIE_PASSWORDS''"

definition cookie_key_id_problem :: "string \<Rightarrow> string option" where
  "cookie_key_id_problem key_id =
     (if \<not> (key_id \<noteq> '''' \<and> list_all word_char key_id) then
        Some (cookie_passwords_problem @ '': key ID '' @ quoted key_id
          @ '' must be letters, digits or underscores, which is all iron-webcrypto will seal with'')
      else if list_all is_digit key_id then
        Some (cookie_passwords_problem @ '': key ID '' @ quoted key_id
          @ '' must not be all digits, because such keys are reordered ahead of the others and would change which key is active'')
      else None)"

fun js_typeof :: "json \<Rightarrow> string" where
  "js_typeof (JStr _) = ''string''"
| "js_typeof (JNum _) = ''number''"
| "js_typeof (JDec _ _) = ''number''"
| "js_typeof (JBool _) = ''boolean''"
| "js_typeof _ = ''object''"

definition bad_secret_problem :: "string \<Rightarrow> json \<Rightarrow> string" where
  "bad_secret_problem key_id secret =
     cookie_passwords_problem @ '': expected key '' @ quoted key_id @ '' to be a secret of at least ''
       @ nat_to_string min_cookie_password_length @ '' characters, got ''
       @ (case secret of JStr s \<Rightarrow> nat_to_string (length s) | _ \<Rightarrow> js_typeof secret)"

text \<open>The loop over the entries: the keys kept so far and the problems found.\<close>

fun collect_keys ::
    "(string \<times> json) list \<Rightarrow> (string \<times> string) list \<Rightarrow> string list \<Rightarrow> (string \<times> string) list \<times> string list" where
  "collect_keys [] ks problems = (ks, problems)"
| "collect_keys ((key_id, secret) # entries) ks problems =
     (case cookie_key_id_problem key_id of
        Some p \<Rightarrow> collect_keys entries ks (problems @ [p])
      | None \<Rightarrow>
          (case secret of
             JStr s \<Rightarrow>
               if length s < min_cookie_password_length
               then collect_keys entries ks (problems @ [bad_secret_problem key_id secret])
               else collect_keys entries (assign_key ks key_id s) problems
           | _ \<Rightarrow> collect_keys entries ks (problems @ [bad_secret_problem key_id secret])))"

definition parse_cookie_passwords :: "string \<Rightarrow> string list \<Rightarrow> cookie_password_set option \<times> string list" where
  "parse_cookie_passwords raw problems =
     (case json_parse raw of
        Some (JObj entries) \<Rightarrow>
          if length entries = 0 then
            (None, problems @ [cookie_passwords_problem @ '': expected at least one key ID, got an empty object''])
          else
            (let (ks, problems') = collect_keys entries [] problems in
             case ks of
               [] \<Rightarrow> (None, problems')
             | (active, _) # _ \<Rightarrow> (Some \<lparr>active_key_id = active, keys = ks\<rparr>, problems'))
      | _ \<Rightarrow> (None, problems @ [cookie_passwords_problem @ '': expected a JSON object of key ID to secret'']))"

subsection \<open>The session cookie's name\<close>

definition default_cookie_name_base :: string where "default_cookie_name_base = ''wallow_bff''"
definition host_cookie_prefix :: string where "host_cookie_prefix = ''__Host-''"

definition app_id_char :: "char \<Rightarrow> bool" where
  "app_id_char c \<longleftrightarrow> word_char c \<or> c = CHR ''-''"

definition default_cookie_name :: "string \<Rightarrow> bool \<Rightarrow> string option \<Rightarrow> string" where
  "default_cookie_name host_prefix_raw secure aid =
     (let host_prefix = (host_prefix_raw \<noteq> ''false'' \<and> secure);
          name = (case aid of None \<Rightarrow> default_cookie_name_base
                  | Some a \<Rightarrow> default_cookie_name_base @ ''_'' @ a) in
      if host_prefix then host_cookie_prefix @ name else name)"

subsection \<open>The environment\<close>

definition require_env :: "env \<Rightarrow> string \<Rightarrow> string list \<Rightarrow> string \<times> string list" where
  "require_env env key problems =
     (case env key of
        Some v \<Rightarrow> if v = '''' then ('''', problems @ [''Missing required environment variable: '' @ key])
                  else (v, problems)
      | None \<Rightarrow> ('''', problems @ [''Missing required environment variable: '' @ key]))"

definition env_trimmed :: "env \<Rightarrow> string \<Rightarrow> string" where
  "env_trimmed env key = js_trim (case env key of Some v \<Rightarrow> v | None \<Rightarrow> '''')"

definition default_scopes :: "string list" where
  "default_scopes = [''openid'', ''profile'', ''email'', ''offline_access'']"

definition parse_scopes :: "env \<Rightarrow> string list" where
  "parse_scopes env =
     (case env ''OIDC_SCOPES'' of
        Some raw \<Rightarrow> if js_trim raw \<noteq> '''' then split_runs is_ws (js_trim raw) else default_scopes
      | None \<Rightarrow> default_scopes)"

text \<open>The cookie secrets: the key map, the active secret, and the problems.\<close>

definition load_cookie_secrets ::
    "env \<Rightarrow> string list \<Rightarrow> cookie_password_set option \<times> string \<times> string list" where
  "load_cookie_secrets env problems =
     (let passwords_raw = env_trimmed env ''COOKIE_PASSWORDS'' in
      if passwords_raw = '''' then
        (let (password, problems1) = require_env env ''COOKIE_PASSWORD'' problems in
         (None, password,
          if password \<noteq> '''' \<and> length password < min_cookie_password_length
          then problems1 @ [''Invalid environment variable COOKIE_PASSWORD: expected at least ''
             @ nat_to_string min_cookie_password_length @ '' characters, got '' @ nat_to_string (length password)]
          else problems1))
      else
        (let (parsed, problems1) = parse_cookie_passwords passwords_raw problems in
         (parsed,
          (case parsed of
             Some ks \<Rightarrow> (case obj_get (keys ks) (active_key_id ks) of Some p \<Rightarrow> p | None \<Rightarrow> '''')
           | None \<Rightarrow> ''''),
          problems1)))"

definition load_session_ttl :: "env \<Rightarrow> string list \<Rightarrow> int \<times> string list" where
  "load_session_ttl env problems =
     (let ttl_raw = env_trimmed env ''SESSION_TTL_SECONDS'' in
      if ttl_raw = '''' then (default_session_ttl_seconds, problems)
      else
        (case number_integer (js_to_number ttl_raw) of
           Some n \<Rightarrow>
             if n < min_session_ttl_seconds
             then (default_session_ttl_seconds, problems @ [''Invalid environment variable SESSION_TTL_SECONDS: expected a positive whole number of seconds, got '' @ quoted ttl_raw])
             else (n, problems)
         | None \<Rightarrow> (default_session_ttl_seconds, problems @ [''Invalid environment variable SESSION_TTL_SECONDS: expected a positive whole number of seconds, got '' @ quoted ttl_raw])))"

definition load_app_id :: "env \<Rightarrow> string list \<Rightarrow> string option \<times> string list" where
  "load_app_id env problems =
     (let raw = env_trimmed env ''BFF_APP_ID'' in
      if raw = '''' then (None, problems)
      else if list_all app_id_char raw then (Some raw, problems)
      else (None, problems @ [''Invalid environment variable BFF_APP_ID: expected letters, digits, underscores or hyphens (it names a cookie and a Valkey key segment), got '' @ quoted raw]))"

definition load_same_site :: "env \<Rightarrow> string list \<Rightarrow> same_site \<times> string list" where
  "load_same_site env problems =
     (let raw = to_lower (env_trimmed env ''COOKIE_SAMESITE'') in
      (if raw = ''strict'' then Strict else Lax,
       if raw \<noteq> '''' \<and> raw \<noteq> ''lax'' \<and> raw \<noteq> ''strict''
       then problems @ [''Invalid environment variable COOKIE_SAMESITE: expected '' @ quoted ''lax'' @ '' or '' @ quoted ''strict'' @ '', got '' @ quoted (env_trimmed env ''COOKIE_SAMESITE'')]
       else problems))"

text \<open>\<open>Inl\<close> is the message of the thrown error.\<close>

definition load_bff_config_from_env :: "env \<Rightarrow> string + bff_config" where
  "load_bff_config_from_env env =
     (let (iss, p1) = require_env env ''OIDC_ISSUER'' [];
          (cid, p2) = require_env env ''OIDC_CLIENT_ID'' p1;
          (csec, p3) = require_env env ''OIDC_CLIENT_SECRET'' p2;
          (ruri, p4) = require_env env ''OIDC_REDIRECT_URI'' p3;
          (plru, p5) = require_env env ''OIDC_POST_LOGOUT_REDIRECT_URI'' p4;
          (api, p6) = require_env env ''BFF_API_BASE_URL'' p5;
          (parsed, password, p7) = load_cookie_secrets env p6;
          (ttl, p8) = load_session_ttl env p7;
          (aid, p9) = load_app_id env p8;
          (samesite, problems) = load_same_site env p9;
          newline_item = [CHR 0x0A] @ ''  - '' in
      if problems \<noteq> [] then
        Inl (''Invalid BFF environment configuration:'' @ newline_item @ js_join newline_item problems)
      else
        (let secure = (to_lower (env_trimmed env ''COOKIE_SECURE'') \<noteq> ''false'');
             host_prefix_raw = to_lower (env_trimmed env ''COOKIE_HOST_PREFIX'');
             cookie_name_raw = env_trimmed env ''COOKIE_NAME'' in
         Inr \<lparr>issuer = iss, client_id = cid, client_secret = csec, redirect_uri = ruri,
              post_logout_redirect_uri = plru, scopes = parse_scopes env, api_base_url = api,
              cookie_name = (if cookie_name_raw \<noteq> '''' then cookie_name_raw
                             else default_cookie_name host_prefix_raw secure aid),
              app_id = aid, cookie_password = password,
              cookie_passwords = Some (case parsed of
                  Some ks \<Rightarrow> ks
                | None \<Rightarrow> \<lparr>active_key_id = default_cookie_key_id, keys = [(default_cookie_key_id, password)]\<rparr>),
              metadata_url = (case env ''OIDC_METADATA_URL'' of
                  Some u \<Rightarrow> if u \<noteq> '''' then Some u else None | None \<Rightarrow> None),
              session_ttl_seconds = ttl, cookie_secure = secure, cookie_same_site = Some samesite\<rparr>))"

subsection \<open>Lemmas\<close>

text \<open>Problems are only ever added.\<close>

lemma require_env_grows: "require_env env k ps = (v, ps') \<Longrightarrow> \<exists>qs. ps' = ps @ qs"
  by (auto simp: require_env_def split: option.splits if_splits)

lemma require_env_ok: "require_env env k ps = (v, []) \<Longrightarrow> ps = [] \<and> env k = Some v \<and> v \<noteq> ''''"
  by (auto simp: require_env_def split: option.splits if_splits)

lemma collect_keys_grows: "collect_keys es ks ps = (ks', ps') \<Longrightarrow> \<exists>qs. ps' = ps @ qs"
  by (induction es ks ps rule: collect_keys.induct) (fastforce split: option.splits json.splits if_splits)+

definition good_keys :: "(string \<times> string) list \<Rightarrow> bool" where
  "good_keys ks \<longleftrightarrow> obj_wf ks \<and> (\<forall>(k, s)\<in>set ks. cookie_key_id_problem k = None \<and> min_cookie_password_length \<le> length s)"

lemma set_obj_set: "(k', v') \<in> set (obj_set ob k v) \<Longrightarrow> (k', v') = (k, v) \<or> (k', v') \<in> set ob"
  by (induction ob k v rule: obj_set.induct) (auto split: if_splits)

lemma good_keys_set:
  "good_keys ks \<Longrightarrow> cookie_key_id_problem k = None \<Longrightarrow> min_cookie_password_length \<le> length s
   \<Longrightarrow> good_keys (obj_set ks k s)"
  using set_obj_set [of _ _ ks k s] by (fastforce simp: good_keys_def)

lemma good_keys_assign:
  "good_keys ks \<Longrightarrow> cookie_key_id_problem k = None \<Longrightarrow> min_cookie_password_length \<le> length s
   \<Longrightarrow> good_keys (assign_key ks k s)"
  by (simp add: assign_key_def good_keys_set)

lemma collect_keys_good: "collect_keys es ks ps = (ks', ps') \<Longrightarrow> good_keys ks \<Longrightarrow> good_keys ks'"
  by (induction es ks ps rule: collect_keys.induct)
    (auto simp: good_keys_assign split: option.splits json.splits if_splits)

lemma parse_cookie_passwords_ok:
  assumes "parse_cookie_passwords raw ps = (parsed, [])"
  shows "ps = [] \<and> (\<forall>set. parsed = Some set \<longrightarrow> good_keys (keys set) \<and> obj_get (keys set) (active_key_id set) \<noteq> None)"
proof -
  have "ps = []" using assms collect_keys_grows
    by (fastforce simp: parse_cookie_passwords_def Let_def split: option.splits json.splits if_splits prod.splits list.splits)
  moreover have "good_keys (keys set) \<and> obj_get (keys set) (active_key_id set) \<noteq> None" if "parsed = Some set" for set
    using assms that collect_keys_good [of _ "[]"]
    by (fastforce simp: parse_cookie_passwords_def Let_def good_keys_def
        split: option.splits json.splits if_splits prod.splits list.splits)
  ultimately show ?thesis by blast
qed

lemma obj_set_not_Nil [simp]: "obj_set ob k v \<noteq> []"
  by (induction ob k v rule: obj_set.induct) auto

text \<open>The one way to name keys and to keep none: every entry is called \<open>__proto__\<close>.\<close>

definition only_proto :: "(string \<times> json) list \<Rightarrow> bool" where
  "only_proto entries \<longleftrightarrow> entries \<noteq> [] \<and> list_all (\<lambda>(key, v). key = proto_key) entries"

definition names_only_proto :: "env \<Rightarrow> bool" where
  "names_only_proto env \<longleftrightarrow>
     (case json_parse (env_trimmed env ''COOKIE_PASSWORDS'') of Some (JObj entries) \<Rightarrow> only_proto entries | _ \<Rightarrow> False)"

lemma collect_keys_empty:
  "collect_keys es ks ps = (ks', ps) \<Longrightarrow> ks' = [] \<longleftrightarrow> ks = [] \<and> list_all (\<lambda>(key, v). key = proto_key) es"
proof (induction es ks ps rule: collect_keys.induct)
  case (2 key_id secret es ks ps)
  have no: "collect_keys es ks (ps @ [p]) \<noteq> (ks', ps)" for ks p
    using collect_keys_grows [of es ks "ps @ [p]" ks' ps] by auto
  from 2 no show ?case by (auto simp: assign_key_def split: option.splits json.splits if_splits)
qed simp

lemma parse_cookie_passwords_None:
  assumes "parse_cookie_passwords raw ps = (parsed, [])"
  shows "parsed = None \<longleftrightarrow> (case json_parse raw of Some (JObj entries) \<Rightarrow> only_proto entries | _ \<Rightarrow> False)"
  using assms parse_cookie_passwords_ok [OF assms] collect_keys_empty [of _ "[]" "[]"]
  by (fastforce simp: parse_cookie_passwords_def only_proto_def Let_def
      split: option.splits json.splits if_splits prod.splits list.splits)

lemma json_parse_empty [simp]: "json_parse [] = None"
  by code_simp

lemma load_cookie_secrets_ok:
  assumes "load_cookie_secrets env ps = (parsed, password, [])"
  shows "ps = []
    \<and> (if names_only_proto env then parsed = None \<and> password = ''''
       else min_cookie_password_length \<le> length password
         \<and> (parsed = None \<or> (\<exists>set. parsed = Some set \<and> good_keys (keys set) \<and> obj_get (keys set) (active_key_id set) = Some password)))"
proof (cases "env_trimmed env ''COOKIE_PASSWORDS'' = ''''")
  case True
  then show ?thesis using assms require_env_ok [of env "''COOKIE_PASSWORD''" ps]
    by (auto simp: load_cookie_secrets_def names_only_proto_def split: prod.splits if_splits)
next
  case False
  let ?raw = "env_trimmed env ''COOKIE_PASSWORDS''"
  have p: "parse_cookie_passwords ?raw ps = (parsed, [])"
    using assms False by (auto simp: load_cookie_secrets_def split: prod.splits)
  have none: "parsed = None \<longleftrightarrow> names_only_proto env"
    using parse_cookie_passwords_None [OF p] by (simp add: names_only_proto_def)
  show ?thesis
  proof (cases parsed)
    case None
    with none p parse_cookie_passwords_ok [OF p] show ?thesis using assms False by (auto simp: load_cookie_secrets_def)
  next
    case (Some ks)
    with parse_cookie_passwords_ok [OF p] have good: "ps = []" "good_keys (keys ks)" "obj_get (keys ks) (active_key_id ks) \<noteq> None"
      by auto
    then obtain s where s: "obj_get (keys ks) (active_key_id ks) = Some s" by blast
    then have "min_cookie_password_length \<le> length s"
      using good(2) obj_get_in_set by (fastforce simp: good_keys_def)
    moreover have "password = s" using assms False p Some s by (auto simp: load_cookie_secrets_def)
    ultimately show ?thesis using good s Some none by auto
  qed
qed

lemma load_tail_ok:
  "load_session_ttl env ps = (ttl, []) \<Longrightarrow> ps = [] \<and> 1 \<le> ttl"
  "load_app_id env ps = (aid, []) \<Longrightarrow> ps = []"
  "load_same_site env ps = (ss, []) \<Longrightarrow> ps = []"
  by (auto simp: load_session_ttl_def load_app_id_def load_same_site_def Let_def
      min_session_ttl_seconds_def default_session_ttl_seconds_def split: if_splits option.splits)

text \<open>The problems reported before a step are still there after it.\<close>

lemma load_grows:
  "load_cookie_secrets env ps = (a, b, ps') \<Longrightarrow> \<exists>qs. ps' = ps @ qs"
  "load_session_ttl env ps = (ttl, ps') \<Longrightarrow> \<exists>qs. ps' = ps @ qs"
  "load_app_id env ps = (aid, ps') \<Longrightarrow> \<exists>qs. ps' = ps @ qs"
  "load_same_site env ps = (ss, ps') \<Longrightarrow> \<exists>qs. ps' = ps @ qs"
proof -
  show "load_cookie_secrets env ps = (a, b, ps') \<Longrightarrow> \<exists>qs. ps' = ps @ qs"
    using require_env_grows [of env "''COOKIE_PASSWORD''" ps] collect_keys_grows
    by (fastforce simp: load_cookie_secrets_def parse_cookie_passwords_def Let_def
        split: prod.splits if_splits option.splits json.splits list.splits)
qed (auto simp: load_session_ttl_def load_app_id_def load_same_site_def Let_def split: if_splits option.splits)

lemma require_env_mono: "require_env env k ps = (v, ps') \<Longrightarrow> set ps \<subseteq> set ps'"
  using require_env_grows by fastforce

lemma load_mono:
  "load_cookie_secrets env ps = (a, b, ps') \<Longrightarrow> set ps \<subseteq> set ps'"
  "load_session_ttl env ps = (ttl, ps') \<Longrightarrow> set ps \<subseteq> set ps'"
  "load_app_id env ps = (aid, ps') \<Longrightarrow> set ps \<subseteq> set ps'"
  "load_same_site env ps = (ss, ps') \<Longrightarrow> set ps \<subseteq> set ps'"
  using load_grows [of env ps] by fastforce+

definition required_variables :: "string list" where
  "required_variables =
     [''OIDC_ISSUER'', ''OIDC_CLIENT_ID'', ''OIDC_CLIENT_SECRET'', ''OIDC_REDIRECT_URI'',
      ''OIDC_POST_LOGOUT_REDIRECT_URI'', ''BFF_API_BASE_URL'']"

lemma require_env_adds:
  "env k = None \<or> env k = Some '''' \<Longrightarrow> require_env env k ps = (v, ps')
   \<Longrightarrow> ''Missing required environment variable: '' @ k \<in> set ps'"
  by (auto simp: require_env_def)

lemma in_join: "x \<in> set xs \<Longrightarrow> js_includes (js_join sep xs) x"
proof (induction xs)
  case (Cons y ys)
  show ?case
  proof (cases "x = y")
    case True
    then show ?thesis by (cases ys) (auto simp: js_includes_iff intro: exI [of _ "[]"])
  next
    case False
    then have inc: "js_includes (js_join sep ys) x" "ys \<noteq> []" using Cons by auto
    from inc(1) obtain a b where "js_join sep ys = a @ x @ b" unfolding js_includes_iff by blast
    with inc(2) have "js_join sep (y # ys) = (y @ sep @ a) @ x @ b" by (simp add: js_join_cons)
    then show ?thesis unfolding js_includes_iff by blast
  qed
qed simp

lemma js_includes_append: "js_includes s p \<Longrightarrow> js_includes (t @ s) p"
  unfolding js_includes_iff by (metis append.assoc)

subsection \<open>Properties\<close>

text \<open>
  C8: What a configuration that loads is certain to have: a value for every required variable,
  cookie secrets of at least 32 characters with the sealing key among the keys that unseal and seals
  that can never fail for want of a key, a positive session lifetime, the \<open>Secure\<close> flag unless it
  was switched off literally, and the \<open>__Host-\<close> prefix on the default cookie name exactly when
  the cookie is secure and the prefix was not switched off. The secrets have one exception, and the
  statement says what happens there: when every entry of \<open>COOKIE_PASSWORDS\<close> is named \<open>__proto__\<close>, the
  configuration loads with the empty secret.
\<close>

theorem config_fails_closed:
  assumes "load_bff_config_from_env env = Inr cfg"
  shows "(\<forall>k\<in>set required_variables. \<exists>v. env k = Some v \<and> v \<noteq> '''')
    \<and> (\<exists>ks. config_secret cfg = KeyedSecret ks
         \<and> (if names_only_proto env then cookie_password cfg = '''' else \<forall>(k, s)\<in>set (keys ks). 32 \<le> length s)
         \<and> obj_get (keys ks) (active_key_id ks) = Some (cookie_password cfg)
         \<and> seal_password_of (config_secret cfg) = Inr (SealKeyed (active_key_id ks) (cookie_password cfg)))
    \<and> 1 \<le> session_ttl_seconds cfg
    \<and> (cookie_secure cfg \<longleftrightarrow> to_lower (env_trimmed env ''COOKIE_SECURE'') \<noteq> ''false'')
    \<and> (env_trimmed env ''COOKIE_NAME'' = '''' \<longrightarrow>
         (starts_with (cookie_name cfg) host_cookie_prefix \<longleftrightarrow>
            cookie_secure cfg \<and> to_lower (env_trimmed env ''COOKIE_HOST_PREFIX'') \<noteq> ''false''))"
proof -
  obtain iss p1 cid p2 csec p3 ruri p4 plru p5 api p6 parsed password p7 ttl p8 aid p9 ss where steps:
      "require_env env ''OIDC_ISSUER'' [] = (iss, p1)" "require_env env ''OIDC_CLIENT_ID'' p1 = (cid, p2)"
      "require_env env ''OIDC_CLIENT_SECRET'' p2 = (csec, p3)" "require_env env ''OIDC_REDIRECT_URI'' p3 = (ruri, p4)"
      "require_env env ''OIDC_POST_LOGOUT_REDIRECT_URI'' p4 = (plru, p5)" "require_env env ''BFF_API_BASE_URL'' p5 = (api, p6)"
      "load_cookie_secrets env p6 = (parsed, password, p7)" "load_session_ttl env p7 = (ttl, p8)"
      "load_app_id env p8 = (aid, p9)" "load_same_site env p9 = (ss, [])"
    and cfg: "session_ttl_seconds cfg = ttl" "cookie_password cfg = password"
      "cookie_passwords cfg = Some (case parsed of Some ks \<Rightarrow> ks
         | None \<Rightarrow> \<lparr>active_key_id = default_cookie_key_id, keys = [(default_cookie_key_id, password)]\<rparr>)"
      "cookie_secure cfg = (to_lower (env_trimmed env ''COOKIE_SECURE'') \<noteq> ''false'')"
      "cookie_name cfg = (if env_trimmed env ''COOKIE_NAME'' \<noteq> '''' then env_trimmed env ''COOKIE_NAME''
         else default_cookie_name (to_lower (env_trimmed env ''COOKIE_HOST_PREFIX'')) (cookie_secure cfg) aid)"
    using assms by (auto simp: load_bff_config_from_env_def Let_def split: prod.splits if_splits)
  have "p9 = []" using load_tail_ok(3) [of env p9 ss] steps by simp
  then have "p8 = []" using load_tail_ok(2) [of env p8 aid] steps by simp
  then have ttl: "p7 = [] \<and> 1 \<le> ttl" using load_tail_ok(1) [of env p7 ttl] steps by simp
  then have sec: "p6 = []" "if names_only_proto env then parsed = None \<and> password = ''''
      else min_cookie_password_length \<le> length password
        \<and> (parsed = None \<or> (\<exists>set. parsed = Some set \<and> good_keys (keys set) \<and> obj_get (keys set) (active_key_id set) = Some password))"
    using load_cookie_secrets_ok [of env p6 parsed password] steps by auto
  have r6: "p5 = [] \<and> env ''BFF_API_BASE_URL'' = Some api \<and> api \<noteq> ''''"
    using steps(6) sec(1) by (intro require_env_ok) simp
  then have r5: "p4 = [] \<and> env ''OIDC_POST_LOGOUT_REDIRECT_URI'' = Some plru \<and> plru \<noteq> ''''"
    using steps(5) by (intro require_env_ok) simp
  then have r4: "p3 = [] \<and> env ''OIDC_REDIRECT_URI'' = Some ruri \<and> ruri \<noteq> ''''"
    using steps(4) by (intro require_env_ok) simp
  then have r3: "p2 = [] \<and> env ''OIDC_CLIENT_SECRET'' = Some csec \<and> csec \<noteq> ''''"
    using steps(3) by (intro require_env_ok) simp
  then have r2: "p1 = [] \<and> env ''OIDC_CLIENT_ID'' = Some cid \<and> cid \<noteq> ''''"
    using steps(2) by (intro require_env_ok) simp
  then have r1: "env ''OIDC_ISSUER'' = Some iss \<and> iss \<noteq> ''''"
    using require_env_ok [of env "''OIDC_ISSUER''" "[]" iss] steps(1) by simp
  have req: "\<forall>k\<in>set required_variables. \<exists>v. env k = Some v \<and> v \<noteq> ''''"
    using r1 r2 r3 r4 r5 r6 by (simp add: required_variables_def)
  obtain ks where ks: "cookie_passwords cfg = Some ks"
      "if names_only_proto env then password = '''' else \<forall>(k, s)\<in>set (keys ks). 32 \<le> length s"
      "obj_get (keys ks) (active_key_id ks) = Some password"
    using cfg(3) sec(2) by (auto simp: good_keys_def min_cookie_password_length_def split: option.splits if_splits)
  have "starts_with (cookie_name cfg) host_cookie_prefix \<longleftrightarrow>
      cookie_secure cfg \<and> to_lower (env_trimmed env ''COOKIE_HOST_PREFIX'') \<noteq> ''false''"
    if "env_trimmed env ''COOKIE_NAME'' = ''''"
    using that cfg(5) by (auto simp: default_cookie_name_def Let_def host_cookie_prefix_def
        default_cookie_name_base_def starts_with_def split: option.splits)
  with req ks ttl cfg show ?thesis
    by (auto simp: config_secret_def seal_password_of_def)
qed

lemma passwords_elsewhere:
  "k \<noteq> ''COOKIE_PASSWORDS'' \<Longrightarrow> require_env (env(''COOKIE_PASSWORDS'' \<mapsto> v)) k ps = require_env env k ps"
  "k \<noteq> ''COOKIE_PASSWORDS'' \<Longrightarrow> env_trimmed (env(''COOKIE_PASSWORDS'' \<mapsto> v)) k = env_trimmed env k"
  "load_session_ttl (env(''COOKIE_PASSWORDS'' \<mapsto> v)) ps = load_session_ttl env ps"
  "load_app_id (env(''COOKIE_PASSWORDS'' \<mapsto> v)) ps = load_app_id env ps"
  "load_same_site (env(''COOKIE_PASSWORDS'' \<mapsto> v)) ps = load_same_site env ps"
  by (auto simp: require_env_def env_trimmed_def load_session_ttl_def load_app_id_def load_same_site_def Let_def)

text \<open>
  A key named \<open>__proto__\<close> empties the secret. Take any environment that loads and set
  \<open>COOKIE_PASSWORDS\<close> to the object with the one key \<open>__proto__\<close> and a secret of at least 32
  characters: the key passes every check, the assignment keeps nothing, no problem is reported, and the
  configuration still loads, now with the empty text as its cookie secret.
\<close>

lemma proto_key_loads_empty_secret:
  assumes "load_bff_config_from_env env = Inr cfg" "32 \<le> length s"
  shows "\<exists>cfg'. load_bff_config_from_env (env(''COOKIE_PASSWORDS'' \<mapsto> json_print (JObj [(''__proto__'', JStr s)]))) = Inr cfg'
    \<and> cookie_password cfg' = '''' \<and> config_secret cfg' = KeyedSecret \<lparr>active_key_id = default_cookie_key_id, keys = [(default_cookie_key_id, '''')]\<rparr>"
proof -
  let ?raw = "json_print (JObj [(''__proto__'', JStr s)])"
  let ?env = "env(''COOKIE_PASSWORDS'' \<mapsto> ?raw)"
  have trim: "env_trimmed ?env ''COOKIE_PASSWORDS'' = ?raw"
    by (simp add: env_trimmed_def js_trim_id is_ws_def)
  have parsed: "json_parse ?raw = Some (JObj [(''__proto__'', JStr s)])"
    by (rule json_parse_print) simp
  have id: "cookie_key_id_problem ''__proto__'' = None" by code_simp
  have none: "parse_cookie_passwords ?raw ps = (None, ps)" for ps
    unfolding parse_cookie_passwords_def parsed using assms(2)
    by (simp add: id assign_key_def proto_key_def min_cookie_password_length_def)
  have "?raw \<noteq> ''''" by simp
  then have secrets: "load_cookie_secrets ?env ps = (None, '''', ps)" for ps
    unfolding load_cookie_secrets_def Let_def trim none by (simp only: if_False prod.case option.case)
  obtain iss p1 cid p2 csec p3 ruri p4 plru p5 api p6 parsed password p7 ttl p8 aid p9 ss where steps:
      "require_env env ''OIDC_ISSUER'' [] = (iss, p1)" "require_env env ''OIDC_CLIENT_ID'' p1 = (cid, p2)"
      "require_env env ''OIDC_CLIENT_SECRET'' p2 = (csec, p3)" "require_env env ''OIDC_REDIRECT_URI'' p3 = (ruri, p4)"
      "require_env env ''OIDC_POST_LOGOUT_REDIRECT_URI'' p4 = (plru, p5)" "require_env env ''BFF_API_BASE_URL'' p5 = (api, p6)"
      "load_cookie_secrets env p6 = (parsed, password, p7)" "load_session_ttl env p7 = (ttl, p8)"
      "load_app_id env p8 = (aid, p9)" "load_same_site env p9 = (ss, [])"
    using assms(1) by (auto simp: load_bff_config_from_env_def Let_def split: prod.splits if_splits)
  have "p9 = []" using load_tail_ok(3) [of env p9 ss] steps by simp
  then have "p8 = []" using load_tail_ok(2) [of env p8 aid] steps by simp
  then have "p7 = []" using load_tail_ok(1) [of env p7 ttl] steps by simp
  then have "p6 = []" using load_cookie_secrets_ok [of env p6 parsed password] steps by simp
  with \<open>p9 = []\<close> \<open>p8 = []\<close> \<open>p7 = []\<close> steps show ?thesis
    unfolding load_bff_config_from_env_def Let_def secrets
    by (simp add: passwords_elsewhere config_secret_def del: json_print.simps)
qed

text \<open>
  A configuration that does not load names everything that is missing: for every required
  variable that is unset or empty, loading fails and the one error it throws names that variable.
\<close>

lemma config_reports_every_missing_variable:
  assumes "k \<in> set required_variables" "env k = None \<or> env k = Some ''''"
  shows "\<exists>msg. load_bff_config_from_env env = Inl msg
    \<and> js_includes msg (''Missing required environment variable: '' @ k)"
proof -
  let ?m = "''Missing required environment variable: '' @ k"
  obtain iss p1 cid p2 csec p3 ruri p4 plru p5 api p6 parsed password p7 ttl p8 aid p9 ss ps where steps:
      "require_env env ''OIDC_ISSUER'' [] = (iss, p1)" "require_env env ''OIDC_CLIENT_ID'' p1 = (cid, p2)"
      "require_env env ''OIDC_CLIENT_SECRET'' p2 = (csec, p3)" "require_env env ''OIDC_REDIRECT_URI'' p3 = (ruri, p4)"
      "require_env env ''OIDC_POST_LOGOUT_REDIRECT_URI'' p4 = (plru, p5)" "require_env env ''BFF_API_BASE_URL'' p5 = (api, p6)"
      "load_cookie_secrets env p6 = (parsed, password, p7)" "load_session_ttl env p7 = (ttl, p8)"
      "load_app_id env p8 = (aid, p9)" "load_same_site env p9 = (ss, ps)"
    by (metis prod.exhaust)
  note grows = require_env_mono [OF steps(2)] require_env_mono [OF steps(3)] require_env_mono [OF steps(4)]
    require_env_mono [OF steps(5)] require_env_mono [OF steps(6)] load_mono(1) [OF steps(7)]
    load_mono(2) [OF steps(8)] load_mono(3) [OF steps(9)] load_mono(4) [OF steps(10)]
  have added: "?m \<in> set qs'" if "require_env env k qs = (v, qs')" for qs v qs'
    by (rule require_env_adds [OF assms(2) that])
  have "\<exists>qs v qs'. require_env env k qs = (v, qs') \<and> set qs' \<subseteq> set p6"
    using assms(1) unfolding required_variables_def
  proof (simp only: list.set insert_iff empty_iff, elim disjE)
    show ?thesis if "k = ''OIDC_ISSUER''"
      unfolding that using steps(1) grows(1-5) by (intro exI conjI) (assumption, simp)
    show ?thesis if "k = ''OIDC_CLIENT_ID''"
      unfolding that using steps(2) grows(2-5) by (intro exI conjI) (assumption, simp)
    show ?thesis if "k = ''OIDC_CLIENT_SECRET''"
      unfolding that using steps(3) grows(3-5) by (intro exI conjI) (assumption, simp)
    show ?thesis if "k = ''OIDC_REDIRECT_URI''"
      unfolding that using steps(4) grows(4-5) by (intro exI conjI) (assumption, simp)
    show ?thesis if "k = ''OIDC_POST_LOGOUT_REDIRECT_URI''"
      unfolding that using steps(5) grows(5) by (intro exI conjI) (assumption, simp)
    show ?thesis if "k = ''BFF_API_BASE_URL''"
      unfolding that using steps(6) by (intro exI conjI) (assumption, simp)
  qed simp
  then have "?m \<in> set p6" using added by blast
  with grows have "?m \<in> set ps" by blast
  then have inc: "js_includes (js_join ([CHR 0x0A] @ ''  - '') ps) ?m" "ps \<noteq> []" by (auto intro: in_join)
  have "load_bff_config_from_env env
      = Inl (''Invalid BFF environment configuration:'' @ ([CHR 0x0A] @ ''  - '') @ js_join ([CHR 0x0A] @ ''  - '') ps)"
    using steps inc(2) by (simp add: load_bff_config_from_env_def Let_def)
  then show ?thesis using js_includes_append [OF inc(1)] by (metis append.assoc)
qed

definition example_env :: env where
  "example_env = map_of
     [(''OIDC_ISSUER'', ''https://auth.test''), (''OIDC_CLIENT_ID'', ''app''), (''OIDC_CLIENT_SECRET'', ''s''),
      (''OIDC_REDIRECT_URI'', ''https://app.test/bff/callback''),
      (''OIDC_POST_LOGOUT_REDIRECT_URI'', ''https://app.test/''), (''BFF_API_BASE_URL'', ''http://api.test''),
      (''COOKIE_PASSWORD'', ''0123456789abcdef0123456789abcdef'')]"

lemma example_env_loads: "\<exists>cfg. load_bff_config_from_env example_env = Inr cfg"
proof -
  have "\<not> isl (load_bff_config_from_env example_env)" by code_simp
  then show ?thesis by (cases "load_bff_config_from_env example_env") auto
qed

theorem config_fails_closed_witness:
  "\<exists>cfg. load_bff_config_from_env example_env = Inr cfg \<and> 1 \<le> session_ttl_seconds cfg
     \<and> starts_with (cookie_name cfg) ''__Host-''"
proof -
  obtain cfg where load: "load_bff_config_from_env example_env = Inr cfg" using example_env_loads by blast
  have "env_trimmed example_env ''COOKIE_NAME'' = ''''"
    "to_lower (env_trimmed example_env ''COOKIE_SECURE'') \<noteq> ''false''"
    "to_lower (env_trimmed example_env ''COOKIE_HOST_PREFIX'') \<noteq> ''false''" by code_simp+
  with config_fails_closed [OF load] load show ?thesis by (simp add: host_cookie_prefix_def)
qed

lemma config_reports_every_missing_variable_witness:
  "\<exists>msg. load_bff_config_from_env (\<lambda>_. None) = Inl msg
     \<and> js_includes msg ''Missing required environment variable: OIDC_ISSUER''"
  using config_reports_every_missing_variable [of "''OIDC_ISSUER''" "\<lambda>_. None"]
  by (simp add: required_variables_def)

lemma proto_key_loads_empty_secret_witness:
  "\<exists>cfg. load_bff_config_from_env (example_env(''COOKIE_PASSWORDS'' \<mapsto> json_print (JObj [(''__proto__'', JStr (replicate 40 (CHR ''k'')))])))
     = Inr cfg \<and> cookie_password cfg = ''''"
proof -
  obtain cfg where "load_bff_config_from_env example_env = Inr cfg"
    using example_env_loads by blast
  from proto_key_loads_empty_secret [OF this, of "replicate 40 (CHR ''k'')"] show ?thesis by auto
qed

end
