(* ===== verification/Effects.thy ===== *)
theory Effects
  imports ApiErrors
begin

section \<open>Effects: exceptions over a state\<close>

text \<open>
  An \<open>async\<close> function of the source is a state transformer that returns a value or throws.
  The state is whatever the surroundings keep: the store's data, the clock, the network. It is a
  type parameter everywhere, so the operations of code outside the repository (the session seal,
  the OIDC client, \<open>fetch\<close>, the Redis server) are arguments acting on that state.
\<close>

type_synonym ('s, 'a) io = "'s \<Rightarrow> (thrown + 'a) \<times> 's"

definition io_return :: "'a \<Rightarrow> ('s, 'a) io" where
  "io_return a = (\<lambda>s. (Inr a, s))"

definition io_throw :: "thrown \<Rightarrow> ('s, 'a) io" where
  "io_throw e = (\<lambda>s. (Inl e, s))"

definition io_bind :: "('s, 'a) io \<Rightarrow> ('a \<Rightarrow> ('s, 'b) io) \<Rightarrow> ('s, 'b) io" where
  "io_bind m f = (\<lambda>s. case m s of (Inl e, s') \<Rightarrow> (Inl e, s') | (Inr a, s') \<Rightarrow> f a s')"

text \<open>\<open>try { m } catch (e) { h(e) }\<close>\<close>

definition io_catch :: "('s, 'a) io \<Rightarrow> (thrown \<Rightarrow> ('s, 'a) io) \<Rightarrow> ('s, 'a) io" where
  "io_catch m h = (\<lambda>s. case m s of (Inl e, s') \<Rightarrow> h e s' | (Inr a, s') \<Rightarrow> (Inr a, s'))"

text \<open>\<open>try { m } finally { f }\<close>: a throw of \<open>f\<close> replaces the outcome of \<open>m\<close>.\<close>

definition io_finally :: "('s, 'a) io \<Rightarrow> ('s, 'b) io \<Rightarrow> ('s, 'a) io" where
  "io_finally m f = (\<lambda>s. case m s of (r, s') \<Rightarrow>
     (case f s' of (Inl e, s'') \<Rightarrow> (Inl e, s'') | (Inr _, s'') \<Rightarrow> (r, s'')))"

text \<open>Reading a component of the state, and an operation that cannot throw.\<close>

definition io_gets :: "('s \<Rightarrow> 'a) \<Rightarrow> ('s, 'a) io" where
  "io_gets f = (\<lambda>s. (Inr (f s), s))"

definition io_lift :: "('s \<Rightarrow> 'a \<times> 's) \<Rightarrow> ('s, 'a) io" where
  "io_lift f = (\<lambda>s. case f s of (a, s') \<Rightarrow> (Inr a, s'))"

definition io_modify :: "('s \<Rightarrow> 's) \<Rightarrow> ('s, unit) io" where
  "io_modify f = (\<lambda>s. (Inr (), f s))"

fun io_map_list :: "('a \<Rightarrow> ('s, 'b) io) \<Rightarrow> 'a list \<Rightarrow> ('s, 'b list) io" where
  "io_map_list f [] = io_return []"
| "io_map_list f (x # xs) =
     io_bind (f x) (\<lambda>y. io_bind (io_map_list f xs) (\<lambda>ys. io_return (y # ys)))"

text \<open>\<open>throw new Error(message)\<close>\<close>

definition new_error :: "string \<Rightarrow> thrown" where
  "new_error message = Err (JsError 0 ''Error'' message None None)"

named_theorems io_simps \<open>computation rules of the effect combinators\<close>

lemma io_return_apply [io_simps]: "io_return a s = (Inr a, s)" by (simp add: io_return_def)
lemma io_throw_apply [io_simps]: "io_throw e s = (Inl e, s)" by (simp add: io_throw_def)
lemma io_gets_apply [io_simps]: "io_gets f s = (Inr (f s), s)" by (simp add: io_gets_def)
lemma io_modify_apply [io_simps]: "io_modify f s = (Inr (), f s)" by (simp add: io_modify_def)
lemma io_lift_apply [io_simps]: "io_lift f s = (Inr (fst (f s)), snd (f s))"
  by (simp add: io_lift_def case_prod_beta)

lemma io_bind_Inr [io_simps]: "m s = (Inr a, s') \<Longrightarrow> io_bind m f s = f a s'" by (simp add: io_bind_def)
lemma io_bind_Inl [io_simps]: "m s = (Inl e, s') \<Longrightarrow> io_bind m f s = (Inl e, s')" by (simp add: io_bind_def)
lemma io_catch_Inr [io_simps]: "m s = (Inr a, s') \<Longrightarrow> io_catch m h s = (Inr a, s')" by (simp add: io_catch_def)
lemma io_catch_Inl [io_simps]: "m s = (Inl e, s') \<Longrightarrow> io_catch m h s = h e s'" by (simp add: io_catch_def)

lemma io_bind_bool [io_simps]:
  "m s = (Inr True, s') \<Longrightarrow> io_bind m f s = f True s'" "m s = (Inr False, s') \<Longrightarrow> io_bind m f s = f False s'"
  by (simp_all add: io_bind_def)

lemma io_bind_return [simp]: "io_bind (io_return a) f = f a"
  by (rule ext) (simp add: io_bind_def io_return_def)

lemma io_bind_throw [simp]: "io_bind (io_throw e) f = io_throw e"
  by (rule ext) (simp add: io_bind_def io_throw_def)

lemma io_bind_eq_Inr:
  "io_bind m f s = (Inr b, s'') \<longleftrightarrow> (\<exists>a s'. m s = (Inr a, s') \<and> f a s' = (Inr b, s''))"
  by (auto simp: io_bind_def split: prod.splits sum.splits)

lemma io_bind_eq_Inl:
  "io_bind m f s = (Inl e, s'') \<longleftrightarrow> m s = (Inl e, s'') \<or> (\<exists>a s'. m s = (Inr a, s') \<and> f a s' = (Inl e, s''))"
  by (auto simp: io_bind_def split: prod.splits sum.splits)

lemma io_catch_eq_Inr:
  "io_catch m h s = (Inr b, s'') \<longleftrightarrow> m s = (Inr b, s'') \<or> (\<exists>e s'. m s = (Inl e, s') \<and> h e s' = (Inr b, s''))"
  by (auto simp: io_catch_def split: prod.splits sum.splits)

subsection \<open>Invariants of the state\<close>

text \<open>\<open>io_inv I m\<close>: however \<open>m\<close> ends, it keeps \<open>I\<close>. \<open>io_post I Q m\<close> adds a result.\<close>

definition io_inv :: "('s \<Rightarrow> bool) \<Rightarrow> ('s, 'a) io \<Rightarrow> bool" where
  "io_inv I m \<longleftrightarrow> (\<forall>s. I s \<longrightarrow> I (snd (m s)))"

named_theorems inv_intros \<open>operations that keep an invariant\<close>

lemma io_inv_return [inv_intros]: "io_inv I (io_return a)" by (simp add: io_inv_def io_simps)
lemma io_inv_throw [inv_intros]: "io_inv I (io_throw e)" by (simp add: io_inv_def io_simps)
lemma io_inv_gets [inv_intros]: "io_inv I (io_gets f)" by (simp add: io_inv_def io_simps)

lemma io_inv_bind [inv_intros]: "io_inv I m \<Longrightarrow> (\<And>a. io_inv I (f a)) \<Longrightarrow> io_inv I (io_bind m f)"
  by (auto simp: io_inv_def io_bind_def split: prod.splits sum.splits)

lemma io_inv_catch [inv_intros]: "io_inv I m \<Longrightarrow> (\<And>e. io_inv I (h e)) \<Longrightarrow> io_inv I (io_catch m h)"
  by (auto simp: io_inv_def io_catch_def split: prod.splits sum.splits)

lemma io_inv_finally [inv_intros]: "io_inv I m \<Longrightarrow> io_inv I f \<Longrightarrow> io_inv I (io_finally m f)"
  by (auto simp: io_inv_def io_finally_def split: prod.splits sum.splits)

lemma io_inv_map_list [inv_intros]: "(\<And>x. io_inv I (f x)) \<Longrightarrow> io_inv I (io_map_list f xs)"
  by (induction xs) (auto intro!: inv_intros)

lemma io_invD: "io_inv I m \<Longrightarrow> I s \<Longrightarrow> m s = (r, s') \<Longrightarrow> I s'"
  by (metis io_inv_def snd_conv)

subsection \<open>Operations that leave something alone\<close>

text \<open>\<open>quiet sent m\<close>: however \<open>m\<close> ends, what \<open>sent\<close> reads from the state is as before.\<close>

definition quiet :: "('s \<Rightarrow> 'x) \<Rightarrow> ('s, 'a) io \<Rightarrow> bool" where
  "quiet sent m \<longleftrightarrow> (\<forall>l. io_inv (\<lambda>s. sent s = l) m)"

lemma quietD: "quiet sent m \<Longrightarrow> m s = (r, s') \<Longrightarrow> sent s' = sent s"
  using io_invD [of "\<lambda>s'. sent s' = sent s" m s r s'] by (simp add: quiet_def)

named_theorems quiet_intros \<open>operations that leave the observation alone\<close>

lemma quiet_basic [quiet_intros]:
  "quiet sent (io_return a)" "quiet sent (io_throw e)" "quiet sent (io_gets f)"
  by (simp_all add: quiet_def io_inv_return io_inv_throw io_inv_gets)

lemma quiet_bind [quiet_intros]: "quiet sent m \<Longrightarrow> (\<And>a. quiet sent (f a)) \<Longrightarrow> quiet sent (io_bind m f)"
  by (simp add: quiet_def io_inv_bind)

lemma quiet_catch [quiet_intros]: "quiet sent m \<Longrightarrow> (\<And>e. quiet sent (h e)) \<Longrightarrow> quiet sent (io_catch m h)"
  by (simp add: quiet_def io_inv_catch)

lemma quiet_finally [quiet_intros]: "quiet sent m \<Longrightarrow> quiet sent f \<Longrightarrow> quiet sent (io_finally m f)"
  by (simp add: quiet_def io_inv_finally)

lemma quiet_map_list [quiet_intros]: "(\<And>x. quiet sent (f x)) \<Longrightarrow> quiet sent (io_map_list f xs)"
  by (simp add: quiet_def io_inv_map_list)

lemma quiet_modify: "(\<And>s. sent (f s) = sent s) \<Longrightarrow> quiet sent (io_modify f)"
  by (simp add: quiet_def io_inv_def io_simps)

lemma quiet_lift: "(\<And>s. sent (snd (f s)) = sent s) \<Longrightarrow> quiet sent (io_lift f)"
  by (simp add: quiet_def io_inv_def io_simps)

end
