(* ===== verification/Session.thy ===== *)
theory Session
  imports Effects Config Base64
begin

section \<open>Sessions, login transactions and identity claims\<close>

text \<open>
  \<open>session.ts\<close> and \<open>txstate.ts\<close> seal a session and a login transaction into a cookie value,
  \<open>claims.ts\<close> turns token claims into the session's user. The seal itself (iron-webcrypto) is
  code outside the repository: an \<open>iron\<close> record of two operations over the surrounding state,
  with what the sources rely on stated where it is used. A sealed or stored value is read back
  with a cast in the source; a value without the shape of the type reads here as no value.
\<close>

subsection \<open>The session\<close>

type_synonym user_claims = "(string \<times> json) list"

record bff_session =
  session_id :: string
  access_token :: string
  refresh_token :: "string option"
  id_token :: "string option"
  expires_at :: int
  user :: user_claims
  sid :: "string option"
  version :: int
  csrf_token :: "string option"

definition user_sub :: "user_claims \<Rightarrow> string" where
  "user_sub u = (case obj_get u ''sub'' of Some (JStr s) \<Rightarrow> s | _ \<Rightarrow> '''')"

definition session_to_json :: "bff_session \<Rightarrow> json" where
  "session_to_json b =
     JObj ([(''sessionId'', JStr (session_id b)), (''accessToken'', JStr (access_token b))]
       @ opt_member ''refreshToken'' (map_option JStr (refresh_token b))
       @ opt_member ''idToken'' (map_option JStr (id_token b))
       @ [(''expiresAt'', JNum (expires_at b)), (''user'', JObj (user b))]
       @ opt_member ''sid'' (map_option JStr (sid b))
       @ [(''version'', JNum (version b))]
       @ opt_member ''csrfToken'' (map_option JStr (csrf_token b)))"

definition session_of_json :: "json \<Rightarrow> bff_session option" where
  "session_of_json j =
     (case (j_string j ''sessionId'', j_string j ''accessToken'', j_get j ''expiresAt'', j_get j ''user'',
            j_get j ''version'') of
        (Some i, Some a, Some (JNum e), Some (JObj u), Some (JNum v)) \<Rightarrow>
          Some \<lparr>session_id = i, access_token = a, refresh_token = j_string j ''refreshToken'',
            id_token = j_string j ''idToken'', expires_at = e, user = u, sid = j_string j ''sid'',
            version = v, csrf_token = j_string j ''csrfToken''\<rparr>
      | _ \<Rightarrow> None)"

text \<open>The sessions the program makes: an identity whose members are distinct and whose \<open>sub\<close> is a string.\<close>

definition session_ok :: "bff_session \<Rightarrow> bool" where
  "session_ok b \<longleftrightarrow> json_ok (JObj (user b)) \<and> (\<exists>s. obj_get (user b) ''sub'' = Some (JStr s))"

record login_tx =
  tx_state :: string
  tx_nonce :: string
  tx_verifier :: string
  tx_return_to :: string

definition tx_to_json :: "login_tx \<Rightarrow> json" where
  "tx_to_json tx =
     JObj [(''state'', JStr (tx_state tx)), (''nonce'', JStr (tx_nonce tx)),
           (''verifier'', JStr (tx_verifier tx)), (''returnTo'', JStr (tx_return_to tx))]"

definition tx_of_json :: "json \<Rightarrow> login_tx option" where
  "tx_of_json j =
     (case (j_string j ''state'', j_string j ''nonce'', j_string j ''verifier'', j_string j ''returnTo'') of
        (Some s, Some n, Some v, Some r) \<Rightarrow>
          Some \<lparr>tx_state = s, tx_nonce = n, tx_verifier = v, tx_return_to = r\<rparr>
      | _ \<Rightarrow> None)"

subsection \<open>Sealing\<close>

text \<open>The seal: a value, a password and a lifetime in milliseconds (\<open>None\<close> never expires).\<close>

record 's iron =
  iron_seal :: "json \<Rightarrow> seal_password \<Rightarrow> int option \<Rightarrow> ('s, string) io"
  iron_unseal :: "string \<Rightarrow> unseal_password \<Rightarrow> int option \<Rightarrow> ('s, json) io"

definition ms_per_second :: int where "ms_per_second = 1000"
definition default_session_ttl_ms :: int where
  "default_session_ttl_ms = default_session_ttl_seconds * ms_per_second"

definition seal_with :: "'s iron \<Rightarrow> json \<Rightarrow> cookie_secret \<Rightarrow> int option \<Rightarrow> ('s, string) io" where
  "seal_with iron j secret ttl =
     (case seal_password_of secret of
        Inl msg \<Rightarrow> io_throw (new_error msg)
      | Inr p \<Rightarrow> iron_seal iron j p ttl)"

definition seal_session :: "'s iron \<Rightarrow> bff_session \<Rightarrow> cookie_secret \<Rightarrow> int \<Rightarrow> ('s, string) io" where
  "seal_session iron session password ttl_ms =
     seal_with iron (session_to_json session) password (Some ttl_ms)"

definition unseal_session ::
    "'s iron \<Rightarrow> string \<Rightarrow> cookie_secret \<Rightarrow> int \<Rightarrow> ('s, bff_session option) io" where
  "unseal_session iron sealed password ttl_ms =
     io_catch
       (io_bind (iron_unseal iron sealed (unseal_password_of password) (Some ttl_ms))
          (\<lambda>result. io_return (session_of_json result)))
       (\<lambda>_. io_return None)"

definition seal_tx :: "'s iron \<Rightarrow> login_tx \<Rightarrow> cookie_secret \<Rightarrow> ('s, string) io" where
  "seal_tx iron tx password = seal_with iron (tx_to_json tx) password None"

definition unseal_tx :: "'s iron \<Rightarrow> string \<Rightarrow> cookie_secret \<Rightarrow> ('s, login_tx option) io" where
  "unseal_tx iron sealed password =
     io_catch
       (io_bind (iron_unseal iron sealed (unseal_password_of password) None)
          (\<lambda>result. io_return (tx_of_json result)))
       (\<lambda>_. io_return None)"

subsection \<open>Claims\<close>

definition min_jwt_segments :: nat where "min_jwt_segments = 2"

text \<open>\<open>Inl\<close> is the message thrown.\<close>

definition decode_id_token_claims :: "string \<Rightarrow> string + user_claims" where
  "decode_id_token_claims token =
     (let parts = split_char (CHR ''.'') token in
      if length parts < min_jwt_segments then Inl ''Malformed id_token: expected a JWT with a payload segment''
      else
        (case json_parse (utf8_decode (base64_url_decode (parts ! 1))) of
           None \<Rightarrow> Inl ''Unexpected token in JSON''
         | Some (JObj claims) \<Rightarrow>
             (case obj_get claims ''sub'' of
                Some (JStr sub) \<Rightarrow>
                  (let user0 = obj_set claims ''sub'' (JStr sub);
                       user1 = (case obj_get claims ''email'' of
                           Some (JStr e) \<Rightarrow> obj_set user0 ''email'' (JStr e) | _ \<Rightarrow> obj_delete user0 ''email'');
                       user2 = (case obj_get claims ''name'' of
                           Some (JStr n) \<Rightarrow> obj_set user1 ''name'' (JStr n) | _ \<Rightarrow> obj_delete user1 ''name'') in
                   Inr user2)
              | _ \<Rightarrow> Inl (''Malformed id_token: missing string '' @ [CHR 0x27] @ ''sub'' @ [CHR 0x27] @ '' claim''))
         | Some _ \<Rightarrow> Inl (''Malformed id_token: missing string '' @ [CHR 0x27] @ ''sub'' @ [CHR 0x27] @ '' claim'')))"

definition as_string_list :: "json option \<Rightarrow> string list" where
  "as_string_list v =
     (case v of
        Some (JStr s) \<Rightarrow> [s]
      | Some (JArr xs) \<Rightarrow> List.map_filter as_string xs
      | _ \<Rightarrow> [])"

definition split_scope :: "json option \<Rightarrow> string list" where
  "split_scope v =
     (case v of Some (JStr s) \<Rightarrow> filter (\<lambda>scope. length scope > 0) (split_char (CHR '' '') s) | _ \<Rightarrow> [])"

text \<open>\<open>[...new Set(values)]\<close> keeps the first of each.\<close>

definition dedupe :: "string list \<Rightarrow> string list" where
  "dedupe values = rev (remdups (rev values))"

text \<open>Assignments under a condition on the value: \<open>None\<close> assigns nothing.\<close>

definition obj_set_opt :: "user_claims \<Rightarrow> string \<Rightarrow> json option \<Rightarrow> user_claims" where
  "obj_set_opt ob k v = (case v of Some j \<Rightarrow> obj_set ob k j | None \<Rightarrow> ob)"

definition if_string :: "json option \<Rightarrow> json option" where
  "if_string v = (case v of Some (JStr s) \<Rightarrow> Some (JStr s) | _ \<Rightarrow> None)"

definition if_nonempty :: "string list \<Rightarrow> json option" where
  "if_nonempty xs = (if length xs > 0 then Some (JArr (map JStr xs)) else None)"

definition raw_authorization_claims :: "string list" where
  "raw_authorization_claims = [''role'', ''roles'', ''permissions'', ''scope'', ''org_id'', ''org_name'']"

definition map_claims :: "user_claims \<Rightarrow> user_claims" where
  "map_claims claims =
     (let rest = fold (\<lambda>k ob. obj_delete ob k) raw_authorization_claims claims;
          user0 = obj_set rest ''sub'' (JStr (user_sub claims));
          roles = dedupe (as_string_list (obj_get claims ''role'') @ as_string_list (obj_get claims ''roles''));
          user1 = obj_set_opt user0 ''roles'' (if_nonempty roles);
          permissions = dedupe (as_string_list (obj_get claims ''permissions'') @ split_scope (obj_get claims ''scope''));
          user2 = obj_set_opt user1 ''permissions'' (if_nonempty permissions);
          user3 = obj_set_opt user2 ''organizationId'' (if_string (obj_get claims ''org_id'')) in
      obj_set_opt user3 ''organizationName'' (if_string (obj_get claims ''org_name'')))"

subsection \<open>Lemmas\<close>

lemma session_json_round_trip: "session_of_json (session_to_json b) = Some b"
  by (cases b) (simp add: session_of_json_def session_to_json_def j_string_def opt_member_def
      obj_get_append split: option.splits)

lemma tx_json_round_trip: "tx_of_json (tx_to_json tx) = Some tx"
  by (cases tx) (simp add: tx_of_json_def tx_to_json_def j_string_def)

lemma session_to_json_ok: "session_ok b \<Longrightarrow> json_ok (session_to_json b)"
  by (auto simp: session_to_json_def session_ok_def opt_member_def split: option.splits)

lemma dedupe_simps [simp]: "set (dedupe xs) = set xs" "distinct (dedupe xs)"
  by (simp_all add: dedupe_def)

lemma json_ok_obj: "json_ok (JObj u) \<longleftrightarrow> obj_wf u \<and> (\<forall>k v. (k, v) \<in> set u \<longrightarrow> json_ok v)"
  by (auto simp: obj_wf_def)

lemma json_ok_obj_set: "json_ok (JObj u) \<Longrightarrow> json_ok v \<Longrightarrow> json_ok (JObj (obj_set u k v))"
  unfolding json_ok_obj using set_obj_set [of _ _ u k v] by blast

lemma json_ok_obj_delete: "json_ok (JObj u) \<Longrightarrow> json_ok (JObj (obj_delete u k))"
  unfolding json_ok_obj by (auto simp: obj_delete_def obj_wf_def distinct_map_filter)

lemma json_ok_strings: "json_ok (JArr (map JStr xs))"
  by auto

lemma json_ok_obj_set_opt:
  "json_ok (JObj u) \<Longrightarrow> (\<And>j. v = Some j \<Longrightarrow> json_ok j) \<Longrightarrow> json_ok (JObj (obj_set_opt u k v))"
  by (cases v) (auto simp: obj_set_opt_def simp del: json_ok.simps(3) intro: json_ok_obj_set)

lemma if_string_ok: "if_string v = Some j \<Longrightarrow> json_ok j"
  by (auto simp: if_string_def split: option.splits json.splits)

lemma if_nonempty_ok: "if_nonempty xs = Some j \<Longrightarrow> json_ok j"
  by (auto simp: if_nonempty_def split: if_splits)

lemma json_ok_obj_deletes: "json_ok (JObj u) \<Longrightarrow> json_ok (JObj (fold (\<lambda>k ob. obj_delete ob k) ks u))"
  by (induction ks arbitrary: u) (auto simp del: json_ok.simps(3) intro: json_ok_obj_delete)

lemma map_claims_ok: "json_ok (JObj u) \<Longrightarrow> json_ok (JObj (map_claims u))"
  unfolding map_claims_def Let_def
  by (intro json_ok_obj_set_opt json_ok_obj_set json_ok_obj_deletes)
    (assumption | erule if_string_ok if_nonempty_ok | simp)+

lemma obj_get_set_opt: "obj_get (obj_set_opt ob k v) k' = (if k' = k \<and> v \<noteq> None then v else obj_get ob k')"
  by (cases v) (auto simp: obj_set_opt_def)

lemma obj_get_deletes: "obj_get (fold (\<lambda>k ob. obj_delete ob k) ks u) k' = (if k' \<in> set ks then None else obj_get u k')"
  by (induction ks arbitrary: u) auto

lemma map_claims_get:
  "obj_get (map_claims u) k =
    (if k = ''organizationName'' \<and> if_string (obj_get u ''org_name'') \<noteq> None then if_string (obj_get u ''org_name'')
     else if k = ''organizationId'' \<and> if_string (obj_get u ''org_id'') \<noteq> None then if_string (obj_get u ''org_id'')
     else if k = ''permissions'' then
       if_nonempty (dedupe (as_string_list (obj_get u ''permissions'') @ split_scope (obj_get u ''scope'')))
     else if k = ''roles'' then
       if_nonempty (dedupe (as_string_list (obj_get u ''role'') @ as_string_list (obj_get u ''roles'')))
     else if k = ''sub'' then Some (JStr (user_sub u))
     else if k \<in> set raw_authorization_claims then None
     else obj_get u k)"
proof -
  let ?R = "\<lambda>k. k \<in> set raw_authorization_claims"
  have raw: "?R ''permissions''" "?R ''roles''" by (simp_all add: raw_authorization_claims_def)
  show ?thesis
    unfolding map_claims_def Let_def obj_get_set_opt obj_get_set obj_get_deletes using raw by auto
qed

end
