(* ===== verification/Redis.thy ===== *)
theory Redis
  imports Effects
begin

section \<open>The Redis port (\<open>sdk/src/server/store/types.ts\<close>, \<open>memory.ts\<close>, \<open>redis-adapter.ts\<close>, \<open>redis-url.ts\<close>)\<close>

text \<open>
  The seven operations the server-side stores use, with the laws their clients rely on as the
  locale \<open>redis_like\<close>; the in-process implementation \<open>createMemoryRedis\<close>, on which the locale is
  interpreted; the adapter over a node-redis client; and the lazily connecting client. The clock
  is a component of the memory world, read by every operation as the code reads \<open>Date.now()\<close>.
\<close>

record set_options =
  so_ex :: "int option"
  so_nx :: bool

definition no_options :: set_options where "no_options = \<lparr>so_ex = None, so_nx = False\<rparr>"

text \<open>\<open>"OK"\<close> is \<open>True\<close>, \<open>null\<close> is \<open>False\<close>.\<close>

record 's redis_like =
  rl_get :: "string \<Rightarrow> ('s, string option) io"
  rl_set :: "string \<Rightarrow> string \<Rightarrow> set_options \<Rightarrow> ('s, bool) io"
  rl_del :: "string \<Rightarrow> ('s, int) io"
  rl_sadd :: "string \<Rightarrow> string \<Rightarrow> ('s, int) io"
  rl_srem :: "string \<Rightarrow> string \<Rightarrow> ('s, int) io"
  rl_smembers :: "string \<Rightarrow> ('s, string list) io"
  rl_expire :: "string \<Rightarrow> int \<Rightarrow> ('s, unit) io"

subsection \<open>The contract\<close>

text \<open>
  What a client relies on while the server is \<open>healthy\<close>: \<open>lookup\<close> and \<open>members\<close> are the live
  strings and sets. An operation changes its own key only, as its name says.
\<close>

definition same_data :: "('s \<Rightarrow> string \<Rightarrow> string option) \<Rightarrow> ('s \<Rightarrow> string \<Rightarrow> string set) \<Rightarrow> 's \<Rightarrow> 's \<Rightarrow> bool" where
  "same_data lookup members s s' \<longleftrightarrow> lookup s' = lookup s \<and> members s' = members s"

locale redis_like =
  fixes redis :: "'s redis_like"
    and healthy :: "'s \<Rightarrow> bool"
    and lookup :: "'s \<Rightarrow> string \<Rightarrow> string option"
    and members :: "'s \<Rightarrow> string \<Rightarrow> string set"
  assumes get: "healthy s \<Longrightarrow> \<exists>s'. rl_get redis k s = (Inr (lookup s k), s') \<and> healthy s'
      \<and> lookup s' = lookup s \<and> members s' = members s"
    and set_skipped: "healthy s \<Longrightarrow> so_nx opts \<Longrightarrow> lookup s k \<noteq> None \<Longrightarrow>
      \<exists>s'. rl_set redis k v opts s = (Inr False, s') \<and> healthy s' \<and> lookup s' = lookup s \<and> members s' = members s"
    and set_done: "healthy s \<Longrightarrow> \<not> so_nx opts \<or> lookup s k = None \<Longrightarrow> \<forall>t. so_ex opts = Some t \<longrightarrow> 0 < t \<Longrightarrow>
      \<exists>s'. rl_set redis k v opts s = (Inr True, s') \<and> healthy s' \<and> lookup s' = (lookup s)(k := Some v)
        \<and> members s' = members s"
    and del: "healthy s \<Longrightarrow> \<exists>n s'. rl_del redis k s = (Inr n, s') \<and> healthy s'
      \<and> lookup s' = (lookup s)(k := None) \<and> members s' = (members s)(k := {})"
    and sadd: "healthy s \<Longrightarrow> \<exists>n s'. rl_sadd redis k m s = (Inr n, s') \<and> healthy s' \<and> lookup s' = lookup s
      \<and> members s' = (members s)(k := insert m (members s k))"
    and srem: "healthy s \<Longrightarrow> \<exists>n s'. rl_srem redis k m s = (Inr n, s') \<and> healthy s' \<and> lookup s' = lookup s
      \<and> members s' = (members s)(k := members s k - {m})"
    and smembers: "healthy s \<Longrightarrow> \<exists>ms s'. rl_smembers redis k s = (Inr ms, s') \<and> set ms = members s k \<and> distinct ms
      \<and> healthy s' \<and> lookup s' = lookup s \<and> members s' = members s"
    and expire: "healthy s \<Longrightarrow> 0 < t \<Longrightarrow> \<exists>s'. rl_expire redis k t s = (Inr (), s') \<and> healthy s'
      \<and> lookup s' = lookup s \<and> members s' = members s"

subsection \<open>The in-process implementation\<close>

record memory_entry =
  me_value :: string
  me_expires_at :: "int option"

record set_entry =
  se_members :: "string list"
  se_expires_at :: "int option"

text \<open>The two maps and the clock; the surroundings may extend the record.\<close>

record memory_world =
  entries :: "(string \<times> memory_entry) list"
  sets :: "(string \<times> set_entry) list"
  clock :: int

definition expired :: "int option \<Rightarrow> int \<Rightarrow> bool" where
  "expired at now \<longleftrightarrow> (case at of Some e \<Rightarrow> e \<le> now | None \<Rightarrow> False)"

definition mem_alive :: "string \<Rightarrow> 'z memory_world_scheme \<Rightarrow> memory_entry option \<times> 'z memory_world_scheme" where
  "mem_alive key w =
     (case obj_get (entries w) key of
        None \<Rightarrow> (None, w)
      | Some e \<Rightarrow> if expired (me_expires_at e) (clock w)
                  then (None, w\<lparr>entries := obj_delete (entries w) key\<rparr>) else (Some e, w))"

definition mem_alive_set :: "string \<Rightarrow> 'z memory_world_scheme \<Rightarrow> set_entry option \<times> 'z memory_world_scheme" where
  "mem_alive_set key w =
     (case obj_get (sets w) key of
        None \<Rightarrow> (None, w)
      | Some e \<Rightarrow> if expired (se_expires_at e) (clock w)
                  then (None, w\<lparr>sets := obj_delete (sets w) key\<rparr>) else (Some e, w))"

definition mem_get :: "string \<Rightarrow> ('z memory_world_scheme, string option) io" where
  "mem_get key w = (case mem_alive key w of (e, w') \<Rightarrow> (Inr (map_option me_value e), w'))"

definition mem_set :: "string \<Rightarrow> string \<Rightarrow> set_options \<Rightarrow> ('z memory_world_scheme, bool) io" where
  "mem_set key v opts w =
     (let (taken, w1) = (if so_nx opts then (case mem_alive key w of (e, w') \<Rightarrow> (e \<noteq> None, w')) else (False, w)) in
      if taken then (Inr False, w1)
      else (Inr True, w1\<lparr>entries := obj_set (entries w1) key
             \<lparr>me_value = v, me_expires_at = map_option (\<lambda>ex. clock w1 + ex * 1000) (so_ex opts)\<rparr>\<rparr>))"

definition mem_del :: "string \<Rightarrow> ('z memory_world_scheme, int) io" where
  "mem_del key w =
     (let (e, w1) = mem_alive key w;
          (existed, w2) = (if e \<noteq> None then (True, w1)
                           else (case mem_alive_set key w1 of (se, w') \<Rightarrow> (se \<noteq> None, w'))) in
      (Inr (if existed then 1 else 0),
       w2\<lparr>entries := obj_delete (entries w2) key, sets := obj_delete (sets w2) key\<rparr>))"

definition mem_sadd :: "string \<Rightarrow> string \<Rightarrow> ('z memory_world_scheme, int) io" where
  "mem_sadd key m w =
     (let (found, w1) = mem_alive_set key w;
          e = (case found of Some e \<Rightarrow> e | None \<Rightarrow> \<lparr>se_members = [], se_expires_at = None\<rparr>);
          added = (m \<notin> set (se_members e));
          e' = e\<lparr>se_members := (if added then se_members e @ [m] else se_members e)\<rparr> in
      (Inr (if added then 1 else 0), w1\<lparr>sets := obj_set (sets w1) key e'\<rparr>))"

definition mem_srem :: "string \<Rightarrow> string \<Rightarrow> ('z memory_world_scheme, int) io" where
  "mem_srem key m w =
     (case mem_alive_set key w of
        (None, w1) \<Rightarrow> (Inr 0, w1)
      | (Some e, w1) \<Rightarrow>
          (let removed = (m \<in> set (se_members e));
               rest = filter (\<lambda>x. x \<noteq> m) (se_members e);
               w2 = (if length rest = 0 then w1\<lparr>sets := obj_delete (sets w1) key\<rparr>
                     else w1\<lparr>sets := obj_set (sets w1) key (e\<lparr>se_members := rest\<rparr>)\<rparr>) in
           (Inr (if removed then 1 else 0), w2)))"

definition mem_smembers :: "string \<Rightarrow> ('z memory_world_scheme, string list) io" where
  "mem_smembers key w =
     (case mem_alive_set key w of (e, w') \<Rightarrow> (Inr (case e of Some e \<Rightarrow> se_members e | None \<Rightarrow> []), w'))"

definition mem_expire :: "string \<Rightarrow> int \<Rightarrow> ('z memory_world_scheme, unit) io" where
  "mem_expire key seconds w =
     (let at = clock w + seconds * 1000;
          (e, w1) = mem_alive key w;
          w2 = (case e of Some e \<Rightarrow> w1\<lparr>entries := obj_set (entries w1) key (e\<lparr>me_expires_at := Some at\<rparr>)\<rparr> | None \<Rightarrow> w1);
          (se, w3) = mem_alive_set key w2;
          w4 = (case se of Some e \<Rightarrow> w3\<lparr>sets := obj_set (sets w3) key (e\<lparr>se_expires_at := Some at\<rparr>)\<rparr> | None \<Rightarrow> w3) in
      (Inr (), w4))"

definition create_memory_redis :: "'z memory_world_scheme redis_like" where
  "create_memory_redis =
     \<lparr>rl_get = mem_get, rl_set = mem_set, rl_del = mem_del, rl_sadd = mem_sadd, rl_srem = mem_srem,
      rl_smembers = mem_smembers, rl_expire = mem_expire\<rparr>"

subsection \<open>The adapter over node-redis\<close>

text \<open>A reply is any value; the adapter narrows it. Options are \<open>EX\<close> and \<open>NX\<close>.\<close>

record 's node_redis =
  nr_get :: "string \<Rightarrow> ('s, json) io"
  nr_set :: "string \<Rightarrow> string \<Rightarrow> (int option \<times> bool) option \<Rightarrow> ('s, json) io"
  nr_del :: "string \<Rightarrow> ('s, int) io"
  nr_sadd :: "string \<Rightarrow> string \<Rightarrow> ('s, int) io"
  nr_srem :: "string \<Rightarrow> string \<Rightarrow> ('s, int) io"
  nr_smembers :: "string \<Rightarrow> ('s, string list) io"
  nr_expire :: "string \<Rightarrow> int \<Rightarrow> ('s, json) io"

definition create_redis_adapter :: "'s node_redis \<Rightarrow> 's redis_like" where
  "create_redis_adapter client =
     \<lparr>rl_get = (\<lambda>key. io_bind (nr_get client key) (\<lambda>result. io_return (as_string result))),
      rl_set = (\<lambda>key v opts. io_bind (nr_set client key v (Some (so_ex opts, so_nx opts)))
                 (\<lambda>result. io_return (result = JStr ''OK''))),
      rl_del = nr_del client,
      rl_sadd = nr_sadd client,
      rl_srem = nr_srem client,
      rl_smembers = nr_smembers client,
      rl_expire = (\<lambda>key seconds. io_bind (nr_expire client key seconds) (\<lambda>_. io_return ()))\<rparr>"

subsection \<open>The lazily connecting client\<close>

text \<open>
  \<open>pending\<close> holds the connection once the first operation has opened it. Loading the optional
  package and connecting are the surroundings' business: \<open>connect\<close> yields a connected client's
  handle, \<open>client_of\<close> its operations.
\<close>

record 'h connection_world =
  pending :: "'h option"

definition conn_ready ::
    "(('h, 'z) connection_world_scheme, 'h) io \<Rightarrow> (('h, 'z) connection_world_scheme, 'h) io" where
  "conn_ready connect =
     io_bind (io_gets pending) (\<lambda>p.
       case p of
         Some h \<Rightarrow> io_return h
       | None \<Rightarrow>
           io_bind (io_catch connect
                      (\<lambda>e. io_bind (io_modify (\<lambda>w. w\<lparr>pending := None\<rparr>)) (\<lambda>_. io_throw e)))
             (\<lambda>h. io_bind (io_modify (\<lambda>w. w\<lparr>pending := Some h\<rparr>)) (\<lambda>_. io_return h)))"

definition create_redis_from_url ::
    "(('h, 'z) connection_world_scheme, 'h) io \<Rightarrow> ('h \<Rightarrow> ('h, 'z) connection_world_scheme node_redis)
      \<Rightarrow> ('h, 'z) connection_world_scheme redis_like" where
  "create_redis_from_url connect client_of =
     (let ready = conn_ready connect; client = (\<lambda>h. create_redis_adapter (client_of h)) in
      \<lparr>rl_get = (\<lambda>key. io_bind ready (\<lambda>h. rl_get (client h) key)),
       rl_set = (\<lambda>key v opts. io_bind ready (\<lambda>h. rl_set (client h) key v opts)),
       rl_del = (\<lambda>key. io_bind ready (\<lambda>h. rl_del (client h) key)),
       rl_sadd = (\<lambda>key m. io_bind ready (\<lambda>h. rl_sadd (client h) key m)),
       rl_srem = (\<lambda>key m. io_bind ready (\<lambda>h. rl_srem (client h) key m)),
       rl_smembers = (\<lambda>key. io_bind ready (\<lambda>h. rl_smembers (client h) key)),
       rl_expire = (\<lambda>key seconds. io_bind ready (\<lambda>h. rl_expire (client h) key seconds))\<rparr>)"

subsection \<open>The implementation keeps the contract\<close>

definition mem_lookup :: "'z memory_world_scheme \<Rightarrow> string \<Rightarrow> string option" where
  "mem_lookup w k =
     (case obj_get (entries w) k of
        Some e \<Rightarrow> if expired (me_expires_at e) (clock w) then None else Some (me_value e)
      | None \<Rightarrow> None)"

definition mem_members :: "'z memory_world_scheme \<Rightarrow> string \<Rightarrow> string set" where
  "mem_members w k =
     (case obj_get (sets w) k of
        Some e \<Rightarrow> if expired (se_expires_at e) (clock w) then {} else set (se_members e)
      | None \<Rightarrow> {})"

text \<open>Members of a set are distinct, and so are the keys.\<close>

definition mem_healthy :: "'z memory_world_scheme \<Rightarrow> bool" where
  "mem_healthy w \<longleftrightarrow> obj_wf (entries w) \<and> obj_wf (sets w)
     \<and> (\<forall>k e. obj_get (sets w) k = Some e \<longrightarrow> distinct (se_members e))"

lemmas mem_defs = mem_lookup_def mem_members_def mem_healthy_def

lemma mem_alive_cases:
  assumes "mem_healthy w"
  shows "case mem_alive k w of (e, w') \<Rightarrow> map_option me_value e = mem_lookup w k \<and> mem_healthy w'
    \<and> mem_lookup w' = mem_lookup w \<and> mem_members w' = mem_members w \<and> clock w' = clock w \<and> sets w' = sets w
    \<and> (\<forall>x. e = Some x \<longrightarrow> obj_get (entries w') k = Some x \<and> \<not> expired (me_expires_at x) (clock w))"
  using assms by (auto simp: mem_alive_def mem_defs obj_wf_delete fun_eq_iff split: option.splits)

lemma mem_alive_set_cases:
  assumes "mem_healthy w"
  shows "case mem_alive_set k w of (e, w') \<Rightarrow>
      (case e of Some e \<Rightarrow> set (se_members e) | None \<Rightarrow> {}) = mem_members w k
    \<and> mem_healthy w' \<and> mem_lookup w' = mem_lookup w \<and> mem_members w' = mem_members w \<and> clock w' = clock w
    \<and> entries w' = entries w
    \<and> (\<forall>x. e = Some x \<longrightarrow> distinct (se_members x) \<and> obj_get (sets w') k = Some x \<and> \<not> expired (se_expires_at x) (clock w))"
  using assms by (auto simp: mem_alive_set_def mem_defs obj_wf_delete fun_eq_iff split: option.splits)

lemma mem_get_law:
  "mem_healthy w \<Longrightarrow> \<exists>w'. mem_get k w = (Inr (mem_lookup w k), w') \<and> mem_healthy w'
    \<and> mem_lookup w' = mem_lookup w \<and> mem_members w' = mem_members w"
  using mem_alive_cases [of w k] by (auto simp: mem_get_def split: prod.splits)

lemma mem_set_skipped:
  "mem_healthy w \<Longrightarrow> so_nx opts \<Longrightarrow> mem_lookup w k \<noteq> None \<Longrightarrow>
   \<exists>w'. mem_set k v opts w = (Inr False, w') \<and> mem_healthy w' \<and> mem_lookup w' = mem_lookup w \<and> mem_members w' = mem_members w"
  using mem_alive_cases [of w k] by (auto simp: mem_set_def split: prod.splits option.splits)

lemma mem_write_entry:
  assumes "mem_healthy w" "\<not> expired (me_expires_at e) (clock w)"
  shows "mem_healthy (w\<lparr>entries := obj_set (entries w) k e\<rparr>)"
    "mem_lookup (w\<lparr>entries := obj_set (entries w) k e\<rparr>) = (mem_lookup w)(k := Some (me_value e))"
    "mem_members (w\<lparr>entries := obj_set (entries w) k e\<rparr>) = mem_members w"
  using assms by (auto simp add: mem_defs obj_wf_set fun_eq_iff split: option.splits)

lemma mem_set_done:
  assumes "mem_healthy w" "\<not> so_nx opts \<or> mem_lookup w k = None" "\<forall>t. so_ex opts = Some t \<longrightarrow> 0 < t"
  shows "\<exists>w'. mem_set k v opts w = (Inr True, w') \<and> mem_healthy w' \<and> mem_lookup w' = (mem_lookup w)(k := Some v)
     \<and> mem_members w' = mem_members w"
proof -
  obtain w1 where w1: "mem_set k v opts w = (Inr True, w1\<lparr>entries := obj_set (entries w1) k
        \<lparr>me_value = v, me_expires_at = map_option (\<lambda>t. clock w1 + t * 1000) (so_ex opts)\<rparr>\<rparr>)"
      "mem_healthy w1" "mem_lookup w1 = mem_lookup w" "mem_members w1 = mem_members w"
  proof (cases "so_nx opts")
    case True
    obtain e w1 where e: "mem_alive k w = (e, w1)" by fastforce
    with mem_alive_cases [OF assms(1), of k] True assms(2) show ?thesis
      by (intro that [of w1]) (auto simp: mem_set_def)
  next
    case False
    with assms(1) show ?thesis by (intro that [of w]) (auto simp: mem_set_def)
  qed
  have "\<not> expired (map_option (\<lambda>t. clock w1 + t * 1000) (so_ex opts)) (clock w1)"
    using assms(3) by (auto simp: expired_def split: option.splits)
  with w1 mem_write_entry [OF w1(2), of "\<lparr>me_value = v, me_expires_at = map_option (\<lambda>t. clock w1 + t * 1000) (so_ex opts)\<rparr>" k]
  show ?thesis by simp
qed

lemma mem_delete_both:
  "mem_healthy w \<Longrightarrow> mem_healthy (w\<lparr>entries := obj_delete (entries w) k, sets := obj_delete (sets w) k\<rparr>)
    \<and> mem_lookup (w\<lparr>entries := obj_delete (entries w) k, sets := obj_delete (sets w) k\<rparr>) = (mem_lookup w)(k := None)
    \<and> mem_members (w\<lparr>entries := obj_delete (entries w) k, sets := obj_delete (sets w) k\<rparr>) = (mem_members w)(k := {})"
  by (auto simp: mem_defs obj_wf_delete fun_eq_iff split: option.splits)

lemma mem_del_law:
  assumes "mem_healthy w"
  shows "\<exists>n w'. mem_del k w = (Inr n, w') \<and> mem_healthy w'
    \<and> mem_lookup w' = (mem_lookup w)(k := None) \<and> mem_members w' = (mem_members w)(k := {})"
proof -
  obtain e w1 where e: "mem_alive k w = (e, w1)" by fastforce
  have w1: "mem_healthy w1" "mem_lookup w1 = mem_lookup w" "mem_members w1 = mem_members w"
    using mem_alive_cases [OF assms, of k] e by auto
  obtain se w2 where se: "mem_alive_set k w1 = (se, w2)" by fastforce
  have w2: "mem_healthy w2" "mem_lookup w2 = mem_lookup w" "mem_members w2 = mem_members w"
    using mem_alive_set_cases [OF w1(1), of k] se w1 by auto
  show ?thesis
    using mem_delete_both [OF w1(1), of k] mem_delete_both [OF w2(1), of k] w1 w2 e se
    by (cases "e = None") (auto simp: mem_del_def)
qed

lemma mem_set_entry:
  assumes "mem_healthy w" "distinct (se_members e)" "\<not> expired (se_expires_at e) (clock w)"
  shows "mem_healthy (w\<lparr>sets := obj_set (sets w) k e\<rparr>)"
    "mem_lookup (w\<lparr>sets := obj_set (sets w) k e\<rparr>) = mem_lookup w"
    "mem_members (w\<lparr>sets := obj_set (sets w) k e\<rparr>) = (mem_members w)(k := set (se_members e))"
  using assms by (auto simp: mem_defs obj_wf_set fun_eq_iff split: option.splits)

lemma mem_delete_set:
  "mem_healthy w \<Longrightarrow> mem_healthy (w\<lparr>sets := obj_delete (sets w) k\<rparr>)
    \<and> mem_lookup (w\<lparr>sets := obj_delete (sets w) k\<rparr>) = mem_lookup w
    \<and> mem_members (w\<lparr>sets := obj_delete (sets w) k\<rparr>) = (mem_members w)(k := {})"
  by (auto simp: mem_defs obj_wf_delete fun_eq_iff split: option.splits)

lemma mem_sadd_law:
  assumes "mem_healthy w"
  shows "\<exists>n w'. mem_sadd k m w = (Inr n, w') \<and> mem_healthy w' \<and> mem_lookup w' = mem_lookup w
      \<and> mem_members w' = (mem_members w)(k := insert m (mem_members w k))"
proof -
  obtain found w1 where f: "mem_alive_set k w = (found, w1)" by fastforce
  note a = mem_alive_set_cases [OF assms, of k, unfolded f prod.case]
  define e where "e = (case found of Some e \<Rightarrow> e | None \<Rightarrow> \<lparr>se_members = [], se_expires_at = None\<rparr>)"
  have e: "distinct (se_members e)" "\<not> expired (se_expires_at e) (clock w1)" "set (se_members e) = mem_members w k"
    using a by (auto simp: e_def expired_def split: option.splits)
  let ?e' = "e\<lparr>se_members := (if m \<notin> set (se_members e) then se_members e @ [m] else se_members e)\<rparr>"
  have "mem_sadd k m w = (Inr (if m \<notin> set (se_members e) then 1 else 0), w1\<lparr>sets := obj_set (sets w1) k ?e'\<rparr>)"
    by (simp add: mem_sadd_def f e_def Let_def)
  moreover have "set (se_members ?e') = insert m (mem_members w k)" using e(3) by auto
  ultimately show ?thesis using mem_set_entry [of w1 ?e' k] a e by auto
qed

lemma mem_srem_law:
  assumes "mem_healthy w"
  shows "\<exists>n w'. mem_srem k m w = (Inr n, w') \<and> mem_healthy w' \<and> mem_lookup w' = mem_lookup w
      \<and> mem_members w' = (mem_members w)(k := mem_members w k - {m})"
proof -
  obtain found w1 where f: "mem_alive_set k w = (found, w1)" by fastforce
  note a = mem_alive_set_cases [OF assms, of k, unfolded f prod.case]
  show ?thesis
  proof (cases found)
    case None
    then show ?thesis using a f by (auto simp: mem_srem_def fun_eq_iff)
  next
    case (Some e)
    let ?rest = "filter (\<lambda>x. x \<noteq> m) (se_members e)"
    have rest: "set ?rest = mem_members w k - {m}" using a Some by auto
    show ?thesis
    proof (cases "?rest = []")
      case True
      have empty: "mem_members w k - {m} = {}" using rest True by (metis set_empty)
      have "mem_srem k m w = (Inr (if m \<in> set (se_members e) then 1 else 0), w1\<lparr>sets := obj_delete (sets w1) k\<rparr>)"
        using f Some True by (simp add: mem_srem_def Let_def)
      with mem_delete_set [of w1 k] a show ?thesis unfolding empty by simp
    next
      case False
      have "mem_srem k m w = (Inr (if m \<in> set (se_members e) then 1 else 0),
          w1\<lparr>sets := obj_set (sets w1) k (e\<lparr>se_members := ?rest\<rparr>)\<rparr>)"
        using f Some False by (simp add: mem_srem_def Let_def)
      moreover note mem_set_entry [of w1 "e\<lparr>se_members := ?rest\<rparr>" k]
      ultimately show ?thesis using a Some rest by auto
    qed
  qed
qed

lemma mem_smembers_law:
  "mem_healthy w \<Longrightarrow> \<exists>ms w'. mem_smembers k w = (Inr ms, w') \<and> set ms = mem_members w k \<and> distinct ms
    \<and> mem_healthy w' \<and> mem_lookup w' = mem_lookup w \<and> mem_members w' = mem_members w"
  using mem_alive_set_cases [of w k] by (auto simp: mem_smembers_def split: prod.splits option.splits)

lemma mem_expire_law:
  assumes "mem_healthy w" "0 < t"
  shows "\<exists>w'. mem_expire k t w = (Inr (), w') \<and> mem_healthy w' \<and> mem_lookup w' = mem_lookup w \<and> mem_members w' = mem_members w"
proof -
  have later: "\<not> expired (Some (clock w + t * 1000)) (clock w)" using assms(2) by (simp add: expired_def)
  obtain e w1 where e: "mem_alive k w = (e, w1)" by fastforce
  note a = mem_alive_cases [OF assms(1), of k, unfolded e prod.case]
  define w2 where "w2 = (case e of Some e \<Rightarrow> w1\<lparr>entries := obj_set (entries w1) k (e\<lparr>me_expires_at := Some (clock w + t * 1000)\<rparr>)\<rparr> | None \<Rightarrow> w1)"
  have w2': "mem_healthy w2 \<and> mem_lookup w2 = mem_lookup w \<and> mem_members w2 = mem_members w \<and> clock w2 = clock w"
  proof (cases e)
    case (Some x)
    then have "mem_lookup w k = Some (me_value x)" using a by (metis option.simps(9))
    with Some a later mem_write_entry [of w1 "x\<lparr>me_expires_at := Some (clock w + t * 1000)\<rparr>" k]
    show ?thesis by (auto simp: w2_def fun_eq_iff)
  qed (use a in \<open>simp add: w2_def\<close>)
  then have w2: "mem_healthy w2" "mem_lookup w2 = mem_lookup w" "mem_members w2 = mem_members w" "clock w2 = clock w"
    by simp_all
  obtain se w3 where se: "mem_alive_set k w2 = (se, w3)" by fastforce
  note b = mem_alive_set_cases [OF w2(1), of k, unfolded se prod.case]
  define w4 where "w4 = (case se of Some e \<Rightarrow> w3\<lparr>sets := obj_set (sets w3) k (e\<lparr>se_expires_at := Some (clock w + t * 1000)\<rparr>)\<rparr> | None \<Rightarrow> w3)"
  have w4: "mem_healthy w4 \<and> mem_lookup w4 = mem_lookup w \<and> mem_members w4 = mem_members w"
  proof (cases se)
    case (Some x)
    then have "mem_members w k = set (se_members x)" using b w2 by simp
    with Some b w2 later mem_set_entry [of w3 "x\<lparr>se_expires_at := Some (clock w + t * 1000)\<rparr>" k]
    show ?thesis by (auto simp: w4_def fun_eq_iff)
  qed (use b w2 in \<open>simp add: w4_def\<close>)
  have "mem_expire k t w = (Inr (), w4)"
    by (simp add: mem_expire_def e se w4_def [symmetric] w2_def [symmetric] Let_def)
  with w4 show ?thesis by blast
qed

interpretation memory: redis_like create_memory_redis mem_healthy mem_lookup mem_members
  by unfold_locales
    (simp_all add: create_memory_redis_def mem_get_law mem_set_skipped mem_set_done mem_del_law
      mem_sadd_law mem_srem_law mem_smembers_law mem_expire_law)

end
