(* ===== verification/Stores.thy ===== *)
theory Stores
  imports Session Redis
begin

section \<open>Session stores (\<open>sdk/src/server/store/types.ts\<close>, \<open>cookie.ts\<close>, \<open>valkey.ts\<close>)\<close>

text \<open>
  The store interface the handlers and the proxy share, as a record of operations over the
  surrounding state \<open>'s\<close> (\<open>'t\<close> is the result type of a locked refresh), its contract as the
  locales \<open>session_store\<close> and \<open>revocable_store\<close>, and the two implementations with their
  interpretations: the cookie-only store over the seal, and the Valkey store over a Redis client
  (here the in-process one) and the seal.
\<close>

record ('s, 't) session_store =
  st_read :: "string \<Rightarrow> ('s, bff_session option) io"
  st_write :: "bff_session \<Rightarrow> ('s, string) io"
  st_destroy :: "string \<Rightarrow> ('s, unit) io"
  st_with_refresh_lock :: "string \<Rightarrow> ('s, 't) io \<Rightarrow> ('s, 't option) io"
  st_revoke_by_sid :: "(string \<Rightarrow> ('s, bff_session list) io) option"
  st_revoke_by_subject :: "(string \<Rightarrow> ('s, bff_session list) io) option"
  st_claim_namespace :: "(string \<Rightarrow> ('s, string option) io) option"

subsection \<open>The cookie store\<close>

record cookie_store_options =
  co_password :: cookie_secret
  co_ttl_seconds :: "int option"

definition cookie_ttl_ms :: "cookie_store_options \<Rightarrow> int" where
  "cookie_ttl_ms opts =
     (case co_ttl_seconds opts of Some t \<Rightarrow> t | None \<Rightarrow> default_session_ttl_seconds) * ms_per_second"

text \<open>
  The refreshes in flight, each by the outcome its promise settles with: a map of the process,
  beside those of the in-process Redis.
\<close>

record 't cookie_world = memory_world +
  refresh_locks :: "(string \<times> (thrown + 't)) list"

definition cookie_read :: "'s iron \<Rightarrow> cookie_store_options \<Rightarrow> string \<Rightarrow> ('s, bff_session option) io" where
  "cookie_read iron opts ref = unseal_session iron ref (co_password opts) (cookie_ttl_ms opts)"

definition cookie_write :: "'s iron \<Rightarrow> cookie_store_options \<Rightarrow> bff_session \<Rightarrow> ('s, string) io" where
  "cookie_write iron opts session = seal_session iron session (co_password opts) (cookie_ttl_ms opts)"

definition cookie_destroy :: "string \<Rightarrow> ('s, unit) io" where
  "cookie_destroy ref = io_return ()"

text \<open>
  A caller that finds a refresh in flight joins it; otherwise it runs its own, which is in the
  map until it settles and is removed then, if it is still the one there.
\<close>

definition cookie_with_refresh_lock ::
    "string \<Rightarrow> (('t, 'z) cookie_world_scheme, 't) io \<Rightarrow> (('t, 'z) cookie_world_scheme, 't option) io" where
  "cookie_with_refresh_lock ref fn w =
     (case obj_get (refresh_locks w) ref of
        Some in_flight \<Rightarrow> (map_sum id Some in_flight, w)
      | None \<Rightarrow>
          (let (run, w1) = fn w;
               w2 = w1\<lparr>refresh_locks := obj_set (refresh_locks w1) ref run\<rparr> in
           (map_sum id Some run, w2\<lparr>refresh_locks := obj_delete (refresh_locks w2) ref\<rparr>)))"

definition cookie_store ::
    "('t, 'z) cookie_world_scheme iron \<Rightarrow> cookie_store_options \<Rightarrow> (('t, 'z) cookie_world_scheme, 't) session_store" where
  "cookie_store iron opts =
     \<lparr>st_read = cookie_read iron opts, st_write = cookie_write iron opts, st_destroy = cookie_destroy,
      st_with_refresh_lock = cookie_with_refresh_lock, st_revoke_by_sid = None,
      st_revoke_by_subject = None, st_claim_namespace = None\<rparr>"

subsection \<open>The Valkey store\<close>

record 's valkey_options =
  vo_client :: "'s redis_like"
  vo_password :: cookie_secret
  vo_ttl_seconds :: "int option"
  vo_lock_ttl_seconds :: "int option"
  vo_key_prefix :: "string option"

record 's valkey =
  client :: "'s redis_like"
  password :: cookie_secret
  ttl_seconds :: int
  lock_ttl_seconds :: int
  key_prefix :: string

definition default_ttl_seconds :: int where "default_ttl_seconds = 86400"
definition default_lock_ttl_seconds :: int where "default_lock_ttl_seconds = 10"
definition session_id_bytes :: nat where "session_id_bytes = 24"
definition default_key_prefix :: string where "default_key_prefix = ''wallow''"

definition new_valkey :: "'s valkey_options \<Rightarrow> 's valkey" where
  "new_valkey opts =
     \<lparr>client = vo_client opts, password = vo_password opts,
      ttl_seconds = (case vo_ttl_seconds opts of Some t \<Rightarrow> t | None \<Rightarrow> default_ttl_seconds),
      lock_ttl_seconds = (case vo_lock_ttl_seconds opts of Some t \<Rightarrow> t | None \<Rightarrow> default_lock_ttl_seconds),
      key_prefix = (case vo_key_prefix opts of Some p \<Rightarrow> p | None \<Rightarrow> default_key_prefix)\<rparr>"

definition session_key :: "'s valkey \<Rightarrow> string \<Rightarrow> string" where
  "session_key v i = key_prefix v @ '':session:'' @ i"
definition lock_key :: "'s valkey \<Rightarrow> string \<Rightarrow> string" where
  "lock_key v i = key_prefix v @ '':refreshlock:'' @ i"
definition sid_key :: "'s valkey \<Rightarrow> string \<Rightarrow> string" where
  "sid_key v i = key_prefix v @ '':sid:'' @ i"
definition subject_key :: "'s valkey \<Rightarrow> string \<Rightarrow> string" where
  "subject_key v i = key_prefix v @ '':sub:'' @ i"
definition owner_key :: "'s valkey \<Rightarrow> string" where
  "owner_key v = key_prefix v @ '':owner''"

lemmas key_defs = session_key_def lock_key_def sid_key_def subject_key_def owner_key_def

definition ex_option :: "int \<Rightarrow> set_options" where "ex_option t = \<lparr>so_ex = Some t, so_nx = False\<rparr>"
definition nx_option :: "int \<Rightarrow> set_options" where "nx_option t = \<lparr>so_ex = Some t, so_nx = True\<rparr>"

text \<open>One claim round: \<open>None\<close> is \<open>CONTEND\<close>, the outer \<open>Some\<close> carries the answer.\<close>

definition attempt_claim :: "'s valkey \<Rightarrow> string \<Rightarrow> string \<Rightarrow> ('s, string option option) io" where
  "attempt_claim v key owner =
     io_bind (rl_set (client v) key owner (nx_option (ttl_seconds v))) (\<lambda>claimed.
     if claimed then io_return (Some None)
     else io_bind (rl_get (client v) key) (\<lambda>standing.
       if standing = Some owner
       then io_bind (rl_set (client v) key owner (ex_option (ttl_seconds v))) (\<lambda>_. io_return (Some None))
       else io_return (case standing of Some rival \<Rightarrow> Some (Some rival) | None \<Rightarrow> None)))"

definition claim_namespace :: "'s valkey \<Rightarrow> string \<Rightarrow> ('s, string option) io" where
  "claim_namespace v owner =
     io_bind (attempt_claim v (owner_key v) owner) (\<lambda>first.
     case first of
       Some answer \<Rightarrow> io_return answer
     | None \<Rightarrow>
         io_bind (attempt_claim v (owner_key v) owner) (\<lambda>second.
           io_return (case second of None \<Rightarrow> None | Some answer \<Rightarrow> answer)))"

definition ref_to_id :: "'s iron \<Rightarrow> 's valkey \<Rightarrow> string \<Rightarrow> ('s, string option) io" where
  "ref_to_id iron v ref =
     io_catch
       (io_bind (iron_unseal iron ref (unseal_password_of (password v)) None)
          (\<lambda>result. io_return (as_string result)))
       (\<lambda>_. io_return None)"

text \<open>\<open>JSON.parse(raw) as BffSession\<close>, \<open>null\<close> when it throws.\<close>

definition parse_record :: "string \<Rightarrow> bff_session option" where
  "parse_record raw = (case json_parse raw of Some j \<Rightarrow> session_of_json j | None \<Rightarrow> None)"

definition valkey_read :: "'s iron \<Rightarrow> 's valkey \<Rightarrow> string \<Rightarrow> ('s, bff_session option) io" where
  "valkey_read iron v ref =
     io_bind (ref_to_id iron v ref) (\<lambda>i.
     case i of
       None \<Rightarrow> io_return None
     | Some i \<Rightarrow> io_bind (rl_get (client v) (session_key v i)) (\<lambda>raw.
         io_return (case raw of None \<Rightarrow> None | Some r \<Rightarrow> parse_record r)))"

definition valkey_write ::
    "'s iron \<Rightarrow> (nat \<Rightarrow> 's \<Rightarrow> nat list \<times> 's) \<Rightarrow> 's valkey \<Rightarrow> bff_session \<Rightarrow> ('s, string) io" where
  "valkey_write iron random v session =
     io_bind (if session_id session \<noteq> '''' then io_return (session_id session)
              else io_lift (random_url_safe random session_id_bytes)) (\<lambda>i.
     let record' = session\<lparr>session_id := i\<rparr> in
     io_bind (rl_set (client v) (session_key v i) (json_print (session_to_json record')) (ex_option (ttl_seconds v))) (\<lambda>_.
     io_bind (case sid record' of
                Some s \<Rightarrow> io_bind (rl_set (client v) (sid_key v s) i (ex_option (ttl_seconds v))) (\<lambda>_. io_return ())
              | None \<Rightarrow> io_return ()) (\<lambda>_.
     io_bind (rl_sadd (client v) (subject_key v (user_sub (user record'))) i) (\<lambda>_.
     io_bind (rl_expire (client v) (subject_key v (user_sub (user record'))) (ttl_seconds v)) (\<lambda>_.
     seal_with iron (JStr i) (password v) None)))))"

definition destroy_record :: "'s valkey \<Rightarrow> string \<Rightarrow> ('s, bff_session option) io" where
  "destroy_record v i =
     io_bind (rl_get (client v) (session_key v i)) (\<lambda>raw.
     let record' = (case raw of Some r \<Rightarrow> parse_record r | None \<Rightarrow> None) in
     io_bind (rl_del (client v) (session_key v i)) (\<lambda>_.
     io_bind (case record' of
                None \<Rightarrow> io_return ()
              | Some b \<Rightarrow>
                  io_bind (case sid b of
                             Some s \<Rightarrow> io_bind (rl_del (client v) (sid_key v s)) (\<lambda>_. io_return ())
                           | None \<Rightarrow> io_return ()) (\<lambda>_.
                  io_bind (rl_srem (client v) (subject_key v (user_sub (user b))) i) (\<lambda>_. io_return ()))) (\<lambda>_.
     io_return record')))"

definition valkey_destroy :: "'s iron \<Rightarrow> 's valkey \<Rightarrow> string \<Rightarrow> ('s, unit) io" where
  "valkey_destroy iron v ref =
     io_bind (ref_to_id iron v ref) (\<lambda>i.
     case i of
       None \<Rightarrow> io_return ()
     | Some i \<Rightarrow> io_bind (destroy_record v i) (\<lambda>_. io_return ()))"

definition revoke_by_sid :: "'s valkey \<Rightarrow> string \<Rightarrow> ('s, bff_session list) io" where
  "revoke_by_sid v s =
     io_bind (rl_get (client v) (sid_key v s)) (\<lambda>i.
     case i of
       None \<Rightarrow> io_return []
     | Some i \<Rightarrow>
         io_bind (destroy_record v i) (\<lambda>record'.
         io_bind (rl_del (client v) (sid_key v s)) (\<lambda>_.
         io_return (case record' of None \<Rightarrow> [] | Some b \<Rightarrow> [b]))))"

text \<open>The members are destroyed one after the other, one of the orders \<open>Promise.all\<close> allows.\<close>

definition revoke_by_subject :: "'s valkey \<Rightarrow> string \<Rightarrow> ('s, bff_session list) io" where
  "revoke_by_subject v sub =
     io_bind (rl_smembers (client v) (subject_key v sub)) (\<lambda>ids.
     io_bind (io_map_list (\<lambda>i.
         io_bind (destroy_record v i) (\<lambda>record'.
         if record' = None
         then io_bind (rl_srem (client v) (subject_key v sub) i) (\<lambda>_. io_return record')
         else io_return record')) ids) (\<lambda>records.
     io_return (List.map_filter (\<lambda>r. r) records)))"

definition valkey_with_refresh_lock ::
    "'s iron \<Rightarrow> 's valkey \<Rightarrow> string \<Rightarrow> ('s, 't) io \<Rightarrow> ('s, 't option) io" where
  "valkey_with_refresh_lock iron v ref fn =
     io_bind (ref_to_id iron v ref) (\<lambda>i.
     case i of
       None \<Rightarrow> io_return None
     | Some i \<Rightarrow>
         io_bind (rl_set (client v) (lock_key v i) ''1'' (nx_option (lock_ttl_seconds v))) (\<lambda>acquired.
         if \<not> acquired then io_return None
         else io_finally (io_bind fn (\<lambda>t. io_return (Some t))) (rl_del (client v) (lock_key v i))))"

definition valkey_store ::
    "'s iron \<Rightarrow> (nat \<Rightarrow> 's \<Rightarrow> nat list \<times> 's) \<Rightarrow> 's valkey \<Rightarrow> ('s, 't) session_store" where
  "valkey_store iron random v =
     \<lparr>st_read = valkey_read iron v, st_write = valkey_write iron random v,
      st_destroy = valkey_destroy iron v, st_with_refresh_lock = valkey_with_refresh_lock iron v,
      st_revoke_by_sid = Some (revoke_by_sid v), st_revoke_by_subject = Some (revoke_by_subject v),
      st_claim_namespace = Some (claim_namespace v)\<rparr>"

subsection \<open>The contract of a session store\<close>

text \<open>
  \<open>bound s ref\<close> is the session a reference resolves to. Every store answers a reference with the
  session it is bound to, binds what it writes, and survives a destroy; a revocable store, which
  keeps the session itself, resolves a destroyed reference to nothing.
\<close>

locale session_store =
  fixes store :: "('s, 't) session_store"
    and good :: "'s \<Rightarrow> bool"
    and storable :: "bff_session \<Rightarrow> bool"
    and bound :: "'s \<Rightarrow> string \<Rightarrow> bff_session option"
  assumes read_law: "good s \<Longrightarrow> \<exists>s'. st_read store ref s = (Inr (bound s ref), s') \<and> good s' \<and> bound s' = bound s"
    and write_law: "good s \<Longrightarrow> storable b \<Longrightarrow>
      \<exists>ref s'. st_write store b s = (Inr ref, s') \<and> good s' \<and> bound s' ref = Some b"
    and destroy_law: "good s \<Longrightarrow> \<exists>s'. st_destroy store ref s = (Inr (), s') \<and> good s'"

locale revocable_store = session_store +
  assumes revoked: "good s \<Longrightarrow> st_destroy store ref s = (Inr (), s') \<Longrightarrow> bound s' ref = None"

context session_store
begin

text \<open>What was written is read, and reading twice answers the same.\<close>

lemma write_read:
  assumes "good s" "storable b" "st_write store b s = (Inr ref, s1)"
  shows "\<exists>s2. st_read store ref s1 = (Inr (Some b), s2) \<and> good s2 \<and> bound s2 = bound s1"
proof -
  obtain ref' s' where "st_write store b s = (Inr ref', s')" "good s'" "bound s' ref' = Some b"
    using write_law [OF assms(1,2)] by blast
  with assms(3) have "good s1" "bound s1 ref = Some b" by auto
  with read_law [of s1 ref] show ?thesis by auto
qed

lemma read_stable:
  assumes "good s" "st_read store ref s = (Inr r, s1)"
  shows "\<exists>s2. st_read store ref s1 = (Inr r, s2)"
proof -
  obtain s' where "st_read store ref s = (Inr (bound s ref), s')" "good s'" "bound s' = bound s"
    using read_law [OF assms(1)] by blast
  with assms(2) have "r = bound s1 ref" "good s1" by auto
  with read_law [of s1 ref] show ?thesis by auto
qed

end

context revocable_store
begin

lemma destroyed_reads_nothing:
  assumes "good s" "st_destroy store ref s = (Inr (), s1)"
  shows "\<exists>s2. st_read store ref s1 = (Inr None, s2)"
proof -
  have "good s1" using destroy_law [OF assms(1), of ref] assms(2) by auto
  with read_law [of s1 ref] revoked [OF assms] show ?thesis by auto
qed

end

subsection \<open>What the stores rely on of the seal\<close>

text \<open>
  The documented behaviour of the seal, for the seals without a lifetime: a seal made under the
  configured secret opens to the value it was made from, in every later state, and neither
  operation touches the store's data (\<open>same\<close>). \<open>opens\<close> is the opening of each text.
\<close>

definition timeless_seal ::
    "'s iron \<Rightarrow> cookie_secret \<Rightarrow> ('s \<Rightarrow> 's \<Rightarrow> bool) \<Rightarrow> (string \<Rightarrow> json option) \<Rightarrow> bool" where
  "timeless_seal iron secret same opens \<longleftrightarrow>
     (\<forall>t s. case opens t of
        Some j \<Rightarrow> iron_unseal iron t (unseal_password_of secret) None s = (Inr j, s)
      | None \<Rightarrow> (\<exists>e. iron_unseal iron t (unseal_password_of secret) None s = (Inl e, s)))
   \<and> (\<forall>j s. json_ok j \<longrightarrow>
        (\<exists>t s'. seal_with iron j secret None s = (Inr t, s') \<and> same s s' \<and> opens t = Some j))"

text \<open>
  For the seals with a lifetime: what a text opens to depends on the clock, and a seal opens for
  at least the lifetime it was made with.
\<close>

definition timed_seal ::
    "'s iron \<Rightarrow> cookie_secret \<Rightarrow> int \<Rightarrow> ('s \<Rightarrow> int) \<Rightarrow> (int \<Rightarrow> string \<Rightarrow> json option) \<Rightarrow> bool" where
  "timed_seal iron secret ttl now opens \<longleftrightarrow>
     (\<forall>t s. case opens (now s) t of
        Some j \<Rightarrow> iron_unseal iron t (unseal_password_of secret) (Some ttl) s = (Inr j, s)
      | None \<Rightarrow> (\<exists>e. iron_unseal iron t (unseal_password_of secret) (Some ttl) s = (Inl e, s)))
   \<and> (\<forall>j s. json_ok j \<longrightarrow>
        (\<exists>t s'. seal_with iron j secret (Some ttl) s = (Inr t, s') \<and> now s' = now s
          \<and> (\<forall>n. now s \<le> n \<and> n < now s + ttl \<longrightarrow> opens n t = Some j)))"

lemma timeless_case:
  assumes "timeless_seal iron secret same opens"
  shows "case opens t of
        Some j \<Rightarrow> iron_unseal iron t (unseal_password_of secret) None s = (Inr j, s)
      | None \<Rightarrow> (\<exists>e. iron_unseal iron t (unseal_password_of secret) None s = (Inl e, s))"
  using assms unfolding timeless_seal_def by (elim conjE allE)

lemma timeless_unseal:
  assumes "timeless_seal iron secret same opens" "password v = secret"
  shows "ref_to_id iron v ref s = (Inr (case opens ref of Some j \<Rightarrow> as_string j | None \<Rightarrow> None), s)"
  using timeless_case [OF assms(1), of ref s] assms(2)
  by (cases "opens ref") (auto simp: ref_to_id_def io_simps)

lemma timeless_seals:
  assumes "timeless_seal iron secret same opens" "json_ok j"
  obtains t s' where "seal_with iron j secret None s = (Inr t, s')" "same s s'" "opens t = Some j"
  using assms unfolding timeless_seal_def by blast

subsection \<open>The cookie store keeps the contract\<close>

definition cookie_good :: "'s iron \<Rightarrow> cookie_store_options \<Rightarrow> ('s \<Rightarrow> int) \<Rightarrow> (int \<Rightarrow> string \<Rightarrow> json option) \<Rightarrow> 's \<Rightarrow> bool" where
  "cookie_good iron opts now opens s \<longleftrightarrow>
     timed_seal iron (co_password opts) (cookie_ttl_ms opts) now opens \<and> 0 < cookie_ttl_ms opts"

definition cookie_bound :: "('s \<Rightarrow> int) \<Rightarrow> (int \<Rightarrow> string \<Rightarrow> json option) \<Rightarrow> 's \<Rightarrow> string \<Rightarrow> bff_session option" where
  "cookie_bound now opens s ref = (case opens (now s) ref of Some j \<Rightarrow> session_of_json j | None \<Rightarrow> None)"

lemma timed_case:
  assumes "timed_seal iron secret ttl now opens"
  shows "case opens (now s) t of
        Some j \<Rightarrow> iron_unseal iron t (unseal_password_of secret) (Some ttl) s = (Inr j, s)
      | None \<Rightarrow> (\<exists>e. iron_unseal iron t (unseal_password_of secret) (Some ttl) s = (Inl e, s))"
  using assms unfolding timed_seal_def by (elim conjE allE)

lemma cookie_read_law:
  assumes "cookie_good iron opts now opens s"
  shows "cookie_read iron opts ref s = (Inr (cookie_bound now opens s ref), s)"
  using timed_case [of iron "co_password opts" "cookie_ttl_ms opts" now opens ref s] assms
  by (cases "opens (now s) ref")
    (auto simp: cookie_good_def cookie_read_def unseal_session_def io_simps cookie_bound_def)

lemma cookie_write_law:
  assumes "cookie_good iron opts now opens s" "session_ok b"
  shows "\<exists>ref s'. cookie_write iron opts b s = (Inr ref, s') \<and> now s' = now s
    \<and> (\<forall>n. now s \<le> n \<and> n < now s + cookie_ttl_ms opts \<longrightarrow> opens n ref = Some (session_to_json b))"
  using assms session_to_json_ok [OF assms(2)] unfolding cookie_good_def timed_seal_def cookie_write_def seal_session_def by blast

interpretation cookie: session_store "cookie_store iron opts" "cookie_good iron opts now opens"
  session_ok "cookie_bound now opens"
  for iron opts now opens
proof unfold_locales
  fix s ref
  assume good: "cookie_good iron opts now opens s"
  then show "\<exists>s'. st_read (cookie_store iron opts) ref s = (Inr (cookie_bound now opens s ref), s')
      \<and> cookie_good iron opts now opens s' \<and> cookie_bound now opens s' = cookie_bound now opens s"
    by (simp add: cookie_store_def cookie_read_law)
next
  fix s and b :: bff_session
  assume good: "cookie_good iron opts now opens s" and ok: "session_ok b"
  obtain ref s' where w: "cookie_write iron opts b s = (Inr ref, s')" "now s' = now s"
      "\<forall>n. now s \<le> n \<and> n < now s + cookie_ttl_ms opts \<longrightarrow> opens n ref = Some (session_to_json b)"
    using cookie_write_law [OF good ok] by blast
  then have "cookie_bound now opens s' ref = Some b"
    using good by (simp add: cookie_bound_def cookie_good_def session_json_round_trip)
  with w good show "\<exists>ref s'. st_write (cookie_store iron opts) b s = (Inr ref, s')
      \<and> cookie_good iron opts now opens s' \<and> cookie_bound now opens s' ref = Some b"
    by (auto simp: cookie_store_def cookie_good_def)
next
  fix s ref
  assume "cookie_good iron opts now opens s"
  then show "\<exists>s'. st_destroy (cookie_store iron opts) ref s = (Inr (), s') \<and> cookie_good iron opts now opens s'"
    by (simp add: cookie_store_def cookie_destroy_def io_simps)
qed


subsection \<open>The Valkey store on a healthy server\<close>

text \<open>
  The session a store id stands for in the server's data, the invariant that a subject's set
  lists every live session of the subject, and what keeps both.
\<close>

definition live_session :: "'s valkey \<Rightarrow> (string \<Rightarrow> string option) \<Rightarrow> string \<Rightarrow> bff_session option" where
  "live_session v strings i = (case strings (session_key v i) of Some r \<Rightarrow> parse_record r | None \<Rightarrow> None)"

definition indexed :: "'s valkey \<Rightarrow> (string \<Rightarrow> string option) \<Rightarrow> (string \<Rightarrow> string set) \<Rightarrow> bool" where
  "indexed v m idx \<longleftrightarrow>
     (\<forall>i b. live_session v m i = Some b \<longrightarrow> i \<in> idx (subject_key v (user_sub (user b))))"

definition keeps :: "('s \<Rightarrow> bool) \<Rightarrow> ('s \<Rightarrow> string \<Rightarrow> string option) \<Rightarrow> ('s \<Rightarrow> string \<Rightarrow> string set) \<Rightarrow> 's \<Rightarrow> 's \<Rightarrow> bool" where
  "keeps healthy lookup members s s' \<longleftrightarrow>
     (healthy s \<longrightarrow> healthy s') \<and> lookup s' = lookup s \<and> members s' = members s"

definition ref_id :: "(string \<Rightarrow> json option) \<Rightarrow> string \<Rightarrow> string option" where
  "ref_id opens ref = (case opens ref of Some j \<Rightarrow> as_string j | None \<Rightarrow> None)"

definition valkey_bound ::
    "'s valkey \<Rightarrow> (string \<Rightarrow> json option) \<Rightarrow> ('s \<Rightarrow> string \<Rightarrow> string option) \<Rightarrow> 's \<Rightarrow> string \<Rightarrow> bff_session option" where
  "valkey_bound v opens lookup s ref =
     (case ref_id opens ref of Some i \<Rightarrow> live_session v (lookup s) i | None \<Rightarrow> None)"

definition valkey_storable :: "bff_session \<Rightarrow> bool" where
  "valkey_storable b \<longleftrightarrow> session_ok b \<and> session_id b \<noteq> ''''"

lemma key_simps [simp]:
  "session_key v i = session_key v j \<longleftrightarrow> i = j" "lock_key v i = lock_key v j \<longleftrightarrow> i = j"
  "sid_key v i = sid_key v j \<longleftrightarrow> i = j" "subject_key v i = subject_key v j \<longleftrightarrow> i = j"
  "session_key v i \<noteq> lock_key v j" "lock_key v j \<noteq> session_key v i"
  "session_key v i \<noteq> sid_key v j" "sid_key v j \<noteq> session_key v i"
  "session_key v i \<noteq> subject_key v j" "subject_key v j \<noteq> session_key v i"
  "lock_key v i \<noteq> sid_key v j" "sid_key v j \<noteq> lock_key v i"
  "lock_key v i \<noteq> subject_key v j" "subject_key v j \<noteq> lock_key v i"
  "sid_key v i \<noteq> subject_key v j" "subject_key v j \<noteq> sid_key v i"
  by (auto simp: key_defs)

lemma parse_record_print: "session_ok b \<Longrightarrow> parse_record (json_print (session_to_json b)) = Some b"
  by (simp add: parse_record_def json_parse_print session_to_json_ok session_json_round_trip)

lemma live_session_other [simp]:
  "live_session v (m(sid_key v s := x)) i = live_session v m i"
  "live_session v (m(lock_key v s := x)) i = live_session v m i"
  "live_session v (m(subject_key v s := x)) i = live_session v m i"
  by (simp_all add: live_session_def)

lemma live_session_del [simp]:
  "live_session v (m(session_key v j := None)) i = (if i = j then None else live_session v m i)"
  by (simp add: live_session_def)

lemma live_session_put:
  "session_ok b \<Longrightarrow> live_session v (m(session_key v j := Some (json_print (session_to_json b)))) i =
     (if i = j then Some b else live_session v m i)"
  by (simp add: live_session_def parse_record_print)

lemma timeless_ref_to_id:
  "timeless_seal iron secret same opens \<Longrightarrow> password v = secret \<Longrightarrow>
    ref_to_id iron v ref s = (Inr (ref_id opens ref), s)"
  by (simp add: timeless_unseal ref_id_def)

lemma valkey_bound_cong:
  "lookup s' = lookup s \<Longrightarrow> valkey_bound v opens lookup s' = valkey_bound v opens lookup s"
  by (rule ext) (simp add: valkey_bound_def split: option.split)

lemma set_somes: "set (List.map_filter (\<lambda>r. r) (map g xs)) = {b. \<exists>x \<in> set xs. g x = Some b}"
  by (induction xs) (auto simp: List.map_filter_simps split: option.splits)

lemma with_session_id: "session_id b = i \<Longrightarrow> b\<lparr>session_id := i\<rparr> = b"
  by (cases b) simp

context redis_like
begin

lemma valkey_read_law:
  assumes "timeless_seal iron (password v) same opens" "client v = redis" "healthy s"
  shows "\<exists>s'. valkey_read iron v ref s = (Inr (valkey_bound v opens lookup s ref), s')
    \<and> healthy s' \<and> lookup s' = lookup s \<and> members s' = members s"
proof (cases "ref_id opens ref")
  case None
  with assms show ?thesis
    by (simp add: valkey_read_def timeless_ref_to_id [OF assms(1)] io_simps valkey_bound_def)
next
  case (Some i)
  obtain s1 where "rl_get redis (session_key v i) s = (Inr (lookup s (session_key v i)), s1)" "healthy s1"
      "lookup s1 = lookup s" "members s1 = members s"
    using get [OF assms(3)] by blast
  with Some assms(2) show ?thesis
    by (simp add: valkey_read_def timeless_ref_to_id [OF assms(1)] io_simps valkey_bound_def live_session_def)
qed

lemma valkey_write_law:
  assumes seal: "timeless_seal iron (password v) (keeps healthy lookup members) opens"
    and client: "client v = redis" and ttl: "0 < ttl_seconds v"
    and healthy: "healthy s" and b: "valkey_storable b"
  obtains ref s' where "valkey_write iron random v b s = (Inr ref, s')" "healthy s'"
    "ref_id opens ref = Some (session_id b)"
    "lookup s' = (case sid b of None \<Rightarrow> id | Some x \<Rightarrow> (\<lambda>m. m(sid_key v x \<mapsto> session_id b)))
       ((lookup s)(session_key v (session_id b) \<mapsto> json_print (session_to_json b)))"
    "members s' = (members s)(subject_key v (user_sub (user b)) :=
       insert (session_id b) (members s (subject_key v (user_sub (user b)))))"
proof -
  let ?i = "session_id b"
  have ok: "session_ok b" and i: "?i \<noteq> ''''" using b by (simp_all add: valkey_storable_def)
  have ex: "\<forall>t. so_ex (ex_option (ttl_seconds v)) = Some t \<longrightarrow> 0 < t" "\<not> so_nx (ex_option (ttl_seconds v))"
    using ttl by (simp_all add: ex_option_def)
  obtain s1 where s1: "rl_set redis (session_key v ?i) (json_print (session_to_json b)) (ex_option (ttl_seconds v)) s = (Inr True, s1)"
      "healthy s1" "lookup s1 = (lookup s)(session_key v ?i \<mapsto> json_print (session_to_json b))" "members s1 = members s"
    using set_done [OF healthy disjI1 [OF ex(2)] ex(1)] by blast
  define index where "index = (case sid b of
      Some x \<Rightarrow> io_bind (rl_set (client v) (sid_key v x) ?i (ex_option (ttl_seconds v))) (\<lambda>_. io_return ())
    | None \<Rightarrow> io_return ())"
  obtain s2 where s2: "index s1 = (Inr (), s2)" "healthy s2" "members s2 = members s1"
      "lookup s2 = (case sid b of None \<Rightarrow> id | Some x \<Rightarrow> (\<lambda>m. m(sid_key v x \<mapsto> ?i))) (lookup s1)"
  proof (cases "sid b")
    case None
    with s1 that [of s1] show ?thesis by (simp add: index_def io_simps)
  next
    case (Some x)
    obtain s2 where "rl_set redis (sid_key v x) ?i (ex_option (ttl_seconds v)) s1 = (Inr True, s2)"
      "healthy s2" "lookup s2 = (lookup s1)(sid_key v x \<mapsto> ?i)" "members s2 = members s1"
      using set_done [OF s1(2) disjI1 [OF ex(2)] ex(1)] by blast
    with Some client that [of s2] show ?thesis by (simp add: index_def io_simps)
  qed
  obtain n s3 where s3: "rl_sadd redis (subject_key v (user_sub (user b))) ?i s2 = (Inr n, s3)" "healthy s3"
      "lookup s3 = lookup s2" "members s3 = (members s2)(subject_key v (user_sub (user b)) :=
        insert ?i (members s2 (subject_key v (user_sub (user b)))))"
    using sadd [OF s2(2)] by blast
  obtain s4 where s4: "rl_expire redis (subject_key v (user_sub (user b))) (ttl_seconds v) s3 = (Inr (), s4)" "healthy s4"
      "lookup s4 = lookup s3" "members s4 = members s3"
    using expire [OF s3(2) ttl] by blast
  obtain t s5 where s5: "seal_with iron (JStr ?i) (password v) None s4 = (Inr t, s5)"
      "keeps healthy lookup members s4 s5" "opens t = Some (JStr ?i)"
    using timeless_seals [OF seal, of "JStr ?i" s4] by auto
  have "valkey_write iron random v b s = (Inr t, s5)"
    using i s1(1) s2(1) s3(1) s4(1) s5(1) client
    by (simp add: valkey_write_def io_simps with_session_id Let_def index_def)
  moreover have "healthy s5" "lookup s5 = lookup s4" "members s5 = members s4"
    using s5(2) s4(2) by (simp_all add: keeps_def)
  moreover have "ref_id opens t = Some ?i" using s5(3) by (simp add: ref_id_def)
  ultimately show ?thesis using that [of t s5] s1 s2 s3 s4 by simp
qed

end


context redis_like
begin

lemma destroy_record_law:
  assumes client: "client v = redis" and healthy: "healthy s"
  obtains s' where "destroy_record v i s = (Inr (live_session v (lookup s) i), s')" "healthy s'"
    "lookup s' = (\<lambda>k. if k = session_key v i
        \<or> (\<exists>b x. live_session v (lookup s) i = Some b \<and> sid b = Some x \<and> k = sid_key v x) then None else lookup s k)"
    "\<forall>u. members s' (subject_key v u) =
       (if map_option (user_sub \<circ> user) (live_session v (lookup s) i) = Some u
        then members s (subject_key v u) - {i} else members s (subject_key v u))"
proof -
  let ?r = "live_session v (lookup s) i"
  obtain s1 where s1: "rl_get redis (session_key v i) s = (Inr (lookup s (session_key v i)), s1)" "healthy s1"
      "lookup s1 = lookup s" "members s1 = members s"
    using get [OF healthy] by blast
  obtain n s2 where s2: "rl_del redis (session_key v i) s1 = (Inr n, s2)" "healthy s2"
      "lookup s2 = (lookup s1)(session_key v i := None)" "members s2 = (members s1)(session_key v i := {})"
    using del [OF s1(2)] by blast
  show ?thesis
  proof (cases ?r)
    case None
    have "destroy_record v i s = (Inr None, s2)"
      using None s1(1) s2(1) client by (simp add: destroy_record_def io_simps live_session_def split: option.splits)
    with None s1 s2 show ?thesis using that [of s2] by (auto simp: fun_eq_iff)
  next
    case (Some b)
    define unindex where "unindex = (case sid b of
        Some x \<Rightarrow> io_bind (rl_del (client v) (sid_key v x)) (\<lambda>_. io_return ()) | None \<Rightarrow> io_return ())"
    obtain s3 where s3: "unindex s2 = (Inr (), s3)" "healthy s3"
        "lookup s3 = (case sid b of None \<Rightarrow> lookup s2 | Some x \<Rightarrow> (lookup s2)(sid_key v x := None))"
        "\<And>u. members s3 (subject_key v u) = members s2 (subject_key v u)"
    proof (cases "sid b")
      case None
      with s2 that [of s2] show ?thesis by (simp add: unindex_def io_simps)
    next
      case (Some x)
      obtain m s3 where "rl_del redis (sid_key v x) s2 = (Inr m, s3)" "healthy s3"
          "lookup s3 = (lookup s2)(sid_key v x := None)" "members s3 = (members s2)(sid_key v x := {})"
        using del [OF s2(2)] by blast
      with Some client that [of s3] show ?thesis by (simp add: unindex_def io_simps)
    qed
    obtain m s4 where s4: "rl_srem redis (subject_key v (user_sub (user b))) i s3 = (Inr m, s4)" "healthy s4"
        "lookup s4 = lookup s3" "members s4 = (members s3)(subject_key v (user_sub (user b)) :=
          members s3 (subject_key v (user_sub (user b))) - {i})"
      using srem [OF s3(2)] by blast
    have raw: "(case lookup s (session_key v i) of None \<Rightarrow> None | Some r \<Rightarrow> parse_record r) = Some b"
      using Some by (simp add: live_session_def)
    have "destroy_record v i s = (Inr (Some b), s4)"
      using s1(1) s2(1) s3(1) s4(1) client
      by (simp add: destroy_record_def io_simps Let_def raw unindex_def)
    moreover have "lookup s4 = (\<lambda>k. if k = session_key v i \<or> (\<exists>b x. ?r = Some b \<and> sid b = Some x \<and> k = sid_key v x)
        then None else lookup s k)"
      using Some s1 s2 s3 s4 by (auto simp: fun_eq_iff split: option.splits)
    ultimately show ?thesis using Some s1 s2 s3 s4 by (intro that [of s4]) auto
  qed
qed

text \<open>Its reading: the record is gone, every other session stays, and the index stays complete.\<close>

lemma destroy_record_live:
  assumes "client v = redis" "healthy s" "destroy_record v i s = (r, s')"
  shows "r = Inr (live_session v (lookup s) i)" "healthy s'"
    "live_session v (lookup s') j = (if j = i then None else live_session v (lookup s) j)"
    "members s' (subject_key v u) \<supseteq> members s (subject_key v u) - {i}"
    "members s' (subject_key v u) \<subseteq> members s (subject_key v u)"
    "indexed v (lookup s) (members s) \<Longrightarrow> indexed v (lookup s') (members s')"
proof -
  obtain s'' where d: "destroy_record v i s = (Inr (live_session v (lookup s) i), s'')" "healthy s''"
    "lookup s'' = (\<lambda>k. if k = session_key v i
        \<or> (\<exists>b x. live_session v (lookup s) i = Some b \<and> sid b = Some x \<and> k = sid_key v x) then None else lookup s k)"
    "\<forall>u. members s'' (subject_key v u) =
       (if map_option (user_sub \<circ> user) (live_session v (lookup s) i) = Some u
        then members s (subject_key v u) - {i} else members s (subject_key v u))"
    by (rule destroy_record_law [OF assms(1,2), of i])
  with assms(3) have eq: "r = Inr (live_session v (lookup s) i)" "s'' = s'" by auto
  have live: "live_session v (lookup s') j = (if j = i then None else live_session v (lookup s) j)" for j
    by (simp add: d(3) [unfolded eq] live_session_def)
  show "r = Inr (live_session v (lookup s) i)" "healthy s'" using d eq by simp_all
  show "live_session v (lookup s') j = (if j = i then None else live_session v (lookup s) j)" by (rule live)
  show "members s' (subject_key v u) \<supseteq> members s (subject_key v u) - {i}"
    "members s' (subject_key v u) \<subseteq> members s (subject_key v u)" using d(4) [rule_format, of u] eq by auto
  show "indexed v (lookup s') (members s')" if "indexed v (lookup s) (members s)"
    unfolding indexed_def live
  proof (intro allI impI)
    fix j b
    assume "(if j = i then None else live_session v (lookup s) j) = Some b"
    then have "j \<noteq> i" "live_session v (lookup s) j = Some b" by (simp_all split: if_splits)
    with that d(4) [rule_format, of "user_sub (user b)"] eq show "j \<in> members s' (subject_key v (user_sub (user b)))"
      by (simp add: indexed_def)
  qed
qed

lemma valkey_destroy_law:
  assumes "timeless_seal iron (password v) same opens" "client v = redis" "healthy s"
  shows "\<exists>s'. valkey_destroy iron v ref s = (Inr (), s') \<and> healthy s' \<and> valkey_bound v opens lookup s' ref = None
    \<and> (\<forall>j. ref_id opens ref \<noteq> Some j \<longrightarrow> live_session v (lookup s') j = live_session v (lookup s) j)
    \<and> (indexed v (lookup s) (members s) \<longrightarrow> indexed v (lookup s') (members s'))"
proof (cases "ref_id opens ref")
  case None
  with assms show ?thesis
    by (simp add: valkey_destroy_def timeless_ref_to_id [OF assms(1)] io_simps valkey_bound_def)
next
  case (Some i)
  obtain r s' where d: "destroy_record v i s = (r, s')" by fastforce
  note law = destroy_record_live [OF assms(2,3) d]
  have "valkey_destroy iron v ref s = (Inr (), s')"
    using Some d law(1) by (simp add: valkey_destroy_def timeless_ref_to_id [OF assms(1)] io_simps)
  with Some law show ?thesis by (auto simp: valkey_bound_def)
qed

end


context redis_like
begin

lemma revoke_members:
  assumes "client v = redis" "healthy s"
    and "io_map_list (\<lambda>i. io_bind (destroy_record v i) (\<lambda>record'.
           if record' = None then io_bind (rl_srem (client v) (subject_key v sub) i) (\<lambda>_. io_return record')
           else io_return record')) ids s = (r, s')"
  shows "\<exists>rs. r = Inr rs \<and> healthy s'
    \<and> (\<forall>j. live_session v (lookup s') j = (if j \<in> set ids then None else live_session v (lookup s) j))
    \<and> (indexed v (lookup s) (members s) \<longrightarrow> indexed v (lookup s') (members s'))
    \<and> (distinct ids \<longrightarrow> rs = map (live_session v (lookup s)) ids)"
  using assms(2,3)
proof (induction ids arbitrary: s r)
  case Nil
  then show ?case by (simp add: io_simps)
next
  case (Cons i ids)
  let ?step = "\<lambda>i. io_bind (destroy_record v i) (\<lambda>record'.
     if record' = None then io_bind (rl_srem (client v) (subject_key v sub) i) (\<lambda>_. io_return record')
     else io_return record')"
  obtain r1 s1 where d: "destroy_record v i s = (r1, s1)" by fastforce
  note law = destroy_record_live [OF assms(1) Cons.prems(1) d]
  obtain s2 where s2: "?step i s = (Inr (live_session v (lookup s) i), s2)" "healthy s2" "lookup s2 = lookup s1"
      "indexed v (lookup s) (members s) \<longrightarrow> indexed v (lookup s2) (members s2)"
  proof (cases "live_session v (lookup s) i")
    case None
    obtain n s2 where srem: "rl_srem redis (subject_key v sub) i s1 = (Inr n, s2)" "healthy s2" "lookup s2 = lookup s1"
        "members s2 = (members s1)(subject_key v sub := members s1 (subject_key v sub) - {i})"
      using srem [OF law(2)] by blast
    have "indexed v (lookup s2) (members s2)" if "indexed v (lookup s1) (members s1)"
      unfolding indexed_def srem(3,4)
    proof (intro allI impI)
      fix j b
      assume j: "live_session v (lookup s1) j = Some b"
      with law(3) [of i] have "j \<noteq> i" by auto
      with that j show "j \<in> ((members s1)(subject_key v sub := members s1 (subject_key v sub) - {i}))
          (subject_key v (user_sub (user b)))"
        by (auto simp: indexed_def)
    qed
    with None srem d law assms(1) that [of s2] show ?thesis by (simp add: io_simps)
  next
    case (Some b)
    with d law that [of s1] show ?thesis by (simp add: io_simps)
  qed
  obtain r3 where tail: "io_map_list ?step ids s2 = (r3, s')" "r = (case r3 of Inl e \<Rightarrow> Inl e | Inr ys \<Rightarrow> Inr (live_session v (lookup s) i # ys))"
    using Cons.prems(2) s2(1) by (auto simp: io_bind_def io_return_def split: prod.splits sum.splits)
  from Cons.IH [OF s2(2) tail(1)] obtain rs where
    ih: "r3 = Inr rs" "healthy s'"
      "\<forall>j. live_session v (lookup s') j = (if j \<in> set ids then None else live_session v (lookup s2) j)"
      "indexed v (lookup s2) (members s2) \<longrightarrow> indexed v (lookup s') (members s')"
      "distinct ids \<longrightarrow> rs = map (live_session v (lookup s2)) ids"
    by blast
  have live: "live_session v (lookup s2) j = (if j = i then None else live_session v (lookup s) j)" for j
    using law(3) s2(3) by simp
  have "distinct (i # ids) \<longrightarrow> live_session v (lookup s) i # rs = map (live_session v (lookup s)) (i # ids)"
    using ih(5) by (auto simp: live)
  with ih tail(2) s2(4) show ?case by (auto simp: live)
qed

lemma revoke_by_subject_law:
  assumes "client v = redis" "healthy s" "indexed v (lookup s) (members s)"
  shows "\<exists>gone s'. revoke_by_subject v sub s = (Inr gone, s') \<and> healthy s' \<and> indexed v (lookup s') (members s')
    \<and> set gone = {b. \<exists>i \<in> members s (subject_key v sub). live_session v (lookup s) i = Some b}
    \<and> (\<forall>i b. live_session v (lookup s') i = Some b \<longrightarrow> user_sub (user b) \<noteq> sub)
    \<and> (\<forall>i. i \<notin> members s (subject_key v sub) \<longrightarrow> live_session v (lookup s') i = live_session v (lookup s) i)
    \<and> (\<forall>i \<in> members s (subject_key v sub). live_session v (lookup s') i = None)"
proof -
  obtain ids s1 where ids: "rl_smembers redis (subject_key v sub) s = (Inr ids, s1)"
      "set ids = members s (subject_key v sub)" "distinct ids" "healthy s1" "lookup s1 = lookup s" "members s1 = members s"
    using smembers [OF assms(2)] by blast
  obtain r s2 where run: "io_map_list (\<lambda>i. io_bind (destroy_record v i) (\<lambda>record'.
           if record' = None then io_bind (rl_srem (client v) (subject_key v sub) i) (\<lambda>_. io_return record')
           else io_return record')) ids s1 = (r, s2)" by fastforce
  from revoke_members [OF assms(1) ids(4) run] ids assms(3) obtain rs where
    rs: "r = Inr rs" "healthy s2" "indexed v (lookup s2) (members s2)" "rs = map (live_session v (lookup s)) ids"
      "\<And>j. live_session v (lookup s2) j = (if j \<in> set ids then None else live_session v (lookup s) j)"
    by auto
  have "revoke_by_subject v sub s = (Inr (List.map_filter (\<lambda>r. r) rs), s2)"
    using ids(1) run rs(1) assms(1) by (simp add: revoke_by_subject_def io_simps)
  moreover have "set (List.map_filter (\<lambda>r. r) rs) = {b. \<exists>i \<in> members s (subject_key v sub). live_session v (lookup s) i = Some b}"
    unfolding rs(4) ids(2) [symmetric] by (rule set_somes)
  moreover have "user_sub (user b) \<noteq> sub" if "live_session v (lookup s2) i = Some b" for i b
    using that rs(5) [of i] assms(3) ids(2) by (auto simp: indexed_def split: if_splits)
  ultimately show ?thesis using rs ids(2) by auto
qed

lemma valkey_write_indexed:
  assumes "timeless_seal iron (password v) (keeps healthy lookup members) opens"
    and "client v = redis" "0 < ttl_seconds v" "healthy s" "valkey_storable b"
    and "indexed v (lookup s) (members s)"
  obtains ref s' where "valkey_write iron random v b s = (Inr ref, s')" "healthy s'"
    "ref_id opens ref = Some (session_id b)"
    "\<forall>i. live_session v (lookup s') i = (if i = session_id b then Some b else live_session v (lookup s) i)"
    "indexed v (lookup s') (members s')"
proof -
  obtain ref s' where w: "valkey_write iron random v b s = (Inr ref, s')" "healthy s'"
    "ref_id opens ref = Some (session_id b)"
    "lookup s' = (case sid b of None \<Rightarrow> id | Some x \<Rightarrow> (\<lambda>m. m(sid_key v x \<mapsto> session_id b)))
       ((lookup s)(session_key v (session_id b) \<mapsto> json_print (session_to_json b)))"
    "members s' = (members s)(subject_key v (user_sub (user b)) :=
       insert (session_id b) (members s (subject_key v (user_sub (user b)))))"
    by (rule valkey_write_law [OF assms(1-5)])
  have ok: "session_ok b" using assms(5) by (simp add: valkey_storable_def)
  have live: "live_session v (lookup s') i = (if i = session_id b then Some b else live_session v (lookup s) i)" for i
    using ok by (cases "sid b") (simp_all add: w(4) live_session_put)
  have "indexed v (lookup s') (members s')"
    unfolding indexed_def live w(5)
  proof (intro allI impI)
    fix i b'
    assume i: "(if i = session_id b then Some b else live_session v (lookup s) i) = Some b'"
    show "i \<in> ((members s)(subject_key v (user_sub (user b)) := insert (session_id b)
        (members s (subject_key v (user_sub (user b)))))) (subject_key v (user_sub (user b')))"
    proof (cases "i = session_id b")
      case False
      with i assms(6) have "i \<in> members s (subject_key v (user_sub (user b')))" by (simp add: indexed_def)
      then show ?thesis by auto
    qed (use i in simp)
  qed
  with w live show ?thesis using that [of ref s'] by simp
qed

lemma refresh_lock_free:
  assumes "timeless_seal iron (password v) same opens" "client v = redis" "0 < lock_ttl_seconds v" "healthy s"
    and "ref_id opens ref = Some i" "lookup s (lock_key v i) = None"
  obtains s1 where "healthy s1" "lookup s1 = (lookup s)(lock_key v i \<mapsto> ''1'')" "members s1 = members s"
    "\<forall>fn. valkey_with_refresh_lock iron v ref fn s =
       io_finally (io_bind fn (\<lambda>t. io_return (Some t))) (rl_del (client v) (lock_key v i)) s1"
proof -
  obtain s1 where set: "rl_set redis (lock_key v i) ''1'' (nx_option (lock_ttl_seconds v)) s = (Inr True, s1)" and s1: "healthy s1"
      "lookup s1 = (lookup s)(lock_key v i \<mapsto> ''1'')" "members s1 = members s"
    using set_done [OF assms(4), of "nx_option (lock_ttl_seconds v)" "lock_key v i" "''1''"] assms(3,6)
    by (auto simp: nx_option_def)
  from set have "valkey_with_refresh_lock iron v ref fn s =
      io_finally (io_bind fn (\<lambda>t. io_return (Some t))) (rl_del (client v) (lock_key v i)) s1" for fn
    using assms(2,5) by (simp add: valkey_with_refresh_lock_def timeless_ref_to_id [OF assms(1)] io_simps)
  with s1 show ?thesis using that [of s1] by blast
qed

lemma refresh_lock_held:
  assumes "timeless_seal iron (password v) same opens" "client v = redis" "healthy s"
    and "ref_id opens ref = Some i" "lookup s (lock_key v i) \<noteq> None"
  obtains s1 where "healthy s1" "lookup s1 = lookup s" "members s1 = members s"
    "\<forall>fn. valkey_with_refresh_lock iron v ref fn s = (Inr None, s1)"
proof -
  obtain s1 where set: "rl_set redis (lock_key v i) ''1'' (nx_option (lock_ttl_seconds v)) s = (Inr False, s1)" and s1: "healthy s1"
      "lookup s1 = lookup s" "members s1 = members s"
    using set_skipped [OF assms(3) _ assms(5), of "nx_option (lock_ttl_seconds v)" "''1''"] by (auto simp: nx_option_def)
  from set have "valkey_with_refresh_lock iron v ref fn s = (Inr None, s1)" for fn
    using assms(2,4)
    by (simp add: valkey_with_refresh_lock_def timeless_ref_to_id [OF assms(1)] io_simps)
  with s1 show ?thesis using that [of s1] by blast
qed

end


subsection \<open>The stores over the in-process server\<close>

definition memory_seal ::
    "'z memory_world_scheme iron \<Rightarrow> 'z memory_world_scheme valkey \<Rightarrow> (string \<Rightarrow> json option) \<Rightarrow> bool" where
  "memory_seal iron v opens \<longleftrightarrow>
     timeless_seal iron (password v) (keeps mem_healthy mem_lookup mem_members) opens
   \<and> client v = create_memory_redis \<and> 0 < ttl_seconds v \<and> 0 < lock_ttl_seconds v"

lemma memory_sealD:
  assumes "memory_seal iron v opens"
  shows "timeless_seal iron (password v) (keeps mem_healthy mem_lookup mem_members) opens"
    "client v = create_memory_redis" "0 < ttl_seconds v" "0 < lock_ttl_seconds v"
  using assms by (simp_all add: memory_seal_def)

interpretation valkey: revocable_store "valkey_store iron random v"
  "\<lambda>w. memory_seal iron v opens \<and> mem_healthy w" valkey_storable "valkey_bound v opens mem_lookup"
  for iron :: "'z memory_world_scheme iron" and random v opens
proof unfold_locales
  fix s :: "'z memory_world_scheme" and ref
  assume good: "memory_seal iron v opens \<and> mem_healthy s"
  note seal = memory_sealD [OF conjunct1 [OF good]]
  obtain s' where "valkey_read iron v ref s = (Inr (valkey_bound v opens mem_lookup s ref), s')" "mem_healthy s'"
      "mem_lookup s' = mem_lookup s"
    using memory.valkey_read_law [OF seal(1,2) conjunct2 [OF good], of ref] by blast
  then show "\<exists>s'. st_read (valkey_store iron random v) ref s = (Inr (valkey_bound v opens mem_lookup s ref), s')
      \<and> (memory_seal iron v opens \<and> mem_healthy s') \<and> valkey_bound v opens mem_lookup s' = valkey_bound v opens mem_lookup s"
    using good by (auto simp: valkey_store_def intro: valkey_bound_cong)
next
  fix s :: "'z memory_world_scheme" and b
  assume good: "memory_seal iron v opens \<and> mem_healthy s" and b: "valkey_storable b"
  note seal = memory_sealD [OF conjunct1 [OF good]]
  obtain ref s' where w: "valkey_write iron random v b s = (Inr ref, s')" "mem_healthy s'"
      "ref_id opens ref = Some (session_id b)"
      "mem_lookup s' = (case sid b of None \<Rightarrow> id | Some x \<Rightarrow> (\<lambda>m. m(sid_key v x \<mapsto> session_id b)))
         ((mem_lookup s)(session_key v (session_id b) \<mapsto> json_print (session_to_json b)))"
    by (rule memory.valkey_write_law [OF seal(1-3) conjunct2 [OF good] b])
  then have "valkey_bound v opens mem_lookup s' ref = Some b"
    using b by (cases "sid b") (simp_all add: valkey_bound_def live_session_put valkey_storable_def)
  with w good show "\<exists>ref s'. st_write (valkey_store iron random v) b s = (Inr ref, s')
      \<and> (memory_seal iron v opens \<and> mem_healthy s') \<and> valkey_bound v opens mem_lookup s' ref = Some b"
    by (auto simp: valkey_store_def)
next
  fix s :: "'z memory_world_scheme" and ref
  assume good: "memory_seal iron v opens \<and> mem_healthy s"
  note seal = memory_sealD [OF conjunct1 [OF good]]
  show "\<exists>s'. st_destroy (valkey_store iron random v) ref s = (Inr (), s') \<and> memory_seal iron v opens \<and> mem_healthy s'"
    using memory.valkey_destroy_law [OF seal(1,2) conjunct2 [OF good], of ref] good by (auto simp: valkey_store_def)
next
  fix s s' :: "'z memory_world_scheme" and ref
  assume good: "memory_seal iron v opens \<and> mem_healthy s"
    and d: "st_destroy (valkey_store iron random v) ref s = (Inr (), s')"
  note seal = memory_sealD [OF conjunct1 [OF good]]
  show "valkey_bound v opens mem_lookup s' ref = None"
    using memory.valkey_destroy_law [OF seal(1,2) conjunct2 [OF good], of ref] d by (auto simp: valkey_store_def)
qed

text \<open>A seal that prints and parses, and the configuration the concrete checks run on.\<close>

definition demo_iron :: "'s iron" where
  "demo_iron =
     \<lparr>iron_seal = (\<lambda>j p ttl. io_return (json_print j)),
      iron_unseal = (\<lambda>t p ttl. case json_parse t of Some j \<Rightarrow> io_return j | None \<Rightarrow> io_throw (new_error ''Bad hmac''))\<rparr>"

definition demo_secret :: cookie_secret where
  "demo_secret = PlainSecret ''0123456789abcdef0123456789abcdef''"

definition demo_valkey :: "memory_world valkey" where
  "demo_valkey =
     \<lparr>client = create_memory_redis, password = demo_secret, ttl_seconds = 60, lock_ttl_seconds = 10, key_prefix = ''w''\<rparr>"

definition demo_session :: "string \<Rightarrow> bff_session" where
  "demo_session i =
     \<lparr>session_id = i, access_token = ''at'', refresh_token = Some ''rt'', id_token = None, expires_at = 100,
      user = [(''sub'', JStr ''u1'')], sid = Some ''s1'', version = 1, csrf_token = Some ''c''\<rparr>"

definition empty_memory :: memory_world where
  "empty_memory = \<lparr>entries = [], sets = [], clock = 0\<rparr>"


definition demo_opens :: "string \<Rightarrow> json option" where "demo_opens = json_parse"

lemma demo_seal: "memory_seal demo_iron demo_valkey demo_opens"
  by (auto simp: memory_seal_def timeless_seal_def demo_valkey_def demo_iron_def demo_opens_def seal_with_def
      demo_secret_def seal_password_of_def io_simps json_parse_print keeps_def split: option.splits)

lemma demo_storable: "i \<noteq> '''' \<Longrightarrow> valkey_storable (demo_session i)"
  by (simp add: valkey_storable_def session_ok_def demo_session_def)

lemma empty_memory_healthy: "mem_healthy empty_memory"
  by (simp add: mem_healthy_def empty_memory_def obj_wf_def)

lemma empty_memory_lookup: "mem_lookup empty_memory = (\<lambda>k. None)"
  by (simp add: mem_lookup_def empty_memory_def fun_eq_iff)

text \<open>
  C5: The life of a server-side session. On a healthy Redis server a session that is written is
  read back unchanged through the sealed reference the write returns, and once that reference is
  destroyed it resolves to no session, none of the four operations failing.
\<close>

theorem valkey_session_lifecycle:
  assumes "memory_seal iron v opens" "mem_healthy w" "valkey_storable b"
  shows "\<exists>ref w1 w2 w3 w4. valkey_write iron random v b w = (Inr ref, w1)
    \<and> valkey_read iron v ref w1 = (Inr (Some b), w2)
    \<and> valkey_destroy iron v ref w2 = (Inr (), w3)
    \<and> valkey_read iron v ref w3 = (Inr None, w4)"
proof -
  note laws = valkey_store_def session_store.simps
  obtain ref w1 where w1: "valkey_write iron random v b w = (Inr ref, w1)" "mem_healthy w1"
    using valkey.write_law [of iron v opens w b random, unfolded laws] assms by blast
  then obtain w2 where w2: "valkey_read iron v ref w1 = (Inr (Some b), w2)" "mem_healthy w2"
    using valkey.write_read [of iron v opens w b random ref w1, unfolded laws] assms by blast
  then obtain w3 where w3: "valkey_destroy iron v ref w2 = (Inr (), w3)"
    using valkey.destroy_law [of iron v opens w2 random ref, unfolded laws] assms by blast
  then obtain w4 where "valkey_read iron v ref w3 = (Inr None, w4)"
    using valkey.destroyed_reads_nothing [of iron v opens w2 random ref w3, unfolded laws] w2 assms by blast
  with w1 w2 w3 show ?thesis by blast
qed

theorem valkey_session_lifecycle_witness:
  "\<exists>ref w1 w2 w3 w4. valkey_write demo_iron (\<lambda>n w. (replicate n 0, w)) demo_valkey (demo_session ''i1'') empty_memory = (Inr ref, w1)
    \<and> valkey_read demo_iron demo_valkey ref w1 = (Inr (Some (demo_session ''i1'')), w2)
    \<and> valkey_destroy demo_iron demo_valkey ref w2 = (Inr (), w3)
    \<and> valkey_read demo_iron demo_valkey ref w3 = (Inr None, w4)"
  by (rule valkey_session_lifecycle [OF demo_seal empty_memory_healthy demo_storable]) simp

text \<open>
  C6: Back-channel revocation by subject reaches every session. As long as sessions are only
  written and destroyed through the store (\<open>indexed\<close> is kept by the write and by the revocation
  itself), a write adds its session and leaves every other, older sessions of the same subject included;
  after \<open>revokeBySubject\<close> no live session of the subject is left; what is returned is exactly the live
  sessions listed for the subject, every live session of the subject among them; and every session not
  listed for it survives.
\<close>

theorem revoke_by_subject_reaches_every_session:
  assumes "memory_seal iron v opens" "mem_healthy w" "indexed v (mem_lookup w) (mem_members w)" "valkey_storable b"
  shows "\<exists>ref w1 gone w2. valkey_write iron random v b w = (Inr ref, w1)
    \<and> indexed v (mem_lookup w1) (mem_members w1)
    \<and> revoke_by_subject v sub w1 = (Inr gone, w2)
    \<and> indexed v (mem_lookup w2) (mem_members w2)
    \<and> (\<forall>i. live_session v (mem_lookup w1) i = (if i = session_id b then Some b else live_session v (mem_lookup w) i))
    \<and> set gone = {b'. \<exists>i \<in> mem_members w1 (subject_key v sub). live_session v (mem_lookup w1) i = Some b'}
    \<and> (\<forall>i b'. live_session v (mem_lookup w1) i = Some b' \<and> user_sub (user b') = sub \<longrightarrow> b' \<in> set gone)
    \<and> (\<forall>i b'. live_session v (mem_lookup w2) i = Some b' \<longrightarrow> user_sub (user b') \<noteq> sub)
    \<and> (\<forall>i. i \<notin> mem_members w1 (subject_key v sub) \<longrightarrow>
          live_session v (mem_lookup w2) i = live_session v (mem_lookup w1) i)"
proof -
  note seal = memory_sealD [OF assms(1)]
  obtain ref w1 where w1: "valkey_write iron random v b w = (Inr ref, w1)" "mem_healthy w1"
    "\<forall>i. live_session v (mem_lookup w1) i = (if i = session_id b then Some b else live_session v (mem_lookup w) i)"
    "indexed v (mem_lookup w1) (mem_members w1)"
    by (rule memory.valkey_write_indexed [OF seal(1-3) assms(2,4,3), of random])
  have listed: "i \<in> mem_members w1 (subject_key v sub)" if "live_session v (mem_lookup w1) i = Some b' \<and> user_sub (user b') = sub" for i b'
    using w1(4) that by (auto simp: indexed_def)
  obtain gone w2 where w2: "revoke_by_subject v sub w1 = (Inr gone, w2)"
      "indexed v (mem_lookup w2) (mem_members w2)"
      "set gone = {b'. \<exists>i \<in> mem_members w1 (subject_key v sub). live_session v (mem_lookup w1) i = Some b'}"
      "\<forall>i b'. live_session v (mem_lookup w2) i = Some b' \<longrightarrow> user_sub (user b') \<noteq> sub"
      "\<forall>i. i \<notin> mem_members w1 (subject_key v sub) \<longrightarrow>
         live_session v (mem_lookup w2) i = live_session v (mem_lookup w1) i"
    using memory.revoke_by_subject_law [OF seal(2) w1(2,4), of sub] by (elim exE conjE)
  have "b' \<in> set gone" if "live_session v (mem_lookup w1) i = Some b' \<and> user_sub (user b') = sub" for i b'
    using listed [OF that] that w2(3) by auto
  with w1(1,3,4) w2 show ?thesis by blast
qed

theorem revoke_by_subject_reaches_every_session_witness:
  "\<exists>ref w1 gone w2. valkey_write demo_iron (\<lambda>n w. (replicate n 0, w)) demo_valkey (demo_session ''i1'') empty_memory = (Inr ref, w1)
    \<and> indexed demo_valkey (mem_lookup w1) (mem_members w1)
    \<and> revoke_by_subject demo_valkey ''u1'' w1 = (Inr gone, w2)
    \<and> indexed demo_valkey (mem_lookup w2) (mem_members w2)
    \<and> (\<forall>i. live_session demo_valkey (mem_lookup w1) i
          = (if i = session_id (demo_session ''i1'') then Some (demo_session ''i1'') else live_session demo_valkey (mem_lookup empty_memory) i))
    \<and> set gone = {b'. \<exists>i \<in> mem_members w1 (subject_key demo_valkey ''u1''). live_session demo_valkey (mem_lookup w1) i = Some b'}
    \<and> (\<forall>i b'. live_session demo_valkey (mem_lookup w1) i = Some b' \<and> user_sub (user b') = ''u1'' \<longrightarrow> b' \<in> set gone)
    \<and> (\<forall>i b'. live_session demo_valkey (mem_lookup w2) i = Some b' \<longrightarrow> user_sub (user b') \<noteq> ''u1'')
    \<and> (\<forall>i. i \<notin> mem_members w1 (subject_key demo_valkey ''u1'') \<longrightarrow>
          live_session demo_valkey (mem_lookup w2) i = live_session demo_valkey (mem_lookup w1) i)"
  by (rule revoke_by_subject_reaches_every_session [OF demo_seal empty_memory_healthy])
    (simp_all add: demo_storable indexed_def live_session_def empty_memory_lookup)

text \<open>
  The shared refresh lock excludes. A caller that finds the lock free runs its refresh in a
  state where the lock is taken, and the lock is released whatever the refresh does; every caller
  that comes while the lock is taken is answered with nothing at once, its refresh not run.
\<close>

lemma refresh_lock_excludes:
  assumes "memory_seal iron v opens" "mem_healthy w" "ref_id opens ref = Some i"
    and "mem_lookup w (lock_key v i) = None"
  shows "\<exists>w1. mem_healthy w1 \<and> mem_lookup w1 = (mem_lookup w)(lock_key v i \<mapsto> ''1'')
    \<and> (\<forall>(fn :: ('z memory_world_scheme, 't) io) r w2. fn w1 = (r, w2) \<and> mem_healthy w2 \<longrightarrow>
         (\<exists>w3. valkey_with_refresh_lock iron v ref fn w = (map_sum id Some r, w3)
            \<and> mem_lookup w3 = (mem_lookup w2)(lock_key v i := None)))
    \<and> (\<exists>w4. mem_lookup w4 = mem_lookup w1 \<and>
         (\<forall>other :: ('z memory_world_scheme, 't) io. valkey_with_refresh_lock iron v ref other w1 = (Inr None, w4)))"
proof -
  note seal = memory_sealD [OF assms(1)]
  obtain w1 where w1: "mem_healthy w1" "mem_lookup w1 = (mem_lookup w)(lock_key v i \<mapsto> ''1'')"
      "mem_members w1 = mem_members w"
    and run: "\<forall>fn :: ('z memory_world_scheme, 't) io. valkey_with_refresh_lock iron v ref fn w =
       io_finally (io_bind fn (\<lambda>t. io_return (Some t))) (rl_del (client v) (lock_key v i)) w1"
    by (rule memory.refresh_lock_free [OF seal(1,2,4) assms(2-4)])
  have "\<exists>w3. valkey_with_refresh_lock iron v ref fn w = (map_sum id Some r, w3)
      \<and> mem_lookup w3 = (mem_lookup w2)(lock_key v i := None)" if fn: "fn w1 = (r, w2)" "mem_healthy w2" for fn :: "('z memory_world_scheme, 't) io" and r w2
  proof -
    obtain n w3 where "rl_del create_memory_redis (lock_key v i) w2 = (Inr n, w3)"
        "mem_lookup w3 = (mem_lookup w2)(lock_key v i := None)"
      using memory.del [OF fn(2)] by blast
    then show ?thesis using fn(1) seal(2)
      by (cases r) (auto simp: run io_finally_def io_bind_def io_return_def)
  qed
  moreover have "\<exists>w4. mem_lookup w4 = mem_lookup w1 \<and>
      (\<forall>other :: ('z memory_world_scheme, 't) io. valkey_with_refresh_lock iron v ref other w1 = (Inr None, w4))"
    using memory.refresh_lock_held [OF seal(1,2) w1(1) assms(3)] w1(2) by (metis fun_upd_same option.distinct(1))
  ultimately show ?thesis using w1 by blast
qed

lemma refresh_lock_excludes_witness:
  "\<exists>w1. mem_healthy w1
    \<and> mem_lookup w1 = (mem_lookup empty_memory)(lock_key demo_valkey ''i1'' \<mapsto> ''1'')
    \<and> (\<forall>(fn :: (memory_world, unit) io) r w2. fn w1 = (r, w2) \<and> mem_healthy w2 \<longrightarrow>
         (\<exists>w3. valkey_with_refresh_lock demo_iron demo_valkey (json_print (JStr ''i1'')) fn empty_memory = (map_sum id Some r, w3)
            \<and> mem_lookup w3 = (mem_lookup w2)(lock_key demo_valkey ''i1'' := None)))
    \<and> (\<exists>w4. mem_lookup w4 = mem_lookup w1 \<and>
         (\<forall>other :: (memory_world, unit) io.
            valkey_with_refresh_lock demo_iron demo_valkey (json_print (JStr ''i1'')) other w1 = (Inr None, w4)))"
  by (rule refresh_lock_excludes [OF demo_seal empty_memory_healthy])
    (simp_all add: ref_id_def demo_opens_def json_parse_print empty_memory_lookup del: json_print.simps)

text \<open>
  C39: A stale session's logout hides a newer login. When the issuer's session \<open>x\<close> is re-indexed to
  a newer session, destroying the record of the older one deletes the index entry too: a logout
  of \<open>x\<close> then revokes nothing, and the newer session stays live.
\<close>

theorem destroy_unindexes_newer_login:
  assumes "memory_seal iron v opens" "mem_healthy w" "new \<noteq> old"
    and "live_session v (mem_lookup w) old = Some b" "sid b = Some x"
    and "mem_lookup w (sid_key v x) = Some new" "live_session v (mem_lookup w) new = Some b'"
  shows "\<exists>w1 w2. destroy_record v old w = (Inr (Some b), w1) \<and> revoke_by_sid v x w1 = (Inr [], w2)
    \<and> live_session v (mem_lookup w2) new = Some b'"
proof -
  note client = memory_sealD(2) [OF assms(1)]
  obtain w1 where w1: "destroy_record v old w = (Inr (live_session v (mem_lookup w) old), w1)" "mem_healthy w1"
    "mem_lookup w1 = (\<lambda>k. if k = session_key v old
        \<or> (\<exists>b x. live_session v (mem_lookup w) old = Some b \<and> sid b = Some x \<and> k = sid_key v x)
       then None else mem_lookup w k)"
    by (rule memory.destroy_record_law [OF client assms(2), of old]) blast
  obtain w2 where w2: "rl_get create_memory_redis (sid_key v x) w1 = (Inr (mem_lookup w1 (sid_key v x)), w2)"
      "mem_lookup w2 = mem_lookup w1"
    using memory.get [OF w1(2)] by blast
  have "mem_lookup w1 (sid_key v x) = None" using assms(4,5) by (auto simp: w1(3))
  then have "revoke_by_sid v x w1 = (Inr [], w2)"
    using w2(1) client by (simp add: revoke_by_sid_def io_simps)
  moreover have "live_session v (mem_lookup w2) new = Some b'"
    using assms(3,7) by (simp add: w2(2) w1(3) live_session_def)
  ultimately show ?thesis using w1(1) assms(4) by auto
qed

definition demo_relogin :: memory_world where
  "demo_relogin =
     \<lparr>entries =
        [(''w:session:old'', \<lparr>me_value = json_print (session_to_json (demo_session ''old'')), me_expires_at = None\<rparr>),
         (''w:session:new'', \<lparr>me_value = json_print (session_to_json (demo_session ''new'')), me_expires_at = None\<rparr>),
         (''w:sid:s1'', \<lparr>me_value = ''new'', me_expires_at = None\<rparr>)],
      sets = [], clock = 0\<rparr>"

lemma demo_relogin_live:
  "mem_healthy demo_relogin"
  "live_session demo_valkey (mem_lookup demo_relogin) ''old'' = Some (demo_session ''old'')"
  "live_session demo_valkey (mem_lookup demo_relogin) ''new'' = Some (demo_session ''new'')"
  "mem_lookup demo_relogin (sid_key demo_valkey ''s1'') = Some ''new''"
  by (auto simp: mem_healthy_def demo_relogin_def obj_wf_def mem_lookup_def expired_def live_session_def key_defs
      demo_valkey_def parse_record_print demo_session_def session_ok_def simp del: json_print.simps)

theorem destroy_unindexes_newer_login_witness:
  "\<exists>w1 w2. destroy_record demo_valkey ''old'' demo_relogin = (Inr (Some (demo_session ''old'')), w1)
    \<and> revoke_by_sid demo_valkey ''s1'' w1 = (Inr [], w2)
    \<and> live_session demo_valkey (mem_lookup w2) ''new'' = Some (demo_session ''new'')"
  by (rule destroy_unindexes_newer_login [OF demo_seal demo_relogin_live(1) _ demo_relogin_live(2) _
        demo_relogin_live(4,3)])
    (simp_all add: demo_session_def)


subsection \<open>The lifetime of a cookie session\<close>

text \<open>
  A cookie session lives for its whole lifetime. The cookie the store writes opens to the
  very session it was written from in every later state until the configured lifetime has passed.
\<close>

lemma cookie_session_lifetime:
  assumes "timed_seal iron (co_password opts) (cookie_ttl_ms opts) now opens" "0 < cookie_ttl_ms opts" "session_ok b"
  shows "\<exists>ref s1. cookie_write iron opts b s = (Inr ref, s1) \<and> now s1 = now s
    \<and> (\<forall>s2. now s \<le> now s2 \<and> now s2 < now s + cookie_ttl_ms opts \<longrightarrow>
          cookie_read iron opts ref s2 = (Inr (Some b), s2))"
proof -
  have good: "cookie_good iron opts now opens s2" for s2 using assms(1,2) by (simp add: cookie_good_def)
  obtain ref s1 where w: "cookie_write iron opts b s = (Inr ref, s1)" "now s1 = now s"
      "\<forall>n. now s \<le> n \<and> n < now s + cookie_ttl_ms opts \<longrightarrow> opens n ref = Some (session_to_json b)"
    using cookie_write_law [OF good assms(3)] by blast
  moreover have "cookie_read iron opts ref s2 = (Inr (Some b), s2)"
    if "now s \<le> now s2 \<and> now s2 < now s + cookie_ttl_ms opts" for s2
    using w(3) that by (simp add: cookie_read_law [OF good] cookie_bound_def session_json_round_trip)
  ultimately show ?thesis by blast
qed

text \<open>A seal that carries its expiry, as the real one does.\<close>

definition stamped_iron :: "memory_world iron" where
  "stamped_iron =
     \<lparr>iron_seal = (\<lambda>j p ttl w. (Inr (json_print (JArr [j, JNum (clock w + (case ttl of Some t \<Rightarrow> t | None \<Rightarrow> 0))])), w)),
      iron_unseal = (\<lambda>t p ttl w. (case json_parse t of
          Some (JArr [j, JNum e]) \<Rightarrow> if clock w < e then Inr j else Inl (new_error ''Expired seal'')
        | _ \<Rightarrow> Inl (new_error ''Bad seal''), w))\<rparr>"

definition stamped_opens :: "int \<Rightarrow> string \<Rightarrow> json option" where
  "stamped_opens n t = (case json_parse t of
     Some (JArr [j, JNum e]) \<Rightarrow> if n < e then Some j else None | _ \<Rightarrow> None)"

lemma stamped_timed_seal: "timed_seal stamped_iron demo_secret ttl clock stamped_opens"
proof -
  have "case stamped_opens (clock s) t of
        Some j \<Rightarrow> iron_unseal stamped_iron t (unseal_password_of demo_secret) (Some ttl) s = (Inr j, s)
      | None \<Rightarrow> (\<exists>e. iron_unseal stamped_iron t (unseal_password_of demo_secret) (Some ttl) s = (Inl e, s))" for s t
    by (simp add: stamped_opens_def stamped_iron_def split: option.splits json.splits list.splits)
  moreover have "\<exists>t s'. seal_with stamped_iron j demo_secret (Some ttl) s = (Inr t, s') \<and> clock s' = clock s
      \<and> (\<forall>n. clock s \<le> n \<and> n < clock s + ttl \<longrightarrow> stamped_opens n t = Some j)" if "json_ok j" for j s
  proof -
    have ok: "json_ok (JArr [j, JNum e])" for e using that by simp
    show ?thesis using json_parse_print [OF ok]
      by (simp add: stamped_opens_def stamped_iron_def seal_with_def demo_secret_def seal_password_of_def
          del: json_print.simps)
  qed
  ultimately show ?thesis by (simp add: timed_seal_def)
qed

lemma cookie_session_lifetime_witness:
  "\<exists>ref s1. cookie_write stamped_iron \<lparr>co_password = demo_secret, co_ttl_seconds = Some 60\<rparr> (demo_session ''i'') empty_memory = (Inr ref, s1)
    \<and> clock s1 = clock empty_memory
    \<and> (\<forall>s2. clock empty_memory \<le> clock s2
         \<and> clock s2 < clock empty_memory + cookie_ttl_ms \<lparr>co_password = demo_secret, co_ttl_seconds = Some 60\<rparr> \<longrightarrow>
         cookie_read stamped_iron \<lparr>co_password = demo_secret, co_ttl_seconds = Some 60\<rparr> ref s2 = (Inr (Some (demo_session ''i'')), s2))"
  by (rule cookie_session_lifetime [where opens = stamped_opens])
    (simp_all add: stamped_timed_seal cookie_ttl_ms_def ms_per_second_def session_ok_def demo_session_def)

end
