(* ===== verification/Url.thy ===== *)
theory Url
  imports Http ClientAddress Base64
begin

section \<open>URLs: parsing, printing, resolving; form encoding\<close>

text \<open>
  The platform's \<open>URL\<close> and \<open>URLSearchParams\<close>, for the two schemes the program speaks
  (\<open>http\<close> and \<open>https\<close>), after the WHATWG algorithm: stripping of control characters, slashes of
  both directions, default ports, dot segments and their percent-encoded spellings, percent-encoding
  of path, query and fragment, and resolution against a base. \<open>None\<close> is the \<open>TypeError\<close> of
  \<open>new URL\<close>; it also stands for the forms the program has no use for: other schemes, credentials
  in the authority, bracketed and non-canonical numeric hosts, percent-encoded or non-ASCII hosts.
\<close>

subsection \<open>Percent-encoding\<close>

definition hex_digit :: "nat \<Rightarrow> char" where
  "hex_digit n = (if n < 10 then char_of (48 + n) else char_of (55 + n))"

definition hex_value :: "char \<Rightarrow> nat option" where
  "hex_value c =
     (if is_digit c then Some (digit_val c)
      else if 65 \<le> code c \<and> code c \<le> 70 then Some (code c - 55)
      else if 97 \<le> code c \<and> code c \<le> 102 then Some (code c - 87) else None)"

definition pct :: "nat \<Rightarrow> string" where
  "pct b = [CHR ''%'', hex_digit (b div 16), hex_digit (b mod 16)]"

definition pct_char :: "char \<Rightarrow> string" where
  "pct_char c = concat (map pct (utf8_encode [c]))"

definition pct_encode :: "(char \<Rightarrow> bool) \<Rightarrow> string \<Rightarrow> string" where
  "pct_encode special s = concat (map (\<lambda>c. if special c then pct_char c else [c]) s)"

fun pct_decode :: "string \<Rightarrow> nat list" where
  "pct_decode [] = []"
| "pct_decode (c # s) =
     (if c = CHR ''%'' then
        (case s of
           h # l # r \<Rightarrow>
             (case (hex_value h, hex_value l) of
                (Some a, Some b) \<Rightarrow> (a * 16 + b) # pct_decode r
              | _ \<Rightarrow> 37 # pct_decode s)
         | _ \<Rightarrow> 37 # pct_decode s)
      else utf8_encode [c] @ pct_decode s)"

definition control_char :: "char \<Rightarrow> bool" where
  "control_char c \<longleftrightarrow> code c < 32 \<or> 126 < code c"

definition query_special :: "char \<Rightarrow> bool" where
  "query_special c \<longleftrightarrow> control_char c \<or> code c \<in> {32, 34, 35, 39, 60, 62}"

definition fragment_special :: "char \<Rightarrow> bool" where
  "fragment_special c \<longleftrightarrow> control_char c \<or> code c \<in> {32, 34, 60, 62, 96}"

definition path_special :: "char \<Rightarrow> bool" where
  "path_special c \<longleftrightarrow> control_char c \<or> code c \<in> {32, 34, 35, 60, 62, 63, 94, 96, 123, 125}"

subsection \<open>Forms\<close>

definition form_unescape :: "string \<Rightarrow> string" where
  "form_unescape s = utf8_decode (pct_decode (map (\<lambda>c. if c = CHR ''+'' then CHR '' '' else c) s))"

definition form_pair :: "string \<Rightarrow> string \<times> string" where
  "form_pair p =
     (case index_of (CHR ''='') p of
        None \<Rightarrow> (form_unescape p, '''')
      | Some i \<Rightarrow> (form_unescape (take i p), form_unescape (drop (Suc i) p)))"

text \<open>\<open>[...new URLSearchParams(s)]\<close> of a query without its question mark.\<close>

definition form_parse :: "string \<Rightarrow> (string \<times> string) list" where
  "form_parse s = map form_pair (filter (\<lambda>p. p \<noteq> '''') (split_char (CHR ''&'') s))"

definition alphanumeric :: "char \<Rightarrow> bool" where
  "alphanumeric c \<longleftrightarrow> 65 \<le> code c \<and> code c \<le> 90 \<or> 97 \<le> code c \<and> code c \<le> 122 \<or> is_digit c"

definition form_escape :: "string \<Rightarrow> string" where
  "form_escape s = concat (map (\<lambda>c.
     if alphanumeric c \<or> c \<in> {CHR ''*'', CHR ''-'', CHR ''.'', CHR ''_''} then [c]
     else if c = CHR '' '' then ''+'' else pct_char c) s)"

definition form_serialize :: "(string \<times> string) list \<Rightarrow> string" where
  "form_serialize ps = js_join ''&'' (map (\<lambda>(k, v). form_escape k @ ''='' @ form_escape v) ps)"

definition encode_uri_component :: "string \<Rightarrow> string" where
  "encode_uri_component s =
     pct_encode (\<lambda>c. \<not> (alphanumeric c
       \<or> c \<in> {CHR ''-'', CHR ''_'', CHR ''.'', CHR ''!'', CHR ''~'', CHR ''*'', CHR 0x27, CHR ''('', CHR '')''})) s"

subsection \<open>Hosts\<close>

definition last_label :: "string \<Rightarrow> string" where
  "last_label h =
     (let labels = split_char (CHR ''.'') h in
      if 1 < length labels \<and> last labels = '''' then last (butlast labels) else last labels)"

definition ends_in_number :: "string \<Rightarrow> bool" where
  "ends_in_number h \<longleftrightarrow>
     (let l = last_label h in
      l \<noteq> '''' \<and> (list_all is_digit l
        \<or> (starts_with (to_lower l) ''0x'' \<and> list_all (\<lambda>c. hex_value c \<noteq> None) (drop 2 l))))"

definition forbidden_host_char :: "char \<Rightarrow> bool" where
  "forbidden_host_char c \<longleftrightarrow> code c \<le> 32 \<or> 127 \<le> code c
     \<or> c \<in> {CHR ''#'', CHR ''/'', CHR '':'', CHR ''<'', CHR ''>'', CHR ''?'', CHR ''@'', CHR ''['', CHR 0x5C,
            CHR '']'', CHR ''^'', CHR ''|'', CHR ''%''}"

definition parse_host :: "string \<Rightarrow> string option" where
  "parse_host h =
     (if h = '''' \<or> list_ex forbidden_host_char h then None
      else if ends_in_number h \<and> parse_ipv4 h = None then None
      else Some (to_lower h))"

definition default_port :: "string \<Rightarrow> nat" where
  "default_port scheme = (if scheme = ''http'' then 80 else 443)"

definition parse_port :: "string \<Rightarrow> string \<Rightarrow> string option" where
  "parse_port scheme p =
     (if \<not> list_all is_digit p \<or> 65535 < digits_val p then None
      else if p = '''' \<or> digits_val p = default_port scheme then Some ''''
      else Some ('':'' @ nat_to_string (digits_val p)))"

definition parse_authority :: "string \<Rightarrow> string \<Rightarrow> string option" where
  "parse_authority scheme a =
     (if CHR ''@'' \<in> set a then None
      else
        (let h = takeWhile (\<lambda>c. c \<noteq> CHR '':'') a; p = dropWhile (\<lambda>c. c \<noteq> CHR '':'') a in
         case (parse_host h, parse_port scheme (tl p)) of
           (Some h', Some p') \<Rightarrow> Some (h' @ p')
         | _ \<Rightarrow> None))"

subsection \<open>Paths\<close>

definition is_slash :: "char \<Rightarrow> bool" where
  "is_slash c \<longleftrightarrow> c = CHR ''/'' \<or> c = CHR 0x5C"

definition single_dot :: "string \<Rightarrow> bool" where
  "single_dot s \<longleftrightarrow> to_lower s \<in> {''.'', ''%2e''}"

definition double_dot :: "string \<Rightarrow> bool" where
  "double_dot s \<longleftrightarrow> to_lower s \<in> {''..'', ''.%2e'', ''%2e.'', ''%2e%2e''}"

text \<open>The path state: the segments so far (last first) and the raw segments to come.\<close>

fun path_state :: "string list \<Rightarrow> string list \<Rightarrow> string list" where
  "path_state acc [] = rev acc"
| "path_state acc [s] =
     (if double_dot s then rev ('''' # tl acc)
      else if single_dot s then rev ('''' # acc)
      else rev (pct_encode path_special s # acc))"
| "path_state acc (s # t # ss) =
     path_state (if double_dot s then tl acc else if single_dot s then acc
                 else pct_encode path_special s # acc) (t # ss)"

definition raw_segments :: "string \<Rightarrow> string list" where
  "raw_segments p =
     split_char (CHR ''/'') (map (\<lambda>c. if is_slash c then CHR ''/'' else c)
       (if p \<noteq> [] \<and> is_slash (hd p) then tl p else p))"

subsection \<open>URL records\<close>

record full_url = url +
  u_query :: "string option"
  u_fragment :: "string option"

definition mk_url :: "string \<Rightarrow> string \<Rightarrow> string list \<Rightarrow> string option \<Rightarrow> string option \<Rightarrow> full_url" where
  "mk_url scheme h segments q f =
     \<lparr>protocol = scheme @ '':'', host = h, pathname = ''/'' @ js_join ''/'' segments,
      search = (case q of None \<Rightarrow> '''' | Some q \<Rightarrow> if q = '''' then '''' else ''?'' @ q),
      search_params = (case q of None \<Rightarrow> [] | Some q \<Rightarrow> form_parse q),
      u_query = q, u_fragment = f\<rparr>"

definition url_href :: "full_url \<Rightarrow> string" where
  "url_href u =
     url_origin (url.truncate u) @ pathname u
     @ (case u_query u of None \<Rightarrow> '''' | Some q \<Rightarrow> ''?'' @ q)
     @ (case u_fragment u of None \<Rightarrow> '''' | Some f \<Rightarrow> ''#'' @ f)"

definition url_segments :: "full_url \<Rightarrow> string list" where
  "url_segments u = split_char (CHR ''/'') (tl (pathname u))"

text \<open>\<open>url.search = \<dots>\<close> through \<open>searchParams.set\<close> or \<open>append\<close>: the query is written anew.\<close>

definition with_params :: "full_url \<Rightarrow> (string \<times> string) list \<Rightarrow> full_url" where
  "with_params u ps =
     (let q = form_serialize ps in
      u\<lparr>search := (if q = '''' then '''' else ''?'' @ q), search_params := ps,
        u_query := (if q = '''' then None else Some q)\<rparr>)"

fun params_set :: "(string \<times> string) list \<Rightarrow> string \<Rightarrow> string \<Rightarrow> (string \<times> string) list" where
  "params_set [] k v = [(k, v)]"
| "params_set ((k', v') # ps) k v =
     (if k' = k then (k, v) # filter (\<lambda>(k'', _). k'' \<noteq> k) ps else (k', v') # params_set ps k v)"

subsection \<open>Parsing\<close>

definition cut :: "char \<Rightarrow> string \<Rightarrow> string \<times> string option" where
  "cut x s = (takeWhile (\<lambda>c. c \<noteq> x) s,
     (case dropWhile (\<lambda>c. c \<noteq> x) s of [] \<Rightarrow> None | _ # r \<Rightarrow> Some r))"

definition enc_query :: "string \<Rightarrow> string" where "enc_query = pct_encode query_special"
definition enc_fragment :: "string \<Rightarrow> string" where "enc_fragment = pct_encode fragment_special"

text \<open>The rest of a URL after the authority, its path built on the segments \<open>acc\<close>.\<close>

definition parse_rest :: "string \<Rightarrow> string \<Rightarrow> string list \<Rightarrow> string \<Rightarrow> full_url" where
  "parse_rest scheme h acc s =
     (let (front, f) = cut (CHR ''#'') s; (p, q) = cut (CHR ''?'') front in
      mk_url scheme h (path_state acc (raw_segments p)) (map_option enc_query q) (map_option enc_fragment f))"

definition parse_special :: "string \<Rightarrow> string \<Rightarrow> full_url option" where
  "parse_special scheme s =
     (let r = dropWhile is_slash s;
          a = takeWhile (\<lambda>c. \<not> is_slash c \<and> c \<noteq> CHR ''?'' \<and> c \<noteq> CHR ''#'') r in
      map_option (\<lambda>h. parse_rest scheme h [] (drop (length a) r)) (parse_authority scheme a))"

definition url_scheme :: "full_url \<Rightarrow> string" where
  "url_scheme u = butlast (protocol u)"

definition resolve_relative :: "full_url \<Rightarrow> string \<Rightarrow> full_url option" where
  "resolve_relative base s =
     (case s of
        [] \<Rightarrow> Some (base\<lparr>u_fragment := None\<rparr>)
      | c # r \<Rightarrow>
          if is_slash c \<and> r \<noteq> [] \<and> is_slash (hd r) then parse_special (url_scheme base) (tl r)
          else if is_slash c then Some (parse_rest (url_scheme base) (host base) [] s)
          else if c = CHR ''#'' then Some (base\<lparr>u_fragment := Some (enc_fragment r)\<rparr>)
          else if c = CHR ''?'' then
            (let (q, f) = cut (CHR ''#'') r in
             Some (mk_url (url_scheme base) (host base) (url_segments base) (Some (enc_query q))
               (map_option enc_fragment f)))
          else Some (parse_rest (url_scheme base) (host base) (rev (butlast (url_segments base))) s))"

definition url_strip :: "string \<Rightarrow> string" where
  "url_strip s =
     filter (\<lambda>c. code c \<notin> {9, 10, 13})
       (rev (dropWhile (\<lambda>c. code c \<le> 32) (rev (dropWhile (\<lambda>c. code c \<le> 32) s))))"

definition scheme_char :: "char \<Rightarrow> bool" where
  "scheme_char c \<longleftrightarrow> alphanumeric c \<or> c \<in> {CHR ''+'', CHR ''-'', CHR ''.''}"

text \<open>A scheme and the text after its colon, when the text starts with one.\<close>

definition scheme_split :: "string \<Rightarrow> (string \<times> string) option" where
  "scheme_split s =
     (case cut (CHR '':'') s of
        (sch, Some r) \<Rightarrow>
          if sch \<noteq> '''' \<and> alphanumeric (hd sch) \<and> \<not> is_digit (hd sch) \<and> list_all scheme_char sch
          then Some (to_lower sch, r) else None
      | (sch, None) \<Rightarrow> None)"

definition parse_url :: "full_url option \<Rightarrow> string \<Rightarrow> full_url option" where
  "parse_url base s =
     (let t = url_strip s in
      case scheme_split t of
        Some (sch, r) \<Rightarrow>
          if sch = ''http'' \<or> sch = ''https'' then
            (case base of
               Some b \<Rightarrow>
                 if protocol b = sch @ '':'' \<and> \<not> starts_with r ''//'' then resolve_relative b r
                 else parse_special sch r
             | None \<Rightarrow> parse_special sch r)
          else None
      | None \<Rightarrow> (case base of Some b \<Rightarrow> resolve_relative b t | None \<Rightarrow> None))"


subsection \<open>Lemmas: escapes and forms\<close>

lemma hex_value_digit [simp]: "n < 16 \<Longrightarrow> hex_value (hex_digit n) = Some n"
  by (auto simp: hex_value_def hex_digit_def is_digit_def digit_val_def)

lemma pct_decode_pct [simp]: "b < 256 \<Longrightarrow> pct_decode (pct b @ s) = b # pct_decode s"
proof -
  assume "b < 256"
  then have "b div 16 < 16" "b mod 16 < 16" by auto
  then show ?thesis by (simp add: pct_def)
qed

lemma code_less [simp]: "code c < 256"
  by (metis of_char_mod_256 mod_less_divisor zero_less_numeral)

lemma utf8_encode_bytes: "b \<in> set (utf8_encode s) \<Longrightarrow> b < 256"
proof -
  have "192 + code c div 64 < 256" for c :: char
    using code_less [of c] by linarith
  moreover have "128 + code c mod 64 < 256" for c :: char
    using mod_less_divisor [of 64 "code c"] by linarith
  ultimately show "b \<in> set (utf8_encode s) \<Longrightarrow> b < 256"
    by (auto simp: utf8_encode_def split: if_splits)
qed

lemma pct_decode_bytes: "list_all (\<lambda>b. b < 256) bs \<Longrightarrow> pct_decode (concat (map pct bs) @ s) = bs @ pct_decode s"
  by (induction bs) auto

lemma pct_decode_pct_char [simp]: "pct_decode (pct_char c @ s) = utf8_encode [c] @ pct_decode s"
  using utf8_encode_bytes by (simp add: pct_char_def pct_decode_bytes list_all_iff)

lemma utf8_encode_cons: "utf8_encode (c # s) = utf8_encode [c] @ utf8_encode s"
  by (simp add: utf8_encode_def)

lemma hex_digit_graph: "n < 16 \<Longrightarrow> alphanumeric (hex_digit n)"
  by (auto simp: hex_digit_def alphanumeric_def is_digit_def)

lemma pct_char_set: "x \<in> set (pct_char c) \<Longrightarrow> x = CHR ''%'' \<or> alphanumeric x"
proof -
  assume "x \<in> set (pct_char c)"
  then obtain b where "b \<in> set (utf8_encode [c])" "x \<in> set (pct b)" by (auto simp: pct_char_def)
  then have "b < 256" "x \<in> {CHR ''%'', hex_digit (b div 16), hex_digit (b mod 16)}"
    using utf8_encode_bytes by (auto simp: pct_def)
  moreover then have "b div 16 < 16" "b mod 16 < 16" by auto
  ultimately show ?thesis using hex_digit_graph by auto
qed

lemma form_escape_cons: "form_escape (c # s) =
   (if alphanumeric c \<or> c \<in> {CHR ''*'', CHR ''-'', CHR ''.'', CHR ''_''} then [c]
     else if c = CHR '' '' then ''+'' else pct_char c) @ form_escape s"
  by (simp add: form_escape_def)

lemma form_escape_set: "x \<in> set (form_escape s) \<Longrightarrow>
   alphanumeric x \<or> x \<in> {CHR ''*'', CHR ''-'', CHR ''.'', CHR ''_'', CHR ''+'', CHR ''%''}"
  by (induction s) (auto simp: form_escape_def dest: pct_char_set split: if_splits)

lemma not_alphanumeric [simp]: "\<not> alphanumeric (CHR ''&'')" "\<not> alphanumeric (CHR ''='')" "\<not> alphanumeric (CHR ''%'')"
  "\<not> alphanumeric (CHR ''+'')" "\<not> alphanumeric (CHR '' '')" "\<not> alphanumeric (CHR ''/'')" "\<not> alphanumeric (CHR ''?'')" "\<not> alphanumeric (CHR ''#'')"
  "\<not> alphanumeric (CHR 0x5C)" "\<not> alphanumeric (CHR '':'')" "\<not> alphanumeric (CHR ''@'')"
  by (simp_all add: alphanumeric_def is_digit_def)

lemma form_escape_plain [simp]: "CHR ''&'' \<notin> set (form_escape s)" "CHR ''='' \<notin> set (form_escape s)"
  using form_escape_set by fastforce+

lemma unplus_id: "CHR ''+'' \<notin> set s \<Longrightarrow> map (\<lambda>c. if c = CHR ''+'' then CHR '' '' else c) s = s"
  by (induction s) auto

lemma unplus_pct_char [simp]: "map (\<lambda>c. if c = CHR ''+'' then CHR '' '' else c) (pct_char c) = pct_char c"
  using pct_char_set by (intro unplus_id) fastforce

lemma form_unescape_escape [simp]: "form_unescape (form_escape s) = s"
proof -
  have "pct_decode (map (\<lambda>c. if c = CHR ''+'' then CHR '' '' else c) (form_escape s)) = utf8_encode s"
  proof (induction s)
    case (Cons c s)
    have "c = CHR ''%'' \<Longrightarrow> \<not> alphanumeric c" by simp
    with Cons show ?case by (auto simp: form_escape_cons utf8_encode_cons [of c s] utf8_encode_def [of "''''"] split: if_splits)
  qed (simp add: form_escape_def utf8_encode_def)
  then show ?thesis by (simp add: form_unescape_def utf8_round_trip)
qed

lemma form_parse_serialize: "form_parse (form_serialize ps) = ps"
proof (cases "ps = []")
  case True
  then show ?thesis by (simp add: form_parse_def form_serialize_def)
next
  case False
  let ?e = "\<lambda>(k, v). form_escape k @ ''='' @ form_escape v"
  have split: "split_char (CHR ''&'') (form_serialize ps) = map ?e ps"
    unfolding form_serialize_def using False by (intro split_char_join) auto
  have pair: "form_pair (?e kv) = kv" for kv
  proof -
    obtain k v where kv: "kv = (k, v)" by fastforce
    have "index_of (CHR ''='') (form_escape k @ CHR ''='' # form_escape v) = Some (length (form_escape k))"
      by (rule index_of_append) simp
    then show ?thesis by (simp add: kv form_pair_def)
  qed
  have "filter (\<lambda>p. p \<noteq> '''') (map ?e ps) = map ?e ps"
    by (rule filter_True) auto
  then show ?thesis using pair by (simp add: form_parse_def split comp_def)
qed

subsection \<open>Lemmas: path segments\<close>

lemma alphanumeric_plain: "alphanumeric c \<or> c = CHR ''%'' \<Longrightarrow>
    \<not> path_special c \<and> \<not> query_special c \<and> \<not> fragment_special c \<and> \<not> is_slash c \<and> 32 < code c"
  by (auto simp: alphanumeric_def is_digit_def path_special_def query_special_def fragment_special_def
      control_char_def is_slash_def)

lemma pct_encode_plain:
  assumes "\<And>c. alphanumeric c \<or> c = CHR ''%'' \<Longrightarrow> \<not> special c"
  shows "list_all (\<lambda>c. \<not> special c) (pct_encode special s)"
proof -
  have "\<not> special x" if "x \<in> set (pct_char c)" for x c using pct_char_set [OF that] assms by blast
  then show ?thesis by (auto simp: list_all_iff pct_encode_def split: if_splits)
qed

lemma pct_encode_id: "list_all (\<lambda>c. \<not> special c) s \<Longrightarrow> pct_encode special s = s"
  by (induction s) (auto simp: pct_encode_def)

lemma pct_encode_no_slash:
  "list_all (\<lambda>c. \<not> is_slash c) s \<Longrightarrow> list_all (\<lambda>c. \<not> is_slash c) (pct_encode special s)"
  using pct_char_set alphanumeric_plain by (fastforce simp: list_all_iff pct_encode_def split: if_splits)

abbreviation dots :: "string set" where
  "dots \<equiv> {''.'', ''%2e'', ''..'', ''.%2e'', ''%2e.'', ''%2e%2e''}"

lemma in_set_js_join: "c \<in> set x \<Longrightarrow> x \<in> set xs \<Longrightarrow> c \<in> set (js_join sep xs)"
  by (induction sep xs rule: js_join.induct) auto

lemma list_all_conj: "list_all (\<lambda>x. P x \<and> Q x) xs \<longleftrightarrow> list_all P xs \<and> list_all Q xs"
  by (auto simp: list_all_iff)

lemma dots_escapes:
  assumes "d \<in> dots" "i + 2 < length d" "d ! i = CHR ''%''"
  shows "d ! (i + 1) = CHR ''2'' \<and> d ! (i + 2) = CHR ''e''"
proof -
  have "length d \<le> 6" using assms(1) by auto
  then have "i \<in> {0, 1, 2, 3}" using assms(2) by auto
  then show ?thesis using assms by auto
qed

lemma lower_hex:
  assumes "n < 16"
  shows "lower_char (hex_digit n) = CHR ''2'' \<Longrightarrow> n = 2" "lower_char (hex_digit n) = CHR ''e'' \<Longrightarrow> n = 14"
proof -
  have *: "code (lower_char (hex_digit n)) = (if n < 10 then 48 + n else 87 + n)"
    using assms by (simp add: lower_char_def hex_digit_def)
  show "n = 2" if "lower_char (hex_digit n) = CHR ''2''"
    using * [unfolded that] by (simp split: if_splits)
  show "n = 14" if "lower_char (hex_digit n) = CHR ''e''"
    using * [unfolded that] by (simp split: if_splits)
qed

lemma dots_no_special:
  assumes "to_lower (pct_encode path_special s) \<in> dots"
  shows "list_all (\<lambda>c. \<not> path_special c) s"
proof (rule ccontr)
  assume "\<not> list_all (\<lambda>c. \<not> path_special c) s"
  then obtain c where c: "c \<in> set s" "path_special c" by (auto simp: list_all_iff)
  then obtain a r where s: "s = a @ c # r" by (meson split_list)
  obtain b bs where b: "utf8_encode [c] = b # bs" "b < 256"
    using utf8_encode_bytes [of _ "[c]"] by (cases "utf8_encode [c]") (auto simp: utf8_encode_def split: if_splits)
  let ?e = "pct_encode path_special"
  let ?i = "length (to_lower (?e a))"
  have e: "?e s = ?e a @ CHR ''%'' # hex_digit (b div 16) # hex_digit (b mod 16) # concat (map pct bs) @ ?e r"
    using c by (simp add: s pct_encode_def pct_char_def b pct_def)
  have low: "to_lower (?e s) = to_lower (?e a) @ CHR ''%'' # lower_char (hex_digit (b div 16))
      # lower_char (hex_digit (b mod 16)) # to_lower (concat (map pct bs) @ ?e r)"
    by (simp add: e to_lower_def lower_char_def)
  have "to_lower (?e s) ! (?i + 1) = CHR ''2'' \<and> to_lower (?e s) ! (?i + 2) = CHR ''e''"
    by (rule dots_escapes [OF assms]) (simp_all add: low)
  then have "b div 16 = 2" "b mod 16 = 14"
    using lower_hex [of "b div 16"] lower_hex [of "b mod 16"] b(2) by (auto simp: low nth_append)
  then have "b = 46" by presburger
  with b c(2) show False by (auto simp: utf8_encode_def path_special_def control_char_def split: if_splits)
qed

definition seg_ok :: "string \<Rightarrow> bool" where
  "seg_ok s \<longleftrightarrow> \<not> single_dot s \<and> \<not> double_dot s \<and> list_all (\<lambda>c. \<not> path_special c \<and> \<not> is_slash c) s"

lemma seg_ok_Nil [simp]: "seg_ok []"
  by (simp add: seg_ok_def single_dot_def double_dot_def to_lower_def)

lemma seg_ok_encode:
  assumes "\<not> single_dot s" "\<not> double_dot s" "list_all (\<lambda>c. \<not> is_slash c) s"
  shows "seg_ok (pct_encode path_special s)"
proof -
  have "list_all (\<lambda>c. \<not> path_special c) (pct_encode path_special s)"
    by (rule pct_encode_plain) (use alphanumeric_plain in blast)
  moreover have "\<not> single_dot (pct_encode path_special s) \<and> \<not> double_dot (pct_encode path_special s)"
  proof (rule ccontr)
    assume "\<not> ?thesis"
    then have "to_lower (pct_encode path_special s) \<in> dots" by (auto simp: single_dot_def double_dot_def)
    then have "pct_encode path_special s = s" using dots_no_special pct_encode_id by blast
    with \<open>\<not> ?thesis\<close> assms show False by simp
  qed
  ultimately show ?thesis
    using pct_encode_no_slash [OF assms(3), of path_special] by (simp add: seg_ok_def list_all_conj)
qed

lemma list_all_tl: "list_all P xs \<Longrightarrow> list_all P (tl xs)"
  by (cases xs) auto

lemma path_state_ok:
  "list_all seg_ok acc \<Longrightarrow> list_all (list_all (\<lambda>c. \<not> is_slash c)) raw \<Longrightarrow> list_all seg_ok (path_state acc raw)"
proof (induction acc raw rule: path_state.induct)
  case (2 acc s)
  then show ?case by (auto simp: seg_ok_encode list_all_tl)
next
  case (3 acc s t ss)
  then show ?case by (auto simp: seg_ok_encode list_all_tl)
qed simp

lemma path_state_id: "list_all seg_ok raw \<Longrightarrow> path_state acc raw = rev acc @ raw"
proof (induction acc raw rule: path_state.induct)
  case (2 acc s)
  then show ?case by (simp add: seg_ok_def list_all_conj pct_encode_id)
next
  case (3 acc s t ss)
  then show ?case by (simp add: seg_ok_def list_all_conj pct_encode_id)
qed simp

lemma path_state_nonempty: "raw \<noteq> [] \<Longrightarrow> path_state acc raw \<noteq> []"
  by (induction acc raw rule: path_state.induct) auto

lemma raw_segments_ok: "list_all (list_all (\<lambda>c. \<not> is_slash c)) (raw_segments p)" "raw_segments p \<noteq> []"
proof -
  have "c \<noteq> CHR 0x5C" if "c \<in> set x" "x \<in> set (split_char (CHR ''/'') (map (\<lambda>c. if is_slash c then CHR ''/'' else c) q))"
    for c x q
  proof -
    have "c \<in> set (js_join ''/'' (split_char (CHR ''/'') (map (\<lambda>c. if is_slash c then CHR ''/'' else c) q)))"
      using that by (metis in_set_js_join)
    then show ?thesis by (auto simp: is_slash_def)
  qed
  moreover have "c \<noteq> CHR ''/''" if "c \<in> set x" "x \<in> set (split_char (CHR ''/'') q)" for c x q
    using that split_char_parts by fastforce
  ultimately show "list_all (list_all (\<lambda>c. \<not> is_slash c)) (raw_segments p)"
    by (fastforce simp: list_all_iff raw_segments_def is_slash_def)
qed (simp add: raw_segments_def)

subsection \<open>Lemmas: hosts\<close>

definition host_ok :: "string \<Rightarrow> string \<Rightarrow> bool" where
  "host_ok scheme h \<longleftrightarrow> parse_authority scheme h = Some h \<and> h \<noteq> ''''
     \<and> list_all (\<lambda>c. 32 < code c \<and> \<not> is_slash c \<and> c \<noteq> CHR ''?'' \<and> c \<noteq> CHR ''#'') h"

definition url_wf :: "full_url \<Rightarrow> bool" where
  "url_wf u \<longleftrightarrow> (\<exists>scheme segs. scheme \<in> {''http'', ''https''} \<and> host_ok scheme (host u)
     \<and> u = mk_url scheme (host u) segs (u_query u) (u_fragment u) \<and> segs \<noteq> [] \<and> list_all seg_ok segs
     \<and> (\<forall>q. u_query u = Some q \<longrightarrow> list_all (\<lambda>c. \<not> query_special c) q)
     \<and> (\<forall>f. u_fragment u = Some f \<longrightarrow> list_all (\<lambda>c. \<not> fragment_special c) f))"

lemma split_char_to_lower: "split_char (CHR ''.'') (to_lower s) = map to_lower (split_char (CHR ''.'') s)"
proof (induction s)
  case (Cons c s)
  have "lower_char c = CHR ''.'' \<longleftrightarrow> c = CHR ''.''"
  proof
    assume a: "lower_char c = CHR ''.''"
    show "c = CHR ''.''"
    proof (cases "65 \<le> code c \<and> code c \<le> 90 \<or> 192 \<le> code c \<and> code c \<le> 222 \<and> code c \<noteq> 215")
      case True
      then have "code (lower_char c) = code c + 32" by (auto simp: lower_char_def)
      with a True show ?thesis by auto
    next
      case False
      with a show ?thesis by (auto simp: lower_char_def)
    qed
  qed (simp add: lower_char_def)
  with Cons show ?case by (auto simp: to_lower_def split: list.splits)
qed (simp add: to_lower_def)

lemma lower_char_digit: "is_digit (lower_char c) \<longleftrightarrow> is_digit c"
  by (cases "65 \<le> code c \<and> code c \<le> 90 \<or> 192 \<le> code c \<and> code c \<le> 222 \<and> code c \<noteq> 215")
    (auto simp: lower_char_def is_digit_def)

lemma lower_char_ascii: "code c < 127 \<Longrightarrow> lower_char c = (if 65 \<le> code c \<and> code c \<le> 90 then char_of (code c + 32) else c)"
  by (simp add: lower_char_def)

lemma hex_value_lower: "hex_value (lower_char c) = None \<longleftrightarrow> hex_value c = None"
proof (cases "65 \<le> code c \<and> code c \<le> 90 \<or> 192 \<le> code c \<and> code c \<le> 222 \<and> code c \<noteq> 215")
  case True
  then have "code (lower_char c) = code c + 32" by (auto simp: lower_char_def)
  with True show ?thesis by (auto simp: hex_value_def is_digit_def)
qed (auto simp: lower_char_def)

lemma last_label_lower: "last_label (to_lower h) = to_lower (last_label h)"
proof -
  let ?ls = "split_char (CHR ''.'') h"
  have nil: "to_lower l = [] \<longleftrightarrow> l = []" for l by (simp add: to_lower_def)
  have "last (map to_lower (butlast ?ls)) = to_lower (last (butlast ?ls))" if "1 < length ?ls"
    using that by (intro last_map) (cases ?ls, auto)
  then show ?thesis
    by (simp add: last_label_def split_char_to_lower last_map nil Let_def map_butlast [symmetric])
qed

lemma ends_in_number_lower: "ends_in_number (to_lower h) = ends_in_number h"
proof -
  have nil: "to_lower l = '''' \<longleftrightarrow> l = ''''" for l by (simp add: to_lower_def)
  have digits: "list_all is_digit (to_lower l) = list_all is_digit l" for l
    by (simp add: to_lower_def list_all_iff lower_char_digit)
  have hex: "list_all (\<lambda>c. hex_value c \<noteq> None) (drop 2 (to_lower l)) = list_all (\<lambda>c. hex_value c \<noteq> None) (drop 2 l)" for l
    by (simp add: to_lower_def drop_map list_all_iff hex_value_lower del: not_None_eq)
  show ?thesis
    unfolding ends_in_number_def Let_def last_label_lower nil digits hex to_lower_idem ..
qed

lemma forbidden_lower: "\<not> forbidden_host_char c \<Longrightarrow> \<not> forbidden_host_char (lower_char c)"
proof -
  assume a: "\<not> forbidden_host_char c"
  then have "code c < 127" by (simp add: forbidden_host_char_def)
  show ?thesis
  proof (cases "65 \<le> code c \<and> code c \<le> 90")
    case True
    with \<open>code c < 127\<close> have "code (lower_char c) = code c + 32" by (simp add: lower_char_ascii)
    with True show ?thesis by (auto simp: forbidden_host_char_def)
  next
    case False
    with \<open>code c < 127\<close> have "lower_char c = c" by (auto simp: lower_char_def)
    with a show ?thesis by simp
  qed
qed

lemma digits_lower: "\<forall>c\<in>set s. is_digit c \<or> c = CHR ''.'' \<Longrightarrow> to_lower s = s"
  by (induction s) (auto simp: to_lower_def lower_char_def is_digit_def)

lemma parse_host_idem:
  assumes "parse_host h = Some h'"
  shows "parse_host h' = Some h' \<and> h' \<noteq> '''' \<and> list_all (\<lambda>c. \<not> forbidden_host_char c) h'"
proof -
  have a: "h \<noteq> ''''" "\<forall>c\<in>set h. \<not> forbidden_host_char c" "h' = to_lower h"
    "\<not> (ends_in_number h \<and> parse_ipv4 h = None)"
    using assms by (auto simp: parse_host_def list_ex_iff split: if_splits)
  have b: "h' \<noteq> ''''" "\<forall>c\<in>set h'. \<not> forbidden_host_char c"
    using a forbidden_lower by (auto simp: to_lower_def)
  have "\<not> (ends_in_number h' \<and> parse_ipv4 h' = None)"
  proof
    assume e: "ends_in_number h' \<and> parse_ipv4 h' = None"
    then have "ends_in_number h" using a(3) ends_in_number_lower by simp
    with a(4) obtain n where "parse_ipv4 h = Some n" by auto
    then have "to_lower h = h" using parse_ipv4_Some format_ipv4_chars by (metis digits_lower)
    with a e \<open>parse_ipv4 h = Some n\<close> show False by simp
  qed
  with b show ?thesis using a(3) by (auto simp: parse_host_def list_ex_iff list_all_iff)
qed

subsection \<open>Well-formed URLs\<close>

lemma digit_plain: "is_digit c \<Longrightarrow> c \<noteq> CHR '':'' \<and> c \<noteq> CHR ''@'' \<and> c \<noteq> CHR ''?'' \<and> c \<noteq> CHR ''#'' \<and> \<not> is_slash c \<and> 32 < code c"
  by (auto simp: is_digit_def is_slash_def)

lemma not_forbidden_plain: "\<not> forbidden_host_char c \<Longrightarrow>
   c \<noteq> CHR '':'' \<and> c \<noteq> CHR ''@'' \<and> c \<noteq> CHR ''?'' \<and> c \<noteq> CHR ''#'' \<and> \<not> is_slash c \<and> 32 < code c"
  by (auto simp: forbidden_host_char_def is_slash_def)

lemma digits_val_Nil [simp]: "digits_val [] = 0"
  by (simp add: digits_val_def)

lemma parse_port_idem:
  assumes "parse_port scheme p = Some p'"
  shows "p' = '''' \<or> (\<exists>d. p' = '':'' @ d \<and> list_all is_digit d)" "parse_port scheme (tl p') = Some p'"
  using assms nat_to_string_digits
  by (auto simp: parse_port_def list_all_iff digits_val_Nil split: if_splits)

lemma parse_authority_ok:
  assumes "parse_authority scheme a = Some h"
  shows "host_ok scheme h"
proof -
  obtain h' p' p where parts: "parse_host (takeWhile (\<lambda>c. c \<noteq> CHR '':'') a) = Some h'"
      "parse_port scheme p = Some p'" "h = h' @ p'"
    using assms by (auto simp: parse_authority_def Let_def split: if_splits option.splits)
  note h' = parse_host_idem [OF parts(1)] and p' = parse_port_idem [OF parts(2)]
  have plain: "c \<noteq> CHR '':'' \<and> c \<noteq> CHR ''@'' \<and> c \<noteq> CHR ''?'' \<and> c \<noteq> CHR ''#'' \<and> \<not> is_slash c \<and> 32 < code c" if "c \<in> set h'" for c
    using h' not_forbidden_plain that by (auto simp: list_all_iff)
  have port: "c = CHR '':'' \<or> is_digit c" if "c \<in> set p'" for c
    using p'(1) that by (auto simp: list_all_iff)
  have "takeWhile (\<lambda>c. c \<noteq> CHR '':'') (h' @ p') = h'" "dropWhile (\<lambda>c. c \<noteq> CHR '':'') (h' @ p') = p'"
    using plain p'(1) by (auto simp: takeWhile_append dropWhile_append)
  moreover have "CHR ''@'' \<notin> set (h' @ p')" using plain port digit_plain by auto
  ultimately have "parse_authority scheme h = Some h"
    using h' p'(2) parts(3) by (simp add: parse_authority_def)
  moreover have "list_all (\<lambda>c. 32 < code c \<and> \<not> is_slash c \<and> c \<noteq> CHR ''?'' \<and> c \<noteq> CHR ''#'') h"
    using plain port digit_plain by (fastforce simp: parts(3) list_all_iff is_slash_def)
  ultimately show ?thesis using h' parts(3) by (simp add: host_ok_def)
qed

lemma seg_ok_no_slash: "seg_ok s \<Longrightarrow> CHR ''/'' \<notin> set s"
  by (auto simp: seg_ok_def list_all_iff is_slash_def)

lemma mk_url_sel [simp]:
  "host (mk_url sc h segs q f) = h" "u_query (mk_url sc h segs q f) = q" "u_fragment (mk_url sc h segs q f) = f"
  "url_scheme (mk_url sc h segs q f) = sc" "protocol (mk_url sc h segs q f) = sc @ '':''"
  "pathname (mk_url sc h segs q f) = ''/'' @ js_join ''/'' segs"
  by (simp_all add: mk_url_def url_scheme_def)

lemma mk_url_segments [simp]:
  "segs \<noteq> [] \<Longrightarrow> list_all seg_ok segs \<Longrightarrow> url_segments (mk_url sc h segs q f) = segs"
  using seg_ok_no_slash by (simp add: url_segments_def list_all_iff split_char_join)

lemma mk_url_update [simp]:
  "(mk_url sc h segs q f)\<lparr>u_fragment := f'\<rparr> = mk_url sc h segs q f'"
  by (simp add: mk_url_def)

lemma mk_url_wf:
  "scheme \<in> {''http'', ''https''} \<Longrightarrow> host_ok scheme h \<Longrightarrow> segs \<noteq> [] \<Longrightarrow> list_all seg_ok segs \<Longrightarrow>
   \<forall>x. q = Some x \<longrightarrow> list_all (\<lambda>c. \<not> query_special c) x \<Longrightarrow>
   \<forall>x. f = Some x \<longrightarrow> list_all (\<lambda>c. \<not> fragment_special c) x \<Longrightarrow> url_wf (mk_url scheme h segs q f)"
  by (auto simp: url_wf_def)

lemma enc_query_ok: "list_all (\<lambda>c. \<not> query_special c) (enc_query s)"
  unfolding enc_query_def by (rule pct_encode_plain) (use alphanumeric_plain in blast)
lemma enc_fragment_ok: "list_all (\<lambda>c. \<not> fragment_special c) (enc_fragment s)"
  unfolding enc_fragment_def by (rule pct_encode_plain) (use alphanumeric_plain in blast)

lemma parse_rest_wf:
  "scheme \<in> {''http'', ''https''} \<Longrightarrow> host_ok scheme h \<Longrightarrow> list_all seg_ok acc \<Longrightarrow> url_wf (parse_rest scheme h acc s)"
  unfolding parse_rest_def Let_def case_prod_beta
  by (rule mk_url_wf) (auto simp: path_state_ok raw_segments_ok path_state_nonempty enc_query_ok enc_fragment_ok)

lemma parse_special_wf:
  "scheme \<in> {''http'', ''https''} \<Longrightarrow> parse_special scheme s = Some u \<Longrightarrow> url_wf u"
  by (auto simp: parse_special_def Let_def intro: parse_rest_wf parse_authority_ok)

lemma url_wfE:
  assumes "url_wf u"
  obtains scheme h segs q f where "u = mk_url scheme h segs q f" "scheme \<in> {''http'', ''https''}" "host_ok scheme h"
    "segs \<noteq> []" "list_all seg_ok segs" "\<forall>x. q = Some x \<longrightarrow> list_all (\<lambda>c. \<not> query_special c) x"
    "\<forall>x. f = Some x \<longrightarrow> list_all (\<lambda>c. \<not> fragment_special c) x"
  using assms unfolding url_wf_def by (elim exE conjE) blast

lemma resolve_relative_wf:
  assumes "url_wf base" "resolve_relative base s = Some u"
  shows "url_wf u"
proof -
  obtain scheme h segs q f where b: "base = mk_url scheme h segs q f" "scheme \<in> {''http'', ''https''}" "host_ok scheme h"
    "segs \<noteq> []" "list_all seg_ok segs" "\<forall>x. q = Some x \<longrightarrow> list_all (\<lambda>c. \<not> query_special c) x"
    "\<forall>x. f = Some x \<longrightarrow> list_all (\<lambda>c. \<not> fragment_special c) x"
    by (rule url_wfE [OF assms(1)])
  have acc: "list_all seg_ok (rev (butlast segs))"
    using b(5) by (auto simp: list_all_iff dest: in_set_butlastD)
  show ?thesis
  proof (cases s)
    case Nil
    then show ?thesis using assms(2) b by (auto simp: resolve_relative_def intro!: mk_url_wf)
  next
    case (Cons c r)
    consider "is_slash c" "r \<noteq> []" "is_slash (hd r)" | "is_slash c" "\<not> (r \<noteq> [] \<and> is_slash (hd r))"
      | "\<not> is_slash c" by blast
    then show ?thesis
    proof cases
      case 1
      then show ?thesis using assms(2) b(2) Cons by (auto simp: resolve_relative_def b(1) intro: parse_special_wf)
    next
      case 2
      then show ?thesis using assms(2) b(2,3) Cons by (auto simp: resolve_relative_def b(1) intro!: parse_rest_wf)
    next
      case 3
      then show ?thesis using assms(2) b acc Cons
        by (auto simp: resolve_relative_def enc_query_ok enc_fragment_ok Let_def case_prod_beta
            intro!: mk_url_wf parse_rest_wf split: if_splits)
    qed
  qed
qed

lemma parse_url_wf:
  assumes "parse_url base s = Some u" "\<And>b. base = Some b \<Longrightarrow> url_wf b"
  shows "url_wf u"
  using assms parse_special_wf resolve_relative_wf
  by (auto simp: parse_url_def Let_def split: option.splits if_splits)

lemma cut_none: "x \<notin> set a \<Longrightarrow> cut x a = (a, None)"
  by (induction a) (auto simp: cut_def)

lemma cut_some: "x \<notin> set a \<Longrightarrow> cut x (a @ x # b) = (a, Some b)"
  by (induction a) (auto simp: cut_def)

lemma url_strip_id: "list_all (\<lambda>c. 32 < code c) s \<Longrightarrow> url_strip s = s"
proof -
  assume a: "list_all (\<lambda>c. 32 < code c) s"
  have "dropWhile (\<lambda>c. code c \<le> 32) s = s" "dropWhile (\<lambda>c. code c \<le> 32) (rev s) = rev s"
    using a by (auto intro!: dropWhile_id simp: list_all_iff) (metis hd_in_set not_le set_rev rev_is_Nil_conv)+
  moreover have "filter (\<lambda>c. code c \<notin> {9, 10, 13}) s = s"
    using a by (intro filter_True) (auto simp: list_all_iff)
  ultimately show ?thesis by (simp add: url_strip_def)
qed

lemma set_joined: "set (js_join sep xs) \<subseteq> set sep \<union> \<Union> (set ` set xs)"
  by (induction sep xs rule: js_join.induct) auto

lemma raw_segments_join:
  assumes "segs \<noteq> []" "list_all seg_ok segs"
  shows "raw_segments (CHR ''/'' # js_join ''/'' segs) = segs"
proof -
  have "c = CHR ''/'' \<or> (\<exists>s \<in> set segs. c \<in> set s)" if "c \<in> set (js_join ''/'' segs)" for c
    using that set_joined [of "''/''" segs] by auto
  moreover have "\<not> is_slash c" if "c \<in> set s" "s \<in> set segs" for c s
    using that assms(2) by (simp add: list_all_iff seg_ok_def)
  ultimately have "map (\<lambda>c. if is_slash c then CHR ''/'' else c) (js_join ''/'' segs) = js_join ''/'' segs"
    by (intro map_idI) (metis is_slash_def)
  then show ?thesis
    using assms seg_ok_no_slash by (simp add: raw_segments_def is_slash_def list_all_iff split_char_join)
qed

subsection \<open>Printing and parsing again\<close>

lemma href_mk_url: "url_href (mk_url sc h segs q f) = sc @ ''://'' @ h @ ''/'' @ js_join ''/'' segs
   @ (case q of None \<Rightarrow> '''' | Some q \<Rightarrow> ''?'' @ q) @ (case f of None \<Rightarrow> '''' | Some f \<Rightarrow> ''#'' @ f)"
  by (simp add: url_href_def url_origin_def mk_url_def url.truncate_def)

text \<open>Whatever follows the authority, a URL text parses to that authority.\<close>

lemma parse_special_authority:
  assumes "host_ok scheme h" "rest = '''' \<or> hd rest = CHR ''/'' \<or> hd rest = CHR ''?'' \<or> hd rest = CHR ''#''"
  shows "parse_special scheme (''//'' @ h @ rest) = Some (parse_rest scheme h [] rest)"
proof -
  have h: "h \<noteq> []" "\<forall>c\<in>set h. \<not> is_slash c \<and> c \<noteq> CHR ''?'' \<and> c \<noteq> CHR ''#''"
    using assms(1) by (auto simp: host_ok_def list_all_iff)
  have "dropWhile is_slash (''//'' @ h @ rest) = h @ rest"
    using h by (cases h) (auto simp: is_slash_def)
  moreover have "takeWhile (\<lambda>c. \<not> is_slash c \<and> c \<noteq> CHR ''?'' \<and> c \<noteq> CHR ''#'') (h @ rest) = h"
    using h assms(2) by (cases rest) (auto simp: takeWhile_append is_slash_def)
  ultimately show ?thesis using assms(1) by (simp add: parse_special_def host_ok_def)
qed

lemma scheme_split_http:
  "scheme \<in> {''http'', ''https''} \<Longrightarrow> scheme_split (scheme @ '':'' @ r) = Some (scheme, r)"
  by (auto simp: scheme_split_def cut_def alphanumeric_def is_digit_def scheme_char_def to_lower_def lower_char_def)

lemma parse_url_absolute:
  assumes "scheme \<in> {''http'', ''https''}" "host_ok scheme h" "list_all (\<lambda>c. 32 < code c) rest"
    and "rest = '''' \<or> hd rest = CHR ''/'' \<or> hd rest = CHR ''?'' \<or> hd rest = CHR ''#''"
  shows "parse_url base (scheme @ ''://'' @ h @ rest) = Some (parse_rest scheme h [] rest)"
proof -
  have http: "list_all (\<lambda>c. 32 < code c) scheme" using assms(1) by auto
  have "list_all (\<lambda>c. 32 < code c) (scheme @ ''://'' @ h @ rest)"
    using http assms(2,3) by (auto simp: host_ok_def list_all_iff)
  then have "url_strip (scheme @ ''://'' @ h @ rest) = scheme @ '':'' @ (''//'' @ h @ rest)"
    by (simp add: url_strip_id)
  then have "scheme_split (url_strip (scheme @ ''://'' @ h @ rest)) = Some (scheme, ''//'' @ h @ rest)"
    using scheme_split_http [OF assms(1)] by presburger
  then show ?thesis
    using assms(1) parse_special_authority [OF assms(2,4)]
    by (cases base) (auto simp: parse_url_def starts_with_def)
qed

lemma query_plain: "\<not> query_special c \<Longrightarrow> 32 < code c \<and> c \<noteq> CHR ''#''"
  by (auto simp: query_special_def control_char_def)
lemma fragment_plain: "\<not> fragment_special c \<Longrightarrow> 32 < code c"
  by (auto simp: fragment_special_def control_char_def)
lemma path_plain: "\<not> path_special c \<Longrightarrow> 32 < code c \<and> c \<noteq> CHR ''#'' \<and> c \<noteq> CHR ''?''"
proof -
  assume "\<not> path_special c"
  then have "\<not> code c < 32" "code c \<noteq> 32" "c \<noteq> CHR ''#''" "c \<noteq> CHR ''?''"
    by (auto simp: path_special_def control_char_def)
  then show ?thesis by linarith
qed

lemma join_segs_plain:
  "list_all seg_ok segs \<Longrightarrow> c \<in> set (js_join ''/'' segs) \<Longrightarrow> 32 < code c \<and> c \<noteq> CHR ''#'' \<and> c \<noteq> CHR ''?''"
proof -
  assume ok: "list_all seg_ok segs" and c: "c \<in> set (js_join ''/'' segs)"
  then have "c = CHR ''/'' \<or> (\<exists>s \<in> set segs. c \<in> set s)" using set_joined [of "''/''" segs] by auto
  moreover have "\<not> path_special c" if "c \<in> set s" "s \<in> set segs" for s
    using that ok by (simp add: list_all_iff seg_ok_def)
  ultimately show ?thesis using path_plain [of c] by auto
qed

lemma parse_rest_id:
  assumes "segs \<noteq> []" "list_all seg_ok segs"
    "\<forall>x. q = Some x \<longrightarrow> list_all (\<lambda>c. \<not> query_special c) x"
    "\<forall>x. f = Some x \<longrightarrow> list_all (\<lambda>c. \<not> fragment_special c) x"
  shows "parse_rest sc h [] (CHR ''/'' # js_join ''/'' segs
    @ (case q of None \<Rightarrow> '''' | Some q \<Rightarrow> ''?'' @ q) @ (case f of None \<Rightarrow> '''' | Some f \<Rightarrow> ''#'' @ f)) = mk_url sc h segs q f"
proof -
  let ?p = "CHR ''/'' # js_join ''/'' segs"
  let ?q = "case q of None \<Rightarrow> '''' | Some q \<Rightarrow> ''?'' @ q"
  have p: "CHR ''#'' \<notin> set ?p" "CHR ''?'' \<notin> set ?p" using join_segs_plain [OF assms(2)] by auto
  have q: "CHR ''#'' \<notin> set ?q" using assms(3) query_plain by (fastforce simp: list_all_iff split: option.splits)
  have cut1: "cut (CHR ''#'') (?p @ ?q @ (case f of None \<Rightarrow> '''' | Some f \<Rightarrow> ''#'' @ f)) = (?p @ ?q, f)"
    using p q cut_none [of "CHR ''#''" "?p @ ?q"] cut_some [of "CHR ''#''" "?p @ ?q"]
    by (cases f) auto
  have cut2: "cut (CHR ''?'') (?p @ ?q) = (?p, q)"
    using p cut_none [of "CHR ''?''" "?p"] cut_some [of "CHR ''?''" "?p"] by (cases q) auto
  have "map_option enc_query q = q" "map_option enc_fragment f = f"
    using assms(3,4) by (cases q; cases f; simp add: enc_query_def enc_fragment_def pct_encode_id)+
  then show ?thesis
    using assms(1,2) cut1 cut2 by (simp add: parse_rest_def raw_segments_join path_state_id)
qed

text \<open>A parsed URL, printed and parsed again, is the same URL.\<close>

lemma parse_url_href: "url_wf u \<Longrightarrow> parse_url base (url_href u) = Some u"
proof -
  assume "url_wf u"
  then obtain sc h segs q f where u: "u = mk_url sc h segs q f" "sc \<in> {''http'', ''https''}" "host_ok sc h"
    "segs \<noteq> []" "list_all seg_ok segs" "\<forall>x. q = Some x \<longrightarrow> list_all (\<lambda>c. \<not> query_special c) x"
    "\<forall>x. f = Some x \<longrightarrow> list_all (\<lambda>c. \<not> fragment_special c) x"
    by (rule url_wfE)
  let ?rest = "CHR ''/'' # js_join ''/'' segs
    @ (case q of None \<Rightarrow> '''' | Some q \<Rightarrow> ''?'' @ q) @ (case f of None \<Rightarrow> '''' | Some f \<Rightarrow> ''#'' @ f)"
  have "list_all (\<lambda>c. 32 < code c) ?rest"
    using join_segs_plain [OF u(5)] u(6,7) query_plain fragment_plain
    by (fastforce simp: list_all_iff split: option.splits)
  then have "parse_url base (sc @ ''://'' @ h @ ?rest) = Some (parse_rest sc h [] ?rest)"
    using u(2,3) by (intro parse_url_absolute) auto
  with parse_rest_id [OF u(4-7)] show ?thesis by (simp add: u(1) href_mk_url)
qed


subsection \<open>Staying on an origin\<close>

lemma parse_rest_origin: "url_origin (url.truncate (parse_rest sc h acc s)) = sc @ ''://'' @ h"
  by (simp add: parse_rest_def Let_def case_prod_beta url_origin_def mk_url_def url.truncate_def)

lemma url_origin_truncate [simp]: "url_origin (url.truncate u) = protocol u @ ''//'' @ host u"
  by (simp add: url_origin_def url.truncate_def)

lemma parse_rest_host [simp]: "host (parse_rest sc h acc s) = h" "protocol (parse_rest sc h acc s) = sc @ '':''"
  by (simp_all add: parse_rest_def Let_def case_prod_beta)

text \<open>A reference of one leading slash (of either direction) keeps the base's authority.\<close>

lemma resolve_local_path:
  assumes "url_wf base" "is_slash c" "\<not> (r \<noteq> [] \<and> is_slash (hd r))"
  shows "\<exists>u. resolve_relative base (c # r) = Some u \<and> protocol u = protocol base \<and> host u = host base"
proof -
  obtain sc h segs q f where "base = mk_url sc h segs q f" by (rule url_wfE [OF assms(1)])
  with assms show ?thesis by (auto simp: resolve_relative_def)
qed


lemma strip_end_prefix: "\<exists>s. u = rev (dropWhile P (rev u)) @ s \<and> (\<forall>c\<in>set s. P c)"
proof -
  have "rev u = takeWhile P (rev u) @ dropWhile P (rev u)" by simp
  then have "u = rev (dropWhile P (rev u)) @ rev (takeWhile P (rev u))" by (metis rev_append rev_rev_ident)
  moreover have "\<forall>c\<in>set (rev (takeWhile P (rev u))). P c" by (auto dest: set_takeWhileD)
  ultimately show ?thesis by blast
qed

subsection \<open>Concrete hosts and segments\<close>

lemmas host_simps = host_ok_def parse_authority_def parse_host_def parse_port_def ends_in_number_def last_label_def
  forbidden_host_char_def is_slash_def is_digit_def to_lower_def lower_char_def starts_with_def
lemmas seg_simps = seg_ok_def path_special_def control_char_def is_slash_def single_dot_def double_dot_def
  to_lower_def lower_char_def

lemma example_host: "host_ok ''https'' ''app.test''" "host_ok ''http'' ''api.test''"
  by (simp_all add: host_simps)

end
