(* ===== verification/AuthOidc.thy ===== *)
theory AuthOidc
  imports Url
begin

section \<open>Authentication URLs (\<open>sdk/src/auth-oidc.ts\<close>)\<close>

text \<open>
  The builders of the URLs and forms the authentication UI navigates to, and the guard every
  redirect of the program goes through, \<open>isSafeReturnUrl\<close>. A thrown \<open>TypeError\<close> is \<open>Inl\<close> of
  its message.
\<close>

definition normalize_origin :: "string \<Rightarrow> string" where
  "normalize_origin origin = strip_trailing (CHR ''/'') origin"

subsection \<open>The return-URL guard\<close>

text \<open>\<open>replaceAll(/%5c/gi, "\\")\<close>\<close>

fun decode_backslashes :: "string \<Rightarrow> string" where
  "decode_backslashes (a # b # c # s) =
     (if a = CHR ''%'' \<and> b = CHR ''5'' \<and> (c = CHR ''c'' \<or> c = CHR ''C'') then CHR 0x5C # decode_backslashes s
      else a # decode_backslashes (b # c # s))"
| "decode_backslashes s = s"

definition is_safe_return_url :: "string option \<Rightarrow> bool" where
  "is_safe_return_url url =
     (case url of
        None \<Rightarrow> False
      | Some u \<Rightarrow>
          if js_trim u = '''' then False
          else
            (let n1 = filter (\<lambda>c. code c \<notin> {9, 10, 13}) u;
                 n2 = decode_backslashes n1;
                 normalized = map (\<lambda>c. if c = CHR 0x5C then CHR ''/'' else c) n2 in
             starts_with normalized ''/'' \<and> \<not> starts_with normalized ''//''))"

definition assert_safe_return_url :: "string \<Rightarrow> string + unit" where
  "assert_safe_return_url return_url =
     (if \<not> is_safe_return_url (Some return_url) then Inl (''unsafe return url: '' @ return_url) else Inr ())"

subsection \<open>Authorization and consent\<close>

definition build_connect_authorize_url :: "string \<Rightarrow> (string \<times> string) list \<Rightarrow> string" where
  "build_connect_authorize_url origin params =
     (let url = normalize_origin origin @ ''/connect/authorize''; query = form_serialize params in
      if query = '''' then url else url @ ''?'' @ query)"

definition consent_token_field :: string where "consent_token_field = ''consent_token''"

record consent_submission =
  cs_action :: string
  cs_fields :: "(string \<times> string) list"

definition build_consent_submission ::
    "string \<Rightarrow> string option \<Rightarrow> string option \<Rightarrow> string + consent_submission" where
  "build_consent_submission origin return_url consent_token =
     (case (case return_url of
              None \<Rightarrow> Inr ''/''
            | Some r \<Rightarrow> (case assert_safe_return_url r of Inl e \<Rightarrow> Inl e | Inr _ \<Rightarrow> Inr r)) of
        Inl e \<Rightarrow> Inl e
      | Inr target \<Rightarrow>
          (let parts = split_char (CHR ''?'') target;
               path = hd parts;
               query = js_join ''?'' (tl parts);
               fields = form_parse query
                 @ (case consent_token of Some t \<Rightarrow> [(consent_token_field, t)] | None \<Rightarrow> []) in
           Inr \<lparr>cs_action = normalize_origin origin @ path, cs_fields = fields\<rparr>))"

subsection \<open>The exchange ticket\<close>

datatype return_target = Bare string | AllowListed string

definition hand_off_schemes :: "string list" where "hand_off_schemes = [''http'', ''https'']"

text \<open>A text that starts with another scheme is an absolute URL, but not one to hand off to.\<close>

definition assert_hand_off_url :: "string \<Rightarrow> string + unit" where
  "assert_hand_off_url url =
     (case scheme_split (url_strip url) of
        Some (scheme, _) \<Rightarrow>
          if scheme \<notin> set hand_off_schemes then Inl (''allow-listed return url is not http(s): '' @ url)
          else if parse_url None url = None then Inl (''allow-listed return url is not absolute: '' @ url)
          else Inr ()
      | None \<Rightarrow> Inl (''allow-listed return url is not absolute: '' @ url))"

definition allow_listed_return_url :: "string \<Rightarrow> bool \<Rightarrow> string + return_target" where
  "allow_listed_return_url url allowed =
     (if \<not> allowed then Inl (''return url is not allow-listed: '' @ url)
      else (case assert_hand_off_url url of Inl e \<Rightarrow> Inl e | Inr _ \<Rightarrow> Inr (AllowListed url)))"

definition resolve_hand_off_return_url :: "return_target \<Rightarrow> string + string" where
  "resolve_hand_off_return_url return_url =
     (case return_url of
        Bare r \<Rightarrow> (case assert_safe_return_url r of Inl e \<Rightarrow> Inl e | Inr _ \<Rightarrow> Inr r)
      | AllowListed u \<Rightarrow> (case assert_hand_off_url u of Inl e \<Rightarrow> Inl e | Inr _ \<Rightarrow> Inr u))"

definition build_exchange_ticket_url ::
    "string \<Rightarrow> string \<Rightarrow> return_target \<Rightarrow> string option \<Rightarrow> string + string" where
  "build_exchange_ticket_url origin ticket return_url client_id =
     (if js_trim ticket = '''' then Inl ''ticket is required to build an exchange-ticket url''
      else
        (case resolve_hand_off_return_url return_url of
           Inl e \<Rightarrow> Inl e
         | Inr target \<Rightarrow>
             (let base = normalize_origin origin @ ''/v1/identity/auth/exchange-ticket''
                    @ ''?ticket='' @ encode_uri_component ticket
                    @ ''&returnUrl='' @ encode_uri_component target in
              case client_id of
                None \<Rightarrow> Inr base
              | Some c \<Rightarrow> if js_trim c = '''' then Inr base
                          else Inr (base @ ''&clientId='' @ encode_uri_component c))))"

definition build_connect_logout_url :: "string \<Rightarrow> string option \<Rightarrow> string" where
  "build_connect_logout_url origin post_logout_redirect_uri =
     (let url = normalize_origin origin @ ''/connect/logout'' in
      case post_logout_redirect_uri of
        None \<Rightarrow> url
      | Some p \<Rightarrow> if p = '''' then url
                  else url @ ''?post_logout_redirect_uri='' @ encode_uri_component p)"

subsection \<open>Lemmas\<close>

definition dropped :: "char \<Rightarrow> bool" where "dropped c \<longleftrightarrow> code c \<in> {9, 10, 13}"

lemma dropped_low: "dropped c \<Longrightarrow> code c \<le> 32"
  by (auto simp: dropped_def)

lemma filter_dropWhile_low:
  "filter (\<lambda>c. \<not> dropped c) u \<noteq> [] \<Longrightarrow> 32 < code (hd (filter (\<lambda>c. \<not> dropped c) u)) \<Longrightarrow>
   filter (\<lambda>c. \<not> dropped c) (dropWhile (\<lambda>c. code c \<le> 32) u) = filter (\<lambda>c. \<not> dropped c) u"
proof (induction u)
  case (Cons c u)
  show ?case
  proof (cases "code c \<le> 32")
    case True
    with Cons.prems have "dropped c" by (cases "dropped c") auto
    then have eq: "filter (\<lambda>c. \<not> dropped c) (c # u) = filter (\<lambda>c. \<not> dropped c) u" by simp
    have "filter (\<lambda>c. \<not> dropped c) (dropWhile (\<lambda>c. code c \<le> 32) u) = filter (\<lambda>c. \<not> dropped c) u"
      using Cons.IH Cons.prems unfolding eq by blast
    with True eq show ?thesis by (simp only: dropWhile.simps if_True)
  next
    case False
    then show ?thesis by (simp only: dropWhile.simps if_False)
  qed
qed simp

lemma url_strip_prefix:
  assumes "filter (\<lambda>c. \<not> dropped c) u = c # r" "32 < code c"
  shows "\<exists>r' s. url_strip u = c # r' \<and> r = r' @ s"
proof -
  let ?F = "filter (\<lambda>c. \<not> dropped c)"
  define v where "v = dropWhile (\<lambda>c. code c \<le> 32) u"
  define t where "t = rev (dropWhile (\<lambda>c. code c \<le> 32) (rev v))"
  obtain s where s: "v = t @ s" "\<forall>c\<in>set s. code c \<le> 32"
    unfolding t_def using strip_end_prefix [of v "\<lambda>c. code c \<le> 32"] by (elim exE conjE)
  have "?F v = c # r" using filter_dropWhile_low [of u] assms by (simp add: v_def)
  then have F: "?F t @ ?F s = c # r" by (simp add: s(1))
  have "c \<notin> set (?F s)" using s(2) assms(2) by auto
  then obtain r' where "?F t = c # r'" "r = r' @ ?F s"
    using F by (cases "?F t") (auto simp del: set_filter)
  moreover have "url_strip u = ?F t" by (simp add: url_strip_def dropped_def t_def v_def)
  ultimately show ?thesis by (intro exI [of _ r'] exI [of _ "?F s"]) simp
qed

text \<open>What the guard lets through starts with one slash, or with an escaped backslash.\<close>

lemma safe_shape:
  assumes "is_safe_return_url (Some u)"
  obtains c r where "filter (\<lambda>c. \<not> dropped c) u = c # r" "32 < code c"
    "is_slash c \<and> \<not> (r \<noteq> [] \<and> is_slash (hd r)) \<or> c = CHR ''%''"
proof -
  let ?n = "filter (\<lambda>c. code c \<notin> {9, 10, 13}) u"
  let ?m = "map (\<lambda>c. if c = CHR 0x5C then CHR ''/'' else c)"
  have safe: "starts_with (?m (decode_backslashes ?n)) ''/''" "\<not> starts_with (?m (decode_backslashes ?n)) ''//''"
    using assms by (auto simp: is_safe_return_url_def Let_def split: if_splits)
  have n: "filter (\<lambda>c. \<not> dropped c) u = ?n" by (simp add: dropped_def)
  have "?n \<noteq> []" using safe(1) by (auto simp: starts_with_def)
  then obtain c r where cr: "?n = c # r" by (cases ?n) auto
  show ?thesis
  proof (cases "c = CHR ''%''")
    case True
    then show ?thesis using that [of c r] cr n by simp
  next
    case False
    have d: "decode_backslashes (c # s) = c # decode_backslashes s" for s
    proof (cases s)
      case (Cons b t)
      then show ?thesis using False by (cases t) auto
    qed simp
    have "is_slash c"
      using safe(1) [unfolded cr d] by (auto simp: starts_with_def is_slash_def split: if_splits)
    moreover have "\<not> (r \<noteq> [] \<and> is_slash (hd r))"
    proof
      assume r: "r \<noteq> [] \<and> is_slash (hd r)"
      then obtain b t where bt: "r = b # t" "is_slash b" by (cases r) auto
      then have "decode_backslashes r = b # decode_backslashes t"
        by (cases t rule: decode_backslashes.cases) (auto simp: is_slash_def split: list.splits)
      with safe(2) [unfolded cr d] bt \<open>is_slash c\<close> show False by (auto simp: starts_with_def is_slash_def)
    qed
    ultimately show ?thesis using that [of c r] cr n by (auto simp: is_slash_def)
  qed
qed


lemma scheme_split_None: "s = [] \<or> \<not> alphanumeric (hd s) \<Longrightarrow> scheme_split s = None"
  by (cases s) (auto simp: scheme_split_def cut_def split: list.splits)

lemma no_scheme_slash: "is_slash c \<or> c = CHR ''%'' \<Longrightarrow> \<not> alphanumeric c"
  by (auto simp: is_slash_def)

text \<open>A text that starts so after the browser's stripping stays on the page's origin.\<close>

lemma local_shape_parse:
  assumes "filter (\<lambda>c. \<not> dropped c) u = c # r" "32 < code c"
    "is_slash c \<and> \<not> (r \<noteq> [] \<and> is_slash (hd r)) \<or> c = CHR ''%''" "url_wf page"
  shows "\<exists>v. parse_url (Some page) u = Some v \<and> protocol v = protocol page \<and> host v = host page"
proof -
  obtain r' s where strip: "url_strip u = c # r'" "r = r' @ s" using url_strip_prefix [OF assms(1,2)] by blast
  have "scheme_split (c # r') = None" by (rule scheme_split_None) (use assms(3) no_scheme_slash in auto)
  then have parse: "parse_url (Some page) u = resolve_relative page (c # r')" by (simp add: parse_url_def strip)
  show ?thesis
  proof (cases "is_slash c")
    case True
    then have "\<not> (r' \<noteq> [] \<and> is_slash (hd r'))" using assms(3) strip(2) by (auto simp: is_slash_def)
    with parse resolve_local_path [OF assms(4) True] show ?thesis by simp
  next
    case False
    obtain sc h segs q f where "page = mk_url sc h segs q f" by (rule url_wfE [OF assms(4)])
    with False assms(3) parse show ?thesis by (auto simp: resolve_relative_def is_slash_def)
  qed
qed

text \<open>The same holds of the text a header carries, which loses its surrounding white space.\<close>

lemma safe_header_value_parse:
  assumes "is_safe_return_url (Some u)" "url_wf page"
  shows "\<exists>v. parse_url (Some page) (header_value u) = Some v \<and> protocol v = protocol page \<and> host v = host page"
proof -
  let ?F = "filter (\<lambda>c. \<not> dropped c)"
  obtain c r where c: "?F u = c # r" "32 < code c" "is_slash c \<and> \<not> (r \<noteq> [] \<and> is_slash (hd r)) \<or> c = CHR ''%''"
    by (rule safe_shape [OF assms(1)])
  have "u = takeWhile http_ws u @ dropWhile http_ws u" by simp
  moreover obtain e where "dropWhile http_ws u = header_value u @ e" "\<forall>x\<in>set e. http_ws x"
    using strip_end_prefix [of "dropWhile http_ws u" http_ws] unfolding header_value_def by blast
  ultimately have split: "u = takeWhile http_ws u @ header_value u @ e" "\<forall>x\<in>set e. http_ws x" by simp_all
  then have F: "c # r = ?F (takeWhile http_ws u) @ ?F (header_value u) @ ?F e" using c(1) by (metis filter_append)
  have blank: "code x \<le> 32" if "x \<in> set (?F (takeWhile http_ws u)) \<union> set (?F e)" for x
    using that split(2) set_takeWhileD [of x http_ws u] by (auto simp: http_ws_def)
  have "?F (takeWhile http_ws u) = []"
    using F c(2) blank by (cases "?F (takeWhile http_ws u)") fastforce+
  moreover have "?F (header_value u) \<noteq> []"
  proof
    assume "?F (header_value u) = []"
    with F calculation have "c \<in> set (?F e)" by (cases "?F e") auto
    with blank c(2) show False by fastforce
  qed
  ultimately obtain r' where r': "?F (header_value u) = c # r'" "r = r' @ ?F e"
    using F by (cases "?F (header_value u)") auto
  show ?thesis using local_shape_parse [OF r'(1) c(2) _ assms(2)] c(3) r'(2) by (cases r') auto
qed

subsection \<open>Properties\<close>

text \<open>
  The return-URL guard stops open redirects. A value the guard accepts, resolved by a browser
  against any http(s) page (with its stripping of control characters and tabs, both kinds of slash
  and dot segments), stays on the page's scheme and host.
\<close>

lemma safe_return_url_stays_on_origin:
  assumes "is_safe_return_url (Some u)" "url_wf page"
  shows "\<exists>v. parse_url (Some page) u = Some v \<and> protocol v = protocol page \<and> host v = host page"
proof -
  obtain c r where "filter (\<lambda>c. \<not> dropped c) u = c # r" "32 < code c"
    "is_slash c \<and> \<not> (r \<noteq> [] \<and> is_slash (hd r)) \<or> c = CHR ''%''"
    by (rule safe_shape [OF assms(1)])
  then show ?thesis by (rule local_shape_parse [OF _ _ _ assms(2)])
qed

definition example_page :: full_url where
  "example_page = mk_url ''https'' ''app.test'' [''bff'', ''callback''] None None"

lemma example_page_wf: "url_wf example_page"
  unfolding example_page_def by (rule mk_url_wf) (simp_all add: example_host seg_simps)

lemma safe_return_url_stays_on_origin_witness:
  "\<exists>v. parse_url (Some example_page) (CHR ''/'' # CHR 0x09 # ''settings?tab=1'') = Some v
    \<and> protocol v = protocol example_page \<and> host v = host example_page"
  by (rule safe_return_url_stays_on_origin [OF _ example_page_wf]) code_simp

text \<open>
  The consent form replays the authorization request. For a safe return URL whose query is the
  request's parameters, the form posts to the path before the question mark on the given origin
  and carries every parameter, repeated ones repeated, in order, followed by the consent token.
\<close>

lemma consent_form_carries_request:
  assumes "is_safe_return_url (Some (path @ ''?'' @ form_serialize params))" "CHR ''?'' \<notin> set path"
  shows "build_consent_submission origin (Some (path @ ''?'' @ form_serialize params)) (Some token)
    = Inr \<lparr>cs_action = normalize_origin origin @ path, cs_fields = params @ [(consent_token_field, token)]\<rparr>"
proof -
  have "split_char (CHR ''?'') (path @ ''?'' @ form_serialize params) = path # split_char (CHR ''?'') (form_serialize params)"
    using split_char_append_sep [of "CHR ''?''" path "form_serialize params"] assms(2)
    by (simp add: split_char_notin)
  then show ?thesis
    using assms(1) by (simp add: build_consent_submission_def assert_safe_return_url_def form_parse_serialize Let_def)
qed

lemma consent_form_carries_request_witness:
  "build_consent_submission ''https://id/'' (Some (''/authorize'' @ ''?'' @ form_serialize [(''x'', ''1''), (''x'', ''2'')])) (Some ''tok'')
    = Inr \<lparr>cs_action = normalize_origin ''https://id/'' @ ''/authorize'',
        cs_fields = [(''x'', ''1''), (''x'', ''2'')] @ [(consent_token_field, ''tok'')]\<rparr>"
proof (rule consent_form_carries_request)
  have "form_serialize [(''x'', ''1''), (''x'', ''2'')] = ''x=1&x=2''"
    by (simp add: form_serialize_def form_escape_def alphanumeric_def is_digit_def)
  moreover have "is_safe_return_url (Some ''/authorize?x=1&x=2'')"
    by (simp add: is_safe_return_url_def js_trim_def trim_start_def trim_end_def is_ws_def starts_with_def Let_def)
  ultimately show "is_safe_return_url (Some (''/authorize'' @ ''?'' @ form_serialize [(''x'', ''1''), (''x'', ''2'')]))"
    by simp
qed simp

end
