(* ===== verification/Platform.thy ===== *)
theory Platform
  imports Session Problems Url Stores
begin

section \<open>What the server runs on\<close>

text \<open>
  The code outside the repository the server's modules share, as one record of operations over
  the surrounding state: the session seal, the random source, SHA-256, \<open>crypto.randomUUID\<close>, the
  clock, \<open>Date.parse\<close>, \<open>console.warn\<close>, \<open>fetch\<close> (with the timer the source aborts it by, if any), the
  wait of \<open>setTimeout\<close>, and the cookie syntax of \<open>cookie-es\<close>. A module-level variable is a \<open>cell\<close>
  of the state.
\<close>

record ('s, 'a) cell =
  cell_get :: "'s \<Rightarrow> 'a"
  cell_put :: "'a \<Rightarrow> 's \<Rightarrow> 's"

definition cell_ok :: "('s, 'a) cell \<Rightarrow> bool" where
  "cell_ok c \<longleftrightarrow> (\<forall>a s. cell_get c (cell_put c a s) = a)"

record cookie_attributes =
  ca_http_only :: bool
  ca_same_site :: same_site
  ca_secure :: bool
  ca_path :: string
  ca_max_age :: "int option"

record fetch_request =
  fetch_url :: string
  fetch_method :: string
  fetch_headers :: headers
  fetch_body :: "string option"

text \<open>A response, or what the call rejected with and whether its timer had fired.\<close>

datatype fetch_outcome = Fetched response | Faulted thrown bool

record 's platform =
  pl_iron :: "'s iron"
  pl_random :: "nat \<Rightarrow> 's \<Rightarrow> nat list \<times> 's"
  pl_sha256 :: "nat list \<Rightarrow> nat list"
  pl_uuid :: "'s \<Rightarrow> string \<times> 's"
  pl_now :: "'s \<Rightarrow> int"
  pl_date_parse :: "string \<Rightarrow> int option"
  pl_warn :: "string \<Rightarrow> json \<Rightarrow> 's \<Rightarrow> 's"
  pl_fetch :: "fetch_request \<Rightarrow> int option \<Rightarrow> 's \<Rightarrow> fetch_outcome \<times> 's"
  pl_delay :: "int \<Rightarrow> 's \<Rightarrow> 's"
  pl_parse_cookies :: "string \<Rightarrow> (string \<times> string) list"
  pl_serialize_cookie :: "string \<Rightarrow> string \<Rightarrow> cookie_attributes \<Rightarrow> string"

text \<open>Throwing the \<open>TypeError\<close> of a platform call, and reading a fallible pure result.\<close>

definition type_error :: "string \<Rightarrow> thrown" where
  "type_error message = Err (JsError 0 ''TypeError'' message None None)"

definition io_of :: "thrown + 'a \<Rightarrow> ('s, 'a) io" where
  "io_of r = (case r of Inl e \<Rightarrow> io_throw e | Inr a \<Rightarrow> io_return a)"

lemma io_of_simps [simp]: "io_of (Inl e) = io_throw e" "io_of (Inr a) = io_return a"
  by (simp_all add: io_of_def)

lemma io_inv_lift: "(\<And>s. I s \<Longrightarrow> I (snd (f s))) \<Longrightarrow> io_inv I (io_lift f)"
  by (simp add: io_inv_def io_simps)

lemma io_inv_modify: "(\<And>s. I s \<Longrightarrow> I (f s)) \<Longrightarrow> io_inv I (io_modify f)"
  by (simp add: io_inv_def io_simps)

lemma io_inv_of [inv_intros]: "io_inv I (io_of r)"
  by (cases r) (auto intro: inv_intros)

lemma quiet_of [quiet_intros]: "quiet sent (io_of r)"
  by (simp add: quiet_def io_inv_of)

text \<open>\<open>new Response(body, { status, headers })\<close> and \<open>Response.json(data, { status, headers })\<close>\<close>

definition new_response :: "nat \<Rightarrow> string option \<Rightarrow> headers \<Rightarrow> response" where
  "new_response st body hs = \<lparr>status = st, resp_headers = h_copy hs, resp_body = body, status_text = ''''\<rparr>"

definition json_response :: "nat \<Rightarrow> json \<Rightarrow> headers \<Rightarrow> response" where
  "json_response st data hs =
     (let copied = h_copy hs in
      \<lparr>status = st,
       resp_headers = (if h_has copied ''content-type'' then copied
                       else h_append copied ''content-type'' ''application/json''),
       resp_body = Some (json_print data), status_text = ''''\<rparr>)"

text \<open>\<open>resolveRequestId(headers)\<close>: a fresh id is drawn only when none can be echoed.\<close>

definition request_id_of :: "'s platform \<Rightarrow> headers \<Rightarrow> ('s, string) io" where
  "request_id_of pl hs s =
     (let (fresh, s') = pl_uuid pl s; i = resolve_request_id fresh hs in
      case h_get hs request_id_header of
        Some inbound \<Rightarrow> if is_valid_request_id inbound then (Inr inbound, s) else (Inr i, s')
      | None \<Rightarrow> (Inr i, s'))"

lemma request_id_ok: "\<exists>i s'. request_id_of pl hs s = (Inr i, s') \<and> s' \<in> {s, snd (pl_uuid pl s)}"
  by (auto simp: request_id_of_def Let_def case_prod_beta split: option.splits)

text \<open>\<open>problemResponse(status, code, { requestId: resolveRequestId(headers), detail, headers })\<close>\<close>

definition answer_problem :: "'s platform \<Rightarrow> headers \<Rightarrow> nat \<Rightarrow> string \<Rightarrow> string option \<Rightarrow> headers \<Rightarrow> ('s, response) io" where
  "answer_problem pl request_headers st c detail hs =
     io_bind (request_id_of pl request_headers) (\<lambda>i.
     io_return (problem_response st c \<lparr>po_request_id = i, po_detail = detail, po_headers = hs\<rparr>))"

lemma answer_problem_result:
  "\<exists>i s'. answer_problem pl rh st c detail hs s
      = (Inr (problem_response st c \<lparr>po_request_id = i, po_detail = detail, po_headers = hs\<rparr>), s')
    \<and> s' \<in> {s, snd (pl_uuid pl s)}"
  using request_id_ok [of pl rh s] by (auto simp: answer_problem_def io_bind_def io_simps)

text \<open>What an answer sets: its status, its cookies, and nothing else of the given headers is lost.\<close>

lemma status_simps [simp]:
  "status (new_response st body hs) = st" "status (json_response st j hs) = st" "status (problem_response st c opts) = st"
  by (simp_all add: new_response_def json_response_def problem_response_def Let_def)

lemma cookies_simps [simp]:
  "h_norm hs \<Longrightarrow> h_get_set_cookie (resp_headers (new_response st body hs)) = h_get_set_cookie hs"
  "h_norm hs \<Longrightarrow> h_get_set_cookie (resp_headers (json_response st j hs)) = h_get_set_cookie hs"
  "h_norm (po_headers opts) \<Longrightarrow>
     h_get_set_cookie (resp_headers (problem_response st c opts)) = h_get_set_cookie (po_headers opts)"
  by (simp_all add: new_response_def json_response_def problem_response_def Let_def request_id_header_def
      to_lower_def lower_char_def)

text \<open>\<open>new URL(s)\<close> and \<open>new URL(s, base)\<close>\<close>

definition new_url :: "string \<Rightarrow> thrown + full_url" where
  "new_url s = (case parse_url None s of Some u \<Rightarrow> Inr u | None \<Rightarrow> Inl (type_error ''Invalid URL''))"

definition new_url_from :: "string \<Rightarrow> string \<Rightarrow> thrown + full_url" where
  "new_url_from s base =
     (case parse_url None base of
        None \<Rightarrow> Inl (type_error ''Invalid URL'')
      | Some b \<Rightarrow> (case parse_url (Some b) s of Some u \<Rightarrow> Inr u | None \<Rightarrow> Inl (type_error ''Invalid URL'')))"

definition full_origin :: "full_url \<Rightarrow> string" where
  "full_origin u = protocol u @ ''//'' @ host u"

lemma new_url_wf: "new_url s = Inr u \<Longrightarrow> url_wf u"
  by (auto simp: new_url_def intro: parse_url_wf split: option.splits)

lemma new_url_from_wf: "new_url_from s base = Inr u \<Longrightarrow> url_wf u"
  by (auto simp: new_url_from_def split: option.splits dest: parse_url_wf intro: parse_url_wf)

text \<open>A platform the concrete checks run on.\<close>

definition demo_platform :: "'s platform" where
  "demo_platform =
     \<lparr>pl_iron = demo_iron, pl_random = (\<lambda>n s. (replicate n 0, s)), pl_sha256 = (\<lambda>bytes. bytes),
      pl_uuid = (\<lambda>s. (''00000000-0000-4000-8000-000000000000'', s)), pl_now = (\<lambda>s. 0), pl_date_parse = (\<lambda>t. None),
      pl_warn = (\<lambda>m j s. s),
      pl_fetch = (\<lambda>req ms s. (Fetched \<lparr>status = 200, resp_headers = [], resp_body = Some ''ok'', status_text = ''OK''\<rparr>, s)),
      pl_delay = (\<lambda>ms s. s), pl_parse_cookies = (\<lambda>c. if c = '''' then [] else [(''w'', c), (''w_tx'', c)]),
      pl_serialize_cookie = (\<lambda>n v a. n @ ''='' @ v)\<rparr>"

end
