(* ===== verification/Oidc.thy ===== *)
theory Oidc
  imports Platform
begin

section \<open>The OIDC client (\<open>sdk/src/server/oidc.ts\<close>)\<close>

text \<open>
  Discovery with its module-level cache, the pinning of browser-facing endpoints to the public
  issuer, and the grants. The openid-client library is the record \<open>oidc_client\<close>, over a type \<open>'c\<close>
  of its resolved configurations.
\<close>

record server_metadata =
  md_authorization_endpoint :: "string option"
  md_token_endpoint :: "string option"
  md_end_session_endpoint :: "string option"
  md_userinfo_endpoint :: "string option"
  md_jwks_uri :: "string option"
  md_backchannel_logout_supported :: "bool option"

record grant_checks =
  expected_state :: "string option"
  expected_nonce :: "string option"
  pkce_code_verifier :: string

record token_set =
  ts_access_token :: string
  ts_refresh_token :: "string option"
  ts_id_token :: "string option"
  ts_expires_in :: "int option"
  ts_token_type :: "string option"

record ('s, 'c) oidc_client =
  oc_discovery :: "string \<Rightarrow> string \<Rightarrow> string \<Rightarrow> bool \<Rightarrow> ('s, 'c) io"
  oc_server_metadata :: "'c \<Rightarrow> server_metadata"
  oc_build_authorization_url :: "'c \<Rightarrow> (string \<times> string) list \<Rightarrow> thrown + full_url"
  oc_authorization_code_grant :: "'c \<Rightarrow> full_url \<Rightarrow> grant_checks \<Rightarrow> ('s, token_set) io"
  oc_refresh_token_grant :: "'c \<Rightarrow> string \<Rightarrow> ('s, token_set) io"
  oc_fetch_user_info :: "'c \<Rightarrow> string \<Rightarrow> ('s, user_claims) io"
  oc_build_end_session_url :: "'c \<Rightarrow> (string \<times> string) list \<Rightarrow> thrown + full_url"
  oc_token_revocation :: "'c \<Rightarrow> string \<Rightarrow> (string \<times> string) list \<Rightarrow> ('s, unit) io"

record 'c discovery_doc =
  authorization_endpoint :: string
  token_endpoint :: string
  end_session_endpoint :: "string option"
  userinfo_endpoint :: "string option"
  jwks_uri :: "string option"
  backchannel_logout_supported :: "bool option"
  configuration :: "'c option"

record token_response =
  tr_access_token :: string
  tr_refresh_token :: "string option"
  tr_id_token :: "string option"
  tr_expires_in :: int
  tr_token_type :: "string option"

record authorize_params =
  ap_state :: string
  ap_code_challenge :: string
  ap_nonce :: string
  ap_organization :: "string option"

record exchange_code_params =
  ec_code :: string
  ec_code_verifier :: string
  ec_current_url :: full_url
  ec_state :: "string option"
  ec_nonce :: "string option"

text \<open>The library with the discovery cache of the module, keyed by metadata URL.\<close>

record ('s, 'c) oidc =
  client_lib :: "('s, 'c) oidc_client"
  discovery_cache :: "('s, (string \<times> 'c discovery_doc) list) cell"

subsection \<open>Endpoints\<close>

definition should_allow_insecure_requests :: "string \<Rightarrow> thrown + bool" where
  "should_allow_insecure_requests url =
     (case new_url url of Inl e \<Rightarrow> Inl e | Inr u \<Rightarrow> Inr (protocol u = ''http:''))"

definition no_expiry_seconds :: int where "no_expiry_seconds = 0"

definition rebase_to_issuer :: "string \<Rightarrow> string \<Rightarrow> thrown + string" where
  "rebase_to_issuer endpoint iss =
     (case new_url_from endpoint iss of
        Inl e \<Rightarrow> Inl e
      | Inr source \<Rightarrow>
          (case new_url iss of
             Inl e \<Rightarrow> Inl e
           | Inr base \<Rightarrow>
               (let issuer_path = strip_trailing (CHR ''/'') (pathname base);
                    already_prefixed = (issuer_path \<noteq> '''' \<and>
                      (pathname source = issuer_path \<or> starts_with (pathname source) (issuer_path @ ''/'')));
                    path = (if already_prefixed then pathname source else issuer_path @ pathname source) in
                Inr (full_origin base @ path @ search source))))"

text \<open>
  The setters \<open>protocol\<close>, \<open>hostname\<close>, \<open>port\<close> and \<open>pathname\<close> with the members of a parsed URL put
  those members in place; query and fragment stay.
\<close>

definition pin_to_browser_endpoint :: "full_url \<Rightarrow> string option \<Rightarrow> thrown + string" where
  "pin_to_browser_endpoint built browser_endpoint =
     (case browser_endpoint of
        None \<Rightarrow> Inr (url_href built)
      | Some e \<Rightarrow>
          if e = '''' then Inr (url_href built)
          else
            (case new_url e of
               Inl t \<Rightarrow> Inl t
             | Inr target \<Rightarrow>
                 Inr (url_href (built\<lparr>protocol := protocol target, host := host target, pathname := pathname target\<rparr>))))"

subsection \<open>Discovery\<close>

definition metadata_url_of :: "bff_config \<Rightarrow> string" where
  "metadata_url_of config =
     (case metadata_url config of Some u \<Rightarrow> u | None \<Rightarrow> issuer config @ ''/.well-known/openid-configuration'')"

definition discovered_doc :: "server_metadata \<Rightarrow> 'c \<Rightarrow> 'c discovery_doc" where
  "discovered_doc metadata conf =
     \<lparr>authorization_endpoint = (case md_authorization_endpoint metadata of Some e \<Rightarrow> e | None \<Rightarrow> ''''),
      token_endpoint = (case md_token_endpoint metadata of Some e \<Rightarrow> e | None \<Rightarrow> ''''),
      end_session_endpoint = md_end_session_endpoint metadata,
      userinfo_endpoint = md_userinfo_endpoint metadata,
      jwks_uri = md_jwks_uri metadata,
      backchannel_logout_supported =
        (if md_backchannel_logout_supported metadata = Some True then Some True else None),
      configuration = Some conf\<rparr>"

definition rebased_doc :: "bff_config \<Rightarrow> 'c discovery_doc \<Rightarrow> thrown + 'c discovery_doc" where
  "rebased_doc config doc =
     (case metadata_url config of
        None \<Rightarrow> Inr doc
      | Some _ \<Rightarrow>
          (case rebase_to_issuer (authorization_endpoint doc) (issuer config) of
             Inl e \<Rightarrow> Inl e
           | Inr authorization \<Rightarrow>
               (case end_session_endpoint doc of
                  None \<Rightarrow> Inr (doc\<lparr>authorization_endpoint := authorization\<rparr>)
                | Some end_session \<Rightarrow>
                    (case rebase_to_issuer end_session (issuer config) of
                       Inl e \<Rightarrow> Inl e
                     | Inr pinned \<Rightarrow>
                         Inr (doc\<lparr>authorization_endpoint := authorization, end_session_endpoint := Some pinned\<rparr>)))))"

definition discover :: "('s, 'c) oidc \<Rightarrow> bff_config \<Rightarrow> ('s, 'c discovery_doc) io" where
  "discover oidc config =
     (let key = metadata_url_of config in
      io_bind (io_gets (cell_get (discovery_cache oidc))) (\<lambda>cache.
      case obj_get cache key of
        Some cached \<Rightarrow> io_return cached
      | None \<Rightarrow>
          io_bind (io_of (should_allow_insecure_requests key)) (\<lambda>allow_insecure.
          io_bind (io_of (new_url key)) (\<lambda>url.
          io_bind (oc_discovery (client_lib oidc) (url_href url) (client_id config) (client_secret config) allow_insecure)
            (\<lambda>conf.
          io_bind (io_of (rebased_doc config (discovered_doc (oc_server_metadata (client_lib oidc) conf) conf))) (\<lambda>doc.
          io_bind (io_modify (\<lambda>s. cell_put (discovery_cache oidc)
              (obj_set (cell_get (discovery_cache oidc) s) key doc) s)) (\<lambda>_.
          io_return doc)))))))"

subsection \<open>Requests to the issuer\<close>

text \<open>\<open>doc.configuration!\<close>: the library rejects a document without one.\<close>

definition configured :: "'c discovery_doc \<Rightarrow> thrown + 'c" where
  "configured doc = (case configuration doc of Some c \<Rightarrow> Inr c | None \<Rightarrow> Inl (type_error ''config must be an instance of Configuration''))"

definition build_authorize_url ::
    "('s, 'c) oidc \<Rightarrow> bff_config \<Rightarrow> 'c discovery_doc \<Rightarrow> authorize_params \<Rightarrow> thrown + string" where
  "build_authorize_url oidc config doc params =
     (case configured doc of
        Inl e \<Rightarrow> Inl e
      | Inr c \<Rightarrow>
          (case oc_build_authorization_url (client_lib oidc) c
              ([(''response_type'', ''code''), (''client_id'', client_id config), (''redirect_uri'', redirect_uri config),
                (''scope'', js_join '' '' (scopes config)), (''state'', ap_state params),
                (''code_challenge'', ap_code_challenge params), (''code_challenge_method'', ''S256''),
                (''nonce'', ap_nonce params)]
               @ (case ap_organization params of None \<Rightarrow> [] | Some org \<Rightarrow> [(''organization'', org)])) of
             Inl e \<Rightarrow> Inl e
           | Inr url \<Rightarrow> pin_to_browser_endpoint url (Some (authorization_endpoint doc))))"

definition token_response_of :: "token_set \<Rightarrow> token_response" where
  "token_response_of tokens =
     \<lparr>tr_access_token = ts_access_token tokens, tr_refresh_token = ts_refresh_token tokens,
      tr_id_token = ts_id_token tokens,
      tr_expires_in = (case ts_expires_in tokens of Some n \<Rightarrow> n | None \<Rightarrow> no_expiry_seconds),
      tr_token_type = ts_token_type tokens\<rparr>"

definition exchange_code ::
    "('s, 'c) oidc \<Rightarrow> 'c discovery_doc \<Rightarrow> exchange_code_params \<Rightarrow> ('s, token_response) io" where
  "exchange_code oidc doc params =
     io_bind (io_of (configured doc)) (\<lambda>c.
     io_bind (oc_authorization_code_grant (client_lib oidc) c (ec_current_url params)
        \<lparr>expected_state = ec_state params, expected_nonce = ec_nonce params,
         pkce_code_verifier = ec_code_verifier params\<rparr>) (\<lambda>tokens.
     io_return (token_response_of tokens)))"

definition refresh_tokens :: "('s, 'c) oidc \<Rightarrow> 'c discovery_doc \<Rightarrow> string \<Rightarrow> ('s, token_response) io" where
  "refresh_tokens oidc doc token =
     io_bind (io_of (configured doc)) (\<lambda>c.
     io_bind (oc_refresh_token_grant (client_lib oidc) c token) (\<lambda>tokens.
     io_return (token_response_of tokens)))"

definition fetch_user_info :: "('s, 'c) oidc \<Rightarrow> 'c discovery_doc \<Rightarrow> string \<Rightarrow> ('s, user_claims option) io" where
  "fetch_user_info oidc doc token =
     (if userinfo_endpoint doc = None \<or> userinfo_endpoint doc = Some '''' then io_return None
      else
        io_bind (io_of (configured doc)) (\<lambda>c.
        io_bind (oc_fetch_user_info (client_lib oidc) c token) (\<lambda>claims. io_return (Some claims))))"

definition build_logout_url ::
    "('s, 'c) oidc \<Rightarrow> bff_config \<Rightarrow> 'c discovery_doc \<Rightarrow> string option \<Rightarrow> thrown + string" where
  "build_logout_url oidc config doc id_token_hint =
     (case end_session_endpoint doc of
        Some endpoint \<Rightarrow>
          (case configured doc of
             Inl e \<Rightarrow> Inl e
           | Inr c \<Rightarrow>
               (case oc_build_end_session_url (client_lib oidc) c
                   ([(''post_logout_redirect_uri'', post_logout_redirect_uri config)]
                    @ (case id_token_hint of Some h \<Rightarrow> [(''id_token_hint'', h)] | None \<Rightarrow> [])) of
                  Inl e \<Rightarrow> Inl e
                | Inr url \<Rightarrow> pin_to_browser_endpoint url (Some endpoint)))
      | None \<Rightarrow>
          (case rebase_to_issuer ''/connect/logout'' (issuer config) of
             Inl e \<Rightarrow> Inl e
           | Inr r \<Rightarrow>
               (case new_url r of
                  Inl e \<Rightarrow> Inl e
                | Inr url \<Rightarrow>
                    (let ps = params_set (search_params url) ''post_logout_redirect_uri'' (post_logout_redirect_uri config);
                         ps' = (case id_token_hint of Some h \<Rightarrow> params_set ps ''id_token_hint'' h | None \<Rightarrow> ps) in
                     Inr (url_href (with_params url ps'))))))"


subsection \<open>Lemmas: rebasing\<close>

lemma split_char_replicate: "split_char x (replicate k x) = replicate (Suc k) []"
  by (induction k) auto

lemma split_trailing_slashes:
  "split_char (CHR ''/'') (x @ replicate k (CHR ''/'')) = split_char (CHR ''/'') x @ replicate k []"
proof (cases k)
  case (Suc n)
  then have "x @ replicate k (CHR ''/'') = x @ CHR ''/'' # replicate n (CHR ''/'')" by simp
  then show ?thesis using Suc by (simp only: split_char_append_sep split_char_replicate)
qed simp

lemma strip_trailing_split: "\<exists>k. s = strip_trailing x s @ replicate k x"
proof -
  obtain t where t: "s = rev (dropWhile (\<lambda>c. c = x) (rev s)) @ t" "\<forall>c\<in>set t. c = x"
    using strip_end_prefix [of s "\<lambda>c. c = x"] by (elim exE conjE)
  from t(2) have "t = replicate (length t) x" by (induction t) auto
  with t(1) show ?thesis unfolding strip_trailing_def by metis
qed

text \<open>The issuer's path without trailing slashes: empty, or a slash and clean segments.\<close>

lemma issuer_path_shape:
  assumes "segs \<noteq> []" "list_all seg_ok segs"
  shows "strip_trailing (CHR ''/'') (''/'' @ js_join ''/'' segs) = ''''
    \<or> (\<exists>x. strip_trailing (CHR ''/'') (''/'' @ js_join ''/'' segs) = ''/'' @ x
         \<and> list_all seg_ok (split_char (CHR ''/'') x))"
proof -
  let ?t = "strip_trailing (CHR ''/'') (''/'' @ js_join ''/'' segs)"
  obtain k where k: "''/'' @ js_join ''/'' segs = ?t @ replicate k (CHR ''/'')"
    using strip_trailing_split by blast
  show ?thesis
  proof (cases ?t)
    case (Cons c x)
    then have "js_join ''/'' segs = x @ replicate k (CHR ''/'')" "c = CHR ''/''" using k by auto
    then have "segs = split_char (CHR ''/'') x @ replicate k []"
      using assms seg_ok_no_slash split_char_join [of segs "CHR ''/''"] split_trailing_slashes [of x k]
      by (simp add: list_all_iff)
    with assms(2) Cons \<open>c = CHR ''/''\<close> show ?thesis by auto
  qed simp
qed

definition seg_path :: "string \<Rightarrow> bool" where
  "seg_path p \<longleftrightarrow> (\<exists>x. p = ''/'' @ x \<and> list_all seg_ok (split_char (CHR ''/'') x))"

lemma seg_path_mk_url: "segs \<noteq> [] \<Longrightarrow> list_all seg_ok segs \<Longrightarrow> seg_path (''/'' @ js_join ''/'' segs)"
  using seg_ok_no_slash by (auto simp: seg_path_def list_all_iff split_char_join)

lemma seg_path_append: "seg_path p \<Longrightarrow> seg_path p' \<Longrightarrow> seg_path (p @ p')"
  using split_char_append_sep [of "CHR ''/''"] by (fastforce simp: seg_path_def)

text \<open>An origin, a clean path and a clean query parse to exactly those, whatever the base.\<close>

lemma parse_origin_path:
  assumes "sc \<in> {''http'', ''https''}" "host_ok sc h" "seg_path p"
    and "\<forall>x. q = Some x \<longrightarrow> list_all (\<lambda>c. \<not> query_special c) x"
  shows "\<exists>segs. segs \<noteq> [] \<and> list_all seg_ok segs \<and> p = ''/'' @ js_join ''/'' segs
    \<and> (\<forall>base. parse_url base (sc @ ''://'' @ h @ p @ (case q of None \<Rightarrow> '''' | Some q \<Rightarrow> ''?'' @ q))
          = Some (mk_url sc h segs q None))"
proof -
  obtain x where x: "p = ''/'' @ x" "list_all seg_ok (split_char (CHR ''/'') x)" using assms(3) by (auto simp: seg_path_def)
  let ?segs = "split_char (CHR ''/'') x"
  let ?rest = "CHR ''/'' # js_join ''/'' ?segs @ (case q of None \<Rightarrow> '''' | Some q \<Rightarrow> ''?'' @ q) @ ''''"
  have "list_all (\<lambda>c. 32 < code c) ?rest"
    using join_segs_plain [OF x(2)] assms(4) query_plain by (fastforce simp: list_all_iff split: option.splits)
  then have "parse_url base (sc @ ''://'' @ h @ ?rest) = Some (parse_rest sc h [] ?rest)" for base
    using assms(1,2) by (intro parse_url_absolute) auto
  moreover have "parse_rest sc h [] ?rest = mk_url sc h ?segs q None"
    using parse_rest_id [of ?segs q None sc h] x(2) assms(4) by simp
  ultimately show ?thesis using x by (intro exI [of _ ?segs]) simp
qed

text \<open>The search of a parsed URL, as a query whose characters the parser keeps.\<close>

lemma search_as_query:
  assumes "url_wf u"
  obtains query where "search u = (case query of None \<Rightarrow> '''' | Some q \<Rightarrow> ''?'' @ q)"
    "\<forall>x. query = Some x \<longrightarrow> list_all (\<lambda>c. \<not> query_special c) x"
    "\<forall>sc h segs f. search (mk_url sc h segs query f) = search u"
proof -
  obtain sc h segs q f where u: "u = mk_url sc h segs q f" "\<forall>x. q = Some x \<longrightarrow> list_all (\<lambda>c. \<not> query_special c) x"
    by (rule url_wfE [OF assms])
  define query where "query = (if search u = '''' then None else q)"
  have "search u = (case query of None \<Rightarrow> '''' | Some q \<Rightarrow> ''?'' @ q)"
    by (auto simp: query_def u(1) mk_url_def split: option.splits if_splits)
  moreover have "\<forall>x. query = Some x \<longrightarrow> list_all (\<lambda>c. \<not> query_special c) x"
    using u(2) by (auto simp: query_def split: if_splits)
  moreover have "search (mk_url sc' h' segs' p f') = search (mk_url sc h segs p f)" for sc' h' segs' p f'
    by (simp add: mk_url_def)
  then have "\<forall>sc h segs f. search (mk_url sc h segs query f) = search u"
    by (cases "search u = ''''") (simp_all add: query_def u(1) mk_url_def)
  ultimately show thesis by (rule that)
qed

lemma url_wf_path:
  assumes "url_wf u"
  shows "seg_path (pathname u)"
proof -
  obtain sc h segs q f where "u = mk_url sc h segs q f" "segs \<noteq> []" "list_all seg_ok segs"
    by (rule url_wfE [OF assms])
  then show ?thesis using seg_path_mk_url by simp
qed

text \<open>What the rebased path is, and that it lies under the prefix.\<close>

lemma rebased_path:
  assumes "prefix = '''' \<or> seg_path prefix" "seg_path p"
    and "path = (if prefix \<noteq> '''' \<and> (p = prefix \<or> starts_with p (prefix @ ''/'')) then p else prefix @ p)"
  shows "seg_path path" "prefix \<noteq> '''' \<and> path = prefix \<or> starts_with path (prefix @ ''/'')"
    "(if prefix \<noteq> '''' \<and> (path = prefix \<or> starts_with path (prefix @ ''/'')) then path else prefix @ path) = path"
proof -
  show "seg_path path" using assms seg_path_append [of prefix p] by (auto split: if_splits)
  show pinned: "prefix \<noteq> '''' \<and> path = prefix \<or> starts_with path (prefix @ ''/'')"
  proof (cases "prefix \<noteq> '''' \<and> (p = prefix \<or> starts_with p (prefix @ ''/''))")
    case False
    then have "path = prefix @ p" using assms(3) by simp
    moreover obtain x where "p = ''/'' @ x" using assms(2) by (auto simp: seg_path_def)
    ultimately have "path = (prefix @ ''/'') @ x" by simp
    then show ?thesis unfolding starts_with_iff by blast
  qed (use assms(3) in auto)
  then show "(if prefix \<noteq> '''' \<and> (path = prefix \<or> starts_with path (prefix @ ''/'')) then path else prefix @ path) = path"
    by auto
qed

subsection \<open>Properties\<close>

text \<open>
  A browser-facing endpoint is pinned to the public issuer. Whatever host and prefix the
  discovery document gives it, the rebased endpoint parses as a URL of the issuer's scheme, host
  and path prefix, and rebasing it again changes nothing.
\<close>

lemma rebase_pins_to_issuer:
  assumes "rebase_to_issuer endpoint iss = Inr r" "new_url iss = Inr base"
  shows "\<exists>u. new_url r = Inr u \<and> protocol u = protocol base \<and> host u = host base
    \<and> (let prefix = strip_trailing (CHR ''/'') (pathname base) in
         prefix \<noteq> '''' \<and> pathname u = prefix \<or> starts_with (pathname u) (prefix @ ''/''))
    \<and> rebase_to_issuer r iss = Inr r"
proof -
  obtain source where source: "new_url_from endpoint iss = Inr source"
    using assms(1) by (auto simp: rebase_to_issuer_def split: sum.splits)
  obtain sc h segs q f where b: "base = mk_url sc h segs q f" "sc \<in> {''http'', ''https''}" "host_ok sc h"
    "segs \<noteq> []" "list_all seg_ok segs"
    by (rule url_wfE [OF new_url_wf [OF assms(2)]])
  obtain query where query: "search source = (case query of None \<Rightarrow> '''' | Some q \<Rightarrow> ''?'' @ q)"
    "\<forall>x. query = Some x \<longrightarrow> list_all (\<lambda>c. \<not> query_special c) x"
    "\<forall>sc h segs f. search (mk_url sc h segs query f) = search source"
    by (rule search_as_query [OF new_url_from_wf [OF source]])
  define prefix where "prefix = strip_trailing (CHR ''/'') (pathname base)"
  define path where "path = (if prefix \<noteq> '''' \<and> (pathname source = prefix \<or> starts_with (pathname source) (prefix @ ''/''))
      then pathname source else prefix @ pathname source)"
  have "prefix = '''' \<or> seg_path prefix"
    using issuer_path_shape [OF b(4,5)] by (simp add: prefix_def b(1) seg_path_def)
  note path = rebased_path [OF this url_wf_path [OF new_url_from_wf [OF source]] path_def]
  have origin: "full_origin base = sc @ ''://'' @ h" by (simp add: b(1) full_origin_def)
  have r: "r = sc @ ''://'' @ h @ path @ search source"
    using assms(1) unfolding rebase_to_issuer_def source assms(2) sum.case Let_def path_def prefix_def origin by simp
  obtain segs2 where u: "path = ''/'' @ js_join ''/'' segs2"
      "\<And>base. parse_url base r = Some (mk_url sc h segs2 query None)"
    using parse_origin_path [OF b(2,3) path(1) query(2)] unfolding r query(1) by blast
  let ?u = "mk_url sc h segs2 query None"
  have parsed: "new_url r = Inr ?u" "new_url_from r iss = Inr ?u"
    using assms(2) u(2) by (auto simp: new_url_def new_url_from_def split: option.splits)
  have sel: "protocol ?u = protocol base" "host ?u = host base" "pathname ?u = path" "search ?u = search source"
    using query(3) by (simp_all add: b(1) u(1))
  have "rebase_to_issuer r iss = Inr r"
    unfolding rebase_to_issuer_def parsed(2) assms(2) sum.case Let_def sel prefix_def [symmetric] path(3)
    by (simp only: r origin append_assoc)
  with parsed(1) path(2) sel show ?thesis unfolding Let_def prefix_def [symmetric] by metis
qed

text \<open>An internal metadata host rebased onto an issuer with a path prefix.\<close>

definition example_issuer :: full_url where
  "example_issuer = mk_url ''https'' ''app.test'' [''id''] None None"
definition example_endpoint :: full_url where
  "example_endpoint = mk_url ''http'' ''api.test'' [''connect'', ''authorize''] None None"

lemma example_urls_wf: "url_wf example_issuer" "url_wf example_endpoint"
  unfolding example_issuer_def example_endpoint_def by (rule mk_url_wf; simp add: example_host seg_simps)+

lemma new_url_href: "url_wf u \<Longrightarrow> new_url (url_href u) = Inr u"
  by (simp add: new_url_def parse_url_href)

lemma example_rebase:
  "rebase_to_issuer (url_href example_endpoint) (url_href example_issuer) = Inr ''https://app.test/id/connect/authorize''"
proof -
  have "new_url_from (url_href example_endpoint) (url_href example_issuer) = Inr example_endpoint"
    by (simp add: new_url_from_def parse_url_href example_urls_wf)
  with new_url_href [OF example_urls_wf(1)] show ?thesis
    unfolding rebase_to_issuer_def
    by (simp add: full_origin_def strip_trailing_def starts_with_def example_issuer_def example_endpoint_def mk_url_def)
qed

lemma rebase_pins_to_issuer_witness:
  "\<exists>u. new_url ''https://app.test/id/connect/authorize'' = Inr u
    \<and> protocol u = protocol example_issuer \<and> host u = host example_issuer
    \<and> (let prefix = strip_trailing (CHR ''/'') (pathname example_issuer) in
         prefix \<noteq> '''' \<and> pathname u = prefix \<or> starts_with (pathname u) (prefix @ ''/''))
    \<and> rebase_to_issuer ''https://app.test/id/connect/authorize'' (url_href example_issuer)
        = Inr ''https://app.test/id/connect/authorize''"
  by (rule rebase_pins_to_issuer [OF example_rebase new_url_href [OF example_urls_wf(1)]])

text \<open>
  Discovery is cached per metadata URL. Once \<open>discover\<close> has answered, asking again answers
  the same document and leaves the world as it is, whatever the library would answer now.
\<close>

lemma discovery_is_cached:
  assumes "discover oidc config s = (Inr doc, s1)" "cell_ok (discovery_cache oidc)"
  shows "discover (oidc\<lparr>client_lib := other\<rparr>) config s1 = (Inr doc, s1)"
proof -
  have "obj_get (cell_get (discovery_cache oidc) s1) (metadata_url_of config) = Some doc"
    using assms by (auto simp: discover_def Let_def io_simps io_bind_eq_Inr cell_ok_def split: option.splits)
  then show ?thesis by (simp add: discover_def Let_def io_simps io_bind_def)
qed

text \<open>A provider, reached on an internal host, and the configuration of a browser application.\<close>

definition example_metadata :: full_url where
  "example_metadata = mk_url ''http'' ''api.test'' [''.well-known'', ''openid-configuration''] None None"

definition demo_config :: bff_config where
  "demo_config =
     \<lparr>issuer = url_href example_issuer, client_id = ''web'', client_secret = ''s'',
      redirect_uri = ''https://app.test/bff/callback'', post_logout_redirect_uri = ''https://app.test/'',
      scopes = [''openid''], api_base_url = ''http://api.test/'', cookie_name = ''w'', app_id = None,
      cookie_password = ''0123456789abcdef0123456789abcdef'', cookie_passwords = None,
      metadata_url = Some (url_href example_metadata), session_ttl_seconds = 3600, cookie_secure = True,
      cookie_same_site = None\<rparr>"

definition demo_tokens :: token_set where
  "demo_tokens = \<lparr>ts_access_token = ''at2'', ts_refresh_token = Some ''rt2'', ts_id_token = None,
     ts_expires_in = Some 300, ts_token_type = Some ''Bearer''\<rparr>"

definition demo_client :: "('s, unit) oidc_client" where
  "demo_client =
     \<lparr>oc_discovery = (\<lambda>url i secret insecure. io_return ()),
      oc_server_metadata = (\<lambda>c. \<lparr>md_authorization_endpoint = Some (url_href example_endpoint),
        md_token_endpoint = Some ''t'', md_end_session_endpoint = None, md_userinfo_endpoint = None,
        md_jwks_uri = Some ''j'', md_backchannel_logout_supported = None\<rparr>),
      oc_build_authorization_url = (\<lambda>c params. Inr example_endpoint),
      oc_authorization_code_grant = (\<lambda>c url checks. io_return demo_tokens),
      oc_refresh_token_grant = (\<lambda>c token. io_return demo_tokens),
      oc_fetch_user_info = (\<lambda>c token. io_return []),
      oc_build_end_session_url = (\<lambda>c params. Inr example_endpoint),
      oc_token_revocation = (\<lambda>c token params. io_return ())\<rparr>"

definition list_cell :: "('a list, 'a list) cell" where
  "list_cell = \<lparr>cell_get = (\<lambda>s. s), cell_put = (\<lambda>a s. a)\<rparr>"

definition demo_doc :: "unit discovery_doc" where
  "demo_doc = \<lparr>authorization_endpoint = ''https://app.test/id/connect/authorize'', token_endpoint = ''t'',
     end_session_endpoint = None, userinfo_endpoint = None, jwks_uri = Some ''j'',
     backchannel_logout_supported = None, configuration = Some ()\<rparr>"

lemma demo_discover:
  assumes "client_lib oidc = demo_client" "cell_get (discovery_cache oidc) s = []"
  shows "discover oidc demo_config s = (Inr demo_doc, cell_put (discovery_cache oidc) [(url_href example_metadata, demo_doc)] s)"
proof -
  have wf: "url_wf example_metadata"
    unfolding example_metadata_def by (rule mk_url_wf; simp add: example_host seg_simps)
  have key: "metadata_url_of demo_config = url_href example_metadata" "issuer demo_config = url_href example_issuer"
      "metadata_url demo_config = Some (url_href example_metadata)"
    by (simp_all add: metadata_url_of_def demo_config_def)
  show ?thesis
    unfolding discover_def Let_def key
    by (simp add: assms should_allow_insecure_requests_def new_url_href [OF wf] rebased_doc_def discovered_doc_def
        demo_client_def key example_rebase demo_doc_def io_simps io_bind_def)
qed

lemma discovery_is_cached_witness:
  "discover (\<lparr>client_lib = demo_client, discovery_cache = list_cell\<rparr>
       \<lparr>client_lib := demo_client\<lparr>oc_discovery := (\<lambda>url i secret insecure. io_throw (new_error ''down''))\<rparr>\<rparr>)
     demo_config [(url_href example_metadata, demo_doc)]
   = (Inr demo_doc, [(url_href example_metadata, demo_doc)])"
  by (rule discovery_is_cached [where s = "[]"]) (simp_all add: demo_discover list_cell_def cell_ok_def)

end
