(* ===== verification/Handlers.thy ===== *)
theory Handlers
  imports Oidc AuthOidc
begin

section \<open>Session cookies and browser handlers (\<open>sdk/src/server/handlers.ts\<close>)\<close>

text \<open>
  The session reference in the cookie jar, chunked, and the login, callback, user, logout and
  front-channel logout handlers, over the platform, the OIDC client and a session store.
\<close>

subsection \<open>Cookie attributes and names\<close>

definition cleared_max_age :: int where "cleared_max_age = 0"
definition initial_session_version :: int where "initial_session_version = 1"
definition token_bytes :: nat where "token_bytes = 24"
definition tx_cookie_max_age_seconds :: int where "tx_cookie_max_age_seconds = 600"
definition max_cookie_value_length :: nat where "max_cookie_value_length = 3800"
definition max_chunk_clear :: nat where "max_chunk_clear = 16"
definition single_chunk :: nat where "single_chunk = 1"
definition safe_return_to_default :: string where "safe_return_to_default = ''/''"

definition base_cookie_opts :: "bool \<Rightarrow> same_site option \<Rightarrow> cookie_attributes" where
  "base_cookie_opts secure site =
     \<lparr>ca_http_only = True, ca_same_site = (case site of Some x \<Rightarrow> x | None \<Rightarrow> Lax), ca_secure = secure,
      ca_path = ''/'', ca_max_age = None\<rparr>"

definition session_cookie_opts :: "bff_config \<Rightarrow> cookie_attributes" where
  "session_cookie_opts config =
     (base_cookie_opts (cookie_secure config) (cookie_same_site config))\<lparr>ca_max_age := Some (session_ttl_seconds config)\<rparr>"

definition csrf_cookie_opts :: "bff_config \<Rightarrow> cookie_attributes" where
  "csrf_cookie_opts config = (session_cookie_opts config)\<lparr>ca_http_only := False\<rparr>"

definition clear_cookie_opts :: "bff_config \<Rightarrow> bool \<Rightarrow> cookie_attributes" where
  "clear_cookie_opts config http_only =
     (base_cookie_opts (cookie_secure config) (cookie_same_site config))
       \<lparr>ca_http_only := http_only, ca_max_age := Some cleared_max_age\<rparr>"

definition tx_cookie_name :: "string \<Rightarrow> string" where "tx_cookie_name name = name @ ''_tx''"
definition csrf_cookie_name :: "string \<Rightarrow> string" where "csrf_cookie_name name = name @ ''-csrf''"

definition chunk_cookie_name :: "string \<Rightarrow> nat \<Rightarrow> string" where
  "chunk_cookie_name name index = (if index = 0 then name else name @ ''.'' @ nat_to_string index)"

text \<open>\<open>issuer.replace(/\/$/, "")\<close>\<close>

definition normalize_issuer :: "string \<Rightarrow> string" where
  "normalize_issuer iss = (if iss \<noteq> '''' \<and> last iss = CHR ''/'' then butlast iss else iss)"

definition frontchannel_page :: string where
  "frontchannel_page =
     ''<!doctype html><html><head><meta charset='' @ [CHR 0x22] @ ''utf-8'' @ [CHR 0x22] @ ''><title>Signed out</title></head>''
     @ ''<body>Signed out.</body></html>''"

subsection \<open>Reading and writing the reference\<close>

definition request_cookies :: "'s platform \<Rightarrow> request \<Rightarrow> (string \<times> string) list" where
  "request_cookies pl req =
     pl_parse_cookies pl (case h_get (req_headers req) ''cookie'' of Some c \<Rightarrow> c | None \<Rightarrow> '''')"

definition request_cookie :: "'s platform \<Rightarrow> request \<Rightarrow> string \<Rightarrow> string option" where
  "request_cookie pl req name = obj_get (request_cookies pl req) name"

definition append_cookie :: "'s platform \<Rightarrow> headers \<Rightarrow> string \<Rightarrow> string \<Rightarrow> cookie_attributes \<Rightarrow> headers" where
  "append_cookie pl hs name value options = h_append hs ''set-cookie'' (pl_serialize_cookie pl name value options)"

definition safe_return_to :: "string option \<Rightarrow> string" where
  "safe_return_to return_to =
     (case return_to of
        Some r \<Rightarrow> if is_safe_return_url (Some r) then r else safe_return_to_default
      | None \<Rightarrow> safe_return_to_default)"

text \<open>
  The loop of \<open>readSessionRef\<close> over the chunk index. It ends because the jar is finite and no two
  indices name the same cookie.
\<close>

lemma nat_to_string_inject: "nat_to_string i = nat_to_string j \<longleftrightarrow> i = j"
proof
  assume "nat_to_string i = nat_to_string j"
  then have "digits_val (nat_to_string i) = digits_val (nat_to_string j)" by (rule arg_cong)
  then show "i = j" by simp
qed simp

lemma chunk_cookie_name_inject: "chunk_cookie_name name i = chunk_cookie_name name j \<longleftrightarrow> i = j"
  by (auto simp: chunk_cookie_name_def nat_to_string_inject)

definition chunks_from :: "(string \<times> string) list \<Rightarrow> string \<Rightarrow> nat \<Rightarrow> nat set" where
  "chunks_from cookies name i = {j. i \<le> j \<and> obj_get cookies (chunk_cookie_name name j) \<noteq> None}"

lemma finite_chunks_from: "finite (chunks_from cookies name i)"
proof (rule finite_imageD)
  show "finite (chunk_cookie_name name ` chunks_from cookies name i)"
    by (rule finite_subset [of _ "fst ` set cookies"]) (auto simp: chunks_from_def obj_get_None_iff image_iff)
qed (simp add: inj_on_def chunk_cookie_name_inject)

lemma chunks_from_less:
  assumes "obj_get cookies (chunk_cookie_name name i) = Some p"
  shows "card (chunks_from cookies name (Suc i)) < card (chunks_from cookies name i)"
proof (rule psubset_card_mono [OF finite_chunks_from])
  have "i \<in> chunks_from cookies name i" "i \<notin> chunks_from cookies name (Suc i)"
    using assms by (auto simp: chunks_from_def)
  moreover have "chunks_from cookies name (Suc i) \<subseteq> chunks_from cookies name i"
    by (auto simp: chunks_from_def)
  ultimately show "chunks_from cookies name (Suc i) \<subset> chunks_from cookies name i" by blast
qed

function join_chunks :: "(string \<times> string) list \<Rightarrow> string \<Rightarrow> nat \<Rightarrow> string \<Rightarrow> string" where
  "join_chunks cookies name index ref =
     (case obj_get cookies (chunk_cookie_name name index) of
        None \<Rightarrow> ref
      | Some part \<Rightarrow> if part = '''' then ref else join_chunks cookies name (Suc index) (ref @ part))"
  by pat_completeness auto
termination
  by (relation "measure (\<lambda>(cookies, name, index, ref). card (chunks_from cookies name index))")
    (simp_all add: chunks_from_less)

declare join_chunks.simps [simp del]

definition session_ref_of :: "(string \<times> string) list \<Rightarrow> string \<Rightarrow> string option" where
  "session_ref_of cookies name =
     (case obj_get cookies name of
        None \<Rightarrow> None
      | Some first \<Rightarrow> if first = '''' then None else Some (join_chunks cookies name 1 first))"

definition read_session_ref :: "'s platform \<Rightarrow> request \<Rightarrow> bff_config \<Rightarrow> string option" where
  "read_session_ref pl req config = session_ref_of (request_cookies pl req) (cookie_name config)"

definition read_session ::
    "'s platform \<Rightarrow> ('s, 't) session_store \<Rightarrow> bff_config \<Rightarrow> request \<Rightarrow> ('s, bff_session option) io" where
  "read_session pl store config req =
     (case read_session_ref pl req config of
        None \<Rightarrow> io_return None
      | Some ref \<Rightarrow> st_read store ref)"

text \<open>The cookies one \<open>writeSessionRef\<close> sends, in order: the chunks, then the cleared positions.\<close>

definition chunk_count :: "string \<Rightarrow> nat" where
  "chunk_count ref =
     max single_chunk ((length ref + (max_cookie_value_length - 1)) div max_cookie_value_length)"

definition slice :: "nat \<Rightarrow> nat \<Rightarrow> string \<Rightarrow> string" where
  "slice start stop s = take (stop - start) (drop start s)"

definition session_ref_cookies :: "bff_config \<Rightarrow> string \<Rightarrow> (string \<times> string \<times> cookie_attributes) list" where
  "session_ref_cookies config ref =
     map (\<lambda>index. (chunk_cookie_name (cookie_name config) index,
            slice (index * max_cookie_value_length) (index * max_cookie_value_length + max_cookie_value_length) ref,
            session_cookie_opts config)) [0..<chunk_count ref]
     @ map (\<lambda>index. (chunk_cookie_name (cookie_name config) index, '''', clear_cookie_opts config True))
         [chunk_count ref..<max_chunk_clear]"

definition append_cookies ::
    "'s platform \<Rightarrow> headers \<Rightarrow> (string \<times> string \<times> cookie_attributes) list \<Rightarrow> headers" where
  "append_cookies pl hs cs = fold (\<lambda>(name, value, options) hs. append_cookie pl hs name value options) cs hs"

definition write_session_ref :: "'s platform \<Rightarrow> headers \<Rightarrow> bff_config \<Rightarrow> string \<Rightarrow> headers" where
  "write_session_ref pl hs config ref = append_cookies pl hs (session_ref_cookies config ref)"

definition write_session ::
    "'s platform \<Rightarrow> ('s, 't) session_store \<Rightarrow> bff_config \<Rightarrow> headers \<Rightarrow> bff_session \<Rightarrow> ('s, string \<times> headers) io" where
  "write_session pl store config hs session =
     io_bind (st_write store session) (\<lambda>ref. io_return (ref, write_session_ref pl hs config ref))"

definition clear_session_cookies ::
    "bff_config \<Rightarrow> (string \<times> string) list \<Rightarrow> (string \<times> string \<times> cookie_attributes) list" where
  "clear_session_cookies config cookies =
     [(cookie_name config, '''', clear_cookie_opts config True),
      (csrf_cookie_name (cookie_name config), '''', clear_cookie_opts config False)]
     @ map (\<lambda>name. (name, '''', clear_cookie_opts config True))
         (filter (\<lambda>name. starts_with name (cookie_name config @ ''.'')) (map fst cookies))"

definition clear_session :: "'s platform \<Rightarrow> headers \<Rightarrow> request \<Rightarrow> bff_config \<Rightarrow> headers" where
  "clear_session pl hs req config = append_cookies pl hs (clear_session_cookies config (request_cookies pl req))"

definition redirect_to :: "string \<Rightarrow> headers \<Rightarrow> response" where
  "redirect_to location hs = new_response 302 None (h_set hs ''location'' location)"

subsection \<open>The handlers\<close>

text \<open>\<open>new URL(config.redirectUri)\<close> with the incoming query appended parameter by parameter.\<close>

definition append_param :: "string \<times> string \<Rightarrow> full_url \<Rightarrow> full_url" where
  "append_param p u = with_params u (search_params u @ [p])"

definition callback_url :: "bff_config \<Rightarrow> url \<Rightarrow> thrown + full_url" where
  "callback_url config incoming =
     (case new_url (redirect_uri config) of
        Inl e \<Rightarrow> Inl e
      | Inr url \<Rightarrow> Inr (fold append_param (search_params incoming) url))"

definition login ::
    "'s platform \<Rightarrow> ('s, 'c) oidc \<Rightarrow> bff_config \<Rightarrow> request \<Rightarrow> ('s, response) io" where
  "login pl oidc config req =
     (let return_to = safe_return_to (param_get (req_url req) ''returnTo'');
          organization = (case param_get (req_url req) ''organization'' of Some o' \<Rightarrow> js_trim o' | None \<Rightarrow> '''') in
      io_bind (discover oidc config) (\<lambda>doc.
      io_bind (io_lift (create_pkce_pair (pl_sha256 pl) (pl_random pl))) (\<lambda>pkce.
      io_bind (io_lift (random_url_safe (pl_random pl) token_bytes)) (\<lambda>state.
      io_bind (io_lift (random_url_safe (pl_random pl) token_bytes)) (\<lambda>nonce.
      io_bind (seal_tx (pl_iron pl)
          \<lparr>tx_state = state, tx_nonce = nonce, tx_verifier = verifier pkce, tx_return_to = return_to\<rparr>
          (config_secret config)) (\<lambda>sealed.
      (let hs = append_cookie pl [] (tx_cookie_name (cookie_name config)) sealed
            ((base_cookie_opts (cookie_secure config) None)\<lparr>ca_max_age := Some tx_cookie_max_age_seconds\<rparr>) in
       io_bind (io_of (build_authorize_url oidc config doc
          \<lparr>ap_state = state, ap_code_challenge = challenge pkce, ap_nonce = nonce,
           ap_organization = (if organization = '''' then None else Some organization)\<rparr>)) (\<lambda>authorize_url.
       io_return (redirect_to authorize_url hs)))))))))"

text \<open>The identity: the id token's claims, overlaid with userinfo, normalised by \<open>mapClaims\<close>.\<close>

definition overlay_user_info :: "user_claims \<Rightarrow> user_claims option \<Rightarrow> user_claims" where
  "overlay_user_info claims info =
     (case info of
        None \<Rightarrow> claims
      | Some i \<Rightarrow>
          obj_set_opt (obj_spread claims i) ''sub''
            (case obj_get i ''sub'' of Some (JStr s) \<Rightarrow> Some (JStr s) | _ \<Rightarrow> obj_get claims ''sub''))"

definition callback_session ::
    "'s platform \<Rightarrow> token_response \<Rightarrow> user_claims \<Rightarrow> string option \<Rightarrow> ('s, string \<times> bff_session) io" where
  "callback_session pl tokens claims op_sid =
     io_bind (io_lift (random_url_safe (pl_random pl) token_bytes)) (\<lambda>csrf.
     io_bind (io_lift (random_url_safe (pl_random pl) token_bytes)) (\<lambda>i.
     io_bind (io_gets (pl_now pl)) (\<lambda>now.
     io_return (csrf,
       \<lparr>session_id = i, access_token = tr_access_token tokens, refresh_token = tr_refresh_token tokens,
        id_token = tr_id_token tokens, expires_at = now + tr_expires_in tokens * ms_per_second,
        user = claims, sid = op_sid, version = initial_session_version, csrf_token = Some csrf\<rparr>))))"

definition id_token_user :: "token_response \<Rightarrow> thrown + user_claims" where
  "id_token_user tokens =
     (case tr_id_token tokens of
        None \<Rightarrow> Inr [(''sub'', JStr '''')]
      | Some t \<Rightarrow> (case decode_id_token_claims t of Inl msg \<Rightarrow> Inl (new_error msg) | Inr u \<Rightarrow> Inr u))"

definition complete_callback ::
    "'s platform \<Rightarrow> ('s, 'c) oidc \<Rightarrow> ('s, 't) session_store \<Rightarrow> bff_config \<Rightarrow> url \<Rightarrow> string \<Rightarrow> login_tx \<Rightarrow> headers
      \<Rightarrow> ('s, response) io" where
  "complete_callback pl oidc store config incoming auth_code tx hs =
     io_bind (discover oidc config) (\<lambda>doc.
     io_bind (io_of (callback_url config incoming)) (\<lambda>current_url.
     io_bind (exchange_code oidc doc
        \<lparr>ec_code = auth_code, ec_code_verifier = tx_verifier tx, ec_current_url = current_url,
         ec_state = Some (tx_state tx), ec_nonce = Some (tx_nonce tx)\<rparr>) (\<lambda>tokens.
     io_bind (io_of (id_token_user tokens)) (\<lambda>user0.
     (let op_sid = (case obj_get user0 ''sid'' of Some (JStr s) \<Rightarrow> Some s | _ \<Rightarrow> None) in
      io_bind (fetch_user_info oidc doc (tr_access_token tokens)) (\<lambda>info.
      io_bind (callback_session pl tokens (map_claims (overlay_user_info user0 info)) op_sid) (\<lambda>(csrf, session).
      io_bind (write_session pl store config hs session) (\<lambda>(ref, hs').
      io_return (redirect_to (safe_return_to (Some (tx_return_to tx)))
        (append_cookie pl hs' (csrf_cookie_name (cookie_name config)) csrf (csrf_cookie_opts config)))))))))))"

definition callback ::
    "'s platform \<Rightarrow> ('s, 'c) oidc \<Rightarrow> ('s, 't) session_store \<Rightarrow> bff_config \<Rightarrow> request \<Rightarrow> ('s, response) io" where
  "callback pl oidc store config req =
     (let incoming = req_url req;
          auth_code = param_get incoming ''code'';
          state = param_get incoming ''state'';
          tx_name = tx_cookie_name (cookie_name config) in
      case request_cookie pl req tx_name of
        None \<Rightarrow> answer_problem pl (req_headers req) 400 validation_failed None []
      | Some sealed_tx \<Rightarrow>
          if sealed_tx = '''' then answer_problem pl (req_headers req) 400 validation_failed None []
          else
            io_bind (unseal_tx (pl_iron pl) sealed_tx (config_secret config)) (\<lambda>tx.
            (let hs = append_cookie pl [] tx_name '''' (clear_cookie_opts config True) in
             case (tx, auth_code, state) of
               (Some t, Some c, Some st) \<Rightarrow>
                 if st \<noteq> tx_state t then answer_problem pl (req_headers req) 400 validation_failed None hs
                 else complete_callback pl oidc store config incoming c t hs
             | _ \<Rightarrow> answer_problem pl (req_headers req) 400 validation_failed None hs)))"

text \<open>\<open>{ ...session.user, csrfToken: session.csrfToken }\<close>: an \<open>undefined\<close> token is not printed, but
  it does hide a claim of that name.\<close>

definition user_response_body :: "bff_session \<Rightarrow> json" where
  "user_response_body session =
     (case csrf_token session of
        Some t \<Rightarrow> JObj (obj_set (user session) ''csrfToken'' (JStr t))
      | None \<Rightarrow> JObj (obj_delete (user session) ''csrfToken''))"

definition user_handler ::
    "'s platform \<Rightarrow> ('s, 't) session_store \<Rightarrow> bff_config \<Rightarrow> request \<Rightarrow> ('s, response) io" where
  "user_handler pl store config req =
     io_bind (read_session pl store config req) (\<lambda>session.
     case session of
       None \<Rightarrow> answer_problem pl (req_headers req) 401 bff_session_missing None []
     | Some b \<Rightarrow> io_return (json_response 200 (user_response_body b) (h_of [(''cache-control'', ''no-store'')])))"

text \<open>Ending the session of a request at the store, where there is a reference.\<close>

definition destroy_session ::
    "'s platform \<Rightarrow> ('s, 't) session_store \<Rightarrow> bff_config \<Rightarrow> request \<Rightarrow> ('s, unit) io" where
  "destroy_session pl store config req =
     (case read_session_ref pl req config of None \<Rightarrow> io_return () | Some ref \<Rightarrow> st_destroy store ref)"

definition logout ::
    "'s platform \<Rightarrow> ('s, 'c) oidc \<Rightarrow> ('s, 't) session_store \<Rightarrow> bff_config \<Rightarrow> request \<Rightarrow> ('s, response) io" where
  "logout pl oidc store config req =
     (if to_upper (req_method req) \<noteq> ''POST'' then
        answer_problem pl (req_headers req) 405 http_method_not_allowed None (h_of [(''allow'', ''POST'')])
      else
        io_bind (read_session pl store config req) (\<lambda>session.
        case session of
          None \<Rightarrow> io_return (new_response 204 None (clear_session pl [] req config))
        | Some b \<Rightarrow>
            if \<not> csrf_token_matches (csrf_token b) (h_get (req_headers req) csrf_header) then
              answer_problem pl (req_headers req) 403 bff_csrf_invalid None []
            else
              io_bind (destroy_session pl store config req) (\<lambda>_.
              (let hs = clear_session pl [] req config in
               io_bind (discover oidc config) (\<lambda>doc.
               io_bind (io_of (build_logout_url oidc config doc (id_token b))) (\<lambda>logout_url.
               io_return (json_response 200 (JObj [(''logoutUrl'', JStr logout_url)])
                 (h_set hs ''cache-control'' ''no-store''))))))))"

definition frontchannel_matches :: "bff_config \<Rightarrow> url \<Rightarrow> bff_session option \<Rightarrow> bool" where
  "frontchannel_matches config incoming session =
     (case (session, param_get incoming ''sid'', param_get incoming ''iss'') of
        (Some b, Some i, Some iss) \<Rightarrow> sid b = Some i \<and> normalize_issuer iss = normalize_issuer (issuer config)
      | _ \<Rightarrow> False)"

definition frontchannel_logout ::
    "'s platform \<Rightarrow> ('s, 't) session_store \<Rightarrow> bff_config \<Rightarrow> request \<Rightarrow> ('s, response) io" where
  "frontchannel_logout pl store config req =
     (if to_upper (req_method req) \<noteq> ''GET'' then
        answer_problem pl (req_headers req) 405 http_method_not_allowed None (h_of [(''allow'', ''GET'')])
      else
        (let hs = h_of [(''content-type'', ''text/html; charset=utf-8''), (''cache-control'', ''no-store'')] in
         io_bind (read_session pl store config req) (\<lambda>session.
         if frontchannel_matches config (req_url req) session then
           io_bind (destroy_session pl store config req) (\<lambda>_.
           io_return (new_response 200 (Some frontchannel_page) (clear_session pl hs req config)))
         else io_return (new_response 200 (Some frontchannel_page) hs))))"

subsection \<open>The browser's jar\<close>

text \<open>What a browser keeps of the cookies one response sets: an expired one is dropped.\<close>

definition jar_store :: "string \<times> string \<times> cookie_attributes \<Rightarrow> (string \<times> string) list \<Rightarrow> (string \<times> string) list" where
  "jar_store c jar =
     (case c of (name, v, a) \<Rightarrow>
        (case ca_max_age a of
           Some t \<Rightarrow> if t \<le> 0 then obj_delete jar name else obj_set jar name v
         | None \<Rightarrow> obj_set jar name v))"

definition jar_after :: "(string \<times> string) list \<Rightarrow> (string \<times> string \<times> cookie_attributes) list \<Rightarrow> (string \<times> string) list" where
  "jar_after jar cs = fold jar_store cs jar"

definition kept_value :: "string \<times> cookie_attributes \<Rightarrow> string option" where
  "kept_value va = (case ca_max_age (snd va) of Some t \<Rightarrow> if t \<le> 0 then None else Some (fst va) | None \<Rightarrow> Some (fst va))"

lemma jar_store_get: "obj_get (jar_store (n, va) jar) m = (if m = n then kept_value va else obj_get jar m)"
  by (auto simp: jar_store_def kept_value_def case_prod_beta split: option.splits)

text \<open>Of cookies with distinct names each lands as it was sent, and the others stay.\<close>

lemma jar_after_get:
  "distinct (map fst cs) \<Longrightarrow>
   obj_get (jar_after jar cs) m = (case map_of cs m of Some va \<Rightarrow> kept_value va | None \<Rightarrow> obj_get jar m)"
proof (induction cs arbitrary: jar)
  case (Cons c cs)
  obtain n va where c: "c = (n, va)" by (cases c)
  have "obj_get (jar_after jar (c # cs)) m
      = (case map_of cs m of Some va \<Rightarrow> kept_value va | None \<Rightarrow> obj_get (jar_store c jar) m)"
    using Cons.IH [of "jar_store c jar"] Cons.prems by (simp add: jar_after_def)
  moreover have "map_of cs n = None" using Cons.prems c by (simp add: map_of_eq_None_iff)
  ultimately show ?case by (auto simp: c jar_store_get split: option.splits)
qed (simp add: jar_after_def)

lemma jar_after_deleted:
  "(n, v, a) \<in> set cs \<Longrightarrow> \<forall>c \<in> set cs. \<exists>m w b. c = (m, w, b) \<and> ca_max_age b = Some cleared_max_age
     \<Longrightarrow> obj_get (jar_after jar cs) n = None"
proof (induction cs arbitrary: jar rule: rev_induct)
  case (snoc c cs)
  obtain m w b where "c = (m, w, b)" "ca_max_age b = Some cleared_max_age" using snoc.prems by auto
  with snoc show ?case by (auto simp: jar_after_def jar_store_get kept_value_def cleared_max_age_def)
qed simp

subsection \<open>Lemmas: the reference in the jar\<close>

lemma chunk_count_bounds:
  "1 \<le> chunk_count ref" "length ref \<le> chunk_count ref * 3800"
  "ref \<noteq> '''' \<Longrightarrow> i < chunk_count ref \<Longrightarrow> i * 3800 < length ref"
  "length ref \<le> k * 3800 \<Longrightarrow> 1 \<le> k \<Longrightarrow> chunk_count ref \<le> k"
proof -
  let ?q = "(length ref + 3799) div 3800"
  have q: "chunk_count ref = max 1 ?q" by (simp add: chunk_count_def max_cookie_value_length_def single_chunk_def)
  show "1 \<le> chunk_count ref" unfolding q by simp
  have "length ref \<le> ?q * 3800" by linarith
  also have "\<dots> \<le> chunk_count ref * 3800" unfolding q by (intro mult_right_mono) auto
  finally show "length ref \<le> chunk_count ref * 3800" .
  show "i * 3800 < length ref" if "ref \<noteq> ''''" "i < chunk_count ref"
  proof (cases i)
    case (Suc j)
    then have "i < ?q" using that(2) unfolding q by simp
    then show ?thesis by linarith
  qed (use that in simp)
  show "chunk_count ref \<le> k" if "length ref \<le> k * 3800" "1 \<le> k"
  proof -
    have "?q \<le> k" using that(1) by linarith
    then show ?thesis using that(2) unfolding q by simp
  qed
qed

lemma session_ref_cookies_names:
  "chunk_count ref \<le> 16 \<Longrightarrow>
   map fst (session_ref_cookies config ref) = map (chunk_cookie_name (cookie_name config)) [0..<16]"
  using upt_add_eq_append [of 0 "chunk_count ref" "16 - chunk_count ref"]
  by (simp add: session_ref_cookies_def max_chunk_clear_def comp_def)

text \<open>Where each chunk position lands after a write.\<close>

lemma jar_after_write:
  assumes "chunk_count ref \<le> 15" "0 < session_ttl_seconds config" "i < 16"
  shows "obj_get (jar_after jar (session_ref_cookies config ref)) (chunk_cookie_name (cookie_name config) i)
    = (if i < chunk_count ref then Some (take 3800 (drop (i * 3800) ref)) else None)"
proof -
  let ?cs = "session_ref_cookies config ref"
  have names: "map fst ?cs = map (chunk_cookie_name (cookie_name config)) [0..<16]"
    using session_ref_cookies_names assms(1) by simp
  then have distinct: "distinct (map fst ?cs)"
    by (simp add: distinct_map inj_on_def chunk_cookie_name_inject)
  define va where "va = (if i < chunk_count ref then (take 3800 (drop (i * 3800) ref), session_cookie_opts config)
      else ('''', clear_cookie_opts config True))"
  have "(chunk_cookie_name (cookie_name config) i, va) \<in> set ?cs"
    using assms(3) by (auto simp: va_def session_ref_cookies_def max_chunk_clear_def max_cookie_value_length_def
        slice_def image_iff)
  then have "map_of ?cs (chunk_cookie_name (cookie_name config) i) = Some va"
    using distinct by simp
  then show ?thesis
    using assms(2) unfolding jar_after_get [OF distinct]
    by (simp add: va_def kept_value_def session_cookie_opts_def clear_cookie_opts_def cleared_max_age_def)
qed

lemma join_chunks_write:
  assumes "chunk_count ref \<le> 15" "0 < session_ttl_seconds config" "ref \<noteq> ''''" "i \<le> chunk_count ref"
  shows "join_chunks (jar_after jar (session_ref_cookies config ref)) (cookie_name config) i (take (i * 3800) ref) = ref"
  using assms(4)
proof (induction i rule: inc_induct)
  case base
  then show ?case
    using jar_after_write [OF assms(1,2), of "chunk_count ref" jar] chunk_count_bounds(2) [of ref] assms(1)
    by (subst join_chunks.simps) simp
next
  case (step i)
  have "i * 3800 < length ref" using chunk_count_bounds(3) [OF assms(3)] step.hyps by simp
  then have part: "take 3800 (drop (i * 3800) ref) \<noteq> ''''" by simp
  have "take (i * 3800) ref @ take 3800 (drop (i * 3800) ref) = take (Suc i * 3800) ref"
    by (simp add: take_add [symmetric] add.commute)
  then show ?case
    using jar_after_write [OF assms(1,2), of i jar] step part assms(1)
    by (subst join_chunks.simps) simp
qed

subsection \<open>Lemmas: the handlers over a store that keeps its contract\<close>

lemma io_bind_lift: "io_bind (io_lift f) g s = g (fst (f s)) (snd (f s))"
  by (simp add: io_bind_def io_lift_def case_prod_beta)

lemma io_of_eq_Inr: "io_of x s = (Inr b, s') \<longleftrightarrow> x = Inr b \<and> s' = s"
  by (cases x) (auto simp: io_throw_apply io_return_apply)

lemma answer_problemE:
  assumes "h_norm hs"
  obtains r s' where "answer_problem pl rh st c detail hs s = (Inr r, s')" "status r = st"
    "h_get_set_cookie (resp_headers r) = h_get_set_cookie hs" "s' \<in> {s, snd (pl_uuid pl s)}"
proof -
  obtain i s' where a: "answer_problem pl rh st c detail hs s
      = (Inr (problem_response st c \<lparr>po_request_id = i, po_detail = detail, po_headers = hs\<rparr>), s')"
      "s' \<in> {s, snd (pl_uuid pl s)}"
    using answer_problem_result [of pl rh st c detail hs s] by (elim exE conjE)
  let ?o = "\<lparr>po_request_id = i, po_detail = detail, po_headers = hs\<rparr>"
  have "h_get_set_cookie (resp_headers (problem_response st c ?o)) = h_get_set_cookie hs"
    using cookies_simps(3) [of ?o st c] assms by (simp only: problem_options.simps)
  then show thesis using that [OF a(1) _ _ a(2)] status_simps(3) by blast
qed

lemma append_cookies_lines [simp]:
  "h_get_set_cookie (append_cookies pl hs cs)
    = h_get_set_cookie hs @ map (\<lambda>(n, v, a). header_value (pl_serialize_cookie pl n v a)) cs"
  by (induction cs arbitrary: hs) (auto simp: append_cookies_def append_cookie_def to_lower_def lower_char_def)

lemma append_cookies_norm [simp]: "h_norm hs \<Longrightarrow> h_norm (append_cookies pl hs cs)"
  by (induction cs arbitrary: hs) (auto simp: append_cookies_def append_cookie_def)

lemma append_cookie_lines [simp]:
  "h_get_set_cookie (append_cookie pl hs n v a) = h_get_set_cookie hs @ [header_value (pl_serialize_cookie pl n v a)]"
  "h_norm hs \<Longrightarrow> h_norm (append_cookie pl hs n v a)"
  by (simp_all add: append_cookie_def to_lower_def lower_char_def)

lemma append_cookies_get [simp]:
  "to_lower n \<noteq> ''set-cookie'' \<Longrightarrow> h_get (append_cookies pl hs cs) n = h_get hs n"
  "to_lower n \<noteq> ''set-cookie'' \<Longrightarrow> h_get (append_cookie pl hs m v a) n = h_get hs n"
  by (induction cs arbitrary: hs)
    (auto simp: append_cookies_def append_cookie_def h_get_append_other to_lower_def lower_char_def)

lemma lower_literals [simp]:
  "to_lower ''set-cookie'' = ''set-cookie''" "to_lower ''location'' = ''location''"
  "to_lower ''cache-control'' = ''cache-control''" "to_lower ''content-type'' = ''content-type''"
  "to_lower ''allow'' = ''allow''"
  by (simp_all add: to_lower_def lower_char_def)

lemma redirect_to_simps [simp]:
  "status (redirect_to l hs) = 302"
  "h_norm hs \<Longrightarrow> h_get (resp_headers (redirect_to l hs)) ''location'' = Some (header_value l)"
  "h_norm hs \<Longrightarrow> h_get_set_cookie (resp_headers (redirect_to l hs)) = h_get_set_cookie hs"
  by (simp_all add: redirect_to_def h_get_copy h_get_set) (simp add: new_response_def h_get_copy h_get_set)

lemma safe_return_to_safe: "is_safe_return_url (Some (safe_return_to r))"
  by (auto simp: safe_return_to_def safe_return_to_default_def is_safe_return_url_def js_trim_def trim_start_def
      trim_end_def is_ws_def starts_with_def split: option.splits)

text \<open>A callback that answers has refused, or has completed with the opened transaction.\<close>

lemma problem_status: "answer_problem pl rh st c detail hs s = (Inr r, s') \<Longrightarrow> status r = st"
  using answer_problem_result [of pl rh st c detail hs s] by auto

lemma callback_cases:
  assumes "callback pl oidc store config req s = (Inr r, s')"
  shows "status r = 400
    \<or> (\<exists>c tx hs t. complete_callback pl oidc store config (req_url req) c tx hs t = (Inr r, s') \<and> h_norm hs)"
proof (cases "request_cookie pl req (tx_cookie_name (cookie_name config))")
  case None
  then show ?thesis using assms problem_status by (auto simp: callback_def Let_def)
next
  case (Some sealed)
  let ?hs = "append_cookie pl [] (tx_cookie_name (cookie_name config)) '''' (clear_cookie_opts config True)"
  let ?refuse = "answer_problem pl (req_headers req) 400 validation_failed None ?hs"
  show ?thesis
  proof (cases "sealed = ''''")
    case True
    then show ?thesis using assms Some problem_status by (auto simp: callback_def Let_def)
  next
    case False
    with assms Some obtain tx t where "(case (tx, param_get (req_url req) ''code'', param_get (req_url req) ''state'') of
        (Some x, Some c, Some st) \<Rightarrow> if st \<noteq> tx_state x then ?refuse
          else complete_callback pl oidc store config (req_url req) c x ?hs
      | _ \<Rightarrow> ?refuse) t = (Inr r, s')"
      unfolding callback_def Let_def by (simp only: option.case if_False io_bind_eq_Inr) blast
    then have "?refuse t = (Inr r, s')
        \<or> (\<exists>c x. complete_callback pl oidc store config (req_url req) c x ?hs t = (Inr r, s'))"
      by (auto split: option.splits if_splits)
    moreover have "h_norm ?hs" by simp
    ultimately show ?thesis by (metis problem_status)
  qed
qed

lemma complete_callback_redirects:
  assumes "complete_callback pl oidc store config incoming c tx hs s = (Inr r, s')" "h_norm hs"
  obtains hs' where "r = redirect_to (safe_return_to (Some (tx_return_to tx))) hs'" "h_norm hs'"
  using assms by (auto simp: complete_callback_def write_session_def write_session_ref_def io_bind_eq_Inr io_simps Let_def)

context session_store
begin

lemma read_session_law:
  assumes "good s"
  shows "\<exists>s'. read_session pl store config req s
      = (Inr (case read_session_ref pl req config of None \<Rightarrow> None | Some ref \<Rightarrow> bound s ref), s')
    \<and> good s' \<and> bound s' = bound s"
proof (cases "read_session_ref pl req config")
  case (Some ref)
  then show ?thesis using read_law [OF assms, of ref] by (simp add: read_session_def)
qed (simp add: read_session_def assms io_simps)

lemma destroy_session_law:
  assumes "good s" shows "\<exists>s'. destroy_session pl store config req s = (Inr (), s') \<and> good s'"
  using destroy_law [OF assms] assms
  by (cases "read_session_ref pl req config") (simp_all add: destroy_session_def io_simps)

text \<open>A notification that does not match the session changes nothing and sets no cookie.\<close>

lemma frontchannel_law:
  assumes "good s" "to_upper (req_method req) = ''GET''" "read_session_ref pl req config = Some ref"
  shows "\<exists>r s1 s2. frontchannel_logout pl store config req s = (Inr r, s2) \<and> good s1 \<and> bound s1 = bound s
    \<and> status r = 200 \<and> resp_body r = Some frontchannel_page
    \<and> (if frontchannel_matches config (req_url req) (bound s ref) then st_destroy store ref s1 = (Inr (), s2)
       else s2 = s1 \<and> h_get_set_cookie (resp_headers r) = [])"
proof -
  obtain s1 where s1: "read_session pl store config req s = (Inr (bound s ref), s1)" "good s1" "bound s1 = bound s"
    using read_session_law [OF assms(1), of pl config req] assms(3) by auto
  obtain s2 where s2: "st_destroy store ref s1 = (Inr (), s2)" using destroy_law [OF s1(2)] by blast
  then have d: "destroy_session pl store config req s1 = (Inr (), s2)" by (simp add: destroy_session_def assms(3))
  show ?thesis
  proof (cases "frontchannel_matches config (req_url req) (bound s ref)")
    case True
    then show ?thesis using s1 s2 d
      by (simp add: frontchannel_logout_def assms(2) Let_def s1(1) d io_simps new_response_def) blast
  next
    case False
    then show ?thesis using s1
      by (simp add: frontchannel_logout_def assms(2) Let_def s1(1) io_simps)
        (simp add: new_response_def h_get_set_cookie_def h_values_of)
  qed
qed

text \<open>A logout that does not carry the session's token ends nothing.\<close>

lemma logout_refused:
  assumes "good s" "to_upper (req_method req) = ''POST''" "read_session_ref pl req config = Some ref"
    "bound s ref = Some b" "\<not> csrf_token_matches (csrf_token b) (h_get (req_headers req) csrf_header)"
  shows "\<exists>r s1 s2. logout pl oidc store config req s = (Inr r, s2) \<and> status r = 403
    \<and> h_get_set_cookie (resp_headers r) = [] \<and> good s1 \<and> bound s1 = bound s \<and> s2 \<in> {s1, snd (pl_uuid pl s1)}"
proof -
  obtain s1 where s1: "read_session pl store config req s = (Inr (Some b), s1)" "good s1" "bound s1 = bound s"
    using read_session_law [OF assms(1), of pl config req] assms(3,4) by auto
  obtain r s2 where a: "answer_problem pl (req_headers req) 403 bff_csrf_invalid None [] s1 = (Inr r, s2)"
      "status r = 403" "h_get_set_cookie (resp_headers r) = []" "s2 \<in> {s1, snd (pl_uuid pl s1)}"
    by (rule answer_problemE [of "[]"]) (simp_all add: h_get_set_cookie_def [of "[]"] h_values_def)
  have "logout pl oidc store config req s = (Inr r, s2)"
    using assms(2,5) a(1) by (simp add: logout_def s1(1) io_simps)
  then show ?thesis using a(2-4) s1(2,3) by (intro exI conjI)
qed

text \<open>One that does carry it goes on, with the reference destroyed, to answer the issuer's URL.\<close>

lemma logout_accepted:
  assumes "good s" "to_upper (req_method req) = ''POST''" "read_session_ref pl req config = Some ref"
    "bound s ref = Some b" "csrf_token_matches (csrf_token b) (h_get (req_headers req) csrf_header)"
  obtains s1 s2 where "good s1" "st_destroy store ref s1 = (Inr (), s2)"
    "logout pl oidc store config req s
      = io_bind (discover oidc config) (\<lambda>doc.
        io_bind (io_of (build_logout_url oidc config doc (id_token b))) (\<lambda>logout_url.
        io_return (json_response 200 (JObj [(''logoutUrl'', JStr logout_url)])
          (h_set (clear_session pl [] req config) ''cache-control'' ''no-store'')))) s2"
proof -
  obtain s1 where s1: "read_session pl store config req s = (Inr (Some b), s1)" "good s1" "bound s1 = bound s"
    using read_session_law [OF assms(1), of pl config req] assms(3,4) by auto
  obtain s2 where s2: "st_destroy store ref s1 = (Inr (), s2)" "good s2" using destroy_law [OF s1(2)] by blast
  then have d: "destroy_session pl store config req s1 = (Inr (), s2)" by (simp add: destroy_session_def assms(3))
  show thesis by (rule that [OF s1(2) s2(1)]) (simp add: logout_def assms(2,5) s1(1) d io_simps Let_def)
qed

end

context revocable_store
begin

lemma destroyed_bound:
  assumes "good s" "st_destroy store ref s = (Inr (), s')" shows "good s' \<and> bound s' ref = None"
  using destroy_law [OF assms(1), of ref] revoked [OF assms] assms(2) by auto

end

subsection \<open>Properties\<close>

text \<open>
  The session reference survives the cookie jar. Whatever chunks an earlier, longer session
  left in the browser, after the cookies of \<open>writeSessionRef\<close> are stored the reference reads back
  whole, for references of up to fifteen chunks; after those of \<open>clearSession\<close> no chunk and no
  CSRF cookie is left.
\<close>

lemma session_reference_round_trip:
  assumes "ref \<noteq> ''''" "length ref \<le> 15 * max_cookie_value_length" "0 < session_ttl_seconds config"
  shows "session_ref_of (jar_after jar (session_ref_cookies config ref)) (cookie_name config) = Some ref
    \<and> (let cleared = jar_after jar (clear_session_cookies config jar) in
        \<forall>i. obj_get cleared (chunk_cookie_name (cookie_name config) i) = None
          \<and> obj_get cleared (csrf_cookie_name (cookie_name config)) = None)"
proof -
  let ?jar = "jar_after jar (session_ref_cookies config ref)"
  have c: "chunk_count ref \<le> 15" "1 \<le> chunk_count ref"
    using chunk_count_bounds(1) [of ref] chunk_count_bounds(4) [of ref 15] assms(2)
    by (simp_all add: max_cookie_value_length_def)
  have "obj_get ?jar (cookie_name config) = Some (take 3800 ref)"
    using jar_after_write [OF c(1) assms(3), of 0 jar] c(2) by (simp add: chunk_cookie_name_def)
  moreover have "join_chunks ?jar (cookie_name config) 1 (take 3800 ref) = ref"
    using join_chunks_write [OF c(1) assms(3,1) c(2)] by simp
  ultimately have "session_ref_of ?jar (cookie_name config) = Some ref"
    using assms(1) by (simp add: session_ref_of_def)
  moreover have "obj_get (jar_after jar (clear_session_cookies config jar)) n = None"
    if "n = csrf_cookie_name (cookie_name config) \<or> n = chunk_cookie_name (cookie_name config) i" for n i
  proof (cases "n \<in> fst ` set (clear_session_cookies config jar)")
    case True
    then obtain v a where "(n, v, a) \<in> set (clear_session_cookies config jar)" by auto
    then show ?thesis by (rule jar_after_deleted) (auto simp: clear_session_cookies_def clear_cookie_opts_def)
  next
    case False
    have "fst ` set (clear_session_cookies config jar) = {cookie_name config, csrf_cookie_name (cookie_name config)}
        \<union> {n \<in> fst ` set jar. starts_with n (cookie_name config @ ''.'')}"
      by (simp add: clear_session_cookies_def image_image)
    moreover have "n = cookie_name config \<or> n = csrf_cookie_name (cookie_name config)
        \<or> starts_with n (cookie_name config @ ''.'')"
      using that by (auto simp: chunk_cookie_name_def starts_with_iff split: if_splits)
    ultimately have "n \<notin> fst ` set jar" using False by blast
    then have "obj_get jar n = None" by (simp add: obj_get_None_iff)
    moreover have "obj_get (fold jar_store cs j) n = None"
      if "n \<notin> fst ` set cs" "obj_get j n = None" for cs j
      using that by (induction cs arbitrary: j) (auto simp: jar_store_get split: prod.splits)
    ultimately show ?thesis using False by (simp add: jar_after_def)
  qed
  ultimately show ?thesis by (auto simp: Let_def)
qed

text \<open>
  C31: A callback needs its login. When the transaction cookie does not open, or the state the
  issuer returned is not the one sealed in it, or there is no code, the answer is a 400 problem
  that clears the transaction cookie, and neither the issuer nor the session store is asked
  anything: the answer is the same for every provider and every store.
\<close>

theorem callback_requires_transaction:
  assumes "request_cookie pl req (tx_cookie_name (cookie_name config)) = Some sealed" "sealed \<noteq> ''''"
    and "unseal_tx (pl_iron pl) sealed (config_secret config) s = (Inr tx, s1)"
    and "tx = None \<or> param_get (req_url req) ''code'' = None \<or> param_get (req_url req) ''state'' \<noteq> map_option tx_state tx"
  shows "\<exists>r s2. (\<forall>oidc store. callback pl oidc store config req s = (Inr r, s2)) \<and> status r = 400
    \<and> h_get_set_cookie (resp_headers r)
        = [header_value (pl_serialize_cookie pl (tx_cookie_name (cookie_name config)) '''' (clear_cookie_opts config True))]
    \<and> s2 \<in> {s1, snd (pl_uuid pl s1)}"
proof -
  let ?hs = "append_cookie pl [] (tx_cookie_name (cookie_name config)) '''' (clear_cookie_opts config True)"
  obtain r s2 where a: "answer_problem pl (req_headers req) 400 validation_failed None ?hs s1 = (Inr r, s2)"
      "status r = 400" "h_get_set_cookie (resp_headers r) = h_get_set_cookie ?hs" "s2 \<in> {s1, snd (pl_uuid pl s1)}"
    by (rule answer_problemE [of ?hs]) simp_all
  have "callback pl oidc store config req s = (Inr r, s2)" for oidc store
    using assms(4) a(1) by (simp add: callback_def Let_def assms(1-3) io_simps split: option.splits) auto
  then show ?thesis using a(2-4) by (auto simp: h_get_set_cookie_def [of "[]"] h_values_def)
qed

text \<open>
  C32: A login lands on the site. Wherever a completed callback redirects the browser, the
  location, resolved against any page, stays on that page's origin, even for a transaction sealed
  by another build.
\<close>

theorem callback_lands_on_site:
  assumes "callback pl oidc store config req s = (Inr r, s')" "status r = 302" "url_wf page"
  shows "\<exists>location v. h_get (resp_headers r) ''location'' = Some location
    \<and> parse_url (Some page) location = Some v \<and> protocol v = protocol page \<and> host v = host page"
proof -
  obtain c tx hs t where "complete_callback pl oidc store config (req_url req) c tx hs t = (Inr r, s')" "h_norm hs"
    using callback_cases [OF assms(1)] assms(2) by auto
  then obtain hs' where r: "r = redirect_to (safe_return_to (Some (tx_return_to tx))) hs'" "h_norm hs'"
    by (rule complete_callback_redirects)
  then show ?thesis
    using safe_header_value_parse [OF safe_return_to_safe assms(3)] by simp
qed

text \<open>
  C30: Login and callback agree. A login answers a redirect whose one cookie seals a transaction:
  the authorization URL was built from the transaction's state and nonce and from the challenge of
  its verifier, and its return path is safe. Every callback that brings that cookie back with the
  same state and a code goes on to the exchange with exactly that transaction.
\<close>

theorem login_then_callback:
  assumes "login pl oidc config req s = (Inr r, s')" "timeless_seal (pl_iron pl) (config_secret config) same opens"
  shows "\<exists>tx sealed doc url. status r = 302
    \<and> h_get (resp_headers r) ''location'' = Some (header_value url)
    \<and> build_authorize_url oidc config doc
        \<lparr>ap_state = tx_state tx, ap_code_challenge = sha256_challenge (pl_sha256 pl) (tx_verifier tx),
         ap_nonce = tx_nonce tx,
         ap_organization = (case map_option js_trim (param_get (req_url req) ''organization'') of
            Some o' \<Rightarrow> if o' = '''' then None else Some o' | None \<Rightarrow> None)\<rparr> = Inr url
    \<and> is_safe_return_url (Some (tx_return_to tx))
    \<and> h_get_set_cookie (resp_headers r) = [header_value (pl_serialize_cookie pl (tx_cookie_name (cookie_name config)) sealed
        ((base_cookie_opts (cookie_secure config) None)\<lparr>ca_max_age := Some tx_cookie_max_age_seconds\<rparr>))]
    \<and> (\<forall>req' oidc' store c t.
        request_cookie pl req' (tx_cookie_name (cookie_name config)) = Some sealed \<and> sealed \<noteq> ''''
          \<and> param_get (req_url req') ''state'' = Some (tx_state tx) \<and> param_get (req_url req') ''code'' = Some c
        \<longrightarrow> callback pl oidc' store config req' t
          = complete_callback pl oidc' store config (req_url req') c tx
              (append_cookie pl [] (tx_cookie_name (cookie_name config)) '''' (clear_cookie_opts config True)) t)"
proof -
  let ?name = "tx_cookie_name (cookie_name config)"
  let ?org = "case param_get (req_url req) ''organization'' of Some o' \<Rightarrow> js_trim o' | None \<Rightarrow> ''''"
  obtain doc s0 sealed url where "let pkce = create_pkce_pair (pl_sha256 pl) (pl_random pl) s0;
        st = random_url_safe (pl_random pl) token_bytes (snd pkce);
        nc = random_url_safe (pl_random pl) token_bytes (snd st) in
      seal_tx (pl_iron pl) \<lparr>tx_state = fst st, tx_nonce = fst nc, tx_verifier = verifier (fst pkce),
        tx_return_to = safe_return_to (param_get (req_url req) ''returnTo'')\<rparr> (config_secret config) (snd nc) = (Inr sealed, s')
      \<and> build_authorize_url oidc config doc \<lparr>ap_state = fst st, ap_code_challenge = challenge (fst pkce),
          ap_nonce = fst nc, ap_organization = (if ?org = '''' then None else Some ?org)\<rparr> = Inr url
      \<and> r = redirect_to url (append_cookie pl [] ?name sealed
          ((base_cookie_opts (cookie_secure config) None)\<lparr>ca_max_age := Some tx_cookie_max_age_seconds\<rparr>))"
    using assms(1) unfolding login_def Let_def
    by (simp only: io_bind_eq_Inr io_bind_lift io_of_eq_Inr io_return_apply prod.inject sum.inject) blast
  then obtain pkce state nonce s1 s2 where l: "pkce = fst (create_pkce_pair (pl_sha256 pl) (pl_random pl) s1)"
    "seal_tx (pl_iron pl) \<lparr>tx_state = state, tx_nonce = nonce, tx_verifier = verifier pkce,
        tx_return_to = safe_return_to (param_get (req_url req) ''returnTo'')\<rparr> (config_secret config) s2 = (Inr sealed, s')"
    "build_authorize_url oidc config doc \<lparr>ap_state = state, ap_code_challenge = challenge pkce, ap_nonce = nonce,
        ap_organization = (if ?org = '''' then None else Some ?org)\<rparr> = Inr url"
    "r = redirect_to url (append_cookie pl [] ?name sealed
        ((base_cookie_opts (cookie_secure config) None)\<lparr>ca_max_age := Some tx_cookie_max_age_seconds\<rparr>))"
    unfolding Let_def by blast
  let ?tx = "\<lparr>tx_state = state, tx_nonce = nonce, tx_verifier = verifier pkce,
      tx_return_to = safe_return_to (param_get (req_url req) ''returnTo'')\<rparr>"
  have challenge: "challenge pkce = sha256_challenge (pl_sha256 pl) (verifier pkce)"
    by (simp add: l(1) create_pkce_pair_def case_prod_beta)
  have org: "(if ?org = '''' then None else Some ?org)
      = (case map_option js_trim (param_get (req_url req) ''organization'') of
           Some o' \<Rightarrow> if o' = '''' then None else Some o' | None \<Rightarrow> None)"
    by (cases "param_get (req_url req) ''organization''") simp_all
  have "json_ok (tx_to_json ?tx)" by (simp add: tx_to_json_def obj_wf_def)
  then have "opens sealed = Some (tx_to_json ?tx)"
    using timeless_seals [OF assms(2), of "tx_to_json ?tx" s2] l(2) by (metis seal_tx_def sum.inject(2) prod.inject)
  then have unseal: "unseal_tx (pl_iron pl) sealed (config_secret config) t = (Inr (Some ?tx), t)" for t
    using timeless_case [OF assms(2), of sealed t]
    by (simp add: unseal_tx_def io_simps io_bind_def io_catch_def tx_json_round_trip)
  have step: "callback pl oidc' store config req' t
      = complete_callback pl oidc' store config (req_url req') c ?tx (append_cookie pl [] ?name '''' (clear_cookie_opts config True)) t"
    if "request_cookie pl req' ?name = Some sealed" "sealed \<noteq> ''''"
      "param_get (req_url req') ''state'' = Some (tx_state ?tx)" "param_get (req_url req') ''code'' = Some c"
    for req' oidc' store c t
    by (simp add: callback_def Let_def that unseal io_simps)
  have "h_get_set_cookie [] = []" by (simp add: h_get_set_cookie_def h_values_def)
  then show ?thesis
    using l(3) unfolding l(4) challenge org
    by - (rule exI [of _ ?tx], rule exI [of _ sealed], rule exI [of _ doc], rule exI [of _ url],
        simp add: safe_return_to_safe step)
qed

text \<open>
  C10: A logout ends the session at the server. With the Valkey store, a POST that carries the
  session's own CSRF token destroys the record before anything else: even when the issuer cannot
  be reached afterwards, the reference of the request resolves to no session from then on. Without
  the token the session stays, and no cookie is cleared.
\<close>

theorem logout_revokes_session:
  assumes "memory_seal iron v opens" "mem_healthy w" "to_upper (req_method req) = ''POST''"
    and "read_session_ref pl req config = Some ref" "valkey_bound v opens mem_lookup w ref = Some b"
    and "\<And>w. mem_lookup (snd (discover oidc config w)) = mem_lookup w" "\<And>w. mem_lookup (snd (pl_uuid pl w)) = mem_lookup w"
  shows "\<exists>r w'. logout pl oidc (valkey_store iron random v :: ('z memory_world_scheme, 't) session_store) config req w = (r, w')
    \<and> (if csrf_token_matches (csrf_token b) (h_get (req_headers req) csrf_header)
       then valkey_bound v opens mem_lookup w' ref = None
       else valkey_bound v opens mem_lookup w' = valkey_bound v opens mem_lookup w
         \<and> (\<exists>answer. r = Inr answer \<and> status answer = 403 \<and> h_get_set_cookie (resp_headers answer) = []))"
proof (cases "csrf_token_matches (csrf_token b) (h_get (req_headers req) csrf_header)")
  case True
  let ?store = "valkey_store iron random v :: ('z memory_world_scheme, 't) session_store"
  obtain w1 w2 where w: "memory_seal iron v opens \<and> mem_healthy w1" "st_destroy ?store ref w1 = (Inr (), w2)"
    "logout pl oidc ?store config req w
      = io_bind (discover oidc config) (\<lambda>doc.
        io_bind (io_of (build_logout_url oidc config doc (id_token b))) (\<lambda>logout_url.
        io_return (json_response 200 (JObj [(''logoutUrl'', JStr logout_url)])
          (h_set (clear_session pl [] req config) ''cache-control'' ''no-store'')))) w2"
    by (rule valkey.logout_accepted [of iron v opens w req pl config ref b random oidc,
      OF conjI [OF assms(1,2)] assms(3-5) True])
  have dead: "valkey_bound v opens mem_lookup w2 ref = None"
    using valkey.destroyed_bound [of iron v opens w1 random ref w2] w(1,2) by blast
  have "mem_lookup (snd (logout pl oidc ?store config req w)) = mem_lookup w2"
    using assms(6) [of w2] unfolding w(3)
    by (auto simp: io_bind_def io_of_def io_simps split: prod.splits sum.splits)
  with dead True show ?thesis by (metis prod.collapse valkey_bound_cong)
next
  case False
  obtain r w1 w2 where r: "logout pl oidc (valkey_store iron random v :: ('z memory_world_scheme, 't) session_store) config req w = (Inr r, w2)" "status r = 403"
    "h_get_set_cookie (resp_headers r) = []" "valkey_bound v opens mem_lookup w1 = valkey_bound v opens mem_lookup w"
    "w2 \<in> {w1, snd (pl_uuid pl w1)}"
    using valkey.logout_refused [of iron v opens w req pl config ref b oidc random,
        OF conjI [OF assms(1,2)] assms(3-5) False] by blast
  then have "mem_lookup w2 = mem_lookup w1" using assms(7) by auto
  with r False show ?thesis by (metis valkey_bound_cong)
qed

text \<open>
  A front-channel notification ends only the session it names. Every GET is answered with the
  same page; the session is destroyed exactly when the issuer and its session id match, and
  otherwise neither the store's sessions nor the cookies change.
\<close>

lemma frontchannel_ends_only_its_session:
  assumes "memory_seal iron v opens" "mem_healthy w" "to_upper (req_method req) = ''GET''"
    and "read_session_ref pl req config = Some ref"
  shows "\<exists>r w'. frontchannel_logout pl (valkey_store iron random v :: ('z memory_world_scheme, 't) session_store) config req w = (Inr r, w')
    \<and> status r = 200 \<and> resp_body r = Some frontchannel_page
    \<and> (if frontchannel_matches config (req_url req) (valkey_bound v opens mem_lookup w ref)
       then valkey_bound v opens mem_lookup w' ref = None
       else valkey_bound v opens mem_lookup w' = valkey_bound v opens mem_lookup w
         \<and> h_get_set_cookie (resp_headers r) = [])"
proof -
  obtain r w1 w2 where r: "frontchannel_logout pl (valkey_store iron random v :: ('z memory_world_scheme, 't) session_store) config req w = (Inr r, w2)"
    "memory_seal iron v opens \<and> mem_healthy w1" "valkey_bound v opens mem_lookup w1 = valkey_bound v opens mem_lookup w"
    "status r = 200" "resp_body r = Some frontchannel_page"
    "if frontchannel_matches config (req_url req) (valkey_bound v opens mem_lookup w ref)
     then st_destroy (valkey_store iron random v :: ('z memory_world_scheme, 't) session_store) ref w1 = (Inr (), w2)
     else w2 = w1 \<and> h_get_set_cookie (resp_headers r) = []"
    using valkey.frontchannel_law [of iron v opens w req pl config ref random,
        OF conjI [OF assms(1,2)] assms(3,4)] by blast
  then have "if frontchannel_matches config (req_url req) (valkey_bound v opens mem_lookup w ref)
      then valkey_bound v opens mem_lookup w2 ref = None
      else valkey_bound v opens mem_lookup w2 = valkey_bound v opens mem_lookup w \<and> h_get_set_cookie (resp_headers r) = []"
    using valkey.destroyed_bound [of iron v opens w1 random ref w2] by (auto split: if_splits)
  with r(1,4,5) show ?thesis by blast
qed

text \<open>
  The user answer reveals no token. It is a function of the identity claims and the CSRF token
  alone: two sessions that agree on them are answered alike whatever their access, refresh and id
  tokens, and the answer may not be cached.
\<close>

lemma user_answer_hides_tokens:
  assumes "read_session pl store config req s = (Inr (Some b), s1)" "read_session pl store config req t = (Inr (Some b'), t1)"
    and "user b = user b'" "csrf_token b = csrf_token b'"
  shows "\<exists>r. user_handler pl store config req s = (Inr r, s1) \<and> user_handler pl store config req t = (Inr r, t1)
    \<and> status r = 200 \<and> h_get (resp_headers r) ''cache-control'' = Some ''no-store''"
proof -
  have "user_response_body b = user_response_body b'"
    using assms(3,4) by (cases "csrf_token b'") (simp_all add: user_response_body_def)
  moreover have "h_get (resp_headers (json_response 200 j (h_of [(''cache-control'', ''no-store'')]))) ''cache-control''
      = Some ''no-store''" for j
    by (simp add: json_response_def Let_def h_get_append_other h_get_copy)
      (simp add: h_get_def h_values_of header_value_def http_ws_def)
  ultimately show ?thesis by (simp add: user_handler_def assms(1,2) io_simps)
qed

subsection \<open>Concrete checks\<close>

text \<open>A platform whose seal prints, whose random bytes are zero and whose jar holds one value.\<close>

definition demo_request :: "string \<Rightarrow> (string \<times> string) list \<Rightarrow> (string \<times> string) list \<Rightarrow> request" where
  "demo_request m params hs =
     \<lparr>req_method = m,
      req_url = \<lparr>protocol = ''https:'', host = ''app.test'', pathname = ''/bff'', search = '''', search_params = params\<rparr>,
      req_headers = hs, req_body = '''', req_ip = None\<rparr>"

definition demo_oidc :: "('s, unit) oidc" where
  "demo_oidc = \<lparr>client_lib = demo_client, discovery_cache = \<lparr>cell_get = (\<lambda>s. []), cell_put = (\<lambda>a s. s)\<rparr>\<rparr>"

definition demo_tx :: login_tx where
  "demo_tx = \<lparr>tx_state = ''st'', tx_nonce = ''n'', tx_verifier = ''v'', tx_return_to = ''/home''\<rparr>"

definition demo_cookie_store :: "(('t, 'z) cookie_world_scheme, 't) session_store" where
  "demo_cookie_store = cookie_store demo_iron \<lparr>co_password = demo_secret, co_ttl_seconds = None\<rparr>"

definition demo_world :: "unit cookie_world" where
  "demo_world = \<lparr>entries = [], sets = [], clock = 0, refresh_locks = []\<rparr>"

lemma demo_oidc_discover: "discover demo_oidc demo_config s = (Inr demo_doc, s)"
  using demo_discover [of demo_oidc s] by (simp add: demo_oidc_def)

lemma demo_cookie_header [simp]:
  "request_cookies demo_platform (demo_request m params ((''cookie'', c) # hs))
    = (if h_get ((''cookie'', c) # hs) ''cookie'' = Some '''' then []
       else [(''w'', the (h_get ((''cookie'', c) # hs) ''cookie'')), (''w_tx'', the (h_get ((''cookie'', c) # hs) ''cookie''))])"
  by (simp add: request_cookies_def demo_platform_def demo_request_def h_get_def h_values_def Let_def to_lower_def lower_char_def)

lemma demo_names [simp]: "cookie_name demo_config = ''w''" "session_ttl_seconds demo_config = 3600"
  by (simp_all add: demo_config_def)

lemma demo_one_cookie: "h_get [(''cookie'', c)] ''cookie'' = Some c"
  by (simp add: h_get_def h_values_def to_lower_def lower_char_def)

lemma json_print_nonempty: "json_ok j \<Longrightarrow> json_print j \<noteq> ''''"
  using json_print_hd [of j] by auto

lemma demo_params [simp]:
  "req_url (demo_request m params hs) = \<lparr>protocol = ''https:'', host = ''app.test'', pathname = ''/bff'', search = '''', search_params = params\<rparr>"
  "req_method (demo_request m params hs) = m" "req_headers (demo_request m params hs) = hs"
  by (simp_all add: demo_request_def)

lemma demo_unseal: "json_ok (tx_to_json tx) \<Longrightarrow>
    unseal_tx demo_iron (json_print (tx_to_json tx)) secret s = (Inr (Some tx), s)"
  by (simp add: unseal_tx_def demo_iron_def json_parse_print io_simps tx_json_round_trip)

lemma session_reference_round_trip_witness:
  "session_ref_of (jar_after [(''w.2'', ''stale'')] (session_ref_cookies demo_config (replicate 4000 (CHR ''x''))))
      (cookie_name demo_config) = Some (replicate 4000 (CHR ''x''))
    \<and> (let cleared = jar_after [(''w.2'', ''stale'')] (clear_session_cookies demo_config [(''w.2'', ''stale'')]) in
        \<forall>i. obj_get cleared (chunk_cookie_name (cookie_name demo_config) i) = None
          \<and> obj_get cleared (csrf_cookie_name (cookie_name demo_config)) = None)"
proof (rule session_reference_round_trip)
  show "replicate 4000 (CHR ''x'') \<noteq> ''''" by (metis length_replicate list.size(3) zero_neq_numeral)
  show "length (replicate 4000 (CHR ''x'')) \<le> 15 * max_cookie_value_length"
    unfolding max_cookie_value_length_def length_replicate by simp
qed simp

theorem callback_requires_transaction_witness:
  "\<exists>r s2. (\<forall>oidc store. callback demo_platform oidc store demo_config (demo_request ''GET'' [] [(''cookie'', ''bad'')]) () = (Inr r, s2))
    \<and> status r = 400
    \<and> h_get_set_cookie (resp_headers r)
        = [header_value (pl_serialize_cookie (demo_platform :: unit platform) (tx_cookie_name (cookie_name demo_config)) ''''
            (clear_cookie_opts demo_config True))]
    \<and> s2 \<in> {(), snd (pl_uuid demo_platform ())}"
proof (rule callback_requires_transaction)
  show "unseal_tx (pl_iron demo_platform) ''bad'' (config_secret demo_config) () = (Inr None, ())"
    by code_simp
  show "request_cookie demo_platform (demo_request ''GET'' [] [(''cookie'', ''bad'')]) (tx_cookie_name (cookie_name demo_config)) = Some ''bad''"
    by (simp add: request_cookie_def demo_one_cookie tx_cookie_name_def)
qed simp_all

lemma demo_redirect_uri: "new_url (redirect_uri demo_config) = Inr example_page"
proof -
  have "redirect_uri demo_config = url_href example_page"
    by (simp add: demo_config_def example_page_def url_href_def mk_url_def)
  then show ?thesis by (simp add: new_url_href example_page_wf)
qed

lemma demo_callback:
  "\<exists>r s'. callback demo_platform demo_oidc demo_cookie_store demo_config
      (demo_request ''GET'' [(''code'', ''c''), (''state'', ''st'')] [(''cookie'', json_print (tx_to_json demo_tx))]) s = (Inr r, s')
    \<and> status r = 302"
proof -
  have ok: "json_ok (tx_to_json demo_tx)" by (simp add: tx_to_json_def obj_wf_def demo_tx_def)
  have url: "callback_url demo_config incoming = Inr (fold append_param (search_params incoming) example_page)" for incoming
    by (simp add: callback_url_def demo_redirect_uri)
  have exchange: "exchange_code demo_oidc demo_doc p t = (Inr (token_response_of demo_tokens), t)" for p t
    by (simp add: exchange_code_def configured_def demo_doc_def demo_oidc_def demo_client_def io_simps io_bind_def)
  have info: "fetch_user_info demo_oidc demo_doc tok t = (Inr None, t)" for tok t
    by (simp add: fetch_user_info_def demo_doc_def io_simps)
  have user0: "id_token_user (token_response_of demo_tokens) = Inr [(''sub'', JStr '''')]"
    by (simp add: id_token_user_def token_response_of_def demo_tokens_def)
  have writes: "\<exists>ref. st_write demo_cookie_store b t = (Inr ref, t)" for b t
    by (simp add: demo_cookie_store_def cookie_store_def cookie_write_def seal_session_def seal_with_def
        demo_secret_def seal_password_of_def demo_iron_def io_simps)
  let ?req = "demo_request ''GET'' [(''code'', ''c''), (''state'', ''st'')] [(''cookie'', json_print (tx_to_json demo_tx))]"
  have iron: "pl_iron demo_platform = demo_iron" by (simp add: demo_platform_def)
  have state: "tx_state demo_tx = ''st''" by (simp add: demo_tx_def)
  have "\<exists>r s'. complete_callback demo_platform demo_oidc demo_cookie_store demo_config incoming c demo_tx hs s = (Inr r, s')
      \<and> status r = 302" for incoming c hs
  proof -
    obtain csrf b where sess: "callback_session demo_platform (token_response_of demo_tokens)
        (map_claims (overlay_user_info [(''sub'', JStr '''')] None)) None s = (Inr (csrf, b), s)"
      by (simp add: callback_session_def demo_platform_def random_url_safe_def io_bind_def io_simps)
    obtain ref where "st_write demo_cookie_store b s = (Inr ref, s)" using writes by blast
    then show ?thesis
      by (simp add: complete_callback_def demo_oidc_discover url exchange user0 info write_session_def Let_def sess io_simps)
  qed
  moreover have "\<exists>hs. callback demo_platform demo_oidc demo_cookie_store demo_config ?req s
      = complete_callback demo_platform demo_oidc demo_cookie_store demo_config (req_url ?req) ''c'' demo_tx hs s"
    by (intro exI, simp add: callback_def Let_def request_cookie_def tx_cookie_name_def demo_one_cookie json_print_nonempty [OF ok]
        param_get_def iron demo_unseal [OF ok] state io_simps)
  ultimately show ?thesis by metis
qed

theorem callback_lands_on_site_witness:
  "\<exists>r s' location v. callback demo_platform demo_oidc demo_cookie_store demo_config
      (demo_request ''GET'' [(''code'', ''c''), (''state'', ''st'')] [(''cookie'', json_print (tx_to_json demo_tx))])
      demo_world = (Inr r, s')
    \<and> h_get (resp_headers r) ''location'' = Some location
    \<and> parse_url (Some example_page) location = Some v \<and> protocol v = protocol example_page \<and> host v = host example_page"
proof -
  obtain r s' where r: "callback demo_platform demo_oidc demo_cookie_store demo_config
      (demo_request ''GET'' [(''code'', ''c''), (''state'', ''st'')] [(''cookie'', json_print (tx_to_json demo_tx))])
      demo_world = (Inr r, s')" "status r = 302"
    using demo_callback by blast
  with callback_lands_on_site [OF r example_page_wf] show ?thesis by blast
qed

lemma demo_timeless: "timeless_seal demo_iron (config_secret demo_config) (\<lambda>s s'. True) demo_opens"
  by (auto simp: timeless_seal_def demo_iron_def demo_opens_def seal_with_def config_secret_def demo_config_def
      seal_password_of_def io_simps json_parse_print split: option.splits)

text \<open>A login of the demonstration provider, for any place the bytes are drawn from.\<close>

lemma demo_authorize: "\<exists>url. build_authorize_url demo_oidc demo_config demo_doc p = Inr url"
proof -
  have "''https://app.test/id/connect/authorize'' = url_href (mk_url ''https'' ''app.test'' [''id'', ''connect'', ''authorize''] None None)"
    by (simp add: url_href_def mk_url_def)
  moreover have "url_wf (mk_url ''https'' ''app.test'' [''id'', ''connect'', ''authorize''] None None)"
    by (rule mk_url_wf; simp add: example_host seg_simps)
  ultimately have "\<exists>u. new_url ''https://app.test/id/connect/authorize'' = Inr u" by (metis new_url_href)
  then show ?thesis
    by (auto simp: build_authorize_url_def configured_def demo_doc_def demo_oidc_def demo_client_def
        pin_to_browser_endpoint_def split: option.splits)
qed

lemma demo_login:
  fixes s :: 's
  shows "\<exists>r. login demo_platform demo_oidc demo_config (demo_request ''GET'' [] []) s = (Inr r, s)"
proof -
  have seal: "\<exists>t. seal_tx (pl_iron demo_platform) tx (config_secret demo_config) s = (Inr t, s)" for tx
    by (simp add: seal_tx_def seal_with_def config_secret_def demo_config_def seal_password_of_def demo_platform_def
        demo_iron_def io_simps)
  have drawn: "snd (create_pkce_pair (pl_sha256 demo_platform) (pl_random demo_platform) s) = s"
    "snd (random_url_safe (pl_random demo_platform) n s) = s" for n
    by (simp_all add: create_pkce_pair_def random_url_safe_def demo_platform_def)
  have finish: "\<exists>r. io_bind (seal_tx (pl_iron demo_platform) tx (config_secret demo_config)) (\<lambda>sealed.
      io_bind (io_of (build_authorize_url (demo_oidc :: ('s, unit) oidc) demo_config demo_doc p)) (\<lambda>u. io_return (F sealed u))) s = (Inr r, s)"
    for tx p and F :: "string \<Rightarrow> string \<Rightarrow> response"
  proof -
    obtain t u where "seal_tx (pl_iron demo_platform) tx (config_secret demo_config) s = (Inr t, s)"
      "build_authorize_url (demo_oidc :: ('s, unit) oidc) demo_config demo_doc p = Inr u"
      using seal demo_authorize by blast
    then show ?thesis by (simp add: io_simps)
  qed
  show ?thesis
    unfolding login_def Let_def io_bind_def [of "discover demo_oidc demo_config"]
    by (simp only: demo_oidc_discover io_bind_lift drawn prod.case sum.case finish)
qed

theorem login_then_callback_witness:
  "\<exists>r (tx :: login_tx) doc url. login demo_platform demo_oidc demo_config (demo_request ''GET'' [] []) () = (Inr r, ())
    \<and> status r = 302
    \<and> h_get (resp_headers r) ''location'' = Some (header_value url)
    \<and> build_authorize_url (demo_oidc :: (unit, unit) oidc) demo_config doc
        \<lparr>ap_state = tx_state tx, ap_code_challenge = sha256_challenge (pl_sha256 (demo_platform :: unit platform)) (tx_verifier tx),
         ap_nonce = tx_nonce tx,
         ap_organization = (case map_option js_trim (param_get (req_url (demo_request ''GET'' [] [])) ''organization'') of
            Some o' \<Rightarrow> if o' = '''' then None else Some o' | None \<Rightarrow> None)\<rparr> = Inr url
    \<and> is_safe_return_url (Some (tx_return_to tx))"
proof -
  obtain r where r: "login demo_platform demo_oidc demo_config (demo_request ''GET'' [] []) () = (Inr r, ())"
    using demo_login [of "()"] by (elim exE)
  have iron: "pl_iron demo_platform = demo_iron" by (simp add: demo_platform_def)
  show ?thesis
    using login_then_callback [OF r, unfolded iron, OF demo_timeless]
    by - (elim exE conjE, intro exI conjI, rule r, assumption, assumption, assumption, assumption)
qed

text \<open>A live session in the demonstration store, and requests that name it.\<close>

definition demo_ref :: string where "demo_ref = json_print (JStr ''i1'')"

definition demo_sessions :: memory_world where
  "demo_sessions =
     \<lparr>entries = [(''w:session:i1'', \<lparr>me_value = json_print (session_to_json (demo_session ''i1'')), me_expires_at = None\<rparr>)],
      sets = [], clock = 0\<rparr>"

lemma demo_sessions_bound:
  "mem_healthy demo_sessions" "valkey_bound demo_valkey demo_opens mem_lookup demo_sessions demo_ref = Some (demo_session ''i1'')"
proof -
  have key: "mem_lookup demo_sessions (session_key demo_valkey ''i1'') = Some (json_print (session_to_json (demo_session ''i1'')))"
    by (simp add: mem_lookup_def demo_sessions_def session_key_def demo_valkey_def expired_def)
  have "ref_id demo_opens demo_ref = Some ''i1''"
    using json_parse_print [of "JStr ''i1''"] by (simp add: ref_id_def demo_opens_def demo_ref_def)
  moreover have "parse_record (json_print (session_to_json (demo_session ''i1''))) = Some (demo_session ''i1'')"
    by (rule parse_record_print) (simp add: session_ok_def demo_session_def obj_wf_def)
  ultimately show "valkey_bound demo_valkey demo_opens mem_lookup demo_sessions demo_ref = Some (demo_session ''i1'')"
    using key by (simp add: valkey_bound_def live_session_def)
  show "mem_healthy demo_sessions" by (simp add: mem_healthy_def demo_sessions_def obj_wf_def)
qed

lemma demo_read_ref:
  "read_session_ref demo_platform (demo_request m params ((''cookie'', demo_ref) # [(''x-csrf-token'', t)])) demo_config = Some demo_ref"
proof -
  have "demo_ref \<noteq> ''''" unfolding demo_ref_def by (rule json_print_nonempty) simp
  then show ?thesis
    by (simp add: read_session_ref_def session_ref_of_def h_get_def h_values_def to_lower_def lower_char_def join_chunks.simps
        chunk_cookie_name_def)
qed

theorem logout_revokes_session_witness:
  "\<exists>r w'. logout demo_platform demo_oidc (valkey_store demo_iron (\<lambda>n w. (replicate n 0, w)) demo_valkey :: (memory_world, unit) session_store)
      demo_config (demo_request ''POST'' [] [(''cookie'', demo_ref), (''x-csrf-token'', ''c'')]) demo_sessions = (r, w')
    \<and> (if csrf_token_matches (csrf_token (demo_session ''i1''))
            (h_get (req_headers (demo_request ''POST'' [] [(''cookie'', demo_ref), (''x-csrf-token'', ''c'')])) csrf_header)
       then valkey_bound demo_valkey demo_opens mem_lookup w' demo_ref = None
       else valkey_bound demo_valkey demo_opens mem_lookup w' = valkey_bound demo_valkey demo_opens mem_lookup demo_sessions
         \<and> (\<exists>answer. r = Inr answer \<and> status answer = 403 \<and> h_get_set_cookie (resp_headers answer) = []))"
  by (rule logout_revokes_session [OF demo_seal demo_sessions_bound(1) _ demo_read_ref demo_sessions_bound(2)])
    (simp_all add: demo_oidc_discover demo_platform_def to_upper_def upper_char_def)

lemma frontchannel_ends_only_its_session_witness:
  "\<exists>r w'. frontchannel_logout demo_platform (valkey_store demo_iron (\<lambda>n w. (replicate n 0, w)) demo_valkey :: (memory_world, unit) session_store)
      demo_config (demo_request ''GET'' [(''iss'', ''https://app.test/id/''), (''sid'', ''s1'')]
        [(''cookie'', demo_ref), (''x-csrf-token'', '''')]) demo_sessions = (Inr r, w')
    \<and> status r = 200 \<and> resp_body r = Some frontchannel_page
    \<and> (if frontchannel_matches demo_config
            (req_url (demo_request ''GET'' [(''iss'', ''https://app.test/id/''), (''sid'', ''s1'')]
              [(''cookie'', demo_ref), (''x-csrf-token'', '''')]))
            (valkey_bound demo_valkey demo_opens mem_lookup demo_sessions demo_ref)
       then valkey_bound demo_valkey demo_opens mem_lookup w' demo_ref = None
       else valkey_bound demo_valkey demo_opens mem_lookup w' = valkey_bound demo_valkey demo_opens mem_lookup demo_sessions
         \<and> h_get_set_cookie (resp_headers r) = [])"
  by (rule frontchannel_ends_only_its_session [OF demo_seal demo_sessions_bound(1) _ demo_read_ref])
    (simp add: to_upper_def upper_char_def)

text \<open>A store whose session has another access token at every reading.\<close>

definition demo_changing_store :: "(nat, unit) session_store" where
  "demo_changing_store =
     \<lparr>st_read = (\<lambda>ref. io_gets (\<lambda>n. Some ((demo_session ref)\<lparr>access_token := nat_to_string n\<rparr>))),
      st_write = (\<lambda>b. io_return ''''), st_destroy = (\<lambda>ref. io_return ()),
      st_with_refresh_lock = (\<lambda>ref fn. io_return None), st_revoke_by_sid = None, st_revoke_by_subject = None,
      st_claim_namespace = None\<rparr>"

lemma user_answer_hides_tokens_witness:
  "\<exists>r. user_handler demo_platform demo_changing_store demo_config
        (demo_request ''GET'' [] [(''cookie'', demo_ref), (''x-csrf-token'', '''')]) 0 = (Inr r, 0)
    \<and> user_handler demo_platform demo_changing_store demo_config
        (demo_request ''GET'' [] [(''cookie'', demo_ref), (''x-csrf-token'', '''')]) 1 = (Inr r, 1)
    \<and> status r = 200 \<and> h_get (resp_headers r) ''cache-control'' = Some ''no-store''"
  by (rule user_answer_hides_tokens
      [where b = "(demo_session demo_ref)\<lparr>access_token := nat_to_string 0\<rparr>"
        and b' = "(demo_session demo_ref)\<lparr>access_token := nat_to_string 1\<rparr>"])
    (simp_all add: read_session_def demo_read_ref demo_changing_store_def demo_session_def io_simps)

end
