(* ===== verification/Proxy.thy ===== *)
theory Proxy
  imports Handlers JsNumber
begin

section \<open>The API proxy (\<open>sdk/src/server/proxy.ts\<close>)\<close>

text \<open>
  Keeping a session fresh, one resilient forward with its single replay, the target and the
  headers of a forward, and the proxy's whole request path. Requests leave through the platform's
  \<open>fetch\<close>; the log is its \<open>console.warn\<close>. A store's refresh lock carries a \<open>stored_session\<close>.
\<close>

definition expiry_skew_ms :: int where "expiry_skew_ms = 30000"
definition forward_timeout_ms :: int where "forward_timeout_ms = 30000"
definition max_retry_after_ms :: int where "max_retry_after_ms = 5000"
definition no_delay_ms :: int where "no_delay_ms = 0"
definition version_step :: int where "version_step = 1"
definition login_path :: string where "login_path = ''/account/login''"
definition api_prefix :: string where "api_prefix = ''/api''"

record forward_request =
  fw_target :: string
  fw_method :: string
  fw_headers :: headers
  fw_body :: "string option"

record stored_session =
  ss_session :: bff_session
  ss_ref :: string

record forward_result =
  fr_response :: response
  fr_session :: bff_session
  fr_ref :: string

subsection \<open>Keeping the session fresh\<close>

definition has_refresh_token :: "bff_session \<Rightarrow> bool" where
  "has_refresh_token session \<longleftrightarrow> (case refresh_token session of Some t \<Rightarrow> t \<noteq> '''' | None \<Rightarrow> False)"

text \<open>The session after a rotation: what the issuer leaves out is kept.\<close>

definition rotated_session :: "bff_session \<Rightarrow> token_response \<Rightarrow> int \<Rightarrow> bff_session" where
  "rotated_session session tokens now =
     session\<lparr>access_token := tr_access_token tokens,
       refresh_token := (case tr_refresh_token tokens of Some t \<Rightarrow> Some t | None \<Rightarrow> refresh_token session),
       id_token := (case tr_id_token tokens of Some t \<Rightarrow> Some t | None \<Rightarrow> id_token session),
       expires_at := now + tr_expires_in tokens * ms_per_second,
       version := version session + version_step\<rparr>"

definition rotate_session ::
    "'s platform \<Rightarrow> ('s, 'c) oidc \<Rightarrow> bff_config \<Rightarrow> ('s, 't) session_store \<Rightarrow> bff_session \<Rightarrow> ('s, stored_session) io" where
  "rotate_session pl oidc config store session =
     (let token = (case refresh_token session of Some t \<Rightarrow> t | None \<Rightarrow> '''') in
      io_bind
        (io_catch
          (io_bind (discover oidc config) (\<lambda>doc. refresh_tokens oidc doc token))
          (\<lambda>e. io_throw (refresh_failed_error (cause_detail e)))) (\<lambda>tokens.
      io_bind (io_gets (pl_now pl)) (\<lambda>now.
      (let next = rotated_session session tokens now in
       io_bind (st_write store next) (\<lambda>next_ref.
       io_return \<lparr>ss_session = next, ss_ref = next_ref\<rparr>)))))"

definition refresh_under_lock ::
    "'s platform \<Rightarrow> ('s, 'c) oidc \<Rightarrow> bff_config \<Rightarrow> ('s, stored_session) session_store \<Rightarrow> bff_session \<Rightarrow> string
      \<Rightarrow> ('s, stored_session) io" where
  "refresh_under_lock pl oidc config store session ref =
     io_bind (st_with_refresh_lock store ref (rotate_session pl oidc config store session)) (\<lambda>refreshed.
     case refreshed of
       Some r \<Rightarrow> io_return r
     | None \<Rightarrow>
         io_bind (st_read store ref) (\<lambda>peer.
         case peer of
           None \<Rightarrow> io_throw (refresh_failed_error (Some ''Session refresh lock was held but the session is gone''))
         | Some p \<Rightarrow> io_return \<lparr>ss_session = p, ss_ref = ref\<rparr>))"

definition ensure_fresh_session ::
    "'s platform \<Rightarrow> ('s, 'c) oidc \<Rightarrow> bff_config \<Rightarrow> ('s, stored_session) session_store \<Rightarrow> bff_session \<Rightarrow> string
      \<Rightarrow> ('s, bff_session) io" where
  "ensure_fresh_session pl oidc config store session ref =
     io_bind (io_gets (pl_now pl)) (\<lambda>now.
     if expires_at session - expiry_skew_ms > now then io_return session
     else if refresh_token session = None \<or> refresh_token session = Some '''' then
       io_throw (refresh_failed_error (Some ''Session expired and no refresh token is available''))
     else io_bind (refresh_under_lock pl oidc config store session ref) (\<lambda>stored. io_return (ss_session stored)))"

definition force_refresh_stored ::
    "'s platform \<Rightarrow> ('s, 'c) oidc \<Rightarrow> bff_config \<Rightarrow> ('s, stored_session) session_store \<Rightarrow> bff_session \<Rightarrow> string
      \<Rightarrow> ('s, stored_session) io" where
  "force_refresh_stored pl oidc config store session ref =
     (if \<not> has_refresh_token session then
        io_throw (refresh_failed_error
          (Some ''The upstream rejected the access token and no refresh token is available''))
      else refresh_under_lock pl oidc config store session ref)"

definition force_refresh_session ::
    "'s platform \<Rightarrow> ('s, 'c) oidc \<Rightarrow> bff_config \<Rightarrow> ('s, stored_session) session_store \<Rightarrow> bff_session \<Rightarrow> string
      \<Rightarrow> ('s, bff_session) io" where
  "force_refresh_session pl oidc config store session ref =
     io_bind (force_refresh_stored pl oidc config store session ref) (\<lambda>stored. io_return (ss_session stored))"

subsection \<open>Classifying an upstream response\<close>

definition is_redirect :: "response \<Rightarrow> bool" where
  "is_redirect r \<longleftrightarrow> 300 \<le> status r \<and> status r < 400"

definition is_auth_failure :: "response \<Rightarrow> bool" where
  "is_auth_failure r \<longleftrightarrow>
     (if status r = 401 then True
      else if \<not> is_redirect r then False
      else js_includes
        (to_lower (case h_get (resp_headers r) ''location'' of Some l \<Rightarrow> l | None \<Rightarrow> '''')) login_path)"

definition bound_wait :: "int \<Rightarrow> int" where
  "bound_wait ms = min (max ms no_delay_ms) max_retry_after_ms"

text \<open>The wait in whole milliseconds, which is what a timer waits.\<close>

definition retry_after_ms :: "(string \<Rightarrow> int option) \<Rightarrow> int \<Rightarrow> response \<Rightarrow> int" where
  "retry_after_ms date_parse now r =
     (case h_get (resp_headers r) ''retry-after'' of
        None \<Rightarrow> no_delay_ms
      | Some header \<Rightarrow>
          if js_trim header = '''' then no_delay_ms
          else
            (case js_to_number header of
               Fin m k \<Rightarrow> bound_wait (m * ms_per_second div 10 ^ k)
             | _ \<Rightarrow>
                 (case date_parse header of
                    None \<Rightarrow> no_delay_ms
                  | Some until \<Rightarrow> bound_wait (until - now))))"

subsection \<open>One forward\<close>

definition from_entries :: "headers \<Rightarrow> (string \<times> json) list" where
  "from_entries es = fold (\<lambda>(k, v) ob. obj_set ob k (JStr v)) es []"

definition log_fault :: "'s platform \<Rightarrow> forward_request \<Rightarrow> api_failure \<Rightarrow> ('s, unit) io" where
  "log_fault pl req f =
     io_modify (pl_warn pl ''wallow-bff: forward failed''
       (redact (JObj
         ([(''target'', JStr (fw_target req)), (''method'', JStr (fw_method req)),
           (''headers'', JObj (from_entries (h_entries (fw_headers req)))), (''status'', JNum (f_status f)),
           (''code'', JStr (f_code f)), (''title'', JStr (f_title f))]
          @ opt_member ''detail'' (map_option JStr (f_detail f))))))"

definition attempt_forward :: "'s platform \<Rightarrow> forward_request \<Rightarrow> bff_session \<Rightarrow> ('s, response) io" where
  "attempt_forward pl req session =
     (let hs = h_set (h_copy (fw_headers req)) ''authorization'' (''Bearer '' @ access_token session) in
      io_bind
        (io_lift (pl_fetch pl
          \<lparr>fetch_url = fw_target req, fetch_method = fw_method req, fetch_headers = hs, fetch_body = fw_body req\<rparr>
          (Some forward_timeout_ms))) (\<lambda>outcome.
      case outcome of
        Fetched r \<Rightarrow> io_return r
      | Faulted e timed_out \<Rightarrow>
          (let c = (if timed_out then transport_timeout else transport_network_error);
               fault = (new_failure (if timed_out then 504 else 503) c (problem_title c))\<lparr>f_detail := cause_detail e\<rparr> in
           io_bind (log_fault pl req fault) (\<lambda>_. io_throw (Failure fault)))))"

text \<open>\<open>new UpstreamError(failureFromResponse(response, bodyText), response, bodyText)\<close>\<close>

definition upstream_error :: "'s platform \<Rightarrow> forward_request \<Rightarrow> response \<Rightarrow> ('s, thrown) io" where
  "upstream_error pl req r =
     (let body_text = (case resp_body r of Some t \<Rightarrow> t | None \<Rightarrow> '''') in
      io_bind (io_gets (pl_now pl)) (\<lambda>now.
      (let f = failure_from_response (pl_date_parse pl) now (int (status r)) (resp_headers r) body_text;
           g = (new_failure (f_status f) (f_code f) (f_title f))\<lparr>f_detail := f_detail f, f_trace_id := f_trace_id f,
              f_request_id := f_request_id f, f_field_errors := f_field_errors f, f_retry_after := f_retry_after f,
              f_name := ''UpstreamError''\<rparr> in
       io_bind (log_fault pl req g) (\<lambda>_. io_return (Upstream g r body_text)))))"

definition auth_failure_error :: "'s platform \<Rightarrow> forward_request \<Rightarrow> response \<Rightarrow> ('s, thrown) io" where
  "auth_failure_error pl req r =
     (if status r = 401 then upstream_error pl req r
      else
        (let f = (new_failure 401 auth_unauthenticated (problem_title auth_unauthenticated))
               \<lparr>f_detail := Some ''The upstream API redirected the request to its login page.''\<rparr> in
         io_bind (log_fault pl req f) (\<lambda>_. io_return (Failure f))))"

definition finish_forward ::
    "'s platform \<Rightarrow> forward_request \<Rightarrow> stored_session \<Rightarrow> response \<Rightarrow> ('s, forward_result) io" where
  "finish_forward pl req current r =
     (let result = \<lparr>fr_response = r, fr_session = ss_session current, fr_ref = ss_ref current\<rparr> in
      if resp_ok r then io_return result
      else if is_redirect r \<and> \<not> is_auth_failure r then io_return result
      else if is_auth_failure r then io_bind (auth_failure_error pl req r) io_throw
      else io_bind (upstream_error pl req r) io_throw)"

definition forward_with_resilience ::
    "'s platform \<Rightarrow> ('s, 'c) oidc \<Rightarrow> forward_request \<Rightarrow> bff_config \<Rightarrow> ('s, stored_session) session_store \<Rightarrow> bff_session
      \<Rightarrow> string \<Rightarrow> ('s, forward_result) io" where
  "forward_with_resilience pl oidc req config store session ref =
     io_bind (attempt_forward pl req session) (\<lambda>r.
     if is_auth_failure r \<and> has_refresh_token session then
       io_bind (force_refresh_stored pl oidc config store session ref) (\<lambda>current.
       io_bind (attempt_forward pl req (ss_session current)) (\<lambda>r'.
       finish_forward pl req current r'))
     else if status r = 429 then
       io_bind (io_gets (\<lambda>s. retry_after_ms (pl_date_parse pl) (pl_now pl s) r)) (\<lambda>ms.
       io_bind (io_modify (pl_delay pl ms)) (\<lambda>_.
       io_bind (attempt_forward pl req session) (\<lambda>r'.
       finish_forward pl req \<lparr>ss_session = session, ss_ref = ref\<rparr> r')))
     else finish_forward pl req \<lparr>ss_session = session, ss_ref = ref\<rparr> r)"

subsection \<open>What is forwarded, and where to\<close>

definition forwarded_request_headers :: "string list" where
  "forwarded_request_headers =
     [''content-type'', ''accept'', ''x-forwarded-for'', ''x-forwarded-proto'', ''x-forwarded-host'']"

definition hop_by_hop_headers :: "string list" where
  "hop_by_hop_headers = [''transfer-encoding'', ''content-encoding'', ''content-length'']"

text \<open>\<open>replaceAll(/\/{2,}/g, "/")\<close>\<close>

fun collapse_slashes :: "string \<Rightarrow> string" where
  "collapse_slashes (a # b # s) =
     (if a = CHR ''/'' \<and> b = CHR ''/'' then collapse_slashes (b # s) else a # collapse_slashes (b # s))"
| "collapse_slashes s = s"

definition stripped_api_path :: "string \<Rightarrow> string option" where
  "stripped_api_path path =
     (if path \<noteq> api_prefix \<and> \<not> starts_with path (api_prefix @ ''/'') then None
      else
        (let stripped = collapse_slashes (drop (length api_prefix) path) in
         if stripped = '''' then Some ''/''
         else if ''..'' \<in> set (split_char (CHR ''/'') stripped) then None else Some stripped))"

definition base_path_of :: "full_url \<Rightarrow> string" where
  "base_path_of base =
     (if pathname base \<noteq> '''' \<and> last (pathname base) = CHR ''/'' then butlast (pathname base) else pathname base)"

definition upstream_target :: "bff_config \<Rightarrow> string \<Rightarrow> string \<Rightarrow> thrown + string option" where
  "upstream_target config path srch =
     (case new_url (api_base_url config) of
        Inl e \<Rightarrow> Inl e
      | Inr base \<Rightarrow>
          (case new_url (full_origin base @ base_path_of base @ path @ srch) of
             Inl e \<Rightarrow> Inl e
           | Inr target \<Rightarrow>
               if full_origin target \<noteq> full_origin base \<or> \<not> starts_with (pathname target) (base_path_of base)
               then Inr None
               else Inr (Some (url_href target))))"

definition changed :: "bff_session \<Rightarrow> bff_session \<Rightarrow> bool" where
  "changed before after \<longleftrightarrow> version after \<noteq> version before \<or> access_token after \<noteq> access_token before"

definition merge_cookies :: "headers \<Rightarrow> headers \<Rightarrow> headers" where
  "merge_cookies target source = fold (\<lambda>c hs. h_append hs ''set-cookie'' c) (h_get_set_cookie source) target"

definition forwardable_headers :: "headers \<Rightarrow> headers" where
  "forwardable_headers hs =
     (let kept = filter (\<lambda>(k, v). \<not> (to_lower k \<in> set hop_by_hop_headers \<or> to_lower k = ''set-cookie'')) (h_entries hs);
          forwardable = fold (\<lambda>(k, v) acc. h_append acc k v) kept [] in
      fold (\<lambda>c acc. h_append acc ''set-cookie'' c) (h_get_set_cookie hs) forwardable)"

text \<open>The request headers of a forward: the allowlist, the forwarded chain and the request id.\<close>

definition forward_headers :: "request \<Rightarrow> trusted_proxies \<Rightarrow> string \<Rightarrow> headers" where
  "forward_headers req trusted request_id =
     (let picked = fold (\<lambda>name hs. case h_get (req_headers req) name of None \<Rightarrow> hs | Some v \<Rightarrow> h_set hs name v)
            forwarded_request_headers [];
          chained = apply_forwarded_headers picked (req_url req)
            (resolve_client_address (req_headers req) (req_ip req) trusted) in
      h_set chained request_id_header request_id)"

definition forward_body :: "request \<Rightarrow> string option" where
  "forward_body req =
     (if to_upper (req_method req) \<noteq> ''GET'' \<and> to_upper (req_method req) \<noteq> ''HEAD''
      then (if req_body req \<noteq> '''' then Some (req_body req) else None) else None)"

subsection \<open>Answering\<close>

text \<open>\<open>throw error\<close> of \<open>respondToFailure\<close> is \<open>Inl\<close>.\<close>

definition respond_to_failure :: "thrown \<Rightarrow> headers \<Rightarrow> string \<Rightarrow> thrown + response" where
  "respond_to_failure e cookies request_id =
     (case e of
        Upstream f r body_text \<Rightarrow>
          Inr (new_response (status r) (Some body_text) (merge_cookies (forwardable_headers (resp_headers r)) cookies))
      | _ \<Rightarrow>
          (case thrown_failure e of
             Some f \<Rightarrow> Inr (problem_response (nat (f_status f)) (f_code f)
                 \<lparr>po_request_id = request_id, po_detail = None, po_headers = cookies\<rparr>)
           | None \<Rightarrow> Inl e))"

definition refresh_fault_response :: "headers \<Rightarrow> string \<Rightarrow> response" where
  "refresh_fault_response cookies request_id =
     problem_response 401 bff_session_refresh_failed
       \<lparr>po_request_id = request_id, po_detail = None, po_headers = cookies\<rparr>"

definition log_session_fault :: "'s platform \<Rightarrow> string \<Rightarrow> thrown \<Rightarrow> ('s, unit) io" where
  "log_session_fault pl request_id e =
     (let detail = (case thrown_failure e of Some f \<Rightarrow> f_detail f | None \<Rightarrow> cause_detail e) in
      io_modify (pl_warn pl ''wallow-bff: session refresh failed''
        (redact (JObj ([(''requestId'', JStr request_id)] @ opt_member ''detail'' (map_option JStr detail))))))"

definition tear_down_dead_session ::
    "'s platform \<Rightarrow> bff_config \<Rightarrow> ('s, 't) session_store \<Rightarrow> thrown \<Rightarrow> request \<Rightarrow> string \<Rightarrow> headers \<Rightarrow> string
      \<Rightarrow> ('s, response) io" where
  "tear_down_dead_session pl config store e req ref cookies request_id =
     io_bind (st_destroy store ref) (\<lambda>_.
     io_of (respond_to_failure e (clear_session pl cookies req config) request_id))"

fun is_refresh_failed :: "thrown \<Rightarrow> bool" where
  "is_refresh_failed (RefreshFailed f) = True"
| "is_refresh_failed _ = False"

definition problem_answer :: "nat \<Rightarrow> string \<Rightarrow> string \<Rightarrow> headers \<Rightarrow> response" where
  "problem_answer st c request_id hs =
     problem_response st c \<lparr>po_request_id = request_id, po_detail = None, po_headers = hs\<rparr>"

text \<open>The last stretch of \<open>proxyRequest\<close>: one forward and the answer it leads to.\<close>

definition forward_and_answer ::
    "'s platform \<Rightarrow> ('s, 'c) oidc \<Rightarrow> bff_config \<Rightarrow> ('s, stored_session) session_store \<Rightarrow> trusted_proxies \<Rightarrow> request
      \<Rightarrow> string \<Rightarrow> string \<Rightarrow> headers \<Rightarrow> bff_session \<Rightarrow> string \<Rightarrow> ('s, response) io" where
  "forward_and_answer pl oidc config store trusted req request_id target cookies fresh ref =
     (let fwd = \<lparr>fw_target = target, fw_method = to_upper (req_method req),
            fw_headers = forward_headers req trusted request_id, fw_body = forward_body req\<rparr> in
      io_catch
        (io_bind (forward_with_resilience pl oidc fwd config store fresh ref) (\<lambda>result.
         (let cookies' = (if changed fresh (fr_session result)
                then write_session_ref pl cookies config (fr_ref result) else cookies);
              r = fr_response result in
          io_return \<lparr>status = status r,
            resp_headers = h_copy (merge_cookies (forwardable_headers (resp_headers r)) cookies'),
            resp_body = resp_body r, status_text = status_text r\<rparr>)))
        (\<lambda>e.
         if is_refresh_failed e then
           io_bind (log_session_fault pl request_id e) (\<lambda>_.
           tear_down_dead_session pl config store e req ref cookies request_id)
         else if \<not> is_api_failure e then
           io_bind (log_session_fault pl request_id e) (\<lambda>_. io_return (refresh_fault_response cookies request_id))
         else io_of (respond_to_failure e cookies request_id)))"

text \<open>
  The first \<open>try\<close> of \<open>proxyRequest\<close>: the fresh session, or the answer of a failed refresh; then
  what follows it, with the rotated session written back before the forward.
\<close>

definition keep_fresh ::
    "'s platform \<Rightarrow> ('s, 'c) oidc \<Rightarrow> bff_config \<Rightarrow> ('s, stored_session) session_store \<Rightarrow> request \<Rightarrow> string
      \<Rightarrow> bff_session \<Rightarrow> string \<Rightarrow> ('s, response + bff_session) io" where
  "keep_fresh pl oidc config store req request_id session ref =
     io_catch
       (io_bind (ensure_fresh_session pl oidc config store session ref) (\<lambda>fresh. io_return (Inr fresh)))
       (\<lambda>e. io_bind (log_session_fault pl request_id e) (\<lambda>_.
          if is_refresh_failed e then
            io_bind (tear_down_dead_session pl config store e req ref [] request_id) (\<lambda>r. io_return (Inl r))
          else io_return (Inl (refresh_fault_response [] request_id))))"

definition forward_fresh ::
    "'s platform \<Rightarrow> ('s, 'c) oidc \<Rightarrow> bff_config \<Rightarrow> ('s, stored_session) session_store \<Rightarrow> trusted_proxies \<Rightarrow> request
      \<Rightarrow> string \<Rightarrow> string \<Rightarrow> bff_session \<Rightarrow> string \<Rightarrow> bff_session \<Rightarrow> ('s, response) io" where
  "forward_fresh pl oidc config store trusted req request_id path session ref fresh =
     io_bind
       (if changed session fresh then write_session pl store config [] fresh else io_return (ref, []))
       (\<lambda>(current_ref, cookies).
     io_bind (io_of (upstream_target config path (search (req_url req)))) (\<lambda>target.
     case target of
       None \<Rightarrow> io_return (problem_answer 404 http_not_found request_id cookies)
     | Some t \<Rightarrow> forward_and_answer pl oidc config store trusted req request_id t cookies fresh current_ref))"

definition proxy_request ::
    "'s platform \<Rightarrow> ('s, 'c) oidc \<Rightarrow> bff_config \<Rightarrow> ('s, stored_session) session_store \<Rightarrow> trusted_proxies \<Rightarrow> request
      \<Rightarrow> string \<Rightarrow> ('s, response) io" where
  "proxy_request pl oidc config store trusted req request_id =
     (case stripped_api_path (pathname (req_url req)) of
        None \<Rightarrow> io_return (problem_answer 404 http_not_found request_id [])
      | Some path \<Rightarrow>
      case read_session_ref pl req config of
        None \<Rightarrow> io_return (problem_answer 401 bff_session_missing request_id [])
      | Some ref \<Rightarrow>
          io_bind (read_session pl store config req) (\<lambda>found.
          case found of
            None \<Rightarrow> io_return (problem_answer 401 bff_session_missing request_id [])
          | Some session \<Rightarrow>
              if is_state_changing_method (req_method req)
                \<and> \<not> csrf_token_matches (csrf_token session) (h_get (req_headers req) csrf_header)
              then io_return (problem_answer 403 bff_csrf_invalid request_id [])
              else
                io_bind (keep_fresh pl oidc config store req request_id session ref) (\<lambda>outcome.
                case outcome of
                  Inl answer \<Rightarrow> io_return answer
                | Inr fresh \<Rightarrow> forward_fresh pl oidc config store trusted req request_id path session ref fresh)))"

definition create_api_proxy ::
    "'s platform \<Rightarrow> ('s, 'c) oidc \<Rightarrow> bff_config \<Rightarrow> ('s, stored_session) session_store \<Rightarrow> trusted_proxies \<Rightarrow> request
      \<Rightarrow> ('s, response) io" where
  "create_api_proxy pl oidc config store trusted req =
     io_bind (request_id_of pl (req_headers req)) (\<lambda>request_id.
     io_bind (proxy_request pl oidc config store trusted req request_id) (\<lambda>r.
     io_return (r\<lparr>resp_headers := h_set (resp_headers r) request_id_header request_id\<rparr>)))"

subsection \<open>Lemmas: the target\<close>

lemma collapse_split:
  "hd (split_char (CHR ''/'') (collapse_slashes s)) = hd (split_char (CHR ''/'') s)
   \<and> set (tl (split_char (CHR ''/'') (collapse_slashes s))) \<subseteq> set (tl (split_char (CHR ''/'') s))"
proof (induction s rule: collapse_slashes.induct)
  case (1 a b s)
  obtain p ps where s: "split_char (CHR ''/'') (b # s) = p # ps"
    using split_char_nonempty by (cases "split_char (CHR ''/'') (b # s)") blast+
  obtain p' ps' where c: "split_char (CHR ''/'') (collapse_slashes (b # s)) = p' # ps'"
    using split_char_nonempty by (cases "split_char (CHR ''/'') (collapse_slashes (b # s))") blast+
  have IH: "p' = p" "set ps' \<subseteq> set ps" using 1 s c by (cases "a = CHR ''/'' \<and> b = CHR ''/''"; simp)+
  show ?case
  proof (cases "a = CHR ''/'' \<and> b = CHR ''/''")
    case True
    have "split_char (CHR ''/'') (a # b # s) = [] # p # ps"
      unfolding split_char.simps(2) [of _ a "b # s"] s using True by simp
    moreover have "collapse_slashes (a # b # s) = collapse_slashes (b # s)" using True by simp
    moreover have "p = []" using s True by simp
    ultimately show ?thesis using IH by (simp add: c subset_insertI2)
  next
    case False
    have "collapse_slashes (a # b # s) = a # collapse_slashes (b # s)" using False by simp
    moreover have "split_char (CHR ''/'') (a # collapse_slashes (b # s))
        = (if a = CHR ''/'' then [] # p' # ps' else (a # p') # ps')" by (simp add: c)
    moreover have "split_char (CHR ''/'') (a # b # s) = (if a = CHR ''/'' then [] # p # ps else (a # p) # ps)"
      unfolding split_char.simps(2) [of _ a "b # s"] s by simp
    ultimately show ?thesis using IH by auto
  qed
qed simp_all

lemma collapse_head: "collapse_slashes (c # s) \<noteq> [] \<and> hd (collapse_slashes (c # s)) = c"
proof (induction s arbitrary: c)
  case (Cons b s)
  then show ?case by auto
qed simp

text \<open>A stripped path of a parsed URL is a slash and clean segments.\<close>

lemma stripped_seg_path:
  assumes "stripped_api_path p = Some path" "seg_path p"
  shows "seg_path path" "''..'' \<notin> set (split_char (CHR ''/'') path)"
proof -
  let ?s = "collapse_slashes (drop (length api_prefix) p)"
  have cases: "?s = '''' \<and> path = ''/'' \<or> ?s \<noteq> '''' \<and> path = ?s \<and> ''..'' \<notin> set (split_char (CHR ''/'') ?s)"
    and p: "p = api_prefix \<or> starts_with p (api_prefix @ ''/'')"
    using assms(1) by (auto simp: stripped_api_path_def Let_def split: if_splits)
  show "''..'' \<notin> set (split_char (CHR ''/'') path)" using cases by auto
  show "seg_path path"
  proof (cases "?s = ''''")
    case True
    then have "path = ''/'' @ ''''" using cases by simp
    then show ?thesis unfolding seg_path_def by (intro exI [of _ "''''"]) simp
  next
    case False
    then have "p \<noteq> api_prefix" by auto
    then obtain r where r: "p = api_prefix @ ''/'' @ r" using p by (auto simp: starts_with_iff)
    then have d: "drop (length api_prefix) p = CHR ''/'' # r" by simp
    have "path \<noteq> []" "hd path = CHR ''/''" using cases False collapse_head [of "CHR ''/''" r] unfolding d by auto
    then obtain x where x: "path = CHR ''/'' # x" by (cases path) auto
    have "set (split_char (CHR ''/'') x) \<subseteq> set (split_char (CHR ''/'') r)"
    proof -
      have "collapse_slashes (CHR ''/'' # r) = CHR ''/'' # x" using cases False x unfolding d by metis
      then have "split_char (CHR ''/'') (collapse_slashes (CHR ''/'' # r)) = [] # split_char (CHR ''/'') x" by simp
      then show ?thesis using collapse_split [of "CHR ''/'' # r"] by simp
    qed
    moreover have "list_all seg_ok (split_char (CHR ''/'') r)"
    proof -
      obtain y where "p = ''/'' @ y" "list_all seg_ok (split_char (CHR ''/'') y)" using assms(2) by (auto simp: seg_path_def)
      moreover have "y = ''api/'' @ r" using r calculation(1) by (simp add: api_prefix_def)
      moreover have "split_char (CHR ''/'') (''api/'' @ r) = ''api'' # split_char (CHR ''/'') r"
        using split_char_append_sep [of "CHR ''/''" "''api''" r] by simp
      ultimately show ?thesis by simp
    qed
    ultimately have "list_all seg_ok (split_char (CHR ''/'') x)" by (auto simp: list_all_iff)
    with x show ?thesis by (simp add: seg_path_def)
  qed
qed

lemma base_path_shape:
  assumes "seg_path (pathname base)"
  shows "base_path_of base = '''' \<or> seg_path (base_path_of base)"
proof (cases "last (pathname base) = CHR ''/''")
  case True
  obtain x where x: "pathname base = ''/'' @ x" "list_all seg_ok (split_char (CHR ''/'') x)"
    using assms by (auto simp: seg_path_def)
  show ?thesis
  proof (cases "x = ''''")
    case False
    then have "x = butlast x @ [CHR ''/'']"
      using True x(1) append_butlast_last_id [of x] by (simp split: if_splits)
    then have "split_char (CHR ''/'') x = split_char (CHR ''/'') (butlast x) @ ['''']"
      by (metis split_char.simps(1) split_char_append_sep)
    then have "list_all seg_ok (split_char (CHR ''/'') (butlast x))" using x(2) by simp
    moreover have "base_path_of base = ''/'' @ butlast x" using True False x(1) by (simp add: base_path_of_def)
    ultimately show ?thesis by (auto simp: seg_path_def)
  qed (simp add: base_path_of_def x(1))
qed (use assms in \<open>auto simp: base_path_of_def\<close>)

subsection \<open>Lemmas: what is sent\<close>

text \<open>
  \<open>sent\<close> reads the requests that have left so far from the state: every \<open>fetch\<close> adds one, and
  nothing else the proxy calls does.
\<close>

definition quiet_world ::
    "('s \<Rightarrow> fetch_request list) \<Rightarrow> 's platform \<Rightarrow> ('s, 'c) oidc \<Rightarrow> bff_config \<Rightarrow> ('s, 't) session_store \<Rightarrow> bool" where
  "quiet_world sent pl oidc config store \<longleftrightarrow>
     (\<forall>r ms s. sent (snd (pl_fetch pl r ms s)) = sent s @ [r])
   \<and> (\<forall>m j s. sent (pl_warn pl m j s) = sent s) \<and> (\<forall>ms s. sent (pl_delay pl ms s) = sent s)
   \<and> (\<forall>s. sent (snd (pl_uuid pl s)) = sent s)
   \<and> quiet sent (discover oidc config) \<and> (\<forall>doc t. quiet sent (refresh_tokens oidc doc t))
   \<and> (\<forall>ref. quiet sent (st_read store ref)) \<and> (\<forall>b. quiet sent (st_write store b))
   \<and> (\<forall>ref. quiet sent (st_destroy store ref))
   \<and> (\<forall>ref fn. quiet sent fn \<longrightarrow> quiet sent (st_with_refresh_lock store ref fn))"

lemma quiet_worldD:
  assumes "quiet_world sent pl oidc config store"
  shows "sent (snd (pl_fetch pl r limit s)) = sent s @ [r]" "quiet sent (io_modify (pl_warn pl m j))"
    "quiet sent (io_modify (pl_delay pl ms))" "quiet sent (discover oidc config)" "quiet sent (refresh_tokens oidc doc t)"
    "quiet sent (st_read store ref)" "quiet sent (st_write store b)" "quiet sent (st_destroy store ref)"
    "quiet sent fn \<Longrightarrow> quiet sent (st_with_refresh_lock store ref fn)"
proof -
  note world = assms [unfolded quiet_world_def]
  show "sent (snd (pl_fetch pl r limit s)) = sent s @ [r]" using world by blast
  show "quiet sent (io_modify (pl_warn pl m j))" using world by (intro quiet_modify) blast
  show "quiet sent (io_modify (pl_delay pl ms))" using world by (intro quiet_modify) blast
  show "quiet sent (discover oidc config)" "quiet sent (refresh_tokens oidc doc t)" using world by blast+
  show "quiet sent (st_read store ref)" "quiet sent (st_write store b)" "quiet sent (st_destroy store ref)"
    using world by blast+
  show "quiet sent (st_with_refresh_lock store ref fn)" if "quiet sent fn" using world that by blast
qed

lemma quiet_refresh:
  assumes "quiet_world sent pl oidc config store"
  shows "quiet sent (refresh_under_lock pl oidc config store session ref)"
    "quiet sent (force_refresh_stored pl oidc config store session ref)"
    "quiet sent (ensure_fresh_session pl oidc config store session ref)"
proof -
  note world = quiet_worldD [OF assms]
  have "quiet sent (rotate_session pl oidc config store session)"
    unfolding rotate_session_def Let_def by (intro quiet_intros world)
  then show *: "quiet sent (refresh_under_lock pl oidc config store session ref)"
    unfolding refresh_under_lock_def by (intro quiet_intros world) (auto split: option.split intro!: quiet_intros world)
  show "quiet sent (force_refresh_stored pl oidc config store session ref)"
    using * by (auto simp: force_refresh_stored_def intro: quiet_intros)
  show "quiet sent (ensure_fresh_session pl oidc config store session ref)"
    using * unfolding ensure_fresh_session_def by (auto intro!: quiet_intros)
qed

lemma quiet_errors:
  assumes "quiet_world sent pl oidc config store"
  shows "quiet sent (log_fault pl req f)" "quiet sent (upstream_error pl req r)" "quiet sent (auth_failure_error pl req r)"
    "quiet sent (finish_forward pl req current r)" "quiet sent (log_session_fault pl i e)"
    "quiet sent (tear_down_dead_session pl config store e rq ref cookies i)"
proof -
  note world = quiet_worldD [OF assms]
  show log: "quiet sent (log_fault pl req f)" for f unfolding log_fault_def by (rule world)
  show up: "quiet sent (upstream_error pl req r)" unfolding upstream_error_def Let_def by (intro quiet_intros log)
  show auth: "quiet sent (auth_failure_error pl req r)"
    unfolding auth_failure_error_def Let_def using up log by (auto intro!: quiet_intros)
  show "quiet sent (finish_forward pl req current r)"
    unfolding finish_forward_def Let_def using up auth by (auto intro!: quiet_intros)
  show "quiet sent (log_session_fault pl i e)" unfolding log_session_fault_def Let_def by (rule world)
  show "quiet sent (tear_down_dead_session pl config store e rq ref cookies i)"
    unfolding tear_down_dead_session_def by (intro quiet_intros world)
qed

text \<open>The one request an attempt sends: the given one under the session's bearer.\<close>

definition bearer_request :: "forward_request \<Rightarrow> bff_session \<Rightarrow> fetch_request" where
  "bearer_request req session =
     \<lparr>fetch_url = fw_target req, fetch_method = fw_method req,
      fetch_headers = h_set (h_copy (fw_headers req)) ''authorization'' (''Bearer '' @ access_token session),
      fetch_body = fw_body req\<rparr>"

text \<open>An attempt ends as its \<open>fetch\<close> does; a fault is logged and becomes a transport failure.\<close>

lemma attempt_outcome:
  "attempt_forward pl req session s =
     (case pl_fetch pl (bearer_request req session) (Some forward_timeout_ms) s of
        (Fetched r, s1) \<Rightarrow> (Inr r, s1)
      | (Faulted e late, s1) \<Rightarrow>
          (let c = (if late then transport_timeout else transport_network_error);
               fault = (new_failure (if late then 504 else 503) c (problem_title c))\<lparr>f_detail := cause_detail e\<rparr> in
           (Inl (Failure fault), snd (log_fault pl req fault s1))))"
proof -
  have *: "attempt_forward pl req session
      = io_bind (io_lift (pl_fetch pl (bearer_request req session) (Some forward_timeout_ms))) (\<lambda>outcome.
      case outcome of
        Fetched r \<Rightarrow> io_return r
      | Faulted e timed_out \<Rightarrow>
          (let c = (if timed_out then transport_timeout else transport_network_error);
               fault = (new_failure (if timed_out then 504 else 503) c (problem_title c))\<lparr>f_detail := cause_detail e\<rparr> in
           io_bind (log_fault pl req fault) (\<lambda>_. io_throw (Failure fault))))"
    unfolding attempt_forward_def bearer_request_def Let_def by (rule refl)
  have log: "log_fault pl req f t = (Inr (), snd (log_fault pl req f t))" for f t
    by (simp add: log_fault_def io_modify_apply)
  show ?thesis
    unfolding * io_bind_lift Let_def
    by (cases "pl_fetch pl (bearer_request req session) (Some forward_timeout_ms) s")
      (auto simp: io_return_apply io_throw_apply io_bind_Inr [OF log] split: fetch_outcome.split)
qed

lemma attempt_sends:
  assumes "quiet_world sent pl oidc config store" "attempt_forward pl req session s = (r, s')"
  shows "sent s' = sent s @ [bearer_request req session]"
proof -
  obtain outcome s1 where f: "pl_fetch pl (bearer_request req session) (Some forward_timeout_ms) s = (outcome, s1)"
    by (cases "pl_fetch pl (bearer_request req session) (Some forward_timeout_ms) s")
  have "sent (snd (log_fault pl req g s1)) = sent s1" for g
    using quietD [OF quiet_errors(1) [OF assms(1)], of req g s1] by (metis prod.collapse)
  then have "sent s' = sent s1"
    using assms(2) f by (cases outcome) (auto simp: attempt_outcome Let_def)
  moreover have "sent s1 = sent s @ [bearer_request req session]"
    using quiet_worldD(1) [OF assms(1), of "bearer_request req session" "Some forward_timeout_ms" s] f by simp
  ultimately show ?thesis by simp
qed

lemma forward_sends:
  assumes "quiet_world sent pl oidc config store" "forward_with_resilience pl oidc req config store session ref s = (r, s')"
  shows "sent s' = sent s @ [bearer_request req session]
    \<or> (\<exists>again r1 s1. sent s' = sent s @ [bearer_request req session, bearer_request req again]
         \<and> pl_fetch pl (bearer_request req session) (Some forward_timeout_ms) s = (Fetched r1, s1)
         \<and> (if status r1 = 429 then again = session else is_auth_failure r1 \<and> has_refresh_token session))"
proof -
  obtain x s1 where a: "attempt_forward pl req session s = (x, s1)" by (cases "attempt_forward pl req session s")
  note sent1 = attempt_sends [OF assms(1) a]
  show ?thesis
  proof (cases x)
    case (Inl e)
    then show ?thesis using assms(2) a sent1 by (simp add: forward_with_resilience_def io_bind_def)
  next
    case (Inr r1)
    have fetched: "pl_fetch pl (bearer_request req session) (Some forward_timeout_ms) s = (Fetched r1, s1)"
      using a Inr by (auto simp: attempt_outcome Let_def split: fetch_outcome.splits prod.splits)
    have last: "sent s'' = sent t @ [bearer_request req again]"
      if "io_bind (attempt_forward pl req again) (finish_forward pl req current) t = (y, s'')" for again current t y s''
    proof -
      obtain z t1 where z: "attempt_forward pl req again t = (z, t1)" by (cases "attempt_forward pl req again t")
      have "sent s'' = sent t1"
        using that z quietD [OF quiet_errors(4) [OF assms(1)]] by (cases z) (auto simp: io_bind_def)
      with attempt_sends [OF assms(1) z] show ?thesis by simp
    qed
    consider (auth) "is_auth_failure r1 \<and> has_refresh_token session"
      | (throttled) "\<not> (is_auth_failure r1 \<and> has_refresh_token session)" "status r1 = 429"
      | (other) "\<not> (is_auth_failure r1 \<and> has_refresh_token session)" "status r1 \<noteq> 429" by blast
    then show ?thesis
    proof cases
      case auth
      obtain z t where z: "force_refresh_stored pl oidc config store session ref s1 = (z, t)"
        by (cases "force_refresh_stored pl oidc config store session ref s1")
      then have t: "sent t = sent s1" by (rule quietD [OF quiet_refresh(2) [OF assms(1)]])
      have "status r1 \<noteq> 429" using auth by (auto simp: is_auth_failure_def is_redirect_def split: if_splits)
      then show ?thesis
        using assms(2) a Inr auth z t last sent1 fetched
        by (cases z) (auto simp: forward_with_resilience_def io_bind_def [of "attempt_forward pl req session"]
            io_bind_def [of "force_refresh_stored pl oidc config store session ref"])
    next
      case throttled
      let ?ms = "retry_after_ms (pl_date_parse pl) (pl_now pl s1) r1"
      have "sent (pl_delay pl ?ms s1) = sent s1" using assms(1) unfolding quiet_world_def by blast
      moreover have "io_bind (attempt_forward pl req session)
          (finish_forward pl req \<lparr>ss_session = session, ss_ref = ref\<rparr>) (pl_delay pl ?ms s1) = (r, s')"
        using assms(2) a Inr throttled
        by (auto simp: forward_with_resilience_def io_bind_def [of "attempt_forward pl req session"] io_simps
            io_bind_def [of "io_gets _"] io_bind_def [of "io_modify _"])
      ultimately show ?thesis using last sent1 fetched throttled(2) by auto
    next
      case other
      then have "finish_forward pl req \<lparr>ss_session = session, ss_ref = ref\<rparr> r1 s1 = (r, s')"
        using assms(2) a Inr by (auto simp: forward_with_resilience_def io_bind_def)
      then show ?thesis using sent1 quietD [OF quiet_errors(4) [OF assms(1)]] by metis
    qed
  qed
qed

subsection \<open>Lemmas: the headers of a forward\<close>

lemma names_set: "fst ` set (h_set hs n v) \<subseteq> insert (to_lower n) (fst ` set hs)"
proof -
  have "fst ` set (h_set_list hs k w) \<subseteq> insert k (fst ` set hs)" for k w
    by (induction hs k w rule: h_set_list.induct) auto
  then show ?thesis by (simp add: h_set_def)
qed

lemma names_delete: "fst ` set (h_delete hs n) \<subseteq> fst ` set hs"
  by (auto simp: h_delete_def)

definition forward_header_names :: "string set" where
  "forward_header_names = {''content-type'', ''accept'', ''x-forwarded-for'', ''x-forwarded-proto'', ''x-forwarded-host'', ''x-request-id''}"

lemma names_set_in: "fst ` set hs \<subseteq> N \<Longrightarrow> to_lower n \<in> N \<Longrightarrow> fst ` set (h_set hs n v) \<subseteq> N"
  using names_set [of hs n v] by (metis insert_subset subset_trans)

lemma forward_literals:
  "to_lower ''content-type'' = ''content-type''" "to_lower ''accept'' = ''accept''"
  "to_lower ''x-forwarded-for'' = ''x-forwarded-for''" "to_lower ''x-forwarded-proto'' = ''x-forwarded-proto''"
  "to_lower ''x-forwarded-host'' = ''x-forwarded-host''" "to_lower ''x-request-id'' = ''x-request-id''"
  "to_lower ''authorization'' = ''authorization''" "to_lower ''cookie'' = ''cookie''"
  by (simp_all add: to_lower_def lower_char_def)

lemma forward_headers_names: "fst ` set (forward_headers req trusted i) \<subseteq> forward_header_names"
proof -
  let ?N = forward_header_names
  have lits: "to_lower n \<in> ?N" if "n \<in> set forwarded_request_headers \<or> n = request_id_header" for n
    using that by (auto simp: forward_header_names_def forwarded_request_headers_def request_id_header_def forward_literals)
  have "fst ` set (fold (\<lambda>name hs. case h_get (req_headers req) name of None \<Rightarrow> hs | Some v \<Rightarrow> h_set hs name v) ns hs) \<subseteq> ?N"
    if "set ns \<subseteq> set forwarded_request_headers" "fst ` set hs \<subseteq> ?N" for ns hs
    using that
  proof (induction ns arbitrary: hs)
    case (Cons n ns)
    have "fst ` set (case h_get (req_headers req) n of None \<Rightarrow> hs | Some v \<Rightarrow> h_set hs n v) \<subseteq> ?N"
      using Cons.prems lits names_set_in [of hs ?N n] by (auto split: option.split)
    then show ?case using Cons by simp
  qed simp
  then have picked: "fst ` set (fold (\<lambda>name hs. case h_get (req_headers req) name of None \<Rightarrow> hs | Some v \<Rightarrow> h_set hs name v)
      forwarded_request_headers []) \<subseteq> ?N" by simp
  have chain: "fst ` set (apply_forwarded_headers hs url a) \<subseteq> ?N" if "fst ` set hs \<subseteq> ?N" for hs url a
  proof -
    have fwd: "to_lower ''x-forwarded-for'' \<in> ?N" "to_lower ''x-forwarded-proto'' \<in> ?N" "to_lower ''x-forwarded-host'' \<in> ?N"
      using lits by (simp_all add: forwarded_request_headers_def)
    define hs1 where "hs1 = (if \<not> h_has hs ''x-forwarded-proto''
        then h_set hs ''x-forwarded-proto'' (remove_first (CHR '':'') (protocol url)) else hs)"
    define hs2 where "hs2 = (if \<not> h_has hs1 ''x-forwarded-host'' then h_set hs1 ''x-forwarded-host'' (host url) else hs1)"
    have hs2: "fst ` set hs2 \<subseteq> ?N"
      unfolding hs2_def hs1_def using that names_set_in [OF _ fwd(2)] names_set_in [OF _ fwd(3)] by presburger
    have "apply_forwarded_headers hs url a = h_delete
        (case a of Some address \<Rightarrow> if address \<noteq> '''' then
           (case h_get hs2 ''x-forwarded-for'' of
              Some existing \<Rightarrow> h_set hs2 ''x-forwarded-for'' (if existing \<noteq> '''' then existing @ '', '' @ address else address)
            | None \<Rightarrow> h_set hs2 ''x-forwarded-for'' address) else hs2
         | None \<Rightarrow> hs2) stripped_client_ip_header"
      unfolding apply_forwarded_headers_def Let_def hs2_def hs1_def by (rule refl)
    also have "fst ` set \<dots> \<subseteq> ?N"
      by (rule subset_trans [OF names_delete]) (use hs2 names_set_in [OF hs2 fwd(1)] in \<open>simp split: option.split\<close>)
    finally show ?thesis .
  qed
  show ?thesis
    unfolding forward_headers_def Let_def by (rule names_set_in [OF chain [OF picked]]) (use lits in simp)
qed

lemma names_copy: "fst ` set (h_copy hs) \<subseteq> to_lower ` fst ` set hs"
proof -
  have "fst ` set (h_of ps) \<subseteq> to_lower ` fst ` set ps" for ps
  proof (induction ps rule: rev_induct)
    case (snoc p ps)
    then show ?case by (cases p) (simp add: h_of_snoc h_append_def subset_insertI2)
  qed simp
  moreover have "fst ` set (h_entries hs) \<subseteq> fst ` set hs"
    by (force simp: h_entries_def split: if_splits)
  ultimately show ?thesis unfolding h_copy_def by blast
qed

lemma forward_headers_norm: "h_norm (forward_headers req trusted i)"
proof -
  have "h_norm (fold (\<lambda>name hs. case h_get (req_headers req) name of None \<Rightarrow> hs | Some v \<Rightarrow> h_set hs name v) ns hs)"
    if "h_norm hs" for ns hs
    using that by (induction ns arbitrary: hs) (auto split: option.split)
  moreover have "h_norm (apply_forwarded_headers hs url a)" if "h_norm hs" for hs url a
    using that by (simp add: apply_forwarded_headers_def Let_def split: option.split)
  ultimately show ?thesis by (simp add: forward_headers_def Let_def)
qed

text \<open>Every attempt of a forward of the proxy carries only these headers, under the one id.\<close>

lemma bearer_headers:
  assumes "fw_headers fwd = forward_headers req trusted i"
  shows "fst ` set (fetch_headers (bearer_request fwd b)) \<subseteq> insert ''authorization'' forward_header_names"
    "h_get (fetch_headers (bearer_request fwd b)) request_id_header = Some (header_value i)"
proof -
  let ?hs = "forward_headers req trusted i"
  have "to_lower ` forward_header_names \<subseteq> forward_header_names"
    by (auto simp: forward_header_names_def forward_literals)
  then have "fst ` set (h_copy ?hs) \<subseteq> forward_header_names"
    using names_copy [of ?hs] forward_headers_names [of req trusted i] by blast
  then have "insert (to_lower ''authorization'') (fst ` set (h_copy ?hs)) \<subseteq> insert ''authorization'' forward_header_names"
    unfolding forward_literals by (rule insert_mono)
  then show "fst ` set (fetch_headers (bearer_request fwd b)) \<subseteq> insert ''authorization'' forward_header_names"
    unfolding bearer_request_def fetch_request.simps assms by (rule subset_trans [OF names_set])
  have "h_get ?hs request_id_header = Some (header_value i)" by (simp add: forward_headers_def Let_def h_get_set)
  then show "h_get (fetch_headers (bearer_request fwd b)) request_id_header = Some (header_value i)"
    using h_get_copy [OF forward_headers_norm, of request_id_header req trusted i]
    by (simp add: bearer_request_def assms h_get_set request_id_header_def forward_literals)
qed

definition forward_of :: "request \<Rightarrow> trusted_proxies \<Rightarrow> string \<Rightarrow> string \<Rightarrow> forward_request" where
  "forward_of req trusted i target =
     \<lparr>fw_target = target, fw_method = to_upper (req_method req), fw_headers = forward_headers req trusted i,
      fw_body = forward_body req\<rparr>"

lemma answer_sends:
  assumes "quiet_world sent pl oidc config store"
    and "forward_and_answer pl oidc config store trusted req i target cookies fresh ref s = (r, s')"
  shows "\<exists>bs. sent s' = sent s @ map (bearer_request (forward_of req trusted i target)) bs \<and> length bs \<in> {1, 2}"
proof -
  let ?fwd = "forward_of req trusted i target"
  obtain x t where x: "forward_with_resilience pl oidc ?fwd config store fresh ref s = (x, t)"
    by (cases "forward_with_resilience pl oidc ?fwd config store fresh ref s")
  have "sent s' = sent t"
  proof (cases x)
    case (Inr result)
    then show ?thesis
      using assms(2) x by (auto simp: forward_and_answer_def forward_of_def [symmetric] Let_def io_bind_def io_catch_def io_simps)
  next
    case (Inl e)
    let ?h = "if is_refresh_failed e then
           io_bind (log_session_fault pl i e) (\<lambda>_. tear_down_dead_session pl config store e req ref cookies i)
         else if \<not> is_api_failure e then
           io_bind (log_session_fault pl i e) (\<lambda>_. io_return (refresh_fault_response cookies i))
         else io_of (respond_to_failure e cookies i)"
    have "quiet sent ?h" using quiet_errors(5,6) [OF assms(1)] by (auto intro!: quiet_intros)
    moreover have "?h t = (r, s')"
      using assms(2) x Inl
      by (simp add: forward_and_answer_def forward_of_def [symmetric] Let_def io_bind_def [of "forward_with_resilience _ _ _ _ _ _ _"]
          io_catch_def)
    ultimately show ?thesis by (rule quietD)
  qed
  moreover have "\<exists>bs. sent t = sent s @ map (bearer_request ?fwd) bs \<and> length bs \<in> {1, 2}"
  proof -
    have "sent t = sent s @ map (bearer_request ?fwd) [fresh]
        \<or> (\<exists>again. sent t = sent s @ map (bearer_request ?fwd) [fresh, again])"
      using forward_sends [OF assms(1) x] by auto
    then show ?thesis by (elim disjE exE) (intro exI conjI, assumption, simp)+
  qed
  ultimately show ?thesis by simp
qed

text \<open>A bind sends what its parts send; when the first part is quiet, the second sent it all.\<close>

lemma quiet_step:
  assumes "quiet sent m" "io_bind m f s = (r, s')" "sent s' \<noteq> sent s"
  obtains a s1 where "m s = (Inr a, s1)" "f a s1 = (r, s')" "sent s1 = sent s"
proof -
  obtain x s1 where x: "m s = (x, s1)" by (cases "m s")
  have s1: "sent s1 = sent s" by (rule quietD [OF assms(1) x])
  then show thesis using assms(2,3) x that by (cases x) (auto simp: io_bind_def)
qed

lemma keep_fresh_quiet:
  "quiet_world sent pl oidc config store \<Longrightarrow> quiet sent (keep_fresh pl oidc config store req i session ref)"
  unfolding keep_fresh_def using quiet_refresh(3) quiet_errors(5,6) by (auto intro!: quiet_intros)

lemma forward_fresh_sends:
  assumes "quiet_world sent pl oidc config store"
    and "forward_fresh pl oidc config store trusted req i path session ref fresh s = (r, s')" "sent s' \<noteq> sent s"
  obtains target bs where "upstream_target config path (search (req_url req)) = Inr (Some target)"
    "sent s' = sent s @ map (bearer_request (forward_of req trusted i target)) bs" "length bs \<in> {1, 2}"
proof -
  have save: "quiet sent (if changed session fresh then write_session pl store config [] fresh else io_return (ref, []))"
    unfolding write_session_def using quiet_worldD(7) [OF assms(1)] by (auto intro!: quiet_intros)
  obtain p s1 where p: "(case p of (current_ref, cookies) \<Rightarrow>
     io_bind (io_of (upstream_target config path (search (req_url req)))) (\<lambda>target.
     case target of
       None \<Rightarrow> io_return (problem_answer 404 http_not_found i cookies)
     | Some t \<Rightarrow> forward_and_answer pl oidc config store trusted req i t cookies fresh current_ref)) s1 = (r, s')"
      "sent s1 = sent s"
    by (rule quiet_step [OF save assms(2) [unfolded forward_fresh_def] assms(3)]) blast
  obtain current_ref cookies where pc: "p = (current_ref, cookies)" by (cases p)
  obtain target where t: "upstream_target config path (search (req_url req)) = Inr target"
      "(case target of
         None \<Rightarrow> io_return (problem_answer 404 http_not_found i cookies)
       | Some t \<Rightarrow> forward_and_answer pl oidc config store trusted req i t cookies fresh current_ref) s1 = (r, s')"
    using p assms(3) unfolding pc
    by (cases "upstream_target config path (search (req_url req))") (auto simp: io_throw_apply)
  then obtain target' where t': "target = Some target'"
    using p(2) assms(3) by (cases target) (auto simp: io_return_apply)
  then have "forward_and_answer pl oidc config store trusted req i target' cookies fresh current_ref s1 = (r, s')"
    using t(2) by simp
  then show thesis using answer_sends [OF assms(1)] t(1) t' p(2) that by metis
qed

lemma proxy_request_sends:
  assumes "quiet_world sent pl oidc config store"
    and "proxy_request pl oidc config store trusted req i s = (r, s')" "sent s' \<noteq> sent s"
  obtains path ref b s1 fresh s2 where "stripped_api_path (pathname (req_url req)) = Some path"
    "read_session_ref pl req config = Some ref" "read_session pl store config req s = (Inr (Some b), s1)"
    "is_state_changing_method (req_method req) \<longrightarrow> csrf_token_matches (csrf_token b) (h_get (req_headers req) csrf_header)"
    "forward_fresh pl oidc config store trusted req i path b ref fresh s2 = (r, s')" "sent s2 = sent s"
proof -
  obtain path where path: "stripped_api_path (pathname (req_url req)) = Some path"
    using assms(2,3) by (cases "stripped_api_path (pathname (req_url req))") (auto simp: proxy_request_def io_return_apply)
  obtain ref where ref: "read_session_ref pl req config = Some ref"
    using assms(2,3) path by (cases "read_session_ref pl req config") (auto simp: proxy_request_def io_return_apply)
  have "quiet sent (read_session pl store config req)"
    using ref quiet_worldD(6) [OF assms(1)] by (simp add: read_session_def)
  moreover have "io_bind (read_session pl store config req) (\<lambda>found.
          case found of
            None \<Rightarrow> io_return (problem_answer 401 bff_session_missing i [])
          | Some session \<Rightarrow>
              if is_state_changing_method (req_method req)
                \<and> \<not> csrf_token_matches (csrf_token session) (h_get (req_headers req) csrf_header)
              then io_return (problem_answer 403 bff_csrf_invalid i [])
              else
                io_bind (keep_fresh pl oidc config store req i session ref) (\<lambda>outcome.
                case outcome of
                  Inl answer \<Rightarrow> io_return answer
                | Inr fresh \<Rightarrow> forward_fresh pl oidc config store trusted req i path session ref fresh)) s = (r, s')"
    using assms(2) path ref by (simp add: proxy_request_def)
  moreover note assms(3)
  ultimately obtain found s1 where found: "read_session pl store config req s = (Inr found, s1)" "sent s1 = sent s"
    "(case found of
            None \<Rightarrow> io_return (problem_answer 401 bff_session_missing i [])
          | Some session \<Rightarrow>
              if is_state_changing_method (req_method req)
                \<and> \<not> csrf_token_matches (csrf_token session) (h_get (req_headers req) csrf_header)
              then io_return (problem_answer 403 bff_csrf_invalid i [])
              else
                io_bind (keep_fresh pl oidc config store req i session ref) (\<lambda>outcome.
                case outcome of
                  Inl answer \<Rightarrow> io_return answer
                | Inr fresh \<Rightarrow> forward_fresh pl oidc config store trusted req i path session ref fresh)) s1 = (r, s')"
    by (rule quiet_step)
  then obtain b where b: "found = Some b" using assms(3) by (cases found) (auto simp: io_return_apply)
  with found assms(3) have csrf: "is_state_changing_method (req_method req) \<longrightarrow>
      csrf_token_matches (csrf_token b) (h_get (req_headers req) csrf_header)"
    by (auto simp: io_return_apply split: if_splits)
  then have "io_bind (keep_fresh pl oidc config store req i b ref) (\<lambda>outcome.
                case outcome of
                  Inl answer \<Rightarrow> io_return answer
                | Inr fresh \<Rightarrow> forward_fresh pl oidc config store trusted req i path b ref fresh) s1 = (r, s')"
    using found(3) b by auto
  moreover have "sent s' \<noteq> sent s1" using assms(3) found(2) by simp
  ultimately obtain o1 s2 where o1: "(case o1 of
                  Inl answer \<Rightarrow> io_return answer
                | Inr fresh \<Rightarrow> forward_fresh pl oidc config store trusted req i path b ref fresh) s2 = (r, s')"
      "sent s2 = sent s1"
    using quiet_step [OF keep_fresh_quiet [OF assms(1)]] by metis
  then obtain fresh where "o1 = Inr fresh" using found(2) assms(3) by (cases o1) (auto simp: io_return_apply)
  then show thesis using that path ref found b csrf o1 by simp
qed

subsection \<open>Lemmas: relaying an answer\<close>

lemma h_values_other: "to_lower n \<notin> to_lower ` fst ` set ps \<Longrightarrow> h_values (h_of ps) n = []"
  by (auto simp: h_values_of filter_empty_conv image_iff)

text \<open>What survives the re-framing: every upstream header but the framing ones, cookies line by line.\<close>

lemma h_values_forwardable:
  assumes "h_norm hs"
  shows "h_values (forwardable_headers hs) n
    = (if to_lower n \<in> set hop_by_hop_headers then [] else h_values (h_copy hs) n)"
proof -
  let ?keep = "\<lambda>(k, v). \<not> (to_lower k \<in> set hop_by_hop_headers \<or> to_lower k = ''set-cookie'')"
  let ?kept = "filter ?keep (h_entries hs)"
  have cookies: "h_values (fold (\<lambda>c acc. h_append acc ''set-cookie'' c) cs acc) n
      = h_values acc n @ (if to_lower n = ''set-cookie'' then map header_value cs else [])" for cs acc
    by (induction cs arbitrary: acc) (auto simp: to_lower_def lower_char_def)
  have kept: "h_values (h_of ?kept) n
      = (if to_lower n \<in> set hop_by_hop_headers \<or> to_lower n = ''set-cookie'' then [] else h_values (h_copy hs) n)"
  proof (cases "to_lower n \<in> set hop_by_hop_headers \<or> to_lower n = ''set-cookie''")
    case True
    then show ?thesis by (auto simp: h_values_of filter_empty_conv)
  next
    case False
    then have "filter (\<lambda>(k, v). to_lower k = to_lower n) ?kept = filter (\<lambda>(k, v). to_lower k = to_lower n) (h_entries hs)"
      unfolding filter_filter by (intro filter_cong) auto
    then show ?thesis using False by (simp add: h_values_of h_copy_def del: filter_filter)
  qed
  have stripped: "map header_value (h_values hs n) = h_values hs n"
    using assms by (intro map_idI) (auto simp: h_values_def h_norm_def)
  have "''set-cookie'' \<notin> set hop_by_hop_headers" by (simp add: hop_by_hop_headers_def)
  moreover have "h_get_set_cookie hs = h_values hs n" if "to_lower n = ''set-cookie''"
    using that by (simp add: h_get_set_cookie_def h_values_def to_lower_def lower_char_def)
  ultimately show ?thesis
    unfolding forwardable_headers_def Let_def h_of_def [symmetric] cookies kept
    using stripped h_values_copy [OF assms, of n] by auto
qed

lemma forwardable_norm [simp]: "h_norm (forwardable_headers hs)"
proof -
  have "h_norm acc \<Longrightarrow> h_norm (fold (\<lambda>c acc. h_append acc ''set-cookie'' c) cs acc)" for cs acc
    by (induction cs arbitrary: acc) auto
  then show ?thesis unfolding forwardable_headers_def Let_def h_of_def [symmetric] by simp
qed

subsection \<open>Lemmas: ending a session that cannot be refreshed\<close>

lemma refresh_failed_answer:
  assumes "h_norm cookies"
  shows "\<exists>r. respond_to_failure (refresh_failed_error d) cookies i = Inr r \<and> status r = 401
    \<and> h_get_set_cookie (resp_headers r) = h_get_set_cookie cookies"
  using assms by (simp add: respond_to_failure_def refresh_failed_error_def new_failure_def)

lemma log_session_fault_warns: "\<exists>m j. log_session_fault pl i e s = (Inr (), pl_warn pl m j s)"
  by (auto simp: log_session_fault_def Let_def io_modify_apply)

lemma torn_down:
  fixes iron :: "'z memory_world_scheme iron"
  assumes "memory_seal iron v opens" "\<And>m j w. mem_healthy w \<Longrightarrow> mem_healthy (pl_warn pl m j w)" "mem_healthy w"
  obtains r w' where
    "io_bind (log_session_fault pl i (refresh_failed_error d)) (\<lambda>_. tear_down_dead_session pl config
       (valkey_store iron random v :: ('z memory_world_scheme, stored_session) session_store) (refresh_failed_error d) req ref [] i) w = (Inr r, w')"
    "status r = 401" "valkey_bound v opens mem_lookup w' ref = None" "mem_healthy w'"
    "h_get_set_cookie (resp_headers r) = h_get_set_cookie (clear_session pl [] req config)"
proof -
  let ?store = "valkey_store iron random v :: ('z memory_world_scheme, stored_session) session_store"
  let ?e = "refresh_failed_error d"
  obtain m j where log: "log_session_fault pl i ?e w = (Inr (), pl_warn pl m j w)"
    using log_session_fault_warns [of pl i ?e w] by (elim exE)
  have good: "memory_seal iron v opens \<and> mem_healthy (pl_warn pl m j w)" using assms by blast
  obtain w' where w': "st_destroy ?store ref (pl_warn pl m j w) = (Inr (), w')"
    using valkey.destroy_law [OF good, of random ref] by blast
  have dead: "(memory_seal iron v opens \<and> mem_healthy w') \<and> valkey_bound v opens mem_lookup w' ref = None"
    by (rule valkey.destroyed_bound [OF good w'])
  obtain r where r: "respond_to_failure ?e (clear_session pl [] req config) i = Inr r" "status r = 401"
    "h_get_set_cookie (resp_headers r) = h_get_set_cookie (clear_session pl [] req config)"
    using refresh_failed_answer [of "clear_session pl [] req config" d i] by (auto simp: clear_session_def)
  have "tear_down_dead_session pl config ?store ?e req ref [] i (pl_warn pl m j w) = (Inr r, w')"
    by (simp add: tear_down_dead_session_def r(1) w' io_simps)
  then have "io_bind (log_session_fault pl i ?e) (\<lambda>_. tear_down_dead_session pl config ?store ?e req ref [] i) w = (Inr r, w')"
    by (simp add: io_bind_def log)
  then show thesis using that r(2,3) dead by blast
qed

lemma refresh_failed_is [simp]: "is_refresh_failed (refresh_failed_error d)"
  by (simp add: refresh_failed_error_def)

lemma dead_session_ends:
  fixes iron :: "'z memory_world_scheme iron"
  assumes "memory_seal iron v opens" "\<And>m j w. mem_healthy w \<Longrightarrow> mem_healthy (pl_warn pl m j w)"
    and "ensure_fresh_session pl oidc config (valkey_store iron random v) b ref w = (Inl (refresh_failed_error d), w1)"
    and "mem_healthy w1"
  obtains r w2 where "keep_fresh pl oidc config (valkey_store iron random v) req i b ref w = (Inr (Inl r), w2)"
    "status r = 401" "valkey_bound v opens mem_lookup w2 ref = None" "mem_healthy w2"
    "h_get_set_cookie (resp_headers r) = h_get_set_cookie (clear_session pl [] req config)"
proof -
  obtain r w2 where "io_bind (log_session_fault pl i (refresh_failed_error d)) (\<lambda>_. tear_down_dead_session pl config
       (valkey_store iron random v :: ('z memory_world_scheme, stored_session) session_store) (refresh_failed_error d) req ref [] i) w1 = (Inr r, w2)"
    "status r = 401" "valkey_bound v opens mem_lookup w2 ref = None" "mem_healthy w2"
    "h_get_set_cookie (resp_headers r) = h_get_set_cookie (clear_session pl [] req config)"
    by (rule torn_down [OF assms(1,2,4)])
  moreover from this(1) have "keep_fresh pl oidc config (valkey_store iron random v) req i b ref w = (Inr (Inl r), w2)"
    by (auto simp: keep_fresh_def io_catch_def io_bind_def assms(3) io_return_apply split: prod.splits sum.splits)
  ultimately show thesis using that by blast
qed

text \<open>The same end when the upstream refuses the token and the refresh that follows fails.\<close>

lemma refused_token_ends:
  fixes iron :: "'z memory_world_scheme iron"
  assumes "memory_seal iron v opens" "\<And>m j w. mem_healthy w \<Longrightarrow> mem_healthy (pl_warn pl m j w)"
    and "upstream_target config path (search (req_url req)) = Inr (Some t)"
    and "attempt_forward pl (forward_of req trusted i t) b w = (Inr r0, w1)" "is_auth_failure r0" "has_refresh_token b"
    and "force_refresh_stored pl oidc config (valkey_store iron random v) b ref w1 = (Inl (refresh_failed_error d), w2)" "mem_healthy w2"
  obtains r w3 where "forward_fresh pl oidc config (valkey_store iron random v) trusted req i path b ref b w = (Inr r, w3)"
    "status r = 401" "valkey_bound v opens mem_lookup w3 ref = None" "mem_healthy w3"
    "h_get_set_cookie (resp_headers r) = h_get_set_cookie (clear_session pl [] req config)"
proof -
  let ?store = "valkey_store iron random v :: ('z memory_world_scheme, stored_session) session_store"
  obtain r w3 where ended: "io_bind (log_session_fault pl i (refresh_failed_error d)) (\<lambda>_. tear_down_dead_session pl config
       ?store (refresh_failed_error d) req ref [] i) w2 = (Inr r, w3)"
    "status r = 401" "valkey_bound v opens mem_lookup w3 ref = None" "mem_healthy w3"
    "h_get_set_cookie (resp_headers r) = h_get_set_cookie (clear_session pl [] req config)"
    by (rule torn_down [OF assms(1,2,8)])
  have "forward_with_resilience pl oidc (forward_of req trusted i t) config ?store b ref w = (Inl (refresh_failed_error d), w2)"
    using assms(4-7) by (simp add: forward_with_resilience_def io_bind_def)
  then have "forward_and_answer pl oidc config ?store trusted req i t [] b ref w = (Inr r, w3)"
    using ended(1) by (simp add: forward_and_answer_def forward_of_def Let_def io_catch_def io_bind_def)
  then have "forward_fresh pl oidc config ?store trusted req i path b ref b w = (Inr r, w3)"
    by (simp add: forward_fresh_def changed_def assms(3) io_bind_def io_simps)
  with that ended show thesis by blast
qed

subsection \<open>Properties\<close>

text \<open>
  C2: Nothing leaves the proxy without a session. Any request that goes out was preceded by a live
  session read for the caller's reference and, for a state-changing method, by the session's own
  CSRF token. At most two go out for one incoming request, both to the one target built from the
  stripped path, with the caller's method and body, carrying no header beyond the allowlist, the
  request id and the bearer (so no cookie), and both under the same request id.
\<close>

theorem proxy_sends_only_authenticated:
  assumes "quiet_world sent pl oidc config store"
    and "proxy_request pl oidc config store trusted req i s = (r, s')" "sent s' \<noteq> sent s"
  shows "\<exists>path ref b s1 target rs.
      stripped_api_path (pathname (req_url req)) = Some path
    \<and> upstream_target config path (search (req_url req)) = Inr (Some target)
    \<and> read_session_ref pl req config = Some ref \<and> read_session pl store config req s = (Inr (Some b), s1)
    \<and> (is_state_changing_method (req_method req) \<longrightarrow>
         csrf_token_matches (csrf_token b) (h_get (req_headers req) csrf_header))
    \<and> sent s' = sent s @ rs \<and> length rs \<le> 2
    \<and> (\<forall>q \<in> set rs. fetch_url q = target \<and> fetch_method q = to_upper (req_method req)
         \<and> fetch_body q = forward_body req
         \<and> fst ` set (fetch_headers q) \<subseteq> insert ''authorization'' forward_header_names
         \<and> h_get (fetch_headers q) request_id_header = Some (header_value i))"
proof -
  obtain path ref b s1 fresh s2 where p: "stripped_api_path (pathname (req_url req)) = Some path"
    "read_session_ref pl req config = Some ref" "read_session pl store config req s = (Inr (Some b), s1)"
    "is_state_changing_method (req_method req) \<longrightarrow> csrf_token_matches (csrf_token b) (h_get (req_headers req) csrf_header)"
    "forward_fresh pl oidc config store trusted req i path b ref fresh s2 = (r, s')" "sent s2 = sent s"
    by (rule proxy_request_sends [OF assms])
  moreover have "sent s' \<noteq> sent s2" using assms(3) p(6) by simp
  then obtain target bs where t: "upstream_target config path (search (req_url req)) = Inr (Some target)"
    "sent s' = sent s2 @ map (bearer_request (forward_of req trusted i target)) bs" "length bs \<in> {1, 2}"
    by (rule forward_fresh_sends [OF assms(1) p(5)])
  moreover have "\<forall>q \<in> set (map (bearer_request (forward_of req trusted i target)) bs).
      fetch_url q = target \<and> fetch_method q = to_upper (req_method req) \<and> fetch_body q = forward_body req
      \<and> fst ` set (fetch_headers q) \<subseteq> insert ''authorization'' forward_header_names
      \<and> h_get (fetch_headers q) request_id_header = Some (header_value i)"
    using bearer_headers [of "forward_of req trusted i target" req trusted i]
    by (auto simp: forward_of_def bearer_request_def)
  ultimately show ?thesis
    by (intro exI [of _ path] exI [of _ ref] exI [of _ b] exI [of _ s1] exI [of _ target]) auto
qed

text \<open>
  C3: The forward stays under the API's base path. For every URL a request can carry, the stripped
  path joined onto the configured API URL parses to exactly that path under the base path of the
  same origin: no segment of it is resolved away, and none is read as an authority.
\<close>

theorem upstream_target_confined:
  assumes "stripped_api_path (pathname incoming) = Some path" "url_wf incoming"
    and "new_url (api_base_url config) = Inr base"
  shows "\<exists>t u. upstream_target config path (search incoming) = Inr (Some t) \<and> new_url t = Inr u
    \<and> protocol u = protocol base \<and> host u = host base \<and> pathname u = base_path_of base @ path
    \<and> search u = search incoming \<and> starts_with path ''/'' \<and> ''..'' \<notin> set (split_char (CHR ''/'') path)"
proof -
  obtain sc h segs q f where b: "base = mk_url sc h segs q f" "sc \<in> {''http'', ''https''}" "host_ok sc h"
    by (rule url_wfE [OF new_url_wf [OF assms(3)]])
  obtain query where query: "search incoming = (case query of None \<Rightarrow> '''' | Some q \<Rightarrow> ''?'' @ q)"
    "\<forall>x. query = Some x \<longrightarrow> list_all (\<lambda>c. \<not> query_special c) x"
    "\<forall>sc h segs f. search (mk_url sc h segs query f) = search incoming"
    by (rule search_as_query [OF assms(2)])
  note stripped = stripped_seg_path [OF assms(1) url_wf_path [OF assms(2)]]
  have "base_path_of base = '''' \<or> seg_path (base_path_of base)"
    by (rule base_path_shape [OF url_wf_path [OF new_url_wf [OF assms(3)]]])
  then have "seg_path (base_path_of base @ path)" using stripped(1) seg_path_append by auto
  from parse_origin_path [OF b(2,3) this query(2)] obtain segs2 where u: "segs2 \<noteq> []" "list_all seg_ok segs2"
      "base_path_of base @ path = ''/'' @ js_join ''/'' segs2"
      "\<forall>base'. parse_url base' (sc @ ''://'' @ h @ (base_path_of base @ path) @ search incoming)
          = Some (mk_url sc h segs2 query None)"
    unfolding query(1) by blast
  let ?u = "mk_url sc h segs2 query None"
  have "pathname ?u = base_path_of base @ path" unfolding u(3) by simp
  moreover have "protocol ?u = protocol base" "host ?u = host base" "search ?u = search incoming"
    using query(3) by (simp_all add: b(1))
  ultimately have sel: "protocol ?u = protocol base" "host ?u = host base" "pathname ?u = base_path_of base @ path"
    "search ?u = search incoming" by simp_all
  have "full_origin base @ base_path_of base @ path @ search incoming
      = sc @ ''://'' @ h @ (base_path_of base @ path) @ search incoming"
    by (simp add: b(1) full_origin_def)
  then have "new_url (full_origin base @ base_path_of base @ path @ search incoming) = Inr ?u"
    using u(4) by (simp add: new_url_def)
  then have "upstream_target config path (search incoming) = Inr (Some (url_href ?u))"
    using sel by (simp add: upstream_target_def assms(3) full_origin_def)
  moreover have "url_wf ?u" using b(2,3) u(1,2) query(2) by (intro mk_url_wf) auto
  then have "new_url (url_href ?u) = Inr ?u" by (rule new_url_href)
  moreover have "starts_with path ''/''" using stripped(1) by (auto simp: seg_path_def starts_with_iff)
  ultimately show ?thesis using sel stripped(2) by metis
qed

text \<open>
  The wait before a replay is bounded. Whatever \<open>Retry-After\<close> says, the proxy waits between
  zero and five seconds; a number of seconds is waited exactly, up to that bound.
\<close>

lemma retry_wait_bounded:
  assumes "int n < overflow_bound"
  shows "0 \<le> retry_after_ms date_parse now r \<and> retry_after_ms date_parse now r \<le> 5000
    \<and> retry_after_ms date_parse now (r\<lparr>resp_headers := [(''retry-after'', nat_to_string n)]\<rparr>) = min (1000 * int n) 5000"
proof -
  have "0 \<le> bound_wait x \<and> bound_wait x \<le> 5000" for x
    by (simp add: bound_wait_def no_delay_ms_def max_retry_after_ms_def)
  then have "0 \<le> retry_after_ms date_parse now r \<and> retry_after_ms date_parse now r \<le> 5000"
    by (auto simp: retry_after_ms_def no_delay_ms_def split: option.split js_number.split)
  moreover have "js_trim (nat_to_string n) = nat_to_string n"
    by (rule js_trim_no_ws) (auto dest!: nat_to_string_digits simp: is_ws_def is_digit_def)
  moreover have "h_get [(''retry-after'', v)] ''retry-after'' = Some v" for v
    by (simp add: h_get_def h_values_def to_lower_def lower_char_def)
  ultimately show ?thesis
    using js_to_number_nat [OF assms]
    by (simp add: retry_after_ms_def bound_wait_def no_delay_ms_def max_retry_after_ms_def ms_per_second_def)
qed

text \<open>
  Every answer names its request. Whichever of its exits a proxied request takes, the answer
  carries the request id the caller sent, or the fresh one drawn for it.
\<close>

lemma every_answer_names_its_request:
  assumes "create_api_proxy pl oidc config store trusted req s = (Inr r, s')"
  shows "h_get (resp_headers r) request_id_header
    = Some (header_value (resolve_request_id (fst (pl_uuid pl s)) (req_headers req)))"
proof -
  obtain i s1 where i: "request_id_of pl (req_headers req) s = (Inr i, s1)"
    using request_id_ok [of pl "req_headers req" s] by auto
  then have "i = resolve_request_id (fst (pl_uuid pl s)) (req_headers req)"
    by (auto simp: request_id_of_def resolve_request_id_def Let_def case_prod_beta split: option.splits if_splits)
  moreover have "h_get (resp_headers r) request_id_header = Some (header_value i)"
    using assms i by (auto simp: create_api_proxy_def io_bind_eq_Inr io_return_apply h_get_set)
  ultimately show ?thesis by simp
qed

text \<open>
  C11: A session whose refresh fails is ended as a logout ends it, on both paths. With the Valkey store,
  when the grant behind the session cannot be refreshed, be it before the forward because the access token
  runs out, or after the API has refused the token of a session that has a refresh token, the record is
  destroyed, the answer is a 401 problem that expires the session cookie, its CSRF companion and every chunk
  the request carried, and the reference resolves to nothing afterwards.
\<close>

theorem failed_refresh_ends_session:
  assumes "memory_seal iron v opens" "\<And>m j w. mem_healthy w \<Longrightarrow> mem_healthy (pl_warn pl m j w)"
    and "stripped_api_path (pathname (req_url req)) = Some path" "read_session_ref pl req config = Some ref"
    and "read_session pl (valkey_store iron random v :: (_, stored_session) session_store) config req w = (Inr (Some b), w1)"
    and "is_state_changing_method (req_method req) \<longrightarrow> csrf_token_matches (csrf_token b) (h_get (req_headers req) csrf_header)"
    and "ensure_fresh_session pl oidc config (valkey_store iron random v) b ref w1 = (Inl (refresh_failed_error d), w2)
      \<or> (\<exists>wa wb t r0. ensure_fresh_session pl oidc config (valkey_store iron random v) b ref w1 = (Inr b, wa)
           \<and> upstream_target config path (search (req_url req)) = Inr (Some t)
           \<and> attempt_forward pl (forward_of req trusted i t) b wa = (Inr r0, wb) \<and> is_auth_failure r0 \<and> has_refresh_token b
           \<and> force_refresh_stored pl oidc config (valkey_store iron random v) b ref wb = (Inl (refresh_failed_error d), w2))"
    and "mem_healthy w2"
  shows "\<exists>r w3. proxy_request pl oidc config (valkey_store iron random v) trusted req i w = (Inr r, w3)
    \<and> status r = 401 \<and> valkey_bound v opens mem_lookup w3 ref = None
    \<and> h_get_set_cookie (resp_headers r) = map (\<lambda>(n, x, a). header_value (pl_serialize_cookie pl n x a))
         (clear_session_cookies config (request_cookies pl req))"
proof -
  let ?store = "valkey_store iron random v :: (_, stored_session) session_store"
  have "\<exists>r w3. io_bind (keep_fresh pl oidc config ?store req i b ref) (\<lambda>outcome. case outcome of
        Inl answer \<Rightarrow> io_return answer | Inr fresh \<Rightarrow> forward_fresh pl oidc config ?store trusted req i path b ref fresh) w1 = (Inr r, w3)
      \<and> status r = 401 \<and> valkey_bound v opens mem_lookup w3 ref = None
      \<and> h_get_set_cookie (resp_headers r) = h_get_set_cookie (clear_session pl [] req config)"
    using assms(7)
  proof (elim disjE exE conjE)
    assume refused: "ensure_fresh_session pl oidc config ?store b ref w1 = (Inl (refresh_failed_error d), w2)"
    obtain r w3 where "keep_fresh pl oidc config ?store req i b ref w1 = (Inr (Inl r), w3)"
      "status r = 401" "valkey_bound v opens mem_lookup w3 ref = None" "mem_healthy w3"
      "h_get_set_cookie (resp_headers r) = h_get_set_cookie (clear_session pl [] req config)"
      by (rule dead_session_ends [OF assms(1,2) refused assms(8)])
    then show ?thesis by (auto simp: io_bind_def io_return_apply)
  next
    fix wa wb t r0
    assume fresh: "ensure_fresh_session pl oidc config ?store b ref w1 = (Inr b, wa)"
      and forward: "upstream_target config path (search (req_url req)) = Inr (Some t)"
        "attempt_forward pl (forward_of req trusted i t) b wa = (Inr r0, wb)" "is_auth_failure r0" "has_refresh_token b"
        "force_refresh_stored pl oidc config ?store b ref wb = (Inl (refresh_failed_error d), w2)"
    have "keep_fresh pl oidc config ?store req i b ref w1 = (Inr (Inr b), wa)"
      by (simp add: keep_fresh_def io_catch_def io_bind_def fresh io_return_apply)
    moreover obtain r w3 where "forward_fresh pl oidc config ?store trusted req i path b ref b wa = (Inr r, w3)"
      "status r = 401" "valkey_bound v opens mem_lookup w3 ref = None" "mem_healthy w3"
      "h_get_set_cookie (resp_headers r) = h_get_set_cookie (clear_session pl [] req config)"
      by (rule refused_token_ends [OF assms(1,2) forward assms(8)])
    ultimately show ?thesis by (auto simp: io_bind_def)
  qed
  then obtain r w3 where k: "io_bind (keep_fresh pl oidc config ?store req i b ref) (\<lambda>outcome. case outcome of
        Inl answer \<Rightarrow> io_return answer | Inr fresh \<Rightarrow> forward_fresh pl oidc config ?store trusted req i path b ref fresh) w1 = (Inr r, w3)"
      "status r = 401" "valkey_bound v opens mem_lookup w3 ref = None"
      "h_get_set_cookie (resp_headers r) = h_get_set_cookie (clear_session pl [] req config)"
    by blast
  have "proxy_request pl oidc config ?store trusted req i w = (Inr r, w3)"
    using assms(6) k(1) by (auto simp: proxy_request_def assms(3,4) io_bind_def assms(5))
  moreover have "h_get_set_cookie [] = []" by (simp add: h_get_set_cookie_def h_values_def)
  ultimately show ?thesis using k by (simp add: clear_session_def)
qed

text \<open>A refresh the issuer refuses, on a store whose refresh lock is free.\<close>

lemma refused_refresh:
  assumes "memory_seal iron v opens" "mem_healthy w" "ref_id opens ref = Some k" "mem_lookup w (lock_key v k) = None"
    and "refresh_token b = Some token" "token \<noteq> ''''" "\<And>w. expires_at b - expiry_skew_ms \<le> pl_now pl w"
    and "\<And>w. mem_healthy w \<Longrightarrow> \<exists>e w'. io_bind (discover oidc config) (\<lambda>doc. refresh_tokens oidc doc token) w = (Inl e, w')
      \<and> mem_healthy w'"
  shows "\<exists>d w'. ensure_fresh_session pl oidc config (valkey_store iron random v) b ref w = (Inl (refresh_failed_error d), w')
    \<and> mem_healthy w'"
proof -
  let ?store = "valkey_store iron random v :: (_, stored_session) session_store"
  note seal = memory_sealD [OF assms(1)]
  obtain w1 where w1: "mem_healthy w1" "mem_lookup w1 = (mem_lookup w)(lock_key v k \<mapsto> ''1'')"
      "mem_members w1 = mem_members w"
    and run: "\<forall>fn :: (_, stored_session) io. valkey_with_refresh_lock iron v ref fn w =
       io_finally (io_bind fn (\<lambda>t. io_return (Some t))) (rl_del (client v) (lock_key v k)) w1"
    by (rule memory.refresh_lock_free [OF seal(1,2,4) assms(2-4)])
  obtain e w2 where grant: "io_bind (discover oidc config) (\<lambda>doc. refresh_tokens oidc doc token) w1 = (Inl e, w2)" "mem_healthy w2"
    using assms(8) [OF w1(1)] by (elim exE conjE)
  have rotate: "rotate_session pl oidc config ?store b w1 = (Inl (refresh_failed_error (cause_detail e)), w2)"
  proof -
    have "io_catch (io_bind (discover oidc config) (\<lambda>doc. refresh_tokens oidc doc token))
        (\<lambda>e. io_throw (refresh_failed_error (cause_detail e))) w1 = (Inl (refresh_failed_error (cause_detail e)), w2)"
      by (simp add: io_catch_def grant(1) io_throw_apply)
    then show ?thesis unfolding rotate_session_def Let_def assms(5) option.case by (rule io_bind_Inl)
  qed
  obtain n w3 where del: "rl_del create_memory_redis (lock_key v k) w2 = (Inr n, w3)" "mem_healthy w3"
    using memory.del [OF grant(2)] by blast
  have lock: "st_with_refresh_lock ?store ref (rotate_session pl oidc config ?store b) w = (Inl (refresh_failed_error (cause_detail e)), w3)"
  proof -
    have "st_with_refresh_lock ?store ref fn w = io_finally (io_bind fn (\<lambda>t. io_return (Some t))) (rl_del (client v) (lock_key v k)) w1"
      for fn using run by (simp add: valkey_store_def)
    then show ?thesis using rotate del(1) by (simp add: io_finally_def io_bind_def seal(2))
  qed
  have "ensure_fresh_session pl oidc config ?store b ref w = (Inl (refresh_failed_error (cause_detail e)), w3)"
    using assms(7) [of w] lock by (simp add: ensure_fresh_session_def refresh_under_lock_def assms(5,6) io_bind_def io_gets_apply)
  with del(2) show ?thesis by blast
qed

text \<open>
  C13: A stale reader ends the session its peer has just refreshed. The refresh spends the token of
  the session the request read, not of the session the store holds once the lock is won: when a
  peer has rotated the tokens in between and released the lock, the issuer refuses the spent
  token, and the proxy destroys the peer's fresh session.
\<close>

theorem stale_reader_ends_rotated_session:
  assumes "memory_seal iron v opens" "\<And>m j w. mem_healthy w \<Longrightarrow> mem_healthy (pl_warn pl m j w)"
    and "mem_healthy w" "ref_id opens ref = Some k" "mem_lookup w (lock_key v k) = None"
    and "valkey_bound v opens mem_lookup w ref = Some rotated" "version stale < version rotated"
    and "refresh_token stale = Some spent" "spent \<noteq> ''''"
    and "\<And>w. expires_at stale - expiry_skew_ms \<le> pl_now pl w"
    and "\<And>w. mem_healthy w \<Longrightarrow> \<exists>e w'. io_bind (discover oidc config) (\<lambda>doc. refresh_tokens oidc doc spent) w = (Inl e, w')
      \<and> mem_healthy w'"
  shows "\<exists>r w'. keep_fresh pl oidc config (valkey_store iron random v) req i stale ref w = (Inr (Inl r), w')
    \<and> status r = 401 \<and> valkey_bound v opens mem_lookup w' ref = None"
proof -
  obtain d w3 where "ensure_fresh_session pl oidc config (valkey_store iron random v) stale ref w = (Inl (refresh_failed_error d), w3)"
    "mem_healthy w3"
    using refused_refresh [where pl = pl and oidc = oidc and config = config, OF assms(1,3,4,5,8,9,10)] assms(11) by metis
  from dead_session_ends [OF assms(1,2) this, of req i]
  show ?thesis by blast
qed

lemma live_session_answer:
  assumes "stripped_api_path (pathname (req_url req)) = Some path" "read_session_ref pl req config = Some ref"
    and "read_session pl store config req s = (Inr (Some b), s1)"
    and "is_state_changing_method (req_method req) \<longrightarrow> csrf_token_matches (csrf_token b) (h_get (req_headers req) csrf_header)"
    and "pl_now pl s1 < expires_at b - expiry_skew_ms"
    and "upstream_target config path (search (req_url req)) = Inr (Some target)"
    and "pl_fetch pl (bearer_request (forward_of req trusted i target) b) (Some forward_timeout_ms) s1 = (Fetched r, s2)" "resp_ok r"
  shows "proxy_request pl oidc config store trusted req i s
    = (Inr \<lparr>status = status r, resp_headers = h_copy (forwardable_headers (resp_headers r)), resp_body = resp_body r,
        status_text = status_text r\<rparr>, s2)"
proof -
  let ?fwd = "forward_of req trusted i target"
  let ?a = "\<lparr>status = status r, resp_headers = h_copy (forwardable_headers (resp_headers r)), resp_body = resp_body r,
    status_text = status_text r\<rparr>"
  have fresh: "keep_fresh pl oidc config store req i b ref s1 = (Inr (Inr b), s1)"
    using assms(5) by (simp add: keep_fresh_def ensure_fresh_session_def io_catch_def io_bind_def io_gets_apply io_return_apply)
  have attempt: "attempt_forward pl ?fwd b s1 = (Inr r, s2)" by (simp add: attempt_outcome assms(7))
  have ok: "\<not> is_auth_failure r" "status r \<noteq> 429"
    using assms(8) by (auto simp: resp_ok_def is_auth_failure_def is_redirect_def)
  have "forward_with_resilience pl oidc ?fwd config store b ref s1
      = (Inr \<lparr>fr_response = r, fr_session = b, fr_ref = ref\<rparr>, s2)"
    using ok assms(8) by (simp add: forward_with_resilience_def io_bind_def attempt finish_forward_def Let_def io_return_apply)
  then have "forward_and_answer pl oidc config store trusted req i target [] b ref s1 = (Inr ?a, s2)"
    by (simp add: forward_and_answer_def forward_of_def [symmetric] Let_def io_catch_def io_bind_def changed_def
        merge_cookies_def h_get_set_cookie_def h_values_def io_return_apply)
  then have "forward_fresh pl oidc config store trusted req i path b ref b s1 = (Inr ?a, s2)"
    by (simp add: forward_fresh_def changed_def assms(6))
  then show ?thesis
    using assms(4) by (auto simp: proxy_request_def assms(1,2) io_bind_def assms(3) fresh)
qed

text \<open>
  C12: A live session's request is relayed. When the token is not near its expiry and the API
  answers with a success, the caller gets the API's status, body and every header except the three
  that describe the upstream framing, each \<open>Set-Cookie\<close> on its own line; nothing else happens than
  the session read and that one request.
\<close>

theorem live_session_is_relayed:
  assumes "stripped_api_path (pathname (req_url req)) = Some path" "read_session_ref pl req config = Some ref"
    and "read_session pl store config req s = (Inr (Some b), s1)"
    and "is_state_changing_method (req_method req) \<longrightarrow> csrf_token_matches (csrf_token b) (h_get (req_headers req) csrf_header)"
    and "pl_now pl s1 < expires_at b - expiry_skew_ms"
    and "upstream_target config path (search (req_url req)) = Inr (Some target)"
    and "pl_fetch pl (bearer_request (forward_of req trusted i target) b) (Some forward_timeout_ms) s1 = (Fetched r, s2)"
    and "resp_ok r" "h_norm (resp_headers r)"
  shows "\<exists>a. proxy_request pl oidc config store trusted req i s = (Inr a, s2)
    \<and> status a = status r \<and> resp_body a = resp_body r \<and> h_get_set_cookie (resp_headers a) = h_get_set_cookie (resp_headers r)
    \<and> (\<forall>n. to_lower n \<noteq> ''set-cookie'' \<longrightarrow> h_get (resp_headers a) n
         = (if to_lower n \<in> set hop_by_hop_headers then None else map_option header_value (h_get (resp_headers r) n)))"
proof -
  let ?a = "\<lparr>status = status r, resp_headers = h_copy (forwardable_headers (resp_headers r)), resp_body = resp_body r,
    status_text = status_text r\<rparr>"
  have "proxy_request pl oidc config store trusted req i s = (Inr ?a, s2)" by (rule live_session_answer [OF assms(1-8)])
  moreover have "h_get (resp_headers ?a) n
      = (if to_lower n \<in> set hop_by_hop_headers then None else map_option header_value (h_get (resp_headers r) n))"
    if "to_lower n \<noteq> ''set-cookie''" for n
    using that h_values_forwardable [OF assms(9), of n] h_get_copy [OF assms(9) that]
    by (simp add: h_get_copy) (auto simp: h_get_def Let_def)
  moreover have "h_get_set_cookie (resp_headers ?a) = h_get_set_cookie (resp_headers r)"
  proof -
    have "to_lower ''set-cookie'' \<notin> set hop_by_hop_headers" by (simp add: hop_by_hop_headers_def)
    then have "h_get_set_cookie (forwardable_headers (resp_headers r)) = h_get_set_cookie (h_copy (resp_headers r))"
      using h_values_forwardable [OF assms(9), of "''set-cookie''"] by (simp add: h_get_set_cookie_def)
    then show ?thesis using assms(9) by simp
  qed
  ultimately show ?thesis by (intro exI [of _ ?a]) simp
qed

subsection \<open>A concrete proxy\<close>

definition demo_incoming :: full_url where
  "demo_incoming = mk_url ''https'' ''app.test'' [''api'', ''items''] (Some ''q=1'') None"

definition demo_api_request :: "string \<Rightarrow> request" where
  "demo_api_request m =
     \<lparr>req_method = m, req_url = url.truncate demo_incoming,
      req_headers = [(''cookie'', demo_ref), (''x-csrf-token'', ''c'')], req_body = '''', req_ip = None\<rparr>"

lemma demo_api_params [simp]:
  "pathname (req_url (demo_api_request m)) = ''/api/items''" "search (req_url (demo_api_request m)) = ''?q=1''"
  "req_method (demo_api_request m) = m" "h_get (req_headers (demo_api_request m)) csrf_header = Some ''c''"
  by (simp_all add: demo_api_request_def demo_incoming_def mk_url_def url.truncate_def h_get_def h_values_def
      csrf_header_def to_lower_def lower_char_def)

lemma demo_api_path: "stripped_api_path ''/api/items'' = Some ''/items''"
  by code_simp

definition demo_api_base :: full_url where
  "demo_api_base = mk_url ''http'' ''api.test'' [''''] None None"

definition demo_api_endpoint :: full_url where
  "demo_api_endpoint = mk_url ''http'' ''api.test'' [''items''] (Some ''q=1'') None"

lemma demo_api_wf: "url_wf demo_api_base" "url_wf demo_api_endpoint" "url_wf demo_incoming"
  unfolding demo_api_base_def demo_api_endpoint_def demo_incoming_def
  by (rule mk_url_wf; simp add: example_host seg_simps query_special_def)+

lemma demo_api_base: "new_url (api_base_url demo_config) = Inr demo_api_base"
proof -
  have "api_base_url demo_config = url_href demo_api_base"
    by (simp add: demo_config_def demo_api_base_def url_href_def mk_url_def)
  then show ?thesis by (simp add: new_url_href demo_api_wf)
qed

lemma demo_api_target: "upstream_target demo_config ''/items'' ''?q=1'' = Inr (Some ''http://api.test/items?q=1'')"
proof -
  have href: "url_href demo_api_endpoint = ''http://api.test/items?q=1''"
    by (simp add: demo_api_endpoint_def url_href_def mk_url_def)
  have join: "full_origin demo_api_base @ base_path_of demo_api_base @ ''/items'' @ ''?q=1'' = ''http://api.test/items?q=1''"
    by (simp add: demo_api_base_def full_origin_def base_path_of_def mk_url_def)
  moreover have "new_url ''http://api.test/items?q=1'' = Inr demo_api_endpoint"
    using new_url_href [OF demo_api_wf(2)] by (simp add: href)
  moreover have "full_origin demo_api_endpoint = full_origin demo_api_base"
    "starts_with (pathname demo_api_endpoint) (base_path_of demo_api_base)"
    by (simp_all add: demo_api_base_def demo_api_endpoint_def full_origin_def base_path_of_def mk_url_def starts_with_def)
  ultimately show ?thesis
    unfolding upstream_target_def demo_api_base sum.case Let_def join by (simp add: href)
qed

lemma demo_api_ref: "read_session_ref demo_platform (demo_api_request m) demo_config = Some demo_ref"
proof -
  have "read_session_ref demo_platform (demo_api_request m) demo_config
    = read_session_ref demo_platform (demo_request m [] ((''cookie'', demo_ref) # [(''x-csrf-token'', ''c'')])) demo_config"
    by (simp add: read_session_ref_def request_cookies_def demo_api_request_def demo_platform_def)
  then show ?thesis by (simp only: demo_read_ref)
qed

text \<open>A network that keeps what was sent, and a store whose session has a minute to live.\<close>

definition demo_answer :: response where
  "demo_answer =
     \<lparr>status = 200, resp_headers = [(''set-cookie'', ''a=1''), (''etag'', ''x''), (''content-length'', ''2'')],
      resp_body = Some ''ok'', status_text = ''OK''\<rparr>"

definition recording_platform :: "fetch_request list platform" where
  "recording_platform = demo_platform\<lparr>pl_fetch := (\<lambda>q ms s. (Fetched demo_answer, s @ [q]))\<rparr>"

definition demo_live_session :: bff_session where
  "demo_live_session = (demo_session ''i1'')\<lparr>expires_at := 60000\<rparr>"

definition demo_live_store :: "('s, stored_session) session_store" where
  "demo_live_store =
     \<lparr>st_read = (\<lambda>ref. io_return (Some demo_live_session)), st_write = (\<lambda>b. io_return ''''),
      st_destroy = (\<lambda>ref. io_return ()), st_with_refresh_lock = (\<lambda>ref fn. io_return None),
      st_revoke_by_sid = None, st_revoke_by_subject = None, st_claim_namespace = None\<rparr>"

lemma recording_quiet: "quiet_world (\<lambda>s. s) recording_platform demo_oidc demo_config demo_live_store"
proof -
  have "quiet (\<lambda>s :: fetch_request list. s) (discover demo_oidc demo_config)" by (simp add: quiet_def io_inv_def demo_oidc_discover)
  moreover have "quiet (\<lambda>s :: fetch_request list. s) (refresh_tokens demo_oidc doc t)" for doc t
    by (simp add: refresh_tokens_def demo_oidc_def demo_client_def quiet_intros)
  ultimately show ?thesis
    by (simp add: quiet_world_def recording_platform_def demo_platform_def demo_live_store_def quiet_intros)
qed

lemma recording_ref: "read_session_ref recording_platform (demo_api_request m) demo_config = Some demo_ref"
  using demo_api_ref [of m] by (simp add: read_session_ref_def request_cookies_def recording_platform_def)

lemma demo_live_read: "read_session recording_platform demo_live_store demo_config (demo_api_request m) s
    = (Inr (Some demo_live_session), s)"
  by (simp add: read_session_def recording_ref demo_live_store_def io_simps)
lemma demo_relay:
  "is_state_changing_method (req_method (demo_api_request m)) \<longrightarrow> csrf_token_matches (csrf_token demo_live_session)
     (h_get (req_headers (demo_api_request m)) csrf_header)"
  "pl_now recording_platform s < expires_at demo_live_session - expiry_skew_ms"
  "stripped_api_path (pathname (req_url (demo_api_request m))) = Some ''/items''"
  "upstream_target demo_config ''/items'' (search (req_url (demo_api_request m))) = Inr (Some ''http://api.test/items?q=1'')"
  "pl_fetch recording_platform q ms s = (Fetched demo_answer, s @ [q])" "resp_ok demo_answer" "h_norm (resp_headers demo_answer)"
  by (simp_all add: demo_live_session_def demo_session_def csrf_token_matches_def utf8_encode_def timing_safe_equal_def
      recording_platform_def demo_platform_def expiry_skew_ms_def demo_api_path demo_api_target resp_ok_def demo_answer_def
      h_norm_def to_lower_def lower_char_def header_value_def is_ws_def http_ws_def)

text \<open>An issuer that refuses every refresh.\<close>

definition refusing_oidc :: "('s, unit) oidc" where
  "refusing_oidc = demo_oidc\<lparr>client_lib := demo_client\<lparr>oc_refresh_token_grant := (\<lambda>c token. io_throw (new_error ''invalid_grant''))\<rparr>\<rparr>"

lemma discover_cong:
  assumes "oc_discovery (client_lib a) = oc_discovery (client_lib b)" "oc_server_metadata (client_lib a) = oc_server_metadata (client_lib b)"
    and "discovery_cache a = discovery_cache b"
  shows "discover a config = discover b config"
  unfolding discover_def assms ..

lemma refusing_discover: "discover refusing_oidc demo_config s = (Inr demo_doc, s)"
proof -
  have "discover (refusing_oidc :: ('a, unit) oidc) demo_config = discover demo_oidc demo_config"
    by (rule discover_cong) (simp_all add: refusing_oidc_def demo_oidc_def)
  then show ?thesis by (simp add: demo_oidc_discover)
qed

lemma refusing_grant: "io_bind (discover refusing_oidc demo_config) (\<lambda>doc. refresh_tokens refusing_oidc doc t) s
    = (Inl (new_error ''invalid_grant''), s)"
proof -
  have "refresh_tokens refusing_oidc demo_doc t s = (Inl (new_error ''invalid_grant''), s)"
    by (simp add: refresh_tokens_def demo_doc_def configured_def refusing_oidc_def io_throw_apply)
  then show ?thesis by (simp add: io_bind_def refusing_discover)
qed

theorem proxy_sends_only_authenticated_witness:
  "\<exists>r q path ref b s1 target rs.
      proxy_request recording_platform demo_oidc demo_config demo_live_store [] (demo_api_request ''POST'') ''i'' [] = (r, [q])
    \<and> stripped_api_path (pathname (req_url (demo_api_request ''POST''))) = Some path
    \<and> upstream_target demo_config path (search (req_url (demo_api_request ''POST''))) = Inr (Some target)
    \<and> read_session_ref recording_platform (demo_api_request ''POST'') demo_config = Some ref
    \<and> read_session recording_platform (demo_live_store :: (_, stored_session) session_store) demo_config
        (demo_api_request ''POST'') [] = (Inr (Some b), s1)
    \<and> (is_state_changing_method (req_method (demo_api_request ''POST'')) \<longrightarrow>
         csrf_token_matches (csrf_token b) (h_get (req_headers (demo_api_request ''POST'')) csrf_header))
    \<and> [q] = [] @ rs \<and> length rs \<le> 2
    \<and> (\<forall>q \<in> set rs. fetch_url q = target \<and> fetch_method q = to_upper (req_method (demo_api_request ''POST''))
         \<and> fetch_body q = forward_body (demo_api_request ''POST'')
         \<and> fst ` set (fetch_headers q) \<subseteq> insert ''authorization'' forward_header_names
         \<and> h_get (fetch_headers q) request_id_header = Some (header_value ''i''))"
proof -
  let ?q = "bearer_request (forward_of (demo_api_request ''POST'') [] ''i'' ''http://api.test/items?q=1'') demo_live_session"
  obtain r where r: "proxy_request recording_platform demo_oidc demo_config demo_live_store [] (demo_api_request ''POST'') ''i'' []
      = (r, [?q])"
    using live_session_answer [OF demo_relay(3) recording_ref demo_live_read demo_relay(1,2,4,5,6), of _ "[]"]
    by (metis append_Nil)
  show ?thesis
    using proxy_sends_only_authenticated [OF recording_quiet r, OF list.distinct(2)]
    by - (elim exE conjE, intro exI conjI, rule r, assumption+)
qed

theorem upstream_target_confined_witness:
  "\<exists>t u. upstream_target demo_config ''/items'' (search demo_incoming) = Inr (Some t) \<and> new_url t = Inr u
    \<and> protocol u = protocol demo_api_base \<and> host u = host demo_api_base \<and> pathname u = base_path_of demo_api_base @ ''/items''
    \<and> search u = search demo_incoming \<and> starts_with ''/items'' ''/'' \<and> ''..'' \<notin> set (split_char (CHR ''/'') ''/items'')"
proof (rule upstream_target_confined [OF _ demo_api_wf(3) demo_api_base])
  show "stripped_api_path (pathname demo_incoming) = Some ''/items''"
    using demo_api_path by (simp add: demo_incoming_def)
qed

lemma retry_wait_bounded_witness:
  "0 \<le> retry_after_ms (\<lambda>t. None) 0 demo_answer \<and> retry_after_ms (\<lambda>t. None) 0 demo_answer \<le> 5000
    \<and> retry_after_ms (\<lambda>t. None) 0 (demo_answer\<lparr>resp_headers := [(''retry-after'', nat_to_string 3)]\<rparr>) = min (1000 * int 3) 5000"
  by (rule retry_wait_bounded) (simp add: overflow_bound_def)

lemma every_answer_names_its_request_witness:
  "\<exists>r q. create_api_proxy recording_platform demo_oidc demo_config demo_live_store [] (demo_api_request ''POST'') [] = (Inr r, [q])
    \<and> h_get (resp_headers r) request_id_header
      = Some (header_value (resolve_request_id (fst (pl_uuid recording_platform [])) (req_headers (demo_api_request ''POST''))))"
proof -
  let ?req = "demo_api_request ''POST''"
  have i: "request_id_of recording_platform (req_headers ?req) []
      = (Inr (resolve_request_id (fst (pl_uuid recording_platform [])) (req_headers ?req)), [])"
    by (simp add: request_id_of_def recording_platform_def demo_platform_def resolve_request_id_def Let_def split: option.splits)
  obtain a q where "proxy_request recording_platform demo_oidc demo_config demo_live_store [] ?req
      (resolve_request_id (fst (pl_uuid recording_platform [])) (req_headers ?req)) [] = (Inr a, [q])"
    using live_session_answer [OF demo_relay(3) recording_ref demo_live_read demo_relay(1,2,4,5,6), of _ "[]"]
    by (metis append_Nil)
  then have "create_api_proxy recording_platform demo_oidc demo_config demo_live_store [] ?req []
      = (Inr (a\<lparr>resp_headers := h_set (resp_headers a) request_id_header
          (resolve_request_id (fst (pl_uuid recording_platform [])) (req_headers ?req))\<rparr>), [q])"
    by (simp add: create_api_proxy_def io_bind_def i io_return_apply)
  with every_answer_names_its_request [OF this] show ?thesis by blast
qed

text \<open>The demonstration session has expired, and its issuer refuses the refresh.\<close>

lemma demo_refused:
  fixes b :: bff_session and w :: memory_world
  assumes "refresh_token b = Some ''rt''" "expires_at b \<le> 100" "mem_healthy w" "mem_lookup w = mem_lookup demo_sessions"
  shows "\<exists>d w'. ensure_fresh_session demo_platform refusing_oidc demo_config
      (valkey_store demo_iron (\<lambda>n w. (replicate n 0, w)) demo_valkey) b demo_ref w
      = (Inl (refresh_failed_error d), w') \<and> mem_healthy w'"
proof (rule refused_refresh [OF demo_seal assms(3) _ _ assms(1)])
  show "ref_id demo_opens demo_ref = Some ''i1''"
    using json_parse_print [of "JStr ''i1''"] by (simp add: ref_id_def demo_opens_def demo_ref_def)
  show "mem_lookup w (lock_key demo_valkey ''i1'') = None"
    unfolding assms(4) by (simp add: mem_lookup_def demo_sessions_def lock_key_def demo_valkey_def)
  show "expires_at b - expiry_skew_ms \<le> pl_now demo_platform w" for w :: memory_world
    using assms(2) by (simp add: expiry_skew_ms_def demo_platform_def)
  show "\<exists>e w'. io_bind (discover refusing_oidc demo_config) (\<lambda>doc. refresh_tokens refusing_oidc doc ''rt'') w = (Inl e, w')
      \<and> mem_healthy w'" if "mem_healthy w" for w :: memory_world
    using that by - (intro exI conjI, rule refusing_grant)
qed simp

theorem stale_reader_ends_rotated_session_witness:
  "\<exists>r w'. keep_fresh demo_platform refusing_oidc demo_config (valkey_store demo_iron (\<lambda>n w. (replicate n 0, w)) demo_valkey)
      (demo_api_request ''POST'') ''i'' ((demo_session ''i1'')\<lparr>version := 0, refresh_token := Some ''rt0''\<rparr>) demo_ref demo_sessions
      = (Inr (Inl r), w')
    \<and> status r = 401 \<and> valkey_bound demo_valkey demo_opens mem_lookup w' demo_ref = None"
proof (rule stale_reader_ends_rotated_session [where k = "''i1''" and rotated = "demo_session ''i1''" and spent = "''rt0''", OF demo_seal _ demo_sessions_bound(1) _ _ demo_sessions_bound(2)])
  show "ref_id demo_opens demo_ref = Some ''i1''"
    using json_parse_print [of "JStr ''i1''"] by (simp add: ref_id_def demo_opens_def demo_ref_def)
  show "mem_lookup demo_sessions (lock_key demo_valkey ''i1'') = None"
    by (simp add: mem_lookup_def demo_sessions_def lock_key_def demo_valkey_def)
  show "\<exists>e w'. io_bind (discover refusing_oidc demo_config) (\<lambda>doc. refresh_tokens refusing_oidc doc ''rt0'') w = (Inl e, w')
      \<and> mem_healthy w'" if "mem_healthy w" for w :: memory_world
    using that by - (intro exI conjI, rule refusing_grant)
qed (simp_all add: demo_session_def expiry_skew_ms_def demo_platform_def)

theorem failed_refresh_ends_session_witness:
  "\<exists>r w3. proxy_request demo_platform refusing_oidc demo_config
        (valkey_store demo_iron (\<lambda>n w. (replicate n 0, w)) demo_valkey) [] (demo_api_request ''POST'') ''i'' demo_sessions = (Inr r, w3)
    \<and> status r = 401 \<and> valkey_bound demo_valkey demo_opens mem_lookup w3 demo_ref = None
    \<and> h_get_set_cookie (resp_headers r) = map (\<lambda>(n, x, a). header_value (pl_serialize_cookie (demo_platform :: memory_world platform) n x a))
         (clear_session_cookies demo_config (request_cookies (demo_platform :: memory_world platform) (demo_api_request ''POST'')))"
proof -
  let ?store = "valkey_store demo_iron (\<lambda>n w. (replicate n 0, w)) demo_valkey :: (memory_world, stored_session) session_store"
  note seal = memory_sealD [OF demo_seal]
  obtain w1 where w1: "valkey_read demo_iron demo_valkey demo_ref demo_sessions = (Inr (Some (demo_session ''i1'')), w1)"
      "mem_healthy w1" "mem_lookup w1 = mem_lookup demo_sessions"
    using memory.valkey_read_law [OF seal(1,2) demo_sessions_bound(1), of demo_ref] by (auto simp: demo_sessions_bound(2))
  then have read: "read_session demo_platform ?store demo_config (demo_api_request ''POST'') demo_sessions
      = (Inr (Some (demo_session ''i1'')), w1)"
    by (simp add: read_session_def demo_api_ref valkey_store_def)
  have live: "refresh_token (demo_session ''i1'') = Some ''rt''" "expires_at (demo_session ''i1'') \<le> 100"
    "is_state_changing_method (req_method (demo_api_request ''POST'')) \<longrightarrow> csrf_token_matches (csrf_token (demo_session ''i1''))
      (h_get (req_headers (demo_api_request ''POST'')) csrf_header)"
    using demo_relay(1) [of "''POST''"] by (simp_all add: demo_session_def demo_live_session_def)
  obtain d w2 where w2: "ensure_fresh_session demo_platform refusing_oidc demo_config ?store (demo_session ''i1'') demo_ref w1
      = (Inl (refresh_failed_error d), w2)" "mem_healthy w2"
    using demo_refused [OF live(1,2) w1(2,3)] by (elim exE conjE)
  show ?thesis
    by (rule failed_refresh_ends_session [OF demo_seal _ demo_relay(3) demo_api_ref read live(3) disjI1 [OF w2(1)] w2(2)])
      (simp add: demo_platform_def)
qed

theorem live_session_is_relayed_witness:
  "\<exists>a. proxy_request recording_platform demo_oidc demo_config demo_live_store [] (demo_api_request ''POST'') ''i'' []
      = (Inr a, [bearer_request (forward_of (demo_api_request ''POST'') [] ''i'' ''http://api.test/items?q=1'') demo_live_session])
    \<and> status a = status demo_answer \<and> resp_body a = resp_body demo_answer
    \<and> h_get_set_cookie (resp_headers a) = h_get_set_cookie (resp_headers demo_answer)
    \<and> (\<forall>n. to_lower n \<noteq> ''set-cookie'' \<longrightarrow> h_get (resp_headers a) n
         = (if to_lower n \<in> set hop_by_hop_headers then None else map_option header_value (h_get (resp_headers demo_answer) n)))"
  using live_session_is_relayed [where s = "[]" and i = "''i''" and trusted = "[]" and oidc = demo_oidc,
      OF demo_relay(3) [of "''POST''"] recording_ref demo_live_read demo_relay(1,2,4,5,6,7)]
  by (simp only: append_Nil)

end
