(* ===== verification/Backchannel.thy ===== *)
theory Backchannel
  imports Handlers
begin

section \<open>Back-channel logout (\<open>sdk/src/server/backchannel-logout.ts\<close>)\<close>

text \<open>
  The endpoint the issuer calls when a single sign-on session ends. The \<open>jose\<close> library is a record
  of operations: the key set behind a URL and the verification of a token under the options the
  source passes; what is checked on top of it, and what follows, is the model.
\<close>

record verify_options =
  jv_issuer :: "string list"
  jv_audience :: string
  jv_algorithms :: "string list"
  jv_clock_tolerance :: int
  jv_required_claims :: "string list"

record verified_token =
  vt_payload :: user_claims
  vt_typ :: "json option"

record ('s, 'k) jose =
  create_remote_jwk_set :: "full_url \<Rightarrow> 'k"
  jwt_verify :: "string \<Rightarrow> 'k \<Rightarrow> verify_options \<Rightarrow> ('s, verified_token) io"
  jwks_cache :: "('s, (string \<times> 'k) list) cell"

definition logout_event :: string where
  "logout_event = ''http://schemas.openid.net/event/backchannel-logout''"

definition logout_token_types :: "string list" where
  "logout_token_types = [''logout+jwt'', ''application/logout+jwt'']"

definition allowed_algorithms :: "string list" where
  "allowed_algorithms =
     [''RS256'', ''RS384'', ''RS512'', ''PS256'', ''PS384'', ''PS512'', ''ES256'', ''ES384'', ''ES512'', ''EdDSA'']"

definition clock_tolerance_seconds :: int where "clock_tolerance_seconds = 30"
definition backchannel_method :: string where "backchannel_method = ''POST''"

definition no_store_headers :: "(string \<times> string) list" where
  "no_store_headers = [(''cache-control'', ''no-store'')]"

definition jwks_for :: "('s, 'k) jose \<Rightarrow> string \<Rightarrow> ('s, 'k) io" where
  "jwks_for jose uri =
     io_bind (io_gets (cell_get (jwks_cache jose))) (\<lambda>cache.
     case obj_get cache uri of
       Some jwks \<Rightarrow> io_return jwks
     | None \<Rightarrow>
         io_bind (io_of (new_url uri)) (\<lambda>url.
         (let jwks = create_remote_jwk_set jose url in
          io_bind (io_modify (\<lambda>s. cell_put (jwks_cache jose) (obj_set (cell_get (jwks_cache jose) s) uri jwks) s)) (\<lambda>_.
          io_return jwks))))"

definition issuer_forms :: "string \<Rightarrow> string list" where
  "issuer_forms iss = (let base = strip_trailing (CHR ''/'') iss in [base, base @ ''/''])"

definition invalid_request :: response where
  "invalid_request = json_response 400 (JObj [(''error'', JStr ''invalid_request'')]) (h_of no_store_headers)"

definition logout_verify_options :: "bff_config \<Rightarrow> verify_options" where
  "logout_verify_options config =
     \<lparr>jv_issuer = issuer_forms (issuer config), jv_audience = client_id config, jv_algorithms = allowed_algorithms,
      jv_clock_tolerance = clock_tolerance_seconds, jv_required_claims = [''iat'', ''exp'', ''jti'', ''events'']\<rparr>"

text \<open>\<open>typeof value === "object" && value !== null\<close>\<close>

fun is_object :: "json \<Rightarrow> bool" where
  "is_object (JObj _) = True"
| "is_object (JArr _) = True"
| "is_object _ = False"

text \<open>The hand checks on a token the library has verified.\<close>

definition checked_payload :: "verified_token \<Rightarrow> user_claims option" where
  "checked_payload result =
     (let payload = vt_payload result in
      if (case vt_typ result of None \<Rightarrow> False | Some t \<Rightarrow> t \<notin> set (map JStr logout_token_types)) then None
      else
        (case obj_get payload ''events'' of
           None \<Rightarrow> None
         | Some events \<Rightarrow>
             if \<not> is_object events then None
             else if (case j_get events logout_event of None \<Rightarrow> True | Some v \<Rightarrow> \<not> is_object v) then None
             else if obj_get payload ''nonce'' \<noteq> None then None
             else if j_string (JObj payload) ''sid'' = None \<and> j_string (JObj payload) ''sub'' = None then None
             else Some payload))"

definition verify_logout_token :: "('s, 'k) jose \<Rightarrow> string \<Rightarrow> string \<Rightarrow> bff_config \<Rightarrow> ('s, user_claims option) io" where
  "verify_logout_token jose token uri config =
     io_catch
       (io_bind (jwks_for jose uri) (\<lambda>jwks.
        io_bind (jwt_verify jose token jwks (logout_verify_options config)) (\<lambda>result.
        io_return (checked_payload result))))
       (\<lambda>_. io_return None)"

definition revoke_sessions :: "('s, 't) session_store \<Rightarrow> user_claims \<Rightarrow> ('s, bff_session list) io" where
  "revoke_sessions store payload =
     (case (j_string (JObj payload) ''sid'', st_revoke_by_sid store) of
        (Some x, Some revoke) \<Rightarrow> revoke x
      | _ \<Rightarrow>
          (case (j_string (JObj payload) ''sub'', st_revoke_by_subject store) of
             (Some x, Some revoke) \<Rightarrow> revoke x
           | _ \<Rightarrow> io_return []))"

text \<open>One order of the requests \<open>Promise.all\<close> starts together; each swallows its own failure.\<close>

definition revoke_upstream_tokens :: "('s, 'c) oidc \<Rightarrow> 'c discovery_doc \<Rightarrow> bff_session list \<Rightarrow> ('s, unit) io" where
  "revoke_upstream_tokens oidc doc revoked =
     (case configuration doc of
        None \<Rightarrow> io_return ()
      | Some c \<Rightarrow>
          io_bind (io_map_list (\<lambda>session.
            case refresh_token session of
              None \<Rightarrow> io_return ()
            | Some token \<Rightarrow>
                io_catch (oc_token_revocation (client_lib oidc) c token [(''token_type_hint'', ''refresh_token'')])
                  (\<lambda>_. io_return ())) revoked) (\<lambda>_. io_return ()))"

definition backchannel_logout ::
    "'s platform \<Rightarrow> ('s, 'c) oidc \<Rightarrow> ('s, 'k) jose \<Rightarrow> ('s, 't) session_store \<Rightarrow> bff_config \<Rightarrow> request \<Rightarrow> ('s, response) io" where
  "backchannel_logout pl oidc jose store config req =
     (if to_upper (req_method req) \<noteq> backchannel_method then
        answer_problem pl (req_headers req) 405 http_method_not_allowed None
          (h_of (no_store_headers @ [(''allow'', backchannel_method)]))
      else
        (let token = map_of (form_parse (req_body req)) ''logout_token'' in
         if token = None \<or> token = Some '''' then io_return invalid_request
         else
           io_bind (discover oidc config) (\<lambda>doc.
           if jwks_uri doc = None \<or> jwks_uri doc = Some '''' then io_return invalid_request
           else
             io_bind (verify_logout_token jose (the token) (the (jwks_uri doc)) config) (\<lambda>payload.
             case payload of
               None \<Rightarrow> io_return invalid_request
             | Some claims \<Rightarrow>
                 io_bind (revoke_sessions store claims) (\<lambda>revoked.
                 io_bind (revoke_upstream_tokens oidc doc revoked) (\<lambda>_.
                 io_return (new_response 200 None (h_of no_store_headers))))))))"

subsection \<open>Lemmas\<close>

text \<open>What a verified token must say to be a logout token (Back-Channel Logout 1.0, 2.4 and 2.6).\<close>

definition is_logout_token :: "verified_token \<Rightarrow> bool" where
  "is_logout_token result \<longleftrightarrow>
     (vt_typ result = None \<or> (\<exists>t \<in> set logout_token_types. vt_typ result = Some (JStr t)))
   \<and> (\<exists>events event. obj_get (vt_payload result) ''events'' = Some (JObj events)
        \<and> obj_get events logout_event = Some event \<and> is_object event)
   \<and> obj_get (vt_payload result) ''nonce'' = None
   \<and> (\<exists>x. obj_get (vt_payload result) ''sid'' = Some (JStr x) \<or> obj_get (vt_payload result) ''sub'' = Some (JStr x))"

lemma j_string_member: "j_string (JObj ob) k = Some x \<longleftrightarrow> obj_get ob k = Some (JStr x)"
  by (auto simp: j_string_def elim: as_string.elims split: option.splits)

lemma j_string_none: "j_string (JObj ob) k = None \<longleftrightarrow> (\<forall>x. obj_get ob k \<noteq> Some (JStr x))"
  by (metis j_string_member not_None_eq)

lemma checked_payload_iff:
  "checked_payload result = (if is_logout_token result then Some (vt_payload result) else None)"
proof -
  have member: "j_get events k = Some v \<longleftrightarrow> (\<exists>ob. events = JObj ob \<and> obj_get ob k = Some v)" for events k v
    by (cases events) auto
  have "checked_payload result = Some (vt_payload result) \<longleftrightarrow> is_logout_token result"
    by (auto simp: checked_payload_def is_logout_token_def Let_def member j_string_none split: option.splits)
  moreover have "checked_payload result \<in> {None, Some (vt_payload result)}"
    by (auto simp: checked_payload_def Let_def split: option.splits)
  ultimately show ?thesis by auto
qed

text \<open>
  \<open>sessions\<close> reads what the store keeps: discovery, the key set cache, the verification and drawing
  a request id leave it alone.
\<close>

definition aside_world ::
    "('s \<Rightarrow> 'x) \<Rightarrow> 's platform \<Rightarrow> ('s, 'c) oidc \<Rightarrow> ('s, 'k) jose \<Rightarrow> bff_config \<Rightarrow> bool" where
  "aside_world sessions pl oidc jose config \<longleftrightarrow>
     quiet sessions (discover oidc config) \<and> (\<forall>t k opts. quiet sessions (jwt_verify jose t k opts))
   \<and> (\<forall>c s. sessions (cell_put (jwks_cache jose) c s) = sessions s) \<and> (\<forall>s. sessions (snd (pl_uuid pl s)) = sessions s)"

lemma verify_logout_token_cases:
  assumes "verify_logout_token jose token uri config s = (Inr (Some claims), s')"
  shows "\<exists>jwks result s1. jwks_for jose uri s = (Inr jwks, s1)
    \<and> jwt_verify jose token jwks (logout_verify_options config) s1 = (Inr result, s')
    \<and> is_logout_token result \<and> claims = vt_payload result"
  using assms by (auto simp: verify_logout_token_def io_catch_eq_Inr io_bind_eq_Inr io_return_def checked_payload_iff
      split: if_splits)

lemma verify_logout_token_quiet:
  assumes "aside_world sessions pl oidc jose config"
  shows "quiet sessions (verify_logout_token jose token uri config)"
proof -
  note world = assms [unfolded aside_world_def]
  have "quiet sessions (jwks_for jose uri)"
    unfolding jwks_for_def Let_def by (intro quiet_intros) (auto split: option.split intro!: quiet_intros quiet_modify simp: world)
  then show ?thesis
    unfolding verify_logout_token_def using world by (auto intro!: quiet_intros)
qed

text \<open>
  C36: Only a verified logout token acts on sessions. If a call of the back-channel endpoint has
  changed what the store keeps, it was a POST whose \<open>logout_token\<close> the \<open>jose\<close> library verified
  against the issuer's keys, the issuer and the client id, under an asymmetric algorithm, and the
  token is a logout token: typed as one or untyped, carrying the logout event, without a nonce,
  naming a session or a subject.
\<close>

theorem only_logout_tokens_act:
  assumes "aside_world sessions pl oidc jose config"
    and "backchannel_logout pl oidc jose store config req s = (r, s')" "sessions s' \<noteq> sessions s"
  shows "\<exists>token doc uri jwks result s1 s2 s3.
      to_upper (req_method req) = ''POST'' \<and> map_of (form_parse (req_body req)) ''logout_token'' = Some token
    \<and> discover oidc config s = (Inr doc, s1) \<and> jwks_uri doc = Some uri \<and> jwks_for jose uri s1 = (Inr jwks, s2)
    \<and> jwt_verify jose token jwks (logout_verify_options config) s2 = (Inr result, s3) \<and> is_logout_token result
    \<and> set (jv_algorithms (logout_verify_options config)) \<inter> {''HS256'', ''HS384'', ''HS512'', ''none''} = {}"
proof -
  note world = assms(1) [unfolded aside_world_def]
  have post: "to_upper (req_method req) = ''POST''"
  proof (rule ccontr)
    assume "to_upper (req_method req) \<noteq> ''POST''"
    then have "backchannel_logout pl oidc jose store config req s = answer_problem pl (req_headers req) 405
        http_method_not_allowed None (h_of (no_store_headers @ [(''allow'', backchannel_method)])) s"
      by (simp add: backchannel_logout_def backchannel_method_def)
    with answer_problem_result [of pl "req_headers req" 405 http_method_not_allowed None _ s] assms(2) world
    have "sessions s' = sessions s" by (metis insertE prod.inject singletonD)
    with assms(3) show False ..
  qed
  obtain token where token: "map_of (form_parse (req_body req)) ''logout_token'' = Some token" "token \<noteq> ''''"
    using assms(2,3) post by (auto simp: backchannel_logout_def backchannel_method_def io_return_def Let_def split: if_splits)
  obtain d s1 where d: "discover oidc config s = (d, s1)" by fastforce
  have s1: "sessions s1 = sessions s" using world d by (blast dest: quietD)
  obtain doc where doc: "d = Inr doc"
    using assms(2,3) post token d s1 by (cases d) (auto simp: backchannel_logout_def backchannel_method_def io_bind_def)
  obtain uri where uri: "jwks_uri doc = Some uri" "uri \<noteq> ''''"
    using assms(2,3) post token d s1 doc
    by (auto simp: backchannel_logout_def backchannel_method_def io_bind_def io_return_def split: if_splits)
  obtain v s3 where v: "verify_logout_token jose token uri config s1 = (v, s3)" by fastforce
  have s3: "sessions s3 = sessions s" using quietD [OF verify_logout_token_quiet [OF assms(1)] v] s1 by simp
  obtain claims where "v = Inr (Some claims)"
    using assms(2,3) post token d doc uri v s3
    by (cases v) (auto simp: backchannel_logout_def backchannel_method_def io_bind_def io_return_def split: option.splits)
  with verify_logout_token_cases [of jose token uri config s1 claims s3] v obtain jwks result s2 where
    "jwks_for jose uri s1 = (Inr jwks, s2)" "jwt_verify jose token jwks (logout_verify_options config) s2 = (Inr result, s3)"
    "is_logout_token result" by blast
  moreover have "set (jv_algorithms (logout_verify_options config)) \<inter> {''HS256'', ''HS384'', ''HS512'', ''none''} = {}"
    by (simp add: logout_verify_options_def allowed_algorithms_def)
  ultimately show ?thesis using post token(1) d [unfolded doc] uri(1) by - (intro exI conjI; assumption)
qed

context redis_like
begin

lemma revoke_by_sid_law:
  assumes "client v = redis" "healthy s"
  shows "\<exists>gone s'. revoke_by_sid v x s = (Inr gone, s') \<and> healthy s'
    \<and> (\<forall>j. live_session v (lookup s') j = (if lookup s (sid_key v x) = Some j then None else live_session v (lookup s) j))"
proof -
  obtain s1 where s1: "rl_get redis (sid_key v x) s = (Inr (lookup s (sid_key v x)), s1)" "healthy s1" "lookup s1 = lookup s"
    using get [OF assms(2)] by blast
  show ?thesis
  proof (cases "lookup s (sid_key v x)")
    case None
    with s1 assms(1) show ?thesis by (simp add: revoke_by_sid_def io_simps)
  next
    case (Some i)
    obtain r s2 where d: "destroy_record v i s1 = (r, s2)" by fastforce
    note law = destroy_record_live [OF assms(1) s1(2) d]
    obtain n s3 where s3: "rl_del redis (sid_key v x) s2 = (Inr n, s3)" "healthy s3"
        "lookup s3 = (lookup s2)(sid_key v x := None)"
      using del [OF law(2)] by blast
    have "revoke_by_sid v x s = (Inr (case live_session v (lookup s1) i of None \<Rightarrow> [] | Some b \<Rightarrow> [b]), s3)"
      using Some s1(1) s3(1) d law(1) assms(1) by (simp add: revoke_by_sid_def io_simps)
    then show ?thesis using Some s1(3) s3 law(3) by auto
  qed
qed

end

lemma revoke_upstream_tokens_result:
  assumes "\<And>c t params. quiet observed (oc_token_revocation (client_lib oidc) c t params)"
  shows "\<exists>s'. revoke_upstream_tokens oidc doc revoked s = (Inr (), s') \<and> observed s' = observed s"
proof (cases "configuration doc")
  case (Some c)
  let ?step = "\<lambda>b. case refresh_token b of None \<Rightarrow> io_return () | Some token \<Rightarrow>
      io_catch (oc_token_revocation (client_lib oidc) c token [(''token_type_hint'', ''refresh_token'')]) (\<lambda>_. io_return ())"
  have step: "\<exists>s'. ?step b s = (Inr (), s') \<and> observed s' = observed s" for b s
  proof (cases "refresh_token b")
    case (Some token)
    obtain r s' where "oc_token_revocation (client_lib oidc) c token [(''token_type_hint'', ''refresh_token'')] s = (r, s')"
      by fastforce
    with Some quietD [OF assms this] show ?thesis by (cases r) (simp_all add: io_catch_def io_return_def)
  qed (simp add: io_return_def)
  have "\<exists>us s'. io_map_list ?step bs s = (Inr us, s') \<and> observed s' = observed s" for bs s
  proof (induction bs arbitrary: s)
    case (Cons b bs)
    obtain s1 where s1: "?step b s = (Inr (), s1)" "observed s1 = observed s" using step by blast
    with Cons.IH [of s1] show ?case by (auto simp: io_bind_def io_return_def)
  qed (simp add: io_return_def)
  then obtain us s' where "io_map_list ?step revoked s = (Inr us, s')" "observed s' = observed s" by blast
  then have "io_bind (io_map_list ?step revoked) (\<lambda>_. io_return ()) s = (Inr (), s')"
    by (simp add: io_bind_def io_return_def)
  then show ?thesis using Some \<open>observed s' = observed s\<close> by (simp add: revoke_upstream_tokens_def)
qed (simp add: revoke_upstream_tokens_def io_return_def)

lemma revoke_sessions_law:
  assumes "memory_seal iron v opens" "mem_healthy w1" "indexed v (mem_lookup w1) (mem_members w1)"
  shows "\<exists>gone w2. revoke_sessions (valkey_store iron random v) claims w1 = (Inr gone, w2)
    \<and> (\<forall>i b. live_session v (mem_lookup w2) i = Some b \<longrightarrow> live_session v (mem_lookup w1) i = Some b
        \<and> (case j_string (JObj claims) ''sid'' of Some x \<Rightarrow> mem_lookup w1 (sid_key v x) \<noteq> Some i
           | None \<Rightarrow> j_string (JObj claims) ''sub'' \<noteq> Some (user_sub (user b))))
    \<and> (\<forall>i b. live_session v (mem_lookup w1) i = Some b \<and> (case j_string (JObj claims) ''sid'' of
          Some x \<Rightarrow> mem_lookup w1 (sid_key v x) \<noteq> Some i
        | None \<Rightarrow> \<forall>sub. j_string (JObj claims) ''sub'' = Some sub \<longrightarrow> i \<notin> mem_members w1 (subject_key v sub))
        \<longrightarrow> live_session v (mem_lookup w2) i = Some b)"
proof (cases "j_string (JObj claims) ''sid''")
  case (Some x)
  obtain gone w2 where "revoke_by_sid v x w1 = (Inr gone, w2)"
    "\<forall>j. live_session v (mem_lookup w2) j = (if mem_lookup w1 (sid_key v x) = Some j then None else live_session v (mem_lookup w1) j)"
    using memory.revoke_by_sid_law [OF memory_sealD(2) [OF assms(1)] assms(2), of x] by (elim exE conjE)
  then show ?thesis using Some by (simp add: revoke_sessions_def valkey_store_def)
next
  case None
  show ?thesis
  proof (cases "j_string (JObj claims) ''sub''")
    case (Some sub)
    obtain gone w2 where w2: "revoke_by_subject v sub w1 = (Inr gone, w2)"
      "\<forall>i b. live_session v (mem_lookup w2) i = Some b \<longrightarrow> user_sub (user b) \<noteq> sub"
      "\<forall>i. i \<notin> mem_members w1 (subject_key v sub) \<longrightarrow> live_session v (mem_lookup w2) i = live_session v (mem_lookup w1) i"
      "\<forall>i \<in> mem_members w1 (subject_key v sub). live_session v (mem_lookup w2) i = None"
      using memory.revoke_by_subject_law [OF memory_sealD(2) [OF assms(1)] assms(2,3), of sub] by (elim exE conjE)
    have "revoke_sessions (valkey_store iron random v) claims w1 = (Inr gone, w2)"
      using None Some w2(1) by (simp add: revoke_sessions_def valkey_store_def)
    moreover have "live_session v (mem_lookup w1) i = Some b" if "live_session v (mem_lookup w2) i = Some b" for i b
      using w2(3,4) that by (cases "i \<in> mem_members w1 (subject_key v sub)") auto
    ultimately show ?thesis using None Some w2(2,3) by (intro exI conjI) (assumption, auto)
  qed (use None in \<open>simp add: revoke_sessions_def valkey_store_def io_return_def\<close>)
qed

text \<open>
  C37: A logout token ends the sessions it names. On the Redis-backed store, a token the endpoint
  accepts is answered 200 and leaves no live session behind: not the one indexed under its \<open>sid\<close>
  or, when it carries none, no session of its \<open>sub\<close>; every session it does not name stays, and no
  failure of the issuer's revocation endpoint changes any of it.
\<close>

theorem logout_token_ends_sessions:
  assumes "memory_seal iron v opens" "mem_healthy w1" "indexed v (mem_lookup w1) (mem_members w1)"
    and "to_upper (req_method req) = ''POST''" "map_of (form_parse (req_body req)) ''logout_token'' = Some token" "token \<noteq> ''''"
    and "discover oidc config w = (Inr doc, w0)" "jwks_uri doc = Some uri" "uri \<noteq> ''''"
    and "verify_logout_token jose token uri config w0 = (Inr (Some claims), w1)"
    and "\<And>c t params. quiet mem_lookup (oc_token_revocation (client_lib oidc) c t params)"
  shows "\<exists>r w2. backchannel_logout pl oidc jose (valkey_store iron random v :: (_, 't) session_store) config req w = (Inr r, w2) \<and> status r = 200
    \<and> (\<forall>i b. live_session v (mem_lookup w2) i = Some b \<longrightarrow> live_session v (mem_lookup w1) i = Some b
        \<and> (case j_string (JObj claims) ''sid'' of Some x \<Rightarrow> mem_lookup w1 (sid_key v x) \<noteq> Some i
           | None \<Rightarrow> j_string (JObj claims) ''sub'' \<noteq> Some (user_sub (user b))))
    \<and> (\<forall>i b. live_session v (mem_lookup w1) i = Some b \<and> (case j_string (JObj claims) ''sid'' of
          Some x \<Rightarrow> mem_lookup w1 (sid_key v x) \<noteq> Some i
        | None \<Rightarrow> \<forall>sub. j_string (JObj claims) ''sub'' = Some sub \<longrightarrow> i \<notin> mem_members w1 (subject_key v sub))
        \<longrightarrow> live_session v (mem_lookup w2) i = Some b)"
proof -
  let ?store = "valkey_store iron random v :: (_, 't) session_store"
  note seal = memory_sealD [OF assms(1)]
  obtain gone w2 where w2: "revoke_sessions ?store claims w1 = (Inr gone, w2)"
    and ends: "\<forall>i b. live_session v (mem_lookup w2) i = Some b \<longrightarrow> live_session v (mem_lookup w1) i = Some b
        \<and> (case j_string (JObj claims) ''sid'' of Some x \<Rightarrow> mem_lookup w1 (sid_key v x) \<noteq> Some i
           | None \<Rightarrow> j_string (JObj claims) ''sub'' \<noteq> Some (user_sub (user b)))"
    and keeps: "\<forall>i b. live_session v (mem_lookup w1) i = Some b \<and> (case j_string (JObj claims) ''sid'' of
          Some x \<Rightarrow> mem_lookup w1 (sid_key v x) \<noteq> Some i
        | None \<Rightarrow> \<forall>sub. j_string (JObj claims) ''sub'' = Some sub \<longrightarrow> i \<notin> mem_members w1 (subject_key v sub))
        \<longrightarrow> live_session v (mem_lookup w2) i = Some b"
    using revoke_sessions_law [OF assms(1-3), of random claims] by (elim exE conjE)
  obtain w3 where w3: "revoke_upstream_tokens oidc doc gone w2 = (Inr (), w3)" "mem_lookup w3 = mem_lookup w2"
    using revoke_upstream_tokens_result [OF assms(11)] by blast
  have "backchannel_logout pl oidc jose ?store config req w = (Inr (new_response 200 None (h_of no_store_headers)), w3)"
    using assms(4-10) w2 w3(1)
    by (simp add: backchannel_logout_def backchannel_method_def io_bind_def io_return_def)
  from this ends keeps show ?thesis
    unfolding w3(2) [symmetric] by - (intro exI conjI, assumption, simp, assumption, assumption)
qed

text \<open>A library that has the issuer's keys and accepts one token.\<close>

definition demo_claims :: user_claims where
  "demo_claims = [(''sub'', JStr ''u1''), (''events'', JObj [(logout_event, JObj [])])]"

definition demo_jose :: "('s, unit) jose" where
  "demo_jose =
     \<lparr>create_remote_jwk_set = (\<lambda>url. ()),
      jwt_verify = (\<lambda>t k opts. if t = ''ok'' then io_return \<lparr>vt_payload = demo_claims, vt_typ = Some (JStr ''logout+jwt'')\<rparr>
        else io_throw (new_error ''JWSSignatureVerificationFailed'')),
      jwks_cache = \<lparr>cell_get = (\<lambda>s. [(''j'', ())]), cell_put = (\<lambda>a s. s)\<rparr>\<rparr>"

definition demo_logout_request :: request where
  "demo_logout_request = (demo_request ''POST'' [] [])\<lparr>req_body := ''logout_token=ok''\<rparr>"

lemma demo_logout_token:
  "to_upper (req_method demo_logout_request) = ''POST''"
  "map_of (form_parse (req_body demo_logout_request)) ''logout_token'' = Some ''ok''"
  by (simp add: demo_logout_request_def demo_request_def to_upper_def upper_char_def) code_simp

lemma demo_claim_names: "j_string (JObj demo_claims) ''sid'' = None" "j_string (JObj demo_claims) ''sub'' = Some ''u1''"
  by (simp_all add: demo_claims_def j_string_def)

lemma demo_verified: "verify_logout_token demo_jose ''ok'' ''j'' demo_config s = (Inr (Some demo_claims), s)"
proof -
  have "is_logout_token \<lparr>vt_payload = demo_claims, vt_typ = Some (JStr ''logout+jwt'')\<rparr>"
    by (simp add: is_logout_token_def demo_claims_def logout_token_types_def)
  then show ?thesis
    by (simp add: verify_logout_token_def jwks_for_def demo_jose_def io_simps checked_payload_iff)
qed

text \<open>A store that counts its revocations.\<close>

definition counting_store :: "(nat, unit) session_store" where
  "counting_store =
     \<lparr>st_read = (\<lambda>ref. io_return None), st_write = (\<lambda>b. io_return ''''), st_destroy = (\<lambda>ref. io_return ()),
      st_with_refresh_lock = (\<lambda>ref fn. io_return None), st_revoke_by_sid = None,
      st_revoke_by_subject = Some (\<lambda>sub n. (Inr [], n + 1)), st_claim_namespace = None\<rparr>"

lemma demo_counted: "backchannel_logout demo_platform demo_oidc demo_jose counting_store demo_config demo_logout_request 0
    = (Inr (new_response 200 None (h_of no_store_headers)), 1)"
proof -
  have "revoke_sessions counting_store demo_claims 0 = (Inr [], 1)"
    unfolding revoke_sessions_def demo_claim_names option.case by (simp add: counting_store_def)
  moreover have "revoke_upstream_tokens demo_oidc demo_doc [] n = (Inr (), n)" for n :: nat
    by (simp add: revoke_upstream_tokens_def demo_doc_def io_return_apply)
  moreover have "jwks_uri demo_doc = Some ''j''" by (simp add: demo_doc_def)
  ultimately show ?thesis
    unfolding backchannel_logout_def
    by (simp add: demo_logout_token backchannel_method_def io_bind_def demo_oidc_discover demo_verified io_return_def)
qed

theorem only_logout_tokens_act_witness:
  "\<exists>token doc uri jwks result s1 s2 s3.
      to_upper (req_method demo_logout_request) = ''POST''
    \<and> map_of (form_parse (req_body demo_logout_request)) ''logout_token'' = Some token
    \<and> discover (demo_oidc :: (nat, unit) oidc) demo_config 0 = (Inr doc, s1) \<and> jwks_uri doc = Some uri
    \<and> jwks_for (demo_jose :: (nat, unit) jose) uri s1 = (Inr jwks, s2)
    \<and> jwt_verify demo_jose token jwks (logout_verify_options demo_config) s2 = (Inr result, s3) \<and> is_logout_token result
    \<and> set (jv_algorithms (logout_verify_options demo_config)) \<inter> {''HS256'', ''HS384'', ''HS512'', ''none''} = {}"
proof (rule only_logout_tokens_act [where sessions = "\<lambda>n. n", OF _ demo_counted])
  have "quiet (\<lambda>n :: nat. n) (discover demo_oidc demo_config)"
    by (simp add: quiet_def io_inv_def demo_oidc_discover)
  then show "aside_world (\<lambda>n. n) demo_platform (demo_oidc :: (nat, unit) oidc) demo_jose demo_config"
    by (simp add: aside_world_def demo_jose_def demo_platform_def quiet_intros)
qed simp

definition demo_indexed :: memory_world where
  "demo_indexed = demo_sessions\<lparr>sets := [(''w:sub:u1'', \<lparr>se_members = [''i1''], se_expires_at = None\<rparr>)]\<rparr>"

lemma demo_indexed_ok: "mem_healthy demo_indexed" "indexed demo_valkey (mem_lookup demo_indexed) (mem_members demo_indexed)"
proof -
  show "mem_healthy demo_indexed"
    by (simp add: mem_healthy_def demo_indexed_def demo_sessions_def obj_wf_def)
  have "i = ''i1'' \<and> b = demo_session ''i1''" if "live_session demo_valkey (mem_lookup demo_indexed) i = Some b" for i b
  proof -
    have "parse_record (json_print (session_to_json (demo_session ''i1''))) = Some (demo_session ''i1'')"
      by (rule parse_record_print) (simp add: session_ok_def demo_session_def obj_wf_def)
    with that show ?thesis
      by (auto simp: live_session_def mem_lookup_def demo_indexed_def demo_sessions_def session_key_def demo_valkey_def expired_def
          simp del: json_print.simps split: if_splits)
  qed
  then show "indexed demo_valkey (mem_lookup demo_indexed) (mem_members demo_indexed)"
    by (fastforce simp: indexed_def mem_members_def demo_indexed_def subject_key_def demo_valkey_def demo_session_def
        user_sub_def expired_def)
qed

theorem logout_token_ends_sessions_witness:
  "\<exists>r w2. backchannel_logout demo_platform demo_oidc demo_jose
      (valkey_store demo_iron (\<lambda>n w. (replicate n 0, w)) demo_valkey :: (memory_world, unit) session_store) demo_config
      demo_logout_request demo_indexed = (Inr r, w2) \<and> status r = 200
    \<and> (\<forall>i b. live_session demo_valkey (mem_lookup w2) i = Some b \<longrightarrow> live_session demo_valkey (mem_lookup demo_indexed) i = Some b
        \<and> (case j_string (JObj demo_claims) ''sid'' of Some x \<Rightarrow> mem_lookup demo_indexed (sid_key demo_valkey x) \<noteq> Some i
           | None \<Rightarrow> j_string (JObj demo_claims) ''sub'' \<noteq> Some (user_sub (user b))))
    \<and> (\<forall>i b. live_session demo_valkey (mem_lookup demo_indexed) i = Some b \<and> (case j_string (JObj demo_claims) ''sid'' of
          Some x \<Rightarrow> mem_lookup demo_indexed (sid_key demo_valkey x) \<noteq> Some i
        | None \<Rightarrow> \<forall>sub. j_string (JObj demo_claims) ''sub'' = Some sub \<longrightarrow> i \<notin> mem_members demo_indexed (subject_key demo_valkey sub))
        \<longrightarrow> live_session demo_valkey (mem_lookup w2) i = Some b)"
proof (rule logout_token_ends_sessions [OF demo_seal demo_indexed_ok demo_logout_token _ demo_oidc_discover _ _ demo_verified])
  show "quiet mem_lookup (oc_token_revocation (client_lib (demo_oidc :: (memory_world, unit) oidc)) c t params)" for c t params
    by (simp add: demo_oidc_def demo_client_def quiet_intros)
qed (simp_all add: demo_doc_def)

end
