(* ===== verification/Passthrough.thy ===== *)
theory Passthrough
  imports Oidc
begin

section \<open>The session-free proxy (\<open>sdk/src/server/passthrough.ts\<close>)\<close>

text \<open>
  The reverse proxy of the login application: an allowlist of path prefixes in front of the API,
  with the caller's own headers relayed and no session of its own.
\<close>

definition default_api_internal_url :: string where
  "default_api_internal_url = ''http://localhost:5001''"

definition default_passthrough_prefixes :: "string list" where
  "default_passthrough_prefixes = [''/v1/**'', ''/connect/**'', ''/.well-known/**'']"

record passthrough_options =
  pt_api_internal_url :: "string option"
  pt_prefixes :: "string list option"
  pt_forward_client_ip :: "bool option"
  pt_trusted_proxies :: "string option"
  pt_env :: env

record passthrough =
  px_api_internal_url :: string
  px_prefixes :: "string list"
  px_normalized :: "string list"
  px_forward_client_ip :: bool
  px_trusted :: trusted_proxies

definition resolve_api_internal_url :: "passthrough_options \<Rightarrow> string" where
  "resolve_api_internal_url opts =
     (case pt_api_internal_url opts of
        Some url \<Rightarrow> if url \<noteq> '''' then url else
          (case pt_env opts ''WALLOW_API_INTERNAL_URL'' of
             Some from_env \<Rightarrow> if from_env \<noteq> '''' then from_env else default_api_internal_url
           | None \<Rightarrow> default_api_internal_url)
      | None \<Rightarrow>
          (case pt_env opts ''WALLOW_API_INTERNAL_URL'' of
             Some from_env \<Rightarrow> if from_env \<noteq> '''' then from_env else default_api_internal_url
           | None \<Rightarrow> default_api_internal_url))"

text \<open>
  \<open>replace(/(?:\/\*\*)?\/*$/u, "")\<close>: the leftmost match is one wildcard followed by the trailing
  slashes, or the trailing slashes alone.
\<close>

definition wildcard :: string where "wildcard = ''/**''"

definition drop_prefix_tail :: "string \<Rightarrow> string" where
  "drop_prefix_tail s =
     (let t = strip_trailing (CHR ''/'') s in
      if ends_with t wildcard then take (length t - length wildcard) t else t)"

definition normalize_prefix :: "string \<Rightarrow> string" where
  "normalize_prefix entry =
     (let prefix = drop_prefix_tail (js_trim entry) in if prefix = '''' then ''/'' else prefix)"

definition path_matches_prefix :: "string \<Rightarrow> string \<Rightarrow> bool" where
  "path_matches_prefix path prefix \<longleftrightarrow> path = prefix \<or> starts_with path (prefix @ ''/'')"

text \<open>\<open>errorMessage(error.cause)\<close>, for an \<open>error\<close> that is an \<open>Error\<close>.\<close>

fun cause_message :: "thrown \<Rightarrow> string option" where
  "cause_message (Err e) = map_option err_message (err_cause e)"
| "cause_message (Value j) = None"
| "cause_message t =
     (case thrown_failure t of
        Some f \<Rightarrow> (case f_cause f of Some (CauseError e) \<Rightarrow> Some (err_message e) | _ \<Rightarrow> None)
      | None \<Rightarrow> None)"

definition create_api_passthrough :: "passthrough_options \<Rightarrow> passthrough" where
  "create_api_passthrough opts =
     (let prefixes = (case pt_prefixes opts of Some ps \<Rightarrow> ps | None \<Rightarrow> default_passthrough_prefixes) in
      \<lparr>px_api_internal_url = resolve_api_internal_url opts, px_prefixes = prefixes,
       px_normalized = map normalize_prefix prefixes,
       px_forward_client_ip = (case pt_forward_client_ip opts of Some b \<Rightarrow> b | None \<Rightarrow> True),
       px_trusted = resolve_trusted_proxies (pt_trusted_proxies opts) (pt_env opts)\<rparr>)"

definition passthrough_matches :: "passthrough \<Rightarrow> string \<Rightarrow> bool" where
  "passthrough_matches px path \<longleftrightarrow> list_ex (path_matches_prefix path) (px_normalized px)"

definition passthrough_request :: "passthrough \<Rightarrow> request \<Rightarrow> fetch_request" where
  "passthrough_request px req =
     (let incoming = req_url req;
          hs = h_delete (h_copy (req_headers req)) ''host'';
          forwarded = apply_forwarded_headers hs incoming
            (if px_forward_client_ip px then resolve_client_address (req_headers req) (req_ip req) (px_trusted px) else None);
          has_body = (req_method req \<noteq> ''GET'' \<and> req_method req \<noteq> ''HEAD'') in
      \<lparr>fetch_url = px_api_internal_url px @ pathname incoming @ search incoming, fetch_method = req_method req,
       fetch_headers = forwarded, fetch_body = (if has_body then Some (req_body req) else None)\<rparr>)"

definition passthrough_handle :: "'s platform \<Rightarrow> passthrough \<Rightarrow> request \<Rightarrow> ('s, response) io" where
  "passthrough_handle pl px req =
     (if \<not> passthrough_matches px (pathname (req_url req)) then
        answer_problem pl (req_headers req) 404 http_not_found None []
      else
        io_bind (io_lift (pl_fetch pl (passthrough_request px req) None)) (\<lambda>outcome.
        case outcome of
          Fetched r \<Rightarrow> io_return r
        | Faulted e _ \<Rightarrow>
            io_bind (request_id_of pl (req_headers req)) (\<lambda>request_id.
            io_bind (io_modify (pl_warn pl ''wallow-passthrough: forward failed''
              (redact (JObj
                ([(''upstream'', JStr (px_api_internal_url px)), (''method'', JStr (req_method req)),
                  (''requestId'', JStr request_id)]
                 @ opt_member ''detail'' (map_option JStr (thrown_message e))
                 @ opt_member ''cause'' (map_option JStr (cause_message e))))))) (\<lambda>_.
            io_return (problem_response 503 transport_network_error
              \<lparr>po_request_id = request_id, po_detail = None, po_headers = []\<rparr>)))))"

subsection \<open>Properties\<close>

lemma path_below: "path_matches_prefix path prefix \<longleftrightarrow> path = prefix \<or> (\<exists>rest. path = prefix @ ''/'' @ rest)"
  by (simp add: path_matches_prefix_def starts_with_iff)

lemma matches_below:
  "(\<exists>prefix \<in> set (px_normalized px). path = prefix \<or> (\<exists>rest. path = prefix @ ''/'' @ rest)) \<longleftrightarrow> passthrough_matches px path"
  by (auto simp: passthrough_matches_def list_ex_iff path_below)

lemma forwarded_other_headers:
  assumes "to_lower n \<notin> {''x-forwarded-proto'', ''x-forwarded-host'', ''x-forwarded-for'', ''x-wallow-client-ip''}"
  shows "h_get (apply_forwarded_headers hs incoming address) n = h_get hs n"
proof -
  let ?other = "\<lambda>m. to_lower m \<noteq> to_lower n"
  have "?other ''x-forwarded-proto''" "?other ''x-forwarded-host''" "?other ''x-forwarded-for''" "?other stripped_client_ip_header"
    using assms by (simp_all add: to_lower_def lower_char_def stripped_client_ip_header_def eq_commute [of _ "map lower_char n"])
  note other = this h_get_set h_get_delete
  show ?thesis
    unfolding apply_forwarded_headers_def Let_def by (simp add: other split: option.split)
qed

text \<open>
  The session-free proxy serves its allowlist and nothing else. A path that is not a listed
  prefix or below one on a segment boundary is answered 404 without a request leaving; any other
  is sent upstream once, with the caller's method, and with the caller's headers unchanged but for
  \<open>Host\<close> and the forwarding headers, and the API's answer is returned as it came, or 503 when it
  could not be reached.
\<close>

lemma passthrough_serves_allowlist:
  assumes "h_norm (req_headers req)"
  shows "if \<exists>prefix \<in> set (px_normalized px). pathname (req_url req) = prefix \<or> (\<exists>rest. pathname (req_url req) = prefix @ ''/'' @ rest)
    then (case pl_fetch pl (passthrough_request px req) None s of
            (Fetched r, s1) \<Rightarrow> passthrough_handle pl px req s = (Inr r, s1)
          | (Faulted e t, s1) \<Rightarrow> \<exists>r s2. passthrough_handle pl px req s = (Inr r, s2) \<and> status r = 503)
      \<and> fetch_url (passthrough_request px req) = px_api_internal_url px @ pathname (req_url req) @ search (req_url req)
      \<and> fetch_method (passthrough_request px req) = req_method req
      \<and> h_get (fetch_headers (passthrough_request px req)) ''host'' = None
      \<and> (\<forall>n. to_lower n \<notin> {''host'', ''set-cookie'', ''x-forwarded-proto'', ''x-forwarded-host'', ''x-forwarded-for'', ''x-wallow-client-ip''}
           \<longrightarrow> h_get (fetch_headers (passthrough_request px req)) n = map_option header_value (h_get (req_headers req) n))
    else \<exists>r s1. passthrough_handle pl px req s = (Inr r, s1) \<and> s1 \<in> {s, snd (pl_uuid pl s)} \<and> status r = 404"
proof (cases "passthrough_matches px (pathname (req_url req))")
  case True
  have host: "to_lower ''host'' = ''host''" by (simp add: to_lower_def lower_char_def)
  have "case pl_fetch pl (passthrough_request px req) None s of
      (Fetched r, s1) \<Rightarrow> passthrough_handle pl px req s = (Inr r, s1)
    | (Faulted e t, s1) \<Rightarrow> \<exists>r s2. passthrough_handle pl px req s = (Inr r, s2) \<and> status r = 503"
  proof (cases "pl_fetch pl (passthrough_request px req) None s")
    case (Pair outcome s1)
    obtain i s2 where "request_id_of pl (req_headers req) s1 = (Inr i, s2)" using request_id_ok [of pl "req_headers req" s1] by (elim exE conjE)
    with Pair True show ?thesis
      by (cases outcome) (simp_all add: passthrough_handle_def io_bind_def io_lift_apply io_return_apply io_modify_apply)
  qed
  moreover have "h_get (fetch_headers (passthrough_request px req)) ''host'' = None"
    by (simp add: passthrough_request_def Let_def forwarded_other_headers h_get_delete host)
  moreover have "h_get (fetch_headers (passthrough_request px req)) n = map_option header_value (h_get (req_headers req) n)"
    if "to_lower n \<notin> {''host'', ''set-cookie'', ''x-forwarded-proto'', ''x-forwarded-host'', ''x-forwarded-for'', ''x-wallow-client-ip''}" for n
  proof -
    have "to_lower n \<noteq> ''set-cookie''" "to_lower n \<noteq> to_lower ''host''" using that host by auto
    then have "h_get (h_delete (h_copy (req_headers req)) ''host'') n = map_option header_value (h_get (req_headers req) n)"
      using h_get_copy [OF assms] by (auto simp: h_get_delete)
    then show ?thesis using that by (simp add: passthrough_request_def Let_def forwarded_other_headers)
  qed
  moreover have "fetch_url (passthrough_request px req) = px_api_internal_url px @ pathname (req_url req) @ search (req_url req)"
    "fetch_method (passthrough_request px req) = req_method req"
    by (simp_all add: passthrough_request_def Let_def)
  ultimately show ?thesis unfolding matches_below if_P [OF True] by (intro conjI allI impI) assumption+
next
  case False
  then have "\<exists>r s1. passthrough_handle pl px req s = (Inr r, s1) \<and> s1 \<in> {s, snd (pl_uuid pl s)} \<and> status r = 404"
    using answer_problem_result [of pl "req_headers req" 404 http_not_found None "[]" s]
    by (auto simp: passthrough_handle_def)
  then show ?thesis unfolding matches_below if_not_P [OF False] .
qed

text \<open>
  The session-free proxy only ever talks to the API. With an internal API URL that is an
  origin, or an origin and a path, every request leaves for that scheme and host, at that path
  followed by the caller's own path, with the caller's query.
\<close>

lemma passthrough_target_confined:
  assumes "px_api_internal_url px = sc @ ''://'' @ h @ base" "sc \<in> {''http'', ''https''}" "host_ok sc h"
    and "base = '''' \<or> seg_path base" "req_url req = url.truncate incoming" "url_wf incoming"
  shows "\<exists>u. new_url (fetch_url (passthrough_request px req)) = Inr u \<and> protocol u = sc @ '':'' \<and> host u = h
    \<and> pathname u = base @ pathname incoming \<and> search u = search incoming"
proof -
  obtain query where query: "search incoming = (case query of None \<Rightarrow> '''' | Some q \<Rightarrow> ''?'' @ q)"
    "\<forall>x. query = Some x \<longrightarrow> list_all (\<lambda>c. \<not> query_special c) x"
    "\<forall>sc h segs f. search (mk_url sc h segs query f) = search incoming"
    by (rule search_as_query [OF assms(6)])
  have "seg_path (base @ pathname incoming)"
    using assms(4) url_wf_path [OF assms(6)] seg_path_append by auto
  from parse_origin_path [OF assms(2,3) this query(2)] obtain segs where segs:
      "base @ pathname incoming = ''/'' @ js_join ''/'' segs"
      "\<forall>b. parse_url b (sc @ ''://'' @ h @ (base @ pathname incoming) @ search incoming) = Some (mk_url sc h segs query None)"
    unfolding query(1) by blast
  have "fetch_url (passthrough_request px req) = sc @ ''://'' @ h @ (base @ pathname incoming) @ search incoming"
    by (simp add: passthrough_request_def Let_def assms(1,5) url.truncate_def)
  then have "new_url (fetch_url (passthrough_request px req)) = Inr (mk_url sc h segs query None)"
    using segs(2) by (simp add: new_url_def)
  moreover have "pathname (mk_url sc h segs query None) = base @ pathname incoming" by (simp add: segs(1))
  ultimately show ?thesis using query(3) by auto
qed

text \<open>
  The entry \<open>/**\<close> is reduced to \<open>/\<close>, which guards the root alone: the segment test then asks for
  two slashes.
\<close>

lemma root_wildcard_guards_only_root:
  assumes "pt_prefixes opts = Some [''/**'']"
  shows "passthrough_matches (create_api_passthrough opts) ''/''"
    "x \<noteq> [] \<Longrightarrow> hd x \<noteq> CHR ''/'' \<Longrightarrow> \<not> passthrough_matches (create_api_passthrough opts) (''/'' @ x)"
proof -
  have "normalize_prefix ''/**'' = ''/''" by code_simp
  then have m: "passthrough_matches (create_api_passthrough opts) p \<longleftrightarrow> path_matches_prefix p ''/''" for p
    by (simp add: passthrough_matches_def create_api_passthrough_def Let_def assms)
  show "passthrough_matches (create_api_passthrough opts) ''/''" by (simp add: m path_below)
  show "x \<noteq> [] \<Longrightarrow> hd x \<noteq> CHR ''/'' \<Longrightarrow> \<not> passthrough_matches (create_api_passthrough opts) (''/'' @ x)"
    by (cases x) (auto simp: m path_below)
qed

subsection \<open>A concrete proxy\<close>

definition demo_passthrough :: passthrough where
  "demo_passthrough = create_api_passthrough
     \<lparr>pt_api_internal_url = Some ''http://api.test'', pt_prefixes = None, pt_forward_client_ip = None,
      pt_trusted_proxies = None, pt_env = (\<lambda>k. None)\<rparr>"

lemma demo_passthrough_fields:
  "px_api_internal_url demo_passthrough = ''http://api.test''"
  "px_normalized demo_passthrough = [''/v1'', ''/connect'', ''/.well-known'']"
proof -
  have "map normalize_prefix default_passthrough_prefixes = [''/v1'', ''/connect'', ''/.well-known'']" by code_simp
  then show "px_api_internal_url demo_passthrough = ''http://api.test''"
    "px_normalized demo_passthrough = [''/v1'', ''/connect'', ''/.well-known'']"
    by (simp_all add: demo_passthrough_def create_api_passthrough_def resolve_api_internal_url_def)
qed

definition demo_incoming_call :: full_url where
  "demo_incoming_call = mk_url ''https'' ''app.test'' [''v1'', ''items''] None None"

definition demo_call :: request where
  "demo_call =
     \<lparr>req_method = ''GET'', req_url = url.truncate demo_incoming_call, req_headers = [(''accept'', ''*'')], req_body = '''',
      req_ip = None\<rparr>"

lemma demo_call_path: "pathname (req_url demo_call) = ''/v1/items''" "search (req_url demo_call) = ''''"
  by (simp_all add: demo_call_def demo_incoming_call_def mk_url_def url.truncate_def)

lemma passthrough_serves_allowlist_witness:
  "\<exists>r. passthrough_handle demo_platform demo_passthrough demo_call () = (Inr r, ()) \<and> status r = 200
    \<and> fetch_url (passthrough_request demo_passthrough demo_call) = ''http://api.test/v1/items''
    \<and> h_get (fetch_headers (passthrough_request demo_passthrough demo_call)) ''host'' = None"
proof -
  have "h_norm (req_headers demo_call)"
    by (simp add: h_norm_def demo_call_def to_lower_def lower_char_def header_value_def http_ws_def)
  moreover have "\<exists>prefix \<in> set (px_normalized demo_passthrough). pathname (req_url demo_call) = prefix
      \<or> (\<exists>rest. pathname (req_url demo_call) = prefix @ ''/'' @ rest)"
    by (rule bexI [of _ "''/v1''"]) (simp_all add: demo_passthrough_fields demo_call_path)
  ultimately show ?thesis
    using passthrough_serves_allowlist [of demo_call demo_passthrough demo_platform "()"]
    by (simp add: demo_passthrough_fields demo_call_path) (simp add: demo_platform_def)
qed

lemma passthrough_target_confined_witness:
  "\<exists>u. new_url (fetch_url (passthrough_request demo_passthrough demo_call)) = Inr u \<and> protocol u = ''http'' @ '':''
    \<and> host u = ''api.test'' \<and> pathname u = '''' @ pathname demo_incoming_call \<and> search u = search demo_incoming_call"
proof (rule passthrough_target_confined)
  show "url_wf demo_incoming_call"
    unfolding demo_incoming_call_def by (rule mk_url_wf) (simp_all add: example_host seg_simps)
qed (simp_all add: demo_passthrough_fields demo_call_def example_host)

end
