(* ===== verification/BffServer.thy ===== *)
theory BffServer
  imports Proxy Backchannel
begin

section \<open>The server a host mounts (\<open>sdk/src/server/bff-server.ts\<close>)\<close>

text \<open>
  The composition: one configuration, one session store, the handlers and the proxy over both, the
  dispatch by path and the two probes at boot. What the parts are built over is one record: the
  platform, the OIDC client, the \<open>jose\<close> library and the client \<open>createRedisFromUrl\<close> makes of a URL.
\<close>

definition wallow_api_mount :: string where "wallow_api_mount = ''/api''"
definition wallow_bff_mount :: string where "wallow_bff_mount = ''/bff''"

datatype boot_warning = BackchannelUnsupported | NamespaceShared string

record ('s, 'c, 'k) surroundings =
  su_platform :: "'s platform"
  su_oidc :: "('s, 'c) oidc"
  su_jose :: "('s, 'k) jose"
  su_redis_from_url :: "string \<Rightarrow> 's redis_like"
  su_on_warning :: "boot_warning \<Rightarrow> 's \<Rightarrow> 's"

record 's bff_server_options =
  bo_env :: env
  bo_config :: "bff_config option"
  bo_store :: "('s, stored_session) session_store option"
  bo_redis_client :: "'s node_redis option"
  bo_trusted_proxies :: "string option"

record 's bff_server =
  sv_config :: bff_config
  sv_store :: "('s, stored_session) session_store"
  sv_boot :: "('s, unit) io"
  sv_handle_bff :: "request \<Rightarrow> ('s, response) io"
  sv_handle_api :: "request \<Rightarrow> ('s, response) io"
  sv_handle_health :: response

text \<open>The key namespace of an application, and the server-side store over a given client.\<close>

definition app_key_prefix :: "bff_config \<Rightarrow> string option" where
  "app_key_prefix config = map_option (\<lambda>a. default_key_prefix @ '':'' @ a) (app_id config)"

definition server_valkey :: "'s redis_like \<Rightarrow> bff_config \<Rightarrow> 's valkey" where
  "server_valkey redis config =
     new_valkey \<lparr>vo_client = redis, vo_password = config_secret config,
       vo_ttl_seconds = Some (session_ttl_seconds config), vo_lock_ttl_seconds = None,
       vo_key_prefix = app_key_prefix config\<rparr>"

text \<open>The state carries the cookie store's in-flight refreshes.\<close>

definition select_store ::
    "((stored_session, 'z) cookie_world_scheme, 'c, 'k) surroundings \<Rightarrow> bff_config
      \<Rightarrow> (stored_session, 'z) cookie_world_scheme bff_server_options
      \<Rightarrow> ((stored_session, 'z) cookie_world_scheme, stored_session) session_store" where
  "select_store su config opts =
     (case bo_store opts of
        Some store \<Rightarrow> store
      | None \<Rightarrow>
          (let pl = su_platform su;
               redis_url = js_trim (case bo_env opts ''REDIS_URL'' of Some u \<Rightarrow> u | None \<Rightarrow> '''') in
           case bo_redis_client opts of
             Some node \<Rightarrow> valkey_store (pl_iron pl) (pl_random pl) (server_valkey (create_redis_adapter node) config)
           | None \<Rightarrow>
               if redis_url \<noteq> '''' then
                 valkey_store (pl_iron pl) (pl_random pl) (server_valkey (su_redis_from_url su redis_url) config)
               else
                 cookie_store (pl_iron pl)
                   \<lparr>co_password = config_secret config, co_ttl_seconds = Some (session_ttl_seconds config)\<rparr>))"

text \<open>
  The boot probes: fire-and-forget, so each swallows every failure. Their messages are fixed texts
  but for the rival holder.
\<close>

definition warn_when_backchannel_unsupported ::
    "('s, 'c, 'k) surroundings \<Rightarrow> bff_config \<Rightarrow> ('s, 't) session_store \<Rightarrow> ('s, unit) io" where
  "warn_when_backchannel_unsupported su config store =
     (if st_revoke_by_sid store \<noteq> None \<or> st_revoke_by_subject store \<noteq> None then io_return ()
      else
        io_catch
          (io_bind (discover (su_oidc su) config) (\<lambda>doc.
           if backchannel_logout_supported doc = Some True
           then io_modify (su_on_warning su BackchannelUnsupported) else io_return ()))
          (\<lambda>_. io_return ()))"

definition warn_when_namespace_shared ::
    "('s, 'c, 'k) surroundings \<Rightarrow> bff_config \<Rightarrow> ('s, 't) session_store \<Rightarrow> ('s, unit) io" where
  "warn_when_namespace_shared su config store =
     (case st_claim_namespace store of
        None \<Rightarrow> io_return ()
      | Some claim \<Rightarrow>
          io_catch
            (io_bind (claim (issuer config @ '' '' @ client_id config)) (\<lambda>holder.
             case holder of
               Some rival \<Rightarrow> io_modify (su_on_warning su (NamespaceShared rival))
             | None \<Rightarrow> io_return ()))
            (\<lambda>_. io_return ()))"

definition bff_sub_path :: "string \<Rightarrow> string option" where
  "bff_sub_path path =
     (if path = wallow_bff_mount then Some ''/''
      else if \<not> starts_with path (wallow_bff_mount @ ''/'') then None
      else Some (drop (length wallow_bff_mount) path))"

definition bff_routes ::
    "('s, 'c, 'k) surroundings \<Rightarrow> bff_config \<Rightarrow> ('s, stored_session) session_store
      \<Rightarrow> (string \<times> (request \<Rightarrow> ('s, response) io)) list" where
  "bff_routes su config store =
     (let pl = su_platform su; oidc = su_oidc su in
      [(''/login'', login pl oidc config),
       (''/callback'', callback pl oidc store config),
       (''/user'', user_handler pl store config),
       (''/logout'', logout pl oidc store config),
       (''/frontchannel-logout'', frontchannel_logout pl store config),
       (''/backchannel-logout'', backchannel_logout pl oidc (su_jose su) store config)])"

definition handle_bff ::
    "('s, 'c, 'k) surroundings \<Rightarrow> bff_config \<Rightarrow> ('s, stored_session) session_store \<Rightarrow> request \<Rightarrow> ('s, response) io" where
  "handle_bff su config store req =
     (case bff_sub_path (pathname (req_url req)) of
        None \<Rightarrow> answer_problem (su_platform su) (req_headers req) 404 http_not_found None []
      | Some sub_path \<Rightarrow>
          (case obj_get (bff_routes su config store) sub_path of
             None \<Rightarrow> answer_problem (su_platform su) (req_headers req) 404 http_not_found None []
           | Some handler \<Rightarrow> handler req))"

text \<open>\<open>Inl\<close> is the message of the configuration error.\<close>

definition create_wallow_bff_server ::
    "((stored_session, 'z) cookie_world_scheme, 'c, 'k) surroundings
      \<Rightarrow> (stored_session, 'z) cookie_world_scheme bff_server_options
      \<Rightarrow> string + (stored_session, 'z) cookie_world_scheme bff_server" where
  "create_wallow_bff_server su opts =
     (case (case bo_config opts of Some c \<Rightarrow> Inr c | None \<Rightarrow> load_bff_config_from_env (bo_env opts)) of
        Inl message \<Rightarrow> Inl message
      | Inr config \<Rightarrow>
          (let store = select_store su config opts;
               trusted = resolve_trusted_proxies (bo_trusted_proxies opts) (bo_env opts) in
           Inr \<lparr>sv_config = config, sv_store = store,
             sv_boot = io_bind (warn_when_backchannel_unsupported su config store)
               (\<lambda>_. warn_when_namespace_shared su config store),
             sv_handle_bff = handle_bff su config store,
             sv_handle_api = create_api_proxy (su_platform su) (su_oidc su) config store trusted,
             sv_handle_health = json_response 200 (JObj [(''status'', JStr ''ok'')]) []\<rparr>))"

subsection \<open>Properties\<close>

text \<open>The keys a store can touch.\<close>

definition store_keys :: "'s valkey \<Rightarrow> string set" where
  "store_keys v = {owner_key v} \<union> {k. \<exists>i. k \<in> {session_key v i, lock_key v i, sid_key v i, subject_key v i}}"

lemma loaded_app_id:
  assumes "load_bff_config_from_env env = Inr cfg" "app_id cfg = Some a"
  shows "list_all app_id_char a"
  using assms by (auto simp: load_bff_config_from_env_def load_app_id_def Let_def split: prod.splits if_splits)

lemma colon_prefix:
  assumes "CHR '':'' \<notin> set a" "CHR '':'' \<notin> set b" "a @ '':'' @ x = b @ '':'' @ y"
  shows "a = b"
  using arg_cong [OF assms(3), of "takeWhile (\<lambda>c. c \<noteq> CHR '':'')"] assms(1,2)
  by (auto simp: takeWhile_append split: if_splits)

text \<open>
  C33: Two applications on one Redis server never touch each other's keys. The session, lock, sid,
  subject and owner keys of a server configured with one \<open>BFF_APP_ID\<close> are disjoint from those of a
  server configured with another, whatever ids, sids and subjects occur, so neither can read,
  revoke or lock the other's sessions.
\<close>

theorem applications_share_no_keys:
  assumes "load_bff_config_from_env env1 = Inr c1" "load_bff_config_from_env env2 = Inr c2"
    and "app_id c1 = Some a1" "app_id c2 = Some a2" "a1 \<noteq> a2"
  shows "store_keys (server_valkey redis1 c1) \<inter> store_keys (server_valkey redis2 c2) = {}"
proof -
  have colon: "CHR '':'' \<notin> set a1" "CHR '':'' \<notin> set a2"
    using loaded_app_id [OF assms(1,3)] loaded_app_id [OF assms(2,4)]
    by (auto simp: list_all_iff app_id_char_def word_char_def is_digit_def)
  have shape: "\<exists>x. k = default_key_prefix @ '':'' @ a @ '':'' @ x"
    if "k \<in> store_keys (server_valkey redis c)" "app_id c = Some a" for k a c and redis :: "'r redis_like"
    using that by (auto simp: store_keys_def key_defs server_valkey_def new_valkey_def app_key_prefix_def)
  show ?thesis
  proof (rule ccontr)
    assume "store_keys (server_valkey redis1 c1) \<inter> store_keys (server_valkey redis2 c2) \<noteq> {}"
    then obtain k where "k \<in> store_keys (server_valkey redis1 c1)" "k \<in> store_keys (server_valkey redis2 c2)" by blast
    then obtain x y where "default_key_prefix @ '':'' @ a1 @ '':'' @ x = default_key_prefix @ '':'' @ a2 @ '':'' @ y"
      using shape assms(3,4) by metis
    then have "a1 @ '':'' @ x = a2 @ '':'' @ y" by simp
    with colon_prefix [OF colon] assms(5) show False by blast
  qed
qed

text \<open>
  Dispatch is by path alone. Each of the six mounted paths reaches its handler, whatever the
  method, over the server's one configuration and store; every other path, lookalike prefixes
  included, is a 404 problem.
\<close>

lemma bff_dispatch:
  "handle_bff su config store req =
     (let pl = su_platform su; oidc = su_oidc su; path = pathname (req_url req) in
      if path = ''/bff/login'' then login pl oidc config req
      else if path = ''/bff/callback'' then callback pl oidc store config req
      else if path = ''/bff/user'' then user_handler pl store config req
      else if path = ''/bff/logout'' then logout pl oidc store config req
      else if path = ''/bff/frontchannel-logout'' then frontchannel_logout pl store config req
      else if path = ''/bff/backchannel-logout'' then backchannel_logout pl oidc (su_jose su) store config req
      else answer_problem pl (req_headers req) 404 http_not_found None [])"
proof (cases "starts_with (pathname (req_url req)) ''/bff/''")
  case True
  then obtain r where r: "pathname (req_url req) = ''/bff/'' @ r" by (auto simp: starts_with_iff)
  then have sub: "bff_sub_path (pathname (req_url req)) = Some (CHR ''/'' # r)"
    by (simp add: bff_sub_path_def wallow_bff_mount_def starts_with_def)
  show ?thesis unfolding handle_bff_def sub option.case bff_routes_def Let_def by (simp add: r)
next
  case False
  have sub: "bff_sub_path (pathname (req_url req)) \<in> {None, Some ''/''}"
    using False by (auto simp: bff_sub_path_def wallow_bff_mount_def)
  have "pathname (req_url req) \<noteq> ''/bff/'' @ r" for r using False by (auto simp: starts_with_iff)
  from this [of "''login''"] this [of "''callback''"] this [of "''user''"] this [of "''logout''"]
    this [of "''frontchannel-logout''"] this [of "''backchannel-logout''"] sub
  show ?thesis by (auto simp: handle_bff_def bff_routes_def Let_def)
qed

definition tenant_env :: "string \<Rightarrow> env" where
  "tenant_env a = example_env(''BFF_APP_ID'' \<mapsto> a)"

lemma loaded_from_sum: "map_sum (\<lambda>e. e) app_id r = Inr x \<Longrightarrow> \<exists>c. r = Inr c \<and> app_id c = x"
  by (cases r) auto

lemma tenant_config:
  "\<exists>c. load_bff_config_from_env (tenant_env [CHR ''a'']) = Inr c \<and> app_id c = Some [CHR ''a'']"
  "\<exists>c. load_bff_config_from_env (tenant_env [CHR ''b'']) = Inr c \<and> app_id c = Some [CHR ''b'']"
  by (rule loaded_from_sum, code_simp)+

theorem applications_share_no_keys_witness:
  "\<exists>c1 c2. load_bff_config_from_env (tenant_env ''a'') = Inr c1 \<and> load_bff_config_from_env (tenant_env ''b'') = Inr c2
    \<and> store_keys (server_valkey (create_memory_redis :: memory_world redis_like) c1)
      \<inter> store_keys (server_valkey (create_memory_redis :: memory_world redis_like) c2) = {}"
proof -
  obtain c1 c2 where c: "load_bff_config_from_env (tenant_env ''a'') = Inr c1" "app_id c1 = Some ''a''"
    "load_bff_config_from_env (tenant_env ''b'') = Inr c2" "app_id c2 = Some ''b''"
    using tenant_config by blast
  have "''a'' \<noteq> ''b''" by simp
  from applications_share_no_keys [OF c(1,3,2,4) this] c(1,3) show ?thesis
    by - (intro exI conjI, assumption+)
qed

text \<open>Operations that keep the Redis data as it is.\<close>

definition keeps_redis :: "('z memory_world_scheme \<Rightarrow> 'z memory_world_scheme) \<Rightarrow> bool" where
  "keeps_redis f \<longleftrightarrow> (\<forall>w. mem_healthy w \<longrightarrow> mem_healthy (f w) \<and> mem_lookup (f w) = mem_lookup w)"

text \<open>
  C4: A logged-out session cannot call the API any more. On a server over the Redis store, once a
  POST to \<open>/bff/logout\<close> with the session's CSRF token has been handled, however it was answered,
  every request below \<open>/api\<close> that still presents the old session cookie is answered 401.
\<close>

theorem logged_out_session_is_dead:
  assumes "create_wallow_bff_server su opts = Inr sv" "bo_store opts = Some (valkey_store iron random v)"
    and "memory_seal iron v opens" "mem_healthy w"
    and "pathname (req_url req) = ''/bff/logout''" "to_upper (req_method req) = ''POST''"
    and "read_session_ref (su_platform su) req (sv_config sv) = Some ref" "valkey_bound v opens mem_lookup w ref = Some b"
    and "csrf_token_matches (csrf_token b) (h_get (req_headers req) csrf_header)"
    and "keeps_redis (\<lambda>w. snd (discover (su_oidc su) (sv_config sv) w))" "keeps_redis (\<lambda>w. snd (pl_uuid (su_platform su) w))"
    and "sv_handle_bff sv req w = (r, w1)"
    and "read_session_ref (su_platform su) call (sv_config sv) = Some ref" "stripped_api_path (pathname (req_url call)) = Some path"
  shows "\<exists>a w2. sv_handle_api sv call w1 = (Inr a, w2) \<and> status a = 401"
proof -
  let ?store = "valkey_store iron random v :: (_, stored_session) session_store"
  let ?pl = "su_platform su" and ?config = "sv_config sv"
  obtain trusted where sv: "sv_handle_bff sv = handle_bff su ?config ?store"
      "sv_handle_api sv = create_api_proxy ?pl (su_oidc su) ?config ?store trusted"
    using assms(1,2) by (auto simp: create_wallow_bff_server_def select_store_def Let_def split: sum.splits)
  have "handle_bff su ?config ?store req = logout ?pl (su_oidc su) ?store ?config req"
    by (simp add: handle_bff_def bff_sub_path_def wallow_bff_mount_def starts_with_def bff_routes_def Let_def assms(5))
  then have run: "logout ?pl (su_oidc su) ?store ?config req w = (r, w1)" using assms(12) sv(1) by simp
  obtain wa wb where wb: "memory_seal iron v opens \<and> mem_healthy wa" "st_destroy ?store ref wa = (Inr (), wb)"
    "logout ?pl (su_oidc su) ?store ?config req w
      = io_bind (discover (su_oidc su) ?config) (\<lambda>doc.
        io_bind (io_of (build_logout_url (su_oidc su) ?config doc (id_token b))) (\<lambda>logout_url.
        io_return (json_response 200 (JObj [(''logoutUrl'', JStr logout_url)])
          (h_set (clear_session ?pl [] req ?config) ''cache-control'' ''no-store'')))) wb"
    by (rule valkey.logout_accepted [of iron v opens w req ?pl ?config ref b random "su_oidc su",
      OF conjI [OF assms(3,4)] assms(6-9)])
  have dead: "mem_healthy wb" "valkey_bound v opens mem_lookup wb ref = None"
    using valkey.destroyed_bound [of iron v opens wa random ref wb] wb(1,2) by blast+
  have "w1 = snd (discover (su_oidc su) ?config wb)"
    using run unfolding wb(3) by (auto simp: io_bind_def io_of_def io_simps split: prod.splits sum.splits)
  then have w1: "mem_healthy w1" "valkey_bound v opens mem_lookup w1 ref = None"
    using assms(10) dead by (auto simp: keeps_redis_def intro: valkey_bound_cong [THEN fun_cong, THEN trans])
  obtain i w2 where i: "request_id_of ?pl (req_headers call) w1 = (Inr i, w2)" "w2 \<in> {w1, snd (pl_uuid ?pl w1)}"
    using request_id_ok [of ?pl "req_headers call" w1] by (elim exE conjE)
  have w2: "mem_healthy w2" "mem_lookup w2 = mem_lookup w1" using i(2) assms(11) w1(1) by (auto simp: keeps_redis_def)
  then have none: "valkey_bound v opens mem_lookup w2 ref = None"
    using w1(2) by (metis valkey_bound_cong)
  note seal = memory_sealD [OF assms(3)]
  obtain w3 where "valkey_read iron v ref w2 = (Inr None, w3)"
    using memory.valkey_read_law [OF seal(1,2) w2(1), of ref] none by auto
  then have "read_session ?pl ?store ?config call w2 = (Inr None, w3)"
    by (simp add: read_session_def assms(13) valkey_store_def)
  then have "proxy_request ?pl (su_oidc su) ?config ?store trusted call i w2 = (Inr (problem_answer 401 bff_session_missing i []), w3)"
    by (simp add: proxy_request_def assms(13,14) io_bind_def io_return_apply)
  then show ?thesis
    by (simp add: sv(2) create_api_proxy_def io_bind_def i(1) io_return_apply problem_answer_def)
qed

text \<open>A server over the in-process Redis, with one live session.\<close>

definition server_redis :: "stored_session cookie_world valkey" where
  "server_redis =
     \<lparr>client = create_memory_redis, password = demo_secret, ttl_seconds = 60, lock_ttl_seconds = 10, key_prefix = ''w''\<rparr>"

definition server_world :: "stored_session cookie_world" where
  "server_world =
     \<lparr>entries = [(''w:session:i1'', \<lparr>me_value = json_print (session_to_json (demo_session ''i1'')), me_expires_at = None\<rparr>)],
      sets = [], clock = 0, refresh_locks = []\<rparr>"

definition demo_surroundings :: "(stored_session cookie_world, unit, unit) surroundings" where
  "demo_surroundings =
     \<lparr>su_platform = demo_platform, su_oidc = demo_oidc, su_jose = demo_jose,
      su_redis_from_url = (\<lambda>url. create_memory_redis), su_on_warning = (\<lambda>m w. w)\<rparr>"

definition demo_server_options :: "stored_session cookie_world bff_server_options" where
  "demo_server_options =
     \<lparr>bo_env = (\<lambda>k. None), bo_config = Some demo_config,
      bo_store = Some (valkey_store demo_iron (\<lambda>n w. (replicate n 0, w)) server_redis), bo_redis_client = None,
      bo_trusted_proxies = None\<rparr>"

lemma server_seal: "memory_seal demo_iron server_redis demo_opens"
  by (auto simp: memory_seal_def timeless_seal_def server_redis_def demo_iron_def demo_opens_def seal_with_def
      demo_secret_def seal_password_of_def io_simps json_parse_print keeps_def split: option.splits)

lemma server_world_bound:
  "mem_healthy server_world" "valkey_bound server_redis demo_opens mem_lookup server_world demo_ref = Some (demo_session ''i1'')"
proof -
  have "mem_lookup server_world (session_key server_redis ''i1'') = Some (json_print (session_to_json (demo_session ''i1'')))"
    by (simp add: mem_lookup_def server_world_def session_key_def server_redis_def expired_def)
  moreover have "ref_id demo_opens demo_ref = Some ''i1''"
    using json_parse_print [of "JStr ''i1''"] by (simp add: ref_id_def demo_opens_def demo_ref_def)
  moreover have "parse_record (json_print (session_to_json (demo_session ''i1''))) = Some (demo_session ''i1'')"
    by (rule parse_record_print) (simp add: session_ok_def demo_session_def obj_wf_def)
  ultimately show "valkey_bound server_redis demo_opens mem_lookup server_world demo_ref = Some (demo_session ''i1'')"
    by (simp add: valkey_bound_def live_session_def)
  show "mem_healthy server_world" by (simp add: mem_healthy_def server_world_def obj_wf_def)
qed

definition demo_logout_call :: request where
  "demo_logout_call = (demo_api_request ''POST'')\<lparr>req_url := (req_url (demo_api_request ''POST''))\<lparr>pathname := ''/bff/logout''\<rparr>\<rparr>"

theorem logged_out_session_is_dead_witness:
  "\<exists>sv r w1 a w2. create_wallow_bff_server demo_surroundings demo_server_options = Inr sv
    \<and> sv_handle_bff sv demo_logout_call server_world = (r, w1)
    \<and> sv_handle_api sv (demo_api_request ''GET'') w1 = (Inr a, w2) \<and> status a = 401"
proof -
  obtain sv where sv: "create_wallow_bff_server demo_surroundings demo_server_options = Inr sv" "sv_config sv = demo_config"
    by (simp add: create_wallow_bff_server_def demo_server_options_def Let_def)
  obtain r w1 where r: "sv_handle_bff sv demo_logout_call server_world = (r, w1)" by fastforce
  have pl: "su_platform demo_surroundings = demo_platform" "su_oidc demo_surroundings = demo_oidc"
    by (simp_all add: demo_surroundings_def)
  have ref: "read_session_ref demo_platform demo_logout_call demo_config = Some demo_ref"
    using demo_api_ref [of "''POST''"] by (simp add: demo_logout_call_def read_session_ref_def request_cookies_def demo_platform_def)
  have "\<exists>a w2. sv_handle_api sv (demo_api_request ''GET'') w1 = (Inr a, w2) \<and> status a = 401"
  proof (rule logged_out_session_is_dead [OF sv(1) _ server_seal server_world_bound(1) _ _ _ server_world_bound(2) _ _ _ r, unfolded pl sv(2)])
    show "csrf_token_matches (csrf_token (demo_session ''i1'')) (h_get (req_headers demo_logout_call) csrf_header)"
      by (simp add: demo_logout_call_def demo_session_def csrf_token_matches_iff)
    show "stripped_api_path (pathname (req_url (demo_api_request ''GET''))) = Some ''/items''" by (rule demo_relay(3))
    show "read_session_ref demo_platform (demo_api_request ''GET'') demo_config = Some demo_ref" by (rule demo_api_ref)
    show "read_session_ref demo_platform demo_logout_call demo_config = Some demo_ref" by (rule ref)
  qed (simp_all add: demo_server_options_def demo_logout_call_def to_upper_def upper_char_def keeps_redis_def demo_oidc_discover
      demo_platform_def)
  with sv(1) r show ?thesis by blast
qed

end
