(* ===== verification/Service.thy ===== *)
theory Service
  imports Oidc Proxy
begin

section \<open>The machine-to-machine client (\<open>sdk/src/server/service.ts\<close>)\<close>

text \<open>
  A service account's bearer: obtained by the client-credentials grant, cached in a Redis-shaped
  store, renewed by one replica at a time, and attached to every API request, which is replayed
  once when the bearer is refused. A replica that finds another one renewing polls the cache: a
  loop over the clock, so the operations that contain it return an \<open>option\<close>, \<open>None\<close> when it never
  ends.
\<close>

record service_config =
  sc_issuer :: string
  sc_client_id :: string
  sc_client_secret :: string
  sc_scopes :: "string list"
  sc_api_base_url :: string
  sc_metadata_url :: "string option"

definition require_service_env :: "env \<Rightarrow> string \<Rightarrow> string list \<Rightarrow> string \<times> string list" where
  "require_service_env env key problems =
     (let v = env_trimmed env key in
      (v, if v = '''' then problems @ [''Missing required environment variable: '' @ key] else problems))"

text \<open>\<open>Inl\<close> is the message of the thrown error.\<close>

definition load_service_config_from_env :: "env \<Rightarrow> string + service_config" where
  "load_service_config_from_env env =
     (let (iss, p1) = require_service_env env ''OIDC_ISSUER'' [];
          (cid, p2) = require_service_env env ''OIDC_SERVICE_CLIENT_ID'' p1;
          (csec, p3) = require_service_env env ''OIDC_SERVICE_CLIENT_SECRET'' p2;
          (scopes_raw, p4) = require_service_env env ''OIDC_SERVICE_SCOPES'' p3;
          (api, problems) = require_service_env env ''BFF_API_BASE_URL'' p4;
          newline_item = [CHR 0x0A] @ ''  - '' in
      if problems \<noteq> [] then
        Inl (''Invalid service client environment configuration:'' @ newline_item @ js_join newline_item problems)
      else
        (let metadata = env_trimmed env ''OIDC_METADATA_URL'' in
         Inr \<lparr>sc_issuer = iss, sc_client_id = cid, sc_client_secret = csec, sc_scopes = split_runs is_ws scopes_raw,
              sc_api_base_url = api, sc_metadata_url = (if metadata = '''' then None else Some metadata)\<rparr>))"

definition service_key_prefix :: string where "service_key_prefix = ''wallow''"
definition service_lock_ttl_seconds :: int where "service_lock_ttl_seconds = 10"
definition lock_poll_ms :: int where "lock_poll_ms = 50"

record cached_token =
  ct_access_token :: string
  ct_expires_at :: int

definition cached_to_json :: "cached_token \<Rightarrow> json" where
  "cached_to_json c = JObj [(''accessToken'', JStr (ct_access_token c)), (''expiresAt'', JNum (ct_expires_at c))]"

text \<open>
  \<open>JSON.parse(raw) as CachedToken\<close>: a text that is no JSON throws, and so does reading a member of \<open>null\<close>.
  The expiry is only ever compared with whole milliseconds, so a fraction counts as the next one.
\<close>

definition cached_of_json :: "json \<Rightarrow> cached_token option" where
  "cached_of_json j =
     (case (j_string j ''accessToken'', j_get j ''expiresAt'') of
        (Some t, Some (JNum e)) \<Rightarrow> Some \<lparr>ct_access_token = t, ct_expires_at = e\<rparr>
      | (Some t, Some (JDec m k)) \<Rightarrow> Some \<lparr>ct_access_token = t, ct_expires_at = - ((- m) div 10 ^ k)\<rparr>
      | _ \<Rightarrow> None)"

definition parse_cached :: "string \<Rightarrow> thrown + json" where
  "parse_cached raw =
     (case json_parse raw of
        None \<Rightarrow> Inl (Err (JsError 0 ''SyntaxError'' ''Unexpected token'' None None))
      | Some JNull \<Rightarrow> Inl (type_error ''Cannot read properties of null'')
      | Some j \<Rightarrow> Inr j)"

text \<open>The client-credentials grant of the library, beside the operations of \<open>oidc_client\<close>.\<close>

record ('s, 'c) service_lib =
  sl_client :: "('s, 'c) oidc_client"
  sl_client_credentials_grant :: "'c \<Rightarrow> string \<Rightarrow> ('s, token_set) io"

record ('s, 'c) token_source =
  src_config :: service_config
  src_store :: "'s redis_like"
  src_lib :: "('s, 'c) service_lib"
  src_platform :: "'s platform"
  src_configuration :: "('s, 'c option) cell"
  src_inflight :: "('s, (thrown + string) option) cell"

definition scope_key :: "service_config \<Rightarrow> string" where
  "scope_key config = encode_uri_component (js_join '' '' (sort (sc_scopes config)))"

definition token_cache_key :: "service_config \<Rightarrow> string" where
  "token_cache_key config =
     service_key_prefix @ '':service-token:'' @ sc_client_id config @ '':'' @ scope_key config"

definition token_lock_key :: "service_config \<Rightarrow> string" where
  "token_lock_key config =
     service_key_prefix @ '':service-token-lock:'' @ sc_client_id config @ '':'' @ scope_key config"

definition read_cache :: "('s, 'c) token_source \<Rightarrow> ('s, cached_token option) io" where
  "read_cache src =
     io_bind (rl_get (src_store src) (token_cache_key (src_config src))) (\<lambda>raw.
     case raw of
       None \<Rightarrow> io_return None
     | Some r \<Rightarrow>
         io_bind (io_of (parse_cached r)) (\<lambda>j.
         io_bind (io_gets (pl_now (src_platform src))) (\<lambda>now.
         io_return (case cached_of_json j of
             Some c \<Rightarrow> if ct_expires_at c - expiry_skew_ms > now then Some c else None
           | None \<Rightarrow> None))))"

definition invalidate :: "('s, 'c) token_source \<Rightarrow> string \<Rightarrow> ('s, unit) io" where
  "invalidate src token =
     io_bind (rl_get (src_store src) (token_cache_key (src_config src))) (\<lambda>raw.
     case raw of
       None \<Rightarrow> io_return ()
     | Some r \<Rightarrow>
         io_bind (io_of (parse_cached r)) (\<lambda>j.
         if j_string j ''accessToken'' = Some token
         then io_bind (rl_del (src_store src) (token_cache_key (src_config src))) (\<lambda>_. io_return ())
         else io_return ()))"

definition service_metadata_url :: "service_config \<Rightarrow> string" where
  "service_metadata_url config =
     (case sc_metadata_url config of
        Some u \<Rightarrow> u | None \<Rightarrow> sc_issuer config @ ''/.well-known/openid-configuration'')"

definition service_discover :: "('s, 'c) token_source \<Rightarrow> ('s, 'c) io" where
  "service_discover src =
     io_bind (io_gets (cell_get (src_configuration src))) (\<lambda>known.
     case known of
       Some c \<Rightarrow> io_return c
     | None \<Rightarrow>
         (let config = src_config src; metadata = service_metadata_url config in
          io_bind (io_of (new_url metadata)) (\<lambda>url.
          io_bind (io_of (should_allow_insecure_requests metadata)) (\<lambda>insecure.
          io_catch
            (io_bind (oc_discovery (sl_client (src_lib src)) (url_href url) (sc_client_id config)
                (sc_client_secret config) insecure) (\<lambda>c.
             io_bind (io_modify (cell_put (src_configuration src) (Some c))) (\<lambda>_. io_return c)))
            (\<lambda>e. io_bind (io_modify (cell_put (src_configuration src) None)) (\<lambda>_. io_throw e))))))"

definition fetch_and_cache :: "('s, 'c) token_source \<Rightarrow> ('s, string) io" where
  "fetch_and_cache src =
     io_bind (service_discover src) (\<lambda>c.
     io_bind (sl_client_credentials_grant (src_lib src) c (js_join '' '' (sc_scopes (src_config src)))) (\<lambda>tokens.
     io_bind (io_gets (pl_now (src_platform src))) (\<lambda>now.
     (let expires_in = (case ts_expires_in tokens of Some e \<Rightarrow> e | None \<Rightarrow> no_expiry_seconds);
          record' = \<lparr>ct_access_token = ts_access_token tokens, ct_expires_at = now + expires_in * ms_per_second\<rparr> in
      if expires_in > no_expiry_seconds then
        io_bind (rl_set (src_store src) (token_cache_key (src_config src)) (json_print (cached_to_json record'))
           \<lparr>so_ex = Some expires_in, so_nx = False\<rparr>) (\<lambda>_. io_return (ct_access_token record'))
      else io_return (ct_access_token record')))))"

subsection \<open>Operations that may wait for ever\<close>

type_synonym ('s, 'a) wait = "'s \<Rightarrow> ((thrown + 'a) \<times> 's) option"

definition wait_io :: "('s, 'a) io \<Rightarrow> ('s, 'a) wait" where
  "wait_io m = (\<lambda>s. Some (m s))"

definition wait_bind :: "('s, 'a) wait \<Rightarrow> ('a \<Rightarrow> ('s, 'b) wait) \<Rightarrow> ('s, 'b) wait" where
  "wait_bind m f = (\<lambda>s. case m s of
      None \<Rightarrow> None | Some (Inl e, s') \<Rightarrow> Some (Inl e, s') | Some (Inr a, s') \<Rightarrow> f a s')"

partial_function (option) poll_cache :: "('s, 'c) token_source \<Rightarrow> int \<Rightarrow> ('s, cached_token option) wait" where
  "poll_cache src deadline s =
     (if pl_now (src_platform src) s \<ge> deadline then Some (Inr None, s)
      else
        (case read_cache src (pl_delay (src_platform src) lock_poll_ms s) of
           (Inl e, s1) \<Rightarrow> Some (Inl e, s1)
         | (Inr (Some c), s1) \<Rightarrow> Some (Inr (Some c), s1)
         | (Inr None, s1) \<Rightarrow>
             (case rl_get (src_store src) (token_lock_key (src_config src)) s1 of
                (Inl e, s2) \<Rightarrow> Some (Inl e, s2)
              | (Inr None, s2) \<Rightarrow> Some (read_cache src s2)
              | (Inr (Some _), s2) \<Rightarrow> poll_cache src deadline s2)))"

definition await_lock_holder :: "('s, 'c) token_source \<Rightarrow> ('s, cached_token option) wait" where
  "await_lock_holder src s =
     poll_cache src (pl_now (src_platform src) s + service_lock_ttl_seconds * ms_per_second) s"

definition acquire :: "('s, 'c) token_source \<Rightarrow> ('s, string) wait" where
  "acquire src =
     wait_bind (wait_io (rl_set (src_store src) (token_lock_key (src_config src)) ''1''
         \<lparr>so_ex = Some service_lock_ttl_seconds, so_nx = True\<rparr>)) (\<lambda>acquired.
     if \<not> acquired then
       wait_bind (await_lock_holder src) (\<lambda>winner.
       case winner of
         Some c \<Rightarrow> wait_io (io_return (ct_access_token c))
       | None \<Rightarrow> wait_io (fetch_and_cache src))
     else
       wait_io (io_finally
         (io_bind (read_cache src) (\<lambda>cached.
          case cached of None \<Rightarrow> fetch_and_cache src | Some c \<Rightarrow> io_return (ct_access_token c)))
         (rl_del (src_store src) (token_lock_key (src_config src)))))"

text \<open>A grant in flight is joined; one's own is there until it settles.\<close>

definition share_grant :: "('s, 'c) token_source \<Rightarrow> ('s, string) wait" where
  "share_grant src s =
     (case cell_get (src_inflight src) s of
        Some outcome \<Rightarrow> Some (outcome, s)
      | None \<Rightarrow>
          (case acquire src s of
             None \<Rightarrow> None
           | Some (r, s1) \<Rightarrow> Some (r, cell_put (src_inflight src) None (cell_put (src_inflight src) (Some r) s1))))"

definition token_get :: "('s, 'c) token_source \<Rightarrow> ('s, string) wait" where
  "token_get src =
     wait_bind (wait_io (read_cache src)) (\<lambda>cached.
     case cached of
       Some c \<Rightarrow> wait_io (io_return (ct_access_token c))
     | None \<Rightarrow> share_grant src)"

definition service_attempt ::
    "(fetch_request \<Rightarrow> 's \<Rightarrow> fetch_outcome \<times> 's) \<Rightarrow> fetch_request \<Rightarrow> string \<Rightarrow> ('s, response) io" where
  "service_attempt transport req token =
     io_bind (io_lift (transport (req\<lparr>fetch_headers :=
         h_set (h_copy (fetch_headers req)) ''authorization'' (''Bearer '' @ token)\<rparr>))) (\<lambda>outcome.
     case outcome of Fetched r \<Rightarrow> io_return r | Faulted e _ \<Rightarrow> io_throw e)"

definition service_send ::
    "('s, 'c) token_source \<Rightarrow> (fetch_request \<Rightarrow> 's \<Rightarrow> fetch_outcome \<times> 's) \<Rightarrow> fetch_request \<Rightarrow> ('s, response) wait" where
  "service_send src transport req =
     wait_bind (token_get src) (\<lambda>token.
     wait_bind (wait_io (service_attempt transport req token)) (\<lambda>r.
     if status r \<noteq> 401 then wait_io (io_return r)
     else
       wait_bind (wait_io (invalidate src token)) (\<lambda>_.
       wait_bind (token_get src) (\<lambda>fresh.
       wait_io (service_attempt transport req fresh)))))"

text \<open>\<open>selectCache\<close>\<close>

definition select_cache ::
    "(string \<Rightarrow> 'z memory_world_scheme redis_like) \<Rightarrow> env \<Rightarrow> 'z memory_world_scheme redis_like option
      \<Rightarrow> 'z memory_world_scheme redis_like" where
  "select_cache redis_from_url env store =
     (case store of
        Some s \<Rightarrow> s
      | None \<Rightarrow>
          if env_trimmed env ''REDIS_URL'' \<noteq> '''' then redis_from_url (env_trimmed env ''REDIS_URL'')
          else create_memory_redis)"

subsection \<open>Every call ends\<close>

text \<open>
  What a running clock promises: a timer waits at least as long as asked, and nothing turns the
  clock back. \<open>forward m\<close>: however \<open>m\<close> ends, the clock has not gone back.
\<close>

definition forward :: "('s \<Rightarrow> int) \<Rightarrow> ('s, 'a) io \<Rightarrow> bool" where
  "forward now m \<longleftrightarrow> (\<forall>s. now s \<le> now (snd (m s)))"

definition clock_runs :: "('s, 'c) token_source \<Rightarrow> bool" where
  "clock_runs src \<longleftrightarrow>
     (\<forall>ms s. pl_now (src_platform src) s + ms \<le> pl_now (src_platform src) (pl_delay (src_platform src) ms s))
   \<and> (\<forall>k. forward (pl_now (src_platform src)) (rl_get (src_store src) k))"

lemma forward_read_cache: "clock_runs src \<Longrightarrow> forward (pl_now (src_platform src)) (read_cache src)"
  by (auto simp: clock_runs_def forward_def read_cache_def io_bind_def io_of_def io_simps
      split: prod.splits sum.splits option.splits) (metis snd_conv)+

text \<open>\<open>ends sent m\<close>: \<open>m\<close> always comes to an end, and leaves what \<open>sent\<close> reads alone.\<close>

definition ends :: "('s \<Rightarrow> 'x) \<Rightarrow> ('s, 'a) wait \<Rightarrow> bool" where
  "ends sent m \<longleftrightarrow> (\<forall>s. \<exists>r s'. m s = Some (r, s') \<and> sent s' = sent s)"

named_theorems ends_intros \<open>operations that end\<close>

lemma ends_io [ends_intros]: "quiet sent m \<Longrightarrow> ends sent (wait_io m)"
  by (simp add: ends_def wait_io_def) (metis prod.collapse quietD)

lemma ends_bind [ends_intros]:
  assumes "ends sent m" "\<And>a. ends sent (f a)"
  shows "ends sent (wait_bind m f)"
  unfolding ends_def
proof
  fix s
  obtain r s1 where m: "m s = Some (r, s1)" "sent s1 = sent s" using assms(1) by (meson ends_def)
  show "\<exists>r s'. wait_bind m f s = Some (r, s') \<and> sent s' = sent s"
  proof (cases r)
    case (Inl e)
    with m show ?thesis by (simp add: wait_bind_def)
  next
    case (Inr a)
    obtain q s2 where "f a s1 = Some (q, s2)" "sent s2 = sent s1" using assms(2) by (fastforce simp: ends_def)
    with m Inr show ?thesis by (simp add: wait_bind_def)
  qed
qed

text \<open>The store, the issuer, the timer and the two cells leave the network alone.\<close>

definition calm_source :: "('s \<Rightarrow> 'x) \<Rightarrow> ('s, 'c) token_source \<Rightarrow> bool" where
  "calm_source sent src \<longleftrightarrow>
     (\<forall>k. quiet sent (rl_get (src_store src) k) \<and> quiet sent (rl_del (src_store src) k))
   \<and> (\<forall>k v opts. quiet sent (rl_set (src_store src) k v opts))
   \<and> (\<forall>url i secret insecure. quiet sent (oc_discovery (sl_client (src_lib src)) url i secret insecure))
   \<and> (\<forall>c scope. quiet sent (sl_client_credentials_grant (src_lib src) c scope))
   \<and> (\<forall>ms s. sent (pl_delay (src_platform src) ms s) = sent s)
   \<and> (\<forall>a s. sent (cell_put (src_configuration src) a s) = sent s)
   \<and> (\<forall>a s. sent (cell_put (src_inflight src) a s) = sent s)"

lemma calm_sourceD:
  assumes "calm_source sent src"
  shows "quiet sent (rl_get (src_store src) k)" "quiet sent (rl_del (src_store src) k)"
    "quiet sent (rl_set (src_store src) k v opts)"
    "quiet sent (oc_discovery (sl_client (src_lib src)) url i secret insecure)"
    "quiet sent (sl_client_credentials_grant (src_lib src) c scope)"
    "sent (pl_delay (src_platform src) ms s) = sent s"
    "quiet sent (io_modify (cell_put (src_configuration src) a))" "sent (cell_put (src_inflight src) b s) = sent s"
proof -
  note calm = assms [unfolded calm_source_def]
  show "quiet sent (io_modify (cell_put (src_configuration src) a))" using calm by (intro quiet_modify) blast
qed (use assms in \<open>simp_all add: calm_source_def\<close>)

lemma calm_operations:
  assumes "calm_source sent src"
  shows "quiet sent (read_cache src)" "quiet sent (invalidate src token)" "quiet sent (fetch_and_cache src)"
proof -
  note calm = calm_sourceD [OF assms]
  show "quiet sent (read_cache src)"
    unfolding read_cache_def by (intro quiet_intros calm) (auto split: option.split intro!: quiet_intros)
  show "quiet sent (invalidate src token)"
    unfolding invalidate_def by (intro quiet_intros calm) (auto split: option.split intro!: quiet_intros calm)
  have "quiet sent (service_discover src)"
    unfolding service_discover_def Let_def
    by (intro quiet_intros calm) (auto split: option.split intro!: quiet_intros calm)
  then show "quiet sent (fetch_and_cache src)"
    unfolding fetch_and_cache_def Let_def by (auto intro!: quiet_intros calm)
qed

lemma poll_cache_ends:
  assumes "calm_source sent src" "clock_runs src"
  shows "\<exists>r s'. poll_cache src deadline s = Some (r, s') \<and> sent s' = sent s"
proof (induction "nat (deadline - pl_now (src_platform src) s)" arbitrary: s rule: less_induct)
  case less
  let ?now = "pl_now (src_platform src)"
  note calm = calm_sourceD [OF assms(1)] and ops = calm_operations [OF assms(1)]
  show ?case
  proof (cases "deadline \<le> ?now s")
    case True
    then show ?thesis by (simp add: poll_cache.simps)
  next
    case False
    let ?d = "pl_delay (src_platform src) lock_poll_ms s"
    obtain x s1 where r: "read_cache src ?d = (x, s1)" by fastforce
    obtain y s2 where l: "rl_get (src_store src) (token_lock_key (src_config src)) s1 = (y, s2)" by fastforce
    obtain z s3 where last: "read_cache src s2 = (z, s3)" by fastforce
    have same: "sent s1 = sent s" "sent s2 = sent s" "sent s3 = sent s"
      using quietD [OF ops(1) r] quietD [OF calm(1) l] quietD [OF ops(1) last] calm(6) by simp_all
    have "?now s + lock_poll_ms \<le> ?now ?d" using assms(2) by (simp add: clock_runs_def)
    moreover have "?now ?d \<le> ?now s1" using forward_read_cache [OF assms(2)] r by (metis forward_def snd_conv)
    moreover have "?now s1 \<le> ?now s2" using assms(2) l by (metis clock_runs_def forward_def snd_conv)
    ultimately have "nat (deadline - ?now s2) < nat (deadline - ?now s)" using False by (simp add: lock_poll_ms_def)
    from less.hyps [OF this] obtain q s4 where "poll_cache src deadline s2 = Some (q, s4)" "sent s4 = sent s"
      using same(2) by auto
    with False r l last same show ?thesis
      by (simp add: poll_cache.simps [of src deadline s] split: sum.splits option.splits)
  qed
qed

lemma token_get_ends:
  assumes "calm_source sent src" "clock_runs src"
  shows "ends sent (token_get src)"
proof -
  note calm = calm_sourceD [OF assms(1)] and ops = calm_operations [OF assms(1)]
  have "ends sent (await_lock_holder src)"
    using poll_cache_ends [OF assms] by (simp add: ends_def await_lock_holder_def)
  then have acquire: "ends sent (acquire src)"
    unfolding acquire_def
    by (intro ends_intros calm) (auto intro!: ends_intros quiet_intros calm ops split: option.split)
  have "ends sent (share_grant src)"
    unfolding ends_def
  proof
    fix s
    obtain r s1 where "acquire src s = Some (r, s1)" "sent s1 = sent s" using acquire by (meson ends_def)
    then show "\<exists>r s'. share_grant src s = Some (r, s') \<and> sent s' = sent s"
      by (cases "cell_get (src_inflight src) s") (simp_all add: share_grant_def calm(8))
  qed
  then show ?thesis
    unfolding token_get_def by (intro ends_intros ops) (auto intro!: ends_intros quiet_intros split: option.split)
qed

text \<open>
  C34: Every call of the service client ends, after one or two requests at most. However long another
  replica holds the renewal lock, and whatever the cache, the issuer and the API answer, the call
  comes to an end as long as timers wait and no clock goes back; every request it sends is the
  caller's, with a bearer in place of its authorization.
\<close>

theorem service_call_ends:
  assumes "calm_source sent src" "clock_runs src" "\<And>q s. sent (snd (transport q s)) = sent s @ [q]"
  shows "\<exists>r s' rs. service_send src transport req s = Some (r, s') \<and> sent s' = sent s @ rs \<and> length rs \<le> 2
    \<and> (\<forall>q \<in> set rs. \<exists>token. q = req\<lparr>fetch_headers := h_set (h_copy (fetch_headers req)) ''authorization'' (''Bearer '' @ token)\<rparr>)"
proof -
  let ?q = "\<lambda>token. req\<lparr>fetch_headers := h_set (h_copy (fetch_headers req)) ''authorization'' (''Bearer '' @ token)\<rparr>"
  have attempt: "\<exists>r s'. service_attempt transport req token s = (r, s') \<and> sent s' = sent s @ [?q token]" for token s
  proof -
    obtain x s' where x: "transport (?q token) s = (x, s')" by fastforce
    moreover have "sent s' = sent s @ [?q token]" using assms(3) [of "?q token" s] x by simp
    ultimately show ?thesis
      by (cases x) (simp_all add: service_attempt_def io_bind_def io_lift_apply io_return_apply io_throw_apply)
  qed
  obtain t s1 where t: "token_get src s = Some (t, s1)" "sent s1 = sent s"
    using token_get_ends [OF assms(1,2)] by (meson ends_def)
  show ?thesis
  proof (cases t)
    case (Inl e)
    with t show ?thesis by (intro exI [of _ "Inl e"] exI [of _ s1] exI [of _ "[]"]) (simp add: service_send_def wait_bind_def)
  next
    case (Inr token)
    obtain r s2 where r: "service_attempt transport req token s1 = (r, s2)" "sent s2 = sent s @ [?q token]"
      using attempt t(2) by metis
    show ?thesis
    proof (cases "\<exists>a. r = Inr a \<and> status a = 401")
      case False
      then have "service_send src transport req s = Some (r, s2)"
        using t(1) Inr r(1) by (cases r) (auto simp: service_send_def wait_bind_def wait_io_def io_return_apply)
      with r(2) show ?thesis by (intro exI [of _ r] exI [of _ s2] exI [of _ "[?q token]"]) auto
    next
      case True
      then obtain a where a: "r = Inr a" "status a = 401" by blast
      obtain i s3 where i: "invalidate src token s2 = (i, s3)" by fastforce
      have s3: "sent s3 = sent s @ [?q token]" using quietD [OF calm_operations(2) [OF assms(1)] i] r(2) by simp
      obtain u s4 where u: "token_get src s3 = Some (u, s4)" "sent s4 = sent s3"
        using token_get_ends [OF assms(1,2)] by (meson ends_def)
      have run: "service_send src transport req s = (case i of Inl e \<Rightarrow> Some (Inl e, s3) | Inr _ \<Rightarrow>
          (case u of Inl e \<Rightarrow> Some (Inl e, s4) | Inr fresh \<Rightarrow> Some (service_attempt transport req fresh s4)))"
        using t(1) Inr r(1) a i u(1)
        by (simp add: service_send_def wait_bind_def wait_io_def split: sum.splits)
      show ?thesis
      proof (cases "\<exists>x fresh. i = Inr x \<and> u = Inr fresh")
        case True
        then obtain x fresh where f: "i = Inr x" "u = Inr fresh" by blast
        obtain r' s5 where "service_attempt transport req fresh s4 = (r', s5)" "sent s5 = sent s4 @ [?q fresh]"
          using attempt by blast
        with run f s3 u(2) show ?thesis
          by (intro exI [of _ r'] exI [of _ s5] exI [of _ "[?q token, ?q fresh]"]) auto
      next
        case False
        then obtain e s5 where "service_send src transport req s = Some (Inl e, s5)" "s5 \<in> {s3, s4}"
          using run by (cases i; cases u) auto
        with s3 u(2) show ?thesis by (intro exI [of _ "Inl e"] exI [of _ s5] exI [of _ "[?q token]"]) auto
      qed
    qed
  qed
qed

subsection \<open>One grant serves every replica\<close>

lemma mem_clock [simp]:
  "clock (snd (mem_get k w)) = clock w" "clock (snd (mem_set k v opts w)) = clock w" "clock (snd (mem_del k w)) = clock w"
  by (auto simp: mem_get_def mem_set_def mem_del_def mem_alive_def mem_alive_set_def Let_def split: option.splits prod.splits if_splits)

lemma mem_more [simp]:
  "memory_world.more (snd (mem_get k w)) = memory_world.more w" "memory_world.more (snd (mem_set k v opts w)) = memory_world.more w"
  "memory_world.more (snd (mem_del k w)) = memory_world.more w"
  by (auto simp: mem_get_def mem_set_def mem_del_def mem_alive_def mem_alive_set_def Let_def split: option.splits prod.splits if_splits)

lemma cached_round_trip: "parse_cached (json_print (cached_to_json c)) = Inr (cached_to_json c)" "cached_of_json (cached_to_json c) = Some c"
proof -
  have "json_ok (cached_to_json c)" by (simp add: cached_to_json_def obj_wf_def)
  then have "json_parse (json_print (cached_to_json c)) = Some (cached_to_json c)" by (rule json_parse_print)
  then show "parse_cached (json_print (cached_to_json c)) = Inr (cached_to_json c)"
    by (simp add: parse_cached_def cached_to_json_def del: json_print.simps)
  show "cached_of_json (cached_to_json c) = Some c"
    by (cases c) (simp add: cached_of_json_def cached_to_json_def j_string_def)
qed

text \<open>Counting a fraction up compares with a whole number as the fraction does.\<close>

lemma fraction_counts_up: "now < - ((- m) div 10 ^ k) \<longleftrightarrow> now * 10 ^ k < m" for now m :: int
proof -
  have key: "now < - d \<longleftrightarrow> now * q < m" if m: "- m = q * d + r" and r: "0 \<le> r" "r < q" for q d r :: int
  proof
    assume "now < - d"
    then have "q * d \<le> q * (- now - 1)" using r by (intro mult_left_mono) simp_all
    with m r show "now * q < m" by (simp add: algebra_simps)
  next
    assume less: "now * q < m"
    show "now < - d"
    proof (rule ccontr)
      assume "\<not> now < - d"
      then have "q * (- now) \<le> q * d" using r by (intro mult_left_mono) simp_all
      with m r less show False by (simp add: algebra_simps)
    qed
  qed
  show ?thesis by (rule key [where r = "(- m) mod 10 ^ k"]) simp_all
qed

definition on_memory :: "('z memory_world_scheme, 'c) token_source \<Rightarrow> bool" where
  "on_memory src \<longleftrightarrow> src_store src = create_memory_redis \<and> pl_now (src_platform src) = clock"

lemma memory_get:
  assumes "mem_healthy w"
  obtains w' where "rl_get create_memory_redis k w = (Inr (mem_lookup w k), w')" "mem_healthy w'" "mem_lookup w' = mem_lookup w"
    "clock w' = clock w" "memory_world.more w' = memory_world.more w"
proof -
  obtain w' where w': "rl_get create_memory_redis k w = (Inr (mem_lookup w k), w')" "mem_healthy w'" "mem_lookup w' = mem_lookup w"
    using memory.get [OF assms] by blast
  then have "clock w' = clock w" "memory_world.more w' = memory_world.more w"
    using mem_clock(1) [of k w] mem_more(1) [of k w] by (simp_all add: create_memory_redis_def)
  with w' that show thesis by blast
qed

lemma read_cache_memory:
  assumes "on_memory src" "mem_healthy w"
  shows "mem_lookup w (token_cache_key (src_config src)) = None \<Longrightarrow>
      \<exists>w'. read_cache src w = (Inr None, w') \<and> mem_healthy w' \<and> mem_lookup w' = mem_lookup w \<and> clock w' = clock w \<and> memory_world.more w' = memory_world.more w"
    and "mem_lookup w (token_cache_key (src_config src)) = Some (json_print (cached_to_json c)) \<Longrightarrow>
      \<exists>w'. read_cache src w = (Inr (if clock w < ct_expires_at c - expiry_skew_ms then Some c else None), w')
        \<and> mem_healthy w' \<and> mem_lookup w' = mem_lookup w \<and> clock w' = clock w \<and> memory_world.more w' = memory_world.more w"
proof -
  obtain w' where w': "rl_get create_memory_redis (token_cache_key (src_config src)) w
      = (Inr (mem_lookup w (token_cache_key (src_config src))), w')"
    "mem_healthy w'" "mem_lookup w' = mem_lookup w" "clock w' = clock w" "memory_world.more w' = memory_world.more w"
    using memory_get [OF assms(2)] by blast
  have src: "src_store src = create_memory_redis" "pl_now (src_platform src) = clock"
    using assms(1) by (simp_all add: on_memory_def)
  show "\<exists>w'. read_cache src w = (Inr None, w') \<and> mem_healthy w' \<and> mem_lookup w' = mem_lookup w \<and> clock w' = clock w \<and> memory_world.more w' = memory_world.more w"
    if "mem_lookup w (token_cache_key (src_config src)) = None"
    using w' that by (simp add: read_cache_def src io_bind_def io_return_apply)
  show "\<exists>w'. read_cache src w = (Inr (if clock w < ct_expires_at c - expiry_skew_ms then Some c else None), w')
      \<and> mem_healthy w' \<and> mem_lookup w' = mem_lookup w \<and> clock w' = clock w \<and> memory_world.more w' = memory_world.more w"
    if "mem_lookup w (token_cache_key (src_config src)) = Some (json_print (cached_to_json c))"
    using w' that by (simp add: read_cache_def src io_bind_def io_return_apply io_gets_apply cached_round_trip)
qed

lemma service_keys_differ: "token_cache_key config \<noteq> token_lock_key config'"
  by (simp add: token_cache_key_def token_lock_key_def service_key_prefix_def)

text \<open>
  What a grant costs is counted outside the store: \<open>grants\<close> reads how many the issuer has made, the store
  leaves that alone, and each grant raises it by one and is answered with its own token.
\<close>

definition counts_grants ::
    "('z memory_world_scheme \<Rightarrow> nat) \<Rightarrow> (nat \<Rightarrow> token_set) \<Rightarrow> ('z memory_world_scheme, 'c) token_source \<Rightarrow> bool" where
  "counts_grants grants issued src \<longleftrightarrow>
     (\<forall>w w'. memory_world.more w' = memory_world.more w \<longrightarrow> grants w' = grants w)
   \<and> (\<forall>w. mem_healthy w \<longrightarrow> (\<exists>c w'. service_discover src w = (Inr c, w') \<and> mem_healthy w' \<and> clock w \<le> clock w' \<and> grants w' = grants w))
   \<and> (\<forall>c scope w. mem_healthy w \<longrightarrow> (\<exists>w'. sl_client_credentials_grant (src_lib src) c scope w = (Inr (issued (grants w)), w')
        \<and> mem_healthy w' \<and> clock w \<le> clock w' \<and> grants w' = Suc (grants w)))"

lemma counts_grantsD:
  assumes "counts_grants grants issued src" "mem_healthy w"
  shows "memory_world.more w'' = memory_world.more w \<Longrightarrow> grants w'' = grants w"
    and "\<exists>c w'. service_discover src w = (Inr c, w') \<and> mem_healthy w' \<and> clock w \<le> clock w' \<and> grants w' = grants w"
    and "\<exists>w'. sl_client_credentials_grant (src_lib src) c scope w = (Inr (issued (grants w)), w')
        \<and> mem_healthy w' \<and> clock w \<le> clock w' \<and> grants w' = Suc (grants w)"
  using assms unfolding counts_grants_def by blast+

lemma mem_set_entry_at:
  assumes "mem_set k v \<lparr>so_ex = Some e, so_nx = False\<rparr> w = (r, w')"
  shows "obj_get (entries w') k = Some \<lparr>me_value = v, me_expires_at = Some (clock w + e * 1000)\<rparr>"
  using assms by (auto simp: mem_set_def)

lemma mem_del_other: "mem_del k w = (r, w') \<Longrightarrow> k' \<noteq> k \<Longrightarrow> obj_get (entries w') k' = obj_get (entries w) k'"
  by (auto simp: mem_del_def mem_alive_def mem_alive_set_def Let_def split: option.splits prod.splits if_splits)

text \<open>A replica that finds the lock free and the cache empty asks the issuer for just one grant.\<close>

lemma acquire_grants_once:
  fixes src :: "('z memory_world_scheme, 'c) token_source"
  assumes "on_memory src" "mem_healthy w" "counts_grants grants issued src"
    and "mem_lookup w (token_cache_key (src_config src)) = None" "mem_lookup w (token_lock_key (src_config src)) = None"
    and "ts_expires_in (issued (grants w)) = Some e" "0 < e"
  obtains w1 now where "acquire src w = Some (Inr (ts_access_token (issued (grants w))), w1)" "grants w1 = Suc (grants w)"
    "mem_healthy w1" "mem_lookup w1 (token_lock_key (src_config src)) = None" "clock w \<le> now"
    "obj_get (entries w1) (token_cache_key (src_config src)) = Some
       \<lparr>me_value = json_print (cached_to_json \<lparr>ct_access_token = ts_access_token (issued (grants w)),
            ct_expires_at = now + e * ms_per_second\<rparr>), me_expires_at = Some (now + e * 1000)\<rparr>"
proof -
  let ?cache = "token_cache_key (src_config src)" and ?lock = "token_lock_key (src_config src)" and ?tokens = "issued (grants w)"
  let ?nx = "\<lparr>so_ex = Some service_lock_ttl_seconds, so_nx = True\<rparr>" and ?ex = "\<lparr>so_ex = Some e, so_nx = False\<rparr>"
  note differ = service_keys_differ [of "src_config src" "src_config src"]
  have same: "grants w' = grants w''" if "memory_world.more w' = memory_world.more w''" for w' w''
    using assms(3) that unfolding counts_grants_def by blast
  have src: "src_store src = create_memory_redis" "pl_now (src_platform src) = clock"
    using assms(1) by (simp_all add: on_memory_def)
  obtain wa where wa: "rl_set create_memory_redis ?lock ''1'' ?nx w = (Inr True, wa)" "mem_healthy wa"
      "mem_lookup wa = (mem_lookup w)(?lock := Some ''1'')"
    using memory.set_done [OF assms(2), of ?nx ?lock "''1''"] assms(5) by (auto simp: service_lock_ttl_seconds_def)
  have ca: "clock wa = clock w" "grants wa = grants w"
    using wa(1) mem_clock(2) [of ?lock "''1''" ?nx w] same [OF mem_more(2) [of ?lock "''1''" ?nx w]]
    by (simp_all add: create_memory_redis_def)
  have "mem_lookup wa ?cache = None" using wa(3) assms(4) differ by simp
  from read_cache_memory(1) [OF assms(1) wa(2) this]
  obtain wb where wb: "read_cache src wa = (Inr None, wb)" "mem_healthy wb" "clock wb = clock w" "grants wb = grants w"
    using ca same by metis
  obtain c wd where wd: "service_discover src wb = (Inr c, wd)" "mem_healthy wd" "clock wb \<le> clock wd" "grants wd = grants w"
    using counts_grantsD(2) [OF assms(3) wb(2)] wb(4) by auto
  obtain wc where wc: "sl_client_credentials_grant (src_lib src) c (js_join '' '' (sc_scopes (src_config src))) wd = (Inr ?tokens, wc)"
      "mem_healthy wc" "clock wd \<le> clock wc" "grants wc = Suc (grants w)"
    using counts_grantsD(3) [OF assms(3) wd(2), of c "js_join '' '' (sc_scopes (src_config src))"] wd(4) by auto
  define entry where "entry = \<lparr>ct_access_token = ts_access_token ?tokens, ct_expires_at = clock wc + e * ms_per_second\<rparr>"
  obtain we where we: "rl_set create_memory_redis ?cache (json_print (cached_to_json entry)) ?ex wc = (Inr True, we)" "mem_healthy we"
    using memory.set_done [OF wc(2), of ?ex ?cache] assms(7) by auto
  obtain n wf where wf: "rl_del create_memory_redis ?lock we = (Inr n, wf)" "mem_healthy wf"
      "mem_lookup wf = (mem_lookup we)(?lock := None)"
    using memory.del [OF we(2)] by blast
  have "fetch_and_cache src wb = (Inr (ts_access_token ?tokens), we)"
    unfolding fetch_and_cache_def
    using wd(1) wc(1) we(1) assms(6,7)
    by (simp add: io_bind_def io_gets_apply io_return_apply src no_expiry_seconds_def Let_def entry_def)
  then have run: "acquire src w = Some (Inr (ts_access_token ?tokens), wf)"
    using wa(1) wb(1) wf(1)
    by (simp add: acquire_def wait_bind_def wait_io_def src io_finally_def io_bind_def)
  have set: "mem_set ?cache (json_print (cached_to_json entry)) ?ex wc = (Inr True, we)" and del: "mem_del ?lock we = (Inr n, wf)"
    using we(1) wf(1) by (simp_all add: create_memory_redis_def)
  have "grants wf = Suc (grants w)"
    using same [OF mem_more(2) [of ?cache "json_print (cached_to_json entry)" ?ex wc]] same [OF mem_more(3) [of ?lock we]] set del wc(4)
    by (simp del: mem_more)
  moreover have "obj_get (entries wf) ?cache = Some \<lparr>me_value = json_print (cached_to_json entry), me_expires_at = Some (clock wc + e * 1000)\<rparr>"
    using mem_del_other [OF del differ] mem_set_entry_at [OF set] by simp
  ultimately show thesis
    using that [OF run _ wf(2)] wf(3) wd(3) wc(3) wb(3) by (simp add: entry_def)
qed

text \<open>
  C35: One grant serves every replica. When the cache is empty and the renewal lock is free, a replica asks
  the issuer once, not twice, releases the lock and leaves the token in the shared cache: until half a
  minute before the token expires every replica that asks is handed that token out of the cache, which has
  not expired by then, and asks for no grant of its own; as long as nobody deletes or overwrites the entry.
\<close>

theorem one_grant_serves_every_replica:
  fixes src :: "('z memory_world_scheme, 'c) token_source" and replica :: "('z memory_world_scheme, 'd) token_source"
  assumes "on_memory src" "mem_healthy w" "counts_grants grants issued src"
    and "mem_lookup w (token_cache_key (src_config src)) = None" "mem_lookup w (token_lock_key (src_config src)) = None"
    and "ts_expires_in (issued (grants w)) = Some e" "0 < e"
    and "on_memory replica" "src_config replica = src_config src"
  shows "\<exists>w1. acquire src w = Some (Inr (ts_access_token (issued (grants w))), w1) \<and> grants w1 = Suc (grants w) \<and> mem_healthy w1
    \<and> mem_lookup w1 (token_lock_key (src_config src)) = None
    \<and> (\<forall>w2. mem_healthy w2
         \<and> obj_get (entries w2) (token_cache_key (src_config src)) = obj_get (entries w1) (token_cache_key (src_config src))
         \<and> clock w2 < clock w + e * ms_per_second - expiry_skew_ms
         \<longrightarrow> (\<exists>w3. token_get replica w2 = Some (Inr (ts_access_token (issued (grants w))), w3)
              \<and> grants w3 = grants w2 \<and> mem_lookup w3 = mem_lookup w2))"
proof -
  let ?cache = "token_cache_key (src_config src)"
  obtain w1 now where w1: "acquire src w = Some (Inr (ts_access_token (issued (grants w))), w1)" "grants w1 = Suc (grants w)"
    "mem_healthy w1" "mem_lookup w1 (token_lock_key (src_config src)) = None" "clock w \<le> now"
    "obj_get (entries w1) ?cache = Some
       \<lparr>me_value = json_print (cached_to_json \<lparr>ct_access_token = ts_access_token (issued (grants w)),
            ct_expires_at = now + e * ms_per_second\<rparr>), me_expires_at = Some (now + e * 1000)\<rparr>"
    by (rule acquire_grants_once [OF assms(1-7)])
  let ?entry = "\<lparr>ct_access_token = ts_access_token (issued (grants w)), ct_expires_at = now + e * ms_per_second\<rparr>"
  have "\<exists>w3. token_get replica w2 = Some (Inr (ts_access_token (issued (grants w))), w3) \<and> grants w3 = grants w2 \<and> mem_lookup w3 = mem_lookup w2"
    if w2: "mem_healthy w2" "obj_get (entries w2) ?cache = obj_get (entries w1) ?cache"
      "clock w2 < clock w + e * ms_per_second - expiry_skew_ms" for w2
  proof -
    have early: "clock w2 < ct_expires_at ?entry - expiry_skew_ms" using w2(3) w1(5) by simp
    then have "mem_lookup w2 (token_cache_key (src_config replica)) = Some (json_print (cached_to_json ?entry))"
      using w2(2) w1(6) by (simp add: mem_lookup_def expired_def assms(9) ms_per_second_def expiry_skew_ms_def)
    from read_cache_memory(2) [OF assms(8) w2(1) this] early obtain w3 where
      w3: "read_cache replica w2 = (Inr (Some ?entry), w3)" "mem_lookup w3 = mem_lookup w2" "memory_world.more w3 = memory_world.more w2"
      by auto
    have "grants w3 = grants w2" using assms(3) w3(3) unfolding counts_grants_def by blast
    with w3 show ?thesis by (simp add: token_get_def wait_bind_def wait_io_def io_return_apply)
  qed
  with w1(1-4) show ?thesis by blast
qed

subsection \<open>Concrete sources\<close>

definition demo_service_config :: service_config where
  "demo_service_config =
     \<lparr>sc_issuer = ''https://id.test'', sc_client_id = ''worker'', sc_client_secret = ''s'', sc_scopes = [''inquiries.write'', ''api''],
      sc_api_base_url = ''http://api.test'', sc_metadata_url = None\<rparr>"

definition demo_service_lib :: "('s, unit) service_lib" where
  "demo_service_lib = \<lparr>sl_client = demo_client, sl_client_credentials_grant = (\<lambda>c scope. io_return demo_tokens)\<rparr>"

text \<open>The network's log and the clock, a store another replica has locked for good, and timers that wait.\<close>

definition locked_store :: "(fetch_request list \<times> int) redis_like" where
  "locked_store =
     \<lparr>rl_get = (\<lambda>k. io_return (Some ''1'')), rl_set = (\<lambda>k v opts. io_return False), rl_del = (\<lambda>k. io_return 1),
      rl_sadd = (\<lambda>k m. io_return 0), rl_srem = (\<lambda>k m. io_return 0), rl_smembers = (\<lambda>k. io_return []),
      rl_expire = (\<lambda>k t. io_return ())\<rparr>"

definition locked_source :: "(fetch_request list \<times> int, unit) token_source" where
  "locked_source =
     \<lparr>src_config = demo_service_config, src_store = locked_store, src_lib = demo_service_lib,
      src_platform = demo_platform\<lparr>pl_now := snd, pl_delay := (\<lambda>ms s. (fst s, snd s + ms))\<rparr>,
      src_configuration = \<lparr>cell_get = (\<lambda>s. Some ()), cell_put = (\<lambda>a s. s)\<rparr>,
      src_inflight = \<lparr>cell_get = (\<lambda>s. None), cell_put = (\<lambda>a s. s)\<rparr>\<rparr>"

definition demo_transport :: "fetch_request \<Rightarrow> fetch_request list \<times> int \<Rightarrow> fetch_outcome \<times> fetch_request list \<times> int" where
  "demo_transport q s = (Fetched (new_response 401 None []), fst s @ [q], snd s)"

definition demo_service_request :: fetch_request where
  "demo_service_request =
     \<lparr>fetch_url = ''http://api.test/v1/inquiries'', fetch_method = ''POST'', fetch_headers = [], fetch_body = Some ''{}''\<rparr>"

theorem service_call_ends_witness:
  "\<exists>r s' rs. service_send locked_source demo_transport demo_service_request ([], 0) = Some (r, s') \<and> fst s' = [] @ rs \<and> length rs \<le> 2
    \<and> (\<forall>q \<in> set rs. \<exists>token. q = demo_service_request\<lparr>fetch_headers :=
          h_set (h_copy (fetch_headers demo_service_request)) ''authorization'' (''Bearer '' @ token)\<rparr>)"
proof -
  have "calm_source fst locked_source"
    by (simp add: calm_source_def locked_source_def locked_store_def demo_service_lib_def demo_client_def quiet_intros)
  moreover have "clock_runs locked_source"
    by (simp add: clock_runs_def forward_def locked_source_def locked_store_def io_return_apply)
  moreover have "fst (snd (demo_transport q s)) = fst s @ [q]" for q s by (simp add: demo_transport_def)
  ultimately show ?thesis
    using service_call_ends [of fst locked_source demo_transport demo_service_request "([], 0)"] by simp
qed

text \<open>A shared store beside an issuer that numbers its grants.\<close>

record granting_world = memory_world +
  granted :: nat

definition numbered_tokens :: "nat \<Rightarrow> token_set" where
  "numbered_tokens n = demo_tokens\<lparr>ts_access_token := ''at'' @ nat_to_string n\<rparr>"

definition memory_source :: "(granting_world, unit) token_source" where
  "memory_source =
     \<lparr>src_config = demo_service_config, src_store = create_memory_redis,
      src_lib = demo_service_lib\<lparr>sl_client_credentials_grant :=
        (\<lambda>c scope w. (Inr (numbered_tokens (granted w)), w\<lparr>granted := Suc (granted w)\<rparr>))\<rparr>,
      src_platform = demo_platform\<lparr>pl_now := clock\<rparr>,
      src_configuration = \<lparr>cell_get = (\<lambda>w. Some ()), cell_put = (\<lambda>a w. w)\<rparr>,
      src_inflight = \<lparr>cell_get = (\<lambda>w. None), cell_put = (\<lambda>a w. w)\<rparr>\<rparr>"

definition granting_start :: granting_world where
  "granting_start = \<lparr>entries = [], sets = [], clock = 0, granted = 7\<rparr>"

theorem one_grant_serves_every_replica_witness:
  "\<exists>w1. acquire memory_source granting_start = Some (Inr ''at7'', w1) \<and> granted w1 = 8 \<and> mem_healthy w1
    \<and> mem_lookup w1 (token_lock_key demo_service_config) = None
    \<and> (\<forall>w2. mem_healthy w2
         \<and> obj_get (entries w2) (token_cache_key demo_service_config) = obj_get (entries w1) (token_cache_key demo_service_config)
         \<and> clock w2 < 270000
         \<longrightarrow> (\<exists>w3. token_get memory_source w2 = Some (Inr ''at7'', w3) \<and> granted w3 = granted w2 \<and> mem_lookup w3 = mem_lookup w2))"
proof -
  have mem: "on_memory memory_source" by (simp add: on_memory_def memory_source_def)
  have config: "src_config memory_source = demo_service_config" by (simp add: memory_source_def)
  have counts: "counts_grants granted numbered_tokens memory_source"
    unfolding counts_grants_def
  proof (intro conjI allI impI)
    fix w w' :: granting_world assume "memory_world.more w' = memory_world.more w"
    then show "granted w' = granted w" by (cases w; cases w') simp
  next
    fix w :: granting_world assume healthy: "mem_healthy w"
    have "service_discover memory_source w = (Inr (), w)"
      by (simp add: service_discover_def memory_source_def io_bind_def io_gets_apply io_return_apply)
    with healthy show "\<exists>c w'. service_discover memory_source w = (Inr c, w') \<and> mem_healthy w' \<and> clock w \<le> clock w' \<and> granted w' = granted w"
      by blast
    fix c scope
    have "mem_healthy (w\<lparr>granted := Suc (granted w)\<rparr>)" using healthy by (simp add: mem_healthy_def)
    then show "\<exists>w'. sl_client_credentials_grant (src_lib memory_source) c scope w = (Inr (numbered_tokens (granted w)), w')
        \<and> mem_healthy w' \<and> clock w \<le> clock w' \<and> granted w' = Suc (granted w)"
      by (simp add: memory_source_def demo_service_lib_def)
  qed
  have start: "granted granting_start = 7" "clock granting_start = 0" "mem_healthy granting_start" "mem_lookup granting_start k = None" for k
    by (simp_all add: granting_start_def mem_defs obj_wf_def)
  have "nat_to_string 7 = ''7''" by code_simp
  then have tokens: "ts_expires_in (numbered_tokens 7) = Some 300" "ts_access_token (numbered_tokens 7) = ''at7''"
    by (simp_all add: numbered_tokens_def demo_tokens_def)
  have until: "0 + 300 * ms_per_second - expiry_skew_ms = 270000" by (simp add: ms_per_second_def expiry_skew_ms_def)
  have eight: "Suc 7 = 8" by simp
  have free: "mem_lookup granting_start (token_cache_key (src_config memory_source)) = None"
    "mem_lookup granting_start (token_lock_key (src_config memory_source)) = None" by (rule start(4))+
  have expires: "ts_expires_in (numbered_tokens (granted granting_start)) = Some 300" unfolding start(1) by (rule tokens(1))
  show ?thesis
    using one_grant_serves_every_replica [OF mem start(3) counts free expires _ mem refl, unfolded start(1,2) config tokens(2) until eight]
    by simp
qed

end
