(* ===== verification/RefreshRace.thy ===== *)
theory RefreshRace
  imports Proxy
begin

section \<open>Racing refreshes (\<open>sdk/src/server/proxy.ts\<close> over \<open>store/valkey.ts\<close>)\<close>

text \<open>
  Requests of one or several replicas that refresh sessions through one Redis server. Each request
  runs \<open>refreshUnderLock\<close> over the Valkey store, cut at its awaits: the conditional write of the
  lock key, the grant at the issuer, the write of the rotated session, the deletion of the lock
  key, and the read that adopts a peer's session. Between two steps of a request the others run,
  time passes and the rest of the server works on the store.
\<close>

datatype phase =
    Waiting string bff_session
  | Granting string bff_session
  | Storing string bff_session token_response
  | Releasing string "thrown + stored_session"
  | Adopting string
  | Settled "thrown + stored_session"

text \<open>The session id whose lock a request holds.\<close>

fun holds :: "phase \<Rightarrow> string option" where
  "holds (Granting k b) = Some k"
| "holds (Storing k b t) = Some k"
| "holds (Releasing k r) = Some k"
| "holds _ = None"

subsection \<open>The steps of one request\<close>

definition grant_tokens ::
    "('s, 'c) oidc \<Rightarrow> bff_config \<Rightarrow> bff_session \<Rightarrow> ('s, token_response) io" where
  "grant_tokens oidc config session =
     io_catch
       (io_bind (discover oidc config)
          (\<lambda>doc. refresh_tokens oidc doc (case refresh_token session of Some t \<Rightarrow> t | None \<Rightarrow> '''')))
       (\<lambda>e. io_throw (refresh_failed_error (cause_detail e)))"

definition store_rotation ::
    "'s platform \<Rightarrow> ('s, stored_session) session_store \<Rightarrow> bff_session \<Rightarrow> token_response \<Rightarrow> ('s, stored_session) io" where
  "store_rotation pl store session tokens =
     io_bind (io_gets (pl_now pl)) (\<lambda>now.
     (let next = rotated_session session tokens now in
      io_bind (st_write store next) (\<lambda>next_ref.
      io_return \<lparr>ss_session = next, ss_ref = next_ref\<rparr>)))"

definition adopt_peer :: "('s, stored_session) session_store \<Rightarrow> string \<Rightarrow> ('s, stored_session) io" where
  "adopt_peer store ref =
     io_bind (st_read store ref) (\<lambda>peer.
     case peer of
       None \<Rightarrow> io_throw (refresh_failed_error (Some ''Session refresh lock was held but the session is gone''))
     | Some p \<Rightarrow> io_return \<lparr>ss_session = p, ss_ref = ref\<rparr>)"

text \<open>An outcome that is thrown ends the request, or lets the \<open>finally\<close> run.\<close>

definition after :: "('a \<Rightarrow> phase) \<Rightarrow> (thrown \<Rightarrow> phase) \<Rightarrow> ('s, 'a) io \<Rightarrow> 's \<Rightarrow> phase \<times> 's" where
  "after next failed m w = (case m w of (Inr a, w') \<Rightarrow> (next a, w') | (Inl e, w') \<Rightarrow> (failed e, w'))"

definition take_lock :: "'s iron \<Rightarrow> 's valkey \<Rightarrow> string \<Rightarrow> ('s, string option) io" where
  "take_lock iron v ref =
     io_bind (ref_to_id iron v ref) (\<lambda>i.
     case i of
       None \<Rightarrow> io_return None
     | Some i \<Rightarrow>
         io_bind (rl_set (client v) (lock_key v i) ''1'' (nx_option (lock_ttl_seconds v)))
           (\<lambda>acquired. io_return (if acquired then Some i else None)))"

text \<open>The store a replica's proxy works on, sealed and fed with randomness by its platform.\<close>

abbreviation replica_store :: "'s platform \<Rightarrow> 's valkey \<Rightarrow> ('s, stored_session) session_store" where
  "replica_store pl v \<equiv> valkey_store (pl_iron pl) (pl_random pl) v"

fun request_step ::
    "'s platform \<Rightarrow> ('s, 'c) oidc \<Rightarrow> bff_config \<Rightarrow> 's valkey \<Rightarrow> phase \<times> 's \<Rightarrow> phase \<times> 's" where
  "request_step pl oidc config v (Waiting ref b, w) =
     after (\<lambda>k. case k of Some k \<Rightarrow> Granting k b | None \<Rightarrow> Adopting ref) (\<lambda>e. Settled (Inl e)) (take_lock (pl_iron pl) v ref) w"
| "request_step pl oidc config v (Granting k b, w) =
     after (Storing k b) (\<lambda>e. Releasing k (Inl e)) (grant_tokens oidc config b) w"
| "request_step pl oidc config v (Storing k b t, w) =
     after (\<lambda>s. Releasing k (Inr s)) (\<lambda>e. Releasing k (Inl e)) (store_rotation pl (replica_store pl v) b t) w"
| "request_step pl oidc config v (Releasing k r, w) =
     after (\<lambda>n. Settled r) (\<lambda>e. Settled (Inl e)) (rl_del (client v) (lock_key v k)) w"
| "request_step pl oidc config v (Adopting ref, w) =
     after (\<lambda>s. Settled (Inr s)) (\<lambda>e. Settled (Inl e)) (adopt_peer (replica_store pl v) ref) w"
| "request_step pl oidc config v (Settled r, w) = (Settled r, w)"

text \<open>Run without interruption, the steps are \<open>refreshUnderLock\<close>.\<close>

lemma rotate_session_steps:
  "rotate_session pl oidc config store b = io_bind (grant_tokens oidc config b) (store_rotation pl store b)"
  unfolding rotate_session_def grant_tokens_def store_rotation_def Let_def ..

lemma settled_stays: "(request_step pl oidc config v ^^ n) (Settled r, w) = (Settled r, w)"
  by (induction n) simp_all

lemma take_lock_refresh:
  "valkey_with_refresh_lock iron v ref fn = io_bind (take_lock iron v ref) (\<lambda>k.
     case k of
       None \<Rightarrow> io_return None
     | Some k \<Rightarrow> io_finally (io_bind fn (\<lambda>t. io_return (Some t))) (rl_del (client v) (lock_key v k)))"
  by (rule ext)
    (auto simp: valkey_with_refresh_lock_def take_lock_def io_bind_def io_return_def split: prod.splits sum.splits option.splits)

lemma refresh_under_lock_steps:
  "refresh_under_lock pl oidc config (replica_store pl v) b ref = io_bind (take_lock (pl_iron pl) v ref) (\<lambda>k.
     case k of
       None \<Rightarrow> adopt_peer (replica_store pl v) ref
     | Some k \<Rightarrow> io_finally (io_bind (grant_tokens oidc config b) (store_rotation pl (replica_store pl v) b))
                  (rl_del (client v) (lock_key v k)))"
  unfolding refresh_under_lock_def rotate_session_steps adopt_peer_def
  by (rule ext) (auto simp: valkey_store_def take_lock_refresh io_bind_def io_return_def io_finally_def
      split: prod.splits sum.splits option.splits)

lemmas phase_simps = after_def io_bind_def io_finally_def

lemma waiting_steps:
  "(request_step pl oidc config v ^^ 4) (Waiting ref b, w) =
     (case refresh_under_lock pl oidc config (replica_store pl v) b ref w of (r, w') \<Rightarrow> (Settled r, w'))"
proof -
  have four: "(f ^^ 4) x = f (f (f (f x)))" for f :: "'x \<Rightarrow> 'x" and x by (simp add: numeral_eq_Suc)
  show ?thesis unfolding refresh_under_lock_steps four
    by (auto simp: phase_simps split: prod.splits sum.splits option.splits)
qed

text \<open>
  A request on its own refreshes as the code says. Whatever the Redis server, the issuer and the
  seal do, four uninterrupted steps of a request that comes for the lock settle it with exactly
  the outcome of \<open>refreshUnderLock\<close>, thrown or not, and leave the surroundings as it leaves them.
\<close>

lemma lone_request_refreshes:
  "(request_step pl oidc config v ^^ 4) (Waiting ref b, w) =
     (Settled (fst (refresh_under_lock pl oidc config (replica_store pl v) b ref w)),
      snd (refresh_under_lock pl oidc config (replica_store pl v) b ref w))"
  by (simp add: waiting_steps case_prod_beta)

subsection \<open>The race\<close>

text \<open>
  What happens: a request arrives, a request takes a step, the clock moves on by some milliseconds,
  or the rest of the server changes its data in any way that leaves the refresh locks alone. In a
  \<open>prompt\<close> world the clock never passes the expiry of a lock whose holder has not released it.
\<close>

datatype event = Arrive string bff_session | Run nat | Tick int | Other

definition locks :: "'s valkey \<Rightarrow> 'z memory_world_scheme \<Rightarrow> string \<Rightarrow> string option" where
  "locks v w k = mem_lookup w (lock_key v k)"

definition later :: "int \<Rightarrow> 'z memory_world_scheme \<Rightarrow> 'z memory_world_scheme" where
  "later d w = w\<lparr>clock := clock w + d\<rparr>"

inductive race_step ::
    "'z memory_world_scheme platform \<Rightarrow> ('z memory_world_scheme, 'c) oidc \<Rightarrow> bff_config \<Rightarrow> 'z memory_world_scheme valkey
      \<Rightarrow> bool \<Rightarrow> phase list \<times> 'z memory_world_scheme \<Rightarrow> event \<Rightarrow> phase list \<times> 'z memory_world_scheme \<Rightarrow> bool"
  for pl oidc config v prompt where
  arrive: "race_step pl oidc config v prompt (ps, w) (Arrive ref b) (ps @ [Waiting ref b], w)"
| run: "i < length ps \<Longrightarrow> request_step pl oidc config v (ps ! i, w) = (p, w') \<Longrightarrow>
    race_step pl oidc config v prompt (ps, w) (Run i) (ps[i := p], w')"
| tick: "0 \<le> d \<Longrightarrow> (prompt \<longrightarrow> (\<forall>p \<in> set ps. \<forall>k. holds p = Some k \<longrightarrow> locks v (later d w) k \<noteq> None)) \<Longrightarrow>
    race_step pl oidc config v prompt (ps, w) (Tick d) (ps, later d w)"
| other: "mem_healthy w' \<Longrightarrow> locks v w' = locks v w \<Longrightarrow> race_step pl oidc config v prompt (ps, w) Other (ps, w')"

inductive_cases race_arriveE: "race_step pl oidc config v prompt s (Arrive ref b) s'"
inductive_cases race_runE: "race_step pl oidc config v prompt s (Run i) s'"
inductive_cases race_stepE: "race_step pl oidc config v prompt (ps, w) e s'"

inductive_simps race_run_iff: "race_step pl oidc config v prompt (ps, w) (Run i) (ps', w')"

inductive race ::
    "'z memory_world_scheme platform \<Rightarrow> ('z memory_world_scheme, 'c) oidc \<Rightarrow> bff_config \<Rightarrow> 'z memory_world_scheme valkey
      \<Rightarrow> bool \<Rightarrow> phase list \<times> 'z memory_world_scheme \<Rightarrow> event list \<Rightarrow> phase list \<times> 'z memory_world_scheme \<Rightarrow> bool"
  for pl oidc config v prompt where
  stop: "race pl oidc config v prompt s [] s"
| more: "race_step pl oidc config v prompt s e s' \<Longrightarrow> race pl oidc config v prompt s' es s'' \<Longrightarrow>
    race pl oidc config v prompt s (e # es) s''"

inductive_cases race_nilE: "race pl oidc config v prompt s [] s'"
inductive_cases race_consE: "race pl oidc config v prompt s (e # es) s'"

subsection \<open>A request settles\<close>

text \<open>The steps a request still has to take, at most.\<close>

fun steps_left :: "phase \<Rightarrow> nat" where
  "steps_left (Waiting ref b) = 4"
| "steps_left (Granting k b) = 3"
| "steps_left (Storing k b t) = 2"
| "steps_left (Releasing k r) = 1"
| "steps_left (Adopting ref) = 1"
| "steps_left (Settled r) = 0"

lemma request_step_progress:
  "request_step pl oidc config v (p, w) = (p', w') \<Longrightarrow> steps_left p' \<le> steps_left p - 1"
  by (cases p) (auto simp: after_def split: prod.splits sum.splits option.splits)

lemma race_step_progress:
  assumes "race_step pl oidc config v prompt (ps, w) e (ps', w')" "i < length ps"
  shows "i < length ps' \<and> steps_left (ps' ! i) \<le> steps_left (ps ! i) - (if e = Run i then 1 else 0)"
  using assms by cases (auto simp: nth_append nth_list_update dest: request_step_progress)

lemma race_progress:
  assumes "race pl oidc config v prompt s es s'" "i < length (fst s)"
  shows "steps_left (fst s' ! i) \<le> steps_left (fst s ! i) - count_list es (Run i)"
  using assms
proof (induction rule: race.induct)
  case (more s e s1 es s2)
  from race_step_progress [of pl oidc config v prompt "fst s" "snd s" e "fst s1" "snd s1" i] more
  show ?case by (auto split: if_splits)
qed simp

lemma settled_iff: "steps_left p = 0 \<longleftrightarrow> (\<exists>r. p = Settled r)" by (cases p) auto

lemma steps_left_le: "steps_left p \<le> 4" by (cases p) auto

text \<open>
  C15: A refreshing request never waits for its peers. Whatever the others do and however time
  passes, a request that is part of the race can always take its next step, and it is settled
  once it has taken four of its own: contention for the lock costs it a read, never a wait.
\<close>

theorem refreshing_request_settles:
  assumes "i < length ps"
  shows "(\<exists>s. race_step pl oidc config v prompt (ps, w) (Run i) s)
    \<and> (\<forall>es ps' w'. race pl oidc config v prompt (ps, w) es (ps', w') \<longrightarrow> 4 \<le> count_list es (Run i) \<longrightarrow>
         (\<exists>r. ps' ! i = Settled r))"
proof (intro conjI allI impI)
  show "\<exists>s. race_step pl oidc config v prompt (ps, w) (Run i) s"
    using race_step.run [OF assms] by (metis surj_pair)
next
  fix es ps' w'
  assume "race pl oidc config v prompt (ps, w) es (ps', w')" "4 \<le> count_list es (Run i)"
  then show "\<exists>r. ps' ! i = Settled r"
    using race_progress [of pl oidc config v prompt "(ps, w)" es "(ps', w')" i] assms steps_left_le [of "ps ! i"]
    by (simp flip: settled_iff)
qed


subsection \<open>The lock excludes while it does not lapse\<close>

text \<open>
  What the race relies on of the surroundings: the store runs over the in-process server, with
  positive lifetimes, and the issuer, the seal and the random source leave the server's data and
  its clock alone.
\<close>

definition redis_data :: "'z memory_world_scheme \<Rightarrow> (string \<times> memory_entry) list \<times> (string \<times> set_entry) list \<times> int" where
  "redis_data w = (entries w, sets w, clock w)"

definition race_world ::
    "'z memory_world_scheme platform \<Rightarrow> ('z memory_world_scheme, 'c) oidc \<Rightarrow> bff_config \<Rightarrow> 'z memory_world_scheme valkey \<Rightarrow> bool" where
  "race_world pl oidc config v \<longleftrightarrow>
     client v = create_memory_redis \<and> 0 < ttl_seconds v \<and> 0 < lock_ttl_seconds v
   \<and> (\<forall>j p ttl. quiet redis_data (iron_seal (pl_iron pl) j p ttl))
   \<and> (\<forall>t q ttl. quiet redis_data (iron_unseal (pl_iron pl) t q ttl))
   \<and> (\<forall>n w. redis_data (snd (pl_random pl n w)) = redis_data w)
   \<and> quiet redis_data (discover oidc config)
   \<and> (\<forall>doc t. quiet redis_data (refresh_tokens oidc doc t))"

lemma race_worldD:
  assumes "race_world pl oidc config v"
  shows "client v = create_memory_redis" "0 < ttl_seconds v" "0 < lock_ttl_seconds v"
    and "quiet redis_data (iron_seal (pl_iron pl) j p ttl)" "quiet redis_data (iron_unseal (pl_iron pl) t q ttl)"
    and "redis_data (snd (pl_random pl n w)) = redis_data w" "quiet redis_data (discover oidc config)"
    and "quiet redis_data (refresh_tokens oidc doc t)"
  using assms by (simp_all add: race_world_def)

text \<open>\<open>lock_state v L w\<close>: the server is healthy and its live refresh locks are \<open>L\<close>.\<close>

definition lock_state :: "'z memory_world_scheme valkey \<Rightarrow> (string \<Rightarrow> string option) \<Rightarrow> 'z memory_world_scheme \<Rightarrow> bool" where
  "lock_state v L w \<longleftrightarrow> mem_healthy w \<and> locks v w = L"

lemma redis_data_lock_state:
  "redis_data w' = redis_data w \<Longrightarrow> lock_state v L w' \<longleftrightarrow> lock_state v L w"
  by (simp add: redis_data_def lock_state_def mem_healthy_def locks_def mem_lookup_def fun_eq_iff cong: option.case_cong)

lemma quiet_lock_state: "quiet redis_data m \<Longrightarrow> io_inv (lock_state v L) m"
  unfolding io_inv_def by (metis redis_data_lock_state quietD surjective_pairing)

text \<open>Every operation of the server keeps the locks that are not its key.\<close>

lemma redis_lock_state:
  assumes "client v = create_memory_redis"
  shows "io_inv (lock_state v L) (rl_get (client v) k)"
    and "0 < t \<Longrightarrow> \<forall>i. k \<noteq> lock_key v i \<Longrightarrow> io_inv (lock_state v L) (rl_set (client v) k x (ex_option t))"
    and "io_inv (lock_state v L) (rl_sadd (client v) k x)"
    and "0 < t \<Longrightarrow> io_inv (lock_state v L) (rl_expire (client v) k t)"
proof -
  show "io_inv (lock_state v L) (rl_get (client v) k)"
    using memory.get [of _ k] by (fastforce simp: io_inv_def lock_state_def locks_def assms)
  show "io_inv (lock_state v L) (rl_set (client v) k x (ex_option t))" if "0 < t" "\<forall>i. k \<noteq> lock_key v i"
  proof -
    have "lock_state v L (snd (rl_set create_memory_redis k x (ex_option t) s))" if state: "lock_state v L s" for s
    proof -
      obtain s' where "rl_set create_memory_redis k x (ex_option t) s = (Inr True, s')" "mem_healthy s'"
        "mem_lookup s' = (mem_lookup s)(k := Some x)"
        using memory.set_done [of s "ex_option t" k x] state \<open>0 < t\<close> by (auto simp: ex_option_def lock_state_def)
      then show ?thesis using state \<open>\<forall>i. k \<noteq> lock_key v i\<close> by (auto simp: lock_state_def locks_def fun_eq_iff)
    qed
    then show ?thesis by (simp add: io_inv_def assms)
  qed
  show "io_inv (lock_state v L) (rl_sadd (client v) k x)"
    using memory.sadd [of _ k x] by (fastforce simp: io_inv_def lock_state_def locks_def assms)
  show "io_inv (lock_state v L) (rl_expire (client v) k t)" if "0 < t"
    using memory.expire [OF _ that, of _ k] by (fastforce simp: io_inv_def lock_state_def locks_def assms)
qed


lemma lock_state_lift: "(\<And>w. redis_data (snd (f w)) = redis_data w) \<Longrightarrow> io_inv (lock_state v L) (io_lift f)"
  by (metis io_inv_lift redis_data_lock_state)

lemma seal_with_lock_state:
  "race_world pl oidc config v \<Longrightarrow> io_inv (lock_state v L) (seal_with (pl_iron pl) j secret ttl)"
  unfolding seal_with_def
  by (cases "seal_password_of secret") (auto intro!: inv_intros quiet_lock_state race_worldD)

lemma ref_to_id_lock_state:
  "race_world pl oidc config v \<Longrightarrow> io_inv (lock_state v L) (ref_to_id (pl_iron pl) v ref)"
  unfolding ref_to_id_def by (intro quiet_lock_state quiet_intros race_worldD)

lemma random_lock_state:
  assumes "race_world pl oidc config v"
  shows "io_inv (lock_state v L) (io_lift (random_url_safe (pl_random pl) n))"
  by (intro lock_state_lift) (simp add: random_url_safe_def race_worldD(6) [OF assms] case_prod_beta)

lemma valkey_write_lock_state:
  assumes "race_world pl oidc config v"
  shows "io_inv (lock_state v L) (valkey_write (pl_iron pl) (pl_random pl) v b)"
proof -
  note redis = redis_lock_state [OF race_worldD(1) [OF assms]]
  have index: "io_inv (lock_state v L) (case x of
      Some s \<Rightarrow> io_bind (rl_set (client v) (sid_key v s) i (ex_option (ttl_seconds v))) (\<lambda>_. io_return ())
    | None \<Rightarrow> io_return ())" for x i
    by (cases x) (auto intro!: inv_intros redis race_worldD [OF assms])
  have pick: "io_inv (lock_state v L) (if session_id b \<noteq> '''' then io_return (session_id b)
      else io_lift (random_url_safe (pl_random pl) session_id_bytes))"
    by (auto intro: inv_intros random_lock_state [OF assms])
  show ?thesis
    unfolding valkey_write_def Let_def
    by (intro io_inv_bind pick index redis seal_with_lock_state [OF assms] race_worldD(2) [OF assms]) simp
qed

lemma valkey_read_lock_state:
  "race_world pl oidc config v \<Longrightarrow> io_inv (lock_state v L) (valkey_read (pl_iron pl) v ref)"
  unfolding valkey_read_def
  by (auto intro!: inv_intros ref_to_id_lock_state redis_lock_state race_worldD(1) split: option.split)

lemma grant_lock_state:
  "race_world pl oidc config v \<Longrightarrow> io_inv (lock_state v L) (grant_tokens oidc config b)"
  unfolding grant_tokens_def by (intro quiet_lock_state quiet_intros race_worldD)

lemma store_rotation_lock_state:
  "race_world pl oidc config v \<Longrightarrow> io_inv (lock_state v L) (store_rotation pl (replica_store pl v) b t)"
  unfolding store_rotation_def Let_def
  by (auto intro!: inv_intros valkey_write_lock_state simp: valkey_store_def)

lemma adopt_lock_state:
  "race_world pl oidc config v \<Longrightarrow> io_inv (lock_state v L) (adopt_peer (replica_store pl v) ref)"
  unfolding adopt_peer_def
  by (intro io_inv_bind) (auto intro!: inv_intros valkey_read_lock_state simp: valkey_store_def split: option.split)


lemma take_lock_effect:
  assumes world: "race_world pl oidc config v" and state: "lock_state v L w"
    and run: "take_lock (pl_iron pl) v ref w = (r, w')"
  shows "lock_state v L w' \<and> (\<forall>k. r \<noteq> Inr (Some k))
    \<or> (\<exists>k. r = Inr (Some k) \<and> L k = None \<and> lock_state v (L(k := Some ''1'')) w')"
proof -
  obtain x w1 where x: "ref_to_id (pl_iron pl) v ref w = (x, w1)" by fastforce
  have w1: "lock_state v L w1" by (rule io_invD [OF ref_to_id_lock_state [OF world] state x])
  show ?thesis
  proof (cases "\<exists>k. x = Inr (Some k)")
    case False
    with x run w1 show ?thesis
      by (cases x) (auto simp: take_lock_def io_bind_def io_return_def split: option.splits)
  next
    case True
    then obtain k where k: "x = Inr (Some k)" by blast
    note client = race_worldD(1) [OF world] and ttl = race_worldD(3) [OF world]
    have healthy: "mem_healthy w1" "locks v w1 = L" using w1 by (simp_all add: lock_state_def)
    have take: "take_lock (pl_iron pl) v ref w = (Inr (if acquired then Some k else None), w2)"
      if "rl_set create_memory_redis (lock_key v k) ''1'' (nx_option (lock_ttl_seconds v)) w1 = (Inr acquired, w2)" for acquired w2
      using that x k by (simp add: take_lock_def io_bind_def io_return_def client)
    show ?thesis
    proof (cases "L k")
      case None
      then have "mem_lookup w1 (lock_key v k) = None" using healthy(2) by (auto simp: locks_def)
      then obtain w2 where "rl_set create_memory_redis (lock_key v k) ''1'' (nx_option (lock_ttl_seconds v)) w1 = (Inr True, w2)"
        "mem_healthy w2" "mem_lookup w2 = (mem_lookup w1)(lock_key v k := Some ''1'')"
        using memory.set_done [OF healthy(1), of "nx_option (lock_ttl_seconds v)" "lock_key v k" "''1''"] ttl
        by (auto simp: nx_option_def)
      moreover from this have "lock_state v (L(k := Some ''1'')) w2"
        using healthy(2) by (auto simp: lock_state_def locks_def fun_eq_iff)
      moreover note take [OF calculation(1)]
      ultimately show ?thesis using run None by simp
    next
      case (Some t)
      then have "mem_lookup w1 (lock_key v k) \<noteq> None" using healthy(2) by (auto simp: locks_def)
      then obtain w2 where "rl_set create_memory_redis (lock_key v k) ''1'' (nx_option (lock_ttl_seconds v)) w1 = (Inr False, w2)"
        "mem_healthy w2" "mem_lookup w2 = mem_lookup w1"
        using memory.set_skipped [OF healthy(1) _, of "nx_option (lock_ttl_seconds v)" "lock_key v k" "''1''"]
        by (auto simp: nx_option_def)
      moreover from this have "lock_state v L w2" using healthy(2) by (auto simp: lock_state_def locks_def fun_eq_iff)
      moreover note take [OF calculation(1)]
      ultimately show ?thesis using run by simp
    qed
  qed
qed

lemma release_effect:
  assumes "race_world pl oidc config v" "lock_state v L w"
  shows "\<exists>n w'. rl_del (client v) (lock_key v k) w = (Inr n, w') \<and> lock_state v (L(k := None)) w'"
proof -
  have healthy: "mem_healthy w" "locks v w = L" using assms(2) by (simp_all add: lock_state_def)
  obtain n w' where del: "rl_del create_memory_redis (lock_key v k) w = (Inr n, w')" "mem_healthy w'"
    "mem_lookup w' = (mem_lookup w)(lock_key v k := None)" using memory.del [OF healthy(1)] by blast
  moreover from this healthy have "lock_state v (L(k := None)) w'" by (auto simp: lock_state_def locks_def fun_eq_iff)
  ultimately show ?thesis by (simp add: race_worldD(1) [OF assms(1)])
qed

text \<open>What a step does to the locks: nothing, take a free one, or release the one it holds.\<close>

lemma request_step_effect:
  assumes world: "race_world pl oidc config v" and state: "lock_state v L w"
    and step: "request_step pl oidc config v (p, w) = (p', w')"
  shows "holds p' = holds p \<and> lock_state v L w'
    \<or> (\<exists>k. holds p = None \<and> holds p' = Some k \<and> L k = None \<and> lock_state v (L(k := Some ''1'')) w')
    \<or> (\<exists>k. holds p = Some k \<and> holds p' = None \<and> lock_state v (L(k := None)) w')"
proof (cases p)
  case (Waiting ref b)
  obtain r w1 where "take_lock (pl_iron pl) v ref w = (r, w1)" by fastforce
  with take_lock_effect [OF world state this] step Waiting show ?thesis
    by (auto simp: after_def split: sum.splits option.splits)
next
  case (Granting k b)
  with step io_invD [OF grant_lock_state [OF world] state] show ?thesis
    by (auto simp: after_def split: prod.splits sum.splits)
next
  case (Storing k b t)
  with step io_invD [OF store_rotation_lock_state [OF world] state] show ?thesis
    by (auto simp: after_def split: prod.splits sum.splits)
next
  case (Releasing k r)
  with step release_effect [OF world state, of k] show ?thesis by (auto simp: after_def)
next
  case (Adopting ref)
  with step io_invD [OF adopt_lock_state [OF world] state] show ?thesis
    by (auto simp: after_def split: prod.splits sum.splits)
qed (use step state in auto)

text \<open>Whoever holds a lock holds it alone, and the server still has it.\<close>

definition exclusive :: "'z memory_world_scheme valkey \<Rightarrow> phase list \<times> 'z memory_world_scheme \<Rightarrow> bool" where
  "exclusive v s \<longleftrightarrow> mem_healthy (snd s)
   \<and> (\<forall>i < length (fst s). \<forall>k. holds (fst s ! i) = Some k \<longrightarrow> locks v (snd s) k \<noteq> None
        \<and> (\<forall>j < length (fst s). holds (fst s ! j) = Some k \<longrightarrow> j = i))"

lemma later_healthy: "mem_healthy (later d w) = mem_healthy w"
  by (simp add: later_def mem_healthy_def)

lemma exclusiveD:
  assumes "exclusive v (ps, w)" "i < length ps" "holds (ps ! i) = Some k"
  shows "locks v w k \<noteq> None" "j < length ps \<Longrightarrow> holds (ps ! j) = Some k \<Longrightarrow> j = i"
  using assms by (auto simp: exclusive_def)

lemma exclusive_step:
  assumes world: "race_world pl oidc config v" and inv: "exclusive v (ps, w)" and i: "i < length ps"
    and step: "request_step pl oidc config v (ps ! i, w) = (p, w')"
  shows "exclusive v (ps[i := p], w')"
proof -
  have state: "lock_state v (locks v w) w" using inv by (simp add: lock_state_def exclusive_def)
  from request_step_effect [OF world state step] show ?thesis
  proof (elim disjE exE conjE)
    assume "holds p = holds (ps ! i)" "lock_state v (locks v w) w'"
    with inv i show ?thesis by (auto simp: exclusive_def lock_state_def nth_list_update split: if_splits)
  next
    fix k assume k: "holds (ps ! i) = None" "holds p = Some k" "locks v w k = None" "lock_state v ((locks v w)(k := Some ''1'')) w'"
    have free: "holds (ps ! j) \<noteq> Some k" if "j < length ps" for j using exclusiveD(1) [OF inv that, of k] k(3) by auto
    with inv i k show ?thesis
      by (auto simp: exclusive_def lock_state_def nth_list_update split: if_splits)
  next
    fix k assume k: "holds (ps ! i) = Some k" "holds p = None" "lock_state v ((locks v w)(k := None)) w'"
    have "j = i" if "j < length ps" "holds (ps ! j) = Some k" for j using exclusiveD(2) [OF inv i k(1) that] .
    with inv i k show ?thesis
      by (auto simp: exclusive_def lock_state_def nth_list_update split: if_splits)
  qed
qed


lemma exclusive_race_step:
  assumes world: "race_world pl oidc config v"
    and step: "race_step pl oidc config v True s e s'" and inv: "exclusive v s"
  shows "exclusive v s'"
  using step inv
proof cases
  case (run i ps w p w')
  with inv show ?thesis using exclusive_step [OF world] by simp
next
  case (arrive ps w ref b)
  with inv show ?thesis by (auto simp: exclusive_def nth_append split: if_splits)
next
  case (tick d ps w)
  have "locks v (later d w) k \<noteq> None" if "i < length ps" "holds (ps ! i) = Some k" for i k
    using tick that by (meson nth_mem)
  with inv tick show ?thesis by (auto simp: exclusive_def later_healthy)
next
  case (other w' w ps)
  with inv show ?thesis by (auto simp: exclusive_def)
qed

lemma exclusive_race:
  assumes "race pl oidc config v True s es s'" "race_world pl oidc config v" "exclusive v s"
  shows "exclusive v s'"
  using assms by (induction rule: race.induct) (auto dest: exclusive_race_step)

text \<open>
  C7: The refresh lock excludes while it does not lapse. Start with no request in flight and let any
  number of requests arrive and interleave, with logins and logouts in between: as long as every
  holder is done before its lock expires, no two requests are ever inside the refresh of the same
  session, and the server holds the lock of every one that is.
\<close>

theorem one_refresh_per_session:
  assumes "race_world pl oidc config v" "mem_healthy w" "race pl oidc config v True ([], w) es (ps, w')"
    and "i < length ps" "holds (ps ! i) = Some k"
  shows "mem_lookup w' (lock_key v k) \<noteq> None \<and> (\<forall>j < length ps. j \<noteq> i \<longrightarrow> holds (ps ! j) \<noteq> Some k)"
proof -
  have "exclusive v ([], w)" using assms(2) by (simp add: exclusive_def)
  from exclusiveD [OF exclusive_race [OF assms(3,1) this] assms(4,5)] show ?thesis by (auto simp: locks_def)
qed


subsection \<open>What a lapse does\<close>

lemma race_append:
  "race pl oidc config v prompt s es s' \<Longrightarrow> race pl oidc config v prompt s' fs s'' \<Longrightarrow>
    race pl oidc config v prompt s (es @ fs) s''"
  by (induction rule: race.induct) (auto intro: race.more)

lemma race_single: "race_step pl oidc config v prompt s e s' \<Longrightarrow> race pl oidc config v prompt s [e] s'"
  by (auto intro: race.intros)

lemma race_run:
  assumes "(request_step pl oidc config v ^^ n) (ps ! i, w) = (p, w')" "i < length ps"
  shows "race pl oidc config v prompt (ps, w) (replicate n (Run i)) (ps[i := p], w')"
  using assms
proof (induction n arbitrary: ps w)
  case 0
  then show ?case by (auto intro: race.stop)
next
  case (Suc n)
  obtain q w1 where q: "request_step pl oidc config v (ps ! i, w) = (q, w1)" by fastforce
  have "race pl oidc config v prompt (ps[i := q], w1) (replicate n (Run i)) ((ps[i := q])[i := p], w')"
    using Suc q by (intro Suc.IH) (simp_all add: funpow_Suc_right del: funpow.simps)
  with race_step.run [OF Suc.prems(2) q] show ?case by (auto intro: race.more)
qed

theorem refreshing_request_settles_witness:
  "\<exists>ps w r. race demo_platform (demo_oidc :: (memory_world, unit) oidc) demo_config demo_valkey True
      ([Waiting ''r'' (demo_session ''i1'')], empty_memory) (replicate 4 (Run 0)) (ps, w) \<and> ps ! 0 = Settled r"
proof -
  let ?s = "[Waiting ''r'' (demo_session ''i1'')]"
  obtain p w where p: "(request_step demo_platform (demo_oidc :: (memory_world, unit) oidc) demo_config demo_valkey ^^ 4)
      (?s ! 0, empty_memory) = (p, w)" by (rule prod.exhaust)
  have run: "race demo_platform (demo_oidc :: (memory_world, unit) oidc) demo_config demo_valkey True
      (?s, empty_memory) (replicate 4 (Run 0)) (?s[0 := p], w)"
    by (rule race_run [OF p]) simp
  have "0 < length ?s" and four: "4 \<le> count_list (replicate 4 (Run 0)) (Run 0)" by (simp_all add: numeral_eq_Suc)
  from conjunct2 [OF refreshing_request_settles [OF this(1)]] run four
  obtain r where "(?s[0 := p]) ! 0 = Settled r" by meson
  with run show ?thesis by (intro exI conjI)
qed

lemma granting_releases:
  assumes "race_world pl oidc config v" "lock_state v L w"
  obtains r w' where "(request_step pl oidc config v ^^ 3) (Granting k a, w) = (Settled r, w')"
    "lock_state v (L(k := None)) w'"
proof -
  have three: "(f ^^ 3) x = f (f (f x))" for f :: "'x \<Rightarrow> 'x" and x by (simp add: numeral_eq_Suc)
  obtain t w1 where g: "grant_tokens oidc config a w = (t, w1)" by fastforce
  have w1: "lock_state v L w1" by (rule io_invD [OF grant_lock_state [OF assms(1)] assms(2) g])
  show thesis
  proof (cases t)
    case (Inl e)
    obtain n w2 where "rl_del (client v) (lock_key v k) w1 = (Inr n, w2)" "lock_state v (L(k := None)) w2"
      using release_effect [OF assms(1) w1] by blast
    with Inl g that show thesis by (auto simp: three after_def)
  next
    case (Inr tokens)
    obtain s w2 where s: "store_rotation pl (replica_store pl v) a tokens w1 = (s, w2)" by fastforce
    have w2: "lock_state v L w2" by (rule io_invD [OF store_rotation_lock_state [OF assms(1)] w1 s])
    obtain n w3 where "rl_del (client v) (lock_key v k) w2 = (Inr n, w3)" "lock_state v (L(k := None)) w3"
      using release_effect [OF assms(1) w2] by blast
    with Inr g s that show thesis by (cases s) (auto simp: three after_def)
  qed
qed

lemma mem_set_expiry:
  assumes "mem_healthy w" "mem_lookup w k = None"
  shows "\<exists>w'. mem_set k x (nx_option t) w = (Inr True, w') \<and> clock w' = clock w
    \<and> obj_get (entries w') k = Some \<lparr>me_value = x, me_expires_at = Some (clock w + t * 1000)\<rparr>"
proof -
  obtain e w1 where e: "mem_alive k w = (e, w1)" by fastforce
  with mem_alive_cases [OF assms(1), of k] assms(2) show ?thesis by (auto simp: mem_set_def nx_option_def)
qed

lemma waiting_takes:
  assumes "race_world pl oidc config v" "mem_healthy w" "ref_to_id (pl_iron pl) v ref w = (Inr (Some k), w)" "locks v w k = None"
  obtains w' where "request_step pl oidc config v (Waiting ref b, w) = (Granting k b, w')" "mem_healthy w'"
    "locks v (later (lock_ttl_seconds v * 1000) w') k = None"
proof -
  obtain w' where set: "mem_set (lock_key v k) ''1'' (nx_option (lock_ttl_seconds v)) w = (Inr True, w')" "clock w' = clock w"
    "obj_get (entries w') (lock_key v k) = Some \<lparr>me_value = ''1'', me_expires_at = Some (clock w + lock_ttl_seconds v * 1000)\<rparr>"
    using mem_set_expiry [OF assms(2), of "lock_key v k" "''1''" "lock_ttl_seconds v"] assms(4) by (auto simp: locks_def)
  have "rl_set (client v) (lock_key v k) ''1'' (nx_option (lock_ttl_seconds v)) w = (Inr True, w')"
    using set(1) by (simp add: race_worldD(1) [OF assms(1)] create_memory_redis_def)
  then have take: "take_lock (pl_iron pl) v ref w = (Inr (Some k), w')"
    using assms(3) by (simp add: take_lock_def io_bind_def io_return_def)
  then have "request_step pl oidc config v (Waiting ref b, w) = (Granting k b, w')" by (simp add: after_def)
  moreover have "mem_healthy w'"
    using take_lock_effect [OF assms(1) _ take, of "locks v w"] assms(2) by (auto simp: lock_state_def)
  moreover have "locks v (later (lock_ttl_seconds v * 1000) w') k = None"
    using set(2,3) by (simp add: locks_def later_def mem_lookup_def expired_def)
  ultimately show thesis using that by blast
qed

text \<open>
  C14: A lapsed lock lets a third request in. When the first holder is still waiting for the issuer
  as its lock expires, a second request takes the lock, and the first one, once it is done, deletes
  the lock that is now its peer's: a third request then enters the refresh of the same session
  while the second is inside, with no time passing since the second took its lock.
\<close>

theorem lapsed_lock_admits_third:
  assumes "race_world pl oidc config v" "mem_healthy w" "mem_lookup w (lock_key v k) = None"
    and "\<And>w. ref_to_id (pl_iron pl) v ref w = (Inr (Some k), w)"
  shows "\<exists>ps w'. race pl oidc config v False ([], w)
      ([Arrive ref a, Arrive ref b, Arrive ref c, Run 0, Tick (lock_ttl_seconds v * 1000), Run 1] @ replicate 3 (Run 0) @ [Run 2]) (ps, w')
    \<and> holds (ps ! 1) = Some k \<and> holds (ps ! 2) = Some k"
proof -
  let ?race = "race pl oidc config v False" and ?step = "race_step pl oidc config v False"
  let ?ttl = "lock_ttl_seconds v * 1000"
  note world = assms(1)
  obtain w1 where w1: "request_step pl oidc config v (Waiting ref a, w) = (Granting k a, w1)" "mem_healthy w1"
    "locks v (later ?ttl w1) k = None"
    using waiting_takes [OF world assms(2,4)] assms(3) by (auto simp: locks_def)
  obtain w2 where w2: "request_step pl oidc config v (Waiting ref b, later ?ttl w1) = (Granting k b, w2)" "mem_healthy w2"
    using waiting_takes [OF world _ assms(4) w1(3)] w1(2) by (auto simp: later_healthy)
  obtain r w3 where w3: "(request_step pl oidc config v ^^ 3) (Granting k a, w2) = (Settled r, w3)"
    "lock_state v ((locks v w2)(k := None)) w3"
    using granting_releases [OF world, of "locks v w2" w2 k a] w2(2) by (auto simp: lock_state_def)
  obtain w4 where w4: "request_step pl oidc config v (Waiting ref c, w3) = (Granting k c, w4)"
    using waiting_takes [OF world _ assms(4), of w3] w3(2) by (auto simp: lock_state_def)
  have "?race ([], w) [Arrive ref a, Arrive ref b, Arrive ref c] ([Waiting ref a, Waiting ref b, Waiting ref c], w)"
    by (rule race.more [OF race_step.arrive], simp, rule race.more [OF race_step.arrive], simp,
        rule race_single, use race_step.arrive [of pl oidc config v False "[Waiting ref a, Waiting ref b]"] in simp)
  moreover have "?race ([Waiting ref a, Waiting ref b, Waiting ref c], w) [Run 0] ([Granting k a, Waiting ref b, Waiting ref c], w1)"
    using race_run [where n = 1 and ps = "[Waiting ref a, Waiting ref b, Waiting ref c]" and i = 0] w1(1) by simp
  moreover have "?race ([Granting k a, Waiting ref b, Waiting ref c], w1) [Tick ?ttl] ([Granting k a, Waiting ref b, Waiting ref c], later ?ttl w1)"
    using race_worldD(3) [OF world] by (intro race_single race_step.tick) simp_all
  moreover have "?race ([Granting k a, Waiting ref b, Waiting ref c], later ?ttl w1) [Run 1] ([Granting k a, Granting k b, Waiting ref c], w2)"
    using race_run [where n = 1 and ps = "[Granting k a, Waiting ref b, Waiting ref c]" and i = 1] w2(1) by simp
  moreover have "?race ([Granting k a, Granting k b, Waiting ref c], w2) (replicate 3 (Run 0)) ([Settled r, Granting k b, Waiting ref c], w3)"
    using race_run [where n = 3 and ps = "[Granting k a, Granting k b, Waiting ref c]" and i = 0] w3(1) by simp
  moreover have "?race ([Settled r, Granting k b, Waiting ref c], w3) [Run 2] ([Settled r, Granting k b, Granting k c], w4)"
    using race_run [where n = 1 and ps = "[Settled r, Granting k b, Waiting ref c]" and i = 2] w4 by simp
  ultimately have "?race ([], w) ([Arrive ref a, Arrive ref b, Arrive ref c] @ [Run 0] @ [Tick ?ttl] @ [Run 1] @ replicate 3 (Run 0) @ [Run 2])
      ([Settled r, Granting k b, Granting k c], w4)"
    by (meson race_append)
  then show ?thesis by (intro exI [of _ "[Settled r, Granting k b, Granting k c]"] exI [of _ w4]) simp
qed


lemma demo_race_world: "race_world demo_platform (demo_oidc :: (memory_world, unit) oidc) demo_config demo_valkey"
proof -
  have "quiet redis_data (discover (demo_oidc :: (memory_world, unit) oidc) demo_config)"
    by (simp add: quiet_def io_inv_def demo_oidc_discover)
  moreover have "quiet redis_data (refresh_tokens (demo_oidc :: (memory_world, unit) oidc) doc t)" for doc t
    by (simp add: refresh_tokens_def demo_oidc_def demo_client_def quiet_intros)
  ultimately show ?thesis
    by (auto simp: race_world_def demo_platform_def demo_iron_def demo_valkey_def intro!: quiet_intros split: option.split)
qed

definition demo_race_ref :: string where "demo_race_ref = json_print (JStr ''i1'')"

lemma demo_race_id: "ref_to_id (pl_iron demo_platform) demo_valkey demo_race_ref w = (Inr (Some ''i1''), w)"
  by (simp add: ref_to_id_def demo_platform_def demo_iron_def demo_race_ref_def json_parse_print io_simps del: json_print.simps)

theorem lapsed_lock_admits_third_witness:
  "\<exists>ps w'. race demo_platform (demo_oidc :: (memory_world, unit) oidc) demo_config demo_valkey False ([], empty_memory)
      ([Arrive demo_race_ref (demo_session ''i1''), Arrive demo_race_ref (demo_session ''i1''),
        Arrive demo_race_ref (demo_session ''i1''), Run 0, Tick (lock_ttl_seconds demo_valkey * 1000), Run 1]
       @ replicate 3 (Run 0) @ [Run 2]) (ps, w')
    \<and> holds (ps ! 1) = Some ''i1'' \<and> holds (ps ! 2) = Some ''i1''"
  by (rule lapsed_lock_admits_third [OF demo_race_world empty_memory_healthy])
    (simp_all add: empty_memory_lookup demo_race_id)

text \<open>One request, inside its refresh.\<close>

lemma demo_one_refresh:
  obtains w where "race demo_platform (demo_oidc :: (memory_world, unit) oidc) demo_config demo_valkey True ([], empty_memory)
    [Arrive demo_race_ref (demo_session ''i1''), Run 0] ([Granting ''i1'' (demo_session ''i1'')], w)"
proof -
  obtain w where "request_step demo_platform (demo_oidc :: (memory_world, unit) oidc) demo_config demo_valkey
      (Waiting demo_race_ref (demo_session ''i1''), empty_memory) = (Granting ''i1'' (demo_session ''i1''), w)"
    using waiting_takes [OF demo_race_world empty_memory_healthy demo_race_id] by (auto simp: locks_def empty_memory_lookup)
  then have "race demo_platform (demo_oidc :: (memory_world, unit) oidc) demo_config demo_valkey True
      ([Waiting demo_race_ref (demo_session ''i1'')], empty_memory) [Run 0] ([Granting ''i1'' (demo_session ''i1'')], w)"
    using race_run [where n = 1 and i = 0 and ps = "[Waiting demo_race_ref (demo_session ''i1'')]"] by fastforce
  from race.more [OF _ this, of "([], empty_memory)"] race_step.arrive [where ps = "[]"]
  show thesis using that by fastforce
qed

theorem one_refresh_per_session_witness:
  "\<exists>ps w'. race demo_platform (demo_oidc :: (memory_world, unit) oidc) demo_config demo_valkey True ([], empty_memory)
      [Arrive demo_race_ref (demo_session ''i1''), Run 0] (ps, w')
    \<and> holds (ps ! 0) = Some ''i1''
    \<and> mem_lookup w' (lock_key demo_valkey ''i1'') \<noteq> None \<and> (\<forall>j < length ps. j \<noteq> 0 \<longrightarrow> holds (ps ! j) \<noteq> Some ''i1'')"
proof -
  obtain w' where run: "race demo_platform (demo_oidc :: (memory_world, unit) oidc) demo_config demo_valkey True ([], empty_memory)
    [Arrive demo_race_ref (demo_session ''i1''), Run 0] ([Granting ''i1'' (demo_session ''i1'')], w')"
    by (rule demo_one_refresh)
  have "mem_lookup w' (lock_key demo_valkey ''i1'') \<noteq> None
      \<and> (\<forall>j < length [Granting ''i1'' (demo_session ''i1'')]. j \<noteq> 0 \<longrightarrow> holds ([Granting ''i1'' (demo_session ''i1'')] ! j) \<noteq> Some ''i1'')"
    by (rule one_refresh_per_session [OF demo_race_world empty_memory_healthy run]) simp_all
  with run show ?thesis by (intro exI [of _ "[Granting ''i1'' (demo_session ''i1'')]"] exI [of _ w'] conjI) simp_all
qed

end
