(* ===== verification/Deployment.thy ===== *)
theory Deployment
  imports AuthOidc Json
begin

section \<open>Where an application is deployed (\<open>packages/env\<close>, \<open>wallow-auth/src/shared/lib\<close>)\<close>

text \<open>
  The prefix an application is served under, the origins it reaches itself and its siblings on,
  and the inline script through which the server states such a value in the document, for the
  browser to read back.
\<close>

subsection \<open>Base paths\<close>

text \<open>\<open>replace(/^\/+/, "")\<close>\<close>

definition strip_leading :: "char \<Rightarrow> string \<Rightarrow> string" where
  "strip_leading x s = dropWhile (\<lambda>c. c = x) s"

definition normalize_base_path :: "string option \<Rightarrow> string" where
  "normalize_base_path v =
     (let trimmed = js_trim (case v of Some s \<Rightarrow> s | None \<Rightarrow> '''');
          bare = strip_trailing (CHR ''/'') (strip_leading (CHR ''/'') trimmed) in
      if bare = '''' then '''' else CHR ''/'' # bare)"

definition to_vite_base :: "string \<Rightarrow> string" where
  "to_vite_base base = (if base = '''' then ''/'' else base @ ''/'')"

definition strip_base_path :: "string \<Rightarrow> string \<Rightarrow> string" where
  "strip_base_path path base =
     (if base = '''' \<or> \<not> starts_with path base then path
      else
        (let remainder = drop (length base) path in
         if remainder = '''' \<or> remainder = ''/'' then ''/''
         else if starts_with remainder ''/'' then remainder else path))"

definition with_base_path :: "string \<Rightarrow> string \<Rightarrow> string" where
  "with_base_path origin base = origin @ base"

definition to_app_href :: "string \<Rightarrow> string \<Rightarrow> string" where
  "to_app_href base path = base @ path"

subsection \<open>Origins\<close>

definition internal_origin_env_key :: string where "internal_origin_env_key = ''WALLOW_WEB_INTERNAL_URL''"

text \<open>\<open>value !== undefined && value !== ""\<close>\<close>

definition non_empty :: "string option \<Rightarrow> string option" where
  "non_empty v = (case v of Some s \<Rightarrow> if s \<noteq> [] then Some s else None | None \<Rightarrow> None)"

definition resolve_internal_origin :: "env \<Rightarrow> string option \<Rightarrow> string option" where
  "resolve_internal_origin env request_origin =
     (case non_empty (env internal_origin_env_key) of
        Some override \<Rightarrow> Some (strip_trailing (CHR ''/'') override)
      | None \<Rightarrow>
          (case env ''PORT'' of
             Some port \<Rightarrow>
               if port \<noteq> [] \<and> list_all is_digit port then Some (''http://localhost:'' @ port)
               else map_option (strip_trailing (CHR ''/'')) (non_empty request_origin)
           | None \<Rightarrow> map_option (strip_trailing (CHR ''/'')) (non_empty request_origin)))"

definition auth_url_env_key :: string where "auth_url_env_key = ''WALLOW_AUTH_URL''"
definition default_auth_url :: string where "default_auth_url = ''http://localhost:3002''"

definition resolve_auth_url :: "env \<Rightarrow> string" where
  "resolve_auth_url env =
     (case env auth_url_env_key of
        Some v \<Rightarrow> if js_trim v \<noteq> [] then strip_trailing (CHR ''/'') (js_trim v) else default_auth_url
      | None \<Rightarrow> default_auth_url)"

definition web_app_url_var :: string where "web_app_url_var = ''WALLOW_WEB_URL''"

definition resolve_web_app_url :: "env \<Rightarrow> string option" where
  "resolve_web_app_url env =
     (case env web_app_url_var of
        None \<Rightarrow> None
      | Some raw \<Rightarrow>
          (let candidate = js_trim raw in
           if candidate = [] then None
           else (case parse_url None candidate of
                   None \<Rightarrow> None
                 | Some parsed \<Rightarrow>
                     if protocol parsed = ''http:'' \<or> protocol parsed = ''https:'' then Some (url_href parsed) else None)))"

subsection \<open>Values published to the browser\<close>

definition lt_escape :: string where "lt_escape = [CHR 0x5C] @ ''u003c''"

text \<open>\<open>replaceAll("<", "\u003c")\<close>\<close>

definition escape_lt :: "string \<Rightarrow> string" where
  "escape_lt s = concat (map (\<lambda>c. if c = CHR ''<'' then lt_escape else [c]) s)"

text \<open>\<open>None\<close> is a value JSON has no text for.\<close>

definition published_global_script :: "string \<Rightarrow> json option \<Rightarrow> string" where
  "published_global_script name v =
     (let payload = (case v of Some j \<Rightarrow> json_print j | None \<Rightarrow> ''null'') in
      escape_lt (''window['' @ json_quote name @ '']='' @ payload @ '';''))"

text \<open>The scope's properties; a scope that is no object reads as \<open>undefined\<close>.\<close>

definition read_published_global :: "string \<Rightarrow> json option \<Rightarrow> json option" where
  "read_published_global name scope = (case scope of Some (JObj ms) \<Rightarrow> obj_get ms name | _ \<Rightarrow> None)"

definition auth_url_global_key :: string where "auth_url_global_key = ''__WALLOW_AUTH_URL__''"
definition web_app_url_global_key :: string where "web_app_url_global_key = ''__WALLOW_WEB_APP_URL__''"

definition auth_url_script :: "string \<Rightarrow> string" where
  "auth_url_script url = published_global_script auth_url_global_key (Some (JStr url))"

definition web_app_url_script :: "string option \<Rightarrow> string" where
  "web_app_url_script url =
     published_global_script web_app_url_global_key (Some (case url of Some u \<Rightarrow> JStr u | None \<Rightarrow> JNull))"

definition read_injected_auth_url :: "json option \<Rightarrow> string option" where
  "read_injected_auth_url scope =
     (case read_published_global auth_url_global_key scope of
        Some (JStr s) \<Rightarrow> if js_trim s \<noteq> [] then Some s else None
      | _ \<Rightarrow> None)"

definition read_injected_web_app_url :: "json option \<Rightarrow> string option" where
  "read_injected_web_app_url scope =
     (case read_published_global web_app_url_global_key scope of
        Some (JStr s) \<Rightarrow> if s \<noteq> [] then Some s else None
      | _ \<Rightarrow> None)"

subsection \<open>Lemmas\<close>

lemma strip_trailing_last: "strip_trailing x s \<noteq> [] \<Longrightarrow> last (strip_trailing x s) \<noteq> x"
  using hd_dropWhile [of "\<lambda>c. c = x" "rev s"] by (auto simp: strip_trailing_def last_rev)

lemma strip_trailing_hd: "strip_trailing x s \<noteq> [] \<Longrightarrow> hd (strip_trailing x s) = hd s"
proof -
  obtain t where "s = strip_trailing x s @ t"
    by (metis append_take_drop_id dropWhile_eq_drop rev_append rev_rev_ident strip_trailing_def)
  moreover assume "strip_trailing x s \<noteq> []"
  ultimately show ?thesis by (metis hd_append2)
qed

lemma strip_trailing_id: "s = [] \<or> last s \<noteq> x \<Longrightarrow> strip_trailing x s = s"
  by (cases "s = []") (simp_all add: strip_trailing_def dropWhile_id hd_rev)

lemma escape_lt_append: "escape_lt (a @ b) = escape_lt a @ escape_lt b"
  by (simp add: escape_lt_def)

lemma escape_lt_id: "CHR ''<'' \<notin> set s \<Longrightarrow> escape_lt s = s"
  by (induction s) (auto simp: escape_lt_def)

lemma escape_lt_free: "CHR ''<'' \<notin> set (escape_lt s)"
  by (auto simp: escape_lt_def lt_escape_def split: if_splits)

text \<open>An escaped string literal reads back as the string.\<close>

lemma parse_string_lt: "parse_string acc (lt_escape @ s) = parse_string (CHR ''<'' # acc) s"
proof -
  have "parse_u (''003c'' @ s) = Some (CHR ''<'', s)"
    by (simp add: hex_digit_val_def is_digit_def) code_simp
  then show ?thesis by (simp add: lt_escape_def)
qed

lemma json_escape_lt: "c \<noteq> CHR ''<'' \<Longrightarrow> escape_lt (json_escape c) = json_escape c"
proof (rule escape_lt_id)
  assume c: "c \<noteq> CHR ''<''"
  have "code d \<noteq> 60" if "n < 32" "d \<in> set (hex4 n)" for n d
    using that by (auto simp: hex4_def split: if_splits; presburger)
  then have "CHR ''<'' \<notin> set (hex4 n)" if "n < 32" for n using that by fastforce
  then show "CHR ''<'' \<notin> set (json_escape c)" using c by (auto simp: json_escape_def)
qed

lemma parse_string_escape_lt:
  "parse_string acc (escape_lt (concat (map json_escape s)) @ c34 # r) = Some (rev acc @ s, r)"
proof (induction s arbitrary: acc)
  case Nil
  then show ?case by (simp add: escape_lt_def)
next
  case (Cons c s)
  show ?case
  proof (cases "c = CHR ''<''")
    case True
    moreover have "escape_lt (json_escape (CHR ''<'')) = lt_escape" by (simp add: json_escape_def escape_lt_def)
    ultimately show ?thesis using Cons by (simp add: escape_lt_append parse_string_lt)
  next
    case False
    with Cons show ?thesis by (simp add: escape_lt_append json_escape_lt parse_string_escape)
  qed
qed

lemma escape_lt_quote:
  "json_parse (escape_lt (json_quote s)) = Some (JStr s)"
proof -
  have e: "escape_lt (json_quote s) = c34 # escape_lt (concat (map json_escape s)) @ [c34]"
    by (simp add: json_quote_def escape_lt_append) (simp add: escape_lt_def)
  show ?thesis
    unfolding e by (simp add: json_parse_def parse_string_escape_lt json_ws_def)
qed


text \<open>
  A published value cannot end its script and comes back as it went out. The inline script is
  an assignment \<open>window[name]=value;\<close> of two JSON texts without any \<open><\<close>: the first reads as the
  global's name, the second as a value from which the browser reads the very URL the server
  resolved, and no URL when there is none.
\<close>

lemma published_url_round_trip:
  "\<exists>n p v. web_app_url_script url = ''window['' @ n @ '']='' @ p @ '';''
    \<and> json_parse n = Some (JStr web_app_url_global_key) \<and> json_parse p = Some v
    \<and> read_injected_web_app_url (Some (JObj [(web_app_url_global_key, v)])) = non_empty url
    \<and> CHR ''<'' \<notin> set (web_app_url_script url)"
proof -
  let ?v = "case url of Some u \<Rightarrow> JStr u | None \<Rightarrow> JNull"
  let ?n = "escape_lt (json_quote web_app_url_global_key)" and ?p = "escape_lt (json_print ?v)"
  have "web_app_url_script url = ''window['' @ ?n @ '']='' @ ?p @ '';''"
    by (simp add: web_app_url_script_def published_global_script_def Let_def escape_lt_append) (simp add: escape_lt_def)
  moreover have "json_parse ?p = Some ?v"
  proof (cases url)
    case None
    then show ?thesis using json_parse_print [of JNull] by (simp add: escape_lt_def)
  next
    case (Some u)
    then show ?thesis by (simp add: escape_lt_quote)
  qed
  moreover have "read_injected_web_app_url (Some (JObj [(web_app_url_global_key, ?v)])) = non_empty url"
    by (auto simp: read_injected_web_app_url_def read_published_global_def non_empty_def split: option.split)
  moreover have "CHR ''<'' \<notin> set (web_app_url_script url)"
    unfolding web_app_url_script_def published_global_script_def Let_def by (rule escape_lt_free)
  ultimately show ?thesis using escape_lt_quote [of web_app_url_global_key] by blast
qed

text \<open>A resolved application URL is an absolute \<open>http\<close> or \<open>https\<close> one.\<close>

lemma resolve_web_app_url_absolute:
  "resolve_web_app_url env = Some u \<Longrightarrow> \<exists>v. u = url_href v \<and> (protocol v = ''http:'' \<or> protocol v = ''https:'')"
  by (auto simp: resolve_web_app_url_def Let_def split: option.splits if_splits)

lemma normalize_base_path_shape:
  "normalize_base_path v = '''' \<or> (\<exists>b. normalize_base_path v = CHR ''/'' # b \<and> b \<noteq> '''' \<and> hd b \<noteq> CHR ''/'' \<and> last b \<noteq> CHR ''/'')"
proof -
  let ?t = "strip_leading (CHR ''/'') (js_trim (case v of Some s \<Rightarrow> s | None \<Rightarrow> ''''))"
  let ?b = "strip_trailing (CHR ''/'') ?t"
  have "?b = '''' \<or> last ?b \<noteq> CHR ''/'' \<and> hd ?b \<noteq> CHR ''/''"
  proof (cases "?b = ''''")
    case False
    then have "?t \<noteq> ''''" by (auto simp: strip_trailing_def)
    then have "hd ?t \<noteq> CHR ''/''" unfolding strip_leading_def using hd_dropWhile by blast
    with strip_trailing_hd [OF False] strip_trailing_last [OF False] show ?thesis by simp
  qed simp
  then show ?thesis by (auto simp: normalize_base_path_def Let_def)
qed

end
