(* ===== verification/AuthHost.thy ===== *)
theory AuthHost
  imports Deployment Effects
begin

section \<open>The sign-in application (\<open>apps/wallow-auth\<close>)\<close>

text \<open>
  The decisions of the sign-in screens: what a screen may do with the \<open>returnUrl\<close> it was linked
  with, what an answer of the authentication API means, and where the browser goes next. A response
  body is \<open>unknown\<close> to the source: here a JSON value, or \<open>None\<close> for none. The base path is an
  argument, as it is baked into a build.
\<close>

subsection \<open>Return URLs (\<open>shared/lib/return-url.ts\<close>)\<close>

definition error_href :: string where "error_href = ''/error?reason=invalid_redirect_uri''"

datatype return_url_mode = RefuseEmpty | EmptyOk | ServerAllowlist

datatype return_url_decision = Absent | Refuse | Accept string | Ask string

definition decide_return_url :: "string option \<Rightarrow> return_url_mode \<Rightarrow> return_url_decision" where
  "decide_return_url return_url mode =
     (case return_url of
        None \<Rightarrow> Absent
      | Some u \<Rightarrow>
          if u = '''' then (if mode = EmptyOk then Absent else Refuse)
          else if is_safe_return_url (Some u) then Accept u
          else if mode = ServerAllowlist then Ask u else Refuse)"

text \<open>A member of an unknown value; a value without members has none.\<close>

definition read_member :: "json option \<Rightarrow> string \<Rightarrow> json option" where
  "read_member v name = (case v of Some j \<Rightarrow> j_get j name | None \<Rightarrow> None)"

definition is_redirect_uri_allowed :: "json option \<Rightarrow> bool" where
  "is_redirect_uri_allowed body \<longleftrightarrow> read_member body ''allowed'' = Some (JBool True)"

subsection \<open>The result of a sign-in (\<open>features/login/auth-result.ts\<close>)\<close>

definition generic_message :: string where "generic_message = ''An error occurred. Please try again.''"
definition external_login_failed_message :: string where
  "external_login_failed_message = ''External sign-in failed. Please try again or use a different method.''"
definition session_expired_message :: string where
  "session_expired_message = ''Your session has expired. Please try again.''"
definition mfa_challenge_path :: string where "mfa_challenge_path = ''/mfa/challenge''"
definition mfa_enroll_path :: string where "mfa_enroll_path = ''/mfa/enroll''"

definition read_string :: "json option \<Rightarrow> string \<Rightarrow> string option" where
  "read_string v name = (case read_member v name of Some j \<Rightarrow> as_string j | None \<Rightarrow> None)"

record login_result =
  lr_succeeded :: bool
  lr_mfa_required :: bool
  lr_mfa_enrollment_required :: bool
  lr_mfa_grace_deadline :: "string option"
  lr_sign_in_ticket :: "string option"

text \<open>An array is an object too, without these members.\<close>

definition narrow_login_result :: "json option \<Rightarrow> login_result option" where
  "narrow_login_result body =
     (case body of
        Some j \<Rightarrow>
          if is_object j \<or> is_array j then
            Some \<lparr>lr_succeeded = (read_member body ''succeeded'' = Some (JBool True)),
              lr_mfa_required = (read_member body ''mfaRequired'' = Some (JBool True)),
              lr_mfa_enrollment_required = (read_member body ''mfaEnrollmentRequired'' = Some (JBool True)),
              lr_mfa_grace_deadline = read_string body ''mfaGraceDeadline'',
              lr_sign_in_ticket = read_string body ''signInTicket''\<rparr>
          else None
      | None \<Rightarrow> None)"

definition is_within_grace_period :: "(string \<Rightarrow> int option) \<Rightarrow> int \<Rightarrow> string option \<Rightarrow> bool" where
  "is_within_grace_period date_parse now deadline =
     (case deadline of
        None \<Rightarrow> False
      | Some d \<Rightarrow> (case date_parse d of None \<Rightarrow> False | Some ms \<Rightarrow> now < ms))"

definition hand_off_href :: "string \<Rightarrow> string option \<Rightarrow> string" where
  "hand_off_href path return_url =
     (case return_url of
        None \<Rightarrow> path
      | Some u \<Rightarrow> if u = '''' then path else path @ ''?returnUrl='' @ encode_uri_component u)"

datatype auth_outcome =
    Navigate string
  | ExchangeTicket string string
  | SignedIn
  | Failed string

record auth_disposition =
  ad_outcome :: auth_outcome
  ad_grace_deadline :: "string option"

definition ticket_outcome :: "login_result \<Rightarrow> string option \<Rightarrow> auth_outcome" where
  "ticket_outcome result return_url =
     (case decide_return_url return_url EmptyOk of
        Absent \<Rightarrow> SignedIn
      | Accept u \<Rightarrow>
          (case lr_sign_in_ticket result of
             Some t \<Rightarrow> if t = '''' then Failed generic_message else ExchangeTicket t u
           | None \<Rightarrow> Failed generic_message)
      | _ \<Rightarrow> Navigate error_href)"

definition auth_disposition_of ::
    "(string \<Rightarrow> int option) \<Rightarrow> int \<Rightarrow> json option \<Rightarrow> string option \<Rightarrow> auth_disposition" where
  "auth_disposition_of date_parse now body return_url =
     (case narrow_login_result body of
        None \<Rightarrow> \<lparr>ad_outcome = Failed generic_message, ad_grace_deadline = None\<rparr>
      | Some result \<Rightarrow>
          if lr_mfa_required result then
            \<lparr>ad_outcome = Navigate (hand_off_href mfa_challenge_path return_url), ad_grace_deadline = None\<rparr>
          else if lr_mfa_enrollment_required result then
            (if \<not> is_within_grace_period date_parse now (lr_mfa_grace_deadline result) then
               \<lparr>ad_outcome = Navigate (hand_off_href mfa_enroll_path return_url), ad_grace_deadline = None\<rparr>
             else
               \<lparr>ad_outcome = ticket_outcome result return_url, ad_grace_deadline = lr_mfa_grace_deadline result\<rparr>)
          else if \<not> lr_succeeded result then
            \<lparr>ad_outcome = Failed generic_message, ad_grace_deadline = None\<rparr>
          else \<lparr>ad_outcome = ticket_outcome result return_url, ad_grace_deadline = None\<rparr>)"

definition error_param_message :: "string option \<Rightarrow> string option" where
  "error_param_message error =
     (case error of
        None \<Rightarrow> None
      | Some e \<Rightarrow>
          if e = '''' then None
          else if e = ''external_login_failed'' then Some external_login_failed_message
          else if e = ''session_expired'' then Some session_expired_message
          else Some generic_message)"

definition password_reset_message :: string where "password_reset_message = ''password_reset''"

definition is_password_reset_message :: "string option \<Rightarrow> bool" where
  "is_password_reset_message message \<longleftrightarrow> message = Some password_reset_message"

text \<open>\<open>magicLinkWasSent\<close> and \<open>otpWasSent\<close>\<close>

definition magic_link_was_sent :: "json option \<Rightarrow> bool" where
  "magic_link_was_sent body \<longleftrightarrow> read_member body ''succeeded'' = Some (JBool True)"

definition otp_was_sent :: "json option \<Rightarrow> bool" where
  "otp_was_sent body \<longleftrightarrow> read_member body ''succeeded'' = Some (JBool True)"

subsection \<open>Where the browser goes\<close>

text \<open>
  A client-side navigation, a navigation of the document, or none. The client router applies the
  base path itself; the document's address is taken as it is.
\<close>

datatype move = InApp string | Document string | Stay

text \<open>\<open>handleAuthResult\<close> of \<open>LoginScreen.tsx\<close>; an event handler may throw.\<close>

definition handle_auth_result ::
    "string \<Rightarrow> (string \<Rightarrow> int option) \<Rightarrow> int \<Rightarrow> string option \<Rightarrow> string option \<Rightarrow> json option \<Rightarrow> string + move" where
  "handle_auth_result base date_parse now return_url home_url body =
     (case ad_outcome (auth_disposition_of date_parse now body return_url) of
        Navigate href \<Rightarrow> Inr (InApp href)
      | ExchangeTicket ticket u \<Rightarrow>
          (case build_exchange_ticket_url base ticket (Bare u) None of Inl e \<Rightarrow> Inl e | Inr url \<Rightarrow> Inr (Document url))
      | SignedIn \<Rightarrow> (case non_empty home_url of Some h \<Rightarrow> Inr (Document h) | None \<Rightarrow> Inr Stay)
      | Failed message \<Rightarrow> Inr Stay)"

text \<open>The challenge screen: \<open>use-redirect-verdict.ts\<close> and \<open>redirect\<close> of \<open>MfaChallengeForm.tsx\<close>.\<close>

datatype return_url_verdict = VAccept | VRefuse | VPending

definition verdict_of :: "return_url_decision \<Rightarrow> bool \<Rightarrow> bool option \<Rightarrow> return_url_verdict" where
  "verdict_of decision allow_list_pending allowed =
     (case decision of
        Refuse \<Rightarrow> VRefuse
      | Ask u \<Rightarrow> if allow_list_pending then VPending else if allowed = Some True then VAccept else VRefuse
      | _ \<Rightarrow> VAccept)"

text \<open>
  The allow-list query: not answered yet (also when it is not made), failed, or answered with a body.
\<close>

datatype validation = Pending | Rejected | Answered "json option"

definition validation_data :: "validation \<Rightarrow> bool option" where
  "validation_data v = (case v of Answered body \<Rightarrow> Some (is_redirect_uri_allowed body) | _ \<Rightarrow> None)"

definition redirect_verdict :: "string option \<Rightarrow> validation \<Rightarrow> return_url_verdict" where
  "redirect_verdict return_url v =
     verdict_of (decide_return_url return_url ServerAllowlist) (v = Pending) (validation_data v)"

definition guard_hand_off :: "string option \<Rightarrow> validation \<Rightarrow> string \<Rightarrow> string + return_target" where
  "guard_hand_off return_url v accepted =
     (case decide_return_url return_url ServerAllowlist of
        Ask u \<Rightarrow> allow_listed_return_url accepted (validation_data v = Some True)
      | _ \<Rightarrow> Inr (Bare accepted))"

definition scoped_client_id :: "string option \<Rightarrow> string option" where
  "scoped_client_id client_id =
     (case client_id of Some c \<Rightarrow> if js_trim c = '''' then None else Some c | None \<Rightarrow> None)"

definition mfa_redirect ::
    "string \<Rightarrow> string option \<Rightarrow> string option \<Rightarrow> validation \<Rightarrow> string option \<Rightarrow> string + move" where
  "mfa_redirect base client_id return_url v ticket =
     (case non_empty return_url of
        None \<Rightarrow> Inr Stay
      | Some u \<Rightarrow>
          (case non_empty ticket of
             None \<Rightarrow> Inr (Document u)
           | Some t \<Rightarrow>
               (case guard_hand_off return_url v u of
                  Inl e \<Rightarrow> Inl e
                | Inr target \<Rightarrow>
                    (case build_exchange_ticket_url base t target (scoped_client_id client_id) of
                       Inl e \<Rightarrow> Inl e
                     | Inr url \<Rightarrow> Inr (Document url)))))"

text \<open>
  The screen: a refused return URL is navigated away from when it is mounted, the form is there only
  once the verdict is to accept, and a verified code redirects.
\<close>

definition mfa_mounted :: "string option \<Rightarrow> validation \<Rightarrow> move" where
  "mfa_mounted return_url v = (if redirect_verdict return_url v = VRefuse then InApp error_href else Stay)"

definition mfa_verified ::
    "string \<Rightarrow> string option \<Rightarrow> string option \<Rightarrow> validation \<Rightarrow> string option \<Rightarrow> (string + move) option" where
  "mfa_verified base client_id return_url v ticket =
     (if redirect_verdict return_url v = VAccept then Some (mfa_redirect base client_id return_url v ticket) else None)"

text \<open>The mount guard of the other screens: \<open>use-return-url-guard.ts\<close>.\<close>

definition return_url_guard :: "string option \<Rightarrow> return_url_verdict" where
  "return_url_guard return_url = (if decide_return_url return_url RefuseEmpty = Refuse then VRefuse else VAccept)"

subsection \<open>Links\<close>

definition sign_in_href :: "string \<Rightarrow> string option \<Rightarrow> string" where
  "sign_in_href base return_url =
     (case decide_return_url return_url EmptyOk of
        Accept u \<Rightarrow> to_app_href base (''/login?returnUrl='' @ encode_uri_component u)
      | _ \<Rightarrow> to_app_href base ''/login'')"

definition register_href :: "string \<Rightarrow> string option \<Rightarrow> string option \<Rightarrow> string" where
  "register_href base client_id return_url =
     (let params = (case non_empty client_id of Some c \<Rightarrow> [''client_id='' @ encode_uri_component c] | None \<Rightarrow> [])
            @ (case non_empty return_url of Some u \<Rightarrow> [''returnUrl='' @ encode_uri_component u] | None \<Rightarrow> []) in
      to_app_href base (if length params = 0 then ''/register'' else ''/register?'' @ js_join ''&'' params))"

definition complete_registration_path :: string where
  "complete_registration_path = ''/v1/identity/auth/complete-external-registration''"

definition complete_registration_url :: "string \<Rightarrow> string option \<Rightarrow> string option \<Rightarrow> string" where
  "complete_registration_url base return_url client_id =
     base @ complete_registration_path @ ''?acceptedTerms=true&returnUrl=''
       @ encode_uri_component (case return_url of Some u \<Rightarrow> u | None \<Rightarrow> ''/'')
       @ (case non_empty client_id of Some c \<Rightarrow> ''&clientId='' @ encode_uri_component c | None \<Rightarrow> '''')"

definition bounce_back_message :: "string \<Rightarrow> string" where
  "bounce_back_message c =
     (if c = ''terms_required'' then ''You must accept the terms to continue.''
      else if c = ''session_expired'' then ''Your session has expired. Please try signing in again.''
      else generic_message)"

definition external_login_path :: string where "external_login_path = ''/v1/identity/auth/external-login''"

definition provider_names_of :: "json option \<Rightarrow> string list" where
  "provider_names_of body =
     (case body of
        Some (JArr xs) \<Rightarrow>
          (let names = List.map_filter (\<lambda>j. case j of JStr s \<Rightarrow> if s \<noteq> '''' then Some s else None | _ \<Rightarrow> None) xs in
           if length names = length xs then names else [])
      | _ \<Rightarrow> [])"

definition external_login_href :: "string \<Rightarrow> string \<Rightarrow> string" where
  "external_login_href provider return_url =
     external_login_path @ ''?provider='' @ encode_uri_component provider @ ''&returnUrl='' @ encode_uri_component return_url"

definition self_return_url :: "string \<Rightarrow> string" where
  "self_return_url token = ''/invitation?token='' @ token"

definition invitation_register_href :: "string \<Rightarrow> string \<Rightarrow> string \<Rightarrow> string" where
  "invitation_register_href base email token =
     to_app_href base (''/register?email='' @ encode_uri_component email
       @ ''&returnUrl='' @ encode_uri_component (self_return_url token))"

definition invitation_login_href :: "string \<Rightarrow> string \<Rightarrow> string" where
  "invitation_login_href base token =
     to_app_href base (''/login?returnUrl='' @ encode_uri_component (self_return_url token))"

text \<open>The link back to the application, once signed out: \<open>LogoutScreen.tsx\<close>.\<close>

definition logout_return_uri :: "string option \<Rightarrow> string option \<Rightarrow> validation \<Rightarrow> string option" where
  "logout_return_uri signed_out post_logout_redirect_uri v =
     (let asked = (signed_out = Some ''true'' \<and> non_empty post_logout_redirect_uri \<noteq> None) in
      if asked \<and> validation_data v = Some True then post_logout_redirect_uri else None)"

subsection \<open>The pending authorization request (\<open>shared/lib/authorize-context.ts\<close>)\<close>

definition transaction_paths :: "string list" where
  "transaction_paths = [''/login'', ''/register'', ''/consent'', ''/accept-terms'', ''/mfa/challenge'', ''/mfa/enroll'',
     ''/verify-email'', ''/forgot-password'']"

definition authorize_path :: string where "authorize_path = ''/connect/authorize''"

record authorize_transaction =
  at_return_url :: string
  at_scope :: "string option"

definition resolve_authorize_transaction ::
    "string \<Rightarrow> string \<Rightarrow> string option \<Rightarrow> string option \<Rightarrow> authorize_transaction option" where
  "resolve_authorize_transaction base path return_url scope =
     (let stripped = strip_base_path path base;
          normalized = (if 1 < length stripped \<and> ends_with stripped ''/'' then strip_one_trailing (CHR ''/'') stripped else stripped) in
      if normalized \<notin> set transaction_paths then None
      else
        (case decide_return_url return_url RefuseEmpty of
           Accept u \<Rightarrow>
             if u \<noteq> authorize_path \<and> \<not> starts_with u (authorize_path @ ''?'') then None
             else Some \<lparr>at_return_url = u, at_scope = scope\<rparr>
         | _ \<Rightarrow> None))"

text \<open>\<open>ask\<close> is the query client's \<open>ensureQueryData\<close> of the context endpoint.\<close>

definition fetch_authorize_context ::
    "(string \<Rightarrow> string option \<Rightarrow> ('s, 'r) io) \<Rightarrow> string \<Rightarrow> string \<Rightarrow> string option \<Rightarrow> string option \<Rightarrow> ('s, 'r option) io" where
  "fetch_authorize_context ask base path return_url scope =
     (case resolve_authorize_transaction base path return_url scope of
        None \<Rightarrow> io_return None
      | Some t \<Rightarrow>
          io_catch (io_bind (ask (at_return_url t) (at_scope t)) (\<lambda>r. io_return (Some r))) (\<lambda>_. io_return None))"


subsection \<open>Form guards\<close>

record register_values =
  rv_email :: string
  rv_password :: string
  rv_confirm_password :: string
  rv_is_passwordless :: bool
  rv_terms_accepted :: bool
  rv_privacy_accepted :: bool

definition register_guard_message :: "register_values \<Rightarrow> string option" where
  "register_guard_message values =
     (if js_trim (rv_email values) = '''' then Some ''Please enter your email address.''
      else if \<not> rv_is_passwordless values \<and> js_trim (rv_password values) = '''' then Some ''Please enter a password.''
      else if \<not> rv_is_passwordless values \<and> rv_password values \<noteq> rv_confirm_password values then Some ''Passwords do not match.''
      else if \<not> rv_terms_accepted values then Some ''You must agree to the Terms of Service.''
      else if \<not> rv_privacy_accepted values then Some ''You must agree to the Privacy Policy.''
      else None)"

definition challenge_guard_message :: "string \<Rightarrow> bool \<Rightarrow> string option" where
  "challenge_guard_message c use_backup_code =
     (if js_trim c = '''' then
        Some (if use_backup_code then ''Please enter a backup code.'' else ''Please enter the verification code.'')
      else None)"

definition confirm_guard_message :: "string \<Rightarrow> string option" where
  "confirm_guard_message c = (if js_trim c = '''' then Some ''Please enter the verification code.'' else None)"

text \<open>The Unicode classes \<open>Lu\<close>, \<open>Ll\<close>, \<open>Nd\<close>, \<open>L\<close> and \<open>N\<close> below code unit 256.\<close>

definition is_upper_letter :: "char \<Rightarrow> bool" where
  "is_upper_letter c \<longleftrightarrow> 65 \<le> code c \<and> code c \<le> 90 \<or> 192 \<le> code c \<and> code c \<le> 222 \<and> code c \<noteq> 215"

definition is_lower_letter :: "char \<Rightarrow> bool" where
  "is_lower_letter c \<longleftrightarrow> 97 \<le> code c \<and> code c \<le> 122 \<or> code c = 181 \<or> 223 \<le> code c \<and> code c \<noteq> 247"

definition is_letter_or_number :: "char \<Rightarrow> bool" where
  "is_letter_or_number c \<longleftrightarrow> is_upper_letter c \<or> is_lower_letter c \<or> is_digit c
     \<or> code c \<in> {170, 186, 178, 179, 185, 188, 189, 190}"

datatype strength = Strong | Fair | Weak

text \<open>Label, percentage and indicator are one value per strength.\<close>

definition password_strength :: "string \<Rightarrow> strength option" where
  "password_strength p =
     (if p = '''' then None
      else
        (let has_mix = list_ex is_upper_letter p \<and> list_ex is_lower_letter p
               \<and> (list_ex is_digit p \<or> list_ex (\<lambda>c. \<not> is_letter_or_number c) p) in
         if 12 \<le> length p \<and> has_mix then Some Strong
         else if 8 \<le> length p then Some Fair
         else Some Weak))"

definition is_expired_invitation :: "(string \<Rightarrow> int option) \<Rightarrow> int \<Rightarrow> string \<Rightarrow> string \<Rightarrow> bool" where
  "is_expired_invitation date_parse now st expires_at \<longleftrightarrow>
     st = ''Expired'' \<or> (case date_parse expires_at of Some ms \<Rightarrow> ms < now | None \<Rightarrow> False)"

subsection \<open>No framing (\<open>shared/lib/frame-denial.ts\<close>)\<close>

definition frame_ancestors_none :: string where "frame_ancestors_none = ''frame-ancestors '' @ [CHR 0x27] @ ''none'' @ [CHR 0x27]"

text \<open>\<open>/(?:^|;)\s*frame-ancestors\b/i\<close>: a directive of that name starts the policy or follows a semicolon.\<close>

definition word_char :: "char \<Rightarrow> bool" where
  "word_char c \<longleftrightarrow> is_digit c \<or> 65 \<le> code c \<and> code c \<le> 90 \<or> 97 \<le> code c \<and> code c \<le> 122 \<or> c = CHR ''_''"

definition starts_directive :: "string \<Rightarrow> bool" where
  "starts_directive s \<longleftrightarrow>
     (let t = trim_start s; n = ''frame-ancestors'' in
      to_lower (take (length n) t) = n \<and> (drop (length n) t = [] \<or> \<not> word_char (hd (drop (length n) t))))"

definition has_frame_ancestors :: "string \<Rightarrow> bool" where
  "has_frame_ancestors policy \<longleftrightarrow> (\<exists>d \<in> set (split_char (CHR '';'') policy). starts_directive d)"

text \<open>\<open>replace(/;\s*$/, "")\<close>: the last semicolon, when only white space follows it.\<close>

definition drop_last_semicolon :: "string \<Rightarrow> string" where
  "drop_last_semicolon s =
     (let t = trim_end s in if t \<noteq> [] \<and> last t = CHR '';'' then butlast t else s)"

text \<open>\<open>immutable\<close>: setting a header throws, and the response is copied.\<close>

definition with_frame_denial :: "bool \<Rightarrow> response \<Rightarrow> response" where
  "with_frame_denial immutable r =
     (let target = (if immutable then r\<lparr>resp_headers := h_copy (resp_headers r)\<rparr> else r);
          hs = h_set (resp_headers target) ''X-Frame-Options'' ''DENY'' in
      target\<lparr>resp_headers :=
        (case h_get hs ''Content-Security-Policy'' of
           None \<Rightarrow> h_set hs ''Content-Security-Policy'' frame_ancestors_none
         | Some existing \<Rightarrow>
             if js_trim existing = '''' then h_set hs ''Content-Security-Policy'' frame_ancestors_none
             else if \<not> has_frame_ancestors existing then
               h_set hs ''Content-Security-Policy'' (drop_last_semicolon existing @ ''; '' @ frame_ancestors_none)
             else hs)\<rparr>)"

subsection \<open>First-run setup (\<open>features/setup/setup-status.ts\<close>)\<close>

record setup_status =
  ss_setup_required :: bool
  ss_seeded_organization_name :: "string option"

text \<open>\<open>ask\<close> reads the status through the query cache: whether setup is required, and the name.\<close>

definition ensure_setup_status :: "('s, bool \<times> string option) io \<Rightarrow> ('s, setup_status option) io" where
  "ensure_setup_status ask =
     io_catch
       (io_bind ask (\<lambda>(required, name).
          io_return (Some \<lparr>ss_setup_required = required, ss_seeded_organization_name = non_empty name\<rparr>)))
       (\<lambda>_. io_return None)"

definition ensure_setup_required :: "('s, bool \<times> string option) io \<Rightarrow> ('s, bool option) io" where
  "ensure_setup_required ask =
     io_bind (ensure_setup_status ask) (\<lambda>st. io_return (map_option ss_setup_required st))"


subsection \<open>Lemmas: landing on the own site\<close>

text \<open>Where a browser on a page of the host ends up when it follows a link.\<close>

definition lands :: "full_url \<Rightarrow> string \<Rightarrow> bool" where
  "lands page href \<longleftrightarrow> (\<exists>v. parse_url (Some page) href = Some v \<and> protocol v = protocol page \<and> host v = host page)"

text \<open>A base path whose first segment starts with a letter or a digit, or none.\<close>

definition base_ok :: "string \<Rightarrow> bool" where
  "base_ok base \<longleftrightarrow> base = '''' \<or> (\<exists>c r. base = CHR ''/'' # c # r \<and> word_char c \<and> last (c # r) \<noteq> CHR ''/'')"

lemma lands_safe: "is_safe_return_url (Some u) \<Longrightarrow> url_wf page \<Longrightarrow> lands page u"
  unfolding lands_def by (elim safe_shape) (rule local_shape_parse)

lemma word_char_plain: "word_char c \<Longrightarrow> \<not> dropped c \<and> \<not> is_slash c"
  by (auto simp: word_char_def dropped_def is_slash_def is_digit_def)

lemma lands_rooted:
  assumes "word_char c" "url_wf page"
  shows "lands page (CHR ''/'' # c # s)"
  unfolding lands_def
proof (rule local_shape_parse [OF _ _ _ assms(2)])
  show "filter (\<lambda>c. \<not> dropped c) (CHR ''/'' # c # s) = CHR ''/'' # c # filter (\<lambda>c. \<not> dropped c) s"
    using word_char_plain [OF assms(1)] by (simp add: dropped_def)
qed (use word_char_plain [OF assms(1)] in \<open>auto simp: is_slash_def\<close>)

lemma lands_below:
  assumes "base_ok base" "url_wf page" "word_char c"
  shows "lands page (base @ CHR ''/'' # c # s)"
proof (cases "base = ''''")
  case True
  then show ?thesis using lands_rooted [OF assms(3,2)] by simp
next
  case False
  then obtain d r where "base = CHR ''/'' # d # r" "word_char d" using assms(1) by (auto simp: base_ok_def)
  then show ?thesis using lands_rooted [OF _ assms(2), of d "r @ CHR ''/'' # c # s"] by simp
qed

lemma base_ok_origin: "base_ok base \<Longrightarrow> normalize_origin base = base"
  by (auto simp: base_ok_def normalize_origin_def intro!: strip_trailing_id split: if_splits)

lemma decide_accept: "decide_return_url r m = Accept u \<Longrightarrow> r = Some u \<and> is_safe_return_url (Some u)"
  by (auto simp: decide_return_url_def split: option.splits if_splits)

lemma decide_ask: "decide_return_url r m = Ask u \<Longrightarrow> r = Some u \<and> m = ServerAllowlist"
  by (auto simp: decide_return_url_def split: option.splits if_splits)

definition exchange_ticket_url :: "string \<Rightarrow> string \<Rightarrow> string \<Rightarrow> string" where
  "exchange_ticket_url base ticket target =
     base @ ''/v1/identity/auth/exchange-ticket'' @ ''?ticket='' @ encode_uri_component ticket
       @ ''&returnUrl='' @ encode_uri_component target"

lemma exchange_ticket_cases:
  assumes "build_exchange_ticket_url base ticket target client = Inr url" "base_ok base"
  obtains u s where "resolve_hand_off_return_url target = Inr u" "url = exchange_ticket_url base ticket u @ s"
  using assms by (auto simp: build_exchange_ticket_url_def Let_def base_ok_origin exchange_ticket_url_def
      split: if_splits sum.splits option.splits)

lemma exchange_ticket_lands: "base_ok base \<Longrightarrow> url_wf page \<Longrightarrow> lands page (exchange_ticket_url base ticket u @ s)"
  using lands_below [of base page "CHR ''v''"] by (simp add: exchange_ticket_url_def word_char_def is_digit_def)

text \<open>What a sign-in can end in.\<close>

lemma ticket_outcome_cases:
  obtains (signed_in) "ticket_outcome result r = SignedIn"
    | (failed) m where "ticket_outcome result r = Failed m"
    | (refused) "ticket_outcome result r = Navigate error_href"
    | (ticket) t u where "ticket_outcome result r = ExchangeTicket t u" "r = Some u" "is_safe_return_url (Some u)"
        "lr_sign_in_ticket result = Some t" "t \<noteq> ''''"
proof (cases "decide_return_url r EmptyOk")
  case (Accept u)
  show thesis
  proof (cases "non_empty (lr_sign_in_ticket result)")
    case None
    with Accept show thesis
      by (intro failed [of "generic_message"]) (auto simp: ticket_outcome_def non_empty_def split: option.splits if_splits)
  next
    case (Some t)
    with Accept decide_accept [OF Accept] show thesis
      by (intro ticket [of t u]) (auto simp: ticket_outcome_def non_empty_def split: option.splits if_splits)
  qed
next
  case Absent
  then show thesis by (intro signed_in) (simp add: ticket_outcome_def)
qed (auto simp: ticket_outcome_def intro: refused)

lemma hand_off_rooted:
  "\<exists>s. hand_off_href mfa_challenge_path r = CHR ''/'' # CHR ''m'' # s"
  "\<exists>s. hand_off_href mfa_enroll_path r = CHR ''/'' # CHR ''m'' # s"
  by (auto simp: hand_off_href_def mfa_challenge_path_def mfa_enroll_path_def split: option.split)

lemma disposition_cases:
  obtains (inside) href c s where "ad_outcome (auth_disposition_of dp now body r) = Navigate href" "href = CHR ''/'' # c # s" "word_char c"
    | (rest) m where "ad_outcome (auth_disposition_of dp now body r) = Failed m"
    | (home) "ad_outcome (auth_disposition_of dp now body r) = SignedIn"
    | (ticket) t u where "ad_outcome (auth_disposition_of dp now body r) = ExchangeTicket t u" "r = Some u"
        "is_safe_return_url (Some u)" "read_string body ''signInTicket'' = Some t"
proof (cases "narrow_login_result body")
  case None
  then show thesis using rest by (simp add: auth_disposition_of_def)
next
  case (Some result)
  have ticket': "read_string body ''signInTicket'' = Some t" if "lr_sign_in_ticket result = Some t" for t
    using that Some by (auto simp: narrow_login_result_def split: option.splits if_splits)
  have m: "word_char (CHR ''m'')" "word_char (CHR ''e'')" by (simp_all add: word_char_def)
  have error: "error_href = CHR ''/'' # CHR ''e'' # ''rror?reason=invalid_redirect_uri''" by (simp add: error_href_def)
  let ?out = "ad_outcome (auth_disposition_of dp now body r)"
  have "?out = Navigate (hand_off_href mfa_challenge_path r) \<or> ?out = Navigate (hand_off_href mfa_enroll_path r)
    \<or> ?out = Failed generic_message \<or> ?out = ticket_outcome result r"
    by (simp add: auth_disposition_of_def Some)
  then consider "?out = Navigate (hand_off_href mfa_challenge_path r)" | "?out = Navigate (hand_off_href mfa_enroll_path r)"
    | "?out = Failed generic_message" | "?out = ticket_outcome result r" by blast
  then show thesis
  proof cases
    case 4
    then show thesis
      by (cases rule: ticket_outcome_cases [of result r]) (use home rest inside error m ticket ticket' in auto)
  qed (use inside hand_off_rooted [of r] m rest in auto)
qed


lemma lands_in_app: "base_ok base \<Longrightarrow> url_wf page \<Longrightarrow> word_char c \<Longrightarrow> lands page (to_app_href base (CHR ''/'' # c # s))"
  by (simp add: to_app_href_def lands_below)

subsection \<open>Properties\<close>

text \<open>
  C40: A sign-in leaves the browser on the own site. Whatever the authentication API answers and
  whatever \<open>returnUrl\<close> the login page was linked with, the screen stays, moves within the application,
  goes to the application's configured home, or goes to the ticket exchange on the own origin with a
  return URL that resolves to the own origin too; it throws only for a ticket of white space.
\<close>

theorem sign_in_stays_on_site:
  assumes "base_ok base" "url_wf page"
  shows "case handle_auth_result base date_parse now return_url home_url body of
      Inl e \<Rightarrow> (\<exists>t. read_string body ''signInTicket'' = Some t \<and> js_trim t = '''')
    | Inr Stay \<Rightarrow> True
    | Inr (InApp href) \<Rightarrow> lands page (to_app_href base href)
    | Inr (Document href) \<Rightarrow> home_url = Some href
        \<or> lands page href \<and> (\<exists>t u. return_url = Some u \<and> lands page u \<and> href = exchange_ticket_url base t u)"
proof (cases rule: disposition_cases [of date_parse now body return_url])
  case (inside href c s)
  then show ?thesis using lands_in_app [OF assms] by (simp add: handle_auth_result_def)
next
  case (rest m)
  then show ?thesis by (simp add: handle_auth_result_def)
next
  case home
  then show ?thesis by (cases "non_empty home_url") (auto simp: handle_auth_result_def non_empty_def split: option.splits if_splits)
next
  case (ticket t u)
  have exchange: "build_exchange_ticket_url base t (Bare u) None
      = (if js_trim t = '''' then Inl ''ticket is required to build an exchange-ticket url'' else Inr (exchange_ticket_url base t u))"
    using ticket(3) by (simp add: build_exchange_ticket_url_def resolve_hand_off_return_url_def assert_safe_return_url_def
        base_ok_origin [OF assms(1)] exchange_ticket_url_def)
  then show ?thesis
    using ticket lands_safe [OF ticket(3) assms(2)] exchange_ticket_lands [OF assms, of t u "''''"]
    by (auto simp: handle_auth_result_def)
qed

theorem sign_in_stays_on_site_witness:
  "case handle_auth_result '''' (\<lambda>_. None) 0 (Some ''/connect/authorize?client_id=web'') None
        (Some (JObj [(''succeeded'', JBool True), (''signInTicket'', JStr ''t1'')])) of
      Inl e \<Rightarrow> False
    | Inr Stay \<Rightarrow> False
    | Inr (InApp href) \<Rightarrow> False
    | Inr (Document href) \<Rightarrow> lands example_page href
        \<and> (\<exists>t. href = exchange_ticket_url '''' t ''/connect/authorize?client_id=web'')"
proof -
  let ?body = "Some (JObj [(''succeeded'', JBool True), (''signInTicket'', JStr ''t1'')])"
  let ?u = "''/connect/authorize?client_id=web''"
  have "base_ok ''''" by (simp add: base_ok_def)
  from sign_in_stays_on_site [OF this example_page_wf, where date_parse = "\<lambda>_. None" and now = 0 and return_url = "Some ?u"
      and home_url = None and body = ?body]
  have "case handle_auth_result '''' (\<lambda>_. None) 0 (Some ?u) None ?body of
      Inl e \<Rightarrow> (\<exists>t. read_string ?body ''signInTicket'' = Some t \<and> js_trim t = '''')
    | Inr Stay \<Rightarrow> True
    | Inr (InApp href) \<Rightarrow> lands example_page (to_app_href '''' href)
    | Inr (Document href) \<Rightarrow> None = Some href
        \<or> lands example_page href \<and> (\<exists>t u. Some ?u = Some u \<and> lands example_page u \<and> href = exchange_ticket_url '''' t u)" .
  moreover have "\<exists>href. handle_auth_result '''' (\<lambda>_. None) 0 (Some ?u) None ?body = Inr (Document href)"
    by (rule exI) code_simp
  ultimately show ?thesis by auto
qed


text \<open>
  A second factor is spent on a vetted destination only. The challenge form is there only once the
  verdict is to accept, and a verified code then stays, or leaves the page for the ticket exchange on
  the own origin, or, without a ticket, for the return URL itself; the return URL it carries or follows
  resolves to the own origin, or the server's allow-list answered \<open>allowed: true\<close> for it, and behind
  a ticket it is then an \<open>http\<close> or \<open>https\<close> URL.
\<close>

lemma second_factor_goes_to_vetted_target:
  assumes "base_ok base" "url_wf page" "mfa_verified base client_id return_url v ticket = Some (Inr (Document href))"
  shows "\<exists>u. return_url = Some u
    \<and> (lands page u \<or> (\<exists>body. v = Answered body \<and> is_redirect_uri_allowed body))
    \<and> (case non_empty ticket of
         None \<Rightarrow> href = u
       | Some t \<Rightarrow> lands page href \<and> (\<exists>s. href = exchange_ticket_url base t u @ s)
           \<and> (lands page u \<or> assert_hand_off_url u = Inr ()))"
proof -
  have verdict: "redirect_verdict return_url v = VAccept" and run: "mfa_redirect base client_id return_url v ticket = Inr (Document href)"
    using assms(3) by (auto simp: mfa_verified_def split: if_splits)
  obtain u where u: "return_url = Some u" "u \<noteq> ''''"
    using run by (auto simp: mfa_redirect_def non_empty_def split: option.splits if_splits)
  let ?d = "decide_return_url return_url ServerAllowlist"
  have d: "?d = Accept u \<and> is_safe_return_url (Some u) \<or> ?d = Ask u \<and> \<not> is_safe_return_url (Some u)"
    using u by (auto simp: decide_return_url_def)
  have allowed: "validation_data v = Some True" if "?d = Ask u"
    using verdict that by (auto simp: redirect_verdict_def verdict_of_def split: if_splits)
  have vetted: "lands page u \<or> (\<exists>body. v = Answered body \<and> is_redirect_uri_allowed body)"
    using d allowed lands_safe [OF _ assms(2)] by (auto simp: validation_data_def split: validation.splits)
  have target: "resolve_hand_off_return_url t = Inr x \<Longrightarrow> x = u \<and> (lands page u \<or> assert_hand_off_url u = Inr ())"
    if "guard_hand_off return_url v u = Inr t" for t x
    using that d allowed lands_safe [OF _ assms(2)]
    by (auto simp: guard_hand_off_def resolve_hand_off_return_url_def allow_listed_return_url_def split: sum.splits if_splits)
  show ?thesis
  proof (cases "non_empty ticket")
    case None
    with run u vetted show ?thesis by (auto simp: mfa_redirect_def non_empty_def)
  next
    case (Some t)
    obtain g where g: "guard_hand_off return_url v u = Inr g"
      "build_exchange_ticket_url base t g (scoped_client_id client_id) = Inr href"
      using run u Some by (auto simp: mfa_redirect_def non_empty_def split: sum.splits)
    obtain x s where x: "resolve_hand_off_return_url g = Inr x" "href = exchange_ticket_url base t x @ s"
      by (rule exchange_ticket_cases [OF g(2) assms(1)])
    with target [OF g(1) x(1)] vetted u Some exchange_ticket_lands [OF assms(1,2), of t x s] show ?thesis by auto
  qed
qed

lemma second_factor_goes_to_vetted_target_witness:
  "\<exists>href. mfa_verified '''' None (Some ''/connect/authorize'') Pending (Some ''t1'') = Some (Inr (Document href))
    \<and> lands example_page ''/connect/authorize'' \<and> lands example_page href"
proof -
  have base: "base_ok ''''" by (simp add: base_ok_def)
  obtain href where run: "mfa_verified '''' None (Some ''/connect/authorize'') Pending (Some ''t1'') = Some (Inr (Document href))"
  proof -
    have "\<exists>href. mfa_verified '''' None (Some ''/connect/authorize'') Pending (Some ''t1'') = Some (Inr (Document href))"
      by (rule exI) code_simp
    then show thesis using that by blast
  qed
  from second_factor_goes_to_vetted_target [OF base example_page_wf run] run show ?thesis by (auto simp: non_empty_def)
qed

subsection \<open>No answer is framed\<close>

lemma header_value_tail:
  "\<exists>y. header_value (x @ ''; '' @ frame_ancestors_none) = y @ CHR '';'' # CHR '' '' # frame_ancestors_none"
proof -
  have d: "\<exists>y. dropWhile http_ws (x @ ''; '' @ frame_ancestors_none) = y @ ''; '' @ frame_ancestors_none"
  proof (induction x)
    case (Cons c x)
    show ?case
    proof (cases "http_ws c")
      case False
      then show ?thesis by (intro exI [of _ "c # x"]) simp
    qed (use Cons in simp)
  qed (simp add: http_ws_def)
  then obtain y where y: "dropWhile http_ws (x @ ''; '' @ frame_ancestors_none) = y @ ''; '' @ frame_ancestors_none" by blast
  show ?thesis unfolding header_value_def y by (intro exI [of _ y]) (simp add: frame_ancestors_none_def http_ws_def)
qed

lemma starts_directive_none: "starts_directive (CHR '' '' # frame_ancestors_none)" "starts_directive frame_ancestors_none"
  by code_simp+

lemma has_frame_ancestors_tail: "has_frame_ancestors (y @ CHR '';'' # CHR '' '' # frame_ancestors_none)"
proof -
  have "CHR '' '' # frame_ancestors_none \<in> set (split_char (CHR '';'') (CHR '' '' # frame_ancestors_none))"
    by (simp add: frame_ancestors_none_def)
  then show ?thesis
    unfolding has_frame_ancestors_def split_char_append_sep using starts_directive_none(1) by (metis UnCI set_append)
qed

lemma with_frame_denial_mutable:
  "h_get (resp_headers (with_frame_denial False r)) ''x-frame-options'' = Some ''DENY''
    \<and> (\<exists>p. h_get (resp_headers (with_frame_denial False r)) ''content-security-policy'' = Some p \<and> has_frame_ancestors p
        \<and> p = (case h_get (resp_headers r) ''content-security-policy'' of
              None \<Rightarrow> frame_ancestors_none
            | Some old \<Rightarrow> if js_trim old = '''' then frame_ancestors_none
                else if has_frame_ancestors old then old
                else header_value (drop_last_semicolon old @ ''; '' @ frame_ancestors_none)))"
proof -
  have names: "to_lower ''X-Frame-Options'' = ''x-frame-options''" "to_lower ''Content-Security-Policy'' = ''content-security-policy''"
    "to_lower ''x-frame-options'' = ''x-frame-options''" "to_lower ''content-security-policy'' = ''content-security-policy''"
    by code_simp+
  have deny: "header_value ''DENY'' = ''DENY''" "header_value frame_ancestors_none = frame_ancestors_none" by code_simp+
  have none: "has_frame_ancestors frame_ancestors_none" by code_simp
  have tail: "has_frame_ancestors (header_value (x @ ''; '' @ frame_ancestors_none))" for x
    using header_value_tail [of x] has_frame_ancestors_tail by metis
  have csp: "h_get hs ''Content-Security-Policy'' = h_get hs ''content-security-policy''" for hs
    by (simp add: h_get_def h_values_def names)
  show ?thesis
    unfolding with_frame_denial_def Let_def if_False
    by (cases "h_get (resp_headers r) ''content-security-policy''")
      (auto simp: h_get_set names csp deny none tail [simplified])
qed

text \<open>
  No page of the sign-in application is framed. Every answer that passes the hook names
  \<open>X-Frame-Options: DENY\<close> and a policy with a \<open>frame-ancestors\<close> directive; a policy that has one
  already is left as it is, and any other keeps its text in front of the new directive.
\<close>

lemma answers_deny_framing:
  "h_get (resp_headers (with_frame_denial immutable r)) ''x-frame-options'' = Some ''DENY''
    \<and> (\<exists>p. h_get (resp_headers (with_frame_denial immutable r)) ''content-security-policy'' = Some p \<and> has_frame_ancestors p
        \<and> p = (case h_get (if immutable then h_copy (resp_headers r) else resp_headers r) ''content-security-policy'' of
              None \<Rightarrow> frame_ancestors_none
            | Some old \<Rightarrow> if js_trim old = '''' then frame_ancestors_none
                else if has_frame_ancestors old then old
                else header_value (drop_last_semicolon old @ ''; '' @ frame_ancestors_none)))"
proof (cases immutable)
  case True
  have "with_frame_denial True r = with_frame_denial False (r\<lparr>resp_headers := h_copy (resp_headers r)\<rparr>)"
    by (simp add: with_frame_denial_def Let_def)
  with True with_frame_denial_mutable [of "r\<lparr>resp_headers := h_copy (resp_headers r)\<rparr>"] show ?thesis by simp
next
  case False
  with with_frame_denial_mutable [of r] show ?thesis by simp
qed

subsection \<open>Links and the base path\<close>

text \<open>A link is below the base path: the request it makes loses the base again.\<close>

lemma strip_to_app_href: "starts_with path ''/'' \<Longrightarrow> base_ok base \<Longrightarrow> strip_base_path (to_app_href base path) base = path"
  by (cases path) (auto simp: strip_base_path_def to_app_href_def starts_with_def Let_def)

lemma strip_base_path_boundary:
  "strip_base_path path base \<noteq> path \<Longrightarrow> \<exists>rest. path = base @ rest \<and> (rest = '''' \<or> starts_with rest ''/'')"
  by (auto simp: strip_base_path_def Let_def starts_with_iff split: if_splits)

text \<open>
  The screens' links are below the base path, but the link that starts an external sign-in is not:
  under a base path it is outside the application.
\<close>

lemma sign_in_href_below: "starts_with (sign_in_href base r) base"
  by (auto simp: sign_in_href_def to_app_href_def split: return_url_decision.split)

lemma register_href_below: "starts_with (register_href base c r) base"
  by (simp add: register_href_def to_app_href_def Let_def)

lemma external_login_outside_base: "\<not> starts_with (external_login_href provider r) ''/auth''"
  by (simp add: external_login_href_def external_login_path_def starts_with_def)

text \<open>A transaction is asked about only for a safe authorization request of the own origin.\<close>

lemma resolve_authorize_transaction_safe:
  assumes "resolve_authorize_transaction base path r scope = Some t"
  shows "r = Some (at_return_url t) \<and> is_safe_return_url r \<and> starts_with (at_return_url t) authorize_path"
  using assms decide_accept [of r RefuseEmpty]
  by (auto simp: resolve_authorize_transaction_def Let_def starts_with_iff split: return_url_decision.splits if_splits)

end
