(* ===== verification/Browser.thy ===== *)
theory Browser
  imports Proxy Deployment
begin

section \<open>The browser's end of the SDK (\<open>sdk/src\<close>)\<close>

text \<open>
  What runs in the page: reading the double-submit cookie and echoing it, signing out, the request a
  client instance sends, turning what a call threw into a failure, and the links into the server's
  login. \<open>document.cookie\<close> is an argument, \<open>None\<close> where there is no document.
\<close>

subsection \<open>\<open>decodeURIComponent\<close>\<close>

text \<open>
  \<open>None\<close> is the \<open>URIError\<close> of a malformed escape; it also stands for an escaped character beyond the
  model's strings.
\<close>

fun decode_uri_component :: "string \<Rightarrow> string option" where
  "decode_uri_component [] = Some []"
| "decode_uri_component (c # s) =
     (if c \<noteq> CHR ''%'' then map_option (\<lambda>r. c # r) (decode_uri_component s)
      else
        (case s of
           h # l # s' \<Rightarrow>
             (case (hex_value h, hex_value l) of
                (Some a, Some b) \<Rightarrow>
                  if a * 16 + b < 128 then map_option (\<lambda>r. char_of (a * 16 + b) # r) (decode_uri_component s')
                  else
                    (case s' of
                       p # h' # l' # s'' \<Rightarrow>
                         (case (hex_value h', hex_value l') of
                            (Some a', Some b') \<Rightarrow>
                              if p = CHR ''%'' \<and> a * 16 + b \<in> {194, 195} \<and> 128 \<le> a' * 16 + b' \<and> a' * 16 + b' < 192
                              then map_option (\<lambda>r. char_of ((a * 16 + b - 192) * 64 + (a' * 16 + b' - 128)) # r)
                                     (decode_uri_component s'')
                              else None
                          | _ \<Rightarrow> None)
                     | _ \<Rightarrow> None)
              | _ \<Rightarrow> None)
         | _ \<Rightarrow> None))"

definition uri_error :: thrown where
  "uri_error = Err (JsError 0 ''URIError'' ''URI malformed'' None None)"

subsection \<open>The double-submit cookie (\<open>csrf.ts\<close>)\<close>

definition safe_methods :: "string list" where "safe_methods = [''GET'', ''HEAD'', ''OPTIONS'']"
definition csrf_cookie_suffix :: string where "csrf_cookie_suffix = ''-csrf''"
definition browser_host_cookie_prefix :: string where "browser_host_cookie_prefix = ''__Host-''"

text \<open>The loop over the entries, with the fallback found so far.\<close>

fun scan_csrf_cookies :: "string option \<Rightarrow> string list \<Rightarrow> thrown + string option" where
  "scan_csrf_cookies fallback [] = Inr fallback"
| "scan_csrf_cookies fallback (e # es) =
     (let parts = split_char (CHR ''='') e; name = js_trim (hd parts) in
      if ends_with name csrf_cookie_suffix then
        (case decode_uri_component (js_trim (js_join ''='' (tl parts))) of
           None \<Rightarrow> Inl uri_error
         | Some token \<Rightarrow>
             if starts_with name browser_host_cookie_prefix then Inr (Some token)
             else scan_csrf_cookies (case fallback of Some f \<Rightarrow> Some f | None \<Rightarrow> Some token) es)
      else scan_csrf_cookies fallback es)"

definition read_csrf_cookie :: "string option \<Rightarrow> thrown + string option" where
  "read_csrf_cookie cookies =
     (case cookies of None \<Rightarrow> Inr None | Some c \<Rightarrow> scan_csrf_cookies None (split_char (CHR '';'') c))"

definition is_safe_method :: "string \<Rightarrow> bool" where
  "is_safe_method m \<longleftrightarrow> to_upper m \<in> set safe_methods"

text \<open>The interceptor, on a request's method and headers.\<close>

definition csrf_interceptor :: "string option \<Rightarrow> string \<Rightarrow> headers \<Rightarrow> thrown + headers" where
  "csrf_interceptor cookies m hs =
     (case read_csrf_cookie cookies of
        Inl e \<Rightarrow> Inl e
      | Inr (Some token) \<Rightarrow> if \<not> is_safe_method m then Inr (h_set hs csrf_header token) else Inr hs
      | Inr None \<Rightarrow> Inr hs)"

subsection \<open>Signing out (\<open>auth.ts\<close>)\<close>

definition http_first_error :: nat where "http_first_error = 400"
definition http_no_content :: nat where "http_no_content = 204"

text \<open>
  \<open>logout\<close>: where the browser is sent. \<open>can_navigate\<close> is whether there is a \<open>location\<close>. A body that is no
  object of the declared shape reads as one without a URL, but \<open>null\<close>, which has no members, throws.
\<close>

definition end_session ::
    "'s platform \<Rightarrow> string option \<Rightarrow> string option \<Rightarrow> ('s, string) io" where
  "end_session pl given cookies =
     io_bind (case given of Some t \<Rightarrow> io_return (Some t) | None \<Rightarrow> io_of (read_csrf_cookie cookies)) (\<lambda>token.
     io_bind (io_lift (pl_fetch pl
        \<lparr>fetch_url = ''/bff/logout'', fetch_method = ''POST'',
         fetch_headers = h_of (case token of Some t \<Rightarrow> [(csrf_header, t)] | None \<Rightarrow> []), fetch_body = None\<rparr> None)) (\<lambda>outcome.
     case outcome of
       Faulted e timed_out \<Rightarrow> io_throw e
     | Fetched r \<Rightarrow>
         if http_first_error \<le> status r then
           io_throw (new_error (''Logout failed: the BFF answered '' @ nat_to_string (status r)
             @ ''. The session may still be active.''))
         else if status r = http_no_content then io_return ''/''
         else
           (case json_parse (case resp_body r of Some b \<Rightarrow> b | None \<Rightarrow> '''') of
              None \<Rightarrow> io_throw (Err (JsError 0 ''SyntaxError'' ''Unexpected token in JSON'' None None))
            | Some JNull \<Rightarrow> io_throw (type_error ''Cannot read properties of null'')
            | Some body \<Rightarrow> io_return (case j_string body ''logoutUrl'' of Some u \<Rightarrow> u | None \<Rightarrow> ''/''))))"

definition browser_logout ::
    "'s platform \<Rightarrow> bool \<Rightarrow> string option \<Rightarrow> string option \<Rightarrow> ('s, string) io" where
  "browser_logout pl can_navigate given cookies =
     (if \<not> can_navigate then
        io_throw (new_error (''logout() can only run in the browser: it navigates by assigning to the global `location`, ''
          @ ''which is unavailable during server-side rendering. Call it from a client-side event handler or effect.''))
      else end_session pl given cookies)"

subsection \<open>The current user, and the redirect check (\<open>auth-extras.ts\<close>)\<close>

definition anonymous_status :: int where "anonymous_status = 401"

definition get_current_user :: "('s, 'u option) io \<Rightarrow> ('s, 'u option) io" where
  "get_current_user users_get_current_user =
     io_catch users_get_current_user (\<lambda>e.
       case thrown_failure e of
         Some f \<Rightarrow> if f_status f = anonymous_status then io_return None else io_throw e
       | None \<Rightarrow> io_throw e)"

definition validate_redirect_uri_args :: "string \<Rightarrow> string option \<Rightarrow> (string \<times> string) list" where
  "validate_redirect_uri_args uri scope =
     (''uri'', uri) # (case non_empty scope of Some c \<Rightarrow> [(''clientId'', c)] | None \<Rightarrow> [])"

subsection \<open>A client instance (\<open>create-sdk.ts\<close>, \<open>runtime-config.ts\<close>)\<close>

text \<open>\<open>new Request(target, { body, headers, method, \<dots> })\<close> of the same request against another origin.\<close>

definition full_hash :: "full_url \<Rightarrow> string" where
  "full_hash u = (case u_fragment u of Some f \<Rightarrow> if f = '''' then '''' else ''#'' @ f | None \<Rightarrow> '''')"

definition retarget :: "string \<Rightarrow> fetch_request \<Rightarrow> thrown + fetch_request" where
  "retarget origin req =
     (case new_url (fetch_url req) of
        Inl e \<Rightarrow> Inl e
      | Inr source \<Rightarrow>
          (case new_url_from (pathname source @ search source @ full_hash source) origin of
             Inl e \<Rightarrow> Inl e
           | Inr target \<Rightarrow> Inr (req\<lparr>fetch_url := url_href target, fetch_headers := h_copy (fetch_headers req)\<rparr>)))"

record sdk_options =
  so_base_url :: string
  so_internal_origin :: "string option"
  so_cookie_header :: "string option"
  so_csrf :: "bool option"

definition sdk_send :: "sdk_options \<Rightarrow> (fetch_request \<Rightarrow> ('s, response) io) \<Rightarrow> fetch_request \<Rightarrow> ('s, response) io" where
  "sdk_send options transport req =
     (let with_cookie = (case so_cookie_header options of
            Some c \<Rightarrow> req\<lparr>fetch_headers := h_set (fetch_headers req) ''cookie'' c\<rparr> | None \<Rightarrow> req) in
      case non_empty (so_internal_origin options) of
        None \<Rightarrow> transport with_cookie
      | Some origin \<Rightarrow> io_bind (io_of (retarget origin with_cookie)) transport)"

text \<open>What a generated operation rejects with, given what the client threw and the response, if one arrived.\<close>

definition to_failure :: "(string \<Rightarrow> int option) \<Rightarrow> int \<Rightarrow> thrown \<Rightarrow> response option \<Rightarrow> api_failure" where
  "to_failure date_parse now e r =
     (case thrown_failure e of
        Some f \<Rightarrow> f
      | None \<Rightarrow>
          (case r of
             None \<Rightarrow> to_api_failure e no_context
           | Some r \<Rightarrow>
               (case e of
                  Value (JStr text) \<Rightarrow> failure_from_response date_parse now (int (status r)) (resp_headers r) text
                | _ \<Rightarrow> to_api_failure e
                    \<lparr>facts_status = Some (int (status r)), facts_request_id = h_get (resp_headers r) request_id_header,
                     facts_retry_after = parse_retry_after date_parse now (h_get (resp_headers r) ''retry-after'')\<rparr>)))"

text \<open>
  \<open>createWallowSdk\<close>: an operation's request passes the interceptor, then \<open>send\<close>. \<open>document.cookie\<close> is
  what the interceptor reads when the request is made. The generated client applies \<open>to_failure\<close>, which the
  second interceptor hands it, to whatever an operation then rejects with.
\<close>

definition create_wallow_sdk ::
    "sdk_options \<Rightarrow> string option \<Rightarrow> (fetch_request \<Rightarrow> ('s, response) io) \<Rightarrow> thrown + (fetch_request \<Rightarrow> ('s, response) io)" where
  "create_wallow_sdk options cookies transport =
     (if js_trim (so_base_url options) = '''' then
        Inl (new_error (''createWallowSdk requires a non-empty baseUrl: the browser passes the same-origin BFF path (e.g. ''
          @ [CHR 0x22] @ ''/api'' @ [CHR 0x22] @ '') and an SSR render passes an absolute origin.''))
      else Inr (\<lambda>req.
        io_bind (if so_csrf options \<noteq> Some False then io_of (csrf_interceptor cookies (fetch_method req) (fetch_headers req))
                 else io_return (fetch_headers req)) (\<lambda>hs.
        sdk_send options transport (req\<lparr>fetch_headers := hs\<rparr>))))"

subsection \<open>Links into the login (\<open>route-context.ts\<close>) and out of a notification (\<open>web-push.ts\<close>)\<close>

definition bff_login_path :: string where "bff_login_path = ''/bff/login''"

definition login_redirect :: "string option \<Rightarrow> string option \<Rightarrow> string" where
  "login_redirect return_to organization =
     (let target = (case return_to of Some r \<Rightarrow> if js_trim r = '''' then ''/'' else js_trim r | None \<Rightarrow> ''/'');
          org = (case organization of Some c \<Rightarrow> js_trim c | None \<Rightarrow> '''');
          organization_query = (if org = '''' then '''' else ''&organization='' @ encode_uri_component org) in
      bff_login_path @ ''?returnTo='' @ encode_uri_component target @ organization_query)"

text \<open>The user, or the link the injected router redirect is thrown with.\<close>

definition require_auth :: "'u option \<Rightarrow> string option \<Rightarrow> string + 'u" where
  "require_auth found return_to = (case found of None \<Rightarrow> Inl (login_redirect return_to None) | Some u \<Rightarrow> Inr u)"

definition resolve_web_push_click_url :: "json option \<Rightarrow> string \<Rightarrow> thrown + string" where
  "resolve_web_push_click_url destination origin =
     (case new_url_from ''/'' origin of
        Inl e \<Rightarrow> Inl e
      | Inr home \<Rightarrow>
          (case destination of
             Some (JStr d) \<Rightarrow>
               if \<not> starts_with d ''/'' \<or> starts_with d ''//'' \<or> js_includes d [CHR 0x5C] then Inr (url_href home)
               else
                 (case parse_url (Some home) d of
                    None \<Rightarrow> Inl (type_error ''Invalid URL'')
                  | Some target \<Rightarrow>
                      Inr (if full_origin target = full_origin home then url_href target else url_href home))
           | _ \<Rightarrow> Inr (url_href home)))"

subsection \<open>Lemmas\<close>

lemma decode_plain: "c \<noteq> CHR ''%'' \<Longrightarrow> decode_uri_component (c # s) = map_option (\<lambda>r. c # r) (decode_uri_component s)"
  by simp

lemma decode_pct_char: "decode_uri_component (pct_char c @ s) = map_option (\<lambda>r. c # r) (decode_uri_component s)"
proof (cases "code c < 128")
  case True
  then have "code c div 16 < 16" "code c mod 16 < 16" "code c div 16 * 16 + code c mod 16 = code c" by simp_all
  with True show ?thesis by (simp add: pct_char_def utf8_encode_def pct_def)
next
  case False
  let ?a = "192 + code c div 64" and ?b = "128 + code c mod 64"
  have c: "code c < 256" by (rule code_less)
  have q: "code c div 64 = 2 \<or> code c div 64 = 3" using False c by linarith
  then have a: "?a = 194 \<or> ?a = 195" by auto
  have b: "?b < 256" using mod_less_divisor [of 64 "code c"] by linarith
  have dig: "?a div 16 < 16" "?a mod 16 < 16" "?b div 16 < 16" "?b mod 16 < 16" using a b by auto
  have whole: "?a div 16 * 16 + ?a mod 16 = ?a" "?b div 16 * 16 + ?b mod 16 = ?b" by simp_all
  have bounds: "128 \<le> ?b" "?b < 192" "\<not> ?a < 128" using mod_less_divisor [of 64 "code c"] by auto
  have rebuilt: "(?a - 192) * 64 + (?b - 128) = code c" by simp
  have e: "pct_char c = pct ?a @ pct ?b" using False by (simp add: pct_char_def utf8_encode_def)
  show ?thesis
    unfolding e pct_def append_Cons append_Nil decode_uri_component.simps(2)
    by (simp only: hex_value_digit [OF dig(1)] hex_value_digit [OF dig(2)] hex_value_digit [OF dig(3)]
        hex_value_digit [OF dig(4)] option.case list.case whole rebuilt)
      (use a bounds in auto)
qed

lemma decode_encode: "decode_uri_component (encode_uri_component s) = Some s"
proof (induction s)
  case (Cons c s)
  let ?special = "\<lambda>c. \<not> (alphanumeric c
       \<or> c \<in> {CHR ''-'', CHR ''_'', CHR ''.'', CHR ''!'', CHR ''~'', CHR ''*'', CHR 0x27, CHR ''('', CHR '')''})"
  have "encode_uri_component (c # s) = (if ?special c then pct_char c else [c]) @ encode_uri_component s"
    by (simp add: encode_uri_component_def pct_encode_def)
  moreover have "c \<noteq> CHR ''%''" if "\<not> ?special c" using that by (auto simp: alphanumeric_def is_digit_def)
  ultimately show ?case using Cons by (cases "?special c") (simp_all add: decode_pct_char)
qed (simp add: encode_uri_component_def pct_encode_def)


text \<open>
  \<open>document.cookie\<close> of a jar whose cookies are readable: the names and the values as they were set, raw.
  A name is not empty and holds no separator or blank, a value no semicolon.
\<close>

definition cookie_entry :: "string \<times> string \<Rightarrow> string" where
  "cookie_entry nv = fst nv @ ''='' @ snd nv"

definition document_cookie :: "(string \<times> string) list \<Rightarrow> string" where
  "document_cookie jar = js_join ''; '' (map cookie_entry jar)"

definition cookie_name_ok :: "string \<Rightarrow> bool" where
  "cookie_name_ok n \<longleftrightarrow> n \<noteq> '''' \<and> (\<forall>c \<in> set n. c \<noteq> CHR '';'' \<and> c \<noteq> CHR ''='' \<and> \<not> is_ws c)"

definition jar_ok :: "(string \<times> string) list \<Rightarrow> bool" where
  "jar_ok jar \<longleftrightarrow> (\<forall>(n, v) \<in> set jar. cookie_name_ok n \<and> CHR '';'' \<notin> set v)"

text \<open>What the scan makes of a value: \<open>None\<close> when \<open>decodeURIComponent\<close> throws.\<close>

definition cookie_text :: "string \<Rightarrow> string option" where
  "cookie_text v = decode_uri_component (js_trim v)"

lemma hex_digit_plain: "d < 16 \<Longrightarrow> hex_digit d \<noteq> CHR '';'' \<and> hex_digit d \<noteq> CHR ''='' \<and> \<not> is_ws (hex_digit d)"
proof -
  assume "d < 16"
  then have "code (hex_digit d) \<in> {48..57} \<union> {65..70}" by (auto simp: hex_digit_def)
  then show ?thesis by (auto simp: is_ws_def)
qed

lemma set_pct_encode: "c \<in> set (pct_encode special s) \<Longrightarrow> (\<exists>x. c \<in> set (pct_char x)) \<or> \<not> special c"
  by (auto simp: pct_encode_def split: if_split_asm)

lemma encoded_plain:
  assumes "c \<in> set (encode_uri_component s)"
  shows "c \<noteq> CHR '';'' \<and> c \<noteq> CHR ''='' \<and> \<not> is_ws c"
proof -
  have pct: "c \<noteq> CHR '';'' \<and> c \<noteq> CHR ''='' \<and> \<not> is_ws c" if escaped: "c \<in> set (pct_char x)" for x
  proof -
    obtain b where b: "b \<in> set (utf8_encode [x])" "c \<in> set (pct b)" using escaped by (auto simp: pct_char_def)
    have "b < 256" by (rule utf8_encode_bytes [OF b(1)])
    then have "b div 16 < 16" "b mod 16 < 16" by auto
    note plain = this [THEN hex_digit_plain]
    have "c = CHR ''%'' \<or> c = hex_digit (b div 16) \<or> c = hex_digit (b mod 16)" using b(2) by (simp add: pct_def)
    then show ?thesis
    proof (elim disjE)
      assume "c = CHR ''%''"
      then show ?thesis by (simp add: is_ws_def)
    qed (use plain in \<open>simp_all only: not_False_eq_True simp_thms\<close>)
  qed
  have "c \<noteq> CHR '';'' \<and> c \<noteq> CHR ''='' \<and> \<not> is_ws c" if "alphanumeric c
      \<or> c \<in> {CHR ''-'', CHR ''_'', CHR ''.'', CHR ''!'', CHR ''~'', CHR ''*'', CHR 0x27, CHR ''('', CHR '')''}"
    using that by (auto simp: alphanumeric_def is_digit_def is_ws_def)
  note safe = this
  from set_pct_encode [OF assms [unfolded encode_uri_component_def]] show ?thesis
  proof (elim disjE exE)
    fix x
    assume "c \<in> set (pct_char x)"
    then show ?thesis by (rule pct)
  qed (rule safe, simp only: not_not)
qed

lemma js_join_Cons_hd: "js_join sep ((c # a) # xs) = c # js_join sep (a # xs)"
  by (cases xs) simp_all

lemma js_join_pad: "js_join ''; '' (x # xs) = js_join '';'' (x # map (\<lambda>e. CHR '' '' # e) xs)"
  by (induction xs arbitrary: x) (simp_all add: js_join_Cons_hd)

lemma cookie_text_encoded: "cookie_text (encode_uri_component s) = Some s"
proof -
  have "js_trim (encode_uri_component s) = encode_uri_component s"
  proof (rule js_trim_no_ws, rule ballI)
    fix c
    assume "c \<in> set (encode_uri_component s)"
    from encoded_plain [OF this] show "\<not> is_ws c" by (elim conjE)
  qed
  then show ?thesis unfolding cookie_text_def by (simp only: decode_encode)
qed

lemma split_document_cookie:
  assumes "jar_ok jar" "jar \<noteq> []"
  shows "split_char (CHR '';'') (document_cookie jar)
    = cookie_entry (hd jar) # map (\<lambda>nv. CHR '' '' # cookie_entry nv) (tl jar)"
proof -
  have plain: "CHR '';'' \<notin> set (cookie_entry nv)" if "nv \<in> set jar" for nv
  proof -
    obtain n v where nv: "nv = (n, v)" by fastforce
    with that assms(1) have ok: "cookie_name_ok n" "CHR '';'' \<notin> set v" unfolding jar_ok_def by blast+
    from ok(1) have "CHR '';'' \<notin> set n" unfolding cookie_name_ok_def by blast
    with ok(2) show ?thesis by (simp add: cookie_entry_def nv)
  qed
  obtain x xs where jar: "jar = x # xs" using assms(2) by (cases jar) auto
  have "document_cookie jar = js_join '';'' (cookie_entry x # map (\<lambda>nv. CHR '' '' # cookie_entry nv) xs)"
    by (simp add: document_cookie_def jar js_join_pad comp_def del: js_join.simps(3))
  also have "split_char (CHR '';'') \<dots> = cookie_entry x # map (\<lambda>nv. CHR '' '' # cookie_entry nv) xs"
    using plain jar by (intro split_char_join) auto
  finally show ?thesis by (simp add: jar)
qed

definition is_csrf_name :: "string \<Rightarrow> bool" where "is_csrf_name n \<longleftrightarrow> ends_with n csrf_cookie_suffix"
definition is_host_name :: "string \<Rightarrow> bool" where "is_host_name n \<longleftrightarrow> starts_with n browser_host_cookie_prefix"

text \<open>What one entry does to the scan, with or without the space in front of it.\<close>

lemma scan_entry:
  assumes "cookie_name_ok n" "pre = '''' \<or> pre = '' ''"
  shows "scan_csrf_cookies fb ((pre @ cookie_entry (n, v)) # es) =
    (if is_csrf_name n then
       (case cookie_text v of
          None \<Rightarrow> Inl uri_error
        | Some t \<Rightarrow>
            if is_host_name n then Inr (Some t) else scan_csrf_cookies (case fb of Some f \<Rightarrow> Some f | None \<Rightarrow> Some t) es)
     else scan_csrf_cookies fb es)"
proof -
  have chars: "\<forall>c \<in> set n. c \<noteq> CHR ''='' \<and> \<not> is_ws c"
    using assms(1) unfolding cookie_name_ok_def by blast
  have "CHR ''='' \<notin> set n"
  proof
    assume "CHR ''='' \<in> set n"
    from bspec [OF chars this] show False by simp
  qed
  then have n: "CHR ''='' \<notin> set (pre @ n)" using assms(2) by (elim disjE) simp_all
  have "split_char (CHR ''='') (pre @ cookie_entry (n, v)) = (pre @ n) # split_char (CHR ''='') v"
    using split_char_append_sep [of "CHR ''=''" "pre @ n" v] split_char_notin [OF n] by (simp add: cookie_entry_def)
  moreover have "js_trim (pre @ n) = n"
  proof -
    have "js_trim n = n" using chars by (intro js_trim_no_ws) blast
    moreover have "js_trim ('' '' @ n) = js_trim n" by (simp add: js_trim_def trim_start_def is_ws_def)
    ultimately show ?thesis using assms(2) by (elim disjE) (simp_all only: append_Nil)
  qed
  ultimately show ?thesis
    by (auto simp: Let_def cookie_text_def is_csrf_name_def is_host_name_def split: option.split)
qed

definition padded :: "(string \<times> string) list \<Rightarrow> string list \<Rightarrow> bool" where
  "padded jar es \<longleftrightarrow> list_all2 (\<lambda>nv e. \<exists>pre. (pre = '''' \<or> pre = '' '') \<and> e = pre @ cookie_entry nv) jar es"

lemma padded_entries: "padded (x # xs) (cookie_entry x # map (\<lambda>nv. CHR '' '' # cookie_entry nv) xs)"
proof -
  have "list_all2 (\<lambda>nv e. \<exists>pre. (pre = '''' \<or> pre = '' '') \<and> e = pre @ cookie_entry nv) xs
      (map (\<lambda>nv. CHR '' '' # cookie_entry nv) xs)"
    by (induction xs) simp_all
  then show ?thesis by (simp add: padded_def)
qed

lemma padded_Cons:
  assumes "padded ((n, v) # jar) es" "jar_ok ((n, v) # jar)"
  obtains e es' where "es = e # es'" "padded jar es'" "jar_ok jar"
    "\<And>fb. scan_csrf_cookies fb (e # es') =
    (if is_csrf_name n then
       (case cookie_text v of
          None \<Rightarrow> Inl uri_error
        | Some t \<Rightarrow>
            if is_host_name n then Inr (Some t) else scan_csrf_cookies (case fb of Some f \<Rightarrow> Some f | None \<Rightarrow> Some t) es')
     else scan_csrf_cookies fb es')"
proof -
  obtain e es' pre where e: "es = e # es'" "padded jar es'" "pre = '''' \<or> pre = '' ''" "e = pre @ cookie_entry (n, v)"
    using assms(1) unfolding padded_def by (auto simp: list_all2_Cons1)
  have "cookie_name_ok n" "jar_ok jar" using assms(2) by (auto simp: jar_ok_def)
  then show thesis by (intro that [OF e(1,2)]) (simp_all only: e(4) scan_entry [OF _ e(3)])
qed

lemma scan_host:
  assumes "padded jar es" "jar_ok jar" "\<forall>(n, v) \<in> set jar. is_csrf_name n \<longrightarrow> cookie_text v \<noteq> None"
    and "\<exists>(n, v) \<in> set jar. is_csrf_name n \<and> is_host_name n"
    and "\<forall>(n, v) \<in> set jar. is_csrf_name n \<and> is_host_name n \<longrightarrow> cookie_text v = Some token"
  shows "scan_csrf_cookies fb es = Inr (Some token)"
  using assms
proof (induction jar arbitrary: fb es)
  case (Cons nv jar)
  obtain n v where nv: "nv = (n, v)" by fastforce
  obtain e es' where e: "es = e # es'" "padded jar es'" "jar_ok jar"
    "\<And>fb. scan_csrf_cookies fb (e # es') =
    (if is_csrf_name n then
       (case cookie_text v of
          None \<Rightarrow> Inl uri_error
        | Some t \<Rightarrow>
            if is_host_name n then Inr (Some t) else scan_csrf_cookies (case fb of Some f \<Rightarrow> Some f | None \<Rightarrow> Some t) es')
     else scan_csrf_cookies fb es')"
    by (rule padded_Cons [OF Cons.prems(1,2) [unfolded nv]]) (rule that)
  show ?case
  proof (cases "is_csrf_name n \<and> is_host_name n")
    case True
    with Cons.prems(5) nv e(1,4) show ?thesis by simp
  next
    case False
    have "scan_csrf_cookies fb' es' = Inr (Some token)" for fb'
      by (rule Cons.IH [OF e(2,3)]) (use Cons.prems(3-5) False nv in auto)
    with False e(1,4) Cons.prems(3) nv show ?thesis by (auto split: option.split)
  qed
qed (simp add: padded_def)

lemma scan_plain:
  assumes "padded jar es" "jar_ok jar"
    and "fb = Some token \<or> fb = None \<and> (\<exists>(n, v) \<in> set jar. is_csrf_name n)"
    and "\<forall>(n, v) \<in> set jar. is_csrf_name n \<longrightarrow> cookie_text v = Some token"
  shows "scan_csrf_cookies fb es = Inr (Some token)"
  using assms
proof (induction jar arbitrary: fb es)
  case (Cons nv jar)
  obtain n v where nv: "nv = (n, v)" by fastforce
  obtain e es' where e: "es = e # es'" "padded jar es'" "jar_ok jar"
    "\<And>fb. scan_csrf_cookies fb (e # es') =
    (if is_csrf_name n then
       (case cookie_text v of
          None \<Rightarrow> Inl uri_error
        | Some t \<Rightarrow>
            if is_host_name n then Inr (Some t) else scan_csrf_cookies (case fb of Some f \<Rightarrow> Some f | None \<Rightarrow> Some t) es')
     else scan_csrf_cookies fb es')"
    by (rule padded_Cons [OF Cons.prems(1,2) [unfolded nv]]) (rule that)
  have rest: "scan_csrf_cookies fb' es' = Inr (Some token)"
    if "fb' = Some token \<or> fb' = None \<and> (\<exists>(n, v) \<in> set jar. is_csrf_name n)" for fb'
    by (rule Cons.IH [OF e(2,3) that]) (use Cons.prems(4) in auto)
  show ?case
    using Cons.prems(3,4) nv e(1,4) rest by (cases "is_csrf_name n"; cases fb) auto
qed (simp add: padded_def)

lemma scan_malformed:
  assumes "padded (before @ (n, v) # after) es" "jar_ok (before @ (n, v) # after)"
    and "is_csrf_name n" "cookie_text v = None"
    and "\<forall>(n', v') \<in> set before. \<not> (is_csrf_name n' \<and> is_host_name n')"
  shows "scan_csrf_cookies fb es = Inl uri_error"
  using assms
proof (induction before arbitrary: fb es)
  case Nil
  then show ?case by (auto elim!: padded_Cons)
next
  case (Cons nv before)
  obtain n' v' where nv: "nv = (n', v')" by fastforce
  obtain e es' where e: "es = e # es'" "padded (before @ (n, v) # after) es'" "jar_ok (before @ (n, v) # after)"
    "\<And>fb. scan_csrf_cookies fb (e # es') =
    (if is_csrf_name n' then
       (case cookie_text v' of
          None \<Rightarrow> Inl uri_error
        | Some t \<Rightarrow>
            if is_host_name n' then Inr (Some t) else scan_csrf_cookies (case fb of Some f \<Rightarrow> Some f | None \<Rightarrow> Some t) es')
     else scan_csrf_cookies fb es')"
    by (rule padded_Cons [OF Cons.prems(1,2) [unfolded nv append_Cons]]) (rule that)
  have "scan_csrf_cookies fb' es' = Inl uri_error" for fb'
    by (rule Cons.IH [OF e(2,3) Cons.prems(3,4)]) (use Cons.prems(5) in auto)
  with e(1,4) Cons.prems(5) nv show ?case by (auto split: option.split)
qed


text \<open>Either the cookie the server set is \<open>__Host-\<close> prefixed, or no cookie of the jar is.\<close>

lemma read_document_cookie:
  assumes "jar_ok jar" "(own, v) \<in> set jar" "cookie_text v = Some token" "is_csrf_name own"
    and formed: "\<forall>(n, v) \<in> set jar. is_csrf_name n \<longrightarrow> cookie_text v \<noteq> None"
    and rivals: "\<forall>(n, v) \<in> set jar. is_csrf_name n \<and> (is_host_name own \<longrightarrow> is_host_name n) \<longrightarrow> cookie_text v = Some token"
  shows "read_csrf_cookie (Some (document_cookie jar)) = Inr (Some token)"
proof -
  have "jar \<noteq> []" using assms(2) by auto
  then obtain x xs where jar: "jar = x # xs" by (cases jar) auto
  let ?es = "cookie_entry x # map (\<lambda>nv. CHR '' '' # cookie_entry nv) xs"
  have padded: "padded jar ?es" unfolding jar by (rule padded_entries)
  have "scan_csrf_cookies None ?es = Inr (Some token)"
  proof (cases "is_host_name own")
    case True
    show ?thesis
    proof (rule scan_host [OF padded assms(1) formed])
      show "\<exists>(n, v) \<in> set jar. is_csrf_name n \<and> is_host_name n" using assms(2,4) True by blast
    qed (use rivals True in blast)
  next
    case False
    show ?thesis
    proof (rule scan_plain [OF padded assms(1)])
      show "None = Some token \<or> None = None \<and> (\<exists>(n, v) \<in> set jar. is_csrf_name n)" using assms(2,4) by blast
    qed (use rivals False in blast)
  qed
  then show ?thesis
    unfolding read_csrf_cookie_def option.case split_document_cookie [OF assms(1) \<open>jar \<noteq> []\<close>] by (simp add: jar)
qed

text \<open>
  A \<open>-csrf\<close> cookie whose value is no percent-encoded text, such as a lone \<open>%\<close>, stops every request of the
  client, a \<open>GET\<close> as well: \<open>decodeURIComponent\<close> throws inside the interceptor, unless a \<open>__Host-\<close> prefixed
  one stands before it in the jar. This holds though the token is read from another cookie.
\<close>

fun broken_escape :: "string \<Rightarrow> bool" where
  "broken_escape [] \<longleftrightarrow> False"
| "broken_escape (c # s) \<longleftrightarrow>
     c = CHR ''%'' \<and> (case s of h # l # _ \<Rightarrow> hex_value h = None \<or> hex_value l = None | _ \<Rightarrow> True) \<or> broken_escape s"

lemma broken_after_hex:
  assumes "hex_value h = Some a"
  shows "broken_escape (h # s) \<longleftrightarrow> broken_escape s"
proof -
  have "hex_value (CHR ''%'') = None" by code_simp
  with assms have "h \<noteq> CHR ''%''" by auto
  then show ?thesis by simp
qed

lemma broken_after_escape:
  "hex_value h = Some a \<Longrightarrow> hex_value l = Some b \<Longrightarrow> broken_escape (c # h # l # s) \<longleftrightarrow> broken_escape s"
  by (subst broken_escape.simps(2)) (simp add: broken_after_hex del: broken_escape.simps)

lemma broken_escape_undecodable: "broken_escape s \<Longrightarrow> decode_uri_component s = None"
proof (induction s rule: length_induct)
  case (1 t)
  obtain c s where t: "t = c # s" using 1(2) by (cases t) simp_all
  show ?case
  proof (cases "c = CHR ''%''")
    case False
    with 1 t show ?thesis by simp
  next
    case True
    show ?thesis
    proof (rule ccontr)
      assume decodes: "decode_uri_component t \<noteq> None"
      then obtain h l s' a b where one: "s = h # l # s'" "hex_value h = Some a" "hex_value l = Some b"
        using True t by (auto split: list.splits option.splits)
      have later: "broken_escape s'" using 1(2) t one by (simp add: broken_after_escape del: broken_escape.simps)
      show False
      proof (cases "a * 16 + b < 128")
        case small: True
        have "decode_uri_component s' = None" using 1(1) later t one(1) by simp
        with decodes small True t one show False by simp
      next
        case False
        then obtain p h' l' s'' a' b' where two: "s' = p # h' # l' # s''" "hex_value h' = Some a'" "hex_value l' = Some b'"
          "decode_uri_component s'' \<noteq> None"
          using decodes True t one by (auto split: list.splits option.splits if_split_asm)
        have "broken_escape s''" using later two(1-3) by (simp add: broken_after_escape del: broken_escape.simps)
        moreover have "length s'' < length t" using t one(1) two(1) by simp
        ultimately have "decode_uri_component s'' = None" by (intro 1(1) [rule_format])
        with two(4) show False ..
      qed
    qed
  qed
qed

lemma malformed_csrf_cookie_blocks_requests:
  assumes "jar_ok (before @ (n, v) # after)" "is_csrf_name n" "broken_escape (js_trim v)"
    and "\<forall>(n', v') \<in> set before. \<not> (is_csrf_name n' \<and> is_host_name n')"
  shows "csrf_interceptor (Some (document_cookie (before @ (n, v) # after))) m hs = Inl uri_error"
proof -
  let ?jar = "before @ (n, v) # after"
  obtain x xs where jar: "?jar = x # xs" by (cases ?jar) auto
  have "cookie_text v = None" using broken_escape_undecodable [OF assms(3)] by (simp add: cookie_text_def)
  from scan_malformed [OF _ assms(1,2) this assms(4)] padded_entries [of x xs]
  have "scan_csrf_cookies None (cookie_entry x # map (\<lambda>nv. CHR '' '' # cookie_entry nv) xs) = Inl uri_error"
    unfolding jar by blast
  then show ?thesis
    using split_document_cookie [OF assms(1)] jar by (simp add: csrf_interceptor_def read_csrf_cookie_def)
qed

lemma malformed_csrf_cookie_blocks_requests_witness:
  "csrf_interceptor (Some (document_cookie [(''x-csrf'', ''%''), (''__Host-wallow-csrf'', ''t'')])) ''GET'' [] = Inl uri_error"
proof -
  have "jar_ok ([] @ (''x-csrf'', ''%'') # [(''__Host-wallow-csrf'', ''t'')])" "is_csrf_name ''x-csrf''" by code_simp+
  moreover have "js_trim ''%'' = ''%''" by code_simp
  then have "broken_escape (js_trim ''%'')" by simp
  ultimately show ?thesis using malformed_csrf_cookie_blocks_requests [of "[]"] by simp
qed

lemma csrf_cookie_name_suffix: "is_csrf_name (csrf_cookie_name name)"
  by (simp add: is_csrf_name_def csrf_cookie_name_def csrf_cookie_suffix_def ends_with_def)

lemma state_changing_unsafe: "is_state_changing_method m \<Longrightarrow> \<not> is_safe_method m"
  unfolding is_state_changing_method_def is_safe_method_def state_changing_methods_def safe_methods_def
  by (simp only: list.set insert_iff empty_iff) (elim disjE; simp)

text \<open>
  C29: The token the BFF set in its readable cookie comes back in the header of every state-changing request,
  equal to what the gate compares it with: from a jar whose raw values include the token as the server's
  cookie serializer percent-encodes it, and where every rival \<open>-csrf\<close> cookie can be decoded and is either
  outranked (the server's name is \<open>__Host-\<close> prefixed and the rival's is not) or carries the same token. A
  rival that cannot be decoded is excluded, because there the interceptor throws.
\<close>

theorem double_submit_reaches_server:
  assumes "jar_ok jar" "(csrf_cookie_name name, encode_uri_component token) \<in> set jar"
    and "\<forall>(n, v) \<in> set jar. is_csrf_name n \<longrightarrow> decode_uri_component (js_trim v) \<noteq> None"
    and "\<forall>(n, v) \<in> set jar. is_csrf_name n \<and> (is_host_name (csrf_cookie_name name) \<longrightarrow> is_host_name n)
           \<longrightarrow> decode_uri_component (js_trim v) = Some token"
    and "token \<noteq> ''''" "header_value token = token" "is_state_changing_method m"
  shows "\<exists>hs'. csrf_interceptor (Some (document_cookie jar)) m hs = Inr hs'
    \<and> csrf_token_matches (Some token) (h_get hs' csrf_header)"
proof -
  have "read_csrf_cookie (Some (document_cookie jar)) = Inr (Some token)"
    by (rule read_document_cookie [OF assms(1,2) cookie_text_encoded csrf_cookie_name_suffix
          assms(3,4) [folded cookie_text_def]])
  then show ?thesis
    using state_changing_unsafe [OF assms(7)] assms(5,6) by (simp add: csrf_interceptor_def csrf_token_matches_iff h_get_set)
qed

lemma double_submit_reaches_server_witness:
  "\<exists>hs'. csrf_interceptor (Some (document_cookie
       [(''theme'', ''dark blue=%''), (''wallow-csrf'', ''stale''), (''__Host-wallow-csrf'', ''t0k%3Den'')])) ''PATCH'' [] = Inr hs'
    \<and> csrf_token_matches (Some ''t0k=en'') (h_get hs' csrf_header)"
  by (rule double_submit_reaches_server [where name = "''__Host-wallow''"]) (code_simp+)


text \<open>
  A notification's click opens this origin and nothing else: a destination that is no same-origin path,
  or that resolves elsewhere, opens the home page.
\<close>

lemma web_push_click_stays_on_origin:
  assumes "resolve_web_push_click_url destination origin = Inr href" "new_url_from ''/'' origin = Inr home"
  shows "\<exists>target. href = url_href target \<and> full_origin target = full_origin home"
proof -
  have home: "\<exists>target. url_href home = url_href target \<and> full_origin target = full_origin home" by blast
  show ?thesis
  proof (cases "\<exists>d. destination = Some (JStr d)
      \<and> \<not> (\<not> starts_with d ''/'' \<or> starts_with d ''//'' \<or> js_includes d [CHR 0x5C])")
    case True
    then obtain d where d: "destination = Some (JStr d)"
      "\<not> (\<not> starts_with d ''/'' \<or> starts_with d ''//'' \<or> js_includes d [CHR 0x5C])" by blast
    show ?thesis
    proof (cases "parse_url (Some home) d")
      case None
      with assms d show ?thesis by (simp add: resolve_web_push_click_url_def)
    next
      case (Some target)
      with assms d home show ?thesis by (auto simp: resolve_web_push_click_url_def split: if_split_asm)
    qed
  next
    case False
    then have "href = url_href home"
      using assms by (simp add: resolve_web_push_click_url_def split: option.splits json.splits if_split_asm)
    with home show ?thesis by blast
  qed
qed


subsection \<open>The login link, as the server reads it\<close>

text \<open>The characters \<open>encodeURIComponent\<close> leaves; of these the URL parser escapes the apostrophe in a query.\<close>

definition uri_kept :: "char \<Rightarrow> bool" where
  "uri_kept c \<longleftrightarrow> alphanumeric c
     \<or> c \<in> {CHR ''-'', CHR ''_'', CHR ''.'', CHR ''!'', CHR ''~'', CHR ''*'', CHR 0x27, CHR ''('', CHR '')''}"

lemma encode_uri_component_kept: "encode_uri_component s = pct_encode (\<lambda>c. \<not> uri_kept c) s"
  unfolding encode_uri_component_def uri_kept_def ..

lemma uri_kept_plain: "uri_kept c \<Longrightarrow> c \<noteq> CHR ''%'' \<and> c \<noteq> CHR ''+'' \<and> c \<noteq> CHR ''&'' \<and> c \<noteq> CHR ''='' \<and> c \<noteq> CHR ''#'' \<and> c \<noteq> CHR ''?''
    \<and> 32 < code c \<and> code c < 128 \<and> (query_special c \<longleftrightarrow> c = CHR 0x27)"
  by (auto simp: uri_kept_def alphanumeric_def is_digit_def query_special_def control_char_def)

lemma pct_encode_Nil [simp]: "pct_encode special [] = []"
  by (simp add: pct_encode_def)

lemma pct_encode_Cons: "pct_encode special (c # s) = (if special c then pct_char c else [c]) @ pct_encode special s"
  by (simp add: pct_encode_def)

lemma pct_encode_append: "pct_encode special (s @ t) = pct_encode special s @ pct_encode special t"
  by (simp add: pct_encode_def)

lemma enc_query_pct_char: "pct_encode query_special (pct_char c) = pct_char c"
  by (rule pct_encode_id) (use pct_char_set alphanumeric_plain in \<open>auto simp: list_all_iff\<close>)

definition query_value :: "string \<Rightarrow> string" where
  "query_value = pct_encode (\<lambda>c. \<not> (uri_kept c \<and> c \<noteq> CHR 0x27))"

lemma enc_query_encode: "enc_query (encode_uri_component s) = query_value s"
proof (induction s)
  case (Cons c s)
  have "pct_encode query_special (if \<not> uri_kept c then pct_char c else [c])
    = (if \<not> (uri_kept c \<and> c \<noteq> CHR 0x27) then pct_char c else [c])"
    using uri_kept_plain [of c] by (cases "uri_kept c") (simp_all add: enc_query_pct_char pct_encode_Cons)
  with Cons show ?case
    by (simp add: enc_query_def encode_uri_component_kept query_value_def pct_encode_Cons pct_encode_append)
qed (simp add: enc_query_def encode_uri_component_kept query_value_def)

lemma query_value_set: "c \<in> set (query_value s) \<Longrightarrow> c = CHR ''%'' \<or> uri_kept c"
  unfolding query_value_def using set_pct_encode pct_char_set uri_kept_def by blast

lemma query_value_plain: "CHR ''&'' \<notin> set (query_value s)" "CHR ''='' \<notin> set (query_value s)"
  using query_value_set [of _ s] uri_kept_plain by fastforce+

lemma encoded_chars: "c \<in> set (encode_uri_component s) \<Longrightarrow> 32 < code c \<and> c \<noteq> CHR ''#'' \<and> c \<noteq> CHR ''?''"
proof -
  assume "c \<in> set (encode_uri_component s)"
  from set_pct_encode [OF this [unfolded encode_uri_component_kept]] have "c = CHR ''%'' \<or> uri_kept c"
    using pct_char_set uri_kept_def by blast
  then show ?thesis using uri_kept_plain by auto
qed

lemma form_unescape_query_value: "form_unescape (query_value s) = s"
proof -
  have "pct_decode (map (\<lambda>c. if c = CHR ''+'' then CHR '' '' else c) (query_value s)) = utf8_encode s"
  proof (induction s)
    case (Cons c s)
    show ?case
    proof (cases "uri_kept c \<and> c \<noteq> CHR 0x27")
      case True
      with Cons uri_kept_plain [of c] show ?thesis
        by (simp add: query_value_def pct_encode_Cons utf8_encode_def)
    next
      case False
      with Cons show ?thesis by (simp add: query_value_def pct_encode_Cons utf8_encode_cons [of c s])
    qed
  qed (simp add: query_value_def utf8_encode_def)
  then show ?thesis by (simp add: form_unescape_def utf8_round_trip)
qed

lemma form_pair_value: "CHR ''='' \<notin> set k \<Longrightarrow> form_pair (k @ CHR ''='' # query_value v) = (form_unescape k, v)"
  using index_of_append [of "CHR ''=''" k "query_value v"] by (simp add: form_pair_def form_unescape_query_value)

lemma form_parse_value:
  assumes "CHR ''='' \<notin> set k" "CHR ''&'' \<notin> set k"
  shows "form_parse (k @ CHR ''='' # query_value v) = [(form_unescape k, v)]"
proof -
  have "CHR ''&'' \<notin> set (k @ CHR ''='' # query_value v)" using assms(2) query_value_plain(1) by auto
  from split_char_notin [OF this] show ?thesis by (simp add: form_parse_def form_pair_value [OF assms(1)])
qed

lemma form_parse_values:
  assumes "CHR ''='' \<notin> set k" "CHR ''&'' \<notin> set k" "CHR ''='' \<notin> set k'" "CHR ''&'' \<notin> set k'"
  shows "form_parse ((k @ CHR ''='' # query_value v) @ CHR ''&'' # k' @ CHR ''='' # query_value v')
    = [(form_unescape k, v), (form_unescape k', v')]"
proof -
  have plain: "CHR ''&'' \<notin> set (k @ CHR ''='' # query_value v)" "CHR ''&'' \<notin> set (k' @ CHR ''='' # query_value v')"
    using assms(2,4) query_value_plain(1) by auto
  show ?thesis
    unfolding form_parse_def split_char_append_sep split_char_notin [OF plain(1)] split_char_notin [OF plain(2)]
    by (simp add: form_pair_value [OF assms(1)] form_pair_value [OF assms(3)])
qed

definition link_target :: "string option \<Rightarrow> string" where
  "link_target return_to = (case return_to of Some r \<Rightarrow> if js_trim r = '''' then ''/'' else js_trim r | None \<Rightarrow> ''/'')"

definition link_organization :: "string option \<Rightarrow> string" where
  "link_organization organization = (case organization of Some c \<Rightarrow> js_trim c | None \<Rightarrow> '''')"

definition link_query :: "string option \<Rightarrow> string option \<Rightarrow> string" where
  "link_query return_to organization =
     ''returnTo='' @ encode_uri_component (link_target return_to)
     @ (if link_organization organization = '''' then ''''
        else ''&organization='' @ encode_uri_component (link_organization organization))"

lemma login_redirect_split: "login_redirect r c = ''/bff/login?'' @ link_query r c"
  by (simp add: login_redirect_def bff_login_path_def link_query_def link_target_def link_organization_def Let_def)

lemma enc_link_query: "enc_query (link_query r c) = (''returnTo'' @ CHR ''='' # query_value (link_target r))
    @ (if link_organization c = '''' then ''''
       else CHR ''&'' # ''organization'' @ CHR ''='' # query_value (link_organization c))"
proof -
  have "enc_query ''returnTo='' = ''returnTo''  @ ''=''" "enc_query ''&organization='' = ''&organization=''" by code_simp+
  then show ?thesis
    using pct_encode_append [of query_special, folded enc_query_def] enc_query_encode [of "link_target r"]
      enc_query_encode [of "link_organization c"]
    by (simp only: link_query_def split: if_split) (simp add: enc_query_def)
qed

lemma form_parse_link: "form_parse (enc_query (link_query r c)) = (''returnTo'', link_target r)
    # (if link_organization c = '''' then [] else [(''organization'', link_organization c)])"
proof -
  have keys: "form_unescape ''returnTo'' = ''returnTo''" "form_unescape ''organization'' = ''organization''" by code_simp+
  show ?thesis
  proof (cases "link_organization c = ''''")
    case True
    have "form_parse (''returnTo'' @ CHR ''='' # query_value (link_target r)) = [(''returnTo'', link_target r)]"
      by (subst form_parse_value) (simp_all add: keys)
    with True show ?thesis by (simp only: enc_link_query simp_thms if_True append_Nil2)
  next
    case False
    have "form_parse ((''returnTo'' @ CHR ''='' # query_value (link_target r))
        @ CHR ''&'' # ''organization'' @ CHR ''='' # query_value (link_organization c))
      = [(''returnTo'', link_target r), (''organization'', link_organization c)]"
      by (subst form_parse_values) (simp_all add: keys)
    with False show ?thesis by (simp only: enc_link_query if_False)
  qed
qed

lemma parse_link:
  assumes "url_wf page"
  shows "parse_url (Some page) (login_redirect r c)
    = Some (mk_url (url_scheme page) (host page) [''bff'', ''login''] (Some (enc_query (link_query r c))) None)"
proof -
  have chars: "32 < code x \<and> x \<noteq> CHR ''#'' \<and> x \<noteq> CHR ''?''" if "x \<in> set (link_query r c)" for x
  proof -
    have "x \<in> set ''returnTo='' \<or> x \<in> set (encode_uri_component (link_target r))
        \<or> x \<in> set ''&organization='' \<or> x \<in> set (encode_uri_component (link_organization c))"
      using that by (simp only: link_query_def set_append Un_iff split: if_split_asm) auto
    then show ?thesis
    proof (elim disjE)
      assume "x \<in> set ''returnTo=''" then show ?thesis by (simp only: list.set insert_iff empty_iff) (elim disjE; simp)
    next
      assume "x \<in> set ''&organization=''" then show ?thesis by (simp only: list.set insert_iff empty_iff) (elim disjE; simp)
    qed (rule encoded_chars, assumption)+
  qed
  have plain: "list_all (\<lambda>x. 32 < code x) (''/bff/login?'' @ link_query r c)" using chars by (simp add: list_all_iff)
  have cut1: "cut (CHR ''#'') (''/bff/login?'' @ link_query r c) = (''/bff/login?'' @ link_query r c, None)"
    by (rule cut_none) (use chars in auto)
  have cut2: "cut (CHR ''?'') (''/bff/login'' @ CHR ''?'' # link_query r c) = (''/bff/login'', Some (link_query r c))"
    by (rule cut_some) simp
  have path: "path_state [] (raw_segments ''/bff/login'') = [''bff'', ''login'']" by code_simp
  have "parse_url (Some page) (login_redirect r c) = resolve_relative page (''/bff/login?'' @ link_query r c)"
    unfolding login_redirect_split parse_url_def url_strip_id [OF plain]
    by (simp add: scheme_split_None alphanumeric_def is_digit_def)
  also have "\<dots> = Some (parse_rest (url_scheme page) (host page) [] (''/bff/login?'' @ link_query r c))"
    by (simp add: resolve_relative_def is_slash_def)
  also have "parse_rest (url_scheme page) (host page) [] (''/bff/login?'' @ link_query r c)
    = mk_url (url_scheme page) (host page) [''bff'', ''login''] (Some (enc_query (link_query r c))) None"
    unfolding parse_rest_def cut1 using cut2 by (simp add: path)
  finally show ?thesis .
qed


text \<open>
  The login link round trip. The link the SDK builds, resolved by a browser on any page of the site,
  requests the BFF's login route of that origin with exactly the trimmed return path and organization the
  caller gave, whatever characters they hold.
\<close>

lemma login_link_round_trip:
  assumes "url_wf page"
  shows "\<exists>u. parse_url (Some page) (login_redirect return_to organization) = Some u
    \<and> protocol u = protocol page \<and> host u = host page \<and> pathname u = ''/bff/login''
    \<and> param_get (url.truncate u) ''returnTo''
        = Some (case return_to of Some r \<Rightarrow> if js_trim r = '''' then ''/'' else js_trim r | None \<Rightarrow> ''/'')
    \<and> param_get (url.truncate u) ''organization''
        = (case organization of Some c \<Rightarrow> if js_trim c = '''' then None else Some (js_trim c) | None \<Rightarrow> None)"
proof (intro exI conjI)
  let ?u = "mk_url (url_scheme page) (host page) [''bff'', ''login''] (Some (enc_query (link_query return_to organization))) None"
  show "parse_url (Some page) (login_redirect return_to organization) = Some ?u" by (rule parse_link [OF assms])
  show "protocol ?u = protocol page" by (rule url_wfE [OF assms]) (simp add: url_scheme_def)
  show "host ?u = host page" "pathname ?u = ''/bff/login''" by simp_all
  have params: "search_params ?u = (''returnTo'', link_target return_to)
      # (if link_organization organization = '''' then [] else [(''organization'', link_organization organization)])"
    unfolding form_parse_link [symmetric] by (simp add: mk_url_def)
  show "param_get (url.truncate ?u) ''returnTo''
      = Some (case return_to of Some r \<Rightarrow> if js_trim r = '''' then ''/'' else js_trim r | None \<Rightarrow> ''/'')"
    using params by (simp add: param_get_def url.truncate_def link_target_def)
  show "param_get (url.truncate ?u) ''organization''
      = (case organization of Some c \<Rightarrow> if js_trim c = '''' then None else Some (js_trim c) | None \<Rightarrow> None)"
    using params by (simp add: param_get_def url.truncate_def link_organization_def split: option.splits)
qed

lemma login_link_round_trip_witness:
  "\<exists>u. parse_url (Some example_page) (login_redirect (Some '' /a b?x=1&y='' ) None) = Some u
    \<and> param_get (url.truncate u) ''returnTo'' = Some ''/a b?x=1&y=''"
proof -
  have "js_trim '' /a b?x=1&y='' = ''/a b?x=1&y=''" by code_simp
  then show ?thesis
    using login_link_round_trip [OF example_page_wf, where return_to = "Some '' /a b?x=1&y=''" and organization = None]
    by (simp only: option.case) (elim exE conjE, intro exI conjI, assumption, simp)
qed

end
