(* ===== verification/LogEvents.thy ===== *)
theory LogEvents
  imports ApiErrors JsNumber Base64
begin

section \<open>Log events, their redaction, and the request limiter (\<open>packages/logger\<close>)\<close>

text \<open>
  What the browser logger and the server agree on: the shape of an event, the scrubbing of its
  attributes, the validation of a decoded batch (\<open>log-event.ts\<close>), and the fixed-window limiter that
  stands in front of the ingest route (\<open>rate-limit.ts\<close>). A decoded body is a \<open>json\<close>; \<open>Date.parse\<close> is an
  argument. The limiter's map is an association list in insertion order.
\<close>

subsection \<open>Levels and events\<close>

datatype log_level = LevelDebug | LevelInfo | LevelWarn | LevelError

definition log_levels :: "log_level list" where
  "log_levels = [LevelDebug, LevelInfo, LevelWarn, LevelError]"

primrec level_text :: "log_level \<Rightarrow> string" where
  "level_text LevelDebug = ''debug''"
| "level_text LevelInfo = ''info''"
| "level_text LevelWarn = ''warn''"
| "level_text LevelError = ''error''"

fun severity_in :: "log_level list \<Rightarrow> log_level \<Rightarrow> int" where
  "severity_in [] l = -1"
| "severity_in (m # ms) l = (if m = l then 0 else let i = severity_in ms l in if i = -1 then -1 else i + 1)"

definition is_at_least :: "log_level \<Rightarrow> log_level \<Rightarrow> bool" where
  "is_at_least level minimum \<longleftrightarrow> severity_in log_levels level \<ge> severity_in log_levels minimum"

text \<open>\<open>correlationId\<close> and \<open>error\<close> are carried as they came off the wire.\<close>

record log_event =
  le_ts :: string
  le_level :: log_level
  le_event :: string
  le_attrs :: "(string \<times> json) list"
  le_correlation_id :: "json option"
  le_error :: "json option"

record log_batch =
  lb_events :: "log_event list"
  lb_csrf_token :: "string option"

definition correlation_header :: string where "correlation_header = ''x-request-id''"

subsection \<open>Redaction\<close>

definition redacted_text :: string where "redacted_text = ''[redacted]''"

definition default_redact_keys :: "string list" where
  "default_redact_keys = [''password'', ''token'', ''secret'', ''authorization'', ''cookie'', ''email'']"

definition max_redact_depth :: nat where "max_redact_depth = 4"

definition is_redacted_key :: "string \<Rightarrow> string list \<Rightarrow> bool" where
  "is_redacted_key key keys \<longleftrightarrow> list_ex (\<lambda>candidate. js_includes (to_lower key) (to_lower candidate)) keys"

fun redact_attrs :: "(string \<times> json) list \<Rightarrow> string list \<Rightarrow> nat \<Rightarrow> (string \<times> json) list" where
  "redact_attrs [] keys depth = []"
| "redact_attrs ((key, JObj inner) # ms) keys depth =
     (if key = proto_key then redact_attrs ms keys depth
      else (key, if is_redacted_key key keys then JStr redacted_text
                 else if depth < max_redact_depth then JObj (redact_attrs inner keys (depth + 1))
                 else JObj inner) # redact_attrs ms keys depth)"
| "redact_attrs ((key, v) # ms) keys depth =
     (if key = proto_key then redact_attrs ms keys depth
      else (key, if is_redacted_key key keys then JStr redacted_text else v) # redact_attrs ms keys depth)"

subsection \<open>Validation of a batch\<close>

record ingest_limits =
  max_body_bytes :: int
  max_events_per_batch :: int
  max_event_name_length :: int
  max_attributes_per_event :: int

definition default_ingest_limits :: ingest_limits where
  "default_ingest_limits =
     \<lparr>max_body_bytes = 65536, max_events_per_batch = 100, max_event_name_length = 120, max_attributes_per_event = 32\<rparr>"

text \<open>\<open>/^[a-z][a-z0-9]*(?:[._-][a-z0-9]+)*$/\<close>: after the first letter, whether a separator has just been read.\<close>

definition name_char :: "char \<Rightarrow> bool" where
  "name_char c \<longleftrightarrow> lower_letter c \<or> is_digit c"

fun event_name_rest :: "bool \<Rightarrow> string \<Rightarrow> bool" where
  "event_name_rest after_separator [] \<longleftrightarrow> \<not> after_separator"
| "event_name_rest after_separator (c # s) \<longleftrightarrow>
     (if name_char c then event_name_rest False s
      else c \<in> {CHR ''.'', CHR ''_'', CHR ''-''} \<and> \<not> after_separator \<and> event_name_rest True s)"

definition event_name_pattern :: "string \<Rightarrow> bool" where
  "event_name_pattern v \<longleftrightarrow> (case v of [] \<Rightarrow> False | c # s \<Rightarrow> lower_letter c \<and> event_name_rest False s)"

definition is_valid_event_name :: "string \<Rightarrow> int \<Rightarrow> bool" where
  "is_valid_event_name v max_length \<longleftrightarrow> int (length v) \<le> max_length \<and> event_name_pattern v"

definition is_iso_timestamp :: "(string \<Rightarrow> int option) \<Rightarrow> json option \<Rightarrow> bool" where
  "is_iso_timestamp date_parse v \<longleftrightarrow> (case v of Some (JStr s) \<Rightarrow> date_parse s \<noteq> None | _ \<Rightarrow> False)"

definition log_level_of :: "json option \<Rightarrow> log_level option" where
  "log_level_of v =
     (case v of Some (JStr s) \<Rightarrow> find (\<lambda>l. level_text l = s) log_levels | _ \<Rightarrow> None)"

text \<open>The reason an event fails, \<open>None\<close> when it does not.\<close>

definition attrs_reason :: "json option \<Rightarrow> ingest_limits \<Rightarrow> string option" where
  "attrs_reason attrs limits =
     (case attrs of
        None \<Rightarrow> None
      | Some (JObj ms) \<Rightarrow>
          if int (length ms) > max_attributes_per_event limits then Some ''event carries too many attributes'' else None
      | Some _ \<Rightarrow> Some ''event attrs is not an object'')"

definition event_reason :: "(string \<Rightarrow> int option) \<Rightarrow> json \<Rightarrow> ingest_limits \<Rightarrow> string option" where
  "event_reason date_parse v limits =
     (if \<not> is_object v then Some ''event is not an object''
      else if log_level_of (j_get v ''level'') = None then Some ''event has no valid level''
      else if \<not> (case j_get v ''event'' of Some (JStr n) \<Rightarrow> is_valid_event_name n (max_event_name_length limits) | _ \<Rightarrow> False)
      then Some ''event name is not a dotted low-cardinality name''
      else if \<not> is_iso_timestamp date_parse (j_get v ''ts'') then Some ''event has no valid ts''
      else attrs_reason (j_get v ''attrs'') limits)"

fun first_reason :: "(string \<Rightarrow> int option) \<Rightarrow> ingest_limits \<Rightarrow> json list \<Rightarrow> string option" where
  "first_reason date_parse limits [] = None"
| "first_reason date_parse limits (e # es) =
     (case event_reason date_parse e limits of Some r \<Rightarrow> Some r | None \<Rightarrow> first_reason date_parse limits es)"

text \<open>A validated event, rebuilt from its known fields.\<close>

definition normalize_event :: "json \<Rightarrow> log_event" where
  "normalize_event e =
     \<lparr>le_ts = (case j_string e ''ts'' of Some s \<Rightarrow> s | None \<Rightarrow> ''''),
      le_level = (case log_level_of (j_get e ''level'') of Some l \<Rightarrow> l | None \<Rightarrow> LevelDebug),
      le_event = (case j_string e ''event'' of Some n \<Rightarrow> n | None \<Rightarrow> ''''),
      le_attrs = (case j_get e ''attrs'' of Some (JObj ms) \<Rightarrow> ms | _ \<Rightarrow> []),
      le_correlation_id = j_get e ''correlationId'',
      le_error = j_get e ''error''\<rparr>"

definition parse_log_batch :: "(string \<Rightarrow> int option) \<Rightarrow> json \<Rightarrow> ingest_limits \<Rightarrow> string + log_batch" where
  "parse_log_batch date_parse v limits =
     (if \<not> is_object v then Inl ''body is not an object''
      else
        (case j_get v ''events'' of
           Some (JArr events) \<Rightarrow>
             if events = [] then Inl ''batch is empty''
             else if int (length events) > max_events_per_batch limits then Inl ''batch holds too many events''
             else
               (case first_reason date_parse limits events of
                  Some reason \<Rightarrow> Inl reason
                | None \<Rightarrow>
                    (case j_get v ''csrfToken'' of
                       None \<Rightarrow> Inr \<lparr>lb_events = map normalize_event events, lb_csrf_token = None\<rparr>
                     | Some (JStr t) \<Rightarrow> Inr \<lparr>lb_events = map normalize_event events, lb_csrf_token = Some t\<rparr>
                     | Some _ \<Rightarrow> Inl ''csrfToken is not a string''))
         | _ \<Rightarrow> Inl ''body has no events array''))"

subsection \<open>The limiter\<close>

record rate_limit_options =
  allowance :: int
  window_ms :: int
  max_tracked_keys :: int

record rate_window =
  window_count :: int
  reset_at :: int

type_synonym windows = "(string \<times> rate_window) list"

definition default_rate_limit :: rate_limit_options where
  "default_rate_limit = \<lparr>allowance = 60, window_ms = 60000, max_tracked_keys = 10000\<rparr>"

text \<open>The second loop of \<open>makeRoom\<close>: the oldest keys go until a new one fits, or none is left.\<close>

fun evict_oldest :: "windows \<Rightarrow> int \<Rightarrow> windows" where
  "evict_oldest [] max_keys = []"
| "evict_oldest (w # ws) max_keys = (if int (length (w # ws)) \<ge> max_keys then evict_oldest ws max_keys else w # ws)"

definition make_room :: "windows \<Rightarrow> int \<Rightarrow> int \<Rightarrow> windows" where
  "make_room ws now max_keys = evict_oldest (filter (\<lambda>(_, w). \<not> reset_at w \<le> now) ws) max_keys"

definition allow_request :: "rate_limit_options \<Rightarrow> windows \<Rightarrow> string \<Rightarrow> int \<Rightarrow> bool \<times> windows" where
  "allow_request options ws key now =
     (let fresh = (if int (length ws) \<ge> max_tracked_keys options then make_room ws now (max_tracked_keys options) else ws) in
      case obj_get ws key of
        None \<Rightarrow> (True, obj_set fresh key \<lparr>window_count = 1, reset_at = now + window_ms options\<rparr>)
      | Some current \<Rightarrow>
          if reset_at current \<le> now then (True, obj_set fresh key \<lparr>window_count = 1, reset_at = now + window_ms options\<rparr>)
          else if window_count current \<ge> allowance options then (False, ws)
          else (True, obj_set ws key (current\<lparr>window_count := window_count current + 1\<rparr>)))"


subsection \<open>Lemmas: redaction\<close>

text \<open>What a path of member names reaches.\<close>

fun j_path :: "json \<Rightarrow> string list \<Rightarrow> json option" where
  "j_path v [] = Some v"
| "j_path v (k # ks) = (case j_get v k of Some w \<Rightarrow> j_path w ks | None \<Rightarrow> None)"

lemma redact_attrs_get:
  "obj_get (redact_attrs ms keys depth) k =
    (if k = proto_key then None
     else map_option (\<lambda>v. if is_redacted_key k keys then JStr redacted_text
       else (case v of JObj inner \<Rightarrow> if depth < max_redact_depth then JObj (redact_attrs inner keys (depth + 1)) else v
             | _ \<Rightarrow> v)) (obj_get ms k))"
proof (induction ms)
  case (Cons m ms)
  obtain k' v where m: "m = (k', v)" by fastforce
  with Cons show ?case by (cases v) auto
qed simp

lemma j_path_redacted_here:
  "path \<noteq> [] \<Longrightarrow> j_path (JStr redacted_text) path = None"
  by (cases path) simp_all

lemma redacted_path:
  assumes "path \<noteq> []" "length path + depth \<le> max_redact_depth + 1" "is_redacted_key (last path) keys"
    and "j_path (JObj (redact_attrs ms keys depth)) path = Some v"
  shows "v = JStr redacted_text"
  using assms
proof (induction path arbitrary: ms depth)
  case (Cons k ks)
  show ?case
  proof (cases "ks = []")
    case True
    with Cons.prems show ?thesis by (auto simp: redact_attrs_get split: if_split_asm option.splits)
  next
    case False
    obtain w where w: "obj_get (redact_attrs ms keys depth) k = Some w" "j_path w ks = Some v"
      using Cons.prems(4) by (auto split: option.splits)
    obtain u where u: "obj_get ms k = Some u" "\<not> is_redacted_key k keys"
      "w = (case u of JObj inner \<Rightarrow> if depth < max_redact_depth then JObj (redact_attrs inner keys (depth + 1)) else u | _ \<Rightarrow> u)"
      using w False j_path_redacted_here [OF False] by (auto simp: redact_attrs_get split: if_split_asm)
    obtain inner where inner: "u = JObj inner"
      using u(3) w(2) False by (cases u; cases ks) auto
    have deep: "depth < max_redact_depth" using Cons.prems(2) False by (cases ks) auto
    show ?thesis
    proof (rule Cons.IH)
      show "j_path (JObj (redact_attrs inner keys (depth + 1))) ks = Some v" using u(3) w(2) inner deep by simp
    qed (use False Cons.prems in auto)
  qed
qed simp

text \<open>A value that is no object, below names that are not to be redacted, is kept.\<close>

lemma kept_path:
  assumes "j_path (JObj ms) path = Some v" "\<not> is_object v"
    and "\<forall>k \<in> set path. k \<noteq> proto_key \<and> \<not> is_redacted_key k keys"
  shows "j_path (JObj (redact_attrs ms keys depth)) path = Some v"
  using assms
proof (induction path arbitrary: ms depth)
  case (Cons k ks)
  obtain w where w: "obj_get ms k = Some w" "j_path w ks = Some v" using Cons.prems(1) by (auto split: option.splits)
  have k: "k \<noteq> proto_key" "\<not> is_redacted_key k keys" using Cons.prems(3) by simp_all
  show ?case
  proof (cases "\<exists>inner. w = JObj inner \<and> depth < max_redact_depth")
    case True
    then obtain inner where inner: "w = JObj inner" "depth < max_redact_depth" by blast
    have "j_path (JObj (redact_attrs inner keys (depth + 1))) ks = Some v"
      using Cons.IH [of inner "depth + 1"] w(2) inner(1) Cons.prems(2,3) by simp
    with w k inner show ?thesis by (simp add: redact_attrs_get)
  next
    case False
    then have "obj_get (redact_attrs ms keys depth) k = Some w"
      using w k by (cases w) (auto simp: redact_attrs_get)
    with w(2) show ?thesis by simp
  qed
qed auto

text \<open>
  The scrubbing of attributes. Down to the depth it walks (five names from the top), nothing below a
  name that contains a configured key survives but the placeholder; and every other value that is no
  object is handed on unchanged.
\<close>

lemma redaction_is_exact:
  "(path \<noteq> [] \<and> length path \<le> max_redact_depth + 1 \<and> is_redacted_key (last path) keys
      \<and> j_path (JObj (redact_attrs attrs keys 0)) path = Some v \<longrightarrow> v = JStr redacted_text)
    \<and> (j_path (JObj attrs) path = Some w \<and> \<not> is_object w \<and> (\<forall>k \<in> set path. k \<noteq> proto_key \<and> \<not> is_redacted_key k keys)
      \<longrightarrow> j_path (JObj (redact_attrs attrs keys 0)) path = Some w)"
  using redacted_path [of path 0 keys attrs v] kept_path [of attrs path w keys 0] by auto

lemma redaction_is_exact_witness:
  "j_path (JObj (redact_attrs [(''form'', JObj [(''newPassword'', JStr ''x''), (''step'', JNum 2)])] default_redact_keys 0))
      [''form'', ''newPassword''] = Some (JStr redacted_text)
    \<and> j_path (JObj (redact_attrs [(''form'', JObj [(''newPassword'', JStr ''x''), (''step'', JNum 2)])] default_redact_keys 0))
      [''form'', ''step''] = Some (JNum 2)"
proof -
  let ?attrs = "[(''form'', JObj [(''newPassword'', JStr ''x''), (''step'', JNum 2)])]"
  have "j_path (JObj (redact_attrs ?attrs default_redact_keys 0)) [''form'', ''newPassword''] \<noteq> None"
    "is_redacted_key ''newPassword'' default_redact_keys" by code_simp+
  moreover have "\<not> is_redacted_key ''form'' default_redact_keys" "\<not> is_redacted_key ''step'' default_redact_keys"
    "''form'' \<noteq> proto_key" "''step'' \<noteq> proto_key" by code_simp+
  ultimately show ?thesis
    using redaction_is_exact [of "[''form'', ''newPassword'']" default_redact_keys ?attrs]
      redaction_is_exact [of "[''form'', ''step'']" default_redact_keys ?attrs _ "JNum 2"]
    by (auto simp: max_redact_depth_def)
qed


subsection \<open>Lemmas: event names and batches\<close>

text \<open>What the pattern says: a word that starts with a letter, then words, each behind one separator.\<close>

definition separator :: "char \<Rightarrow> bool" where
  "separator c \<longleftrightarrow> c \<in> {CHR ''.'', CHR ''_'', CHR ''-''}"

definition joined :: "(char \<times> string) list \<Rightarrow> string" where
  "joined ws = concat (map (\<lambda>(c, w). c # w) ws)"

definition word_list :: "(char \<times> string) list \<Rightarrow> bool" where
  "word_list ws \<longleftrightarrow> list_all (\<lambda>(c, w). separator c \<and> w \<noteq> [] \<and> list_all name_char w) ws"

lemma separator_no_name: "separator c \<Longrightarrow> \<not> name_char c"
  by (auto simp: separator_def name_char_def lower_letter_def is_digit_def)

lemma event_name_rest_step:
  "event_name_rest b (c # s) \<longleftrightarrow>
     (if name_char c then event_name_rest False s else separator c \<and> \<not> b \<and> event_name_rest True s)"
  by (simp only: event_name_rest.simps separator_def)

declare event_name_rest.simps(2) [simp del]

lemma event_name_rest_words:
  "event_name_rest b s \<longleftrightarrow>
     (\<exists>w ws. s = w @ joined ws \<and> list_all name_char w \<and> (b \<longrightarrow> w \<noteq> []) \<and> word_list ws)"
proof (induction s arbitrary: b)
  case Nil
  show ?case by (auto simp: joined_def word_list_def intro: exI [of _ "[]"])
next
  case (Cons c s)
  show ?case
  proof (cases "name_char c")
    case True
    have "(\<exists>w ws. s = w @ joined ws \<and> list_all name_char w \<and> word_list ws)
      \<longleftrightarrow> (\<exists>w ws. c # s = w @ joined ws \<and> list_all name_char w \<and> (b \<longrightarrow> w \<noteq> []) \<and> word_list ws)" (is "?L \<longleftrightarrow> ?R")
    proof
      assume ?L
      then obtain w ws where "s = w @ joined ws" "list_all name_char w" "word_list ws" by blast
      with True show ?R by (intro exI [of _ "c # w"] exI [of _ ws]) simp
    next
      assume ?R
      then obtain w ws where w: "c # s = w @ joined ws" "list_all name_char w" "word_list ws" by blast
      have "w \<noteq> []"
      proof
        assume "w = []"
        with w(1) obtain c' w' ws' where "ws = (c', w') # ws'" "c = c'" by (cases ws) (auto simp: joined_def)
        with w(3) True separator_no_name show False by (auto simp: word_list_def)
      qed
      then obtain w' where "w = c # w'" using w(1) by (cases w) auto
      with w show ?L by auto
    qed
    with True show ?thesis by (simp add: event_name_rest_step Cons.IH)
  next
    case False
    have "(separator c \<and> \<not> b \<and> (\<exists>w ws. s = w @ joined ws \<and> list_all name_char w \<and> w \<noteq> [] \<and> word_list ws))
      \<longleftrightarrow> (\<exists>w ws. c # s = w @ joined ws \<and> list_all name_char w \<and> (b \<longrightarrow> w \<noteq> []) \<and> word_list ws)" (is "?L \<longleftrightarrow> ?R")
    proof
      assume ?L
      then obtain w ws where "separator c" "\<not> b" "s = w @ joined ws" "list_all name_char w" "w \<noteq> []" "word_list ws" by blast
      then show ?R by (intro exI [of _ "[]"] exI [of _ "(c, w) # ws"]) (simp add: joined_def word_list_def)
    next
      assume ?R
      then obtain w ws where w: "c # s = w @ joined ws" "list_all name_char w" "b \<longrightarrow> w \<noteq> []" "word_list ws" by blast
      have empty: "w = []" using w(1,2) False by (cases w) auto
      then obtain w' ws' where "ws = (c, w') # ws'" "s = w' @ joined ws'"
        using w(1) by (cases ws) (auto simp: joined_def)
      with w(3,4) empty show ?L by (auto simp: word_list_def)
    qed
    with False show ?thesis by (simp add: event_name_rest_step Cons.IH)
  qed
qed

lemma event_name_words:
  "event_name_pattern v \<longleftrightarrow>
     (\<exists>c w ws. v = c # w @ joined ws \<and> lower_letter c \<and> list_all name_char w \<and> word_list ws)"
  by (cases v) (auto simp: event_name_pattern_def event_name_rest_words)

lemma first_reason_None: "first_reason date_parse limits es = None \<Longrightarrow> e \<in> set es \<Longrightarrow> event_reason date_parse e limits = None"
  by (induction es) (auto split: option.splits)

definition event_ok :: "(string \<Rightarrow> int option) \<Rightarrow> ingest_limits \<Rightarrow> log_event \<Rightarrow> bool" where
  "event_ok date_parse limits e \<longleftrightarrow>
     is_valid_event_name (le_event e) (max_event_name_length limits) \<and> date_parse (le_ts e) \<noteq> None
     \<and> (le_attrs e = [] \<or> int (length (le_attrs e)) \<le> max_attributes_per_event limits)"

lemma normalize_event_ok:
  assumes "event_reason date_parse v limits = None"
  shows "event_ok date_parse limits (normalize_event v) \<and> log_level_of (j_get v ''level'') = Some (le_level (normalize_event v))"
proof -
  obtain l where l: "log_level_of (j_get v ''level'') = Some l"
    using assms by (cases "log_level_of (j_get v ''level'')") (auto simp: event_reason_def split: if_split_asm)
  obtain n where n: "j_get v ''event'' = Some (JStr n)" "is_valid_event_name n (max_event_name_length limits)"
    using assms by (auto simp: event_reason_def split: if_split_asm option.splits json.splits)
  obtain t where t: "j_get v ''ts'' = Some (JStr t)" "date_parse t \<noteq> None"
    using assms by (auto simp: event_reason_def is_iso_timestamp_def split: if_split_asm option.splits json.splits)
  have "attrs_reason (j_get v ''attrs'') limits = None"
    using assms by (auto simp: event_reason_def split: if_split_asm)
  then show ?thesis
    using l n t
    by (auto simp: normalize_event_def event_ok_def j_string_def attrs_reason_def split: option.splits json.splits if_split_asm)
qed

lemma parse_log_batch_ok:
  assumes "parse_log_batch date_parse v limits = Inr b"
  shows "lb_events b \<noteq> [] \<and> int (length (lb_events b)) \<le> max_events_per_batch limits
    \<and> list_all (event_ok date_parse limits) (lb_events b)"
proof -
  obtain es where es: "j_get v ''events'' = Some (JArr es)" "es \<noteq> []" "int (length es) \<le> max_events_per_batch limits"
      "first_reason date_parse limits es = None" "lb_events b = map normalize_event es"
    using assms by (auto simp: parse_log_batch_def split: if_split_asm option.splits json.splits)
  have "event_ok date_parse limits (normalize_event e)" if "e \<in> set es" for e
    using normalize_event_ok [OF first_reason_None [OF es(4) that]] by blast
  with es show ?thesis by (simp add: list_all_iff)
qed


subsection \<open>Lemmas: the limiter\<close>

text \<open>The windows a sequence of requests leaves, and how many requests of one caller it admits.\<close>

fun windows_after :: "rate_limit_options \<Rightarrow> windows \<Rightarrow> (string \<times> int) list \<Rightarrow> windows" where
  "windows_after options ws [] = ws"
| "windows_after options ws ((key, now) # calls) = windows_after options (snd (allow_request options ws key now)) calls"

fun admitted :: "rate_limit_options \<Rightarrow> windows \<Rightarrow> string \<Rightarrow> (string \<times> int) list \<Rightarrow> int" where
  "admitted options ws caller [] = 0"
| "admitted options ws caller ((key, now) # calls) =
     (if key = caller \<and> fst (allow_request options ws key now) then 1 else 0)
     + admitted options (snd (allow_request options ws key now)) caller calls"

definition windows_ok :: "rate_limit_options \<Rightarrow> string set \<Rightarrow> windows \<Rightarrow> bool" where
  "windows_ok options callers ws \<longleftrightarrow> obj_wf ws \<and> fst ` set ws \<subseteq> callers
     \<and> (\<forall>(key, w) \<in> set ws. 0 \<le> window_count w \<and> window_count w \<le> allowance options)"

lemma obj_get_filter:
  "obj_wf ws \<Longrightarrow> obj_get (filter (\<lambda>(_, w). P w) ws) k
     = (case obj_get ws k of Some w \<Rightarrow> if P w then Some w else None | None \<Rightarrow> None)"
proof (induction ws)
  case (Cons e ws)
  obtain k' w where e: "e = (k', w)" by fastforce
  have rest: "obj_wf ws" "k' \<notin> fst ` set ws" using Cons.prems e by (simp_all add: obj_wf_def)
  have "obj_get ws k' = None" using rest(2) by (simp add: obj_get_None_iff)
  with Cons.IH [OF rest(1)] show ?case by (auto simp: e split: option.splits)
qed simp

lemma evict_nothing: "int (length ws) < max_keys \<Longrightarrow> evict_oldest ws max_keys = ws"
  by (cases ws) simp_all

lemma wf_length: "obj_wf ws \<Longrightarrow> length ws = card (fst ` set ws)"
  by (metis distinct_card length_map list.set_map obj_wf_def)

lemma make_room_expired:
  assumes "obj_wf ws" "int (length ws) \<le> max_keys" "obj_get ws key = Some w" "reset_at w \<le> now"
  shows "make_room ws now max_keys = filter (\<lambda>(_, w). \<not> reset_at w \<le> now) ws"
proof -
  let ?live = "filter (\<lambda>(_, w). \<not> reset_at w \<le> now) ws"
  have "(key, w) \<in> set ws" using assms(3) by (rule obj_get_in_set)
  then have "length ?live < length ws" using assms(4) by (intro length_filter_less [of "(key, w)"]) auto
  then have "int (length ?live) < max_keys" using assms(2) by linarith
  then show ?thesis by (simp add: make_room_def evict_nothing)
qed

text \<open>As long as the callers fit, a request touches no live window but its own.\<close>

lemma allow_request_cases:
  assumes "windows_ok options callers ws" "key \<in> callers" "finite callers" "int (card callers) \<le> max_tracked_keys options"
  obtains (opened) ws' where "allow_request options ws key now = (True, ws')"
      "\<forall>w. obj_get ws key = Some w \<longrightarrow> reset_at w \<le> now"
      "obj_get ws' key = Some \<lparr>window_count = 1, reset_at = now + window_ms options\<rparr>"
      "\<forall>k. k \<noteq> key \<longrightarrow> obj_get ws' k = obj_get ws k \<or> (\<exists>w. obj_get ws k = Some w \<and> reset_at w \<le> now \<and> obj_get ws' k = None)"
    | (counted) w where "allow_request options ws key now = (True, obj_set ws key (w\<lparr>window_count := window_count w + 1\<rparr>))"
      "obj_get ws key = Some w" "now < reset_at w" "window_count w < allowance options"
    | (refused) w where "allow_request options ws key now = (False, ws)" "obj_get ws key = Some w" "now < reset_at w"
proof -
  have wf: "obj_wf ws" and inside: "fst ` set ws \<subseteq> callers" using assms(1) by (auto simp: windows_ok_def)
  have size: "int (length ws) \<le> max_tracked_keys options"
    using card_mono [OF assms(3) inside] assms(4) wf_length [OF wf] by linarith
  let ?w = "\<lparr>window_count = 1, reset_at = now + window_ms options\<rparr>"
  let ?fresh = "if int (length ws) \<ge> max_tracked_keys options then make_room ws now (max_tracked_keys options) else ws"
  show thesis
  proof (cases "obj_get ws key")
    case None
    have "key \<notin> fst ` set ws" using None by (simp add: obj_get_None_iff)
    then have "fst ` set ws \<subset> callers" using inside assms(2) by blast
    then have "length ws < card callers" using psubset_card_mono [OF assms(3)] wf_length [OF wf] by metis
    then have "\<not> int (length ws) \<ge> max_tracked_keys options" using assms(4) by linarith
    then have "allow_request options ws key now = (True, obj_set ws key ?w)" using None by (simp add: allow_request_def)
    then show thesis by (rule opened) (use None in auto)
  next
    case (Some w)
    show thesis
    proof (cases "reset_at w \<le> now")
      case True
      have "allow_request options ws key now = (True, obj_set ?fresh key ?w)"
        using Some True by (simp add: allow_request_def Let_def)
      moreover have "obj_get ?fresh k = obj_get ws k \<or> (\<exists>w. obj_get ws k = Some w \<and> reset_at w \<le> now \<and> obj_get ?fresh k = None)" for k
        using make_room_expired [OF wf size Some True] obj_get_filter [OF wf, of "\<lambda>w. \<not> reset_at w \<le> now" k]
        by (auto split: option.splits)
      ultimately show thesis by (intro opened [of "obj_set ?fresh key ?w"]) (use Some True in auto)
    next
      case False
      then show thesis
        using counted [of w] refused [of w] Some by (cases "window_count w \<ge> allowance options") (simp_all add: allow_request_def)
    qed
  qed
qed


lemma evict_oldest_suffix: "\<exists>n. evict_oldest ws max_keys = drop n ws"
proof (induction ws)
  case (Cons w ws)
  then obtain n where "evict_oldest ws max_keys = drop n ws" by blast
  then have "evict_oldest (w # ws) max_keys = drop (Suc n) (w # ws) \<or> evict_oldest (w # ws) max_keys = drop 0 (w # ws)" by simp
  then show ?case by blast
qed simp

lemma evict_oldest_length: "0 < max_keys \<Longrightarrow> int (length (evict_oldest ws max_keys)) < max_keys"
  by (induction ws) auto

lemma make_room_subset: "set (make_room ws now max_keys) \<subseteq> set ws"
  using evict_oldest_suffix [of "filter (\<lambda>(_, w). \<not> reset_at w \<le> now) ws" max_keys] set_drop_subset
  by (fastforce simp: make_room_def)

lemma make_room_wf: "obj_wf ws \<Longrightarrow> obj_wf (make_room ws now max_keys)"
proof -
  assume "obj_wf ws"
  then have "distinct (map fst (filter (\<lambda>(_, w). \<not> reset_at w \<le> now) ws))"
    unfolding obj_wf_def by (rule distinct_map_filter)
  then show ?thesis
    using evict_oldest_suffix [of "filter (\<lambda>(_, w). \<not> reset_at w \<le> now) ws" max_keys] distinct_drop
    by (auto simp: make_room_def obj_wf_def simp flip: drop_map)
qed

text \<open>The map never outgrows its ceiling, whoever calls.\<close>

lemma windows_bounded:
  assumes "obj_wf ws" "int (length ws) \<le> max_tracked_keys options" "0 < max_tracked_keys options"
  shows "int (length (snd (allow_request options ws key now))) \<le> max_tracked_keys options"
proof -
  have "int (length (make_room ws now (max_tracked_keys options))) < max_tracked_keys options"
    unfolding make_room_def by (rule evict_oldest_length [OF assms(3)])
  moreover have "key \<in> fst ` set ws" if "obj_get ws key = Some w" for w using obj_get_in_set [OF that] by force
  ultimately show ?thesis
    using assms(2) by (auto simp: allow_request_def Let_def length_obj_set split: option.splits)
qed

lemma windows_ok_step:
  assumes "windows_ok options callers ws" "key \<in> callers" "1 \<le> allowance options"
  shows "windows_ok options callers (snd (allow_request options ws key now))"
proof -
  have wf: "obj_wf ws" and inside: "fst ` set ws \<subseteq> callers" and counts: "\<forall>(k, w) \<in> set ws. 0 \<le> window_count w \<and> window_count w \<le> allowance options"
    using assms(1) by (auto simp: windows_ok_def)
  have set_ok: "windows_ok options callers (obj_set ws' key w)"
    if ws': "obj_wf ws'" "set ws' \<subseteq> set ws" and w: "0 \<le> window_count w" "window_count w \<le> allowance options" for ws' w
  proof -
    have "fst ` set (obj_set ws' key w) \<subseteq> callers" using keys_obj_set [of ws' key w] ws'(2) inside assms(2) by auto
    moreover have "\<forall>(k, w) \<in> set (obj_set ws' key w). 0 \<le> window_count w \<and> window_count w \<le> allowance options"
      using in_obj_set [of _ ws' key w] ws'(2) counts w by fastforce
    ultimately show ?thesis using obj_wf_set [OF ws'(1)] by (simp add: windows_ok_def)
  qed
  note opened = set_ok [OF make_room_wf [OF wf] make_room_subset] set_ok [OF wf subset_refl]
  have own: "0 \<le> window_count w" if "obj_get ws key = Some w" for w
    using counts obj_get_in_set [OF that] by auto
  show ?thesis using assms(1,3) opened own by (auto simp: allow_request_def Let_def split: option.splits)
qed

text \<open>What is left to a caller in an interval that ends at \<open>until\<close> and is no longer than a window.\<close>

definition budget :: "rate_limit_options \<Rightarrow> int \<Rightarrow> rate_window option \<Rightarrow> int" where
  "budget options until w =
     (case w of
        None \<Rightarrow> allowance options
      | Some w \<Rightarrow> if until \<le> reset_at w then allowance options - window_count w else 2 * allowance options - window_count w)"

lemma admitted_budget:
  assumes "windows_ok options callers ws" "finite callers" "int (card callers) \<le> max_tracked_keys options"
    and "1 \<le> allowance options" "fst ` set calls \<subseteq> callers"
    and "\<forall>(_, now) \<in> set calls. until - window_ms options \<le> now \<and> now < until"
  shows "admitted options ws caller calls \<le> budget options until (obj_get ws caller)"
  using assms(1,5,6)
proof (induction calls arbitrary: ws)
  case Nil
  show ?case
  proof (cases "obj_get ws caller")
    case (Some w)
    then have "window_count w \<le> allowance options"
      using Nil.prems(1) obj_get_in_set [OF Some] by (auto simp: windows_ok_def)
    with Some assms(4) show ?thesis by (simp add: budget_def)
  qed (use assms(4) in \<open>simp add: budget_def\<close>)
next
  case (Cons call calls)
  obtain key now where call: "call = (key, now)" by fastforce
  let ?ws = "snd (allow_request options ws key now)"
  have key: "key \<in> callers" and time: "until - window_ms options \<le> now" "now < until"
    using Cons.prems(2,3) call by auto
  have "windows_ok options callers ?ws" by (rule windows_ok_step [OF Cons.prems(1) key assms(4)])
  then have rest: "admitted options ?ws caller calls \<le> budget options until (obj_get ?ws caller)"
    using Cons.IH Cons.prems(2,3) call by auto
  have count: "window_count w \<le> allowance options" if "obj_get ws caller = Some w" for w
    using Cons.prems(1) obj_get_in_set [OF that] by (auto simp: windows_ok_def)
  have "(if key = caller \<and> fst (allow_request options ws key now) then 1 else 0) + budget options until (obj_get ?ws caller)
      \<le> budget options until (obj_get ws caller)"
    using Cons.prems(1) key assms(2,3)
  proof (cases rule: allow_request_cases [where now = now])
    case (opened ws')
    show ?thesis
    proof (cases "key = caller")
      case True
      then show ?thesis
        using opened(1-3) time count by (cases "obj_get ws caller") (fastforce simp: budget_def)+
    next
      case False
      then have "obj_get ws' caller = obj_get ws caller
          \<or> (\<exists>w. obj_get ws caller = Some w \<and> reset_at w \<le> now \<and> obj_get ws' caller = None)"
        using opened(4) by metis
      then show ?thesis using False opened(1) time count by (auto simp: budget_def)
    qed
  next
    case (counted w)
    then show ?thesis using time by (cases "key = caller") (auto simp: budget_def)
  next
    case (refused w)
    then show ?thesis by simp
  qed
  with rest show ?case by (simp add: call)
qed

lemma windows_after_ok:
  "windows_ok options callers ws \<Longrightarrow> fst ` set calls \<subseteq> callers \<Longrightarrow> 1 \<le> allowance options
    \<Longrightarrow> windows_ok options callers (windows_after options ws calls)"
proof (induction calls arbitrary: ws)
  case (Cons call calls)
  obtain key now where call: "call = (key, now)" by fastforce
  have "windows_ok options callers (snd (allow_request options ws key now))"
    using Cons.prems call by (intro windows_ok_step) auto
  with Cons call show ?case by simp
qed simp

text \<open>
  C17: The request limit. Whatever was asked before, in any stretch of time no longer than a window a caller
  is admitted at most twice the allowance (the end of one window and the start of the next), and at most
  the allowance when its window has not begun before; as long as the callers seen fit into the ceiling on
  tracked keys, since an evicted caller starts anew.
\<close>

theorem request_limit_holds:
  assumes "fst ` set (earlier @ burst) \<subseteq> callers" "finite callers" "int (card callers) \<le> max_tracked_keys options"
    and "1 \<le> allowance options"
    and "\<forall>(_, now) \<in> set burst. start \<le> now \<and> now < start + window_ms options"
  shows "admitted options (windows_after options [] earlier) caller burst \<le> 2 * allowance options
    \<and> (caller \<notin> fst ` set earlier \<longrightarrow> admitted options (windows_after options [] earlier) caller burst \<le> allowance options)"
proof -
  have ok: "windows_ok options callers (windows_after options [] earlier)"
    using assms(1,4) by (intro windows_after_ok) (auto simp: windows_ok_def)
  have bound: "admitted options (windows_after options [] earlier) caller burst
      \<le> budget options (start + window_ms options) (obj_get (windows_after options [] earlier) caller)"
    using ok assms by (intro admitted_budget) auto
  have unseen: "obj_get (windows_after options [] earlier) caller = None" if "caller \<notin> fst ` set earlier"
  proof -
    have "windows_ok options (fst ` set earlier) (windows_after options [] earlier)"
      using assms(4) by (intro windows_after_ok) (auto simp: windows_ok_def)
    with that show ?thesis by (auto simp: windows_ok_def obj_get_None_iff)
  qed
  have positive: "0 \<le> window_count w" if "obj_get (windows_after options [] earlier) caller = Some w" for w
    using ok obj_get_in_set [OF that] by (auto simp: windows_ok_def)
  show ?thesis using bound unseen positive assms(4) by (auto simp: budget_def split: option.splits if_split_asm)
qed


lemma request_limit_holds_witness:
  "admitted \<lparr>allowance = 2, window_ms = 10, max_tracked_keys = 3\<rparr>
     (windows_after \<lparr>allowance = 2, window_ms = 10, max_tracked_keys = 3\<rparr> [] [(''a'', 0), (''b'', 2)]) ''a''
     [(''a'', 5), (''a'', 9), (''a'', 10), (''a'', 14)] \<le> 2 * 2"
  using request_limit_holds [of "[(''a'', 0), (''b'', 2)]" "[(''a'', 5), (''a'', 9), (''a'', 10), (''a'', 14)]"
      "{''a'', ''b''}" "\<lparr>allowance = 2, window_ms = 10, max_tracked_keys = 3\<rparr>" 5 "''a''"] by simp

end
