(* ===== verification/LogIngest.thy ===== *)
theory LogIngest
  imports LogEvents Handlers
begin

section \<open>Log ingestion and the server's own logger (\<open>packages/logger/src/server.ts\<close>, \<open>otlp.ts\<close>)\<close>

text \<open>
  The route a browser posts its log batches to: its guards in order, the record the server makes of an
  event, the encoding for a collector, and the logger server code holds. What the runtime provides is a
  record of operations over the state. A sink is called and then awaited: the call may throw, and so may
  what it returned.
\<close>

subsection \<open>Records and surroundings\<close>

record server_log_record =
  sr_ts :: string
  sr_client_ts :: string
  sr_level :: log_level
  sr_event :: string
  sr_attrs :: "(string \<times> json) list"
  sr_service :: string
  sr_correlation_id :: "json option"
  sr_client_ip :: "string option"
  sr_user_id :: "string option"
  sr_tenant_id :: "string option"
  sr_error :: "json option"

record 's log_host =
  lh_now :: "'s \<Rightarrow> int"
  lh_date_parse :: "string \<Rightarrow> int option"
  lh_fetch :: "fetch_request \<Rightarrow> 's \<Rightarrow> fetch_outcome \<times> 's"
  lh_log :: "string \<Rightarrow> 's \<Rightarrow> 's"
  lh_warn :: "string \<Rightarrow> nat option \<Rightarrow> thrown option \<Rightarrow> 's \<Rightarrow> 's"
  lh_stack :: "thrown \<Rightarrow> string option"
  lh_read_body :: "request \<Rightarrow> ('s, string) io"

type_synonym 's log_sink = "server_log_record list \<Rightarrow> ('s, ('s, unit) io) io"

text \<open>\<open>new Date(ms).toISOString()\<close>: the civil date of a day number, and the digits of the text.\<close>

definition civil_of_days :: "int \<Rightarrow> int \<times> int \<times> int" where
  "civil_of_days days =
     (let z = days + 719468; era = z div 146097; doe = z mod 146097;
          yoe = (doe - doe div 1460 + doe div 36524 - doe div 146096) div 365;
          doy = doe - (365 * yoe + yoe div 4 - yoe div 100);
          mp = (5 * doy + 2) div 153;
          m = (if mp < 10 then mp + 3 else mp - 9) in
      (yoe + era * 400 + (if m \<le> 2 then 1 else 0), m, doy - (153 * mp + 2) div 5 + 1))"

definition pad_digits :: "nat \<Rightarrow> int \<Rightarrow> string" where
  "pad_digits width n = (let ds = nat_to_string (nat n) in replicate (width - length ds) (CHR ''0'') @ ds)"

definition max_date :: int where "max_date = 8640000000000000"

definition to_iso_string :: "int \<Rightarrow> thrown + string" where
  "to_iso_string ms =
     (if \<bar>ms\<bar> > max_date then Inl (Err (JsError 0 ''RangeError'' ''Invalid time value'' None None))
      else
        (let (y, m, d) = civil_of_days (ms div 86400000); t = ms mod 86400000 in
         Inr ((if 0 \<le> y \<and> y \<le> 9999 then pad_digits 4 y else (if y < 0 then ''-'' else ''+'') @ pad_digits 6 \<bar>y\<bar>)
           @ ''-'' @ pad_digits 2 m @ ''-'' @ pad_digits 2 d
           @ ''T'' @ pad_digits 2 (t div 3600000) @ '':'' @ pad_digits 2 (t div 60000 mod 60)
           @ '':'' @ pad_digits 2 (t div 1000 mod 60) @ ''.'' @ pad_digits 3 (t mod 1000) @ ''Z'')))"

subsection \<open>The collector's encoding (\<open>otlp.ts\<close>)\<close>

primrec severity_number :: "log_level \<Rightarrow> int" where
  "severity_number LevelDebug = 5"
| "severity_number LevelInfo = 9"
| "severity_number LevelWarn = 13"
| "severity_number LevelError = 17"

definition scope_name :: string where "scope_name = ''@bc-solutions-coder/logger''"

fun to_any_value :: "json \<Rightarrow> json" where
  "to_any_value (JStr s) = JObj [(''stringValue'', JStr s)]"
| "to_any_value (JBool b) = JObj [(''boolValue'', JBool b)]"
| "to_any_value (JNum i) = JObj [(''intValue'', JStr (int_to_string i))]"
| "to_any_value (JDec m k) = JObj [(''doubleValue'', JDec m k)]"
| "to_any_value JNull = JObj [(''stringValue'', JStr '''')]"
| "to_any_value v = JObj [(''stringValue'', JStr (json_print v))]"

text \<open>\<open>toAttributes\<close>: an entry without a value is \<open>undefined\<close> and left out.\<close>

definition to_attributes :: "(string \<times> json option) list \<Rightarrow> (string \<times> json) list" where
  "to_attributes kvs = concat (map (\<lambda>(k, v). case v of Some w \<Rightarrow> [(k, to_any_value w)] | None \<Rightarrow> []) kvs)"

definition to_unix_nano :: "(string \<Rightarrow> int option) \<Rightarrow> string \<Rightarrow> int \<Rightarrow> string" where
  "to_unix_nano date_parse text fallback_ms =
     int_to_string ((case date_parse text of Some ms \<Rightarrow> ms | None \<Rightarrow> fallback_ms) * 1000000)"

definition error_member :: "server_log_record \<Rightarrow> string \<Rightarrow> json option" where
  "error_member r k = (case sr_error r of Some e \<Rightarrow> j_get e k | None \<Rightarrow> None)"

text \<open>The literal that spreads the attributes and writes the server's fields over them.\<close>

definition otlp_attributes :: "server_log_record \<Rightarrow> (string \<times> json) list" where
  "otlp_attributes r =
     to_attributes (obj_spread (map (\<lambda>(k, v). (k, Some v)) (sr_attrs r))
       [(''event.name'', Some (JStr (sr_event r))),
        (''wallow.correlation_id'', sr_correlation_id r),
        (''client.address'', map_option JStr (sr_client_ip r)),
        (''enduser.id'', map_option JStr (sr_user_id r)),
        (''wallow.tenant_id'', map_option JStr (sr_tenant_id r)),
        (''exception.type'', error_member r ''name''),
        (''exception.message'', error_member r ''message''),
        (''exception.stacktrace'', error_member r ''stack'')])"

definition attribute_list :: "(string \<times> json) list \<Rightarrow> json" where
  "attribute_list as = JArr (map (\<lambda>(k, v). JObj [(''key'', JStr k), (''value'', v)]) as)"

definition otlp_log_record :: "(string \<Rightarrow> int option) \<Rightarrow> int \<Rightarrow> server_log_record \<Rightarrow> json" where
  "otlp_log_record date_parse now_ms r =
     JObj [(''timeUnixNano'', JStr (to_unix_nano date_parse (sr_client_ts r) now_ms)),
           (''observedTimeUnixNano'', JStr (to_unix_nano date_parse (sr_ts r) now_ms)),
           (''severityNumber'', JNum (severity_number (sr_level r))),
           (''severityText'', JStr (to_upper (level_text (sr_level r)))),
           (''body'', JObj [(''stringValue'', JStr (sr_event r))]),
           (''attributes'', attribute_list (otlp_attributes r))]"

fun group_by_service ::
    "(string \<times> server_log_record list) list \<Rightarrow> server_log_record list \<Rightarrow> (string \<times> server_log_record list) list" where
  "group_by_service groups [] = groups"
| "group_by_service groups (r # rs) =
     group_by_service
       (case obj_get groups (sr_service r) of
          None \<Rightarrow> obj_set groups (sr_service r) [r]
        | Some bucket \<Rightarrow> obj_set groups (sr_service r) (bucket @ [r])) rs"

definition to_otlp_logs_payload :: "(string \<Rightarrow> int option) \<Rightarrow> server_log_record list \<Rightarrow> int \<Rightarrow> json" where
  "to_otlp_logs_payload date_parse records now_ms =
     JObj [(''resourceLogs'', JArr (map (\<lambda>(service, rs).
       JObj [(''resource'', JObj [(''attributes'', attribute_list (to_attributes [(''service.name'', Some (JStr service))]))]),
             (''scopeLogs'', JArr [JObj [(''scope'', JObj [(''name'', JStr scope_name)]),
                                         (''logRecords'', JArr (map (otlp_log_record date_parse now_ms) rs))]])])
       (group_by_service [] records)))]"

definition otlp_logs_url :: "string \<Rightarrow> string" where
  "otlp_logs_url endpoint =
     (let trimmed = strip_trailing (CHR ''/'') endpoint in
      if ends_with trimmed ''/v1/logs'' then trimmed else trimmed @ ''/v1/logs'')"

record otlp_emit_result =
  emit_ok :: bool
  emit_status :: "nat option"
  emit_error :: "thrown option"

definition emit_otlp ::
    "'s log_host \<Rightarrow> string \<Rightarrow> server_log_record list \<Rightarrow> int \<Rightarrow> ('s, otlp_emit_result) io" where
  "emit_otlp lh endpoint records now_ms =
     (if records = [] then io_return \<lparr>emit_ok = True, emit_status = None, emit_error = None\<rparr>
      else
        io_bind (io_lift (lh_fetch lh
          \<lparr>fetch_url = otlp_logs_url endpoint, fetch_method = ''POST'',
           fetch_headers = h_of [(''content-type'', ''application/json'')],
           fetch_body = Some (json_print (to_otlp_logs_payload (lh_date_parse lh) records now_ms))\<rparr>)) (\<lambda>outcome.
        io_return
          (case outcome of
             Fetched r \<Rightarrow> \<lparr>emit_ok = resp_ok r, emit_status = Some (status r), emit_error = None\<rparr>
           | Faulted e timed_out \<Rightarrow> \<lparr>emit_ok = False, emit_status = None, emit_error = Some e\<rparr>)))"


subsection \<open>The ingest handler\<close>

record log_request_context =
  lc_user_id :: "string option"
  lc_tenant_id :: "string option"

datatype allowed_origins = OriginList "string list" | OriginsOf "request \<Rightarrow> string list"

record 's log_ingest_options =
  li_service :: string
  li_allowed_origins :: allowed_origins
  li_otlp_endpoint :: "string option"
  li_limits :: "ingest_limits option"
  li_rate_limit :: "rate_limit_options option"
  li_redact :: "string list option"
  li_client_address :: "(request \<Rightarrow> string option) option"
  li_authorize :: "(request \<Rightarrow> log_batch \<Rightarrow> ('s, bool) io) option"
  li_context :: "(request \<Rightarrow> ('s, log_request_context) io) option"
  li_sink :: "'s log_sink option"

definition log_byte_length :: "string \<Rightarrow> int" where
  "log_byte_length body = int (length (utf8_encode body))"

definition log_reject :: "nat \<Rightarrow> string \<Rightarrow> response" where
  "log_reject st reason = json_response st (JObj [(''reason'', JStr reason)]) []"

definition origin_allowed :: "request \<Rightarrow> allowed_origins \<Rightarrow> bool" where
  "origin_allowed req allowed =
     (case h_get (req_headers req) ''origin'' of
        None \<Rightarrow> False
      | Some origin \<Rightarrow> origin \<in> set (case allowed of OriginList l \<Rightarrow> l | OriginsOf f \<Rightarrow> f req))"

definition peer_address :: "request \<Rightarrow> (request \<Rightarrow> string option) option \<Rightarrow> string option" where
  "peer_address req resolve = (case resolve of None \<Rightarrow> None | Some f \<Rightarrow> if f req = Some '''' then None else f req)"

definition record_to_json :: "server_log_record \<Rightarrow> json" where
  "record_to_json r =
     JObj ([(''ts'', JStr (sr_ts r)), (''clientTs'', JStr (sr_client_ts r)), (''level'', JStr (level_text (sr_level r))),
            (''event'', JStr (sr_event r)), (''attrs'', JObj (sr_attrs r)), (''service'', JStr (sr_service r))]
       @ opt_member ''correlationId'' (sr_correlation_id r) @ opt_member ''clientIp'' (map_option JStr (sr_client_ip r))
       @ opt_member ''userId'' (map_option JStr (sr_user_id r)) @ opt_member ''tenantId'' (map_option JStr (sr_tenant_id r))
       @ opt_member ''error'' (sr_error r))"

definition console_sink :: "'s log_host \<Rightarrow> server_log_record list \<Rightarrow> ('s, unit) io" where
  "console_sink lh records = io_modify (fold (\<lambda>r. lh_log lh (json_print (record_to_json r))) records)"

record stamp =
  st_service :: string
  st_now_iso :: string
  st_redact :: "string list"
  st_fallback_correlation_id :: "string option"
  st_client_ip :: "string option"
  st_context :: log_request_context

definition to_server_record :: "log_event \<Rightarrow> stamp \<Rightarrow> server_log_record" where
  "to_server_record e st =
     \<lparr>sr_ts = st_now_iso st, sr_client_ts = le_ts e, sr_level = le_level e, sr_event = le_event e,
      sr_attrs = redact_attrs (le_attrs e) (st_redact st) 0, sr_service = st_service st,
      sr_correlation_id =
        (case le_correlation_id e of
           None \<Rightarrow> map_option JStr (st_fallback_correlation_id st)
         | Some JNull \<Rightarrow> map_option JStr (st_fallback_correlation_id st)
         | Some i \<Rightarrow> Some i),
      sr_client_ip = st_client_ip st, sr_user_id = lc_user_id (st_context st), sr_tenant_id = lc_tenant_id (st_context st),
      sr_error = le_error e\<rparr>"

text \<open>\<open>Number(text) > limit\<close>\<close>

fun number_above :: "js_number \<Rightarrow> int \<Rightarrow> bool" where
  "number_above NaN limit = False"
| "number_above (Inf positive) limit = positive"
| "number_above (Fin m k) limit = (m > limit * 10 ^ k)"

definition emit_or_warn :: "'s log_host \<Rightarrow> string \<Rightarrow> string \<Rightarrow> server_log_record list \<Rightarrow> ('s, unit) io" where
  "emit_or_warn lh service endpoint records =
     io_bind (io_gets (lh_now lh)) (\<lambda>now_ms.
     io_bind (emit_otlp lh endpoint records now_ms) (\<lambda>result.
     if \<not> emit_ok result
     then io_modify (lh_warn lh (service @ '': OTLP log emit failed'') (emit_status result) (emit_error result))
     else io_return ()))"

text \<open>The sink an ingest handler falls back to; an \<open>async\<close> function, so its call itself does not throw.\<close>

definition ingest_sink :: "'s log_host \<Rightarrow> 's log_ingest_options \<Rightarrow> 's log_sink" where
  "ingest_sink lh options =
     (case li_sink options of
        Some sink \<Rightarrow> sink
      | None \<Rightarrow> (\<lambda>records. io_return
          (case li_otlp_endpoint options of
             None \<Rightarrow> console_sink lh records
           | Some endpoint \<Rightarrow> emit_or_warn lh (li_service options) endpoint records)))"

definition ingest_limits_of :: "'s log_ingest_options \<Rightarrow> ingest_limits" where
  "ingest_limits_of options = (case li_limits options of Some l \<Rightarrow> l | None \<Rightarrow> default_ingest_limits)"

text \<open>The limiter of one handler: its map is a variable of the state.\<close>

definition limiter_allow ::
    "('s, windows) cell \<Rightarrow> rate_limit_options \<Rightarrow> string \<Rightarrow> int \<Rightarrow> ('s, bool) io" where
  "limiter_allow limiter options key now =
     io_lift (\<lambda>s. case allow_request options (cell_get limiter s) key now of (ok, ws) \<Rightarrow> (ok, cell_put limiter ws s))"

text \<open>From a parsed batch to the answer.\<close>

definition deliver_batch ::
    "'s log_host \<Rightarrow> 's log_ingest_options \<Rightarrow> request \<Rightarrow> string option \<Rightarrow> log_batch \<Rightarrow> ('s, response) io" where
  "deliver_batch lh options req client_ip batch =
     io_bind (case li_context options of
         Some f \<Rightarrow> f req | None \<Rightarrow> io_return \<lparr>lc_user_id = None, lc_tenant_id = None\<rparr>) (\<lambda>context.
     io_bind (io_gets (lh_now lh)) (\<lambda>now.
     io_bind (io_of (to_iso_string now)) (\<lambda>now_iso.
     (let records = map (\<lambda>e. to_server_record e
            \<lparr>st_service = li_service options, st_now_iso = now_iso,
             st_redact = (case li_redact options of Some ks \<Rightarrow> ks | None \<Rightarrow> default_redact_keys),
             st_fallback_correlation_id = h_get (req_headers req) correlation_header,
             st_client_ip = client_ip, st_context = context\<rparr>) (lb_events batch) in
      io_bind (io_catch (io_bind (ingest_sink lh options records) (\<lambda>pending. pending))
        (\<lambda>e. io_modify (lh_warn lh (li_service options @ '': log sink failed'') None (Some e)))) (\<lambda>_.
      io_return (new_response 204 None []))))))"

definition create_log_ingest_handler ::
    "'s log_host \<Rightarrow> ('s, windows) cell \<Rightarrow> 's log_ingest_options \<Rightarrow> request \<Rightarrow> ('s, response) io" where
  "create_log_ingest_handler lh limiter options req =
     (let limits = ingest_limits_of options;
          rate = (case li_rate_limit options of Some r \<Rightarrow> r | None \<Rightarrow> default_rate_limit) in
      if req_method req \<noteq> ''POST'' then io_return (log_reject 405 ''method not allowed'')
      else if \<not> origin_allowed req (li_allowed_origins options) then io_return (log_reject 403 ''origin not allowed'')
      else
        (let client_ip = peer_address req (li_client_address options) in
         io_bind (io_gets (lh_now lh)) (\<lambda>now.
         io_bind (limiter_allow limiter rate (case client_ip of Some i \<Rightarrow> i | None \<Rightarrow> ''unknown'') now) (\<lambda>within_limit.
         if \<not> within_limit then io_return (log_reject 429 ''too many log batches'')
         else if (case h_get (req_headers req) ''content-length'' of
                    Some declared \<Rightarrow> number_above (js_to_number declared) (max_body_bytes limits) | None \<Rightarrow> False)
         then io_return (log_reject 413 ''batch is too large'')
         else
           io_bind (io_catch (io_bind (lh_read_body lh req) (\<lambda>b. io_return (Some b))) (\<lambda>_. io_return None)) (\<lambda>body.
           case body of
             None \<Rightarrow> io_return (log_reject 400 ''body could not be read'')
           | Some b \<Rightarrow>
               if log_byte_length b > max_body_bytes limits then io_return (log_reject 413 ''batch is too large'')
               else
                 (case json_parse b of
                    None \<Rightarrow> io_return (log_reject 400 ''body is not JSON'')
                  | Some decoded \<Rightarrow>
                      (case parse_log_batch (lh_date_parse lh) decoded limits of
                         Inl reason \<Rightarrow> io_return (log_reject 400 reason)
                       | Inr batch \<Rightarrow>
                           io_bind (case li_authorize options of None \<Rightarrow> io_return True | Some f \<Rightarrow> f req batch) (\<lambda>authorized.
                           if \<not> authorized then io_return (log_reject 403 ''request is not authorized'')
                           else deliver_batch lh options req client_ip batch))))))))"


subsection \<open>The server's own logger\<close>

record 's server_logger_options =
  sl_service :: string
  sl_level :: "log_level option"
  sl_otlp_endpoint :: "string option"
  sl_attrs :: "((string \<times> json) list) option"
  sl_redact :: "string list option"
  sl_sink :: "'s log_sink option"
  sl_console :: "bool option"

text \<open>\<open>String(value)\<close> of a value that is no error.\<close>

fun js_text :: "json \<Rightarrow> string" where
  "js_text (JStr s) = s"
| "js_text (JBool b) = (if b then ''true'' else ''false'')"
| "js_text (JNum i) = int_to_string i"
| "js_text (JDec m k) = dec_to_string m k"
| "js_text JNull = ''null''"
| "js_text (JObj ms) = ''[object Object]''"
| "js_text (JArr vs) = js_join '','' (map (\<lambda>v. if v = JNull then '''' else js_text v) vs)"

fun thrown_name :: "thrown \<Rightarrow> string" where
  "thrown_name (Err e) = err_name e"
| "thrown_name (Value v) = ''NonError''"
| "thrown_name t = (case thrown_failure t of Some f \<Rightarrow> f_name f | None \<Rightarrow> ''NonError'')"

definition to_record_error :: "(thrown \<Rightarrow> string option) \<Rightarrow> thrown option \<Rightarrow> json option" where
  "to_record_error stack error =
     (case error of
        None \<Rightarrow> None
      | Some (Value JNull) \<Rightarrow> None
      | Some (Value v) \<Rightarrow> Some (JObj [(''name'', JStr ''NonError''), (''message'', JStr (js_text v))])
      | Some e \<Rightarrow>
          Some (JObj ([(''name'', JStr (thrown_name e)),
                       (''message'', JStr (case thrown_message e of Some m \<Rightarrow> m | None \<Rightarrow> ''''))]
            @ opt_member ''stack'' (map_option JStr (stack e)))))"

definition server_sink :: "'s log_host \<Rightarrow> 's server_logger_options \<Rightarrow> 's log_sink" where
  "server_sink lh options =
     (case sl_sink options of
        Some sink \<Rightarrow> sink
      | None \<Rightarrow> (\<lambda>records. io_return
          (case sl_otlp_endpoint options of
             None \<Rightarrow> io_return ()
           | Some endpoint \<Rightarrow> emit_or_warn lh (sl_service options) endpoint records)))"

text \<open>
  A logger is its base attributes: \<open>child\<close> overlays them, \<open>at\<close> records. What the sink returned is not
  awaited by the caller; the record runs it to its end.
\<close>

definition child_attrs :: "(string \<times> json) list \<Rightarrow> (string \<times> json) list \<Rightarrow> (string \<times> json) list" where
  "child_attrs base attrs = obj_spread base attrs"

definition server_log_at ::
    "'s log_host \<Rightarrow> 's server_logger_options \<Rightarrow> (string \<times> json) list \<Rightarrow> log_level \<Rightarrow> string
      \<Rightarrow> ((string \<times> json) list) option \<Rightarrow> thrown option \<Rightarrow> ('s, unit) io" where
  "server_log_at lh options base level event attrs error =
     (let minimum = (case sl_level options of Some l \<Rightarrow> l | None \<Rightarrow> LevelInfo);
          keys = (case sl_redact options of Some ks \<Rightarrow> ks | None \<Rightarrow> default_redact_keys) in
      if \<not> is_at_least level minimum then io_return ()
      else
        io_bind (io_gets (lh_now lh)) (\<lambda>now.
        io_bind (io_of (to_iso_string now)) (\<lambda>iso_now.
        (let r = \<lparr>sr_ts = iso_now, sr_client_ts = iso_now, sr_level = level, sr_event = event,
                  sr_attrs = redact_attrs (obj_spread base (case attrs of Some a \<Rightarrow> a | None \<Rightarrow> [])) keys 0,
                  sr_service = sl_service options, sr_correlation_id = None, sr_client_ip = None, sr_user_id = None,
                  sr_tenant_id = None, sr_error = to_record_error (lh_stack lh) error\<rparr> in
         io_bind (if sl_console options \<noteq> Some False then console_sink lh [r] else io_return ()) (\<lambda>_.
         io_bind (server_sink lh options [r]) (\<lambda>pending.
         io_catch pending (\<lambda>e. io_modify (lh_warn lh (sl_service options @ '': log sink failed'') None (Some e)))))))))"

definition create_server_logger ::
    "'s log_host \<Rightarrow> 's server_logger_options \<Rightarrow> log_level \<Rightarrow> string \<Rightarrow> ((string \<times> json) list) option
      \<Rightarrow> thrown option \<Rightarrow> ('s, unit) io" where
  "create_server_logger lh options =
     server_log_at lh options (case sl_attrs options of Some a \<Rightarrow> a | None \<Rightarrow> [])"

subsection \<open>The hosts (\<open>log-ingest.server.ts\<close> of both applications, \<open>log.server.ts\<close>)\<close>

definition web_service :: string where "web_service = ''wallow-web''"
definition auth_service :: string where "auth_service = ''wallow-auth''"

definition otlp_endpoint_of :: "env \<Rightarrow> string" where
  "otlp_endpoint_of env = js_trim (case env ''OTEL_EXPORTER_OTLP_ENDPOINT'' of Some e \<Rightarrow> e | None \<Rightarrow> '''')"

definition session_for ::
    "'s platform \<Rightarrow> ('s, bff_config \<times> ('s, 't) session_store) io \<Rightarrow> request \<Rightarrow> ('s, bff_session option) io" where
  "session_for pl get_bff_server req =
     io_bind get_bff_server (\<lambda>(config, store). read_session pl store config req)"

definition authorize_log_batch ::
    "'s platform \<Rightarrow> ('s, bff_config \<times> ('s, 't) session_store) io \<Rightarrow> request \<Rightarrow> log_batch \<Rightarrow> ('s, bool) io" where
  "authorize_log_batch pl get_bff_server req batch =
     io_bind (session_for pl get_bff_server req) (\<lambda>session.
     case session of
       None \<Rightarrow> io_return True
     | Some sess \<Rightarrow>
         (case csrf_token sess of
            None \<Rightarrow> io_return True
          | Some expected \<Rightarrow>
              (let presented = (case h_get (req_headers req) csrf_header of Some t \<Rightarrow> Some t | None \<Rightarrow> lb_csrf_token batch) in
               io_return (csrf_token_matches (Some expected) presented))))"

definition context_for ::
    "'s platform \<Rightarrow> ('s, bff_config \<times> ('s, 't) session_store) io \<Rightarrow> request \<Rightarrow> ('s, log_request_context) io" where
  "context_for pl get_bff_server req =
     io_bind (session_for pl get_bff_server req) (\<lambda>session.
     io_return
       (case session of
          None \<Rightarrow> \<lparr>lc_user_id = None, lc_tenant_id = None\<rparr>
        | Some sess \<Rightarrow> \<lparr>lc_user_id = Some (user_sub (user sess)), lc_tenant_id = j_string (JObj (user sess)) ''organizationId''\<rparr>))"


definition log_ingest_of ::
    "'s log_host \<Rightarrow> ('s, windows) cell \<Rightarrow> env \<Rightarrow> string \<Rightarrow> (request \<Rightarrow> log_batch \<Rightarrow> ('s, bool) io) option
      \<Rightarrow> (request \<Rightarrow> ('s, log_request_context) io) option \<Rightarrow> request \<Rightarrow> ('s, response) io" where
  "log_ingest_of lh limiter env service authorize ctx =
     create_log_ingest_handler lh limiter
       \<lparr>li_service = service, li_allowed_origins = OriginsOf (\<lambda>req. [create_request_origin_resolver env req]),
        li_otlp_endpoint = (if otlp_endpoint_of env = '''' then None else Some (otlp_endpoint_of env)),
        li_limits = None, li_rate_limit = None, li_redact = None,
        li_client_address = Some (create_client_address_resolver env), li_authorize = authorize, li_context = ctx,
        li_sink = None\<rparr>"

definition web_log_ingest ::
    "'s log_host \<Rightarrow> ('s, windows) cell \<Rightarrow> env \<Rightarrow> 's platform \<Rightarrow> ('s, bff_config \<times> ('s, 't) session_store) io
      \<Rightarrow> request \<Rightarrow> ('s, response) io" where
  "web_log_ingest lh limiter env pl get_bff_server =
     log_ingest_of lh limiter env web_service (Some (authorize_log_batch pl get_bff_server)) (Some (context_for pl get_bff_server))"

definition auth_log_ingest :: "'s log_host \<Rightarrow> ('s, windows) cell \<Rightarrow> env \<Rightarrow> request \<Rightarrow> ('s, response) io" where
  "auth_log_ingest lh limiter env = log_ingest_of lh limiter env auth_service None None"

subsection \<open>Lemmas: what reaches the sink\<close>

text \<open>
  \<open>delivered\<close> reads what the sink has taken; only the sink adds to it, and it takes a call's records
  together or not at all.
\<close>

definition log_world ::
    "('s \<Rightarrow> server_log_record list) \<Rightarrow> 's log_host \<Rightarrow> ('s, windows) cell \<Rightarrow> 's log_ingest_options \<Rightarrow> bool" where
  "log_world delivered lh limiter options \<longleftrightarrow>
     (\<forall>ws s. delivered (cell_put limiter ws s) = delivered s)
     \<and> (\<forall>req. quiet delivered (lh_read_body lh req))
     \<and> (\<forall>m st e s. delivered (lh_warn lh m st e s) = delivered s)
     \<and> (\<forall>f req b. li_authorize options = Some f \<longrightarrow> quiet delivered (f req b))
     \<and> (\<forall>f req. li_context options = Some f \<longrightarrow> quiet delivered (f req))
     \<and> (\<forall>rs s. delivered (snd (io_bind (ingest_sink lh options rs) (\<lambda>pending. pending) s)) \<in> {delivered s, delivered s @ rs})"

definition request_stamp :: "'s log_ingest_options \<Rightarrow> request \<Rightarrow> string option \<Rightarrow> string \<Rightarrow> log_request_context \<Rightarrow> stamp" where
  "request_stamp options req client_ip now_iso ctx =
     \<lparr>st_service = li_service options, st_now_iso = now_iso,
      st_redact = (case li_redact options of Some ks \<Rightarrow> ks | None \<Rightarrow> default_redact_keys),
      st_fallback_correlation_id = h_get (req_headers req) correlation_header, st_client_ip = client_ip, st_context = ctx\<rparr>"

lemma deliver_batch_effect:
  assumes world: "log_world delivered lh limiter options" and run: "deliver_batch lh options req client_ip batch s = (r, s')"
    and new: "delivered s' \<noteq> delivered s"
  obtains ctx s1 now_iso where
    "(case li_context options of Some f \<Rightarrow> f req | None \<Rightarrow> io_return \<lparr>lc_user_id = None, lc_tenant_id = None\<rparr>) s = (Inr ctx, s1)"
    "to_iso_string (lh_now lh s1) = Inr now_iso"
    "delivered s' = delivered s @ map (\<lambda>e. to_server_record e (request_stamp options req client_ip now_iso ctx)) (lb_events batch)"
proof -
  let ?ctx = "case li_context options of Some f \<Rightarrow> f req | None \<Rightarrow> io_return \<lparr>lc_user_id = None, lc_tenant_id = None\<rparr>"
  have "quiet delivered ?ctx" using world by (auto simp: log_world_def intro: quiet_intros split: option.split)
  moreover obtain c s1 where c: "?ctx s = (c, s1)" by fastforce
  ultimately have same: "delivered s1 = delivered s" by (rule quietD)
  obtain ctx where ctx: "c = Inr ctx"
    using run new same c by (cases c) (auto simp: deliver_batch_def io_bind_def)
  obtain now_iso where iso_now: "to_iso_string (lh_now lh s1) = Inr now_iso"
    using run new same c ctx by (cases "to_iso_string (lh_now lh s1)") (auto simp: deliver_batch_def io_bind_def io_simps)
  let ?rs = "map (\<lambda>e. to_server_record e (request_stamp options req client_ip now_iso ctx)) (lb_events batch)"
  obtain o' s2 where o': "io_bind (ingest_sink lh options ?rs) (\<lambda>pending. pending) s1 = (o', s2)" by fastforce
  have "delivered s2 \<in> {delivered s1, delivered s1 @ ?rs}"
    using world o' unfolding log_world_def by (metis snd_conv)
  moreover have "delivered s' = delivered s2"
    using run c ctx iso_now o' world
    by (cases o') (auto simp: deliver_batch_def request_stamp_def [symmetric] io_bind_def [of ?ctx] io_simps io_bind_def [of "io_catch _ _"]
        io_catch_def io_modify_def io_return_def log_world_def Let_def)
  ultimately show thesis using that c ctx iso_now same new by auto
qed


definition rate_of :: "'s log_ingest_options \<Rightarrow> rate_limit_options" where
  "rate_of options = (case li_rate_limit options of Some r \<Rightarrow> r | None \<Rightarrow> default_rate_limit)"

definition limiter_key :: "'s log_ingest_options \<Rightarrow> request \<Rightarrow> string" where
  "limiter_key options req = (case peer_address req (li_client_address options) of Some i \<Rightarrow> i | None \<Rightarrow> ''unknown'')"

text \<open>The part of the handler behind the limiter.\<close>

definition ingest_body ::
    "'s log_host \<Rightarrow> 's log_ingest_options \<Rightarrow> request \<Rightarrow> ('s, response) io" where
  "ingest_body lh options req =
     (let limits = ingest_limits_of options in
      io_bind (io_catch (io_bind (lh_read_body lh req) (\<lambda>b. io_return (Some b))) (\<lambda>_. io_return None)) (\<lambda>body.
        case body of
          None \<Rightarrow> io_return (log_reject 400 ''body could not be read'')
        | Some b \<Rightarrow>
            if log_byte_length b > max_body_bytes limits then io_return (log_reject 413 ''batch is too large'')
            else
              (case json_parse b of
                 None \<Rightarrow> io_return (log_reject 400 ''body is not JSON'')
               | Some decoded \<Rightarrow>
                   (case parse_log_batch (lh_date_parse lh) decoded limits of
                      Inl reason \<Rightarrow> io_return (log_reject 400 reason)
                    | Inr batch \<Rightarrow>
                        io_bind (case li_authorize options of None \<Rightarrow> io_return True | Some f \<Rightarrow> f req batch) (\<lambda>authorized.
                        if \<not> authorized then io_return (log_reject 403 ''request is not authorized'')
                        else deliver_batch lh options req (peer_address req (li_client_address options)) batch)))))"

lemma ingest_handler_steps:
  "create_log_ingest_handler lh limiter options req =
     (if req_method req \<noteq> ''POST'' then io_return (log_reject 405 ''method not allowed'')
      else if \<not> origin_allowed req (li_allowed_origins options) then io_return (log_reject 403 ''origin not allowed'')
      else
        io_bind (io_gets (lh_now lh)) (\<lambda>now.
        io_bind (limiter_allow limiter (rate_of options) (limiter_key options req) now) (\<lambda>within_limit.
        if \<not> within_limit then io_return (log_reject 429 ''too many log batches'')
        else if (case h_get (req_headers req) ''content-length'' of
                   Some declared \<Rightarrow> number_above (js_to_number declared) (max_body_bytes (ingest_limits_of options)) | None \<Rightarrow> False)
        then io_return (log_reject 413 ''batch is too large'')
        else ingest_body lh options req)))"
  unfolding create_log_ingest_handler_def ingest_body_def Let_def rate_of_def limiter_key_def ..

lemma ingest_body_effect:
  assumes world: "log_world delivered lh limiter options" and run: "ingest_body lh options req s = (r, s')"
    and new: "delivered s' \<noteq> delivered s"
  obtains b s1 decoded batch s2 where "lh_read_body lh req s = (Inr b, s1)"
    "log_byte_length b \<le> max_body_bytes (ingest_limits_of options)" "json_parse b = Some decoded"
    "parse_log_batch (lh_date_parse lh) decoded (ingest_limits_of options) = Inr batch"
    "(case li_authorize options of None \<Rightarrow> io_return True | Some f \<Rightarrow> f req batch) s1 = (Inr True, s2)"
    "deliver_batch lh options req (peer_address req (li_client_address options)) batch s2 = (r, s')"
    "delivered s2 = delivered s"
proof -
  obtain c s1 where read: "lh_read_body lh req s = (c, s1)" by fastforce
  have "quiet delivered (lh_read_body lh req)" using world by (simp add: log_world_def)
  from quietD [OF this read] have same: "delivered s1 = delivered s" .
  obtain b where b: "c = Inr b"
    using run new same read by (cases c) (auto simp: ingest_body_def io_bind_def io_catch_def io_return_def Let_def)
  have size: "log_byte_length b \<le> max_body_bytes (ingest_limits_of options)"
    using run new same read b
    by (cases "log_byte_length b \<le> max_body_bytes (ingest_limits_of options)")
      (auto simp: ingest_body_def io_bind_def io_catch_def io_return_def Let_def)
  obtain decoded where decoded: "json_parse b = Some decoded"
    using run new same read b size
    by (cases "json_parse b") (auto simp: ingest_body_def io_bind_def io_catch_def io_return_def Let_def)
  obtain batch where batch: "parse_log_batch (lh_date_parse lh) decoded (ingest_limits_of options) = Inr batch"
    using run new same read b size decoded
    by (cases "parse_log_batch (lh_date_parse lh) decoded (ingest_limits_of options)")
      (auto simp: ingest_body_def io_bind_def io_catch_def io_return_def Let_def)
  let ?auth = "case li_authorize options of None \<Rightarrow> io_return True | Some f \<Rightarrow> f req batch"
  have rest: "io_bind ?auth (\<lambda>authorized.
      if \<not> authorized then io_return (log_reject 403 ''request is not authorized'')
      else deliver_batch lh options req (peer_address req (li_client_address options)) batch) s1 = (r, s')"
  proof -
    have "io_catch (io_bind (lh_read_body lh req) (\<lambda>b. io_return (Some b))) (\<lambda>_. io_return None) s = (Inr (Some b), s1)"
      using read b by (simp add: io_bind_def io_catch_def io_return_def)
    with run show ?thesis using size decoded batch by (simp add: ingest_body_def io_bind_Inr Let_def)
  qed
  have "quiet delivered ?auth" using world by (auto simp: log_world_def intro: quiet_intros split: option.split)
  moreover obtain a s2 where a: "?auth s1 = (a, s2)" by fastforce
  ultimately have same2: "delivered s2 = delivered s1" by (rule quietD)
  have "a = Inr True"
    using rest new same same2 a by (cases a) (auto simp: io_bind_def io_return_def split: if_split_asm)
  with that [OF read [unfolded b] size decoded batch] rest a same same2 show thesis by (simp add: io_bind_def)
qed

text \<open>The state behind the limiter: the request is counted.\<close>

definition counted :: "'s log_host \<Rightarrow> ('s, windows) cell \<Rightarrow> 's log_ingest_options \<Rightarrow> request \<Rightarrow> 's \<Rightarrow> 's" where
  "counted lh limiter options req s =
     cell_put limiter (snd (allow_request (rate_of options) (cell_get limiter s) (limiter_key options req) (lh_now lh s))) s"

lemma ingest_effect:
  assumes world: "log_world delivered lh limiter options"
    and run: "create_log_ingest_handler lh limiter options req s = (r, s')" and new: "delivered s' \<noteq> delivered s"
  obtains "req_method req = ''POST''" "origin_allowed req (li_allowed_origins options)"
    "fst (allow_request (rate_of options) (cell_get limiter s) (limiter_key options req) (lh_now lh s))"
    "ingest_body lh options req (counted lh limiter options req s) = (r, s')" "delivered (counted lh limiter options req s) = delivered s"
proof -
  have guards: "req_method req = ''POST''" "origin_allowed req (li_allowed_origins options)"
    using run new by (auto simp: ingest_handler_steps io_return_def split: if_split_asm)
  let ?a = "allow_request (rate_of options) (cell_get limiter s) (limiter_key options req) (lh_now lh s)"
  have same: "delivered (counted lh limiter options req s) = delivered s" using world by (simp add: log_world_def counted_def)
  show thesis
  proof (rule that [OF guards])
    show "fst ?a" "ingest_body lh options req (counted lh limiter options req s) = (r, s')"
      using run new same unfolding counted_def
      by (simp_all add: ingest_handler_steps guards limiter_allow_def io_bind_def io_gets_def io_lift_def io_return_def
          case_prod_beta split: if_split_asm)
  qed (rule same)
qed


subsection \<open>Properties\<close>

text \<open>
  C16: What the ingest route hands its sink. Records reach it only from a POST of an allowed origin, within
  the caller's request limit, with the body that was read within its limit and a batch that parses from it
  within the limits, and only after the host's authorization said yes to that batch. The records are those
  of the batch's events, in order: each has the configured service, the time at which the host's identity was
  resolved as its receipt time, the event's own name (well formed) and level, the caller's address and the
  identity the host resolved, never the page's own claim. In its attributes no path of at most five member
  names that ends in a name to be scrubbed holds anything but the mark (arrays are not entered, deeper
  objects and the event's error are passed as they came).
\<close>

theorem sink_takes_only_vetted_records:
  assumes "log_world delivered lh limiter options"
    and "create_log_ingest_handler lh limiter options req s = (r, s')" "delivered s' \<noteq> delivered s"
  shows "\<exists>body decoded batch ctx now_iso rs s1 s2 s3.
      req_method req = ''POST'' \<and> origin_allowed req (li_allowed_origins options)
    \<and> fst (allow_request (rate_of options) (cell_get limiter s) (limiter_key options req) (lh_now lh s))
    \<and> lh_read_body lh req (counted lh limiter options req s) = (Inr body, s1)
    \<and> log_byte_length body \<le> max_body_bytes (ingest_limits_of options) \<and> json_parse body = Some decoded
    \<and> parse_log_batch (lh_date_parse lh) decoded (ingest_limits_of options) = Inr batch
    \<and> (case li_authorize options of None \<Rightarrow> io_return True | Some f \<Rightarrow> f req batch) s1 = (Inr True, s2)
    \<and> (case li_context options of Some f \<Rightarrow> f req | None \<Rightarrow> io_return \<lparr>lc_user_id = None, lc_tenant_id = None\<rparr>) s2 = (Inr ctx, s3)
    \<and> to_iso_string (lh_now lh s3) = Inr now_iso
    \<and> delivered s' = delivered s @ rs
    \<and> map (\<lambda>rec. (sr_event rec, sr_level rec, sr_client_ts rec)) rs = map (\<lambda>e. (le_event e, le_level e, le_ts e)) (lb_events batch)
    \<and> int (length rs) \<le> max_events_per_batch (ingest_limits_of options)
    \<and> (\<forall>rec \<in> set rs. sr_service rec = li_service options \<and> sr_ts rec = now_iso
         \<and> sr_client_ip rec = peer_address req (li_client_address options)
         \<and> sr_user_id rec = lc_user_id ctx \<and> sr_tenant_id rec = lc_tenant_id ctx
         \<and> is_valid_event_name (sr_event rec) (max_event_name_length (ingest_limits_of options))
         \<and> (\<forall>path v. path \<noteq> [] \<and> length path \<le> max_redact_depth + 1 \<and> j_path (JObj (sr_attrs rec)) path = Some v
              \<and> is_redacted_key (last path) (case li_redact options of Some ks \<Rightarrow> ks | None \<Rightarrow> default_redact_keys)
              \<longrightarrow> v = JStr redacted_text))"
proof -
  let ?s0 = "counted lh limiter options req s"
  obtain guards: "req_method req = ''POST''" "origin_allowed req (li_allowed_origins options)"
    "fst (allow_request (rate_of options) (cell_get limiter s) (limiter_key options req) (lh_now lh s))"
    and body: "ingest_body lh options req ?s0 = (r, s')" and same: "delivered ?s0 = delivered s"
    by (rule ingest_effect [OF assms])
  have "delivered s' \<noteq> delivered ?s0" using assms(3) same by simp
  then obtain b s1 decoded batch s2 where read: "lh_read_body lh req ?s0 = (Inr b, s1)"
    and b: "log_byte_length b \<le> max_body_bytes (ingest_limits_of options)"
    "json_parse b = Some decoded" "parse_log_batch (lh_date_parse lh) decoded (ingest_limits_of options) = Inr batch"
    and auth: "(case li_authorize options of None \<Rightarrow> io_return True | Some f \<Rightarrow> f req batch) s1 = (Inr True, s2)"
    and rest: "deliver_batch lh options req (peer_address req (li_client_address options)) batch s2 = (r, s')"
    and same2: "delivered s2 = delivered ?s0"
    by (rule ingest_body_effect [OF assms(1) body])
  have "delivered s' \<noteq> delivered s2" using assms(3) same same2 by simp
  then obtain ctx s3 now_iso where ctx: "(case li_context options of Some f \<Rightarrow> f req
        | None \<Rightarrow> io_return \<lparr>lc_user_id = None, lc_tenant_id = None\<rparr>) s2 = (Inr ctx, s3)"
    and at: "to_iso_string (lh_now lh s3) = Inr now_iso"
    and rs: "delivered s' = delivered s2 @ map (\<lambda>e. to_server_record e
        (request_stamp options req (peer_address req (li_client_address options)) now_iso ctx)) (lb_events batch)"
    by (rule deliver_batch_effect [OF assms(1) rest])
  have ok: "int (length (lb_events batch)) \<le> max_events_per_batch (ingest_limits_of options)"
    "list_all (event_ok (lh_date_parse lh) (ingest_limits_of options)) (lb_events batch)"
    using parse_log_batch_ok [OF b(3)] by blast+
  let ?rs = "map (\<lambda>e. to_server_record e
        (request_stamp options req (peer_address req (li_client_address options)) now_iso ctx)) (lb_events batch)"
  show ?thesis
  proof (rule exI [of _ b], rule exI [of _ decoded], rule exI [of _ batch], rule exI [of _ ctx], rule exI [of _ now_iso],
      rule exI [of _ ?rs], rule exI [of _ s1], rule exI [of _ s2], rule exI [of _ s3],
      intro conjI guards read b auth ctx at ballI)
    show "delivered s' = delivered s @ ?rs" using rs same same2 by simp
    fix rec
    assume "rec \<in> set ?rs"
    then obtain e where e: "rec = to_server_record e
        (request_stamp options req (peer_address req (li_client_address options)) now_iso ctx)" "e \<in> set (lb_events batch)" by auto
    show "sr_service rec = li_service options" "sr_ts rec = now_iso" "sr_user_id rec = lc_user_id ctx"
      "sr_client_ip rec = peer_address req (li_client_address options)" "sr_tenant_id rec = lc_tenant_id ctx"
      by (simp_all add: e(1) to_server_record_def request_stamp_def)
    show "is_valid_event_name (sr_event rec) (max_event_name_length (ingest_limits_of options))"
      using ok(2) e by (simp add: list_all_iff event_ok_def to_server_record_def)
    show "\<forall>path v. path \<noteq> [] \<and> length path \<le> max_redact_depth + 1 \<and> j_path (JObj (sr_attrs rec)) path = Some v
              \<and> is_redacted_key (last path) (case li_redact options of Some ks \<Rightarrow> ks | None \<Rightarrow> default_redact_keys)
              \<longrightarrow> v = JStr redacted_text"
      by (intro allI impI, elim conjE, rule redacted_path [where depth = 0])
        (simp_all add: e(1) to_server_record_def request_stamp_def)
  qed (simp_all add: ok(1) to_server_record_def)
qed


text \<open>A page at work: the state is the limiter's map and what the sink has taken.\<close>

definition demo_log_host :: "(windows \<times> server_log_record list) log_host" where
  "demo_log_host =
     \<lparr>lh_now = (\<lambda>_. 1700000000000), lh_date_parse = (\<lambda>t. if t = ''now'' then Some 0 else None),
      lh_fetch = (\<lambda>_ s. (Faulted (new_error ''down'') False, s)), lh_log = (\<lambda>_ s. s), lh_warn = (\<lambda>_ _ _ s. s),
      lh_stack = (\<lambda>_. None), lh_read_body = (\<lambda>req. io_return (req_body req))\<rparr>"

definition demo_windows :: "(windows \<times> server_log_record list, windows) cell" where
  "demo_windows = \<lparr>cell_get = fst, cell_put = (\<lambda>ws s. (ws, snd s))\<rparr>"

definition demo_log_options :: "(windows \<times> server_log_record list) log_ingest_options" where
  "demo_log_options =
     \<lparr>li_service = ''wallow-web'', li_allowed_origins = OriginList [''https://app.test''], li_otlp_endpoint = None,
      li_limits = None, li_rate_limit = None, li_redact = None, li_client_address = Some req_ip,
      li_authorize = Some (\<lambda>_ b. io_return (lb_csrf_token b = Some ''t'')),
      li_context = Some (\<lambda>_. io_return \<lparr>lc_user_id = Some ''u1'', lc_tenant_id = None\<rparr>),
      li_sink = Some (\<lambda>rs. io_return (io_modify (\<lambda>s. (fst s, snd s @ rs))))\<rparr>"

definition demo_log_body :: json where
  "demo_log_body = JObj [(''events'', JArr [JObj [(''ts'', JStr ''now''), (''level'', JStr ''info''), (''event'', JStr ''form.sent''),
      (''attrs'', JObj [(''userId'', JStr ''u2''), (''email'', JStr ''a'')])]]), (''csrfToken'', JStr ''t'')]"

definition demo_log_request :: request where
  "demo_log_request =
     \<lparr>req_method = ''POST'',
      req_url = \<lparr>protocol = ''https:'', host = ''app.test'', pathname = ''/bff/logs'', search = '''', search_params = []\<rparr>,
      req_headers = h_of [(''origin'', ''https://app.test'')], req_body = json_print demo_log_body, req_ip = Some ''192.0.2.7''\<rparr>"

lemma demo_log_world: "log_world snd demo_log_host demo_windows demo_log_options"
  by (auto simp: log_world_def demo_log_host_def demo_windows_def demo_log_options_def ingest_sink_def io_simps
      intro: quiet_intros)

lemma demo_log_run:
  "snd (snd (create_log_ingest_handler demo_log_host demo_windows demo_log_options demo_log_request ([], []))) \<noteq> []"
  by code_simp


lemma sink_takes_only_vetted_records_witness:
  "\<exists>rs. snd (snd (create_log_ingest_handler demo_log_host demo_windows demo_log_options demo_log_request ([], []))) = rs
    \<and> rs \<noteq> [] \<and> (\<forall>rec \<in> set rs. sr_user_id rec = Some ''u1'' \<and> sr_client_ip rec = Some ''192.0.2.7''
         \<and> (\<forall>v. j_path (JObj (sr_attrs rec)) [''email''] = Some v \<longrightarrow> v = JStr redacted_text))"
proof -
  obtain r s' where run: "create_log_ingest_handler demo_log_host demo_windows demo_log_options demo_log_request ([], []) = (r, s')"
    by (rule prod.exhaust)
  have "snd s' \<noteq> snd ([], [])" using demo_log_run run by simp
  from sink_takes_only_vetted_records [OF demo_log_world run this] obtain ctx rs s2 s3 where rs:
    "(case li_context demo_log_options of Some f \<Rightarrow> f demo_log_request
        | None \<Rightarrow> io_return \<lparr>lc_user_id = None, lc_tenant_id = None\<rparr>) s2 = (Inr ctx, s3)"
    "snd s' = snd ([] :: windows, []) @ rs"
    "\<forall>rec \<in> set rs. sr_client_ip rec = peer_address demo_log_request (li_client_address demo_log_options)
       \<and> sr_user_id rec = lc_user_id ctx
       \<and> (\<forall>path v. path \<noteq> [] \<and> length path \<le> max_redact_depth + 1 \<and> j_path (JObj (sr_attrs rec)) path = Some v
            \<and> is_redacted_key (last path) (case li_redact demo_log_options of Some ks \<Rightarrow> ks | None \<Rightarrow> default_redact_keys)
            \<longrightarrow> v = JStr redacted_text)"
    by blast
  have "lc_user_id ctx = Some ''u1''" using rs(1) by (auto simp: demo_log_options_def io_return_def)
  moreover have "peer_address demo_log_request (li_client_address demo_log_options) = Some ''192.0.2.7''" by code_simp
  moreover have "is_redacted_key ''email'' (case li_redact demo_log_options of Some ks \<Rightarrow> ks | None \<Rightarrow> default_redact_keys)"
    by code_simp
  ultimately have each: "sr_user_id rec = Some ''u1'' \<and> sr_client_ip rec = Some ''192.0.2.7''
      \<and> (\<forall>v. j_path (JObj (sr_attrs rec)) [''email''] = Some v \<longrightarrow> v = JStr redacted_text)" if "rec \<in> set rs" for rec
    using bspec [OF rs(3) that]
    by (elim conjE allE [of _ "[''email'']"]) (simp add: max_redact_depth_def del: j_path.simps)
  have "snd s' = rs" using rs(2) by simp
  then show ?thesis using each demo_log_run run by (intro exI [of _ rs]) simp
qed


lemma to_attributes_keys: "fst ` set (to_attributes kvs) \<subseteq> fst ` set kvs"
proof
  fix k
  assume "k \<in> fst ` set (to_attributes kvs)"
  then obtain v where "(k, v) \<in> set (to_attributes kvs)" by auto
  then obtain w where "(k, Some w) \<in> set kvs" by (auto simp: to_attributes_def split: option.splits)
  then show "k \<in> fst ` set kvs" by force
qed

lemma obj_get_to_attributes:
  "obj_wf kvs \<Longrightarrow> obj_get (to_attributes kvs) k = (case obj_get kvs k of Some (Some v) \<Rightarrow> Some (to_any_value v) | _ \<Rightarrow> None)"
proof (induction kvs)
  case (Cons e kvs)
  obtain k' v where e: "e = (k', v)" by fastforce
  have rest: "obj_wf kvs" "k' \<notin> fst ` set kvs" using Cons.prems e by (simp_all add: obj_wf_def)
  then have "obj_get (to_attributes kvs) k' = None"
    using to_attributes_keys [of kvs] by (auto simp: obj_get_None_iff)
  moreover have "to_attributes (e # kvs) = (case v of Some w \<Rightarrow> [(k', to_any_value w)] | None \<Rightarrow> []) @ to_attributes kvs"
    by (simp add: to_attributes_def e)
  ultimately show ?case using Cons.IH [OF rest(1)] by (cases v) (auto simp: e)
qed (simp add: to_attributes_def)

lemma redact_attrs_wf: "obj_wf ms \<Longrightarrow> obj_wf (redact_attrs ms ks depth)"
proof (induction ms)
  case (Cons m ms)
  obtain k v where m: "m = (k, v)" by fastforce
  have rest: "obj_wf ms" "obj_get ms k = None" using Cons.prems m by (auto simp: obj_wf_def obj_get_None_iff)
  then have "obj_get (redact_attrs ms ks depth) k = None" using redact_attrs_get [of ms ks depth k] by simp
  then have "k \<notin> fst ` set (redact_attrs ms ks depth)" unfolding obj_get_None_iff .
  with Cons.IH [OF rest(1)] show ?case by (cases v) (simp_all add: m obj_wf_def)
qed simp

lemma obj_wf_map_some: "obj_wf ms \<Longrightarrow> obj_wf (map (\<lambda>(k, v). (k, Some v)) ms)"
  by (simp add: obj_wf_def comp_def case_prod_beta)

lemma obj_get_map_some: "obj_get (map (\<lambda>(k, v). (k, Some v)) ms) k = map_option Some (obj_get ms k)"
  by (induction ms) auto

text \<open>
  A page cannot name itself to the collector. In the encoding of a record made from an event, the user,
  the tenant, the address and the event name are what the server stamped, absent where it stamped none,
  whatever attributes of those names the event carries; an attribute of any other name arrives as scrubbed.
\<close>

lemma collector_sees_stamped_identity:
  assumes "obj_wf (le_attrs e)"
  shows "obj_get (otlp_attributes (to_server_record e st)) ''enduser.id'' = map_option (to_any_value \<circ> JStr) (lc_user_id (st_context st))
    \<and> obj_get (otlp_attributes (to_server_record e st)) ''wallow.tenant_id''
        = map_option (to_any_value \<circ> JStr) (lc_tenant_id (st_context st))
    \<and> obj_get (otlp_attributes (to_server_record e st)) ''client.address'' = map_option (to_any_value \<circ> JStr) (st_client_ip st)
    \<and> obj_get (otlp_attributes (to_server_record e st)) ''event.name'' = Some (to_any_value (JStr (le_event e)))
    \<and> (k \<notin> {''event.name'', ''wallow.correlation_id'', ''client.address'', ''enduser.id'', ''wallow.tenant_id'',
            ''exception.type'', ''exception.message'', ''exception.stacktrace''}
       \<longrightarrow> obj_get (otlp_attributes (to_server_record e st)) k
            = map_option to_any_value (obj_get (redact_attrs (le_attrs e) (st_redact st) 0) k))"
proof -
  let ?r = "to_server_record e st"
  let ?attrs = "map (\<lambda>(k, v). (k, Some v)) (sr_attrs ?r)"
  let ?own = "[(''event.name'', Some (JStr (sr_event ?r))),
        (''wallow.correlation_id'', sr_correlation_id ?r),
        (''client.address'', map_option JStr (sr_client_ip ?r)),
        (''enduser.id'', map_option JStr (sr_user_id ?r)),
        (''wallow.tenant_id'', map_option JStr (sr_tenant_id ?r)),
        (''exception.type'', error_member ?r ''name''),
        (''exception.message'', error_member ?r ''message''),
        (''exception.stacktrace'', error_member ?r ''stack'')]"
  have wf: "obj_wf ?attrs"
    using redact_attrs_wf [OF assms] by (intro obj_wf_map_some) (simp add: to_server_record_def)
  have own: "obj_wf ?own" by (simp add: obj_wf_def)
  have get: "obj_get (otlp_attributes ?r) n = (case obj_get ?own n of Some (Some v) \<Rightarrow> Some (to_any_value v) | Some None \<Rightarrow> None
      | None \<Rightarrow> map_option to_any_value (obj_get (sr_attrs ?r) n))" for n
    unfolding otlp_attributes_def obj_get_to_attributes [OF obj_wf_spread [OF wf]] obj_get_spread [OF own] obj_get_map_some
    by (cases "obj_get ?own n"; cases "obj_get (sr_attrs ?r) n") (auto split: option.splits)
  show ?thesis
    unfolding get by (simp add: to_server_record_def option.map_comp split: option.splits)
qed

lemma collector_sees_stamped_identity_witness:
  "obj_get (otlp_attributes (to_server_record
      \<lparr>le_ts = ''now'', le_level = LevelInfo, le_event = ''form.sent'', le_attrs = [(''enduser.id'', JStr ''admin''), (''step'', JNum 2)],
       le_correlation_id = None, le_error = None\<rparr>
      \<lparr>st_service = ''web'', st_now_iso = ''t'', st_redact = [], st_fallback_correlation_id = None, st_client_ip = None,
       st_context = \<lparr>lc_user_id = None, lc_tenant_id = None\<rparr>\<rparr>)) ''enduser.id'' = None"
  by (subst collector_sees_stamped_identity [THEN conjunct1]) (simp_all add: obj_wf_def)

text \<open>Each record goes into the group of its service, in order.\<close>

lemma group_by_service_groups:
  assumes "obj_wf groups" "\<forall>(k, b) \<in> set groups. b \<noteq> [] \<and> (\<forall>r \<in> set b. sr_service r = k)"
  shows "obj_wf (group_by_service groups rs)
    \<and> (\<forall>k. (case obj_get (group_by_service groups rs) k of Some b \<Rightarrow> b | None \<Rightarrow> [])
         = (case obj_get groups k of Some b \<Rightarrow> b | None \<Rightarrow> []) @ filter (\<lambda>r. sr_service r = k) rs)"
  using assms
proof (induction rs arbitrary: groups)
  case (Cons r rs)
  let ?k = "sr_service r"
  let ?b = "(case obj_get groups ?k of Some b \<Rightarrow> b | None \<Rightarrow> []) @ [r]"
  have step: "group_by_service groups (r # rs) = group_by_service (obj_set groups ?k ?b) rs"
    by (simp split: option.split)
  have "\<forall>r \<in> set ?b. sr_service r = ?k"
  proof (cases "obj_get groups ?k")
    case (Some b)
    from bspec [OF Cons.prems(2) obj_get_in_set [OF Some]] have "\<forall>r \<in> set b. sr_service r = ?k" by simp
    with Some show ?thesis by simp
  qed simp
  then have bucket: "case (?k, ?b) of (k, b) \<Rightarrow> b \<noteq> [] \<and> (\<forall>r \<in> set b. sr_service r = k)" by simp
  have "\<forall>(k, b) \<in> set (obj_set groups ?k ?b). b \<noteq> [] \<and> (\<forall>r \<in> set b. sr_service r = k)"
  proof
    fix e
    assume "e \<in> set (obj_set groups ?k ?b)"
    from in_obj_set [OF this] show "case e of (k, b) \<Rightarrow> b \<noteq> [] \<and> (\<forall>r \<in> set b. sr_service r = k)"
    proof
      assume "e = (?k, ?b)"
      then show ?thesis by (simp only: bucket)
    qed (rule bspec [OF Cons.prems(2)])
  qed
  note ih = Cons.IH [OF obj_wf_set [OF Cons.prems(1)] this]
  have "(case obj_get (obj_set groups ?k ?b) k of Some b \<Rightarrow> b | None \<Rightarrow> []) @ filter (\<lambda>r. sr_service r = k) rs
    = (case obj_get groups k of Some b \<Rightarrow> b | None \<Rightarrow> []) @ filter (\<lambda>r. sr_service r = k) (r # rs)" for k
    by (cases "k = ?k") simp_all
  with ih show ?case unfolding step by (simp only: simp_thms)
qed simp


text \<open>A signed-in page's batch is authorized by the session's own token, from the header or, in a beacon, from the body.\<close>

lemma authorize_log_batch_iff:
  assumes "session_for pl get_bff_server req s = (Inr (Some sess), s')" "csrf_token sess = Some expected"
  shows "authorize_log_batch pl get_bff_server req batch s
    = (Inr (expected \<noteq> '''' \<and> (case h_get (req_headers req) csrf_header of Some t \<Rightarrow> t = expected
         | None \<Rightarrow> lb_csrf_token batch = Some expected)), s')"
  using assms by (auto simp: authorize_log_batch_def io_bind_def io_return_def csrf_token_matches_iff split: option.splits)

end
