(* ===== verification/BrowserLog.thy ===== *)
theory BrowserLog
  imports LogIngest
begin

section \<open>The browser's logger (\<open>packages/logger/src/index.ts\<close>)\<close>

text \<open>
  The buffer a page's loggers share, the batches it is sent in, and what is dropped, and when. The page
  is a record of operations over the state; the mutable core of a logger is a variable of that state, so
  an operation of the page (a \<open>fetch\<close> that is awaited) may change it too.
\<close>

subsection \<open>Options and core\<close>

record 's page =
  pg_now :: "'s \<Rightarrow> int"
  pg_fetch :: "fetch_request \<Rightarrow> 's \<Rightarrow> fetch_outcome \<times> 's"
  pg_beacon :: "string \<Rightarrow> string \<Rightarrow> 's \<Rightarrow> bool \<times> 's"
  pg_warn :: "string \<Rightarrow> thrown option \<Rightarrow> log_event list \<Rightarrow> 's \<Rightarrow> 's"
  pg_stack :: "thrown \<Rightarrow> string option"
  pg_in_browser :: bool
  pg_hidden :: "'s \<Rightarrow> bool"

record 's logger_options =
  lo_service :: string
  lo_endpoint :: string
  lo_level :: "log_level option"
  lo_get_correlation_id :: "('s \<Rightarrow> string option) option"
  lo_get_csrf_token :: "('s \<Rightarrow> string option) option"
  lo_redact :: "string list option"
  lo_attrs :: "((string \<times> json) list) option"
  lo_max_buffered_events :: "int option"
  lo_flush_at_events :: "int option"
  lo_flush_interval_ms :: "int option"
  lo_transport_backoff_ms :: "int option"
  lo_max_body_bytes :: "int option"

record logger_core =
  co_buffer :: "log_event list"
  co_dropped :: int
  co_disabled_until :: int
  co_timer :: bool
  co_listening :: bool

definition default_max_buffered_events :: int where "default_max_buffered_events = 200"
definition default_flush_at_events :: int where "default_flush_at_events = 20"
definition default_flush_interval_ms :: int where "default_flush_interval_ms = 5000"
definition default_transport_backoff_ms :: int where "default_transport_backoff_ms = 30000"
definition default_max_body_bytes :: int where "default_max_body_bytes = 65536"

definition with_default :: "'a option \<Rightarrow> 'a \<Rightarrow> 'a" where
  "with_default v d = (case v of Some x \<Rightarrow> x | None \<Rightarrow> d)"

definition dropped_event :: string where "dropped_event = ''logger.dropped''"

text \<open>The browser's copy of the normalization of errors is the server's.\<close>

definition to_log_event_error :: "(thrown \<Rightarrow> string option) \<Rightarrow> thrown option \<Rightarrow> json option" where
  "to_log_event_error stack error = to_record_error stack error"

text \<open>\<open>JSON.stringify(batch)\<close>\<close>

definition log_event_to_json :: "log_event \<Rightarrow> json" where
  "log_event_to_json e =
     JObj ([(''ts'', JStr (le_ts e)), (''level'', JStr (level_text (le_level e))), (''event'', JStr (le_event e)),
            (''attrs'', JObj (le_attrs e))]
       @ opt_member ''correlationId'' (le_correlation_id e) @ opt_member ''error'' (le_error e))"

definition log_batch_to_json :: "log_batch \<Rightarrow> json" where
  "log_batch_to_json b =
     JObj ([(''events'', JArr (map log_event_to_json (lb_events b)))] @ opt_member ''csrfToken'' (map_option JStr (lb_csrf_token b)))"

subsection \<open>Draining and sending\<close>

text \<open>What is buffered, behind a report of what was dropped, if anything was.\<close>

definition drain_buffer :: "'s page \<Rightarrow> ('s, logger_core) cell \<Rightarrow> ('s, log_event list) io" where
  "drain_buffer page core =
     io_bind (io_gets (cell_get core)) (\<lambda>c.
     io_bind (io_modify (cell_put core (c\<lparr>co_buffer := []\<rparr>))) (\<lambda>_.
     if co_dropped c = 0 then io_return (co_buffer c)
     else
       io_bind (io_modify (cell_put core (c\<lparr>co_buffer := [], co_dropped := 0\<rparr>))) (\<lambda>_.
       io_bind (io_gets (pg_now page)) (\<lambda>now.
       io_bind (io_of (to_iso_string now)) (\<lambda>ts.
       io_return (\<lparr>le_ts = ts, le_level = LevelWarn, le_event = dropped_event, le_attrs = [(''count'', JNum (co_dropped c))],
                   le_correlation_id = None, le_error = None\<rparr> # co_buffer c))))))"

definition report_transport_failure ::
    "'s page \<Rightarrow> 's logger_options \<Rightarrow> ('s, logger_core) cell \<Rightarrow> log_event list \<Rightarrow> thrown \<Rightarrow> ('s, unit) io" where
  "report_transport_failure page options core events cause =
     io_bind (io_gets (\<lambda>s. (pg_now page s, cell_get core s))) (\<lambda>(now, c).
     io_bind (io_modify (cell_put core (c\<lparr>co_disabled_until :=
        now + with_default (lo_transport_backoff_ms options) default_transport_backoff_ms\<rparr>))) (\<lambda>_.
     io_modify (pg_warn page (lo_service options @ '': log transport failed, backing off'') (Some cause) events)))"

definition csrf_token_of :: "'s logger_options \<Rightarrow> 's \<Rightarrow> string option" where
  "csrf_token_of options s = (case lo_get_csrf_token options of Some f \<Rightarrow> f s | None \<Rightarrow> None)"

definition body_cap :: "'s logger_options \<Rightarrow> int" where
  "body_cap options = with_default (lo_max_body_bytes options) default_max_body_bytes"

definition batch_body :: "log_event list \<Rightarrow> string" where
  "batch_body events = json_print (log_batch_to_json \<lparr>lb_events = events, lb_csrf_token = None\<rparr>)"

definition send_body :: "'s page \<Rightarrow> 's logger_options \<Rightarrow> string option \<Rightarrow> string \<Rightarrow> ('s, unit) io" where
  "send_body page options token body =
     io_bind (io_lift (pg_fetch page
        \<lparr>fetch_url = lo_endpoint options, fetch_method = ''POST'',
         fetch_headers = h_of ([(''content-type'', ''application/json'')]
           @ (case token of Some t \<Rightarrow> if t = '''' then [] else [(''x-csrf-token'', t)] | None \<Rightarrow> [])),
         fetch_body = Some body\<rparr>)) (\<lambda>outcome.
     case outcome of
       Faulted e timed_out \<Rightarrow> io_throw e
     | Fetched r \<Rightarrow>
         if \<not> resp_ok r then io_throw (new_error (''log ingest answered '' @ nat_to_string (status r))) else io_return ())"

function post_batch :: "'s page \<Rightarrow> 's logger_options \<Rightarrow> ('s, logger_core) cell \<Rightarrow> log_event list \<Rightarrow> ('s, unit) io"
  and post_split :: "'s page \<Rightarrow> 's logger_options \<Rightarrow> ('s, logger_core) cell \<Rightarrow> log_event list \<Rightarrow> ('s, unit) io" where
  "post_batch page options core events =
     io_bind (io_gets (csrf_token_of options)) (\<lambda>token.
     if log_byte_length (batch_body events) > body_cap options then post_split page options core events
     else send_body page options token (batch_body events))"
| "post_split page options core events =
     (if length events \<le> 1 then
        io_bind (io_modify (\<lambda>s. let c = cell_get core s in cell_put core (c\<lparr>co_dropped := co_dropped c + int (length events)\<rparr>) s)) (\<lambda>_.
        io_modify (pg_warn page (lo_service options @ '': log record exceeds the body cap, dropped'') None events))
      else
        io_bind (post_batch page options core (take (length events div 2) events)) (\<lambda>_.
        post_batch page options core (drop (length events div 2) events)))"
  by pat_completeness auto
termination
  by (relation "measure (\<lambda>x. case x of Inl (_, _, _, es) \<Rightarrow> 2 * length es + 1 | Inr (_, _, _, es) \<Rightarrow> 2 * length es)") (auto, presburger)

definition nothing_to_send :: "logger_core \<Rightarrow> bool" where
  "nothing_to_send c \<longleftrightarrow> co_buffer c = [] \<and> co_dropped c = 0"

definition flush_core :: "'s page \<Rightarrow> 's logger_options \<Rightarrow> ('s, logger_core) cell \<Rightarrow> ('s, unit) io" where
  "flush_core page options core =
     io_bind (io_gets (\<lambda>s. (pg_now page s, cell_get core s))) (\<lambda>(now, c).
     if nothing_to_send c then io_return ()
     else if now < co_disabled_until c then io_return ()
     else
       io_bind (drain_buffer page core) (\<lambda>events.
       io_catch (post_batch page options core events) (report_transport_failure page options core events)))"

definition flush_beacon :: "'s page \<Rightarrow> 's logger_options \<Rightarrow> ('s, logger_core) cell \<Rightarrow> ('s, unit) io" where
  "flush_beacon page options core =
     io_bind (io_gets (\<lambda>s. (pg_now page s, cell_get core s))) (\<lambda>(now, c).
     if nothing_to_send c then io_return ()
     else if now < co_disabled_until c then io_return ()
     else
       io_bind (drain_buffer page core) (\<lambda>events.
       io_bind (io_gets (csrf_token_of options)) (\<lambda>token.
       io_bind (io_lift (pg_beacon page (lo_endpoint options) (json_print (log_batch_to_json
          \<lparr>lb_events = events, lb_csrf_token = (if token = Some '''' then None else token)\<rparr>)))) (\<lambda>queued.
       if \<not> queued
       then io_modify (pg_warn page (lo_service options @ '': terminal log flush was not queued'') None events)
       else io_return ()))))"

subsection \<open>Recording\<close>

text \<open>The loop that drops the oldest events past the ceiling.\<close>

fun shed :: "int \<Rightarrow> log_event list \<Rightarrow> int \<Rightarrow> log_event list \<times> int" where
  "shed cap [] lost = ([], lost)"
| "shed cap (e # es) lost =
     (if int (length (e # es)) > cap then shed cap es (lost + 1) else (e # es, lost))"

definition buffer_event :: "int \<Rightarrow> log_event \<Rightarrow> logger_core \<Rightarrow> logger_core" where
  "buffer_event cap e c =
     (let (b, d) = shed cap (co_buffer c @ [e]) (co_dropped c) in c\<lparr>co_buffer := b, co_dropped := d\<rparr>)"

definition buffer_ceiling :: "'s logger_options \<Rightarrow> int" where
  "buffer_ceiling options = with_default (lo_max_buffered_events options) default_max_buffered_events"

definition record_event ::
    "'s page \<Rightarrow> 's logger_options \<Rightarrow> ('s, logger_core) cell \<Rightarrow> (string \<times> json) list \<Rightarrow> log_level \<Rightarrow> string
      \<Rightarrow> ((string \<times> json) list) option \<Rightarrow> thrown option \<Rightarrow> ('s, unit) io" where
  "record_event page options core base level event attrs error =
     (if \<not> is_at_least level (with_default (lo_level options) LevelInfo) then io_return ()
      else
        io_bind (io_gets (\<lambda>s. (case lo_get_correlation_id options of Some f \<Rightarrow> f s | None \<Rightarrow> None))) (\<lambda>correlation.
        io_bind (io_gets (pg_now page)) (\<lambda>now.
        io_bind (io_of (to_iso_string now)) (\<lambda>ts.
        io_bind (io_modify (\<lambda>s. cell_put core (buffer_event (buffer_ceiling options)
          \<lparr>le_ts = ts, le_level = level, le_event = event,
           le_attrs = redact_attrs (obj_spread base (with_default attrs [])) (with_default (lo_redact options) default_redact_keys) 0,
           le_correlation_id = map_option JStr correlation, le_error = to_log_event_error (pg_stack page) error\<rparr>
          (cell_get core s)) s)) (\<lambda>_.
        io_bind (io_gets (cell_get core)) (\<lambda>c.
        if int (length (co_buffer c)) \<ge> with_default (lo_flush_at_events options) default_flush_at_events
        then flush_core page options core else io_return ()))))))"

subsection \<open>A logger's life\<close>

definition create_logger_core :: "'s page \<Rightarrow> 's logger_options \<Rightarrow> logger_core" where
  "create_logger_core page options =
     \<lparr>co_buffer = [], co_dropped = 0, co_disabled_until = 0,
      co_timer = (pg_in_browser page \<and> with_default (lo_flush_interval_ms options) default_flush_interval_ms > 0),
      co_listening = pg_in_browser page\<rparr>"

text \<open>A bound logger is its base attributes; a child overlays them over the same core.\<close>

definition bind_logger ::
    "'s page \<Rightarrow> 's logger_options \<Rightarrow> ('s, logger_core) cell \<Rightarrow> log_level \<Rightarrow> string
      \<Rightarrow> ((string \<times> json) list) option \<Rightarrow> thrown option \<Rightarrow> ('s, unit) io" where
  "bind_logger page options core = record_event page options core (with_default (lo_attrs options) [])"

definition child_logger_attrs :: "(string \<times> json) list \<Rightarrow> (string \<times> json) list \<Rightarrow> (string \<times> json) list" where
  "child_logger_attrs base attrs = obj_spread base attrs"

definition dispose_logger :: "('s, logger_core) cell \<Rightarrow> ('s, unit) io" where
  "dispose_logger core =
     io_modify (\<lambda>s. cell_put core ((cell_get core s)\<lparr>co_timer := False, co_listening := False\<rparr>) s)"

text \<open>What the page calls while the listeners and the timer are in place.\<close>

definition on_visibility_change :: "'s page \<Rightarrow> 's logger_options \<Rightarrow> ('s, logger_core) cell \<Rightarrow> ('s, unit) io" where
  "on_visibility_change page options core =
     io_bind (io_gets (\<lambda>s. co_listening (cell_get core s) \<and> pg_hidden page s)) (\<lambda>go.
     if go then flush_core page options core else io_return ())"

definition on_page_hide :: "'s page \<Rightarrow> 's logger_options \<Rightarrow> ('s, logger_core) cell \<Rightarrow> ('s, unit) io" where
  "on_page_hide page options core =
     io_bind (io_gets (\<lambda>s. co_listening (cell_get core s))) (\<lambda>go.
     if go then flush_beacon page options core else io_return ())"

definition on_interval :: "'s page \<Rightarrow> 's logger_options \<Rightarrow> ('s, logger_core) cell \<Rightarrow> ('s, unit) io" where
  "on_interval page options core =
     io_bind (io_gets (\<lambda>s. co_timer (cell_get core s))) (\<lambda>go.
     if go then flush_core page options core else io_return ())"


declare post_batch.simps [simp del] post_split.simps [simp del]

subsection \<open>Lemmas: the size of a batch\<close>

lemma utf8_length_append [simp]: "length (utf8_encode (a @ b)) = length (utf8_encode a) + length (utf8_encode b)"
  by (simp add: utf8_encode_def)

lemma utf8_length_join: "x \<in> set xs \<Longrightarrow> length (utf8_encode x) \<le> length (utf8_encode (js_join sep xs))"
proof (induction sep xs rule: js_join.induct)
  case (3 sep a b xs)
  then show ?case by (auto simp del: append.simps)
qed auto

definition fits :: "'s logger_options \<Rightarrow> log_event \<Rightarrow> bool" where
  "fits options e \<longleftrightarrow> log_byte_length (batch_body [e]) \<le> body_cap options"

definition batch_frame :: "string \<Rightarrow> string" where
  "batch_frame inner = (''{'' @ json_quote ''events'' @ '':['') @ inner @ '']}''"

lemma batch_body_frame: "batch_body es = batch_frame (js_join '','' (map (json_print \<circ> log_event_to_json) es))"
  by (simp add: batch_body_def log_batch_to_json_def opt_member_def batch_frame_def comp_def)

lemma batch_fits_each:
  assumes "log_byte_length (batch_body es) \<le> body_cap options" "e \<in> set es"
  shows "fits options e"
proof -
  have "length (utf8_encode (json_print (log_event_to_json e)))
      \<le> length (utf8_encode (js_join '','' (map (json_print \<circ> log_event_to_json) es)))"
    by (rule utf8_length_join) (use assms(2) in simp)
  then have "log_byte_length (batch_body [e]) \<le> log_byte_length (batch_body es)"
    unfolding log_byte_length_def batch_body_frame batch_frame_def by (simp only: utf8_length_append list.map js_join.simps comp_def)
  with assms(1) show ?thesis by (simp add: fits_def)
qed

subsection \<open>Lemmas: what a flush sends\<close>

text \<open>
  \<open>sent\<close> reads the bodies that left the page, \<open>posts\<close> the same with whether the route took each.
  Nothing records while a request is under way.
\<close>

definition page_world :: "('s \<Rightarrow> string list) \<Rightarrow> 's page \<Rightarrow> ('s, logger_core) cell \<Rightarrow> bool" where
  "page_world sent page core \<longleftrightarrow>
     cell_ok core \<and> (\<forall>c s. sent (cell_put core c s) = sent s)
     \<and> (\<forall>m e es s. sent (pg_warn page m e es s) = sent s \<and> cell_get core (pg_warn page m e es s) = cell_get core s)
     \<and> (\<forall>req s b. fetch_body req = Some b \<longrightarrow> sent (snd (pg_fetch page req s)) = sent s @ [b]
          \<and> cell_get core (snd (pg_fetch page req s)) = cell_get core s)"

definition taken :: "fetch_outcome \<Rightarrow> bool" where
  "taken outcome = (case outcome of Fetched r \<Rightarrow> resp_ok r | Faulted _ _ \<Rightarrow> False)"

definition page_posts :: "('s \<Rightarrow> (string \<times> bool) list) \<Rightarrow> 's page \<Rightarrow> ('s, logger_core) cell \<Rightarrow> bool" where
  "page_posts posts page core \<longleftrightarrow>
     cell_ok core \<and> (\<forall>c s. posts (cell_put core c s) = posts s)
     \<and> (\<forall>m e es s. posts (pg_warn page m e es s) = posts s \<and> cell_get core (pg_warn page m e es s) = cell_get core s)
     \<and> (\<forall>req s b. fetch_body req = Some b \<longrightarrow>
          posts (snd (pg_fetch page req s)) = posts s @ [(b, taken (fst (pg_fetch page req s)))]
          \<and> cell_get core (snd (pg_fetch page req s)) = cell_get core s)"

definition within_cap :: "'s logger_options \<Rightarrow> log_event list \<Rightarrow> bool" where
  "within_cap options es \<longleftrightarrow> log_byte_length (batch_body es) \<le> body_cap options"

text \<open>Every event that fits went out in \<open>groups\<close>, each of which the route took; the others are counted.\<close>

definition all_posted ::
    "('s \<Rightarrow> (string \<times> bool) list) \<Rightarrow> 's logger_options \<Rightarrow> ('s, logger_core) cell \<Rightarrow> log_event list \<Rightarrow> 's \<Rightarrow> 's \<Rightarrow> bool" where
  "all_posted posts options core events s s' \<longleftrightarrow>
     (\<exists>groups. posts s' = posts s @ map (\<lambda>g. (batch_body g, True)) groups
        \<and> (\<forall>g \<in> set groups. within_cap options g)
        \<and> concat groups = filter (fits options) events
        \<and> co_dropped (cell_get core s')
            = co_dropped (cell_get core s) + int (length (filter (\<lambda>e. \<not> fits options e) events))
        \<and> co_disabled_until (cell_get core s') = co_disabled_until (cell_get core s))"

text \<open>
  The route took \<open>groups\<close> and refused the batch \<open>last\<close>, posted in the state \<open>u\<close> by \<open>req\<close>; \<open>rest\<close> was
  never tried.
\<close>

definition refused_at ::
    "('s \<Rightarrow> (string \<times> bool) list) \<Rightarrow> 's page \<Rightarrow> 's logger_options \<Rightarrow> log_event list \<Rightarrow> 's
      \<Rightarrow> fetch_request \<Rightarrow> 's \<Rightarrow> bool" where
  "refused_at posts page options events s req u \<longleftrightarrow>
     (\<exists>groups last rest. posts u = posts s @ map (\<lambda>g. (batch_body g, True)) groups
        \<and> (\<forall>g \<in> set (groups @ [last]). within_cap options g)
        \<and> concat groups @ last @ rest = filter (fits options) events
        \<and> fetch_body req = Some (batch_body last) \<and> \<not> taken (fst (pg_fetch page req u)))"

definition posted ::
    "('s \<Rightarrow> (string \<times> bool) list) \<Rightarrow> 's page \<Rightarrow> 's logger_options \<Rightarrow> ('s, logger_core) cell \<Rightarrow> log_event list
      \<Rightarrow> 's \<Rightarrow> thrown + unit \<Rightarrow> 's \<Rightarrow> bool" where
  "posted posts page options core events s r s' \<longleftrightarrow>
     co_buffer (cell_get core s') = co_buffer (cell_get core s)
     \<and> (case r of
          Inr _ \<Rightarrow> all_posted posts options core events s s'
        | Inl _ \<Rightarrow> \<exists>req u. refused_at posts page options events s req u \<and> s' = snd (pg_fetch page req u))"

lemma send_body_posts:
  assumes "page_posts posts page core" "within_cap options events"
    and "send_body page options token (batch_body events) s = (r, s')"
  shows "posted posts page options core events s r s'"
proof -
  have all: "filter (fits options) events = events" "filter (\<lambda>e. \<not> fits options e) events = []"
    using batch_fits_each [OF assms(2) [unfolded within_cap_def]] by (auto simp: filter_empty_conv)
  let ?req = "\<lparr>fetch_url = lo_endpoint options, fetch_method = ''POST'',
         fetch_headers = h_of ([(''content-type'', ''application/json'')]
           @ (case token of Some t \<Rightarrow> if t = '''' then [] else [(''x-csrf-token'', t)] | None \<Rightarrow> [])),
         fetch_body = Some (batch_body events)\<rparr>"
  let ?o = "fst (pg_fetch page ?req s)"
  have s': "s' = snd (pg_fetch page ?req s)" and taken: "taken ?o \<longleftrightarrow> r = Inr ()"
    using assms(3) by (auto simp: send_body_def io_bind_def io_lift_def io_throw_def io_return_def taken_def case_prod_beta
        split: if_split_asm fetch_outcome.split_asm)
  have after: "posts s' = posts s @ [(batch_body events, taken ?o)]" "cell_get core s' = cell_get core s"
    using assms(1) s' by (simp_all add: page_posts_def)
  show ?thesis
  proof (cases r)
    case (Inr u)
    then have "all_posted posts options core events s s'"
      unfolding all_posted_def all using after taken assms(2) by (intro exI [of _ "[events]"]) simp
    with Inr after show ?thesis by (simp add: posted_def)
  next
    case (Inl e)
    then have "refused_at posts page options events s ?req s"
      unfolding refused_at_def all using taken assms(2)
      by - (rule exI [of _ "[]"], rule exI [of _ events], rule exI [of _ "[]"], simp)
    with Inl after s' show ?thesis unfolding posted_def by (simp, blast)
  qed
qed

lemma posted_seq:
  assumes "posted posts page options core es s (Inr ()) s1" "posted posts page options core es' s1 r s2"
  shows "posted posts page options core (es @ es') s r s2"
proof -
  have b: "co_buffer (cell_get core s2) = co_buffer (cell_get core s)" using assms unfolding posted_def by simp
  obtain gs where gs: "posts s1 = posts s @ map (\<lambda>g. (batch_body g, True)) gs" "\<forall>g \<in> set gs. within_cap options g"
    "concat gs = filter (fits options) es"
    "co_dropped (cell_get core s1) = co_dropped (cell_get core s) + int (length (filter (\<lambda>e. \<not> fits options e) es))"
    "co_disabled_until (cell_get core s1) = co_disabled_until (cell_get core s)"
    using assms(1) unfolding posted_def all_posted_def by auto
  show ?thesis
  proof (cases r)
    case (Inr u)
    then obtain gs' where "posts s2 = posts s1 @ map (\<lambda>g. (batch_body g, True)) gs'" "\<forall>g \<in> set gs'. within_cap options g"
      "concat gs' = filter (fits options) es'"
      "co_dropped (cell_get core s2) = co_dropped (cell_get core s1) + int (length (filter (\<lambda>e. \<not> fits options e) es'))"
      "co_disabled_until (cell_get core s2) = co_disabled_until (cell_get core s1)"
      using assms(2) unfolding posted_def all_posted_def by auto
    with gs have "all_posted posts options core (es @ es') s s2"
      unfolding all_posted_def by (intro exI [of _ "gs @ gs'"]) auto
    with Inr b show ?thesis by (simp add: posted_def)
  next
    case (Inl e)
    then obtain req u gs' g rest where u: "s2 = snd (pg_fetch page req u)"
      "posts u = posts s1 @ map (\<lambda>g. (batch_body g, True)) gs'" "\<forall>g \<in> set (gs' @ [g]). within_cap options g"
      "concat gs' @ g @ rest = filter (fits options) es'" "fetch_body req = Some (batch_body g)" "\<not> taken (fst (pg_fetch page req u))"
      using assms(2) unfolding posted_def refused_at_def by auto
    have "refused_at posts page options (es @ es') s req u"
      unfolding refused_at_def using gs u
      by - (rule exI [of _ "gs @ gs'"], rule exI [of _ g], rule exI [of _ rest], auto)
    with Inl b u(1) show ?thesis unfolding posted_def by (simp, blast)
  qed
qed

lemma posted_stopped:
  assumes "posted posts page options core es s (Inl e) s1"
  shows "posted posts page options core (es @ es') s (Inl e) s1"
proof -
  obtain req u groups g rest where u: "s1 = snd (pg_fetch page req u)" "posts u = posts s @ map (\<lambda>g. (batch_body g, True)) groups"
    "\<forall>g \<in> set (groups @ [g]). within_cap options g" "concat groups @ g @ rest = filter (fits options) es"
    "fetch_body req = Some (batch_body g)" "\<not> taken (fst (pg_fetch page req u))"
    using assms unfolding posted_def refused_at_def by auto
  from u(4) have "concat groups @ g @ (rest @ filter (fits options) es') = filter (fits options) (es @ es')"
    by (simp flip: append_assoc)
  with u have "refused_at posts page options (es @ es') s req u" unfolding refused_at_def by meson
  with assms u(1) show ?thesis unfolding posted_def by (simp, blast)
qed

lemma posted_none_fit:
  assumes "page_posts posts page core" "length events \<le> 1" "log_byte_length (batch_body events) > body_cap options"
    and "post_split page options core events s = (r, s')"
  shows "posted posts page options core events s r s'"
proof -
  let ?s = "cell_put core ((cell_get core s)\<lparr>co_dropped := co_dropped (cell_get core s) + int (length events)\<rparr>) s"
  have "r = Inr ()" "s' = pg_warn page (lo_service options @ '': log record exceeds the body cap, dropped'') None events ?s"
    using assms(2,4) by (simp_all add: post_split.simps io_bind_def io_modify_def Let_def)
  then have same: "posts s' = posts s"
    "cell_get core s' = (cell_get core s)\<lparr>co_dropped := co_dropped (cell_get core s) + int (length events)\<rparr>"
    using assms(1) by (simp_all add: page_posts_def cell_ok_def)
  have "filter (fits options) events = [] \<and> filter (\<lambda>e. \<not> fits options e) events = events"
    using assms(2,3) by (cases events) (auto simp: fits_def)
  with same have "all_posted posts options core events s s'" unfolding all_posted_def by (intro exI [of _ "[]"]) auto
  with same \<open>r = Inr ()\<close> show ?thesis by (simp add: posted_def)
qed

lemma post_batch_posts:
  assumes "page_posts posts page core"
  shows "post_batch page options core events s = (r, s') \<Longrightarrow> posted posts page options core events s r s'"
    and "log_byte_length (batch_body events) > body_cap options \<Longrightarrow> post_split page options core events s = (r, s')
      \<Longrightarrow> posted posts page options core events s r s'"
  using assms
proof (induction page options core events and page options core events arbitrary: s r s' and s r s'
    rule: post_batch_post_split.induct)
  case (1 page options core events)
  show ?case
  proof (cases "log_byte_length (batch_body events) > body_cap options")
    case True
    then have "post_split page options core events s = (r, s')"
      using 1(2) by (simp add: post_batch.simps io_bind_def io_gets_def)
    with 1(1) [OF True True] 1(3) show ?thesis by blast
  next
    case False
    then have "send_body page options (csrf_token_of options s) (batch_body events) s = (r, s')"
      using 1(2) by (simp add: post_batch.simps io_bind_def io_gets_def)
    with False 1(3) show ?thesis by (intro send_body_posts) (auto simp: within_cap_def)
  qed
next
  case (2 page options core events)
  show ?case
  proof (cases "length events \<le> 1")
    case True
    with 2 show ?thesis by (intro posted_none_fit)
  next
    case False
    let ?m = "length events div 2"
    obtain r1 s1 where first: "post_batch page options core (take ?m events) s = (r1, s1)" by fastforce
    have p1: "posted posts page options core (take ?m events) s r1 s1" by (rule 2(1) [OF False first 2(5)])
    have split: "take ?m events @ drop ?m events = events" by simp
    show ?thesis
    proof (cases r1)
      case (Inl e)
      then have "r = Inl e" "s' = s1" using 2(4) False first by (simp_all add: post_split.simps io_bind_def)
      with posted_stopped [OF p1 [unfolded Inl], of "drop ?m events"] split show ?thesis by simp
    next
      case (Inr u)
      have done1: "posted posts page options core (take ?m events) s (Inr ()) s1" using p1 Inr by simp
      have second: "post_batch page options core (drop ?m events) s1 = (r, s')"
        using 2(4) False first Inr by (simp add: post_split.simps io_bind_def)
      have "posted posts page options core (drop ?m events) s1 r s'" by (rule 2(2) [OF False second 2(5)])
      from posted_seq [OF done1 this] split show ?thesis by simp
    qed
  qed
qed


definition drop_report :: "string \<Rightarrow> int \<Rightarrow> log_event" where
  "drop_report ts n = \<lparr>le_ts = ts, le_level = LevelWarn, le_event = dropped_event, le_attrs = [(''count'', JNum n)],
     le_correlation_id = None, le_error = None\<rparr>"

definition clock_ok :: "'s page \<Rightarrow> bool" where
  "clock_ok page \<longleftrightarrow> (\<forall>s. \<bar>pg_now page s\<bar> \<le> max_date)"

lemma to_iso_string_ok: "\<bar>t\<bar> \<le> max_date \<Longrightarrow> \<exists>ts. to_iso_string t = Inr ts"
  by (simp add: to_iso_string_def case_prod_beta Let_def)

text \<open>The report a flush puts in front of the buffer: one event with the count, or nothing.\<close>

definition report_of :: "int \<Rightarrow> log_event list \<Rightarrow> bool" where
  "report_of n head \<longleftrightarrow> (if n = 0 then head = [] else \<exists>ts. head = [drop_report ts n])"

lemma drain_buffer_result:
  assumes "page_posts posts page core" "clock_ok page"
  obtains head s1 where "drain_buffer page core s = (Inr (head @ co_buffer (cell_get core s)), s1)"
    "report_of (co_dropped (cell_get core s)) head" "posts s1 = posts s"
    "cell_get core s1 = (cell_get core s)\<lparr>co_buffer := [], co_dropped := 0\<rparr>"
proof -
  let ?c = "cell_get core s"
  let ?s1 = "cell_put core (?c\<lparr>co_buffer := []\<rparr>) s"
  have get: "cell_get core (cell_put core d t) = d" and same: "posts (cell_put core d t) = posts t" for d t
    using assms(1) by (simp_all add: page_posts_def cell_ok_def)
  show thesis
  proof (cases "co_dropped ?c = 0")
    case True
    then have "drain_buffer page core s = (Inr ([] @ co_buffer ?c), ?s1)"
      by (simp add: drain_buffer_def io_bind_def io_gets_def io_modify_def io_return_def)
    then show thesis
      by (rule that) (use True get same in \<open>simp_all add: report_of_def\<close>)
  next
    case False
    let ?s2 = "cell_put core (?c\<lparr>co_buffer := [], co_dropped := 0\<rparr>) ?s1"
    obtain ts where ts: "to_iso_string (pg_now page ?s2) = Inr ts"
      using to_iso_string_ok [of "pg_now page ?s2"] assms(2) by (auto simp: clock_ok_def)
    then have "drain_buffer page core s = (Inr ([drop_report ts (co_dropped ?c)] @ co_buffer ?c), ?s2)"
      using False by (simp add: drain_buffer_def io_bind_def io_gets_def io_modify_def io_return_def drop_report_def)
    then show thesis by (rule that) (use False get same in \<open>auto simp: report_of_def\<close>)
  qed
qed

text \<open>
  C18: What a flush does with the buffer, while nothing is recorded during its requests. Behind a report of
  what was dropped before, the events go out in their order, in batches none of which exceeds the cap,
  however large the buffer; left out is just what exceeds the cap by itself. Either the route takes
  every batch: then all of it went out, what was left out is counted as dropped and the transport stays
  open. Or the route fails a batch, be it the only one or the last: then it took the ones before,
  nothing behind it is tried and the transport is closed for the backoff, counted from that answer. In
  either case the flush returns and the buffer is empty.
\<close>

theorem flush_sends_buffer_in_order:
  assumes "page_posts posts page core" "clock_ok page"
    and "\<not> nothing_to_send (cell_get core s)" "co_disabled_until (cell_get core s) \<le> pg_now page s"
    and "flush_core page options core s = (r, s')"
  shows "r = Inr () \<and> co_buffer (cell_get core s') = []
    \<and> (\<exists>head events. report_of (co_dropped (cell_get core s)) head \<and> events = head @ co_buffer (cell_get core s)
      \<and> ((\<exists>groups. posts s' = posts s @ map (\<lambda>g. (batch_body g, True)) groups
            \<and> (\<forall>g \<in> set groups. log_byte_length (batch_body g) \<le> body_cap options)
            \<and> concat groups = filter (fits options) events
            \<and> co_dropped (cell_get core s') = int (length (filter (\<lambda>e. \<not> fits options e) events))
            \<and> co_disabled_until (cell_get core s') = co_disabled_until (cell_get core s))
        \<or> (\<exists>groups last rest req u. posts s' = posts s @ map (\<lambda>g. (batch_body g, True)) groups @ [(batch_body last, False)]
            \<and> (\<forall>g \<in> set (groups @ [last]). log_byte_length (batch_body g) \<le> body_cap options)
            \<and> concat groups @ last @ rest = filter (fits options) events
            \<and> fetch_body req = Some (batch_body last) \<and> \<not> taken (fst (pg_fetch page req u))
            \<and> posts u = posts s @ map (\<lambda>g. (batch_body g, True)) groups
            \<and> co_disabled_until (cell_get core s') = pg_now page (snd (pg_fetch page req u))
                + with_default (lo_transport_backoff_ms options) default_transport_backoff_ms)))"
proof -
  obtain head s1 where drained: "drain_buffer page core s = (Inr (head @ co_buffer (cell_get core s)), s1)"
    "report_of (co_dropped (cell_get core s)) head" "posts s1 = posts s"
    "cell_get core s1 = (cell_get core s)\<lparr>co_buffer := [], co_dropped := 0\<rparr>"
    by (rule drain_buffer_result [OF assms(1,2)])
  let ?es = "head @ co_buffer (cell_get core s)"
  obtain p s2 where p: "post_batch page options core ?es s1 = (p, s2)" by fastforce
  have run: "io_catch (post_batch page options core ?es) (report_transport_failure page options core ?es) s1 = (r, s')"
    using assms(3-5) drained(1) by (simp add: flush_core_def io_bind_def io_gets_def)
  have posts: "posted posts page options core ?es s1 p s2" by (rule post_batch_posts(1) [OF assms(1) p])
  then have buf: "co_buffer (cell_get core s2) = []" using drained(4) by (simp add: posted_def)
  show ?thesis
  proof (cases p)
    case (Inr u)
    then have same: "r = Inr ()" "s' = s2" using run p by (simp_all add: io_catch_def)
    have "all_posted posts options core ?es s1 s2" using posts Inr by (simp add: posted_def)
    then obtain groups where g: "posts s2 = posts s1 @ map (\<lambda>g. (batch_body g, True)) groups"
      "\<forall>g \<in> set groups. log_byte_length (batch_body g) \<le> body_cap options" "concat groups = filter (fits options) ?es"
      "co_dropped (cell_get core s2) = co_dropped (cell_get core s1) + int (length (filter (\<lambda>e. \<not> fits options e) ?es))"
      "co_disabled_until (cell_get core s2) = co_disabled_until (cell_get core s1)"
      unfolding all_posted_def within_cap_def by blast
    show ?thesis
      using g same buf drained(2-4)
      by - (intro conjI, simp, simp, rule exI [of _ head], rule exI [of _ ?es], intro conjI, assumption, rule refl,
        rule disjI1, rule exI [of _ groups], simp)
  next
    case (Inl e)
    let ?c = "(cell_get core s2)\<lparr>co_disabled_until := pg_now page s2
        + with_default (lo_transport_backoff_ms options) default_transport_backoff_ms\<rparr>"
    have ended: "r = Inr ()" "s' = pg_warn page (lo_service options @ '': log transport failed, backing off'') (Some e) ?es (cell_put core ?c s2)"
      using run p Inl by (simp_all add: io_catch_def report_transport_failure_def io_bind_def io_gets_def io_modify_def)
    then have after: "posts s' = posts s2" "cell_get core s' = ?c"
      using assms(1) by (simp_all add: page_posts_def cell_ok_def)
    obtain req u groups g rest where at: "s2 = snd (pg_fetch page req u)" "posts u = posts s1 @ map (\<lambda>g. (batch_body g, True)) groups"
      "\<forall>g \<in> set (groups @ [g]). within_cap options g" "concat groups @ g @ rest = filter (fits options) ?es"
      "fetch_body req = Some (batch_body g)" "\<not> taken (fst (pg_fetch page req u))"
      using posts Inl unfolding posted_def refused_at_def by auto
    have "posts s2 = posts u @ [(batch_body g, False)]" using assms(1) at(1,5,6) by (simp add: page_posts_def)
    with after at(2) drained(3) have log: "posts s' = posts s @ map (\<lambda>g. (batch_body g, True)) groups @ [(batch_body g, False)]" by simp
    have until: "co_disabled_until (cell_get core s') = pg_now page (snd (pg_fetch page req u))
        + with_default (lo_transport_backoff_ms options) default_transport_backoff_ms"
      using after at(1) by simp
    have empty: "co_buffer (cell_get core s') = []" using after buf by simp
    have tried: "posts u = posts s @ map (\<lambda>g. (batch_body g, True)) groups" using at(2) drained(3) by simp
    show ?thesis
      by (intro conjI ended(1) empty, rule exI [of _ head], rule exI [of _ ?es], intro conjI drained(2) refl, rule disjI2)
        (use log at(3-6) tried until in \<open>unfold within_cap_def, blast\<close>)
  qed
qed


text \<open>A page whose state is its logger's core and the bodies that left it.\<close>

definition demo_page :: "(logger_core \<times> string list) page" where
  "demo_page =
     \<lparr>pg_now = (\<lambda>_. 1700000000000),
      pg_fetch = (\<lambda>req s. (Fetched (new_response 204 None []), (fst s, snd s @ (case fetch_body req of Some b \<Rightarrow> [b] | None \<Rightarrow> [])))),
      pg_beacon = (\<lambda>_ _ s. (True, s)), pg_warn = (\<lambda>_ _ _ s. s), pg_stack = (\<lambda>_. None), pg_in_browser = True, pg_hidden = (\<lambda>_. True)\<rparr>"

definition demo_core :: "(logger_core \<times> string list, logger_core) cell" where
  "demo_core = \<lparr>cell_get = fst, cell_put = (\<lambda>c s. (c, snd s))\<rparr>"

definition demo_logger_options :: "(logger_core \<times> string list) logger_options" where
  "demo_logger_options =
     \<lparr>lo_service = ''wallow-web'', lo_endpoint = ''/bff/logs'', lo_level = None, lo_get_correlation_id = None,
      lo_get_csrf_token = Some (\<lambda>_. Some ''t''), lo_redact = None, lo_attrs = None, lo_max_buffered_events = Some 2,
      lo_flush_at_events = None, lo_flush_interval_ms = None, lo_transport_backoff_ms = None, lo_max_body_bytes = Some 200\<rparr>"

definition demo_event :: "string \<Rightarrow> log_event" where
  "demo_event name = \<lparr>le_ts = ''now'', le_level = LevelInfo, le_event = name, le_attrs = [], le_correlation_id = None, le_error = None\<rparr>"

definition demo_page_state :: "logger_core \<times> string list" where
  "demo_page_state = (\<lparr>co_buffer = map demo_event [''a'', ''b'', ''c'', ''d''], co_dropped = 3, co_disabled_until = 0, co_timer = True,
     co_listening = True\<rparr>, [])"

lemma demo_page_world: "page_world snd demo_page demo_core" "clock_ok demo_page"
  by (auto simp: page_world_def clock_ok_def demo_page_def demo_core_def cell_ok_def max_date_def
      new_response_def resp_ok_def)

text \<open>The same page beside a route that answers 503, with the outcome of every post.\<close>

definition failing_page :: "(logger_core \<times> (string \<times> bool) list) page" where
  "failing_page =
     \<lparr>pg_now = (\<lambda>_. 1700000000000),
      pg_fetch = (\<lambda>req s. (Fetched (new_response 503 None []),
        (fst s, snd s @ (case fetch_body req of Some b \<Rightarrow> [(b, False)] | None \<Rightarrow> [])))),
      pg_beacon = (\<lambda>_ _ s. (True, s)), pg_warn = (\<lambda>_ _ _ s. s), pg_stack = (\<lambda>_. None), pg_in_browser = True, pg_hidden = (\<lambda>_. True)\<rparr>"

definition failing_core :: "(logger_core \<times> (string \<times> bool) list, logger_core) cell" where
  "failing_core = \<lparr>cell_get = fst, cell_put = (\<lambda>c s. (c, snd s))\<rparr>"

definition failing_options :: "(logger_core \<times> (string \<times> bool) list) logger_options" where
  "failing_options =
     \<lparr>lo_service = ''wallow-web'', lo_endpoint = ''/bff/logs'', lo_level = None, lo_get_correlation_id = None,
      lo_get_csrf_token = Some (\<lambda>_. Some ''t''), lo_redact = None, lo_attrs = None, lo_max_buffered_events = Some 2,
      lo_flush_at_events = None, lo_flush_interval_ms = None, lo_transport_backoff_ms = None, lo_max_body_bytes = Some 200\<rparr>"

lemma failing_page_posts: "page_posts snd failing_page failing_core" "clock_ok failing_page"
  by (auto simp: page_posts_def clock_ok_def failing_page_def failing_core_def cell_ok_def max_date_def taken_def
      new_response_def resp_ok_def)

text \<open>One event, and so one batch: nothing is left over, and the transport still closes.\<close>

lemma flush_sends_buffer_in_order_witness:
  "\<exists>s'. flush_core failing_page failing_options failing_core
        (\<lparr>co_buffer = [demo_event ''a''], co_dropped = 0, co_disabled_until = 0, co_timer = True, co_listening = True\<rparr>, []) = (Inr (), s')
    \<and> snd s' = [(batch_body [demo_event ''a''], False)] \<and> co_buffer (fst s') = [] \<and> co_disabled_until (fst s') = 1700000030000"
proof -
  let ?s = "(\<lparr>co_buffer = [demo_event ''a''], co_dropped = 0, co_disabled_until = 0, co_timer = True, co_listening = True\<rparr>, [])
    :: logger_core \<times> (string \<times> bool) list"
  obtain r s' where run: "flush_core failing_page failing_options failing_core ?s = (r, s')" by (rule prod.exhaust)
  have one: "log_byte_length (batch_body [demo_event ''a'']) \<le> body_cap failing_options" by code_simp
  have log: "snd s' = [(batch_body [demo_event ''a''], False)]"
    using run one
    by (simp add: flush_core_def drain_buffer_def nothing_to_send_def io_bind_def io_gets_def io_modify_def io_return_def io_catch_def
        io_lift_def io_throw_def post_batch.simps send_body_def report_transport_failure_def failing_page_def failing_core_def
        new_response_def resp_ok_def del: json_print.simps) auto
  have state: "cell_get failing_core ?s = fst ?s" "cell_get failing_core s' = fst s'" by (simp_all add: failing_core_def)
  have now: "pg_now failing_page t = 1700000000000" for t by (simp add: failing_page_def)
  have wait: "with_default (lo_transport_backoff_ms failing_options) default_transport_backoff_ms = 30000"
    by (simp add: with_default_def failing_options_def default_transport_backoff_ms_def)
  have "\<not> nothing_to_send (cell_get failing_core ?s)" "co_disabled_until (cell_get failing_core ?s) \<le> pg_now failing_page ?s"
    unfolding state now by (simp_all add: nothing_to_send_def)
  from flush_sends_buffer_in_order [OF failing_page_posts this run, unfolded state now wait log]
  have "r = Inr ()" "co_buffer (fst s') = []" "co_disabled_until (fst s') = 1700000030000" by (auto simp: Cons_eq_append_conv)
  with run log show ?thesis by blast
qed

subsection \<open>Lemmas: the ceiling on the buffer\<close>

lemma shed_drops: "\<exists>n. shed cap es d = (drop n es, d + int n) \<and> n \<le> length es"
proof (induction es arbitrary: d)
  case (Cons e es)
  show ?case
  proof (cases "int (length (e # es)) > cap")
    case True
    obtain n where "shed cap es (d + 1) = (drop n es, d + 1 + int n)" "n \<le> length es" using Cons.IH by meson
    with True show ?thesis by (intro exI [of _ "Suc n"]) simp
  next
    case False
    then show ?thesis by (intro exI [of _ 0]) simp
  qed
qed simp

lemma shed_bounded: "0 \<le> cap \<Longrightarrow> int (length (fst (shed cap es d))) \<le> cap"
  by (induction cap es d rule: shed.induct) auto

text \<open>Every event is in the buffer or counted, and the buffer holds the latest.\<close>

lemma buffer_event_ledger:
  "\<exists>n. co_buffer (buffer_event cap e c) = drop n (co_buffer c @ [e]) \<and> co_dropped (buffer_event cap e c) = co_dropped c + int n
    \<and> n \<le> length (co_buffer c) + 1"
  using shed_drops [of cap "co_buffer c @ [e]" "co_dropped c"] by (auto simp: buffer_event_def)

lemma buffer_event_bounded: "0 \<le> cap \<Longrightarrow> int (length (co_buffer (buffer_event cap e c))) \<le> cap"
  using shed_bounded [of cap "co_buffer c @ [e]" "co_dropped c"] by (simp add: buffer_event_def case_prod_beta Let_def)

definition within :: "('s, logger_core) cell \<Rightarrow> int \<Rightarrow> 's \<Rightarrow> bool" where
  "within core n s \<longleftrightarrow> int (length (co_buffer (cell_get core s))) \<le> n"

definition page_keeps :: "('s \<Rightarrow> bool) \<Rightarrow> 's page \<Rightarrow> bool" where
  "page_keeps I page \<longleftrightarrow>
     (\<forall>req s. I s \<longrightarrow> I (snd (pg_fetch page req s))) \<and> (\<forall>u b s. I s \<longrightarrow> I (snd (pg_beacon page u b s)))
     \<and> (\<forall>m e es s. I s \<longrightarrow> I (pg_warn page m e es s))"

lemma put_within: "cell_ok core \<Longrightarrow> within core n (cell_put core c s) \<longleftrightarrow> int (length (co_buffer c)) \<le> n"
  by (simp add: within_def cell_ok_def)

lemma within_steps:
  assumes "page_keeps (within core n) page"
  shows "io_inv (within core n) (io_lift (pg_fetch page req))" "io_inv (within core n) (io_lift (pg_beacon page u b))"
    "io_inv (within core n) (io_modify (pg_warn page m e es))"
  using assms by (simp_all add: page_keeps_def io_inv_lift io_inv_modify)

lemma post_batch_within:
  assumes "page_keeps (within core n) page" "cell_ok core"
  shows "io_inv (within core n) (post_batch page options core events)" "io_inv (within core n) (post_split page options core events)"
  using assms
proof (induction page options core events and page options core events rule: post_batch_post_split.induct)
  case (1 page options core events)
  have "io_inv (within core n) (send_body page options token (batch_body events))" for token
    unfolding send_body_def
    by (intro io_inv_bind within_steps(1) 1(2)) (auto intro: inv_intros split: fetch_outcome.split)
  then show ?case
    unfolding post_batch.simps using 1 by (intro io_inv_bind io_inv_gets) auto
next
  case (2 page options core events)
  show ?case
  proof (cases "length events \<le> 1")
    case True
    have "io_inv (within core n) (io_modify (\<lambda>s. let c = cell_get core s in cell_put core (c\<lparr>co_dropped := co_dropped c + int (length events)\<rparr>) s))"
      using 2(4) by (intro io_inv_modify) (simp add: Let_def within_def cell_ok_def)
    with True show ?thesis
      unfolding post_split.simps by (simp only: if_True) (intro io_inv_bind within_steps(3) 2(3))
  next
    case False
    with 2 show ?thesis unfolding post_split.simps by (simp only: if_False) (intro io_inv_bind, blast+)
  qed
qed


lemma drain_within:
  assumes "cell_ok core" "0 \<le> n"
  shows "io_inv (within core n) (drain_buffer page core)"
proof -
  have put: "within core n (cell_put core (c\<lparr>co_buffer := []\<rparr>) s)" "within core n (cell_put core (c\<lparr>co_buffer := [], co_dropped := 0\<rparr>) s)" for c s
    using assms by (simp_all add: put_within)
  show ?thesis
    unfolding drain_buffer_def
    by (intro io_inv_bind io_inv_gets io_inv_modify) (auto intro!: put inv_intros io_inv_modify)
qed

lemma report_within:
  assumes "page_keeps (within core n) page" "cell_ok core"
  shows "io_inv (within core n) (report_transport_failure page options core events e)"
  unfolding io_inv_def
proof (intro allI impI)
  fix s
  assume "within core n s"
  then have "within core n (cell_put core ((cell_get core s)\<lparr>co_disabled_until := pg_now page s
      + with_default (lo_transport_backoff_ms options) default_transport_backoff_ms\<rparr>) s)"
    using assms(2) by (simp add: within_def cell_ok_def)
  then show "within core n (snd (report_transport_failure page options core events e s))"
    using assms(1) by (simp add: report_transport_failure_def io_bind_def io_gets_def io_modify_def page_keeps_def)
qed

lemma flush_within:
  assumes "page_keeps (within core n) page" "cell_ok core" "0 \<le> n"
  shows "io_inv (within core n) (flush_core page options core)" "io_inv (within core n) (flush_beacon page options core)"
  unfolding flush_core_def flush_beacon_def
  by (intro io_inv_bind io_inv_gets; auto intro!: inv_intros drain_within post_batch_within report_within within_steps assms
      split: prod.split)+

text \<open>
  C20: The browser's buffer never holds more events than its ceiling, whatever is recorded, flushed, hidden
  or closed, and however often the page calls back in between.
\<close>

theorem buffer_never_exceeds_ceiling:
  assumes "page_keeps (within core (buffer_ceiling options)) page" "cell_ok core" "0 \<le> buffer_ceiling options"
  shows "io_inv (within core (buffer_ceiling options)) (record_event page options core base level event attrs error)
    \<and> io_inv (within core (buffer_ceiling options)) (flush_core page options core)
    \<and> io_inv (within core (buffer_ceiling options)) (on_visibility_change page options core)
    \<and> io_inv (within core (buffer_ceiling options)) (on_page_hide page options core)
    \<and> io_inv (within core (buffer_ceiling options)) (on_interval page options core)
    \<and> io_inv (within core (buffer_ceiling options)) (dispose_logger core)"
proof -
  let ?I = "within core (buffer_ceiling options)"
  note flush = flush_within [OF assms]
  have put: "?I (cell_put core (buffer_event (buffer_ceiling options) e (cell_get core s)) s)" for e s
    using buffer_event_bounded [OF assms(3)] by (simp add: put_within [OF assms(2)])
  have "io_inv ?I (record_event page options core base level event attrs error)"
    unfolding record_event_def by (auto intro!: inv_intros io_inv_modify put flush)
  moreover have "io_inv ?I (dispose_logger core)"
    unfolding dispose_logger_def using assms(2) by (intro io_inv_modify) (simp add: within_def cell_ok_def)
  ultimately show ?thesis
    unfolding on_visibility_change_def on_page_hide_def on_interval_def by (auto intro!: inv_intros flush)
qed

lemma buffer_never_exceeds_ceiling_witness:
  "io_inv (within demo_core 2) (record_event demo_page demo_logger_options demo_core [] LevelInfo ''form.sent'' None None)"
proof -
  have cap: "buffer_ceiling demo_logger_options = 2"
    by (simp add: buffer_ceiling_def with_default_def demo_logger_options_def)
  have "page_keeps (within demo_core (buffer_ceiling demo_logger_options)) demo_page" "cell_ok demo_core"
    by (simp_all add: page_keeps_def within_def demo_page_def demo_core_def cell_ok_def)
  from buffer_never_exceeds_ceiling [OF this] show ?thesis by (simp add: cap)
qed

subsection \<open>From the page to the route\<close>

lemma level_round_trip: "log_level_of (Some (JStr (level_text l))) = Some l"
  by (cases l) (simp_all add: log_level_of_def log_levels_def)

definition wire_ok :: "(string \<Rightarrow> int option) \<Rightarrow> ingest_limits \<Rightarrow> log_event \<Rightarrow> bool" where
  "wire_ok date_parse limits e \<longleftrightarrow>
     event_ok date_parse limits e \<and> int (length (le_attrs e)) \<le> max_attributes_per_event limits \<and> json_ok (JObj (le_attrs e))
     \<and> (\<forall>j. le_correlation_id e = Some j \<or> le_error e = Some j \<longrightarrow> json_ok j)"

lemma log_event_members:
  "j_get (log_event_to_json e) ''ts'' = Some (JStr (le_ts e))"
  "j_get (log_event_to_json e) ''level'' = Some (JStr (level_text (le_level e)))"
  "j_get (log_event_to_json e) ''event'' = Some (JStr (le_event e))"
  "j_get (log_event_to_json e) ''attrs'' = Some (JObj (le_attrs e))"
  "j_get (log_event_to_json e) ''correlationId'' = le_correlation_id e"
  "j_get (log_event_to_json e) ''error'' = le_error e"
  by (simp_all add: log_event_to_json_def opt_member_def split: option.split)

lemma normalize_printed: "normalize_event (log_event_to_json e) = e"
  unfolding normalize_event_def j_string_def log_event_members by (simp add: level_round_trip)

lemma printed_event_reason:
  assumes "wire_ok date_parse limits e"
  shows "event_reason date_parse (log_event_to_json e) limits = None"
proof -
  have "is_object (log_event_to_json e)" by (simp add: log_event_to_json_def)
  then show ?thesis
    unfolding event_reason_def log_event_members level_round_trip
    using assms by (auto simp: wire_ok_def event_ok_def is_iso_timestamp_def attrs_reason_def)
qed

lemma first_reason_all: "\<forall>e \<in> set es. event_reason date_parse e limits = None \<Longrightarrow> first_reason date_parse limits es = None"
  by (induction es) auto

lemma log_event_json_ok: "wire_ok date_parse limits e \<Longrightarrow> json_ok (log_event_to_json e)"
  by (auto simp: log_event_to_json_def opt_member_def wire_ok_def split: option.splits)

text \<open>
  A batch survives the wire. What a page serializes, decoded and validated by the route, is the batch
  the page meant, its events in order with every field and the token of a beacon, as long as it keeps the
  limits the route checks.
\<close>

lemma batch_survives_the_wire:
  assumes "\<forall>e \<in> set (lb_events b). wire_ok date_parse limits e"
    and "lb_events b \<noteq> []" "int (length (lb_events b)) \<le> max_events_per_batch limits"
  shows "\<exists>decoded. json_parse (json_print (log_batch_to_json b)) = Some decoded
    \<and> parse_log_batch date_parse decoded limits = Inr b"
proof (intro exI conjI)
  have "json_ok (log_batch_to_json b)"
    using assms(1) log_event_json_ok by (auto simp: log_batch_to_json_def opt_member_def split: option.splits)
  then show "json_parse (json_print (log_batch_to_json b)) = Some (log_batch_to_json b)" by (rule json_parse_print)
  have events: "j_get (log_batch_to_json b) ''events'' = Some (JArr (map log_event_to_json (lb_events b)))"
    "j_get (log_batch_to_json b) ''csrfToken'' = map_option JStr (lb_csrf_token b)"
    by (simp_all add: log_batch_to_json_def opt_member_def split: option.split)
  have "first_reason date_parse limits (map log_event_to_json (lb_events b)) = None"
    using assms(1) printed_event_reason by (intro first_reason_all) auto
  moreover have "map normalize_event (map log_event_to_json (lb_events b)) = lb_events b"
    by (simp add: comp_def normalize_printed)
  moreover have "is_object (log_batch_to_json b)" by (simp add: log_batch_to_json_def)
  ultimately show "parse_log_batch date_parse (log_batch_to_json b) limits = Inr b"
    unfolding parse_log_batch_def events using assms(2,3) by (cases "lb_csrf_token b") (simp_all del: list.map_comp)
qed

lemma batch_survives_the_wire_witness:
  "\<exists>decoded. json_parse (json_print (log_batch_to_json
       \<lparr>lb_events = [demo_event ''form.sent'', demo_event ''page.closed''], lb_csrf_token = Some ''t''\<rparr>)) = Some decoded
    \<and> parse_log_batch (\<lambda>t. if t = ''now'' then Some 0 else None) decoded default_ingest_limits
      = Inr \<lparr>lb_events = [demo_event ''form.sent'', demo_event ''page.closed''], lb_csrf_token = Some ''t''\<rparr>"
proof (rule batch_survives_the_wire)
  have names: "is_valid_event_name ''form.sent'' 120" "is_valid_event_name ''page.closed'' 120" by code_simp+
  show "\<forall>e \<in> set (lb_events \<lparr>lb_events = [demo_event ''form.sent'', demo_event ''page.closed''], lb_csrf_token = Some ''t''\<rparr>).
      wire_ok (\<lambda>t. if t = ''now'' then Some 0 else None) default_ingest_limits e"
    using names by (simp add: wire_ok_def event_ok_def demo_event_def default_ingest_limits_def)
qed (simp_all add: default_ingest_limits_def)


text \<open>
  C19: A backlog the route refuses. A flush splits by bytes only, and the route also caps the number of events:
  a backlog of more events than that cap which fits the body cap goes out as one batch, and the route
  answers that it holds too many events, so all of it is lost.
\<close>

theorem long_backlog_is_refused:
  assumes "page_world sent page core" "log_byte_length (batch_body es) \<le> body_cap options"
    and "max_events_per_batch limits < int (length es)" "es \<noteq> []" "\<forall>e \<in> set es. json_ok (log_event_to_json e)"
    and "post_batch page options core es s = (r, s')"
  shows "sent s' = sent s @ [batch_body es]
    \<and> (\<exists>decoded. json_parse (batch_body es) = Some decoded
         \<and> parse_log_batch date_parse decoded limits = Inl ''batch holds too many events'')"
proof
  let ?b = "\<lparr>lb_events = es, lb_csrf_token = None\<rparr>"
  obtain token where run: "send_body page options token (batch_body es) s = (r, s')"
    using assms(2,6) by (auto simp: post_batch.simps io_bind_def io_gets_def)
  show "sent s' = sent s @ [batch_body es]"
    using assms(1) run by (auto simp: send_body_def page_world_def io_bind_def io_lift_def io_throw_def io_return_def case_prod_beta
        split: fetch_outcome.splits if_split_asm)
  have "json_ok (log_batch_to_json ?b)" using assms(5) by (simp add: log_batch_to_json_def opt_member_def)
  then have "json_parse (batch_body es) = Some (log_batch_to_json ?b)" unfolding batch_body_def by (rule json_parse_print)
  moreover have "parse_log_batch date_parse (log_batch_to_json ?b) limits = Inl ''batch holds too many events''"
    using assms(3,4) by (simp add: parse_log_batch_def log_batch_to_json_def opt_member_def)
  ultimately show "\<exists>decoded. json_parse (batch_body es) = Some decoded
      \<and> parse_log_batch date_parse decoded limits = Inl ''batch holds too many events''" by blast
qed

lemma backlog_body_size: "int (length (utf8_encode (js_join '','' (replicate n x)))) \<le> int n * (int (length (utf8_encode x)) + 1)"
proof (induction n)
  case (Suc n)
  show ?case
  proof (cases n)
    case (Suc m)
    have "js_join '','' (replicate (Suc n) x) = x @ '','' @ js_join '','' (replicate n x)" by (simp add: Suc)
    then have "int (length (utf8_encode (js_join '','' (replicate (Suc n) x))))
      = int (length (utf8_encode x)) + 1 + int (length (utf8_encode (js_join '','' (replicate n x))))"
      by (simp only: utf8_length_append) (simp add: utf8_encode_def)
    with Suc.IH show ?thesis by (simp add: algebra_simps)
  qed simp
qed (simp add: utf8_encode_def)

text \<open>With the defaults of both ends: a hundred and one of the smallest events.\<close>

lemma long_backlog_is_refused_witness:
  "snd (snd (post_batch demo_page (demo_logger_options\<lparr>lo_max_body_bytes := None\<rparr>) demo_core (replicate 101 (demo_event ''a'')) demo_page_state))
     = [] @ [batch_body (replicate 101 (demo_event ''a''))]
    \<and> (\<exists>decoded. json_parse (batch_body (replicate 101 (demo_event ''a''))) = Some decoded
         \<and> parse_log_batch (\<lambda>_. Some 0) decoded default_ingest_limits = Inl ''batch holds too many events'')"
proof -
  let ?es = "replicate 101 (demo_event ''a'')" and ?o = "demo_logger_options\<lparr>lo_max_body_bytes := None\<rparr>"
  obtain r s' where run: "post_batch demo_page ?o demo_core ?es demo_page_state = (r, s')" by (rule prod.exhaust)
  have one: "log_byte_length (json_print (log_event_to_json (demo_event ''a''))) \<le> 100" "log_byte_length (batch_frame '''') \<le> 100"
    by code_simp+
  have "log_byte_length (batch_body ?es)
      = log_byte_length (batch_frame '''') + log_byte_length (js_join '','' (replicate 101 (json_print (log_event_to_json (demo_event ''a'')))))"
    unfolding log_byte_length_def batch_body_frame batch_frame_def
    by (simp only: utf8_length_append map_replicate comp_def append_Nil)
  also have "\<dots> \<le> 100 + 101 * (100 + 1)"
  proof -
    have sum: "y + z \<le> 100 + 101 * (100 + 1)" if "x \<le> 100" "y \<le> 100" "z \<le> 101 * (x + 1)" for x y z :: int
      using that by simp
    show ?thesis
      using one backlog_body_size [of 101 "json_print (log_event_to_json (demo_event ''a''))"]
      unfolding log_byte_length_def of_nat_numeral by (rule sum)
  qed
  finally have "log_byte_length (batch_body ?es) \<le> body_cap ?o"
    by (simp add: body_cap_def with_default_def default_max_body_bytes_def)
  moreover have "json_ok (log_event_to_json (demo_event ''a''))" by code_simp
  ultimately have "snd s' = snd demo_page_state @ [batch_body ?es]
    \<and> (\<exists>decoded. json_parse (batch_body ?es) = Some decoded
         \<and> parse_log_batch (\<lambda>_. Some 0) decoded default_ingest_limits = Inl ''batch holds too many events'')"
    by (intro long_backlog_is_refused [OF demo_page_world(1) _ _ _ _ run]) (simp_all add: default_ingest_limits_def)
  then show ?thesis unfolding run by (simp add: demo_page_state_def)
qed

end
