(* ===== verification/Propagation.thy ===== *)
theory Propagation
  imports Platform
begin

section \<open>Telemetry options and the context a request carries\<close>

text \<open>
  What a server's telemetry is configured with (\<open>packages/telemetry/src/configuration.ts\<close>), and how its
  \<open>fetch\<close> passes the trace context on (\<open>propagation.ts\<close>). The function follows redirects itself, so that
  every hop is decided anew: which origin may see the trace, and which may see the credentials.
\<close>

subsection \<open>Configuration (\<open>limits.ts\<close>, \<open>configuration.ts\<close>)\<close>

definition value_bytes :: int where "value_bytes = 1024"
definition max_attributes :: nat where "max_attributes = 32"
definition max_depth :: int where "max_depth = 5"
definition max_nodes :: int where "max_nodes = 256"
definition identity_length :: nat where "identity_length = 128"
definition stack_frames :: nat where "stack_frames = 16"
definition request_bytes :: int where "request_bytes = 1048576"
definition buffered_bytes :: int where "buffered_bytes = 8388608"
definition export_ms :: int where "export_ms = 5000"
definition trace_bytes :: nat where "trace_bytes = 16"
definition span_bytes :: nat where "span_bytes = 8"

record telemetry_options =
  to_endpoint :: "string option"
  to_credential :: "string option"
  to_environment :: "string option"
  to_release :: "string option"
  to_owned_origins :: "(string list) option"

record telemetry_config =
  tc_destination :: full_url
  tc_credential :: string
  tc_environment :: string
  tc_release :: string

text \<open>\<open>/^[A-Za-z0-9_.-]{1,128}$/u\<close> and \<open>/^[A-Za-z0-9_-]+\.[A-Za-z0-9_-]+$/u\<close>\<close>

definition identifier_char :: "char \<Rightarrow> bool" where
  "identifier_char c \<longleftrightarrow> alphanumeric c \<or> c \<in> {CHR ''_'', CHR ''.'', CHR ''-''}"

definition is_identifier :: "string \<Rightarrow> bool" where
  "is_identifier s \<longleftrightarrow> 1 \<le> length s \<and> length s \<le> 128 \<and> list_all identifier_char s"

definition credential_part :: "string \<Rightarrow> bool" where
  "credential_part s \<longleftrightarrow> s \<noteq> '''' \<and> list_all (\<lambda>c. alphanumeric c \<or> c \<in> {CHR ''_'', CHR ''-''}) s"

definition is_credential :: "string \<Rightarrow> bool" where
  "is_credential s \<longleftrightarrow>
     (case split_char (CHR ''.'') s of [a, b] \<Rightarrow> credential_part a \<and> credential_part b | _ \<Rightarrow> False)"

definition option_or_env :: "string option \<Rightarrow> env \<Rightarrow> string \<Rightarrow> string option" where
  "option_or_env given env key = (case given of Some v \<Rightarrow> Some v | None \<Rightarrow> env key)"

definition read_telemetry_config :: "env \<Rightarrow> telemetry_options \<Rightarrow> thrown + telemetry_config" where
  "read_telemetry_config env options =
     (let environment = (case option_or_env (to_environment options) env ''WALLOW_TELEMETRY_ENVIRONMENT'' of
                           Some e \<Rightarrow> e | None \<Rightarrow> ''production'');
          release = (case option_or_env (to_release options) env ''WALLOW_TELEMETRY_RELEASE'' of
                       Some r \<Rightarrow> r | None \<Rightarrow> ''unknown'') in
      case (option_or_env (to_endpoint options) env ''WALLOW_TELEMETRY_ENDPOINT'',
            option_or_env (to_credential options) env ''WALLOW_TELEMETRY_CREDENTIAL'') of
        (Some endpoint, Some credential) \<Rightarrow>
          (case new_url endpoint of
             Inl e \<Rightarrow> Inl e
           | Inr destination \<Rightarrow>
               if search destination \<noteq> '''' \<or> (case u_fragment destination of Some f \<Rightarrow> f \<noteq> '''' | None \<Rightarrow> False)
               then Inl (new_error ''Invalid telemetry endpoint'')
               else if \<not> is_credential credential then Inl (new_error ''Invalid telemetry credential'')
               else if \<not> is_identifier environment \<or> \<not> is_identifier release
               then Inl (new_error ''Invalid telemetry environment or release'')
               else Inr \<lparr>tc_destination = destination, tc_credential = credential,
                         tc_environment = environment, tc_release = release\<rparr>)
      | _ \<Rightarrow> Inl (new_error ''Telemetry endpoint and server credential are required''))"

subsection \<open>Requests that may be redirected\<close>

datatype redirect_mode = RedirectFollow | RedirectError | RedirectManual

record out_request =
  or_url :: full_url
  or_method :: string
  or_headers :: headers
  or_body :: "string option"
  or_redirect :: redirect_mode

text \<open>A body that can be sent again: its text, and the media type its class declares.\<close>

record replay_body =
  rb_text :: string
  rb_type :: "string option"

text \<open>\<open>new Request(target, init)\<close>: a body needs a method that has one, and brings its type.\<close>

definition new_request ::
    "full_url \<Rightarrow> string \<Rightarrow> headers \<Rightarrow> replay_body option \<Rightarrow> redirect_mode \<Rightarrow> thrown + out_request" where
  "new_request target meth hs replay mode =
     (case replay of
        None \<Rightarrow> Inr \<lparr>or_url = target, or_method = meth, or_headers = h_copy hs, or_body = None, or_redirect = mode\<rparr>
      | Some b \<Rightarrow>
          if meth \<in> {''GET'', ''HEAD''} then Inl (type_error ''Request with GET/HEAD method cannot have body.'')
          else
            (let copied = h_copy hs in
             Inr \<lparr>or_url = target, or_method = meth,
                  or_headers = (case rb_type b of
                     Some t \<Rightarrow> if h_has copied ''content-type'' then copied else h_append copied ''content-type'' t
                   | None \<Rightarrow> copied),
                  or_body = Some (rb_text b), or_redirect = mode\<rparr>))"

subsection \<open>Propagation (\<open>propagation.ts\<close>)\<close>

definition see_other :: nat where "see_other = 303"
definition moved :: nat where "moved = 301"
definition found :: nat where "found = 302"
definition max_redirects :: nat where "max_redirects = 20"
definition redirect_statuses :: "nat list" where "redirect_statuses = [moved, found, see_other, 307, 308]"

definition context_headers :: "string list \<Rightarrow> string option \<Rightarrow> out_request \<Rightarrow> headers" where
  "context_headers owned_origins traceparent req =
     (let hs = h_delete (h_delete (h_delete (or_headers req) ''baggage'') ''traceparent'') ''tracestate'' in
      case traceparent of
        Some t \<Rightarrow> if full_origin (or_url req) \<in> set owned_origins then h_set hs ''traceparent'' t else hs
      | None \<Rightarrow> hs)"

text \<open>Whether the answer to a redirect is a \<open>GET\<close>, and the headers the next hop starts from.\<close>

definition becomes_get :: "nat \<Rightarrow> string \<Rightarrow> bool" where
  "becomes_get st meth \<longleftrightarrow> st = see_other \<and> meth \<noteq> ''HEAD'' \<or> (st = moved \<or> st = found) \<and> meth = ''POST''"

definition next_headers :: "full_url \<Rightarrow> full_url \<Rightarrow> bool \<Rightarrow> headers \<Rightarrow> headers" where
  "next_headers target from to_get hs =
     (let hs1 = h_copy hs;
          hs2 = (if full_origin target \<noteq> full_origin from
                 then h_delete (h_delete (h_delete hs1 ''authorization'') ''cookie'') ''proxy-authorization''
                 else hs1) in
      if to_get then h_delete (h_delete hs2 ''content-type'') ''content-length'' else hs2)"

text \<open>The request of the next hop: where the answer points to, from what this hop was sent with.\<close>

definition next_request ::
    "out_request \<Rightarrow> replay_body option \<Rightarrow> nat \<Rightarrow> string \<Rightarrow> thrown + (out_request \<times> replay_body option)" where
  "next_request req replay st location =
     (case new_url_from location (url_href (or_url req)) of
        Inl e \<Rightarrow> Inl e
      | Inr target \<Rightarrow>
          (let to_get = becomes_get st (or_method req);
               hs = next_headers target (or_url req) to_get (or_headers req);
               again = (if to_get then None else replay) in
           if \<not> to_get \<and> or_body req \<noteq> None \<and> replay = None
           then Inl (type_error ''Streaming request bodies cannot be replayed after a redirect'')
           else
             (case new_request target (if to_get then ''GET'' else or_method req) hs again (or_redirect req) of
                Inl e \<Rightarrow> Inl e
              | Inr req' \<Rightarrow> Inr (req', again))))"

definition wire_request :: "out_request \<Rightarrow> fetch_request" where
  "wire_request req =
     \<lparr>fetch_url = url_href (or_url req), fetch_method = or_method req, fetch_headers = or_headers req,
      fetch_body = or_body req\<rparr>"

text \<open>\<open>fetch(request, { redirect: "manual" })\<close>\<close>

definition fetch_manual :: "'s platform \<Rightarrow> out_request \<Rightarrow> ('s, response) io" where
  "fetch_manual pl req =
     io_bind (io_lift (pl_fetch pl (wire_request req) None)) (\<lambda>outcome.
     case outcome of Faulted e timed_out \<Rightarrow> io_throw e | Fetched r \<Rightarrow> io_return r)"

definition redirect_location :: "out_request \<Rightarrow> response \<Rightarrow> string option" where
  "redirect_location req r =
     (case h_get (resp_headers r) ''location'' of
        Some location \<Rightarrow>
          if status r \<in> set redirect_statuses \<and> or_redirect req \<noteq> RedirectManual then Some location else None
      | None \<Rightarrow> None)"

fun fetch_with_context ::
    "'s platform \<Rightarrow> string list \<Rightarrow> string option \<Rightarrow> nat \<Rightarrow> out_request \<Rightarrow> replay_body option \<Rightarrow> ('s, response) io" where
  "fetch_with_context pl owned_origins traceparent remaining request replay =
     (let req = request\<lparr>or_headers := context_headers owned_origins traceparent request\<rparr> in
      io_bind (fetch_manual pl req) (\<lambda>r.
      case redirect_location req r of
        None \<Rightarrow> io_return r
      | Some location \<Rightarrow>
          if or_redirect req = RedirectError \<or> remaining = 0 then io_throw (type_error ''Fetch redirect refused'')
          else
            io_bind (io_of (next_request req replay (status r) location)) (\<lambda>(req', again).
            fetch_with_context pl owned_origins traceparent (remaining - 1) req' again)))"

declare fetch_with_context.simps [simp del]

subsection \<open>Lemmas: one hop\<close>

text \<open>\<open>sent\<close> reads the requests that have left the server.\<close>

definition records_requests :: "('s \<Rightarrow> fetch_request list) \<Rightarrow> 's platform \<Rightarrow> bool" where
  "records_requests sent pl \<longleftrightarrow> (\<forall>req timer s. sent (snd (pl_fetch pl req timer s)) = sent s @ [req])"

definition hop_origin :: "fetch_request \<Rightarrow> string" where
  "hop_origin h = (case parse_url None (fetch_url h) of Some u \<Rightarrow> full_origin u | None \<Rightarrow> '''')"

definition credential_headers :: "string list" where
  "credential_headers = [''authorization'', ''cookie'', ''proxy-authorization'']"

definition context_free :: "string list" where "context_free = [''baggage'', ''tracestate'']"

lemma hop_origin_wire [simp]: "url_wf (or_url req) \<Longrightarrow> hop_origin (wire_request req) = full_origin (or_url req)"
  by (simp add: hop_origin_def wire_request_def parse_url_href)

lemma context_headers_get:
  "h_get (context_headers owned tp req) n =
     (if to_lower n = ''traceparent'' then (if full_origin (or_url req) \<in> set owned then map_option header_value tp else None)
      else if to_lower n \<in> set context_free then None else h_get (or_headers req) n)"
  by (auto simp: context_headers_def context_free_def h_get_set h_get_delete to_lower_def lower_char_def Let_def
      split: option.splits)

lemma context_headers_norm: "h_norm (or_headers req) \<Longrightarrow> h_norm (context_headers owned tp req)"
  by (simp add: context_headers_def Let_def split: option.splits)

lemma credential_names: "n \<in> set credential_headers \<Longrightarrow>
    to_lower n = n \<and> n \<noteq> ''set-cookie'' \<and> n \<noteq> ''content-type'' \<and> n \<noteq> ''content-length'' \<and> n \<noteq> ''traceparent''
    \<and> n \<notin> set context_free"
  by (auto simp: credential_headers_def context_free_def to_lower_def lower_char_def)

lemma next_headers_norm: "h_norm (next_headers target from to_get hs)"
  by (simp add: next_headers_def Let_def)

lemma next_headers_credentials:
  assumes "h_norm hs" "n \<in> set credential_headers" "h_get (next_headers target from to_get hs) n \<noteq> None"
  shows "full_origin target = full_origin from \<and> h_get hs n \<noteq> None"
proof -
  from credential_names [OF assms(2)] assms(2) have n: "to_lower n = n" "n \<noteq> ''set-cookie''"
    "n \<noteq> ''content-type''" "n \<noteq> ''content-length''" "n \<in> {''authorization'', ''cookie'', ''proxy-authorization''}"
    by (auto simp: credential_headers_def)
  have lower: "to_lower ''content-type'' = ''content-type''" "to_lower ''content-length'' = ''content-length''"
    "to_lower ''authorization'' = ''authorization''" "to_lower ''cookie'' = ''cookie''"
    "to_lower ''proxy-authorization'' = ''proxy-authorization''"
    by (simp_all add: to_lower_def lower_char_def)
  show ?thesis
    using assms(3) n(3-5) h_get_copy [OF assms(1), of n] n(1,2)
    by (auto simp: next_headers_def Let_def h_get_delete lower split: if_split_asm)
qed

lemma new_request_fields:
  assumes "new_request target meth hs replay mode = Inr req"
  shows "or_url req = target" "h_norm (or_headers req)" "or_redirect req = mode"
    and "h_norm hs \<Longrightarrow> n \<in> set credential_headers \<Longrightarrow> h_get (or_headers req) n \<noteq> None \<Longrightarrow> h_get hs n \<noteq> None"
proof -
  have fields: "or_url req = target \<and> or_redirect req = mode \<and> (or_headers req = h_copy hs
      \<or> (\<exists>t. or_headers req = h_append (h_copy hs) ''content-type'' t))"
    using assms by (auto simp: new_request_def Let_def split: option.splits if_split_asm)
  then show "or_url req = target" "or_redirect req = mode" by simp_all
  from fields show "h_norm (or_headers req)" by auto
  assume n: "h_norm hs" "n \<in> set credential_headers" "h_get (or_headers req) n \<noteq> None"
  from credential_names [OF n(2)] have "to_lower n \<noteq> ''content-type''" "to_lower n \<noteq> ''set-cookie''" by simp_all
  moreover have "to_lower ''content-type'' = ''content-type''" by (simp add: to_lower_def lower_char_def)
  ultimately show "h_get hs n \<noteq> None"
    using fields n(3) h_get_copy [OF n(1), of n] by (auto simp: h_get_append_other)
qed

lemma next_request_keeps:
  assumes "next_request req replay st location = Inr (req', again)" "url_wf (or_url req)" "h_norm (or_headers req)"
  shows "url_wf (or_url req')" "h_norm (or_headers req')"
    and "n \<in> set credential_headers \<Longrightarrow> h_get (or_headers req') n \<noteq> None
      \<Longrightarrow> full_origin (or_url req') = full_origin (or_url req) \<and> h_get (or_headers req) n \<noteq> None"
proof -
  obtain target where target: "new_url_from location (url_href (or_url req)) = Inr target"
    using assms(1) by (auto simp: next_request_def split: sum.splits)
  obtain meth body where made: "new_request target meth
      (next_headers target (or_url req) (becomes_get st (or_method req)) (or_headers req)) body (or_redirect req) = Inr req'"
    using assms(1) target by (auto simp: next_request_def Let_def split: sum.splits if_split_asm)
  note f = new_request_fields [OF made]
  show "url_wf (or_url req')" using f(1) new_url_from_wf [OF target] by simp
  show "h_norm (or_headers req')" by (rule f(2))
  assume n: "n \<in> set credential_headers" "h_get (or_headers req') n \<noteq> None"
  show "full_origin (or_url req') = full_origin (or_url req) \<and> h_get (or_headers req) n \<noteq> None"
    using next_headers_credentials [OF assms(3) n(1) f(4) [OF next_headers_norm n]] f(1) by simp
qed

lemma fetch_manual_sends:
  assumes "records_requests sent pl" "fetch_manual pl req s = (r, s')"
  shows "sent s' = sent s @ [wire_request req]"
proof -
  have "s' = snd (pl_fetch pl (wire_request req) None s)"
    using assms(2) by (auto simp: fetch_manual_def io_bind_def io_lift_def io_throw_def io_return_def
        split: prod.splits fetch_outcome.splits)
  with assms(1) show ?thesis by (simp add: records_requests_def)
qed

subsection \<open>Lemmas: every hop\<close>

definition hop_ok :: "string list \<Rightarrow> string option \<Rightarrow> fetch_request \<Rightarrow> bool" where
  "hop_ok owned tp h \<longleftrightarrow>
     h_get (fetch_headers h) ''baggage'' = None \<and> h_get (fetch_headers h) ''tracestate'' = None
     \<and> h_get (fetch_headers h) ''traceparent'' = (if hop_origin h \<in> set owned then map_option header_value tp else None)"

definition carries_credentials :: "fetch_request \<Rightarrow> bool" where
  "carries_credentials h \<longleftrightarrow> (\<exists>n \<in> set credential_headers. h_get (fetch_headers h) n \<noteq> None)"

definition hops_ok :: "string list \<Rightarrow> string option \<Rightarrow> out_request \<Rightarrow> nat \<Rightarrow> fetch_request list \<Rightarrow> bool" where
  "hops_ok owned tp req remaining hops \<longleftrightarrow>
     hops \<noteq> [] \<and> length hops \<le> Suc remaining \<and> list_all (hop_ok owned tp) hops
     \<and> (\<forall>i < length hops. \<forall>n \<in> set credential_headers. h_get (fetch_headers (hops ! i)) n \<noteq> None
          \<longrightarrow> h_get (or_headers req) n \<noteq> None \<and> (\<forall>j \<le> i. hop_origin (hops ! j) = full_origin (or_url req)))"

lemma first_hop:
  assumes "url_wf (or_url req)"
  shows "hops_ok owned tp req remaining [wire_request (req\<lparr>or_headers := context_headers owned tp req\<rparr>)]"
proof -
  have lower: "to_lower ''baggage'' = ''baggage''" "to_lower ''tracestate'' = ''tracestate''" "to_lower ''traceparent'' = ''traceparent''"
    by (simp_all add: to_lower_def lower_char_def)
  have "hop_origin (wire_request (req\<lparr>or_headers := context_headers owned tp req\<rparr>)) = full_origin (or_url req)"
    using assms by simp
  then have "hop_ok owned tp (wire_request (req\<lparr>or_headers := context_headers owned tp req\<rparr>))"
    by (simp add: hop_ok_def) (simp add: wire_request_def context_headers_get lower context_free_def)
  moreover have "h_get (or_headers req) n \<noteq> None"
    if "n \<in> set credential_headers" "h_get (context_headers owned tp req) n \<noteq> None" for n
    using that credential_names [OF that(1)] by (simp add: context_headers_get)
  ultimately show ?thesis
    using assms by (simp add: hops_ok_def) (simp add: wire_request_def)
qed

lemma hops_ok_Cons:
  assumes "hops_ok owned tp req 0 [h]" "remaining \<noteq> 0" "hops_ok owned tp req' (remaining - 1) hops"
    and "\<And>n. n \<in> set credential_headers \<Longrightarrow> h_get (or_headers req') n \<noteq> None
      \<Longrightarrow> full_origin (or_url req') = full_origin (or_url req) \<and> h_get (or_headers req) n \<noteq> None"
    and "hop_origin h = full_origin (or_url req)"
  shows "hops_ok owned tp req remaining (h # hops)"
  unfolding hops_ok_def
proof (intro conjI allI impI ballI)
  fix i n
  assume i: "i < length (h # hops)" and n: "n \<in> set credential_headers" "h_get (fetch_headers ((h # hops) ! i)) n \<noteq> None"
  have "h_get (or_headers req) n \<noteq> None \<and> (\<forall>j \<le> i. hop_origin ((h # hops) ! j) = full_origin (or_url req))"
  proof (cases i)
    case 0
    with assms(1) n show ?thesis by (auto simp: hops_ok_def)
  next
    case (Suc k)
    with assms(3) i n have k: "h_get (or_headers req') n \<noteq> None" "\<forall>j \<le> k. hop_origin (hops ! j) = full_origin (or_url req')"
      by (simp_all add: hops_ok_def)
    with assms(4) [OF n(1) k(1)] assms(5) Suc show ?thesis by (auto simp: nth_Cons split: nat.splits)
  qed
  then show "h_get (or_headers req) n \<noteq> None" "\<And>j. j \<le> i \<Longrightarrow> hop_origin ((h # hops) ! j) = full_origin (or_url req)"
    by blast+
qed (use assms(1-3) in \<open>auto simp: hops_ok_def\<close>)

lemma fetch_with_context_hops:
  assumes "records_requests sent pl" "url_wf (or_url req)" "h_norm (or_headers req)"
    and "fetch_with_context pl owned tp remaining req replay s = (r, s')"
  shows "\<exists>hops. sent s' = sent s @ hops \<and> hops_ok owned tp req remaining hops"
  using assms
proof (induction pl owned tp remaining req replay arbitrary: s r s' rule: fetch_with_context.induct)
  case (1 pl owned tp remaining request replay)
  let ?req = "request\<lparr>or_headers := context_headers owned tp request\<rparr>"
  let ?h = "wire_request ?req"
  let ?goal = "\<exists>hops. sent s' = sent s @ hops \<and> hops_ok owned tp request remaining hops"
  note [simp] = fetch_with_context.simps
  obtain r1 s1 where go: "fetch_manual pl ?req s = (r1, s1)" by fastforce
  have s1: "sent s1 = sent s @ [?h]" by (rule fetch_manual_sends [OF 1(2) go])
  have h: "hops_ok owned tp request n [?h]" for n by (rule first_hop [OF 1(3)])
  have stop: ?goal if "s' = s1" using that s1 h by auto
  show ?case
  proof (cases r1)
    case (Inl e)
    with 1(5) go have "s' = s1" by (simp add: Let_def io_bind_def)
    then show ?thesis by (rule stop)
  next
    case (Inr resp)
    note run = 1(5) [simplified Let_def fetch_with_context.simps [of pl owned tp remaining], unfolded io_bind_def go Inr, simplified]
    show ?thesis
    proof (cases "redirect_location ?req resp")
      case None
      with run have "s' = s1" by (simp add: io_return_def)
      then show ?thesis by (rule stop)
    next
      case (Some location)
      show ?thesis
      proof (cases "or_redirect ?req = RedirectError \<or> remaining = 0")
        case True
        with run Some have "s' = s1" by (auto simp: io_throw_def)
        then show ?thesis by (rule stop)
      next
        case False
        show ?thesis
        proof (cases "next_request ?req replay (status resp) location")
          case (Inl e)
          with run Some False have "s' = s1" by (auto simp: io_throw_def)
          then show ?thesis by (rule stop)
        next
          case (Inr hop)
          obtain req' again where req': "hop = (req', again)" by fastforce
          have norm: "h_norm (or_headers ?req)" using context_headers_norm [OF 1(4)] by simp
          note keeps = next_request_keeps [OF Inr [unfolded req'] _ norm]
          have step: "fetch_with_context pl owned tp (remaining - 1) req' again s1 = (r, s')"
            using run Some False Inr req' by (simp add: io_return_def split: if_split_asm)
          obtain hops where hops: "sent s' = sent s1 @ hops" "hops_ok owned tp req' (remaining - 1) hops"
            using 1(1) [OF refl Some False 1(2) _ _ step] keeps 1(3) by auto
          have "hops_ok owned tp request remaining (?h # hops)"
          proof (rule hops_ok_Cons [OF h _ hops(2)])
            fix n assume n: "n \<in> set credential_headers" "h_get (or_headers req') n \<noteq> None"
            with keeps(3) [OF _ n] 1(3) credential_names [OF n(1)]
            show "full_origin (or_url req') = full_origin (or_url request) \<and> h_get (or_headers request) n \<noteq> None"
              by (simp add: context_headers_get)
          qed (use False 1(3) in auto)
          with hops(1) s1 show ?thesis by auto
        qed
      qed
    qed
  qed
qed

subsection \<open>What a traced fetch gives away\<close>

text \<open>
  The trace context goes to the configured origins only. However a fetch and the redirects it follows
  end, it sends at most one request more than the redirects it allows; each carries the caller's
  \<open>traceparent\<close> exactly when its own origin is a configured one, and none carries baggage or a trace state.
\<close>

lemma trace_context_stays_owned:
  assumes "records_requests sent pl" "url_wf (or_url req)" "h_norm (or_headers req)"
    and "fetch_with_context pl owned tp remaining req replay s = (r, s')"
  shows "\<exists>hops. sent s' = sent s @ hops \<and> 1 \<le> length hops \<and> length hops \<le> remaining + 1
    \<and> (\<forall>h \<in> set hops.
         h_get (fetch_headers h) ''traceparent'' = (if hop_origin h \<in> set owned then map_option header_value tp else None)
         \<and> h_get (fetch_headers h) ''baggage'' = None \<and> h_get (fetch_headers h) ''tracestate'' = None)"
proof -
  obtain hops where hops: "sent s' = sent s @ hops" "hops_ok owned tp req remaining hops"
    using fetch_with_context_hops [OF assms] by blast
  then have "1 \<le> length hops" by (cases hops) (simp_all add: hops_ok_def)
  with hops show ?thesis
    by (intro exI [of _ hops]) (simp add: hops_ok_def hop_ok_def list_all_iff)
qed

text \<open>
  C21: Credentials stay on the origin they were given for. A request of the chain that carries an
  authorization, a cookie or a proxy authorization carries one the caller set, and neither it nor any
  request before it left the origin the caller addressed: one foreign hop drops them for good.
\<close>

theorem credentials_stay_on_origin:
  assumes "records_requests sent pl" "url_wf (or_url req)" "h_norm (or_headers req)"
    and "fetch_with_context pl owned tp remaining req replay s = (r, s')"
  shows "\<exists>hops. sent s' = sent s @ hops
    \<and> (\<forall>i < length hops. \<forall>n \<in> {''authorization'', ''cookie'', ''proxy-authorization''}.
         h_get (fetch_headers (hops ! i)) n \<noteq> None \<longrightarrow>
           h_get (or_headers req) n \<noteq> None \<and> (\<forall>j \<le> i. hop_origin (hops ! j) = full_origin (or_url req)))"
proof -
  obtain hops where "sent s' = sent s @ hops" "hops_ok owned tp req remaining hops"
    using fetch_with_context_hops [OF assms] by blast
  then show ?thesis
    by (intro exI [of _ hops]) (simp add: hops_ok_def credential_headers_def)
qed

subsection \<open>Examples\<close>

text \<open>A server that sends every request for \<open>app.test\<close> on to another origin.\<close>

definition demo_redirecting_fetch :: "fetch_request \<Rightarrow> int option \<Rightarrow> fetch_request list \<Rightarrow> fetch_outcome \<times> fetch_request list" where
  "demo_redirecting_fetch req timer log =
     (if hop_origin req = ''https://app.test''
      then (Fetched \<lparr>status = 302, resp_headers = [(''location'', ''http://api.test/b'')], resp_body = None, status_text = ''''\<rparr>, log @ [req])
      else (Fetched \<lparr>status = 200, resp_headers = [], resp_body = Some ''ok'', status_text = ''OK''\<rparr>, log @ [req]))"

definition demo_redirecting :: "fetch_request list platform" where
  "demo_redirecting = demo_platform\<lparr>pl_fetch := demo_redirecting_fetch\<rparr>"

definition demo_out_request :: out_request where
  "demo_out_request =
     \<lparr>or_url = mk_url ''https'' ''app.test'' [''a''] None None, or_method = ''POST'',
      or_headers = [(''authorization'', ''Bearer t''), (''baggage'', ''k=v''), (''content-type'', ''text/plain'')],
      or_body = Some ''hello'', or_redirect = RedirectFollow\<rparr>"

lemma demo_out_request_ok: "url_wf (or_url demo_out_request)" "h_norm (or_headers demo_out_request)"
proof -
  show "url_wf (or_url demo_out_request)"
    using example_host(1) by (auto simp: demo_out_request_def intro!: mk_url_wf) (simp_all add: seg_simps)
  show "h_norm (or_headers demo_out_request)"
    by (simp add: demo_out_request_def h_norm_def to_lower_def lower_char_def header_value_def http_ws_def)
qed

lemma demo_redirecting_records: "records_requests id demo_redirecting"
  by (simp add: records_requests_def demo_redirecting_def demo_redirecting_fetch_def)

lemma fetch_with_context_answers:
  assumes "fetch_manual pl (req\<lparr>or_headers := context_headers owned tp req\<rparr>) s = (Inr r, s')"
    and "redirect_location (req\<lparr>or_headers := context_headers owned tp req\<rparr>) r = None"
  shows "fetch_with_context pl owned tp remaining req replay s = (Inr r, s')"
  using assms by (simp add: fetch_with_context.simps Let_def io_bind_def io_return_def)

lemma fetch_with_context_follows:
  assumes "fetch_manual pl (req\<lparr>or_headers := context_headers owned tp req\<rparr>) s = (Inr r, s')"
    and "redirect_location (req\<lparr>or_headers := context_headers owned tp req\<rparr>) r = Some location"
    and "or_redirect req \<noteq> RedirectError" "remaining \<noteq> 0"
    and "next_request (req\<lparr>or_headers := context_headers owned tp req\<rparr>) replay (status r) location = Inr (req', again)"
  shows "fetch_with_context pl owned tp remaining req replay s = fetch_with_context pl owned tp (remaining - 1) req' again s'"
  using assms by (subst fetch_with_context.simps) (simp add: Let_def io_bind_def io_return_def)

definition demo_hops :: "fetch_request list" where
  "demo_hops =
     [\<lparr>fetch_url = ''https://app.test/a'', fetch_method = ''POST'',
       fetch_headers = [(''authorization'', ''Bearer t''), (''content-type'', ''text/plain''), (''traceparent'', ''00-1-2-01'')],
       fetch_body = Some ''hello''\<rparr>,
      \<lparr>fetch_url = ''http://api.test/b'', fetch_method = ''GET'', fetch_headers = [], fetch_body = None\<rparr>]"

lemma demo_redirected_run:
  "\<exists>r. fetch_with_context demo_redirecting [''https://app.test''] (Some ''00-1-2-01'') 20 demo_out_request None []
     = (r, demo_hops)"
proof -
  let ?first = "demo_out_request\<lparr>or_headers := context_headers [''https://app.test''] (Some ''00-1-2-01'') demo_out_request\<rparr>"
  let ?second = "\<lparr>or_url = mk_url ''http'' ''api.test'' [''b''] None None, or_method = ''GET'', or_headers = [(''traceparent'', ''00-1-2-01'')],
      or_body = None, or_redirect = RedirectFollow\<rparr>"
  let ?moved = "\<lparr>status = 302, resp_headers = [(''location'', ''http://api.test/b'')], resp_body = None, status_text = ''''\<rparr>"
  have second: "url_wf (or_url ?second)"
    using example_host(2) by (auto intro!: mk_url_wf) (simp_all add: seg_simps)
  have "hop_origin (wire_request ?first) = ''https://app.test''"
    using demo_out_request_ok(1) by (simp add: demo_out_request_def full_origin_def mk_url_def)
  moreover have "wire_request ?first = demo_hops ! 0" by code_simp
  ultimately have sent: "fetch_manual demo_redirecting ?first [] = (Inr ?moved, take 1 demo_hops)"
    by (simp add: fetch_manual_def io_bind_def io_lift_def io_return_def demo_redirecting_def demo_redirecting_fetch_def demo_hops_def)
  have location: "redirect_location ?first ?moved = Some ''http://api.test/b''" by code_simp
  have again: "next_request ?first None (status ?moved) ''http://api.test/b'' = Inr (?second, None)"
  proof -
    have href: "url_href (or_url ?second) = ''http://api.test/b''" by code_simp
    have target: "new_url_from ''http://api.test/b'' (url_href (or_url ?first)) = Inr (or_url ?second)"
      using demo_out_request_ok(1) parse_url_href [OF second] by (simp add: new_url_from_def parse_url_href flip: href)
    have "full_origin (or_url ?second) \<noteq> full_origin (or_url ?first)" by code_simp
    moreover have "h_copy (or_headers ?first)
        = [(''authorization'', ''Bearer t''), (''content-type'', ''text/plain''), (''traceparent'', ''00-1-2-01'')]" by code_simp
    ultimately have "next_headers (or_url ?second) (or_url ?first) True (or_headers ?first) = [(''traceparent'', ''00-1-2-01'')]"
      by (simp add: next_headers_def Let_def h_delete_def to_lower_def lower_char_def)
    moreover have "becomes_get (status ?moved) (or_method ?first)" by code_simp
    ultimately show ?thesis
      unfolding next_request_def target
      by (simp add: new_request_def demo_out_request_def) code_simp
  qed
  have follow: "or_redirect demo_out_request \<noteq> RedirectError" by (simp add: demo_out_request_def)
  have "fetch_with_context demo_redirecting [''https://app.test''] (Some ''00-1-2-01'') 20 demo_out_request None []
      = fetch_with_context demo_redirecting [''https://app.test''] (Some ''00-1-2-01'') (20 - 1) ?second None (take 1 demo_hops)"
    by (rule fetch_with_context_follows [OF sent location follow _ again]) simp
  moreover have "fetch_with_context demo_redirecting [''https://app.test''] (Some ''00-1-2-01'') (20 - 1) ?second None (take 1 demo_hops)
      = (Inr \<lparr>status = 200, resp_headers = [], resp_body = Some ''ok'', status_text = ''OK''\<rparr>, demo_hops)"
  proof (rule fetch_with_context_answers)
    let ?last = "?second\<lparr>or_headers := context_headers [''https://app.test''] (Some ''00-1-2-01'') ?second\<rparr>"
    have "hop_origin (wire_request ?last) = ''http://api.test''"
      using second by (simp add: full_origin_def mk_url_def)
    moreover have "wire_request ?last = demo_hops ! 1" by code_simp
    ultimately show "fetch_manual demo_redirecting ?last (take 1 demo_hops)
        = (Inr \<lparr>status = 200, resp_headers = [], resp_body = Some ''ok'', status_text = ''OK''\<rparr>, demo_hops)"
      by (simp add: fetch_manual_def io_bind_def io_lift_def io_return_def demo_redirecting_def demo_redirecting_fetch_def demo_hops_def)
  qed (code_simp)
  ultimately show ?thesis by auto
qed

lemma trace_context_stays_owned_witness:
  "\<exists>hops. snd (fetch_with_context demo_redirecting [''https://app.test''] (Some ''00-1-2-01'') 20 demo_out_request None []) = hops
    \<and> length hops = 2
    \<and> (\<forall>h \<in> set hops. h_get (fetch_headers h) ''traceparent''
         = (if hop_origin h \<in> set [''https://app.test''] then map_option header_value (Some ''00-1-2-01'') else None))"
proof -
  obtain r s' where run: "fetch_with_context demo_redirecting [''https://app.test''] (Some ''00-1-2-01'') 20 demo_out_request None []
      = (r, s')" by (rule prod.exhaust)
  from trace_context_stays_owned [OF demo_redirecting_records demo_out_request_ok run]
  show ?thesis using demo_redirected_run run by (auto simp: demo_hops_def)
qed

lemma credentials_stay_on_origin_witness:
  "\<exists>hops. snd (fetch_with_context demo_redirecting [''https://app.test''] (Some ''00-1-2-01'') 20 demo_out_request None []) = hops
    \<and> length hops = 2 \<and> h_get (fetch_headers (hops ! 0)) ''authorization'' = Some ''Bearer t''
    \<and> (\<forall>i < length hops. \<forall>n \<in> {''authorization'', ''cookie'', ''proxy-authorization''}.
         h_get (fetch_headers (hops ! i)) n \<noteq> None \<longrightarrow> (\<forall>j \<le> i. hop_origin (hops ! j) = full_origin (or_url demo_out_request)))"
proof -
  obtain r s' where run: "fetch_with_context demo_redirecting [''https://app.test''] (Some ''00-1-2-01'') 20 demo_out_request None []
      = (r, s')" by (rule prod.exhaust)
  have auth: "h_get (fetch_headers (s' ! 0)) ''authorization'' = Some ''Bearer t''" "length s' = 2"
    using demo_redirected_run run by (auto simp: demo_hops_def h_get_def h_values_def to_lower_def lower_char_def)
  from credentials_stay_on_origin [OF demo_redirecting_records demo_out_request_ok run] auth
  show ?thesis using run by auto
qed

end
