(* ===== verification/Exporter.thy ===== *)
theory Exporter
  imports Propagation "HOL-Library.Sublist"
begin

section \<open>The exporter of a server's telemetry (\<open>packages/telemetry/src/exporter.ts\<close>)\<close>

text \<open>
  A queue of serialised records under one byte budget, drained by one request at a time. The closure's
  variables are a record; each piece of code that runs without an \<open>await\<close> is one function on it, and
  \<open>export_step\<close> lets those pieces follow each other in every order the promises and timers allow.
\<close>

subsection \<open>State\<close>

datatype signal = SignalLogs | SignalTraces | SignalMetrics

primrec signal_text :: "signal \<Rightarrow> string" where
  "signal_text SignalLogs = ''logs''"
| "signal_text SignalTraces = ''traces''"
| "signal_text SignalMetrics = ''metrics''"

text \<open>
  The one callback a caller passes marks an error object as delivered (or does nothing): it is the
  identity of that object.
\<close>

record export_item =
  xi_signal :: signal
  xi_body :: string
  xi_bytes :: int
  xi_on_exported :: "nat option"

record export_stats =
  xs_queued_bytes :: int
  xs_exported :: int
  xs_dropped :: int
  xs_failed :: int

text \<open>\<open>exporting\<close>: no drain, a drain at the head of its loop, or one that awaits its request.\<close>

datatype drain_state = DrainIdle | DrainHead | DrainAwaiting export_item

record exporter =
  ex_queue :: "export_item list"
  ex_stats :: export_stats
  ex_stopped :: bool
  ex_aborted :: bool
  ex_drain :: drain_state
  ex_shutdowns :: nat
  ex_delivered :: "nat list"

record exporter_options =
  eo_endpoint :: string
  eo_credential :: string
  eo_environment :: string
  eo_release :: string

definition create_exporter :: exporter where
  "create_exporter =
     \<lparr>ex_queue = [], ex_stats = \<lparr>xs_queued_bytes = 0, xs_exported = 0, xs_dropped = 0, xs_failed = 0\<rparr>,
      ex_stopped = False, ex_aborted = False, ex_drain = DrainIdle, ex_shutdowns = 0, ex_delivered = []\<rparr>"

subsection \<open>Operations\<close>

definition drop_record :: "exporter \<Rightarrow> exporter" where
  "drop_record ex = ex\<lparr>ex_stats := (ex_stats ex)\<lparr>xs_dropped := xs_dropped (ex_stats ex) + 1\<rparr>\<rparr>"

text \<open>\<open>None\<close> for a payload is one that \<open>JSON.stringify\<close> throws on.\<close>

definition enqueue :: "exporter \<Rightarrow> signal \<Rightarrow> string option \<Rightarrow> nat option \<Rightarrow> exporter" where
  "enqueue ex sig payload on_exported =
     (if ex_stopped ex then drop_record ex
      else case payload of
        None \<Rightarrow> drop_record ex
      | Some body \<Rightarrow>
          (let bytes = int (length (utf8_encode body)) in
           if bytes > request_bytes \<or> xs_queued_bytes (ex_stats ex) + bytes > buffered_bytes then drop_record ex
           else ex\<lparr>ex_queue := ex_queue ex @ [\<lparr>xi_signal = sig, xi_body = body, xi_bytes = bytes, xi_on_exported = on_exported\<rparr>],
                  ex_stats := (ex_stats ex)\<lparr>xs_queued_bytes := xs_queued_bytes (ex_stats ex) + bytes\<rparr>\<rparr>))"

definition flush_exports :: "exporter \<Rightarrow> exporter" where
  "flush_exports ex = (if ex_drain ex = DrainIdle then ex\<lparr>ex_drain := DrainHead\<rparr> else ex)"

definition export_request :: "exporter_options \<Rightarrow> export_item \<Rightarrow> fetch_request" where
  "export_request options item =
     \<lparr>fetch_url = eo_endpoint options @ ''/v1/'' @ signal_text (xi_signal item), fetch_method = ''POST'',
      fetch_headers = h_of [(''content-type'', ''application/json''), (''authorization'', ''Bearer '' @ eo_credential options),
        (''x-wallow-environment'', eo_environment options), (''x-wallow-release'', eo_release options)],
      fetch_body = Some (xi_body item)\<rparr>"

text \<open>The head of \<open>drain\<close>'s loop: take the next item and send it, or end.\<close>

definition drain_next :: "exporter \<Rightarrow> (exporter \<times> export_item) option" where
  "drain_next ex =
     (case ex_queue ex of
        [] \<Rightarrow> None
      | item # rest \<Rightarrow>
          if ex_aborted ex then None
          else Some (ex\<lparr>ex_queue := rest, ex_drain := DrainAwaiting item\<rparr>, item))"

definition drain_end :: "exporter \<Rightarrow> exporter" where
  "drain_end ex = ex\<lparr>ex_drain := DrainIdle\<rparr>"

text \<open>The request's outcome: whether the response was a success, or nothing for a rejection.\<close>

definition drain_settle :: "exporter \<Rightarrow> export_item \<Rightarrow> bool option \<Rightarrow> exporter" where
  "drain_settle ex item outcome =
     (let st = ex_stats ex;
          st' = (if outcome = Some True then st\<lparr>xs_exported := xs_exported st + 1\<rparr> else st\<lparr>xs_failed := xs_failed st + 1\<rparr>) in
      ex\<lparr>ex_stats := st'\<lparr>xs_queued_bytes := xs_queued_bytes st - xi_bytes item\<rparr>, ex_drain := DrainHead,
         ex_delivered := (case xi_on_exported item of
            Some e \<Rightarrow> if outcome = Some True then e # ex_delivered ex else ex_delivered ex
          | None \<Rightarrow> ex_delivered ex)\<rparr>)"

text \<open>\<open>shutdown\<close> up to its \<open>await\<close>, its deadline, and what follows the \<open>await\<close>.\<close>

definition begin_shutdown :: "exporter \<Rightarrow> exporter" where
  "begin_shutdown ex = flush_exports (ex\<lparr>ex_stopped := True, ex_shutdowns := Suc (ex_shutdowns ex)\<rparr>)"

definition shutdown_deadline :: "exporter \<Rightarrow> exporter" where
  "shutdown_deadline ex = ex\<lparr>ex_aborted := True\<rparr>"

definition end_shutdown :: "exporter \<Rightarrow> exporter" where
  "end_shutdown ex =
     ex\<lparr>ex_stats := (ex_stats ex)\<lparr>xs_dropped := xs_dropped (ex_stats ex) + int (length (ex_queue ex)), xs_queued_bytes := 0\<rparr>,
        ex_queue := [], ex_shutdowns := ex_shutdowns ex - 1\<rparr>"

subsection \<open>What may happen next\<close>

datatype export_event =
    Enqueued signal "string option" "nat option"
  | FlushCalled
  | Posted fetch_request
  | Settled "bool option"
  | Drained
  | ShutdownCalled
  | DeadlinePassed
  | ShutdownEnded

inductive export_step :: "exporter_options \<Rightarrow> exporter \<Rightarrow> export_event \<Rightarrow> exporter \<Rightarrow> bool"
  for options :: exporter_options where
  step_enqueue: "export_step options ex (Enqueued sig payload on_exported) (enqueue ex sig payload on_exported)"
| step_flush: "export_step options ex FlushCalled (flush_exports ex)"
| step_post: "ex_drain ex = DrainHead \<Longrightarrow> drain_next ex = Some (ex', item)
    \<Longrightarrow> export_step options ex (Posted (export_request options item)) ex'"
| step_drained: "ex_drain ex = DrainHead \<Longrightarrow> drain_next ex = None \<Longrightarrow> export_step options ex Drained (drain_end ex)"
| step_settle: "ex_drain ex = DrainAwaiting item \<Longrightarrow> export_step options ex (Settled outcome) (drain_settle ex item outcome)"
| step_shutdown: "export_step options ex ShutdownCalled (begin_shutdown ex)"
| step_deadline: "0 < ex_shutdowns ex \<Longrightarrow> export_step options ex DeadlinePassed (shutdown_deadline ex)"
| step_ended: "0 < ex_shutdowns ex \<Longrightarrow> ex_drain ex = DrainIdle \<Longrightarrow> export_step options ex ShutdownEnded (end_shutdown ex)"

inductive_cases export_stepE: "export_step options ex ev ex'"

text \<open>A life of the exporter: its events so far (in order), and its state.\<close>

inductive exporter_life :: "exporter_options \<Rightarrow> export_event list \<Rightarrow> exporter \<Rightarrow> bool"
  for options :: exporter_options where
  life_start: "exporter_life options [] create_exporter"
| life_step: "exporter_life options evs ex \<Longrightarrow> export_step options ex ev ex' \<Longrightarrow> exporter_life options (evs @ [ev]) ex'"

subsection \<open>Lemmas: the budget and the books\<close>

definition in_flight :: "exporter \<Rightarrow> export_item list" where
  "in_flight ex = (case ex_drain ex of DrainAwaiting item \<Rightarrow> [item] | _ \<Rightarrow> [])"

definition held :: "exporter \<Rightarrow> export_item list" where
  "held ex = in_flight ex @ ex_queue ex"

definition held_bytes :: "exporter \<Rightarrow> int" where
  "held_bytes ex = sum_list (map xi_bytes (held ex))"

fun is_enqueued :: "export_event \<Rightarrow> bool" where
  "is_enqueued (Enqueued _ _ _) = True"
| "is_enqueued _ = False"

definition offered :: "export_event list \<Rightarrow> int" where
  "offered evs = int (length (filter is_enqueued evs))"

definition settled_count :: "exporter \<Rightarrow> int" where
  "settled_count ex = xs_exported (ex_stats ex) + xs_failed (ex_stats ex) + xs_dropped (ex_stats ex)"

definition item_ok :: "export_item \<Rightarrow> bool" where
  "item_ok item \<longleftrightarrow> xi_bytes item = int (length (utf8_encode (xi_body item))) \<and> xi_bytes item \<le> request_bytes"

definition exporter_ok :: "export_event list \<Rightarrow> exporter \<Rightarrow> bool" where
  "exporter_ok evs ex \<longleftrightarrow>
     xs_queued_bytes (ex_stats ex) = held_bytes ex \<and> held_bytes ex \<le> buffered_bytes \<and> list_all item_ok (held ex)
     \<and> offered evs = settled_count ex + int (length (held ex))"

lemma held_bytes_nonneg: "list_all item_ok (held ex) \<Longrightarrow> 0 \<le> held_bytes ex"
proof -
  have "0 \<le> sum_list (map xi_bytes items)" if "list_all item_ok items" for items
    using that by (induction items) (auto simp: item_ok_def)
  then show "list_all item_ok (held ex) \<Longrightarrow> 0 \<le> held_bytes ex" by (simp add: held_bytes_def)
qed

lemmas exporter_defs = exporter_ok_def held_bytes_def held_def in_flight_def settled_count_def offered_def

lemma exporter_ok_step:
  assumes "exporter_ok evs ex" "export_step options ex ev ex'"
  shows "exporter_ok (evs @ [ev]) ex'"
  using assms(2)
proof cases
  case (step_enqueue sig payload on_exported)
  show ?thesis
  proof (cases "\<exists>body. payload = Some body \<and> \<not> ex_stopped ex \<and> int (length (utf8_encode body)) \<le> request_bytes
      \<and> xs_queued_bytes (ex_stats ex) + int (length (utf8_encode body)) \<le> buffered_bytes")
    case True
    with assms(1) step_enqueue show ?thesis
      by (auto simp: exporter_defs enqueue_def item_ok_def Let_def split: drain_state.splits)
  next
    case False
    then have "ex' = drop_record ex" using step_enqueue by (auto simp: enqueue_def Let_def split: option.splits)
    with assms(1) step_enqueue(1) show ?thesis by (simp add: exporter_defs drop_record_def)
  qed
next
  case (step_post item)
  with assms(1) show ?thesis
    by (auto simp: exporter_defs drain_next_def split: list.splits if_split_asm)
next
  case (step_settle item outcome)
  with assms(1) have "xs_queued_bytes (ex_stats ex) = xi_bytes item + sum_list (map xi_bytes (ex_queue ex))" "item_ok item"
    by (simp_all add: exporter_defs)
  moreover from this have "0 \<le> xi_bytes item" by (simp add: item_ok_def)
  ultimately show ?thesis
    using assms(1) step_settle by (auto simp: exporter_defs drain_settle_def Let_def)
next
  case step_ended
  with assms(1) held_bytes_nonneg [of ex] show ?thesis
    by (auto simp: exporter_defs end_shutdown_def buffered_bytes_def)
qed (use assms(1) in \<open>auto simp: exporter_defs flush_exports_def drain_end_def begin_shutdown_def shutdown_deadline_def
      split: drain_state.splits\<close>)

lemma exporter_life_ok: "exporter_life options evs ex \<Longrightarrow> exporter_ok evs ex"
proof (induction rule: exporter_life.induct)
  case life_start
  show ?case by (simp add: exporter_defs create_exporter_def buffered_bytes_def)
qed (rule exporter_ok_step)

subsection \<open>Lemmas: order\<close>

fun posted_requests :: "export_event list \<Rightarrow> fetch_request list" where
  "posted_requests [] = []"
| "posted_requests (Posted r # evs) = r # posted_requests evs"
| "posted_requests (ev # evs) = posted_requests evs"

fun offered_requests :: "exporter_options \<Rightarrow> export_event list \<Rightarrow> fetch_request list" where
  "offered_requests options [] = []"
| "offered_requests options (Enqueued sig (Some body) on_exported # evs) =
     export_request options \<lparr>xi_signal = sig, xi_body = body, xi_bytes = 0, xi_on_exported = None\<rparr> # offered_requests options evs"
| "offered_requests options (ev # evs) = offered_requests options evs"

lemma posted_requests_append [simp]: "posted_requests (evs @ evs') = posted_requests evs @ posted_requests evs'"
  by (induction evs rule: posted_requests.induct) auto

lemma offered_requests_append [simp]:
  "offered_requests options (evs @ evs') = offered_requests options evs @ offered_requests options evs'"
  by (induction options evs rule: offered_requests.induct) auto

lemma export_request_cong:
  "xi_signal a = xi_signal b \<Longrightarrow> xi_body a = xi_body b \<Longrightarrow> export_request options a = export_request options b"
  by (simp add: export_request_def)

text \<open>What has been sent and what waits, in order, is part of what was offered; all of it if nothing was dropped.\<close>

definition in_order :: "exporter_options \<Rightarrow> export_event list \<Rightarrow> exporter \<Rightarrow> bool" where
  "in_order options evs ex \<longleftrightarrow>
     (let out = posted_requests evs @ map (export_request options) (ex_queue ex) in
      subseq out (offered_requests options evs) \<and> 0 \<le> xs_dropped (ex_stats ex)
      \<and> (xs_dropped (ex_stats ex) = 0 \<longrightarrow> out = offered_requests options evs))"

lemma subseq_append_left: "subseq xs ys \<Longrightarrow> subseq xs (ys @ zs)"
  by (metis append_Nil2 list_emb_append_mono list_emb_Nil)

lemma subseq_drop_right: "subseq (xs @ ys) zs \<Longrightarrow> subseq xs zs"
  by (meson prefix_def prefix_imp_subseq subseq_order.trans)

lemma in_order_dropped:
  assumes "in_order options evs ex" "posted_requests [ev] = []"
  shows "in_order options (evs @ [ev]) (drop_record ex)"
  using assms subseq_append_left by (auto simp: in_order_def drop_record_def Let_def)

lemma in_order_same:
  assumes "in_order options evs ex" "posted_requests [ev] = []" "offered_requests options [ev] = []"
    and "ex_queue ex' = ex_queue ex" "xs_dropped (ex_stats ex') = xs_dropped (ex_stats ex)"
  shows "in_order options (evs @ [ev]) ex'"
  using assms by (simp add: in_order_def)

lemma in_order_step:
  assumes "in_order options evs ex" "export_step options ex ev ex'"
  shows "in_order options (evs @ [ev]) ex'"
  using assms(2)
proof cases
  case (step_enqueue sig payload on_exported)
  show ?thesis
  proof (cases "ex' = drop_record ex")
    case True
    with in_order_dropped [OF assms(1), of ev] step_enqueue show ?thesis by simp
  next
    case False
    then obtain body where body: "payload = Some body" "ex_queue ex' = ex_queue ex @
        [\<lparr>xi_signal = sig, xi_body = body, xi_bytes = int (length (utf8_encode body)), xi_on_exported = on_exported\<rparr>]"
      "xs_dropped (ex_stats ex') = xs_dropped (ex_stats ex)"
      using step_enqueue by (auto simp: enqueue_def Let_def split: option.splits if_split_asm)
    then have "map (export_request options) (ex_queue ex')
        = map (export_request options) (ex_queue ex) @ offered_requests options [ev]"
      using step_enqueue by (simp add: export_request_cong)
    with assms(1) body step_enqueue(1) show ?thesis
      by (auto simp: in_order_def Let_def simp flip: append_assoc intro!: list_emb_append_mono)
  qed
next
  case (step_post item)
  then have "ex_queue ex = item # ex_queue ex'" "ex_stats ex' = ex_stats ex"
    by (auto simp: drain_next_def split: list.splits if_split_asm)
  with assms(1) step_post(1) show ?thesis by (simp add: in_order_def Let_def)
next
  case step_ended
  moreover have "ex_queue ex = []" if "xs_dropped (ex_stats ex) + int (length (ex_queue ex)) = 0" "0 \<le> xs_dropped (ex_stats ex)"
    using that by (cases "ex_queue ex") auto
  ultimately show ?thesis
    using assms(1) by (auto simp: in_order_def end_shutdown_def Let_def intro: subseq_drop_right)
qed (auto intro!: in_order_same [OF assms(1)]
      simp: flush_exports_def drain_end_def begin_shutdown_def shutdown_deadline_def drain_settle_def Let_def)

lemma exporter_life_in_order: "exporter_life options evs ex \<Longrightarrow> in_order options evs ex"
proof (induction rule: exporter_life.induct)
  case life_start
  show ?case by (simp add: in_order_def create_exporter_def)
qed (rule in_order_step)

subsection \<open>Lemmas: after a shutdown\<close>

definition closed_down :: "exporter \<Rightarrow> bool" where
  "closed_down ex \<longleftrightarrow> ex_stopped ex \<and> held ex = []"

lemma closed_down_step:
  assumes "closed_down ex" "export_step options ex ev ex'"
  shows "closed_down ex' \<and> posted_requests [ev] = []"
  using assms(2)
proof cases
  case (step_enqueue sig payload on_exported)
  with assms(1) show ?thesis by (simp add: closed_down_def enqueue_def drop_record_def held_def in_flight_def)
qed (use assms(1) in \<open>auto simp: closed_down_def held_def in_flight_def drain_next_def flush_exports_def drain_end_def
      begin_shutdown_def shutdown_deadline_def end_shutdown_def split: drain_state.splits\<close>)

lemma stopped_step:
  assumes "export_step options ex ev ex'" "0 < ex_shutdowns ex \<longrightarrow> ex_stopped ex"
  shows "(0 < ex_shutdowns ex' \<longrightarrow> ex_stopped ex') \<and> (ev = ShutdownEnded \<longrightarrow> closed_down ex')"
  using assms(1)
proof cases
  case (step_enqueue sig payload on_exported)
  with assms(2) show ?thesis by (auto simp: enqueue_def drop_record_def Let_def split: option.splits)
next
  case step_ended
  with assms(2) show ?thesis by (auto simp: closed_down_def held_def in_flight_def end_shutdown_def)
next
  case (step_post item)
  with assms(2) show ?thesis by (auto simp: drain_next_def split: list.splits if_split_asm)
qed (use assms(2) in \<open>auto simp: flush_exports_def drain_end_def begin_shutdown_def shutdown_deadline_def drain_settle_def Let_def\<close>)

lemma life_stopped:
  "exporter_life options evs ex \<Longrightarrow> (0 < ex_shutdowns ex \<longrightarrow> ex_stopped ex) \<and> (ShutdownEnded \<in> set evs \<longrightarrow> closed_down ex)"
proof (induction rule: exporter_life.induct)
  case life_start
  show ?case by (simp add: create_exporter_def)
next
  case (life_step evs ex ev ex')
  then show ?case using stopped_step [OF life_step(2)] closed_down_step [OF _ life_step(2)] by auto
qed

subsection \<open>What the exporter promises\<close>

text \<open>
  C27: The exporter stays within its budget and keeps its books. At every moment of its life, whatever
  the order in which records, flushes, answers, deadlines and shutdowns come, the bytes it counts as queued
  are those of the records it holds (the one in flight included), at most eight mebibytes, none above one;
  and every record ever offered is exactly one of exported, failed, dropped or still held.
\<close>

theorem exporter_keeps_budget_and_books:
  assumes "exporter_life options evs ex"
  shows "xs_queued_bytes (ex_stats ex) = held_bytes ex \<and> held_bytes ex \<le> buffered_bytes
    \<and> (\<forall>item \<in> set (held ex). int (length (utf8_encode (xi_body item))) \<le> request_bytes)
    \<and> offered evs = xs_exported (ex_stats ex) + xs_failed (ex_stats ex) + xs_dropped (ex_stats ex) + int (length (held ex))"
  using exporter_life_ok [OF assms] by (auto simp: exporter_ok_def list_all_iff item_ok_def settled_count_def)

text \<open>
  C28: Records leave in the order they came, each at most once. The requests sent so far, followed by
  those that wait, are a subsequence of the requests the offered records stand for; they are all of them, in
  order, as long as nothing has been dropped.
\<close>

theorem exporter_sends_in_order:
  assumes "exporter_life options evs ex"
  shows "subseq (posted_requests evs @ map (export_request options) (ex_queue ex)) (offered_requests options evs)
    \<and> (xs_dropped (ex_stats ex) = 0 \<longrightarrow>
         posted_requests evs @ map (export_request options) (ex_queue ex) = offered_requests options evs)"
  using exporter_life_in_order [OF assms] by (simp add: in_order_def Let_def)

text \<open>Once a shutdown has ended, nothing is sent any more and nothing is left unaccounted.\<close>

lemma shutdown_is_final:
  assumes "exporter_life options (evs @ later) ex" "ShutdownEnded \<in> set evs"
  shows "posted_requests later = [] \<and> held ex = [] \<and> offered (evs @ later) = settled_count ex"
proof -
  have "posted_requests later = []" using assms(1)
  proof (induction later arbitrary: ex rule: rev_induct)
    case (snoc ev later)
    from snoc(2) obtain before where before: "exporter_life options (evs @ later) before" "export_step options before ev ex"
      by (cases rule: exporter_life.cases) auto
    then have "closed_down before" using life_stopped assms(2) by fastforce
    with closed_down_step [OF this before(2)] snoc(1) [OF before(1)] show ?case by simp
  qed simp
  moreover have "held ex = []" using life_stopped [OF assms(1)] assms(2) by (simp add: closed_down_def)
  ultimately show ?thesis using exporter_life_ok [OF assms(1)] by (simp add: exporter_ok_def)
qed

subsection \<open>Examples\<close>

definition demo_exporter_options :: exporter_options where
  "demo_exporter_options =
     \<lparr>eo_endpoint = ''http://api.test'', eo_credential = ''a.b'', eo_environment = ''test'', eo_release = ''r1''\<rparr>"

definition demo_item :: export_item where
  "demo_item = \<lparr>xi_signal = SignalLogs, xi_body = ''x'', xi_bytes = 1, xi_on_exported = Some 7\<rparr>"

definition demo_export_events :: "export_event list" where
  "demo_export_events =
     [Enqueued SignalLogs (Some ''x'') (Some 7), FlushCalled, Posted (export_request demo_exporter_options demo_item),
      Enqueued SignalTraces None None, Settled (Some True)]"

definition demo_exporter :: exporter where
  "demo_exporter =
     \<lparr>ex_queue = [], ex_stats = \<lparr>xs_queued_bytes = 0, xs_exported = 1, xs_dropped = 1, xs_failed = 0\<rparr>,
      ex_stopped = False, ex_aborted = False, ex_drain = DrainHead, ex_shutdowns = 0, ex_delivered = [7]\<rparr>"

lemma demo_exporter_life: "exporter_life demo_exporter_options demo_export_events demo_exporter"
proof -
  let ?o = demo_exporter_options
  let ?ex1 = "enqueue create_exporter SignalLogs (Some ''x'') (Some 7)"
  let ?ex2 = "flush_exports ?ex1"
  let ?ex3 = "?ex2\<lparr>ex_queue := [], ex_drain := DrainAwaiting demo_item\<rparr>"
  let ?ex4 = "enqueue ?ex3 SignalTraces None None"
  have ex1: "ex_queue ?ex2 = [demo_item]" "\<not> ex_aborted ?ex2" "ex_drain ?ex2 = DrainHead" by code_simp+
  have "exporter_life ?o [Enqueued SignalLogs (Some ''x'') (Some 7)] ?ex1"
    using life_step [OF life_start step_enqueue] by fastforce
  from life_step [OF this step_flush] have "exporter_life ?o [Enqueued SignalLogs (Some ''x'') (Some 7), FlushCalled] ?ex2" by simp
  moreover have "drain_next ?ex2 = Some (?ex3, demo_item)" using ex1 by (simp add: drain_next_def)
  ultimately have "exporter_life ?o [Enqueued SignalLogs (Some ''x'') (Some 7), FlushCalled, Posted (export_request ?o demo_item)] ?ex3"
    using life_step [OF _ step_post [OF ex1(3)]] by fastforce
  from life_step [OF this step_enqueue, of SignalTraces None None]
  have "exporter_life ?o (butlast demo_export_events) ?ex4" by (simp add: demo_export_events_def)
  moreover have "ex_drain ?ex4 = DrainAwaiting demo_item" by (simp add: enqueue_def drop_record_def)
  ultimately have "exporter_life ?o (butlast demo_export_events @ [Settled (Some True)]) (drain_settle ?ex4 demo_item (Some True))"
    by (rule life_step [OF _ step_settle])
  moreover have "drain_settle ?ex4 demo_item (Some True) = demo_exporter" by code_simp
  ultimately show ?thesis by (simp add: demo_export_events_def)
qed

lemma exporter_keeps_budget_and_books_witness:
  "offered demo_export_events = 2
    \<and> offered demo_export_events = xs_exported (ex_stats demo_exporter) + xs_failed (ex_stats demo_exporter)
        + xs_dropped (ex_stats demo_exporter) + int (length (held demo_exporter))"
  using exporter_keeps_budget_and_books [OF demo_exporter_life] by (simp add: offered_def demo_export_events_def)

lemma exporter_sends_in_order_witness:
  "subseq (posted_requests demo_export_events @ map (export_request demo_exporter_options) (ex_queue demo_exporter))
     (offered_requests demo_exporter_options demo_export_events) \<and> length (posted_requests demo_export_events) = 1"
  by (intro conjI) (rule conjunct1 [OF exporter_sends_in_order [OF demo_exporter_life]], simp add: demo_export_events_def)

end
