(* ===== verification/JsRegex.thy ===== *)
theory JsRegex
  imports Url
begin

section \<open>Regular expressions, as \<open>replaceAll\<close> and \<open>exec\<close> run them\<close>

text \<open>
  The scrubbing of telemetry is written with regular expressions. This theory has their backtracking
  matcher: the ends of the matches that start at a position, in the order the engine tries them, so that
  the first one is the match. A position is what lies behind it (nearest first) and what lies ahead.
  A declarative relation says what a match is, and the matcher finds exactly these.
\<close>

datatype rx =
    RxChar "char \<Rightarrow> bool"
  | RxSeq rx rx
  | RxAlt rx rx
  | RxRep nat "nat option" rx
  | RxEdge
  | RxNotBehind "char \<Rightarrow> bool"
  | RxNotAhead "char \<Rightarrow> bool"

type_synonym rx_state = "string \<times> string"

definition word_char :: "char \<Rightarrow> bool" where
  "word_char c \<longleftrightarrow> alphanumeric c \<or> c = CHR ''_''"

definition next_is :: "(char \<Rightarrow> bool) \<Rightarrow> string \<Rightarrow> bool" where
  "next_is p s \<longleftrightarrow> s \<noteq> [] \<and> p (hd s)"

text \<open>A greedy quantifier: once more first, then what follows; an optional round has to move on.\<close>

fun rx_repeat :: "nat \<Rightarrow> (rx_state \<Rightarrow> rx_state list) \<Rightarrow> nat \<Rightarrow> nat option \<Rightarrow> rx_state \<Rightarrow> rx_state list" where
  "rx_repeat 0 m lo hi st = []"
| "rx_repeat (Suc fuel) m lo hi st =
     (if hi = Some 0 then [st]
      else concat (map (\<lambda>st'. if lo = 0 \<and> snd st' = snd st then [] else rx_repeat fuel m (lo - 1) (map_option (\<lambda>h. h - 1) hi) st') (m st))
        @ (if lo = 0 then [st] else []))"

primrec rx_run :: "rx \<Rightarrow> rx_state \<Rightarrow> rx_state list" where
  "rx_run (RxChar p) st = (case snd st of c # s \<Rightarrow> if p c then [(c # fst st, s)] else [] | [] \<Rightarrow> [])"
| "rx_run (RxSeq r1 r2) st = concat (map (rx_run r2) (rx_run r1 st))"
| "rx_run (RxAlt r1 r2) st = rx_run r1 st @ rx_run r2 st"
| "rx_run (RxRep lo hi r) st = rx_repeat (Suc (lo + length (snd st))) (rx_run r) lo hi st"
| "rx_run RxEdge st = (if next_is word_char (fst st) \<noteq> next_is word_char (snd st) then [st] else [])"
| "rx_run (RxNotBehind p) st = (if next_is p (fst st) then [] else [st])"
| "rx_run (RxNotAhead p) st = (if next_is p (snd st) then [] else [st])"

fun rx_text :: "string \<Rightarrow> rx" where
  "rx_text [] = RxRep 0 (Some 0) RxEdge"
| "rx_text [c] = RxChar (\<lambda>x. x = c)"
| "rx_text (c # s) = RxSeq (RxChar (\<lambda>x. x = c)) (rx_text s)"

text \<open>The \<open>i\<close> flag, for the ASCII letters of a pattern.\<close>

fun rx_text_i :: "string \<Rightarrow> rx" where
  "rx_text_i [] = RxRep 0 (Some 0) RxEdge"
| "rx_text_i [c] = RxChar (\<lambda>x. lower_char x = lower_char c)"
| "rx_text_i (c # s) = RxSeq (RxChar (\<lambda>x. lower_char x = lower_char c)) (rx_text_i s)"

text \<open>\<open>s.replaceAll(r, f)\<close> from a position on.\<close>

function replace_from :: "rx \<Rightarrow> (string \<Rightarrow> string) \<Rightarrow> string \<Rightarrow> string \<Rightarrow> string" where
  "replace_from r f behind s =
     (let skip = (case s of [] \<Rightarrow> [] | c # s' \<Rightarrow> c # replace_from r f (c # behind) s') in
      case rx_run r (behind, s) of
        [] \<Rightarrow> skip
      | (behind', s') # _ \<Rightarrow>
          (if length s' < length s then f (take (length s - length s') s) @ replace_from r f behind' s'
           else f [] @ skip))"
  by auto
termination by (relation "measure (\<lambda>(r, f, b, s). length s)") auto

definition replace_all :: "rx \<Rightarrow> (string \<Rightarrow> string) \<Rightarrow> string \<Rightarrow> string" where
  "replace_all r f s = replace_from r f [] s"

declare replace_from.simps [simp del]

subsection \<open>What a match is\<close>

inductive rx_match :: "rx \<Rightarrow> rx_state \<Rightarrow> rx_state \<Rightarrow> bool" where
  m_char: "p c \<Longrightarrow> rx_match (RxChar p) (b, c # s) (c # b, s)"
| m_seq: "rx_match r1 st st1 \<Longrightarrow> rx_match r2 st1 st2 \<Longrightarrow> rx_match (RxSeq r1 r2) st st2"
| m_left: "rx_match r1 st st' \<Longrightarrow> rx_match (RxAlt r1 r2) st st'"
| m_right: "rx_match r2 st st' \<Longrightarrow> rx_match (RxAlt r1 r2) st st'"
| m_stop: "lo = 0 \<or> hi = Some 0 \<Longrightarrow> rx_match (RxRep lo hi r) st st"
| m_more: "hi \<noteq> Some 0 \<Longrightarrow> rx_match r st st1 \<Longrightarrow> lo = 0 \<longrightarrow> snd st1 \<noteq> snd st
    \<Longrightarrow> rx_match (RxRep (lo - 1) (map_option (\<lambda>h. h - 1) hi) r) st1 st2 \<Longrightarrow> rx_match (RxRep lo hi r) st st2"
| m_edge: "next_is word_char (fst st) \<noteq> next_is word_char (snd st) \<Longrightarrow> rx_match RxEdge st st"
| m_behind: "\<not> next_is p (fst st) \<Longrightarrow> rx_match (RxNotBehind p) st st"
| m_ahead: "\<not> next_is p (snd st) \<Longrightarrow> rx_match (RxNotAhead p) st st"

inductive_cases rx_matchE:
  "rx_match (RxChar p) st st'" "rx_match (RxSeq r1 r2) st st'" "rx_match (RxAlt r1 r2) st st'"
  "rx_match RxEdge st st'" "rx_match (RxNotBehind p) st st'" "rx_match (RxNotAhead p) st st'"

inductive_cases rx_repE: "rx_match (RxRep lo hi r) st st'"

text \<open>A match consumes a piece of what lies ahead.\<close>

definition consumes :: "rx_state \<Rightarrow> string \<Rightarrow> rx_state \<Rightarrow> bool" where
  "consumes st m st' \<longleftrightarrow> snd st = m @ snd st' \<and> fst st' = rev m @ fst st"

lemma consumes_refl [simp]: "consumes st [] st" by (simp add: consumes_def)

lemma consumes_trans: "consumes st m st1 \<Longrightarrow> consumes st1 m' st2 \<Longrightarrow> consumes st (m @ m') st2"
  by (simp add: consumes_def)

lemma rx_match_consumes: "rx_match r st st' \<Longrightarrow> \<exists>m. consumes st m st'"
proof (induction rule: rx_match.induct)
  case (m_char p c b s)
  show ?case by (rule exI [of _ "[c]"]) (simp add: consumes_def)
qed (blast intro: consumes_refl consumes_trans)+

lemma rx_match_shrinks: "rx_match r st st' \<Longrightarrow> length (snd st') \<le> length (snd st)"
  using rx_match_consumes by (fastforce simp: consumes_def)

subsection \<open>The matcher finds exactly the matches\<close>

lemma in_rx_repeat:
  "st' \<in> set (rx_repeat (Suc fuel) m lo hi st) \<longleftrightarrow>
     (if hi = Some 0 then st' = st
      else (\<exists>st1 \<in> set (m st). \<not> (lo = 0 \<and> snd st1 = snd st)
              \<and> st' \<in> set (rx_repeat fuel m (lo - 1) (map_option (\<lambda>h. h - 1) hi) st1))
           \<or> lo = 0 \<and> st' = st)"
  by auto

declare rx_repeat.simps(2) [simp del]

lemma rx_repeat_sound:
  assumes "\<And>st st'. st' \<in> set (m st) \<Longrightarrow> rx_match r st st'"
  shows "st' \<in> set (rx_repeat fuel m lo hi st) \<Longrightarrow> rx_match (RxRep lo hi r) st st'"
proof (induction fuel arbitrary: lo hi st)
  case (Suc fuel)
  show ?case
  proof (cases "hi = Some 0 \<or> lo = 0 \<and> st' = st")
    case True
    with Suc(2) show ?thesis by (auto simp: in_rx_repeat intro: m_stop)
  next
    case False
    with Suc(2) obtain st1 where st1: "st1 \<in> set (m st)" "\<not> (lo = 0 \<and> snd st1 = snd st)"
      "st' \<in> set (rx_repeat fuel m (lo - 1) (map_option (\<lambda>h. h - 1) hi) st1)"
      unfolding in_rx_repeat by (metis (no_types, lifting))
    from False have hi: "hi \<noteq> Some 0" by simp
    from st1(2) have moves: "lo = 0 \<longrightarrow> snd st1 \<noteq> snd st" by blast
    show ?thesis by (rule m_more [OF hi assms [OF st1(1)] moves Suc(1) [OF st1(3)]])
  qed
qed simp

lemma rx_run_sound: "st' \<in> set (rx_run r st) \<Longrightarrow> rx_match r st st'"
proof (induction r arbitrary: st st')
  case (RxChar p)
  then show ?case by (cases st) (auto split: list.splits if_split_asm intro: m_char)
next
  case (RxSeq r1 r2)
  then obtain st1 where "st1 \<in> set (rx_run r1 st)" "st' \<in> set (rx_run r2 st1)" by auto
  with RxSeq.IH show ?case by (blast intro: m_seq)
next
  case (RxAlt r1 r2)
  then have "st' \<in> set (rx_run r1 st) \<or> st' \<in> set (rx_run r2 st)" by simp
  with RxAlt.IH show ?case by (blast intro: m_left m_right)
next
  case (RxRep lo hi r)
  have "st' \<in> set (rx_repeat (Suc (lo + length (snd st))) (rx_run r) lo hi st)" using RxRep.prems by simp
  with rx_repeat_sound [of "rx_run r" r] RxRep.IH show ?case by blast
qed (simp_all split: if_split_asm add: rx_match.intros)

text \<open>Enough rounds: one for each obligatory repetition, one for each character, and the last.\<close>

lemma rx_run_complete: "rx_match r st st' \<Longrightarrow> st' \<in> set (rx_run r st)
    \<and> (\<forall>lo hi r' fuel. r = RxRep lo hi r' \<longrightarrow> lo + length (snd st) < fuel \<longrightarrow> st' \<in> set (rx_repeat fuel (rx_run r') lo hi st))"
proof (induction rule: rx_match.induct)
  case (m_stop lo hi r st)
  have "st \<in> set (rx_repeat fuel (rx_run r) lo hi st)" if "lo + length (snd st) < fuel" for fuel
    using that m_stop by (cases fuel) (auto simp: in_rx_repeat)
  then show ?case by simp
next
  case (m_more hi r st st1 lo st2)
  have shorter: "length (snd st1) \<le> length (snd st)" by (rule rx_match_shrinks [OF m_more(2)])
  have "length (snd st1) < length (snd st)" if "lo = 0"
  proof -
    obtain m where "snd st = m @ snd st1" using rx_match_consumes [OF m_more(2)] by (auto simp: consumes_def)
    with m_more(3) that show ?thesis by (cases m) auto
  qed
  then have less: "lo - 1 + length (snd st1) < k" if "lo + length (snd st) < Suc k" for k
    using that shorter by (cases lo) auto
  have "st2 \<in> set (rx_repeat fuel (rx_run r) lo hi st)" if fuel: "lo + length (snd st) < fuel" for fuel
  proof -
    obtain k where k: "fuel = Suc k" using fuel by (cases fuel) auto
    have "st2 \<in> set (rx_repeat k (rx_run r) (lo - 1) (map_option (\<lambda>h. h - 1) hi) st1)"
      using m_more.IH(2) less [OF fuel [unfolded k]] by blast
    then show ?thesis unfolding k in_rx_repeat using m_more(1,3) m_more.IH(1) by auto
  qed
  then show ?case by simp
qed (auto simp: Let_def)

lemma rx_run_exact: "st' \<in> set (rx_run r st) \<longleftrightarrow> rx_match r st st'"
  using rx_run_sound rx_run_complete by blast

lemma rx_run_Nil: "rx_run r st = [] \<longleftrightarrow> (\<forall>st'. \<not> rx_match r st st')"
  using rx_run_exact [of _ r st] by (metis list.set_intros(1) neq_Nil_conv empty_iff list.set(1))

subsection \<open>Expressions that look at nothing but what they consume\<close>

primrec rx_plain :: "(char \<Rightarrow> bool) \<Rightarrow> rx \<Rightarrow> bool" where
  "rx_plain C (RxChar p) \<longleftrightarrow> (\<forall>c. p c \<longrightarrow> C c)"
| "rx_plain C (RxSeq r1 r2) \<longleftrightarrow> rx_plain C r1 \<and> rx_plain C r2"
| "rx_plain C (RxAlt r1 r2) \<longleftrightarrow> rx_plain C r1 \<and> rx_plain C r2"
| "rx_plain C (RxRep lo hi r) \<longleftrightarrow> rx_plain C r"
| "rx_plain C RxEdge \<longleftrightarrow> False"
| "rx_plain C (RxNotBehind p) \<longleftrightarrow> False"
| "rx_plain C (RxNotAhead p) \<longleftrightarrow> False"

text \<open>Whether \<open>r\<close> matches the whole of \<open>m\<close>, on its own.\<close>

definition rx_accepts :: "rx \<Rightarrow> string \<Rightarrow> bool" where
  "rx_accepts r m \<longleftrightarrow> rx_match r ([], m) (rev m, [])"

lemma rx_plain_match:
  "rx_match r st st' \<Longrightarrow> rx_plain C r \<Longrightarrow>
     \<exists>m. consumes st m st' \<and> list_all C m \<and> (\<forall>b s. rx_match r (b, m @ s) (rev m @ b, s))"
proof (induction rule: rx_match.induct)
  case (m_char p c b s)
  then show ?case by (intro exI [of _ "[c]"]) (auto simp: consumes_def intro: rx_match.m_char)
next
  case (m_seq r1 st st1 r2 st2)
  then obtain m1 m2 where m: "consumes st m1 st1" "list_all C m1" "\<And>b s. rx_match r1 (b, m1 @ s) (rev m1 @ b, s)"
    "consumes st1 m2 st2" "list_all C m2" "\<And>b s. rx_match r2 (b, m2 @ s) (rev m2 @ b, s)"
    by auto
  have "rx_match (RxSeq r1 r2) (b, (m1 @ m2) @ s) (rev (m1 @ m2) @ b, s)" for b s
    using rx_match.m_seq [OF m(3) [of b "m2 @ s"] m(6)] by simp
  with m consumes_trans show ?case by (intro exI [of _ "m1 @ m2"]) auto
next
  case (m_more hi r st st1 lo st2)
  then obtain m1 m2 where m: "consumes st m1 st1" "list_all C m1" "\<And>b s. rx_match r (b, m1 @ s) (rev m1 @ b, s)"
    "consumes st1 m2 st2" "list_all C m2"
    "\<And>b s. rx_match (RxRep (lo - 1) (map_option (\<lambda>h. h - 1) hi) r) (b, m2 @ s) (rev m2 @ b, s)"
    by auto
  have moves: "lo = 0 \<longrightarrow> m1 \<noteq> []" using m_more(3) m(1) by (auto simp: consumes_def)
  have "rx_match (RxRep lo hi r) (b, (m1 @ m2) @ s) (rev (m1 @ m2) @ b, s)" for b s
    using rx_match.m_more [OF m_more(1) m(3) [of b "m2 @ s"] _ m(6)] moves by simp
  with m consumes_trans show ?case by (intro exI [of _ "m1 @ m2"]) auto
next
  case (m_stop lo hi r st)
  then show ?case by (intro exI [of _ "[]"]) (auto intro: rx_match.m_stop)
qed (auto intro: rx_match.m_left rx_match.m_right)

lemma rx_plain_local:
  assumes "rx_plain C r"
  shows "rx_match r (b, m @ s) (rev m @ b, s) \<longleftrightarrow> rx_accepts r m"
proof
  assume "rx_match r (b, m @ s) (rev m @ b, s)"
  from rx_plain_match [OF this assms] have "\<forall>b s. rx_match r (b, m @ s) (rev m @ b, s)" by (auto simp: consumes_def)
  from this [rule_format, of "[]" "[]"] show "rx_accepts r m" by (simp add: rx_accepts_def)
next
  assume "rx_accepts r m"
  from rx_plain_match [OF this [unfolded rx_accepts_def] assms]
  show "rx_match r (b, m @ s) (rev m @ b, s)" by (auto simp: consumes_def)
qed

lemma rx_accepts_chars: "rx_accepts r m \<Longrightarrow> rx_plain C r \<Longrightarrow> list_all C m"
  using rx_plain_match [of r "([], m)" "(rev m, [])" C] by (auto simp: rx_accepts_def consumes_def)

subsection \<open>Texts without a match\<close>

definition occurs :: "rx \<Rightarrow> string \<Rightarrow> bool" where
  "occurs r s \<longleftrightarrow> (\<exists>a m b. s = a @ m @ b \<and> m \<noteq> [] \<and> rx_accepts r m)"

lemma occurs_append_mono: "occurs r s \<Longrightarrow> occurs r (a @ s @ b)"
  unfolding occurs_def by (metis append.assoc)

text \<open>A match cannot reach across a character that no match has.\<close>

lemma occurs_barrier:
  assumes "rx_plain C r" "\<not> C x"
  shows "occurs r (s @ x # t) \<longleftrightarrow> occurs r s \<or> occurs r t"
proof
  assume "occurs r (s @ x # t)"
  then obtain a m b where m: "s @ x # t = a @ m @ b" "m \<noteq> []" "rx_accepts r m" by (auto simp: occurs_def)
  have "x \<notin> set m" using rx_accepts_chars [OF m(3) assms(1)] assms(2) by (auto simp: list_all_iff)
  from m(1) consider u where "a = s @ u" "x # t = u @ m @ b" | u where "s = a @ u" "u @ x # t = m @ b"
    by (auto simp: append_eq_append_conv2)
  then show "occurs r s \<or> occurs r t"
  proof cases
    case 1
    then have "u \<noteq> []" using \<open>x \<notin> set m\<close> m(2) by (cases m) auto
    with 1 have "t = tl u @ m @ b" by (cases u) auto
    with m show ?thesis unfolding occurs_def by blast
  next
    case 2
    have "\<exists>v. u = m @ v"
      using 2(2) \<open>x \<notin> set m\<close> by (auto simp: append_eq_append_conv2 Cons_eq_append_conv)
    then obtain v where "s = a @ m @ v" using 2(1) by auto
    with m show ?thesis unfolding occurs_def by blast
  qed
next
  assume "occurs r s \<or> occurs r t"
  then show "occurs r (s @ x # t)"
    using occurs_append_mono [of r s "[]" "x # t"] occurs_append_mono [of r t "s @ [x]" "[]"] by auto
qed

subsection \<open>What \<open>replaceAll\<close> leaves\<close>

primrec rx_min :: "rx \<Rightarrow> nat" where
  "rx_min (RxChar p) = 1"
| "rx_min (RxSeq r1 r2) = rx_min r1 + rx_min r2"
| "rx_min (RxAlt r1 r2) = min (rx_min r1) (rx_min r2)"
| "rx_min (RxRep lo hi r) = (case hi of Some h \<Rightarrow> min lo h | None \<Rightarrow> lo) * rx_min r"
| "rx_min RxEdge = 0"
| "rx_min (RxNotBehind p) = 0"
| "rx_min (RxNotAhead p) = 0"

lemma rx_match_min: "rx_match r st st' \<Longrightarrow> rx_min r + length (snd st') \<le> length (snd st)"
proof (induction rule: rx_match.induct)
  case (m_more hi r st st1 lo st2)
  let ?n = "case hi of Some h \<Rightarrow> min lo h | None \<Rightarrow> lo"
  let ?k = "case map_option (\<lambda>h. h - Suc 0) hi of Some h \<Rightarrow> min (lo - Suc 0) h | None \<Rightarrow> lo - Suc 0"
  have "?n \<le> Suc ?k" using m_more(1) by (cases hi) auto
  then have "?n * rx_min r \<le> rx_min r + ?k * rx_min r" by (metis mult_Suc mult_le_mono1)
  with m_more.IH show ?case by (cases hi) auto
qed (auto split: option.splits)

text \<open>The text up to the first replacement, in which no match starts, and what follows it.\<close>

lemma replace_from_cases:
  assumes "0 < rx_min r"
  shows "\<exists>g t. s = g @ t \<and> (\<forall>a c. g = a @ c \<longrightarrow> c \<noteq> [] \<longrightarrow> rx_run r (rev a @ b, c @ t) = [])
    \<and> (t = [] \<and> replace_from r f b s = g
       \<or> (\<exists>m b' s'. t = m @ s' \<and> m \<noteq> [] \<and> rx_match r (rev g @ b, t) (b', s')
            \<and> replace_from r f b s = g @ f m @ replace_from r f b' s'))"
proof (induction s arbitrary: b)
  case Nil
  have "rx_run r (b, []) = []" using rx_match_min [of r "(b, [])"] assms by (auto simp: rx_run_Nil)
  then show ?case by (auto simp: replace_from.simps)
next
  case (Cons c s)
  show ?case
  proof (cases "rx_run r (b, c # s)")
    case Nil
    then have step: "replace_from r f b (c # s) = c # replace_from r f (c # b) s"
      by (subst replace_from.simps) simp
    obtain g t where gt: "s = g @ t" "\<forall>a d. g = a @ d \<longrightarrow> d \<noteq> [] \<longrightarrow> rx_run r (rev a @ c # b, d @ t) = []"
      "t = [] \<and> replace_from r f (c # b) s = g
       \<or> (\<exists>m b' s'. t = m @ s' \<and> m \<noteq> [] \<and> rx_match r (rev g @ c # b, t) (b', s')
            \<and> replace_from r f (c # b) s = g @ f m @ replace_from r f b' s')"
      using Cons.IH [of "c # b"] by blast
    have "rx_run r (rev a @ b, d @ t) = []" if "c # g = a @ d" "d \<noteq> []" for a d
      using that Nil gt(1,2) by (cases a) auto
    then show ?thesis using gt(1,3) step by (intro exI [of _ "c # g"] exI [of _ t]) auto
  next
    case (Cons st more)
    obtain b' s' where st: "st = (b', s')" by fastforce
    have found: "rx_match r (b, c # s) (b', s')" using rx_run_exact [of "(b', s')" r "(b, c # s)"] Cons st by simp
    obtain m where m: "c # s = m @ s'" using rx_match_consumes [OF found] by (auto simp: consumes_def)
    have shorter: "length s' < length (c # s)" using rx_match_min [OF found] assms by simp
    then have "m \<noteq> []" using m by auto
    moreover have "take (length (c # s) - length s') (c # s) = m" by (simp add: m)
    ultimately have "replace_from r f b (c # s) = f m @ replace_from r f b' s'"
      using Cons st shorter by (subst replace_from.simps) (simp add: Let_def)
    with m \<open>m \<noteq> []\<close> found show ?thesis by (intro exI [of _ "[]"] exI [of _ "c # s"]) auto
  qed
qed

lemma not_occurs_part: "\<not> occurs r (a @ s @ b) \<Longrightarrow> \<not> occurs r s"
  using occurs_append_mono by blast

text \<open>
  Replacing by a mark that stands between two characters no match of \<open>r\<close> has, and that has no match
  itself: it brings no match of \<open>r\<close> about, and replacing the matches of \<open>r\<close> leaves none.
\<close>

definition marks :: "(char \<Rightarrow> bool) \<Rightarrow> rx \<Rightarrow> string \<Rightarrow> bool" where
  "marks C r mark \<longleftrightarrow> (\<exists>x w y. mark = x # w @ [y] \<and> \<not> C x \<and> \<not> C y \<and> \<not> occurs r w)"

lemma occurs_marked:
  assumes "rx_plain C r" "marks C r mark" "\<not> occurs r g" "\<not> occurs r t"
  shows "\<not> occurs r (g @ mark @ t)"
proof -
  obtain x w y where mark: "mark = x # w @ [y]" "\<not> C x" "\<not> C y" "\<not> occurs r w" using assms(2) by (auto simp: marks_def)
  have "\<not> occurs r (w @ y # t)" using occurs_barrier [OF assms(1) mark(3)] mark(4) assms(4) by simp
  with occurs_barrier [OF assms(1) mark(2), of g "w @ y # t"] assms(3) mark(1) show ?thesis by simp
qed

lemma replace_keeps_clean:
  assumes "rx_plain C r" "marks C r mark" "0 < rx_min r'" "\<not> occurs r s"
  shows "\<not> occurs r (replace_from r' (\<lambda>_. mark) b s)"
  using assms(4)
proof (induction "length s" arbitrary: s b rule: less_induct)
  case less
  obtain g t where gt: "s = g @ t"
    and after: "t = [] \<and> replace_from r' (\<lambda>_. mark) b s = g
       \<or> (\<exists>m b' s'. t = m @ s' \<and> m \<noteq> [] \<and> replace_from r' (\<lambda>_. mark) b s = g @ mark @ replace_from r' (\<lambda>_. mark) b' s')"
    using replace_from_cases [OF assms(3), of s b "\<lambda>_. mark"] by blast
  from after show ?case
  proof (elim disjE exE conjE)
    fix m b' s' assume rest: "t = m @ s'" "m \<noteq> []"
      "replace_from r' (\<lambda>_. mark) b s = g @ mark @ replace_from r' (\<lambda>_. mark) b' s'"
    have g: "\<not> occurs r g" using not_occurs_part [of r "[]" g t] less(2) gt by simp
    have "\<not> occurs r s'" using not_occurs_part [of r "g @ m" s' "[]"] less(2) gt rest(1) by simp
    with less(1) [of s' b'] rest gt have "\<not> occurs r (replace_from r' (\<lambda>_. mark) b' s')" by simp
    then show ?thesis unfolding rest(3) by (rule occurs_marked [OF assms(1,2) g])
  qed (use less(2) gt in simp)
qed

lemma replace_cleans:
  assumes "rx_plain C r" "marks C r mark" "0 < rx_min r"
  shows "\<not> occurs r (replace_from r (\<lambda>_. mark) b s)"
proof (induction "length s" arbitrary: s b rule: less_induct)
  case less
  obtain g t where gt: "s = g @ t" "\<forall>a c. g = a @ c \<longrightarrow> c \<noteq> [] \<longrightarrow> rx_run r (rev a @ b, c @ t) = []"
    and after: "t = [] \<and> replace_from r (\<lambda>_. mark) b s = g
       \<or> (\<exists>m b' s'. t = m @ s' \<and> m \<noteq> [] \<and> replace_from r (\<lambda>_. mark) b s = g @ mark @ replace_from r (\<lambda>_. mark) b' s')"
    using replace_from_cases [OF assms(3), of s b "\<lambda>_. mark"] by blast
  have g: "\<not> occurs r g"
  proof
    assume "occurs r g"
    then obtain a m c where m: "g = a @ m @ c" "m \<noteq> []" "rx_accepts r m" by (auto simp: occurs_def)
    have "rx_match r (rev a @ b, m @ c @ t) (rev m @ rev a @ b, c @ t)"
      using rx_plain_local [OF assms(1)] m(3) by blast
    moreover have "rx_run r (rev a @ b, (m @ c) @ t) = []" using gt(2) m(1,2) by blast
    ultimately show False by (simp add: rx_run_Nil)
  qed
  from after show ?case
  proof (elim disjE exE conjE)
    fix m b' s' assume rest: "t = m @ s'" "m \<noteq> []"
      "replace_from r (\<lambda>_. mark) b s = g @ mark @ replace_from r (\<lambda>_. mark) b' s'"
    with less [of s' b'] gt(1) have "\<not> occurs r (replace_from r (\<lambda>_. mark) b' s')" by simp
    then show ?thesis unfolding rest(3) by (rule occurs_marked [OF assms(1,2) g])
  qed (use g in simp)
qed

text \<open>Where nothing matches, nothing is replaced.\<close>

lemma replace_nothing:
  assumes "rx_plain C r" "0 < rx_min r" "\<not> occurs r s"
  shows "replace_from r f b s = s"
proof -
  obtain g t where gt: "s = g @ t"
    and after: "t = [] \<and> replace_from r f b s = g
       \<or> (\<exists>m b' s'. t = m @ s' \<and> m \<noteq> [] \<and> rx_match r (rev g @ b, t) (b', s')
            \<and> replace_from r f b s = g @ f m @ replace_from r f b' s')"
    using replace_from_cases [OF assms(2), of s b f] by blast
  from after show ?thesis
  proof (elim disjE exE conjE)
    fix m b' s' assume found: "t = m @ s'" "m \<noteq> []" "rx_match r (rev g @ b, t) (b', s')"
    then have "b' = rev m @ rev g @ b" using rx_match_consumes [OF found(3)] by (auto simp: consumes_def)
    with found have "rx_accepts r m" using rx_plain_local [OF assms(1), of "rev g @ b" m s'] by simp
    with found(1,2) gt assms(3) show ?thesis unfolding occurs_def by blast
  qed (use gt in simp)
qed

end
