(* ===== verification/Privacy.thy ===== *)
theory Privacy
  imports JsRegex Propagation LogIngest
begin

section \<open>What telemetry may say (\<open>packages/telemetry/src/privacy.ts\<close>)\<close>

text \<open>
  Attributes and exceptions are scrubbed before they leave a process, and again at the relay: texts lose
  what looks like personal data or a credential, members with telling names lose their value, and
  everything has a bound. The values are JSON trees (no object is shared); the \<open>i\<close> flag and the classes
  of an expression are those for code units below 256.
\<close>

definition redacted_mark :: string where "redacted_mark = ''[redacted]''"
definition oversize_mark :: string where "oversize_mark = ''[oversize]''"
definition limit_mark :: string where "limit_mark = ''[limit]''"

definition utf8_length :: "string \<Rightarrow> int" where
  "utf8_length s = int (length (utf8_encode s))"

subsection \<open>The expressions\<close>

definition letter_i :: "char \<Rightarrow> bool" where
  "letter_i c \<longleftrightarrow> alphanumeric c \<and> \<not> is_digit c"

definition hex_char_i :: "char \<Rightarrow> bool" where
  "hex_char_i c \<longleftrightarrow> hex_value c \<noteq> None"

definition email_rx :: rx where
  "email_rx =
     RxSeq (RxRep 1 (Some 64) (RxChar (\<lambda>c. word_char c \<or> c \<in> {CHR ''.'', CHR ''+'', CHR ''-''})))
     (RxSeq (RxChar (\<lambda>c. c = CHR ''@''))
     (RxSeq (RxRep 1 None (RxChar (\<lambda>c. word_char c \<or> c \<in> {CHR ''.'', CHR ''-''})))
     (RxSeq (RxChar (\<lambda>c. c = CHR ''.'')) (RxRep 2 None (RxChar letter_i)))))"

definition url_rx :: rx where
  "url_rx =
     RxSeq (rx_text_i ''http'') (RxSeq (RxRep 0 (Some 1) (rx_text_i ''s'')) (RxSeq (rx_text ''://'')
       (RxRep 1 None (RxChar (\<lambda>c. \<not> is_ws c \<and> c \<notin> {CHR ''<'', CHR ''>'', CHR 0x22, CHR 0x27})))))"

definition ipv4_rx :: rx where
  "ipv4_rx =
     RxSeq RxEdge
     (RxSeq (RxRep 3 (Some 3) (RxSeq (RxRep 1 (Some 3) (RxChar is_digit)) (RxChar (\<lambda>c. c = CHR ''.''))))
     (RxSeq (RxRep 1 (Some 3) (RxChar is_digit)) RxEdge))"

definition ipv6_rx :: rx where
  "ipv6_rx =
     RxSeq (RxNotBehind (\<lambda>c. word_char c \<or> c = CHR '':''))
     (RxSeq (RxRep 2 None (RxSeq (RxRep 0 (Some 4) (RxChar hex_char_i)) (RxChar (\<lambda>c. c = CHR '':''))))
     (RxSeq (RxRep 0 (Some 39) (RxChar (\<lambda>c. hex_char_i c \<or> c \<in> {CHR '':'', CHR ''.''})))
            (RxNotAhead (\<lambda>c. word_char c \<or> c = CHR '':''))))"

definition bearer_rx :: rx where
  "bearer_rx =
     RxSeq RxEdge (RxSeq (RxAlt (rx_text_i ''bearer'') (rx_text_i ''basic''))
       (RxSeq (RxRep 1 None (RxChar is_ws)) (RxRep 1 None (RxChar (\<lambda>c. \<not> is_ws c)))))"

definition jwt_part_rx :: rx where
  "jwt_part_rx = RxRep 1 None (RxChar (\<lambda>c. word_char c \<or> c = CHR ''-''))"

definition jwt_rx :: rx where
  "jwt_rx =
     RxSeq RxEdge (RxSeq (rx_text ''eyJ'') (RxSeq jwt_part_rx (RxSeq (RxChar (\<lambda>c. c = CHR ''.''))
       (RxSeq jwt_part_rx (RxSeq (RxChar (\<lambda>c. c = CHR ''.'')) (RxSeq jwt_part_rx RxEdge))))))"

subsection \<open>URLs\<close>

text \<open>\<open>new URL(value)\<close> with the credentials and the bracketed hosts that the model of \<open>URL\<close> refuses.\<close>

definition after_userinfo :: "string \<Rightarrow> string" where
  "after_userinfo a = (case last_index_of (CHR ''@'') a of Some i \<Rightarrow> drop (Suc i) a | None \<Rightarrow> a)"

definition ipv6_host :: "string \<Rightarrow> string \<Rightarrow> bool" where
  "ipv6_host scheme h \<longleftrightarrow>
     (let inner = takeWhile (\<lambda>c. c \<noteq> CHR '']'') (tl h); rest = dropWhile (\<lambda>c. c \<noteq> CHR '']'') (tl h) in
      next_is (\<lambda>c. c = CHR ''['') h \<and> rest \<noteq> [] \<and> parse_ipv6 inner \<noteq> None
      \<and> (tl rest = [] \<or> next_is (\<lambda>c. c = CHR '':'') (tl rest) \<and> parse_port scheme (tl (tl rest)) \<noteq> None))"

definition dotted_quad :: "string \<Rightarrow> bool" where
  "dotted_quad h \<longleftrightarrow>
     (let parts = split_char (CHR ''.'') h in
      length parts = 4 \<and> list_all (\<lambda>p. 1 \<le> length p \<and> length p \<le> 3 \<and> list_all is_digit p) parts)"

definition sanitize_url :: "string \<Rightarrow> string" where
  "sanitize_url v =
     (case scheme_split (url_strip v) of
        None \<Rightarrow> redacted_mark
      | Some (scheme, r) \<Rightarrow>
          if scheme = ''http'' \<or> scheme = ''https'' then
            (let rest = dropWhile is_slash r;
                 a = takeWhile (\<lambda>c. \<not> is_slash c \<and> c \<noteq> CHR ''?'' \<and> c \<noteq> CHR ''#'') rest;
                 h = after_userinfo a;
                 path = pathname (parse_rest scheme '''' [] (drop (length a) rest)) in
             if ipv6_host scheme h then scheme @ ''://'' @ redacted_mark @ path
             else (case parse_authority scheme h of
                     None \<Rightarrow> redacted_mark
                   | Some hp \<Rightarrow>
                       if dotted_quad (takeWhile (\<lambda>c. c \<noteq> CHR '':'') hp) then scheme @ ''://'' @ redacted_mark @ path
                       else scheme @ ''://'' @ hp @ path))
          else redacted_mark)"

subsection \<open>Texts\<close>

definition without_email :: "string \<Rightarrow> string" where
  "without_email v = (if CHR ''@'' \<in> set v then replace_all email_rx (\<lambda>_. redacted_mark) v else v)"

definition scrubbed :: "string \<Rightarrow> string" where
  "scrubbed v =
     replace_all jwt_rx (\<lambda>_. redacted_mark) (replace_all bearer_rx (\<lambda>_. redacted_mark)
       (replace_all ipv6_rx (\<lambda>_. redacted_mark) (replace_all ipv4_rx (\<lambda>_. redacted_mark)
         (replace_all url_rx sanitize_url (without_email v)))))"

definition private_text :: "string \<Rightarrow> string" where
  "private_text v =
     (if int (length v) > value_bytes \<or> utf8_length v > value_bytes then oversize_mark
      else if utf8_length (scrubbed v) \<le> value_bytes then scrubbed v else oversize_mark)"

subsection \<open>Attributes\<close>

definition excluded_words :: "string list" where
  "excluded_words = [''name'', ''email'', ''ip'', ''body'', ''form'', ''cookie'', ''token'', ''secret'', ''password'',
     ''authorization'', ''baggage'', ''session'', ''user'', ''organization'']"

definition excluded_key :: "string \<Rightarrow> bool" where
  "excluded_key key \<longleftrightarrow> list_ex (js_includes (to_lower key)) excluded_words"

definition identity_key :: "string \<Rightarrow> bool" where
  "identity_key key \<longleftrightarrow>
     list_ex (\<lambda>p. starts_with key (p @ ''.'') \<or> starts_with key (p @ ''_'')) [''service'', ''deployment'', ''wallow'']"

definition from_entries :: "(string \<times> 'v) list \<Rightarrow> (string \<times> 'v) list" where
  "from_entries kvs = fold (\<lambda>(k, v) ob. obj_set ob k v) kvs []"

text \<open>
  A visit of a value at a depth, with the number of nodes that may still be visited; the items of an
  array and the members of an object are visited in turn, up to a number of them.
\<close>

fun visit_value :: "json \<Rightarrow> int \<Rightarrow> int \<Rightarrow> json \<times> int"
  and visit_items :: "nat \<Rightarrow> json list \<Rightarrow> int \<Rightarrow> int \<Rightarrow> json list \<times> int"
  and visit_members :: "nat \<Rightarrow> (string \<times> json) list \<Rightarrow> int \<Rightarrow> int \<Rightarrow> (string \<times> json) list \<times> int" where
  "visit_value v depth nodes =
     (let remaining = nodes - 1 in
      if depth > max_depth \<or> remaining < 0 then (JStr limit_mark, remaining)
      else case v of
        JStr s \<Rightarrow> (JStr (private_text s), remaining)
      | JArr items \<Rightarrow> (let (items', r) = visit_items max_attributes items (depth + 1) remaining in (JArr items', r))
      | JObj ms \<Rightarrow> (let (ms', r) = visit_members max_attributes ms (depth + 1) remaining in (JObj (from_entries ms'), r))
      | _ \<Rightarrow> (v, remaining))"
| "visit_items 0 items depth remaining = ([], remaining)"
| "visit_items n [] depth remaining = ([], remaining)"
| "visit_items (Suc n) (v # items) depth remaining =
     (let (v', r) = visit_value v depth remaining; (items', r') = visit_items n items depth r in (v' # items', r'))"
| "visit_members 0 ms depth remaining = ([], remaining)"
| "visit_members n [] depth remaining = ([], remaining)"
| "visit_members (Suc n) ((key, v) # ms) depth remaining =
     (let (v', r) = (if excluded_key key \<or> identity_key key then (JStr redacted_mark, remaining)
                     else visit_value v depth remaining);
          (ms', r') = visit_members n ms depth r in
      ((take identity_length key, v') # ms', r'))"

definition sanitize_attributes :: "json \<Rightarrow> (string \<times> json) list" where
  "sanitize_attributes input =
     (case input of
        JObj ms \<Rightarrow> (case fst (visit_value input 0 max_nodes) of JObj r \<Rightarrow> from_entries r | _ \<Rightarrow> [])
      | _ \<Rightarrow> [])"

subsection \<open>Exceptions\<close>

text \<open>
  \<open>/(?:\/|\\)(?<location>[\w.-]+:\d+:\d+)\)?$/u\<close>: a location has no slash, so it is what follows the last one.
\<close>

definition digits_only :: "string \<Rightarrow> bool" where
  "digits_only s \<longleftrightarrow> s \<noteq> '''' \<and> list_all is_digit s"

definition code_location :: "string \<Rightarrow> string option" where
  "code_location line =
     (let after = rev (takeWhile (\<lambda>c. c \<noteq> CHR ''/'' \<and> c \<noteq> CHR 0x5C) (rev line));
          location = (if ends_with after '')'' then butlast after else after) in
      if length after = length line then None
      else case split_char (CHR '':'') location of
        [file, row, column] \<Rightarrow>
          if file \<noteq> '''' \<and> list_all (\<lambda>c. word_char c \<or> c \<in> {CHR ''.'', CHR ''-''}) file \<and> digits_only row \<and> digits_only column
          then Some location else None
      | _ \<Rightarrow> None)"

definition plain_error_names :: "string list" where
  "plain_error_names = [''Error'', ''TypeError'', ''RangeError'', ''SyntaxError'', ''ReferenceError'', ''URIError'', ''EvalError'']"

definition sanitize_exception :: "(thrown \<Rightarrow> string option) \<Rightarrow> thrown \<Rightarrow> (string \<times> json) list" where
  "sanitize_exception stack error =
     (case error of
        Value v \<Rightarrow> [(''exception.type'', JStr ''UnknownError'')]
      | _ \<Rightarrow>
          (let lines = split_char (CHR 0x0A) (case stack error of Some t \<Rightarrow> t | None \<Rightarrow> '''');
               frames = concat (map (\<lambda>line. case code_location (js_trim line) of Some l \<Rightarrow> [l] | None \<Rightarrow> [])
                 (take stack_frames (drop 1 lines))) in
           [(''exception.type'', JStr (if thrown_name error \<in> set plain_error_names then thrown_name error else ''Error'')),
            (''exception.stacktrace'', JStr (js_join [CHR 0x0A] frames))]))"

declare visit_value.simps [simp del]

subsection \<open>Lemmas: no address survives\<close>

definition email_char :: "char \<Rightarrow> bool" where
  "email_char c \<longleftrightarrow> word_char c \<or> c \<in> {CHR ''.'', CHR ''+'', CHR ''-'', CHR ''@''}"

lemma email_plain: "rx_plain email_char email_rx"
  by (auto simp: email_rx_def email_char_def letter_i_def word_char_def alphanumeric_def)

lemma url_plain: "rx_plain (\<lambda>_. True) url_rx"
proof -
  have "rx_plain (\<lambda>_. True) (rx_text_i s)" "rx_plain (\<lambda>_. True) (rx_text s)" if "s \<noteq> []" for s
    using that by (induction s rule: rx_text_i.induct) auto
  then show ?thesis by (simp add: url_rx_def)
qed

lemma rx_mins: "0 < rx_min email_rx" "0 < rx_min url_rx" "0 < rx_min ipv4_rx" "0 < rx_min ipv6_rx"
    "0 < rx_min bearer_rx" "0 < rx_min jwt_rx"
  by code_simp+

lemma email_has_at: "rx_accepts email_rx m \<Longrightarrow> CHR ''@'' \<in> set m"
proof -
  assume "rx_accepts email_rx m"
  then obtain st st' where 1: "rx_match (RxRep 1 (Some 64) (RxChar (\<lambda>c. word_char c \<or> c \<in> {CHR ''.'', CHR ''+'', CHR ''-''}))) ([], m) st"
    and 2: "rx_match (RxChar (\<lambda>c. c = CHR ''@'')) st st'"
    unfolding rx_accepts_def email_rx_def by (auto elim!: rx_matchE(2))
  from rx_match_consumes [OF 1] obtain m1 where "m = m1 @ snd st" by (auto simp: consumes_def)
  with 2 show ?thesis by (auto elim!: rx_matchE(1))
qed

lemma no_at_no_email: "CHR ''@'' \<notin> set s \<Longrightarrow> \<not> occurs email_rx s"
  using email_has_at by (auto simp: occurs_def)

lemma redacted_marks: "marks email_char email_rx redacted_mark"
proof -
  have "\<not> occurs email_rx ''redacted''" by (rule no_at_no_email) simp
  moreover have "\<not> email_char (CHR ''['')" "\<not> email_char (CHR '']'')" by code_simp+
  moreover have "redacted_mark = CHR ''['' # ''redacted'' @ [CHR '']'']" by (simp add: redacted_mark_def)
  ultimately show ?thesis unfolding marks_def by blast
qed

lemma without_email_clean: "\<not> occurs email_rx (without_email v)"
  using replace_cleans [OF email_plain redacted_marks rx_mins(1)] no_at_no_email
  by (simp add: without_email_def replace_all_def)

lemma scrubbed_clean:
  assumes "\<not> occurs url_rx (without_email v)"
  shows "\<not> occurs email_rx (scrubbed v)"
proof -
  have urls: "replace_all url_rx sanitize_url (without_email v) = without_email v"
    unfolding replace_all_def by (rule replace_nothing [OF url_plain rx_mins(2) assms])
  note keep = replace_keeps_clean [OF email_plain redacted_marks]
  show ?thesis
    unfolding scrubbed_def urls unfolding replace_all_def
    by (intro keep rx_mins without_email_clean)
qed

subsection \<open>Lemmas: the shape of what is kept\<close>

text \<open>At most so many containers deep, and every text, key, array and object within its bound.\<close>

fun tidy :: "nat \<Rightarrow> json \<Rightarrow> bool" where
  "tidy d (JStr s) \<longleftrightarrow> utf8_length s \<le> value_bytes"
| "tidy d (JArr items) \<longleftrightarrow> 0 < d \<and> length items \<le> max_attributes \<and> (\<forall>v \<in> set items. tidy (d - 1) v)"
| "tidy d (JObj ms) \<longleftrightarrow> 0 < d \<and> length ms \<le> max_attributes \<and> obj_wf ms
     \<and> (\<forall>(key, v) \<in> set ms. length key \<le> identity_length
          \<and> (excluded_key key \<or> identity_key key \<longrightarrow> v = JStr redacted_mark) \<and> tidy (d - 1) v)"
| "tidy d v \<longleftrightarrow> True"

text \<open>The nodes of a value, its marks not counted.\<close>

fun weight :: "json \<Rightarrow> int" where
  "weight (JStr s) = (if s = limit_mark \<or> s = redacted_mark then 0 else 1)"
| "weight (JArr items) = 1 + sum_list (map weight items)"
| "weight (JObj ms) = 1 + sum_list (map (\<lambda>(key, v). weight v) ms)"
| "weight v = 1"

lemma weight_nonneg [simp]: "0 \<le> weight v"
proof (induction v rule: weight.induct)
  case (3 ms)
  then have "0 \<le> sum_list (map (\<lambda>(key, v). weight v) ms)" by (intro sum_list_nonneg) auto
  then show ?case by simp
next
  case (2 items)
  then have "0 \<le> sum_list (map weight items)" by (intro sum_list_nonneg) auto
  then show ?case by simp
qed auto

lemma obj_set_weight: "sum_list (map (\<lambda>(k, v). weight v) (obj_set ob k v)) \<le> sum_list (map (\<lambda>(k, v). weight v) ob) + weight v"
  by (induction ob k v rule: obj_set.induct) auto

lemma from_entries_snoc: "from_entries (kvs @ [(k, v)]) = obj_set (from_entries kvs) k v"
  by (simp add: from_entries_def)

lemma from_entries_shape:
  "obj_wf (from_entries kvs) \<and> length (from_entries kvs) \<le> length kvs \<and> set (from_entries kvs) \<subseteq> set kvs"
proof (induction kvs rule: rev_induct)
  case Nil
  show ?case by (simp add: from_entries_def)
next
  case (snoc kv kvs)
  obtain k v where kv: "kv = (k, v)" by fastforce
  with snoc length_obj_set [of "from_entries kvs" k v] in_obj_set [of _ "from_entries kvs" k v]
  show ?case by (auto simp: from_entries_snoc split: if_split_asm)
qed

lemma from_entries_weight: "sum_list (map (\<lambda>(k, v). weight v) (from_entries kvs)) \<le> sum_list (map (\<lambda>(k, v). weight v) kvs)"
proof (induction kvs rule: rev_induct)
  case (snoc kv kvs)
  obtain k v where kv: "kv = (k, v)" by fastforce
  with snoc obj_set_weight [of "from_entries kvs" k v] show ?case by (simp add: from_entries_snoc)
qed (simp add: from_entries_def)

lemma marks_small: "utf8_length redacted_mark \<le> value_bytes" "utf8_length oversize_mark \<le> value_bytes"
    "utf8_length limit_mark \<le> value_bytes"
  by code_simp+

lemma private_text_small: "utf8_length (private_text v) \<le> value_bytes"
  using marks_small(2) by (simp add: private_text_def)

lemma excluded_key_take: "excluded_key (take n key) \<Longrightarrow> excluded_key key"
proof -
  have "js_includes (to_lower (take n key)) w \<Longrightarrow> js_includes (to_lower key) w" for w
    by (auto simp: js_includes_iff to_lower_def simp flip: take_map) (metis append.assoc append_take_drop_id)
  then show "excluded_key (take n key) \<Longrightarrow> excluded_key key" unfolding excluded_key_def list_ex_iff by blast
qed

lemma identity_key_take: "identity_key (take n key) \<Longrightarrow> identity_key key"
proof -
  have "starts_with (take n key) p \<Longrightarrow> starts_with key p" for p
    by (auto simp: starts_with_iff) (metis append.assoc append_take_drop_id)
  then show "identity_key (take n key) \<Longrightarrow> identity_key key" unfolding identity_key_def list_ex_iff by blast
qed

lemma visit_tidy:
  "visit_value v depth nodes = (v', r) \<Longrightarrow> 0 \<le> depth \<Longrightarrow>
     tidy (nat (max_depth + 1 - depth)) v' \<and> weight v' + max 0 r \<le> max 0 nodes"
  "visit_items n items depth nodes = (items', r) \<Longrightarrow> 0 \<le> depth \<Longrightarrow>
     length items' \<le> n \<and> (\<forall>v \<in> set items'. tidy (nat (max_depth + 1 - depth)) v)
     \<and> sum_list (map weight items') + max 0 r \<le> max 0 nodes"
  "visit_members n ms depth nodes = (ms', r) \<Longrightarrow> 0 \<le> depth \<Longrightarrow>
     length ms' \<le> n \<and> sum_list (map (\<lambda>(key, v). weight v) ms') + max 0 r \<le> max 0 nodes
     \<and> (\<forall>(key, v) \<in> set ms'. length key \<le> identity_length
          \<and> (excluded_key key \<or> identity_key key \<longrightarrow> v = JStr redacted_mark) \<and> tidy (nat (max_depth + 1 - depth)) v)"
proof (induction v depth nodes and n items depth nodes and n ms depth nodes arbitrary: v' r and items' r and ms' r
    rule: visit_value_visit_items_visit_members.induct)
  case (1 v depth nodes)
  show ?case
  proof (cases "depth > max_depth \<or> nodes - 1 < 0")
    case True
    with 1(3) have "v' = JStr limit_mark" "r = nodes - 1" by (auto simp: visit_value.simps)
    then show ?thesis using marks_small(3) by simp
  next
    case False
    then have depth: "nat (max_depth + 1 - depth) = Suc (nat (max_depth + 1 - (depth + 1)))"
      using 1(4) by (subst Suc_nat_eq_nat_zadd1) (auto simp: algebra_simps)
    show ?thesis
    proof (cases v)
      case (JArr items)
      obtain items' r' where run: "visit_items max_attributes items (depth + 1) (nodes - 1) = (items', r')" by fastforce
      with 1(3) False JArr have v': "v' = JArr items'" "r = r'" by (simp_all add: visit_value.simps)
      from 1(1) [OF refl False JArr run] 1(4) False
      show ?thesis unfolding v' by (simp add: depth)
    next
      case (JObj ms)
      obtain ms' r' where run: "visit_members max_attributes ms (depth + 1) (nodes - 1) = (ms', r')" by fastforce
      with 1(3) False JObj have v': "v' = JObj (from_entries ms')" "r = r'" by (simp_all add: visit_value.simps)
      have ih: "length ms' \<le> max_attributes" "sum_list (map (\<lambda>(key, v). weight v) ms') + max 0 r' \<le> max 0 (nodes - 1)"
        "\<forall>(key, v) \<in> set ms'. length key \<le> identity_length
          \<and> (excluded_key key \<or> identity_key key \<longrightarrow> v = JStr redacted_mark) \<and> tidy (nat (max_depth + 1 - (depth + 1))) v"
        using 1(2) [OF refl False JObj run] 1(4) by simp_all
      have "weight v' + max 0 r \<le> max 0 nodes"
        using ih(2) from_entries_weight [of ms'] False unfolding v' by simp
      moreover have "tidy (Suc (nat (max_depth + 1 - (depth + 1)))) v'"
        using ih(1,3) from_entries_shape [of ms'] unfolding v' by fastforce
      ultimately show ?thesis by (simp add: depth)
    qed (use 1(3) False private_text_small in \<open>auto simp: visit_value.simps\<close>)
  qed
next
  case (4 n v items depth nodes)
  obtain w r1 where w: "visit_value v depth nodes = (w, r1)" by fastforce
  obtain ws r2 where ws: "visit_items n items depth r1 = (ws, r2)" by fastforce
  from 4(3) w ws have res: "items' = w # ws" "r = r2" by simp_all
  from 4(1) [OF w 4(4)] 4(2) [OF w [symmetric] refl ws 4(4)] show ?case unfolding res by simp
next
  case (7 n key v ms depth nodes)
  let ?x = "excluded_key key \<or> identity_key key"
  obtain w r1 where w: "(if ?x then (JStr redacted_mark, nodes) else visit_value v depth nodes) = (w, r1)" by fastforce
  obtain ws r2 where ws: "visit_members n ms depth r1 = (ws, r2)" by fastforce
  from 7(3) w ws have res: "ms' = (take identity_length key, w) # ws" "r = r2" by simp_all
  have this_one: "tidy (nat (max_depth + 1 - depth)) w \<and> weight w + max 0 r1 \<le> max 0 nodes \<and> (?x \<longrightarrow> w = JStr redacted_mark)"
    using w 7(1) 7(4) marks_small(1) by (auto split: if_split_asm)
  have "excluded_key (take identity_length key) \<or> identity_key (take identity_length key) \<longrightarrow> ?x"
    using excluded_key_take identity_key_take by blast
  with this_one 7(2) [OF w [symmetric] refl ws 7(4)] show ?case unfolding res by auto
qed auto

subsection \<open>What the scrubbing guarantees\<close>

text \<open>
  C22: No e-mail address survives. A text is cut to its bound or scrubbed of every substring that reads as
  an e-mail address; none is put back by the later passes. (A text with a URL is only covered up to the
  URL pass, which rewrites URLs.)
\<close>

theorem no_email_survives:
  assumes "\<not> occurs url_rx (without_email v)"
  shows "\<not> occurs email_rx (private_text v)"
  using scrubbed_clean [OF assms] no_at_no_email [of oversize_mark] by (simp add: private_text_def oversize_mark_def)

text \<open>
  Attributes come out within every bound. Whatever JSON goes in: at most six containers deep, at most
  32 entries in each, keys of at most 128 code units and no key twice, texts of at most 1024 bytes, at most
  256 values that are not marks, and a member whose key names something personal holds the mark.
\<close>

lemma sanitized_attributes_are_tidy:
  "tidy 6 (JObj (sanitize_attributes input)) \<and> weight (JObj (sanitize_attributes input)) \<le> 256"
proof (cases "\<exists>ms r rest. input = JObj ms \<and> visit_value input 0 max_nodes = (JObj r, rest)")
  case True
  then obtain ms r rest where r: "input = JObj ms" "visit_value input 0 max_nodes = (JObj r, rest)" by blast
  from visit_tidy(1) [OF r(2)] have ok: "tidy 6 (JObj r)" "weight (JObj r) + max 0 rest \<le> 256"
    by (simp_all add: max_depth_def max_nodes_def)
  have s: "sanitize_attributes input = from_entries r" using r by (simp add: sanitize_attributes_def)
  have "weight (JObj (from_entries r)) \<le> 256" using ok(2) from_entries_weight [of r] by simp
  moreover have "tidy 6 (JObj (from_entries r))" using ok(1) from_entries_shape [of r] by fastforce
  ultimately show ?thesis by (simp add: s)
next
  case False
  obtain v rest where "visit_value input 0 max_nodes = (v, rest)" by fastforce
  with False have "sanitize_attributes input = []"
    by (auto simp: sanitize_attributes_def split: json.splits)
  then show ?thesis by (simp add: max_attributes_def)
qed

lemma url_has_colon: "rx_accepts url_rx m \<Longrightarrow> CHR '':'' \<in> set m"
proof -
  assume "rx_accepts url_rx m"
  then obtain st1 st2 st3 where 1: "rx_match (rx_text_i ''http'') ([], m) st1" and 2: "rx_match (RxRep 0 (Some 1) (rx_text_i ''s'')) st1 st2"
    and 3: "rx_match (rx_text ''://'') st2 st3"
    unfolding rx_accepts_def url_rx_def by (elim rx_matchE(2)) blast
  from rx_match_consumes [OF 1] obtain x where x: "m = x @ snd st1" by (auto simp: consumes_def)
  from rx_match_consumes [OF 2] obtain y where y: "snd st1 = y @ snd st2" by (auto simp: consumes_def)
  from 3 have "CHR '':'' \<in> set (snd st2)" by (auto elim!: rx_matchE(2) rx_matchE(1))
  with x y show ?thesis by simp
qed

lemma no_email_survives_witness:
  "private_text ''to b@x.co'' = ''to [redacted]'' \<and> \<not> occurs email_rx (private_text ''to b@x.co'')"
proof
  show "private_text ''to b@x.co'' = ''to [redacted]''" by code_simp
  have "\<not> occurs url_rx (without_email ''to b@x.co'')"
  proof -
    have "without_email ''to b@x.co'' = ''to [redacted]''" by code_simp
    then have "CHR '':'' \<notin> set (without_email ''to b@x.co'')" by simp
    with url_has_colon show ?thesis by (auto simp: occurs_def)
  qed
  then show "\<not> occurs email_rx (private_text ''to b@x.co'')" by (rule no_email_survives)
qed

text \<open>
  A reported URL is bare. Any text read as a URL comes out as the mark, or as an \<open>http\<close> or \<open>https\<close> URL
  without user information, query and fragment, whose host is the mark or a name (no IP address).
\<close>

lemma reported_urls_are_bare:
  "sanitize_url v = redacted_mark
   \<or> (\<exists>scheme h path. sanitize_url v = scheme @ ''://'' @ h @ ''/'' @ path \<and> scheme \<in> {''http'', ''https''}
        \<and> (\<forall>c \<in> set h. c \<notin> {CHR ''@'', CHR ''/'', CHR ''?'', CHR ''#''})
        \<and> (\<forall>c \<in> set path. c \<notin> {CHR ''?'', CHR ''#''})
        \<and> (h = redacted_mark \<or> CHR ''['' \<notin> set h \<and> \<not> dotted_quad (takeWhile (\<lambda>c. c \<noteq> CHR '':'') h)))"
proof (cases "sanitize_url v = redacted_mark")
  case False
  then obtain scheme r where r: "scheme_split (url_strip v) = Some (scheme, r)" "scheme \<in> {''http'', ''https''}"
    unfolding sanitize_url_def by (auto split: option.splits if_split_asm)
  define rest where "rest = dropWhile is_slash r"
  define a where "a = takeWhile (\<lambda>c. \<not> is_slash c \<and> c \<noteq> CHR ''?'' \<and> c \<noteq> CHR ''#'') rest"
  define h where "h = after_userinfo a"
  obtain segs where path: "pathname (parse_rest scheme '''' [] (drop (length a) rest)) = ''/'' @ js_join ''/'' segs" "list_all seg_ok segs"
    unfolding parse_rest_def Let_def case_prod_beta by (simp add: path_state_ok raw_segments_ok)
  have plain: "\<forall>c \<in> set (js_join ''/'' segs). c \<notin> {CHR ''?'', CHR ''#''}"
    using join_segs_plain [OF path(2)] by blast
  have s: "sanitize_url v = (if ipv6_host scheme h then scheme @ ''://'' @ redacted_mark @ ''/'' @ js_join ''/'' segs
             else case parse_authority scheme h of None \<Rightarrow> redacted_mark
                  | Some hp \<Rightarrow> if dotted_quad (takeWhile (\<lambda>c. c \<noteq> CHR '':'') hp) then scheme @ ''://'' @ redacted_mark @ ''/'' @ js_join ''/'' segs
                              else scheme @ ''://'' @ hp @ ''/'' @ js_join ''/'' segs)"
    using r(2) path(1) by (auto simp: sanitize_url_def r(1) Let_def rest_def a_def h_def split: option.splits)
  show ?thesis
  proof (cases "sanitize_url v = scheme @ ''://'' @ redacted_mark @ ''/'' @ js_join ''/'' segs")
    case True
    have mark: "\<forall>c \<in> set redacted_mark. c \<notin> {CHR ''@'', CHR ''/'', CHR ''?'', CHR ''#''}" by (simp add: redacted_mark_def)
    show ?thesis
      by (rule disjI2, rule exI [of _ scheme], rule exI [of _ redacted_mark], rule exI [of _ "js_join ''/'' segs"])
        (intro conjI True r(2) mark plain disjI1 refl)
  next
    case not_marked: False
    with s False obtain hp where hp: "parse_authority scheme h = Some hp" "\<not> dotted_quad (takeWhile (\<lambda>c. c \<noteq> CHR '':'') hp)"
      "sanitize_url v = scheme @ ''://'' @ hp @ ''/'' @ js_join ''/'' segs"
      by (auto split: if_split_asm option.splits)
    obtain h' p' p where parts: "parse_host (takeWhile (\<lambda>c. c \<noteq> CHR '':'') h) = Some h'" "parse_port scheme p = Some p'" "hp = h' @ p'"
      using hp(1) by (auto simp: parse_authority_def Let_def split: if_splits option.splits)
    have "\<forall>c \<in> set h'. c \<notin> {CHR ''@'', CHR ''/'', CHR ''?'', CHR ''#'', CHR ''[''}"
      using parse_host_idem [OF parts(1)] by (auto simp: list_all_iff forbidden_host_char_def)
    moreover have "\<forall>c \<in> set p'. c \<notin> {CHR ''@'', CHR ''/'', CHR ''?'', CHR ''#'', CHR ''[''}"
    proof -
      have "c \<notin> {CHR ''@'', CHR ''/'', CHR ''?'', CHR ''#'', CHR ''[''}" if "is_digit c \<or> c = CHR '':''" for c
        using that by (auto simp: is_digit_def)
      then show ?thesis using parse_port_idem(1) [OF parts(2)] by (fastforce simp: list_all_iff)
    qed
    ultimately have "\<forall>c \<in> set hp. c \<notin> {CHR ''@'', CHR ''/'', CHR ''?'', CHR ''#'', CHR ''[''}" using parts(3) by auto
    then have host: "\<forall>c \<in> set hp. c \<notin> {CHR ''@'', CHR ''/'', CHR ''?'', CHR ''#''}" "CHR ''['' \<notin> set hp" by blast+
    show ?thesis
      by (rule disjI2, rule exI [of _ scheme], rule exI [of _ hp], rule exI [of _ "js_join ''/'' segs"])
        (intro conjI hp(3) r(2) host(1) plain disjI2 host(2) hp(2))
  qed
qed simp

end
