(* ===== verification/Faro.thy ===== *)
theory Faro
  imports Privacy
begin

section \<open>Browser signals at the boundary (\<open>packages/telemetry/src/faro-privacy.ts\<close>)\<close>

text \<open>
  A batch of browser signals is rebuilt, field by field, from whatever JSON arrives; then the server's own
  context is put on every signal. A function that reports drops returns their number beside its result.
  The clock is read once (\<open>now\<close>), and \<open>Date.parse\<close> is an argument that answers only times a date can hold.
\<close>

definition batch_bytes :: int where "batch_bytes = 49152"
definition browser_buffered_bytes :: int where "browser_buffered_bytes = 262144"
definition event_bytes :: int where "event_bytes = 8192"
definition max_events :: nat where "max_events = 256"
definition browser_attributes :: nat where "browser_attributes = 32"
definition flush_ms :: int where "flush_ms = 5000"
definition max_concurrent :: nat where "max_concurrent = 16"
definition session_seconds :: int where "session_seconds = 3600"

type_synonym faro_record = "(string \<times> json) list"

record faro_batch =
  fb_logs :: "faro_record list"
  fb_exceptions :: "faro_record list"
  fb_measurements :: "faro_record list"
  fb_events :: "faro_record list"
  fb_traces :: faro_record

subsection \<open>Reading fields\<close>

definition faro_object :: "json option \<Rightarrow> faro_record" where
  "faro_object v = (case v of Some (JObj ms) \<Rightarrow> ms | _ \<Rightarrow> [])"

definition json_items :: "json option \<Rightarrow> json list" where
  "json_items v = (case v of Some (JArr items) \<Rightarrow> items | _ \<Rightarrow> [])"

definition faro_list :: "json option \<Rightarrow> json list" where
  "faro_list v = take max_events (json_items v)"

definition text_field :: "json option \<Rightarrow> string option" where
  "text_field v = (case v of Some (JStr s) \<Rightarrow> Some s | _ \<Rightarrow> None)"

definition number_field :: "json option \<Rightarrow> json option" where
  "number_field v = (case v of Some (JNum i) \<Rightarrow> Some (JNum i) | Some (JDec m k) \<Rightarrow> Some (JDec m k) | _ \<Rightarrow> None)"

text \<open>\<open>/^[a-zA-Z][a-zA-Z0-9_.-]{0,127}$/u\<close>, \<open>/^[a-f0-9]{n}$/u\<close> and \<open>/^\d{1,20}$/u\<close>\<close>

definition is_plain_name :: "string \<Rightarrow> bool" where
  "is_plain_name s \<longleftrightarrow> next_is letter_i s \<and> length s \<le> 128 \<and> list_all identifier_char s"

definition lower_hex_char :: "char \<Rightarrow> bool" where
  "lower_hex_char c \<longleftrightarrow> is_digit c \<or> 97 \<le> code c \<and> code c \<le> 102"

definition is_hex :: "nat \<Rightarrow> string \<Rightarrow> bool" where
  "is_hex n s \<longleftrightarrow> length s = n \<and> list_all lower_hex_char s"

definition is_nano :: "string \<Rightarrow> bool" where
  "is_nano s \<longleftrightarrow> 1 \<le> length s \<and> length s \<le> 20 \<and> list_all is_digit s"

definition faro_name :: "json option \<Rightarrow> string \<Rightarrow> string" where
  "faro_name v fallback = (case text_field v of Some s \<Rightarrow> if is_plain_name s then s else fallback | None \<Rightarrow> fallback)"

definition iso_text :: "int \<Rightarrow> string" where
  "iso_text ms = (case to_iso_string ms of Inr t \<Rightarrow> t | Inl e \<Rightarrow> '''')"

definition faro_timestamp :: "(string \<Rightarrow> int option) \<Rightarrow> int \<Rightarrow> json option \<Rightarrow> string" where
  "faro_timestamp date_parse now v =
     (case text_field v of
        Some s \<Rightarrow> if length s \<le> browser_attributes
                  then (case date_parse s of Some ms \<Rightarrow> iso_text ms | None \<Rightarrow> iso_text now)
                  else iso_text now
      | None \<Rightarrow> iso_text now)"

fun json_text :: "json \<Rightarrow> string" where
  "json_text (JStr s) = s"
| "json_text v = json_print v"

definition faro_context :: "json option \<Rightarrow> faro_record" where
  "faro_context v =
     from_entries (map (\<lambda>(key, item). (key, JStr (if utf8_length (json_text item) \<le> value_bytes then json_text item else oversize_mark)))
       (sanitize_attributes (case v of Some j \<Rightarrow> j | None \<Rightarrow> JNull)))"

definition trace_context :: "json option \<Rightarrow> faro_record" where
  "trace_context v =
     (let source = faro_object v in
      case (text_field (obj_get source ''trace_id''), text_field (obj_get source ''span_id'')) of
        (Some t, Some s) \<Rightarrow> if is_hex 32 t \<and> is_hex 16 s then [(''trace_id'', JStr t), (''span_id'', JStr s)] else []
      | _ \<Rightarrow> [])"

text \<open>At most so many items, each within its size; and how many were not taken.\<close>

definition bounded_items :: "json option \<Rightarrow> (faro_record \<Rightarrow> faro_record) \<Rightarrow> faro_record list \<times> int" where
  "bounded_items items transform =
     (let source = json_items items;
          made = map (\<lambda>item. transform (faro_object (Some item))) (take max_events source);
          fits = (\<lambda>item. utf8_length (json_print (JObj item)) \<le> event_bytes) in
      (filter fits made,
       int (length source - max_events) + int (length (filter (\<lambda>item. \<not> fits item) made))))"

definition file_name :: "string \<Rightarrow> string option" where
  "file_name s =
     (let front = takeWhile (\<lambda>c. c \<noteq> CHR ''?'' \<and> c \<noteq> CHR ''#'') s;
          parts = split_char (CHR ''/'') (map (\<lambda>c. if c = CHR 0x5C then CHR ''/'' else c) front) in
      case filter (\<lambda>p. p \<noteq> '''') parts of [] \<Rightarrow> None | ps \<Rightarrow> Some (last ps))"

definition faro_frame :: "faro_record \<Rightarrow> json" where
  "faro_frame frame =
     JObj ([(''filename'', JStr (faro_name (map_option JStr
              (case text_field (obj_get frame ''filename'') of Some s \<Rightarrow> file_name s | None \<Rightarrow> None)) ''unknown''))]
       @ opt_member ''lineno'' (number_field (obj_get frame ''lineno''))
       @ opt_member ''colno'' (number_field (obj_get frame ''colno'')))"

definition faro_frames :: "json option \<Rightarrow> json list" where
  "faro_frames v =
     map (\<lambda>item. faro_frame (faro_object (Some item)))
       (take browser_attributes (faro_list (obj_get (faro_object v) ''frames'')))"

text \<open>
  \<open>a ?? b\<close> over an attribute's values. A value that is absent altogether is scrubbed to the mark, like the
  mark itself.
\<close>

definition wire_value :: "faro_record \<Rightarrow> json" where
  "wire_value wire =
     (case filter (\<lambda>v. v \<noteq> None \<and> v \<noteq> Some JNull) (map (obj_get wire) [''stringValue'', ''intValue'', ''doubleValue'']) of
        Some v # _ \<Rightarrow> v
      | _ \<Rightarrow> (case obj_get wire ''boolValue'' of Some v \<Rightarrow> v | None \<Rightarrow> JStr redacted_mark))"

definition otlp_member :: "string \<times> json \<Rightarrow> json" where
  "otlp_member kv = JObj [(''key'', JStr (fst kv)), (''value'', JObj [(''stringValue'', snd kv)])]"

definition faro_attributes :: "json option \<Rightarrow> json list" where
  "faro_attributes v =
     (let input = from_entries (concat (map (\<lambda>item.
            let attribute = faro_object (Some item) in
            case text_field (obj_get attribute ''key'') of
              Some key \<Rightarrow> [(key, wire_value (faro_object (obj_get attribute ''value'')))]
            | None \<Rightarrow> []) (take browser_attributes (faro_list v)))) in
      map otlp_member (faro_context (Some (JObj input))))"

definition nano_text :: "json option \<Rightarrow> string" where
  "nano_text v = (case text_field v of Some s \<Rightarrow> if is_nano s then s else ''0'' | None \<Rightarrow> ''0'')"

subsection \<open>The signals\<close>

definition hex_member :: "string \<Rightarrow> nat \<Rightarrow> faro_record \<Rightarrow> faro_record" where
  "hex_member key n source =
     (case text_field (obj_get source key) of Some s \<Rightarrow> if is_hex n s then [(key, JStr s)] else [] | None \<Rightarrow> [])"

definition faro_span :: "faro_record \<Rightarrow> faro_record" where
  "faro_span span =
     hex_member ''traceId'' 32 span @ hex_member ''spanId'' 16 span @ hex_member ''parentSpanId'' 16 span
     @ [(''name'', JStr (faro_name (obj_get span ''name'') ''browser.operation''))]
     @ opt_member ''kind'' (number_field (obj_get span ''kind''))
     @ [(''startTimeUnixNano'', JStr (nano_text (obj_get span ''startTimeUnixNano''))),
        (''endTimeUnixNano'', JStr (nano_text (obj_get span ''endTimeUnixNano''))),
        (''attributes'', JArr (faro_attributes (obj_get span ''attributes''))),
        (''events'', JArr (map (\<lambda>event. let e = faro_object (Some event) in
            JObj [(''name'', JStr (faro_name (obj_get e ''name'') ''browser.event'')),
                  (''timeUnixNano'', JStr (nano_text (obj_get e ''timeUnixNano''))),
                  (''attributes'', JArr (faro_attributes (obj_get e ''attributes'')))])
          (faro_list (obj_get span ''events'')))),
        (''status'', JObj (opt_member ''code'' (number_field (obj_get (faro_object (obj_get span ''status'')) ''code''))))]"

definition faro_scope :: "json \<Rightarrow> json \<times> int" where
  "faro_scope scope =
     (let (spans, lost) = bounded_items (obj_get (faro_object (Some scope)) ''spans'') faro_span in
      (JObj [(''scope'', JObj [(''name'', JStr ''wallow.browser'')]),
             (''spans'', JArr (map JObj (filter (\<lambda>span. obj_get span ''traceId'' \<noteq> None \<and> obj_get span ''spanId'' \<noteq> None) spans)))],
       lost))"

definition faro_resource :: "json \<Rightarrow> json \<times> int" where
  "faro_resource resource =
     (let scopes = map faro_scope (faro_list (obj_get (faro_object (Some resource)) ''scopeSpans'')) in
      (JObj [(''resource'', JObj [(''attributes'', JArr [])]), (''scopeSpans'', JArr (map fst scopes))],
       sum_list (map snd scopes)))"

definition faro_traces :: "json option \<Rightarrow> faro_record \<times> int" where
  "faro_traces v =
     (let resources = map faro_resource (faro_list (obj_get (faro_object v) ''resourceSpans'')) in
      ([(''resourceSpans'', JArr (map fst resources))], sum_list (map snd resources)))"

definition faro_log :: "(string \<Rightarrow> int option) \<Rightarrow> int \<Rightarrow> faro_record \<Rightarrow> faro_record" where
  "faro_log date_parse now log =
     [(''message'', JStr (faro_name (obj_get log ''message'') ''browser.log'')),
      (''level'', JStr (faro_name (obj_get log ''level'') ''info'')),
      (''timestamp'', JStr (faro_timestamp date_parse now (obj_get log ''timestamp''))),
      (''context'', JObj (faro_context (obj_get log ''context''))),
      (''trace'', JObj (trace_context (obj_get log ''trace'')))]"

definition faro_exception :: "(string \<Rightarrow> int option) \<Rightarrow> int \<Rightarrow> faro_record \<Rightarrow> faro_record" where
  "faro_exception date_parse now error =
     [(''type'', JStr (faro_name (obj_get error ''type'') ''Error'')),
      (''value'', JStr ''Unexpected application error''),
      (''timestamp'', JStr (faro_timestamp date_parse now (obj_get error ''timestamp''))),
      (''stacktrace'', JObj [(''frames'', JArr (faro_frames (obj_get error ''stacktrace'')))]),
      (''context'', JObj (faro_context (obj_get error ''context''))),
      (''trace'', JObj (trace_context (obj_get error ''trace'')))]"

definition faro_values :: "json option \<Rightarrow> faro_record" where
  "faro_values v =
     filter (\<lambda>(key, item). is_plain_name key \<and> number_field (Some item) \<noteq> None)
       (take browser_attributes (faro_object v))"

definition faro_measurement :: "(string \<Rightarrow> int option) \<Rightarrow> int \<Rightarrow> faro_record \<Rightarrow> faro_record" where
  "faro_measurement date_parse now measurement =
     [(''type'', JStr (faro_name (obj_get measurement ''type'') ''browser.performance'')),
      (''timestamp'', JStr (faro_timestamp date_parse now (obj_get measurement ''timestamp''))),
      (''values'', JObj (faro_values (obj_get measurement ''values''))),
      (''context'', JObj (faro_context (obj_get measurement ''context'')))]"

definition faro_event :: "(string \<Rightarrow> int option) \<Rightarrow> int \<Rightarrow> faro_record \<Rightarrow> faro_record" where
  "faro_event date_parse now event =
     [(''name'', JStr (faro_name (obj_get event ''name'') ''browser.event'')),
      (''timestamp'', JStr (faro_timestamp date_parse now (obj_get event ''timestamp''))),
      (''attributes'', JObj (faro_context (obj_get event ''attributes''))),
      (''domain'', JStr ''browser'')]"

definition sanitize_faro_batch :: "(string \<Rightarrow> int option) \<Rightarrow> int \<Rightarrow> json \<Rightarrow> faro_batch \<times> int" where
  "sanitize_faro_batch date_parse now input =
     (let source = faro_object (Some input);
          (logs, d1) = bounded_items (obj_get source ''logs'') (faro_log date_parse now);
          (exceptions, d2) = bounded_items (obj_get source ''exceptions'') (faro_exception date_parse now);
          (measurements, d3) = bounded_items (obj_get source ''measurements'') (faro_measurement date_parse now);
          (events, d4) = bounded_items (obj_get source ''events'') (faro_event date_parse now);
          (traces, d5) = faro_traces (obj_get source ''traces'') in
      (\<lparr>fb_logs = logs, fb_exceptions = exceptions, fb_measurements = measurements, fb_events = events, fb_traces = traces\<rparr>,
       d1 + d2 + d3 + d4 + d5))"

definition faro_to_json :: "faro_batch \<Rightarrow> json" where
  "faro_to_json b =
     JObj [(''logs'', JArr (map JObj (fb_logs b))), (''exceptions'', JArr (map JObj (fb_exceptions b))),
           (''measurements'', JArr (map JObj (fb_measurements b))), (''events'', JArr (map JObj (fb_events b))),
           (''traces'', JObj (fb_traces b))]"

definition sanitized_page :: "json option \<Rightarrow> string" where
  "sanitized_page v = (case text_field v of Some s \<Rightarrow> sanitize_url s | None \<Rightarrow> redacted_mark)"

subsection \<open>The server's context\<close>

text \<open>JavaScript's \<open>slice(0, n)\<close>, where a negative \<open>n\<close> counts from the end.\<close>

definition slice_to :: "int \<Rightarrow> 'a list \<Rightarrow> 'a list" where
  "slice_to n xs = take (nat (if n < 0 then int (length xs) + n else n)) xs"

definition spare_attributes :: "(string \<times> string) list \<Rightarrow> int" where
  "spare_attributes trusted = int browser_attributes - int (length trusted)"

definition ordinary_members :: "(string \<times> string) list \<Rightarrow> faro_record \<Rightarrow> faro_record" where
  "ordinary_members trusted ms =
     slice_to (spare_attributes trusted) (filter (\<lambda>(key, v). obj_get trusted key = None) ms)"

definition trusted_members :: "(string \<times> string) list \<Rightarrow> faro_record" where
  "trusted_members trusted = map (\<lambda>(key, v). (key, JStr v)) trusted"

definition stamp_item :: "(string \<times> string) list \<Rightarrow> string \<Rightarrow> faro_record \<Rightarrow> faro_record" where
  "stamp_item trusted field item =
     obj_set item field (JObj (obj_spread (ordinary_members trusted (faro_object (obj_get item field))) (trusted_members trusted)))"

definition stamp_items :: "(string \<times> string) list \<Rightarrow> string \<Rightarrow> faro_record list \<Rightarrow> faro_record list \<times> int" where
  "stamp_items trusted field items = bounded_items (Some (JArr (map JObj items))) (stamp_item trusted field)"

text \<open>\<open>String(record(attribute).key)\<close>; the attributes stamped here were built with text keys.\<close>

definition attribute_key :: "json \<Rightarrow> string" where
  "attribute_key attribute =
     (case obj_get (faro_object (Some attribute)) ''key'' of Some k \<Rightarrow> js_text k | None \<Rightarrow> ''undefined'')"

definition stamp_span :: "(string \<times> string) list \<Rightarrow> faro_record \<Rightarrow> faro_record" where
  "stamp_span trusted span =
     obj_set span ''attributes'' (JArr
       (slice_to (spare_attributes trusted)
          (filter (\<lambda>a. obj_get trusted (attribute_key a) = None) (faro_list (obj_get span ''attributes'')))
        @ map otlp_member (trusted_members trusted)))"

definition stamp_scope :: "(string \<times> string) list \<Rightarrow> json \<Rightarrow> json \<times> int" where
  "stamp_scope trusted v =
     (let scope = faro_object (Some v); (spans, lost) = bounded_items (obj_get scope ''spans'') (stamp_span trusted) in
      (JObj (obj_set scope ''spans'' (JArr (map JObj spans))), lost))"

definition stamp_resource :: "(string \<times> string) list \<Rightarrow> json \<Rightarrow> json \<times> int" where
  "stamp_resource trusted v =
     (let resource = faro_object (Some v);
          scopes = map (stamp_scope trusted) (faro_list (obj_get resource ''scopeSpans'')) in
      (JObj (obj_set resource ''scopeSpans'' (JArr (map fst scopes))), sum_list (map snd scopes)))"

definition stamp_faro_context :: "faro_batch \<Rightarrow> (string \<times> string) list \<Rightarrow> faro_batch \<times> int" where
  "stamp_faro_context b trusted =
     (let (logs, d1) = stamp_items trusted ''context'' (fb_logs b);
          (exceptions, d2) = stamp_items trusted ''context'' (fb_exceptions b);
          (measurements, d3) = stamp_items trusted ''context'' (fb_measurements b);
          (events, d4) = stamp_items trusted ''attributes'' (fb_events b);
          resources = map (stamp_resource trusted) (faro_list (obj_get (fb_traces b) ''resourceSpans'')) in
      (\<lparr>fb_logs = logs, fb_exceptions = exceptions, fb_measurements = measurements, fb_events = events,
        fb_traces = [(''resourceSpans'', JArr (map fst resources))]\<rparr>,
       d1 + d2 + d3 + d4 + sum_list (map snd resources)))"

definition faro_event_count :: "faro_batch \<Rightarrow> nat" where
  "faro_event_count b =
     length (fb_logs b) + length (fb_exceptions b) + length (fb_measurements b) + length (fb_events b)
     + sum_list (map (\<lambda>resource. sum_list (map (\<lambda>scope. length (faro_list (obj_get (faro_object (Some scope)) ''spans'')))
           (faro_list (obj_get (faro_object (Some resource)) ''scopeSpans''))))
         (faro_list (obj_get (fb_traces b) ''resourceSpans'')))"

subsection \<open>The schema of a sanitised batch\<close>

text \<open>
  What may stand in a batch, as a type of shapes. A record names its members in order, and which of them
  may be absent; \<open>ShContext\<close> is an object of bounded texts in which a telling key holds the mark, and
  \<open>ShAttribute\<close> one such member in the collector's form.
\<close>

datatype shape =
    ShName
  | ShIs string
  | ShHex nat
  | ShNano
  | ShTime
  | ShNumber
  | ShContext
  | ShAttribute
  | ShValues
  | ShSized int shape
  | ShList nat shape
  | ShRecord "(string \<times> bool \<times> shape) list"

definition context_member :: "string \<times> json \<Rightarrow> bool" where
  "context_member kv \<longleftrightarrow>
     (case kv of (key, v) \<Rightarrow> length key \<le> identity_length \<and> (\<exists>s. v = JStr s \<and> utf8_length s \<le> value_bytes)
        \<and> (excluded_key key \<or> identity_key key \<longrightarrow> v = JStr redacted_mark))"

definition context_ok :: "faro_record \<Rightarrow> bool" where
  "context_ok ms \<longleftrightarrow> length ms \<le> max_attributes \<and> obj_wf ms \<and> list_all context_member ms"

fun conforms :: "shape \<Rightarrow> json \<Rightarrow> bool"
  and conforms_fields :: "(string \<times> bool \<times> shape) list \<Rightarrow> (string \<times> json) list \<Rightarrow> bool" where
  "conforms ShName v \<longleftrightarrow> (\<exists>s. v = JStr s \<and> is_plain_name s)"
| "conforms (ShIs t) v \<longleftrightarrow> v = JStr t"
| "conforms (ShHex n) v \<longleftrightarrow> (\<exists>s. v = JStr s \<and> is_hex n s)"
| "conforms ShNano v \<longleftrightarrow> (\<exists>s. v = JStr s \<and> is_nano s)"
| "conforms ShTime v \<longleftrightarrow> (\<exists>ms. v = JStr (iso_text ms))"
| "conforms ShNumber v \<longleftrightarrow> number_field (Some v) = Some v"
| "conforms ShContext v \<longleftrightarrow> (\<exists>ms. v = JObj ms \<and> context_ok ms)"
| "conforms ShAttribute v \<longleftrightarrow> (\<exists>kv. v = otlp_member kv \<and> context_member kv)"
| "conforms ShValues v \<longleftrightarrow> (\<exists>ms. v = JObj ms \<and> length ms \<le> browser_attributes
     \<and> (\<forall>(key, x) \<in> set ms. is_plain_name key \<and> number_field (Some x) = Some x))"
| "conforms (ShSized n sh) v \<longleftrightarrow> utf8_length (json_print v) \<le> n \<and> conforms sh v"
| "conforms (ShList n sh) v \<longleftrightarrow> (case v of JArr items \<Rightarrow> length items \<le> n \<and> (\<forall>x \<in> set items. conforms sh x) | _ \<Rightarrow> False)"
| "conforms (ShRecord fs) v \<longleftrightarrow> (case v of JObj ms \<Rightarrow> conforms_fields fs ms | _ \<Rightarrow> False)"
| "conforms_fields [] ms \<longleftrightarrow> ms = []"
| "conforms_fields ((key, absent, sh) # fs) ms \<longleftrightarrow>
     (case ms of (k, v) # rest \<Rightarrow> k = key \<and> conforms sh v \<and> conforms_fields fs rest | [] \<Rightarrow> False)
     \<or> absent \<and> conforms_fields fs ms"

definition trace_shape :: shape where
  "trace_shape = ShRecord [(''trace_id'', True, ShHex 32), (''span_id'', True, ShHex 16)]"

definition frame_shape :: shape where
  "frame_shape = ShRecord [(''filename'', False, ShName), (''lineno'', True, ShNumber), (''colno'', True, ShNumber)]"

definition log_shape :: shape where
  "log_shape = ShRecord [(''message'', False, ShName), (''level'', False, ShName), (''timestamp'', False, ShTime),
     (''context'', False, ShContext), (''trace'', False, trace_shape)]"

definition exception_shape :: shape where
  "exception_shape = ShRecord [(''type'', False, ShName), (''value'', False, ShIs ''Unexpected application error''),
     (''timestamp'', False, ShTime), (''stacktrace'', False, ShRecord [(''frames'', False, ShList 32 frame_shape)]),
     (''context'', False, ShContext), (''trace'', False, trace_shape)]"

definition measurement_shape :: shape where
  "measurement_shape = ShRecord [(''type'', False, ShName), (''timestamp'', False, ShTime), (''values'', False, ShValues),
     (''context'', False, ShContext)]"

definition event_shape :: shape where
  "event_shape = ShRecord [(''name'', False, ShName), (''timestamp'', False, ShTime), (''attributes'', False, ShContext),
     (''domain'', False, ShIs ''browser'')]"

definition span_event_shape :: shape where
  "span_event_shape = ShRecord [(''name'', False, ShName), (''timeUnixNano'', False, ShNano), (''attributes'', False, ShList 32 ShAttribute)]"

definition span_shape :: shape where
  "span_shape = ShRecord [(''traceId'', False, ShHex 32), (''spanId'', False, ShHex 16), (''parentSpanId'', True, ShHex 16),
     (''name'', False, ShName), (''kind'', True, ShNumber), (''startTimeUnixNano'', False, ShNano), (''endTimeUnixNano'', False, ShNano),
     (''attributes'', False, ShList 32 ShAttribute), (''events'', False, ShList 256 span_event_shape),
     (''status'', False, ShRecord [(''code'', True, ShNumber)])]"

definition scope_shape :: shape where
  "scope_shape = ShRecord [(''scope'', False, ShRecord [(''name'', False, ShIs ''wallow.browser'')]),
     (''spans'', False, ShList 256 (ShSized 8192 span_shape))]"

definition resource_shape :: shape where
  "resource_shape = ShRecord [(''resource'', False, ShRecord [(''attributes'', False, ShList 0 ShAttribute)]),
     (''scopeSpans'', False, ShList 256 scope_shape)]"

definition faro_shape :: shape where
  "faro_shape = ShRecord [(''logs'', False, ShList 256 (ShSized 8192 log_shape)),
     (''exceptions'', False, ShList 256 (ShSized 8192 exception_shape)),
     (''measurements'', False, ShList 256 (ShSized 8192 measurement_shape)),
     (''events'', False, ShList 256 (ShSized 8192 event_shape)),
     (''traces'', False, ShRecord [(''resourceSpans'', False, ShList 256 resource_shape)])]"

lemmas faro_shapes = trace_shape_def frame_shape_def log_shape_def exception_shape_def measurement_shape_def event_shape_def

subsection \<open>Lemmas: every field has its shape\<close>

lemma plain_names [simp]:
  "is_plain_name ''browser.log''" "is_plain_name ''info''" "is_plain_name ''Error''" "is_plain_name ''browser.performance''"
  "is_plain_name ''browser.event''" "is_plain_name ''unknown''" "is_plain_name ''browser.operation''"
  by code_simp+

lemma faro_name_ok [simp]: "is_plain_name fallback \<Longrightarrow> is_plain_name (faro_name v fallback)"
  by (auto simp: faro_name_def split: option.splits)

lemma faro_timestamp_ok [simp]: "\<exists>ms. faro_timestamp date_parse now v = iso_text ms"
  by (auto simp: faro_timestamp_def split: option.splits)

lemma number_field_ok: "number_field v = Some n \<Longrightarrow> number_field (Some n) = Some n"
  by (auto simp: number_field_def split: option.splits json.splits)

lemma nano_text_ok [simp]: "is_nano (nano_text v)"
  by (auto simp: nano_text_def is_nano_def is_digit_def split: option.splits)

lemma marks_text: "utf8_length redacted_mark \<le> value_bytes" "utf8_length oversize_mark \<le> value_bytes"
  by (rule marks_small)+

lemma from_entries_map_values:
  "from_entries (map (\<lambda>(k, v). (k, f v)) kvs) = map (\<lambda>(k, v). (k, f v)) (from_entries kvs)"
proof (induction kvs rule: rev_induct)
  case (snoc kv kvs)
  have "obj_set (map (\<lambda>(k, v). (k, f v)) ob) k (f v) = map (\<lambda>(k, v). (k, f v)) (obj_set ob k v)" for ob k v
    by (induction ob k v rule: obj_set.induct) auto
  with snoc show ?case by (cases kv) (simp add: from_entries_snoc)
qed (simp add: from_entries_def)

lemma faro_context_ok [simp]: "context_ok (faro_context v)"
proof -
  define ms where "ms = sanitize_attributes (case v of Some j \<Rightarrow> j | None \<Rightarrow> JNull)"
  define made where "made = map (\<lambda>(key, item). (key, JStr (if utf8_length (json_text item) \<le> value_bytes then json_text item else oversize_mark))) ms"
  have ctx: "faro_context v = from_entries made" by (simp add: faro_context_def made_def ms_def)
  have tidy: "tidy 6 (JObj ms)" using sanitized_attributes_are_tidy ms_def by blast
  have "context_member kv" if kv: "kv \<in> set made" for kv
  proof -
    obtain key item where m: "(key, item) \<in> set ms"
      "kv = (key, JStr (if utf8_length (json_text item) \<le> value_bytes then json_text item else oversize_mark))"
      using kv by (auto simp: made_def)
    with tidy have "length key \<le> identity_length" "excluded_key key \<or> identity_key key \<longrightarrow> item = JStr redacted_mark" by auto
    with m(2) marks_text show ?thesis by (auto simp: context_member_def)
  qed
  moreover have "length made \<le> max_attributes" using tidy by (simp add: made_def)
  ultimately show ?thesis
    using from_entries_shape [of made] by (auto simp: ctx context_ok_def list_all_iff)
qed

lemma faro_attributes_ok: "length (faro_attributes v) \<le> 32 \<and> (\<forall>x \<in> set (faro_attributes v). conforms ShAttribute x)"
proof -
  obtain input where "faro_attributes v = map otlp_member (faro_context (Some (JObj input)))"
    unfolding faro_attributes_def Let_def by blast
  moreover have "context_ok (faro_context (Some (JObj input)))" by simp
  ultimately show ?thesis by (auto simp: context_ok_def list_all_iff max_attributes_def)
qed

lemma opt_member_fields:
  "conforms_fields ((key, True, sh) # fs) (opt_member key v @ rest)"
  if "\<And>x. v = Some x \<Longrightarrow> conforms sh x" "conforms_fields fs rest"
  using that by (cases v) (auto simp: opt_member_def split: list.splits)

lemma fields_Cons:
  "conforms sh v \<Longrightarrow> conforms_fields fs rest \<Longrightarrow> conforms_fields ((key, absent, sh) # fs) ((key, v) # rest)"
  by simp

lemma hex_member_fields:
  "conforms_fields fs rest \<Longrightarrow> conforms_fields ((key, True, ShHex n) # fs) (hex_member key n source @ rest)"
  by (auto simp: hex_member_def split: option.splits list.splits)

lemma trace_context_ok: "conforms trace_shape (JObj (trace_context v))"
  by (auto simp: trace_shape_def trace_context_def Let_def split: option.splits)

lemma faro_log_ok: "conforms log_shape (JObj (faro_log date_parse now log))"
  using trace_context_ok by (simp add: log_shape_def faro_log_def)

lemma faro_event_ok: "conforms event_shape (JObj (faro_event date_parse now event))"
  by (simp add: event_shape_def faro_event_def)

lemma faro_frames_ok: "conforms (ShList 32 frame_shape) (JArr (faro_frames v))"
proof -
  have "conforms frame_shape (faro_frame frame)" for frame
  proof -
    have "conforms_fields [(''lineno'', True, ShNumber), (''colno'', True, ShNumber)]
        (opt_member ''lineno'' (number_field (obj_get frame ''lineno'')) @ opt_member ''colno'' (number_field (obj_get frame ''colno'')) @ [])"
      by (intro opt_member_fields) (auto intro: number_field_ok)
    then show ?thesis by (simp add: faro_frame_def frame_shape_def)
  qed
  then show ?thesis by (auto simp: faro_frames_def browser_attributes_def)
qed

lemma faro_exception_ok: "conforms exception_shape (JObj (faro_exception date_parse now error))"
  using trace_context_ok faro_frames_ok by (simp add: exception_shape_def faro_exception_def)

lemma faro_values_ok: "conforms ShValues (JObj (faro_values v))"
proof -
  have "length (faro_values v) \<le> browser_attributes" by (auto simp: faro_values_def intro: order_trans [OF length_filter_le])
  moreover have "is_plain_name key \<and> number_field (Some x) = Some x" if "(key, x) \<in> set (faro_values v)" for key x
    using that by (cases x) (auto simp: faro_values_def number_field_def)
  ultimately show ?thesis by auto
qed

lemma faro_measurement_ok: "conforms measurement_shape (JObj (faro_measurement date_parse now measurement))"
  using faro_values_ok by (simp add: measurement_shape_def faro_measurement_def)

lemma bounded_items_ok:
  assumes "\<And>item. conforms sh (JObj (transform item))"
  shows "conforms (ShList 256 (ShSized 8192 sh)) (JArr (map JObj (fst (bounded_items items transform))))"
proof -
  have "length (fst (bounded_items items transform)) \<le> 256"
    by (auto simp: bounded_items_def Let_def max_events_def intro: order_trans [OF length_filter_le])
  with assms show ?thesis by (auto simp: bounded_items_def Let_def event_bytes_def)
qed

definition has_ids :: "faro_record \<Rightarrow> bool" where
  "has_ids span \<longleftrightarrow> obj_get span ''traceId'' \<noteq> None \<and> obj_get span ''spanId'' \<noteq> None"

lemma hex_member_get [simp]:
  "obj_get (hex_member key n source @ rest) k =
     (if k = key \<and> hex_member key n source \<noteq> [] then obj_get (hex_member key n source) key else obj_get rest k)"
  by (auto simp: hex_member_def split: option.splits)

lemma hex_member_here: "hex_member key n source \<noteq> [] \<Longrightarrow> \<exists>s. hex_member key n source = [(key, JStr s)] \<and> is_hex n s"
  by (auto simp: hex_member_def split: option.splits if_split_asm)

definition span_rest :: "faro_record \<Rightarrow> faro_record" where
  "span_rest span =
     (''name'', JStr (faro_name (obj_get span ''name'') ''browser.operation'')) # opt_member ''kind'' (number_field (obj_get span ''kind''))
     @ [(''startTimeUnixNano'', JStr (nano_text (obj_get span ''startTimeUnixNano''))),
        (''endTimeUnixNano'', JStr (nano_text (obj_get span ''endTimeUnixNano''))),
        (''attributes'', JArr (faro_attributes (obj_get span ''attributes''))),
        (''events'', JArr (map (\<lambda>event. let e = faro_object (Some event) in
            JObj [(''name'', JStr (faro_name (obj_get e ''name'') ''browser.event'')),
                  (''timeUnixNano'', JStr (nano_text (obj_get e ''timeUnixNano''))),
                  (''attributes'', JArr (faro_attributes (obj_get e ''attributes'')))])
          (faro_list (obj_get span ''events'')))),
        (''status'', JObj (opt_member ''code'' (number_field (obj_get (faro_object (obj_get span ''status'')) ''code''))))]"

lemma faro_span_parts:
  "faro_span span = hex_member ''traceId'' 32 span @ hex_member ''spanId'' 16 span @ hex_member ''parentSpanId'' 16 span @ span_rest span"
  by (simp add: faro_span_def span_rest_def)

lemma span_rest_ids: "obj_get (span_rest span) ''traceId'' = None" "obj_get (span_rest span) ''spanId'' = None"
  by (auto simp: span_rest_def opt_member_def split: option.splits)

lemma faro_span_ok: "has_ids (faro_span span) \<Longrightarrow> conforms span_shape (JObj (faro_span span))"
proof -
  assume ids: "has_ids (faro_span span)"
  have "obj_get (hex_member ''parentSpanId'' 16 span @ span_rest span) ''traceId'' = None"
    "obj_get (hex_member ''spanId'' 16 span @ hex_member ''parentSpanId'' 16 span @ span_rest span) ''traceId'' = None"
    "obj_get (hex_member ''parentSpanId'' 16 span @ span_rest span) ''spanId'' = None"
    by (simp_all add: span_rest_ids)
  with ids have "hex_member ''traceId'' 32 span \<noteq> []" "hex_member ''spanId'' 16 span \<noteq> []"
    by (auto simp: has_ids_def faro_span_parts simp del: hex_member_get(1) split: if_split_asm)
      (simp_all add: span_rest_ids)
  then obtain t i where t: "hex_member ''traceId'' 32 span = [(''traceId'', JStr t)]" "is_hex 32 t"
    and i: "hex_member ''spanId'' 16 span = [(''spanId'', JStr i)]" "is_hex 16 i"
    using hex_member_here by blast
  have status: "conforms_fields [(''code'', True, ShNumber)]
      (opt_member ''code'' (number_field (obj_get (faro_object (obj_get span ''status'')) ''code'')) @ [])"
    by (intro opt_member_fields) (auto intro: number_field_ok)
  have events: "conforms span_event_shape (let e = faro_object (Some event) in
            JObj [(''name'', JStr (faro_name (obj_get e ''name'') ''browser.event'')),
                  (''timeUnixNano'', JStr (nano_text (obj_get e ''timeUnixNano''))),
                  (''attributes'', JArr (faro_attributes (obj_get e ''attributes'')))])" for event
    using faro_attributes_ok by (auto simp: span_event_shape_def Let_def)
  have "conforms_fields [(''name'', False, ShName), (''kind'', True, ShNumber), (''startTimeUnixNano'', False, ShNano),
      (''endTimeUnixNano'', False, ShNano), (''attributes'', False, ShList 32 ShAttribute), (''events'', False, ShList 256 span_event_shape),
      (''status'', False, ShRecord [(''code'', True, ShNumber)])] (span_rest span)"
    unfolding span_rest_def
    by (intro fields_Cons opt_member_fields)
      (use status events faro_attributes_ok in \<open>auto simp: faro_list_def max_events_def intro: number_field_ok\<close>)
  from hex_member_fields [OF this, of "''parentSpanId''" 16 span] t i
  show ?thesis by (simp add: span_shape_def faro_span_parts)
qed

lemma bounded_items_each: "x \<in> set (fst (bounded_items items transform)) \<Longrightarrow>
    (\<exists>item. x = transform item) \<and> utf8_length (json_print (JObj x)) \<le> 8192"
  by (auto simp: bounded_items_def Let_def event_bytes_def)

lemma bounded_items_length: "length (fst (bounded_items items transform)) \<le> 256"
  by (auto simp: bounded_items_def Let_def max_events_def intro: order_trans [OF length_filter_le])

lemma faro_scope_ok: "conforms scope_shape (fst (faro_scope scope))"
proof -
  let ?spans = "fst (bounded_items (obj_get (faro_object (Some scope)) ''spans'') faro_span)"
  have "conforms (ShSized 8192 span_shape) (JObj span)" if "span \<in> set ?spans" "has_ids span" for span
    using bounded_items_each [OF that(1)] that(2) faro_span_ok by auto
  moreover have "length (filter has_ids ?spans) \<le> 256"
    by (rule order_trans [OF length_filter_le bounded_items_length])
  moreover have "fst (faro_scope scope) = JObj [(''scope'', JObj [(''name'', JStr ''wallow.browser'')]), (''spans'', JArr (map JObj (filter has_ids ?spans)))]"
    by (simp add: faro_scope_def has_ids_def [abs_def] case_prod_beta)
  ultimately show ?thesis by (simp add: scope_shape_def)
qed

lemma faro_list_length [simp]: "length (faro_list v) \<le> 256"
  by (simp add: faro_list_def max_events_def)

lemma faro_resource_ok: "conforms resource_shape (fst (faro_resource resource))"
  using faro_scope_ok by (auto simp: resource_shape_def faro_resource_def Let_def)

lemma faro_traces_ok: "conforms (ShRecord [(''resourceSpans'', False, ShList 256 resource_shape)]) (JObj (fst (faro_traces v)))"
  using faro_resource_ok by (auto simp: faro_traces_def Let_def)

text \<open>
  C23: Only the fields of the schema pass. Whatever JSON a browser sends, the rebuilt batch has the type of
  \<open>faro_shape\<close>: exactly the named members in each signal; names, levels and types from the plain alphabet;
  ids in hexadecimal; the times of logs, exceptions, measurements and events printed by the server's side,
  and the nanosecond times of a span the browser's own, kept only as plain digits; contexts and attributes
  bounded, with telling keys masked; a fixed text for an exception's message. Logs, exceptions,
  measurements and events are at most 256 of each kind; spans are bounded by place, at most 256 in a
  scope, 256 scopes in a resource and 256 resources; every signal and every span takes at most 8192 bytes.
\<close>

theorem faro_batch_is_well_typed:
  "conforms faro_shape (faro_to_json (fst (sanitize_faro_batch date_parse now input)))"
proof -
  let ?source = "faro_object (Some input)"
  have "faro_to_json (fst (sanitize_faro_batch date_parse now input)) =
    JObj [(''logs'', JArr (map JObj (fst (bounded_items (obj_get ?source ''logs'') (faro_log date_parse now))))),
          (''exceptions'', JArr (map JObj (fst (bounded_items (obj_get ?source ''exceptions'') (faro_exception date_parse now))))),
          (''measurements'', JArr (map JObj (fst (bounded_items (obj_get ?source ''measurements'') (faro_measurement date_parse now))))),
          (''events'', JArr (map JObj (fst (bounded_items (obj_get ?source ''events'') (faro_event date_parse now))))),
          (''traces'', JObj (fst (faro_traces (obj_get ?source ''traces''))))]"
    by (simp add: sanitize_faro_batch_def faro_to_json_def Let_def case_prod_beta)
  then show ?thesis
    unfolding faro_shape_def
    by (simp only: conforms.simps(12) json.case)
      (intro fields_Cons bounded_items_ok faro_log_ok faro_exception_ok faro_measurement_ok faro_event_ok faro_traces_ok, simp)
qed

subsection \<open>Lemmas: the server's context\<close>

lemma obj_get_trusted: "obj_get (trusted_members trusted) k = map_option JStr (obj_get trusted k)"
  by (induction trusted) (auto simp: trusted_members_def)

lemma in_set_slice: "x \<in> set (slice_to n xs) \<Longrightarrow> x \<in> set xs"
  unfolding slice_to_def by (rule in_set_takeD)

lemma ordinary_from_item: "(k, v) \<in> set (ordinary_members trusted ms) \<Longrightarrow> (k, v) \<in> set ms \<and> obj_get trusted k = None"
  by (auto simp: ordinary_members_def dest: in_set_slice)

definition stamped :: "(string \<times> string) list \<Rightarrow> string \<Rightarrow> faro_record \<Rightarrow> bool" where
  "stamped trusted field item \<longleftrightarrow>
     (\<exists>ms. obj_get item field = Some (JObj ms) \<and> (\<forall>k v. obj_get trusted k = Some v \<longrightarrow> obj_get ms k = Some (JStr v)))"

definition stamped_span :: "(string \<times> string) list \<Rightarrow> json \<Rightarrow> bool" where
  "stamped_span trusted span \<longleftrightarrow>
     (let attributes = json_items (obj_get (faro_object (Some span)) ''attributes'') in
      \<forall>k v. obj_get trusted k = Some v \<longrightarrow>
        otlp_member (k, JStr v) \<in> set attributes
        \<and> (\<forall>a \<in> set attributes. attribute_key a = k \<longrightarrow> a = otlp_member (k, JStr v)))"

definition spans_of :: "faro_record \<Rightarrow> json list" where
  "spans_of traces =
     concat (map (\<lambda>resource. concat (map (\<lambda>scope. json_items (obj_get (faro_object (Some scope)) ''spans''))
         (json_items (obj_get (faro_object (Some resource)) ''scopeSpans''))))
       (json_items (obj_get traces ''resourceSpans'')))"

lemma stamp_item_stamped:
  assumes "obj_wf trusted"
  shows "stamped trusted field (stamp_item trusted field item)"
proof -
  have "obj_wf (trusted_members trusted)"
    using assms by (simp add: obj_wf_def trusted_members_def case_prod_beta comp_def)
  then show ?thesis
    by (auto simp: stamped_def stamp_item_def obj_get_spread obj_get_trusted)
qed

lemma stamp_items_stamped: "obj_wf trusted \<Longrightarrow> item \<in> set (fst (stamp_items trusted field items)) \<Longrightarrow> stamped trusted field item"
  unfolding stamp_items_def using bounded_items_each stamp_item_stamped by blast

lemma attribute_key_otlp [simp]: "attribute_key (otlp_member (k, v)) = k"
  by (simp add: attribute_key_def otlp_member_def faro_object_def)

lemma stamp_span_stamped:
  assumes "obj_wf trusted"
  shows "stamped_span trusted (JObj (stamp_span trusted span))"
proof -
  let ?ordinary = "slice_to (spare_attributes trusted)
          (filter (\<lambda>a. obj_get trusted (attribute_key a) = None) (faro_list (obj_get span ''attributes'')))"
  have attributes: "json_items (obj_get (faro_object (Some (JObj (stamp_span trusted span)))) ''attributes'')
      = ?ordinary @ map otlp_member (trusted_members trusted)"
    by (simp add: faro_object_def stamp_span_def json_items_def)
  have other: "obj_get trusted (attribute_key a) = None" if "a \<in> set ?ordinary" for a
    using in_set_slice [OF that] by simp
  have member: "v' = v" if "(k, v') \<in> set trusted" "obj_get trusted k = Some v" for k v v'
    using that assms obj_get_in_set [OF that(2)] by (auto simp: obj_wf_def eq_key_imp_eq_value)
  show ?thesis
    unfolding stamped_span_def Let_def attributes
  proof (intro allI impI conjI ballI)
    fix k v assume kv: "obj_get trusted k = Some v"
    show "otlp_member (k, JStr v) \<in> set (?ordinary @ map otlp_member (trusted_members trusted))"
    proof -
      have "(k, JStr v) \<in> set (trusted_members trusted)"
        using obj_get_in_set [OF kv] by (auto simp: trusted_members_def intro!: image_eqI [of _ _ "(k, v)"])
      then have "otlp_member (k, JStr v) \<in> set (map otlp_member (trusted_members trusted))" by simp
      then show ?thesis unfolding set_append by (rule UnI2)
    qed
    fix a assume a: "a \<in> set (?ordinary @ map otlp_member (trusted_members trusted))" "attribute_key a = k"
    have "a \<notin> set ?ordinary" using other [of a] kv a(2) by auto
    then have "a \<in> set (map otlp_member (trusted_members trusted))" using a(1) unfolding set_append by blast
    then obtain k' v' where "(k', v') \<in> set trusted" "a = otlp_member (k', JStr v')"
      by (auto simp: trusted_members_def)
    with a(2) member [OF _ kv] show "a = otlp_member (k, JStr v)" by simp
  qed
qed

lemma stamp_scope_stamped:
  assumes "obj_wf trusted" "span \<in> set (json_items (obj_get (faro_object (Some (fst (stamp_scope trusted v)))) ''spans''))"
  shows "stamped_span trusted span"
proof -
  obtain x where "span = JObj x" "x \<in> set (fst (bounded_items (obj_get (faro_object (Some v)) ''spans'') (stamp_span trusted)))"
    using assms(2) by (auto simp: stamp_scope_def Let_def case_prod_beta faro_object_def json_items_def)
  with bounded_items_each stamp_span_stamped [OF assms(1)] show ?thesis by blast
qed

lemma stamp_resource_stamped:
  assumes "obj_wf trusted" "scope \<in> set (json_items (obj_get (faro_object (Some (fst (stamp_resource trusted v)))) ''scopeSpans''))"
    and "span \<in> set (json_items (obj_get (faro_object (Some scope)) ''spans''))"
  shows "stamped_span trusted span"
proof -
  obtain x where "scope = fst (stamp_scope trusted x)"
    using assms(2) by (auto simp: stamp_resource_def Let_def faro_object_def json_items_def)
  with stamp_scope_stamped [OF assms(1)] assms(3) show ?thesis by simp
qed

text \<open>
  C24: Identity comes from the server. After the stamping, the context of every log, exception and
  measurement, the attributes of every event, and the attributes of every span say of each trusted key exactly
  what the server said; nothing the browser sent under such a key is left.
\<close>

theorem stamped_identity_is_the_servers:
  assumes "obj_wf trusted" "stamp_faro_context b trusted = (b', lost)"
  shows "(\<forall>item \<in> set (fb_logs b' @ fb_exceptions b' @ fb_measurements b'). stamped trusted ''context'' item)
    \<and> (\<forall>item \<in> set (fb_events b'). stamped trusted ''attributes'' item)
    \<and> (\<forall>span \<in> set (spans_of (fb_traces b')). stamped_span trusted span)"
proof -
  let ?resources = "map (stamp_resource trusted) (faro_list (obj_get (fb_traces b) ''resourceSpans''))"
  have b': "b' = \<lparr>fb_logs = fst (stamp_items trusted ''context'' (fb_logs b)),
      fb_exceptions = fst (stamp_items trusted ''context'' (fb_exceptions b)),
      fb_measurements = fst (stamp_items trusted ''context'' (fb_measurements b)),
      fb_events = fst (stamp_items trusted ''attributes'' (fb_events b)),
      fb_traces = [(''resourceSpans'', JArr (map fst ?resources))]\<rparr>"
    using assms(2) by (simp add: stamp_faro_context_def Let_def case_prod_beta)
  have "stamped_span trusted span" if "span \<in> set (spans_of (fb_traces b'))" for span
    using that stamp_resource_stamped [OF assms(1)] by (auto simp: b' spans_of_def json_items_def [of "Some (JArr x)" for x])
  moreover have "\<forall>item \<in> set (fb_logs b' @ fb_exceptions b' @ fb_measurements b'). stamped trusted ''context'' item"
    using stamp_items_stamped [OF assms(1)] by (auto simp: b')
  moreover have "\<forall>item \<in> set (fb_events b'). stamped trusted ''attributes'' item"
    using stamp_items_stamped [OF assms(1)] by (auto simp: b')
  ultimately show ?thesis by blast
qed

definition demo_forged_batch :: faro_batch where
  "demo_forged_batch =
     \<lparr>fb_logs = [[(''context'', JObj [(''user.id'', JStr ''x'')])]], fb_exceptions = [], fb_measurements = [], fb_events = [],
      fb_traces = []\<rparr>"

definition demo_trusted :: "(string \<times> string) list" where
  "demo_trusted = [(''session.id'', ''s''), (''user.id'', ''u'')]"

lemma stamped_identity_is_the_servers_witness:
  "let b' = fst (stamp_faro_context demo_forged_batch demo_trusted) in
     length (fb_logs b') = 1
     \<and> (\<forall>item \<in> set (fb_logs b'). \<exists>ms. obj_get item ''context'' = Some (JObj ms) \<and> obj_get ms ''user.id'' = Some (JStr ''u''))"
proof -
  obtain b' lost where run: "stamp_faro_context demo_forged_batch demo_trusted = (b', lost)"
    by (rule prod.exhaust)
  have "obj_wf demo_trusted" by (simp add: obj_wf_def demo_trusted_def)
  from stamped_identity_is_the_servers [OF this run] have "\<forall>item \<in> set (fb_logs b'). stamped demo_trusted ''context'' item" by simp
  moreover have "obj_get demo_trusted ''user.id'' = Some ''u''" by (simp add: demo_trusted_def)
  moreover have "length (fb_logs (fst (stamp_faro_context demo_forged_batch demo_trusted))) = 1"
    by code_simp
  ultimately show ?thesis unfolding run Let_def stamped_def fst_conv by fastforce
qed

end
