(* ===== verification/Relay.thy ===== *)
theory Relay
  imports Faro
begin

section \<open>The browser's relay (\<open>packages/telemetry/src/relay.ts\<close>)\<close>

text \<open>
  The route a page sends its telemetry to: it admits requests of its own origin at a bounded rate, binds
  each batch to the session the server sees (a keyed hash the page has to present), rebuilds and stamps the
  batch, and forwards it with the server's credential. The closure's variables are a cell of the state; the
  keyed hash, the session resolver and the platform are arguments. A token of the bucket is counted in
  hundredths, one of which is earned in a millisecond (the source divides; its rounding is not modelled).
\<close>

subsection \<open>State\<close>

record telemetry_session =
  tn_user_id :: string
  tn_organization_id :: "string option"
  tn_session_id :: string

text \<open>What reading the body comes across: bytes, the timer, or an error of the stream.\<close>

datatype body_part = BodyBytes "nat list" | BodyExpired | BodyFailed thrown

record relay_request = request +
  rr_parts :: "(body_part list) option"

record relay_stats =
  rt_accepted :: int
  rt_rejected :: int
  rt_dropped :: int
  rt_failed :: int

record relay_state =
  rl_concurrent :: nat
  rl_tokens :: int
  rl_updated :: int
  rl_stats :: relay_stats

record 's relay_host =
  rh_platform :: "'s platform"
  rh_hmac :: "string \<Rightarrow> string \<Rightarrow> string"
  rh_resolve_session :: "request \<Rightarrow> ('s, telemetry_session option) io"

definition cookie_name :: string where "cookie_name = ''wallow_telemetry_anon''"
definition cookie_bytes :: nat where "cookie_bytes = 16"
definition token_unit :: int where "token_unit = 100"
definition token_burst :: int where "token_burst = 20 * token_unit"

definition create_relay_state :: "int \<Rightarrow> relay_state" where
  "create_relay_state now =
     \<lparr>rl_concurrent = 0, rl_tokens = token_burst, rl_updated = now,
      rl_stats = \<lparr>rt_accepted = 0, rt_rejected = 0, rt_dropped = 0, rt_failed = 0\<rparr>\<rparr>"

subsection \<open>Admission\<close>

text \<open>Whether a request may go on, after the bucket has been filled for the time that has passed.\<close>

definition relay_admit :: "int \<Rightarrow> relay_state \<Rightarrow> bool \<times> relay_state" where
  "relay_admit now st =
     (let tokens = min token_burst (rl_tokens st + (now - rl_updated st));
          filled = st\<lparr>rl_tokens := tokens, rl_updated := now\<rparr> in
      if tokens < token_unit \<or> max_concurrent \<le> rl_concurrent st then (False, filled)
      else (True, filled\<lparr>rl_tokens := tokens - token_unit, rl_concurrent := Suc (rl_concurrent st)\<rparr>))"

definition relay_leave :: "relay_state \<Rightarrow> relay_state" where
  "relay_leave st = st\<lparr>rl_concurrent := rl_concurrent st - 1\<rparr>"

definition count_rejected :: "relay_state \<Rightarrow> relay_state" where
  "count_rejected st = st\<lparr>rl_stats := (rl_stats st)\<lparr>rt_rejected := rt_rejected (rl_stats st) + 1\<rparr>\<rparr>"

definition count_dropped :: "int \<Rightarrow> relay_state \<Rightarrow> relay_state" where
  "count_dropped n st = st\<lparr>rl_stats := (rl_stats st)\<lparr>rt_dropped := rt_dropped (rl_stats st) + n\<rparr>\<rparr>"

definition count_failed :: "relay_state \<Rightarrow> relay_state" where
  "count_failed st = st\<lparr>rl_stats := (rl_stats st)\<lparr>rt_failed := rt_failed (rl_stats st) + 1\<rparr>\<rparr>"

definition count_accepted :: "relay_state \<Rightarrow> relay_state" where
  "count_accepted st = st\<lparr>rl_stats := (rl_stats st)\<lparr>rt_accepted := rt_accepted (rl_stats st) + 1\<rparr>\<rparr>"

definition cell_modify :: "('s, 'a) cell \<Rightarrow> ('a \<Rightarrow> 'a) \<Rightarrow> ('s, unit) io" where
  "cell_modify c f = io_modify (\<lambda>s. cell_put c (f (cell_get c s)) s)"

subsection \<open>Reading the request\<close>

fun read_parts :: "nat list \<Rightarrow> body_part list \<Rightarrow> thrown + string option" where
  "read_parts got [] = Inr (Some (utf8_decode got))"
| "read_parts got (BodyBytes bytes # parts) =
     (if int (length (got @ bytes)) > batch_bytes then Inr None else read_parts (got @ bytes) parts)"
| "read_parts got (BodyExpired # parts) = Inr None"
| "read_parts got (BodyFailed e # parts) = Inl e"

definition relay_body :: "relay_request \<Rightarrow> thrown + string option" where
  "relay_body req = (case rr_parts req of None \<Rightarrow> Inr None | Some parts \<Rightarrow> read_parts [] parts)"

definition origin_ok :: "string \<Rightarrow> relay_request \<Rightarrow> bool" where
  "origin_ok origin req \<longleftrightarrow>
     url_origin (req_url req) = origin
     \<and> (let supplied = h_get (req_headers req) ''origin'' in
        if req_method req = ''POST'' then supplied = Some origin else supplied = None \<or> supplied = Some origin)"

definition session_ids_ok :: "telemetry_session option \<Rightarrow> bool" where
  "session_ids_ok session \<longleftrightarrow>
     (case session of
        None \<Rightarrow> True
      | Some t \<Rightarrow> is_identifier (tn_user_id t) \<and> is_identifier (tn_session_id t)
          \<and> (case tn_organization_id t of Some i \<Rightarrow> is_identifier i | None \<Rightarrow> True))"

subsection \<open>The context of a page\<close>

definition lower_hex :: "nat \<Rightarrow> char" where
  "lower_hex d = char_of (if d < 10 then 48 + d else 87 + d)"

definition bytes_hex :: "nat list \<Rightarrow> string" where
  "bytes_hex bytes = concat (map (\<lambda>b. [lower_hex (b div 16), lower_hex (b mod 16)]) bytes)"

definition context_hmac :: "'s relay_host \<Rightarrow> telemetry_config \<Rightarrow> string \<Rightarrow> string" where
  "context_hmac rh config v = rh_hmac rh (tc_credential config) (''wallow.telemetry.context:'' @ v)"

definition anonymous_cookie :: "headers \<Rightarrow> string" where
  "anonymous_cookie hs =
     (case h_get hs ''cookie'' of
        None \<Rightarrow> ''''
      | Some line \<Rightarrow>
          (case filter (\<lambda>part. starts_with part (cookie_name @ ''='')) (map js_trim (split_char (CHR '';'') line)) of
             part # _ \<Rightarrow> drop (length cookie_name + 1) part
           | [] \<Rightarrow> ''''))"

definition known_anonymous :: "'s relay_host \<Rightarrow> telemetry_config \<Rightarrow> int \<Rightarrow> headers \<Rightarrow> string option" where
  "known_anonymous rh config now hs =
     (case split_char (CHR ''.'') (anonymous_cookie hs) of
        i # expiry # signature # _ \<Rightarrow>
          if is_hex 32 i \<and> 10 \<le> length expiry \<and> length expiry \<le> 16 \<and> list_all is_digit expiry
             \<and> now < int (digits_val expiry) \<and> signature = context_hmac rh config (i @ ''.'' @ expiry)
          then Some i else None
      | _ \<Rightarrow> None)"

definition fresh_cookie :: "'s relay_host \<Rightarrow> telemetry_config \<Rightarrow> string \<Rightarrow> string \<Rightarrow> int \<Rightarrow> string" where
  "fresh_cookie rh config origin fresh now =
     (let expires = int_to_string (now + session_seconds * 1000) in
      cookie_name @ ''='' @ fresh @ ''.'' @ expires @ ''.'' @ context_hmac rh config (fresh @ ''.'' @ expires)
      @ ''; Path=/; HttpOnly; SameSite=Strict; Max-Age='' @ int_to_string session_seconds
      @ (if starts_with origin ''https:'' then ''; Secure'' else ''''))"

definition anonymous_of ::
    "'s relay_host \<Rightarrow> telemetry_config \<Rightarrow> string \<Rightarrow> relay_request \<Rightarrow> ('s, string \<times> string option) io" where
  "anonymous_of rh config origin req =
     io_bind (io_gets (pl_now (rh_platform rh))) (\<lambda>now.
     case known_anonymous rh config now (req_headers req) of
       Some i \<Rightarrow> io_return (i, None)
     | None \<Rightarrow>
         io_bind (io_lift (pl_random (rh_platform rh) cookie_bytes)) (\<lambda>bytes.
         io_bind (io_gets (pl_now (rh_platform rh))) (\<lambda>later.
         io_return (bytes_hex bytes, Some (fresh_cookie rh config origin (bytes_hex bytes) later)))))"

definition opt_text :: "string option \<Rightarrow> json" where
  "opt_text v = (case v of Some s \<Rightarrow> JStr s | None \<Rightarrow> JNull)"

text \<open>What a page has to present: the hash of who it is and which session the server sees.\<close>

definition page_context :: "'s relay_host \<Rightarrow> telemetry_config \<Rightarrow> string \<Rightarrow> telemetry_session option \<Rightarrow> string" where
  "page_context rh config anon session =
     context_hmac rh config (json_print (JArr [JStr anon, opt_text (map_option tn_user_id session),
       opt_text (case session of Some t \<Rightarrow> tn_organization_id t | None \<Rightarrow> None), opt_text (map_option tn_session_id session)]))"

definition session_hash :: "'s relay_host \<Rightarrow> telemetry_config \<Rightarrow> string \<Rightarrow> telemetry_session option \<Rightarrow> string" where
  "session_hash rh config anon session =
     context_hmac rh config (case session of Some t \<Rightarrow> tn_session_id t | None \<Rightarrow> anon)"

definition trusted_context :: "string \<Rightarrow> telemetry_session option \<Rightarrow> (string \<times> string) list" where
  "trusted_context hash session =
     (''session.id'', hash)
     # (case session of
          None \<Rightarrow> []
        | Some t \<Rightarrow> (''user.id'', tn_user_id t)
            # (case tn_organization_id t of Some i \<Rightarrow> [(''organization.id'', i)] | None \<Rightarrow> []))"

definition relay_meta :: "telemetry_config \<Rightarrow> string \<Rightarrow> telemetry_session option \<Rightarrow> faro_record \<Rightarrow> json" where
  "relay_meta config hash session payload =
     JObj ([(''app'', JObj [(''environment'', JStr (tc_environment config)), (''version'', JStr (tc_release config))]),
            (''session'', JObj [(''id'', JStr hash)])]
       @ opt_member ''user'' (map_option (\<lambda>t. JObj [(''id'', JStr (tn_user_id t)),
            (''attributes'', JObj (opt_member ''organization_id'' (map_option JStr (tn_organization_id t))))]) session)
       @ [(''page'', JObj [(''url'', JStr (sanitized_page
            (obj_get (faro_object (obj_get (faro_object (obj_get payload ''meta'')) ''page'')) ''url'')))])])"

text \<open>The batch as it is forwarded, and the number of signals that were dropped on the way.\<close>

definition relay_wire ::
    "(string \<Rightarrow> int option) \<Rightarrow> int \<Rightarrow> telemetry_config \<Rightarrow> string \<Rightarrow> telemetry_session option \<Rightarrow> faro_record \<Rightarrow> string \<times> int" where
  "relay_wire date_parse now config hash session payload =
     (let (sanitized, d1) = sanitize_faro_batch date_parse now (JObj payload);
          (stamped, d2) = stamp_faro_context sanitized (trusted_context hash session) in
      (json_print (case faro_to_json stamped of
         JObj ms \<Rightarrow> JObj (ms @ [(''meta'', relay_meta config hash session payload)]) | v \<Rightarrow> v), d1 + d2))"

definition forward_request :: "telemetry_config \<Rightarrow> full_url \<Rightarrow> string \<Rightarrow> fetch_request" where
  "forward_request config target wire =
     \<lparr>fetch_url = url_href target, fetch_method = ''POST'',
      fetch_headers = h_of [(''content-type'', ''application/json''), (''authorization'', ''Bearer '' @ tc_credential config),
        (''x-wallow-environment'', tc_environment config), (''x-wallow-release'', tc_release config)],
      fetch_body = Some wire\<rparr>"

subsection \<open>The handler\<close>

definition relay_reject :: "('s, relay_state) cell \<Rightarrow> nat \<Rightarrow> ('s, response) io" where
  "relay_reject cell st = io_bind (cell_modify cell count_rejected) (\<lambda>_. io_return (new_response st None []))"

definition relay_forward ::
    "'s relay_host \<Rightarrow> telemetry_config \<Rightarrow> ('s, relay_state) cell \<Rightarrow> string \<Rightarrow> ('s, unit) io" where
  "relay_forward rh config cell wire =
     io_catch
       (io_bind (io_of (new_url_from ''/faro'' (url_href (tc_destination config)))) (\<lambda>target.
        io_bind (io_lift (pl_fetch (rh_platform rh) (forward_request config target wire) (Some flush_ms))) (\<lambda>outcome.
        case outcome of
          Faulted e timed_out \<Rightarrow> io_throw e
        | Fetched r \<Rightarrow> cell_modify cell (if resp_ok r then count_accepted else count_dropped 1 \<circ> count_failed))))
       (\<lambda>e. cell_modify cell (count_dropped 1 \<circ> count_failed))"

text \<open>A decoded batch: refused when its context is not this page's, rebuilt and forwarded otherwise.\<close>

definition relay_batch ::
    "'s relay_host \<Rightarrow> telemetry_config \<Rightarrow> ('s, relay_state) cell \<Rightarrow> telemetry_session option \<Rightarrow> string \<Rightarrow> headers
      \<Rightarrow> faro_record \<Rightarrow> ('s, response) io" where
  "relay_batch rh config cell session anon hs payload =
     (let context = page_context rh config anon session; hash = session_hash rh config anon session in
      if text_field (obj_get payload ''context'') \<noteq> Some context
      then io_bind (cell_modify cell (count_dropped 1)) (\<lambda>_.
           io_return (json_response 409 (JObj [(''context'', JStr context)]) hs))
      else
        io_bind (io_gets (\<lambda>s. relay_wire (pl_date_parse (rh_platform rh)) (pl_now (rh_platform rh) s) config hash session payload))
          (\<lambda>(wire, lost).
        io_bind (cell_modify cell (count_dropped lost)) (\<lambda>_.
        if utf8_length wire > batch_bytes then relay_reject cell 413
        else io_bind (relay_forward rh config cell wire) (\<lambda>_. io_return (new_response 204 None hs)))))"

definition relay_post ::
    "'s relay_host \<Rightarrow> telemetry_config \<Rightarrow> ('s, relay_state) cell \<Rightarrow> relay_request \<Rightarrow> telemetry_session option
      \<Rightarrow> string \<Rightarrow> headers \<Rightarrow> ('s, response) io" where
  "relay_post rh config cell req session anon hs =
     (if h_has (req_headers req) ''content-encoding'' then relay_reject cell 415
      else if \<not> (case h_get (req_headers req) ''content-type'' of Some t \<Rightarrow> starts_with t ''application/json'' | None \<Rightarrow> False)
      then relay_reject cell 415
      else if (case h_get (req_headers req) ''content-length'' of Some n \<Rightarrow> number_above (js_to_number n) batch_bytes | None \<Rightarrow> False)
      then relay_reject cell 413
      else
        io_bind (io_of (relay_body req)) (\<lambda>raw.
        case raw of
          None \<Rightarrow> relay_reject cell 413
        | Some text \<Rightarrow>
            (case json_parse text of
               None \<Rightarrow> relay_reject cell 400
             | Some decoded \<Rightarrow> relay_batch rh config cell session anon hs (faro_object (Some decoded)))))"

definition relay_admitted ::
    "'s relay_host \<Rightarrow> telemetry_config \<Rightarrow> string \<Rightarrow> ('s, relay_state) cell \<Rightarrow> relay_request \<Rightarrow> ('s, response) io" where
  "relay_admitted rh config origin cell req =
     io_bind (rh_resolve_session rh (request.truncate req)) (\<lambda>session.
     if \<not> session_ids_ok session then relay_reject cell 503
     else
       io_bind (anonymous_of rh config origin req) (\<lambda>(anon, cookie).
       let hs = (case cookie of Some c \<Rightarrow> h_set (h_of [(''cache-control'', ''no-store'')]) ''set-cookie'' c
                 | None \<Rightarrow> h_of [(''cache-control'', ''no-store'')]) in
       if req_method req = ''GET''
       then io_return (json_response 200 (JObj [(''context'', JStr (page_context rh config anon session))]) hs)
       else relay_post rh config cell req session anon hs))"

definition relay_handle ::
    "'s relay_host \<Rightarrow> telemetry_config \<Rightarrow> string \<Rightarrow> ('s, relay_state) cell \<Rightarrow> relay_request \<Rightarrow> ('s, response) io" where
  "relay_handle rh config origin cell req =
     (if \<not> origin_ok origin req then relay_reject cell 403
      else if req_method req \<noteq> ''POST'' \<and> req_method req \<noteq> ''GET'' then relay_reject cell 405
      else
        io_bind (io_gets (pl_now (rh_platform rh))) (\<lambda>now.
        io_bind (io_gets (\<lambda>s. fst (relay_admit now (cell_get cell s)))) (\<lambda>admitted.
        io_bind (cell_modify cell (\<lambda>st. snd (relay_admit now st))) (\<lambda>_.
        if \<not> admitted then relay_reject cell 429
        else
          io_finally
            (io_catch (relay_admitted rh config origin cell req)
               (\<lambda>e. io_bind (cell_modify cell count_failed) (\<lambda>_. io_return (new_response 503 None []))))
            (cell_modify cell relay_leave)))))"

subsection \<open>Lemmas: what a handler sends\<close>

text \<open>However \<open>m\<close> ends, started in \<open>s\<close> it has sent nothing, or one request with the property \<open>P\<close>.\<close>

definition may_send :: "('s \<Rightarrow> fetch_request list) \<Rightarrow> (fetch_request \<Rightarrow> bool) \<Rightarrow> ('s, 'a) io \<Rightarrow> 's \<Rightarrow> bool" where
  "may_send sent P m s \<longleftrightarrow>
     sent (snd (m s)) = sent s \<or> (\<exists>q. P q \<and> sent (snd (m s)) = sent s @ [q])"

lemma may_send_quiet: "quiet sent m \<Longrightarrow> may_send sent P m s"
  using quietD [of sent m s "fst (m s)" "snd (m s)"] by (simp add: may_send_def)

lemma may_send_mono: "may_send sent P m s \<Longrightarrow> (\<And>q. P q \<Longrightarrow> Q q) \<Longrightarrow> may_send sent Q m s"
  by (auto simp: may_send_def)

lemma may_send_bind:
  assumes "quiet sent m" "\<And>a s1. m s = (Inr a, s1) \<Longrightarrow> may_send sent P (f a) s1"
  shows "may_send sent P (io_bind m f) s"
proof -
  obtain r1 s1 where m: "m s = (r1, s1)" by fastforce
  have same: "sent s1 = sent s" by (rule quietD [OF assms(1) m])
  show ?thesis
  proof (cases r1)
    case (Inl e)
    with m same show ?thesis by (simp add: may_send_def io_bind_def)
  next
    case (Inr a)
    with assms(2) [OF m [unfolded Inr]] m same show ?thesis by (simp add: may_send_def io_bind_def)
  qed
qed

lemma may_send_bind_after:
  assumes "may_send sent P m s" "\<And>a. quiet sent (f a)"
  shows "may_send sent P (io_bind m f) s"
proof -
  obtain r1 s1 where m: "m s = (r1, s1)" by fastforce
  have "sent (snd (io_bind m f s)) = sent s1"
    using m quietD [OF assms(2) prod.collapse [symmetric]] by (cases r1) (auto simp: io_bind_def)
  with assms(1) m show ?thesis by (simp add: may_send_def)
qed

lemma may_send_catch:
  assumes "may_send sent P m s" "\<And>e. quiet sent (h e)"
  shows "may_send sent P (io_catch m h) s"
proof -
  obtain r1 s1 where m: "m s = (r1, s1)" by fastforce
  have "sent (snd (io_catch m h s)) = sent s1"
    using m quietD [OF assms(2) prod.collapse [symmetric]] by (cases r1) (auto simp: io_catch_def)
  with assms(1) m show ?thesis by (simp add: may_send_def)
qed

lemma may_send_finally:
  assumes "may_send sent P m s" "quiet sent f"
  shows "may_send sent P (io_finally m f) s"
proof -
  obtain r1 s1 where m: "m s = (r1, s1)" by fastforce
  obtain r2 s2 where f: "f s1 = (r2, s2)" by fastforce
  have "sent (snd (io_finally m f s)) = sent s1"
    using m f quietD [OF assms(2) f] by (cases r2) (auto simp: io_finally_def)
  with assms(1) m show ?thesis by (simp add: may_send_def)
qed

lemma may_send_fetch:
  assumes "records_requests sent pl" "P req"
  shows "may_send sent P (io_lift (pl_fetch pl req timer)) s"
proof -
  have "snd (io_lift (pl_fetch pl req timer) s) = snd (pl_fetch pl req timer s)"
    by (simp add: io_lift_def case_prod_beta)
  then have "sent (snd (io_lift (pl_fetch pl req timer) s)) = sent s @ [req]" using assms(1) by (simp add: records_requests_def)
  with assms(2) show ?thesis by (auto simp: may_send_def)
qed

text \<open>The surroundings of the relay: only \<open>fetch\<close> sends.\<close>

definition relay_world :: "('s \<Rightarrow> fetch_request list) \<Rightarrow> 's relay_host \<Rightarrow> ('s, relay_state) cell \<Rightarrow> bool" where
  "relay_world sent rh cell \<longleftrightarrow>
     records_requests sent (rh_platform rh) \<and> (\<forall>st s. sent (cell_put cell st s) = sent s)
     \<and> (\<forall>n s. sent (snd (pl_random (rh_platform rh) n s)) = sent s)
     \<and> (\<forall>req. quiet sent (rh_resolve_session rh req))"

lemma relay_quiet:
  assumes "relay_world sent rh cell"
  shows "quiet sent (cell_modify cell f)" "quiet sent (relay_reject cell st)" "quiet sent (anonymous_of rh config origin req)"
    "quiet sent (rh_resolve_session rh r)"
proof -
  show modify: "quiet sent (cell_modify cell f)" for f
    using assms by (auto simp: cell_modify_def relay_world_def intro: quiet_modify)
  then show "quiet sent (relay_reject cell st)"
    unfolding relay_reject_def by (intro quiet_intros)
  have "quiet sent (io_lift (pl_random (rh_platform rh) cookie_bytes))"
    using assms by (auto simp: relay_world_def intro: quiet_lift)
  then show "quiet sent (anonymous_of rh config origin req)"
    unfolding anonymous_of_def by (intro quiet_intros) (auto split: option.splits intro!: quiet_intros)
  show "quiet sent (rh_resolve_session rh r)" using assms by (simp add: relay_world_def)
qed

text \<open>
  Whom the relay takes a caller without a session for: the id of a cookie that carries the relay's own
  keyed hash over it and has not expired, or an id it has just drawn.
\<close>

definition vouched_for :: "'s relay_host \<Rightarrow> telemetry_config \<Rightarrow> headers \<Rightarrow> 's \<Rightarrow> string \<Rightarrow> bool" where
  "vouched_for rh config hs s anon \<longleftrightarrow>
     (\<exists>expiry signature rest. split_char (CHR ''.'') (anonymous_cookie hs) = anon # expiry # signature # rest
        \<and> signature = context_hmac rh config (anon @ ''.'' @ expiry) \<and> pl_now (rh_platform rh) s < int (digits_val expiry))
     \<or> anon = bytes_hex (fst (pl_random (rh_platform rh) cookie_bytes s))"

lemma anonymous_vouched:
  assumes "anonymous_of rh config origin req s = (Inr (anon, cookie), s')"
  shows "vouched_for rh config (req_headers req) s anon"
proof (cases "known_anonymous rh config (pl_now (rh_platform rh) s) (req_headers req)")
  case None
  with assms show ?thesis
    by (auto simp: anonymous_of_def vouched_for_def io_bind_def io_gets_def io_lift_def io_return_def split: prod.splits)
next
  case (Some i)
  with assms have "known_anonymous rh config (pl_now (rh_platform rh) s) (req_headers req) = Some anon"
    by (simp add: anonymous_of_def io_bind_def io_gets_def io_return_def)
  then show ?thesis
    unfolding known_anonymous_def vouched_for_def by (auto split: list.splits if_split_asm)
qed

text \<open>What a forwarded request is made of, when the clock shows \<open>now\<close>.\<close>

definition forwards_bound ::
    "'s relay_host \<Rightarrow> telemetry_config \<Rightarrow> telemetry_session option \<Rightarrow> string \<Rightarrow> int \<Rightarrow> relay_request \<Rightarrow> fetch_request \<Rightarrow> bool" where
  "forwards_bound rh config session anon now req q \<longleftrightarrow>
     (\<exists>text payload target.
        relay_body req = Inr (Some text) \<and> json_parse text = Some (JObj payload)
        \<and> text_field (obj_get payload ''context'') = Some (page_context rh config anon session)
        \<and> new_url_from ''/faro'' (url_href (tc_destination config)) = Inr target
        \<and> (let wire = fst (relay_wire (pl_date_parse (rh_platform rh)) now config (session_hash rh config anon session) session payload) in
           utf8_length wire \<le> batch_bytes \<and> q = forward_request config target wire))"

lemma relay_forward_sends:
  assumes "relay_world sent rh cell"
    and "\<And>target. new_url_from ''/faro'' (url_href (tc_destination config)) = Inr target \<Longrightarrow> P (forward_request config target wire)"
  shows "may_send sent P (relay_forward rh config cell wire) s"
  unfolding relay_forward_def
proof (rule may_send_catch [OF may_send_bind])
  show "quiet sent (io_of (new_url_from ''/faro'' (url_href (tc_destination config))))" by (rule quiet_of)
  show "quiet sent (cell_modify cell (count_dropped 1 \<circ> count_failed))" for e by (rule relay_quiet [OF assms(1)])
  fix target s2 assume "io_of (new_url_from ''/faro'' (url_href (tc_destination config))) s = (Inr target, s2)"
  then have "P (forward_request config target wire)"
    by (intro assms(2)) (auto simp: io_of_def io_simps split: sum.splits)
  then show "may_send sent P (io_bind (io_lift (pl_fetch (rh_platform rh) (forward_request config target wire) (Some flush_ms))) (\<lambda>outcome.
      case outcome of Faulted e timed_out \<Rightarrow> io_throw e
      | Fetched r \<Rightarrow> cell_modify cell (if resp_ok r then count_accepted else count_dropped 1 \<circ> count_failed))) s2"
    using assms(1) relay_quiet(1) [OF assms(1)]
    by (intro may_send_bind_after may_send_fetch) (auto simp: relay_world_def intro: quiet_intros split: fetch_outcome.splits)
qed

lemma relay_batch_sends:
  assumes "relay_world sent rh cell" "relay_body req = Inr (Some raw)" "json_parse raw = Some decoded"
  shows "may_send sent (forwards_bound rh config session anon (pl_now (rh_platform rh) s) req)
    (relay_batch rh config cell session anon hs (faro_object (Some decoded))) s"
proof -
  note q = relay_quiet [OF assms(1)]
  let ?payload = "faro_object (Some decoded)" and ?P = "forwards_bound rh config session anon (pl_now (rh_platform rh) s) req"
  show ?thesis
  proof (cases "text_field (obj_get ?payload ''context'') = Some (page_context rh config anon session)")
    case True
    then obtain payload where payload: "decoded = JObj payload"
      by (cases decoded) (auto simp: faro_object_def text_field_def)
    have same: "?payload = payload" by (simp add: payload faro_object_def)
    let ?wire = "\<lambda>s. relay_wire (pl_date_parse (rh_platform rh)) (pl_now (rh_platform rh) s) config (session_hash rh config anon session) session payload"
    have "may_send sent ?P (io_bind (io_gets ?wire) (\<lambda>(wire, lost). io_bind (cell_modify cell (count_dropped lost)) (\<lambda>_.
          if utf8_length wire > batch_bytes then relay_reject cell 413
          else io_bind (relay_forward rh config cell wire) (\<lambda>_. io_return (new_response 204 None hs))))) s"
    proof (rule may_send_bind [OF quiet_basic(3)])
      fix a s1 assume got: "io_gets ?wire s = (Inr a, s1)"
      obtain wire lost where a: "a = (wire, lost)" by fastforce
      then have w: "?wire s = (wire, lost)" using got by (auto simp: io_simps)
      have "may_send sent ?P (relay_forward rh config cell wire) t" if small: "\<not> utf8_length wire > batch_bytes" for t
      proof (rule relay_forward_sends [OF assms(1)])
        fix target assume "new_url_from ''/faro'' (url_href (tc_destination config)) = Inr target"
        with assms(2,3) True w small show "?P (forward_request config target wire)"
          unfolding forwards_bound_def payload
          by (intro exI [of _ raw] exI [of _ payload] exI [of _ target]) (simp add: faro_object_def)
      qed
      then show "may_send sent ?P (case a of (wire, lost) \<Rightarrow> io_bind (cell_modify cell (count_dropped lost)) (\<lambda>_.
            if utf8_length wire > batch_bytes then relay_reject cell 413
            else io_bind (relay_forward rh config cell wire) (\<lambda>_. io_return (new_response 204 None hs)))) s1"
        by (auto simp: a intro!: may_send_bind [OF q(1)] may_send_bind_after quiet_intros intro: may_send_quiet [OF q(2)])
    qed
    with True show ?thesis unfolding relay_batch_def Let_def same by simp
  next
    case False
    then have refused: "relay_batch rh config cell session anon hs ?payload = io_bind (cell_modify cell (count_dropped 1)) (\<lambda>_.
           io_return (json_response 409 (JObj [(''context'', JStr (page_context rh config anon session))]) hs))"
      by (simp add: relay_batch_def Let_def)
    show ?thesis unfolding refused by (intro may_send_quiet quiet_intros q)
  qed
qed

lemma relay_post_sends:
  assumes "relay_world sent rh cell"
  shows "may_send sent (forwards_bound rh config session anon (pl_now (rh_platform rh) s) req) (relay_post rh config cell req session anon hs) s"
proof -
  note refused = may_send_quiet [OF relay_quiet(2) [OF assms]]
  have "may_send sent (forwards_bound rh config session anon (pl_now (rh_platform rh) s) req)
      (io_bind (io_of (relay_body req)) (\<lambda>raw. case raw of None \<Rightarrow> relay_reject cell 413
        | Some text \<Rightarrow> (case json_parse text of None \<Rightarrow> relay_reject cell 400
             | Some decoded \<Rightarrow> relay_batch rh config cell session anon hs (faro_object (Some decoded))))) s"
  proof (rule may_send_bind [OF quiet_of])
    fix raw s1 assume "io_of (relay_body req) s = (Inr raw, s1)"
    then have "relay_body req = Inr raw" "s1 = s" by (auto simp: io_of_def io_simps split: sum.splits)
    then show "may_send sent (forwards_bound rh config session anon (pl_now (rh_platform rh) s) req)
       (case raw of None \<Rightarrow> relay_reject cell 413
        | Some text \<Rightarrow> (case json_parse text of None \<Rightarrow> relay_reject cell 400
             | Some decoded \<Rightarrow> relay_batch rh config cell session anon hs (faro_object (Some decoded)))) s1"
      by (auto intro: refused relay_batch_sends [OF assms] split: option.splits)
  qed
  with refused show ?thesis unfolding relay_post_def by simp
qed

text \<open>Past the gate: how the caller's session and id are come by, and the batch that is sent for them.\<close>

definition sent_for_caller ::
    "'s relay_host \<Rightarrow> telemetry_config \<Rightarrow> string \<Rightarrow> relay_request \<Rightarrow> 's \<Rightarrow> fetch_request \<Rightarrow> bool" where
  "sent_for_caller rh config origin req s q \<longleftrightarrow>
     (\<exists>session anon cookie s1 s2.
        rh_resolve_session rh (request.truncate req) s = (Inr session, s1) \<and> session_ids_ok session
        \<and> vouched_for rh config (req_headers req) s1 anon
        \<and> anonymous_of rh config origin req s1 = (Inr (anon, cookie), s2)
        \<and> forwards_bound rh config session anon (pl_now (rh_platform rh) s2) req q)"

lemma relay_admitted_sends:
  assumes "relay_world sent rh cell" "req_method req = ''POST''"
  shows "may_send sent (sent_for_caller rh config origin req s) (relay_admitted rh config origin cell req) s"
  unfolding relay_admitted_def
proof (rule may_send_bind [OF relay_quiet(4) [OF assms(1)]])
  note q = relay_quiet [OF assms(1)]
  fix session s1 assume resolved: "rh_resolve_session rh (request.truncate req) s = (Inr session, s1)"
  have "may_send sent (sent_for_caller rh config origin req s) (io_bind (anonymous_of rh config origin req) (\<lambda>(anon, cookie).
       let hs = (case cookie of Some c \<Rightarrow> h_set (h_of [(''cache-control'', ''no-store'')]) ''set-cookie'' c
                 | None \<Rightarrow> h_of [(''cache-control'', ''no-store'')]) in
       if req_method req = ''GET''
       then io_return (json_response 200 (JObj [(''context'', JStr (page_context rh config anon session))]) hs)
       else relay_post rh config cell req session anon hs)) s1"
    if ids: "session_ids_ok session"
  proof (rule may_send_bind [OF q(3)])
    fix a s2 assume who: "anonymous_of rh config origin req s1 = (Inr a, s2)"
    obtain anon cookie where a: "a = (anon, cookie)" by fastforce
    have bound: "sent_for_caller rh config origin req s q"
      if "forwards_bound rh config session anon (pl_now (rh_platform rh) s2) req q" for q
      using that resolved ids who anonymous_vouched [OF who [unfolded a]] unfolding sent_for_caller_def a by blast
    show "may_send sent (sent_for_caller rh config origin req s) (case a of (anon, cookie) \<Rightarrow>
       let hs = (case cookie of Some c \<Rightarrow> h_set (h_of [(''cache-control'', ''no-store'')]) ''set-cookie'' c
                 | None \<Rightarrow> h_of [(''cache-control'', ''no-store'')]) in
       if req_method req = ''GET''
       then io_return (json_response 200 (JObj [(''context'', JStr (page_context rh config anon session))]) hs)
       else relay_post rh config cell req session anon hs) s2"
      using may_send_mono [OF relay_post_sends [OF assms(1)] bound] by (simp add: a Let_def assms(2))
  qed
  then show "may_send sent (sent_for_caller rh config origin req s) (if \<not> session_ids_ok session then relay_reject cell 503
       else io_bind (anonymous_of rh config origin req) (\<lambda>(anon, cookie).
         let hs = (case cookie of Some c \<Rightarrow> h_set (h_of [(''cache-control'', ''no-store'')]) ''set-cookie'' c
                   | None \<Rightarrow> h_of [(''cache-control'', ''no-store'')]) in
         if req_method req = ''GET''
         then io_return (json_response 200 (JObj [(''context'', JStr (page_context rh config anon session))]) hs)
         else relay_post rh config cell req session anon hs)) s1"
    using may_send_quiet [OF q(2)] by simp
qed

lemma relay_get_sends_nothing:
  assumes "relay_world sent rh cell" "req_method req = ''GET''"
  shows "quiet sent (relay_admitted rh config origin cell req)"
  unfolding relay_admitted_def
  by (auto simp: Let_def assms(2) intro!: quiet_intros relay_quiet [OF assms(1)] split: prod.splits)

text \<open>
  C26: The relay forwards only what is bound to its caller. However a request ends, at most one request
  leaves the relay, and only for a \<open>POST\<close> from the configured origin that the bucket admits, for which the
  server resolved a session with well-formed identifiers, or that there is none. The caller's anonymous id is that of a cookie the relay
  signed and that has not expired, or freshly drawn, never one the caller names itself. The body is a JSON
  object that presents the keyed hash of just this id and session; and what leaves is that object rebuilt
  and stamped for the session at the time of the clock, within the size limit.
\<close>

theorem relay_forwards_only_bound_batches:
  assumes "relay_world sent rh cell" "relay_handle rh config origin cell req s = (r, s')"
  shows "sent s' = sent s \<or>
    (\<exists>q session anon cookie s0 s1 s2. sent s' = sent s @ [q]
       \<and> origin_ok origin req \<and> req_method req = ''POST''
       \<and> relay_admit (pl_now (rh_platform rh) s) (cell_get cell s) = (True, snd (relay_admit (pl_now (rh_platform rh) s) (cell_get cell s)))
       \<and> s0 = cell_put cell (snd (relay_admit (pl_now (rh_platform rh) s) (cell_get cell s))) s
       \<and> rh_resolve_session rh (request.truncate req) s0 = (Inr session, s1) \<and> session_ids_ok session
       \<and> vouched_for rh config (req_headers req) s1 anon
       \<and> anonymous_of rh config origin req s1 = (Inr (anon, cookie), s2)
       \<and> forwards_bound rh config session anon (pl_now (rh_platform rh) s2) req q)"
proof -
  note q = relay_quiet [OF assms(1)]
  let ?now = "pl_now (rh_platform rh) s"
  let ?gate = "relay_admit ?now (cell_get cell s)"
  let ?s0 = "cell_put cell (snd ?gate) s"
  have put: "sent ?s0 = sent s" using assms(1) by (simp add: relay_world_def)
  show ?thesis
  proof (cases "origin_ok origin req \<and> (req_method req = ''POST'' \<or> req_method req = ''GET'') \<and> fst ?gate")
    case False
    then have "relay_handle rh config origin cell req s = relay_reject cell 403 s
        \<or> relay_handle rh config origin cell req s = relay_reject cell 405 s
        \<or> relay_handle rh config origin cell req s = relay_reject cell 429 ?s0"
      by (auto simp: relay_handle_def io_bind_def io_gets_def cell_modify_def io_modify_def)
    then have "sent s' = sent s" using assms(2) quietD [OF q(2)] put by metis
    then show ?thesis ..
  next
    case True
    let ?m = "io_finally (io_catch (relay_admitted rh config origin cell req)
        (\<lambda>e. io_bind (cell_modify cell count_failed) (\<lambda>_. io_return (new_response 503 None [])))) (cell_modify cell relay_leave)"
    have run: "?m ?s0 = (r, s')"
      using True assms(2) by (auto simp: relay_handle_def io_bind_def io_gets_def cell_modify_def io_modify_def)
    have after: "quiet sent (io_bind (cell_modify cell count_failed) (\<lambda>_. io_return (new_response 503 None [])))"
      by (intro quiet_intros q)
    show ?thesis
    proof (cases "req_method req = ''POST''")
      case False
      with True have "req_method req = ''GET''" by simp
      from relay_get_sends_nothing [OF assms(1) this] have "quiet sent ?m"
        by (intro quiet_finally quiet_catch after q)
      from quietD [OF this run] put show ?thesis by simp
    next
      case post: True
      have "may_send sent (sent_for_caller rh config origin req ?s0) ?m ?s0"
        by (intro may_send_finally may_send_catch relay_admitted_sends assms(1) post after q)
      then have "sent s' = sent s \<or> (\<exists>q. sent_for_caller rh config origin req ?s0 q \<and> sent s' = sent s @ [q])"
        unfolding may_send_def run put by simp
      moreover have "?gate = (True, snd ?gate)" using True by (simp add: prod_eq_iff)
      ultimately show ?thesis using True post unfolding sent_for_caller_def by blast
    qed
  qed
qed

text \<open>A hash without collisions tells every two callers apart.\<close>

lemma page_context_tells_apart:
  assumes "\<And>v w. rh_hmac rh (tc_credential config) v = rh_hmac rh (tc_credential config) w \<Longrightarrow> v = w"
    and "page_context rh config anon session = page_context rh config anon' session'"
  shows "anon = anon' \<and> map_option tn_user_id session = map_option tn_user_id session'
    \<and> Option.bind session tn_organization_id = Option.bind session' tn_organization_id
    \<and> map_option tn_session_id session = map_option tn_session_id session'"
proof -
  let ?who = "\<lambda>anon session. JArr [JStr anon, opt_text (map_option tn_user_id session),
       opt_text (case session of Some t \<Rightarrow> tn_organization_id t | None \<Rightarrow> None), opt_text (map_option tn_session_id session)]"
  have "json_print (?who anon session) = json_print (?who anon' session')"
    using assms(1) [OF assms(2) [unfolded page_context_def context_hmac_def]] by simp
  moreover have ok: "json_ok (?who a t)" for a t by (simp add: opt_text_def split: option.split)
  ultimately have "?who anon session = ?who anon' session'"
    using json_parse_print [OF ok [of anon session]] json_parse_print [OF ok [of anon' session']] by simp
  then show ?thesis by (auto simp: opt_text_def split: option.splits)
qed

subsection \<open>The rate\<close>

text \<open>What happens at the gate: a request arrives at a time, or one that was admitted leaves.\<close>

datatype gate_event = Arrives int | Leaves

fun gate_run :: "relay_state \<Rightarrow> gate_event list \<Rightarrow> nat \<times> relay_state" where
  "gate_run st [] = (0, st)"
| "gate_run st (Leaves # evs) = gate_run (relay_leave st) evs"
| "gate_run st (Arrives now # evs) =
     (let (ok, st') = relay_admit now st; (n, st'') = gate_run st' evs in (if ok then Suc n else n, st''))"

fun arrivals :: "gate_event list \<Rightarrow> int list" where
  "arrivals [] = []"
| "arrivals (Leaves # evs) = arrivals evs"
| "arrivals (Arrives now # evs) = now # arrivals evs"

lemma relay_admit_step:
  assumes "relay_admit now st = (ok, st')" "0 \<le> rl_tokens st" "rl_concurrent st \<le> max_concurrent" "rl_updated st \<le> now"
  shows "0 \<le> rl_tokens st'" "rl_concurrent st' \<le> max_concurrent" "rl_updated st' = now"
    "(if ok then token_unit else 0) + rl_tokens st' \<le> rl_tokens st + (now - rl_updated st)"
  using assms by (auto simp: relay_admit_def Let_def token_unit_def token_burst_def split: if_split_asm)

lemma gate_run_bound:
  assumes "gate_run st evs = (n, st')" "sorted (rl_updated st # arrivals evs)" "0 \<le> rl_tokens st" "rl_concurrent st \<le> max_concurrent"
  shows "token_unit * int n + rl_tokens st' \<le> rl_tokens st + (rl_updated st' - rl_updated st) \<and> 0 \<le> rl_tokens st'
    \<and> rl_concurrent st' \<le> max_concurrent \<and> rl_updated st' = last (rl_updated st # arrivals evs)"
  using assms
proof (induction st evs arbitrary: n st' rule: gate_run.induct)
  case (2 st evs)
  have same: "rl_updated (relay_leave st) = rl_updated st" "rl_tokens (relay_leave st) = rl_tokens st"
    and less: "rl_concurrent (relay_leave st) \<le> rl_concurrent st"
    by (simp_all add: relay_leave_def)
  have "gate_run (relay_leave st) evs = (n, st')" using 2(2) by simp
  from 2(1) [OF this, unfolded same] 2(3-5) less show ?case unfolding arrivals.simps by linarith
next
  case (3 st now evs)
  obtain ok st1 where admit: "relay_admit now st = (ok, st1)" by fastforce
  obtain k st2 where rest: "gate_run st1 evs = (k, st2)" by fastforce
  from 3(2) admit rest have n: "n = (if ok then Suc k else k)" "st' = st2" by simp_all
  have now: "rl_updated st \<le> now" using 3(3) by simp
  note one = relay_admit_step [OF admit 3(4,5) now]
  have "sorted (rl_updated st1 # arrivals evs)" using 3(3) one(3) by simp
  from 3(1) [OF admit [symmetric] refl rest this one(1,2)] one n show ?case by (auto simp: algebra_simps)
qed simp

text \<open>
  The relay's rate is bounded. Starting with a full bucket, however requests arrive and leave while the
  clock does not run back, those admitted are at most twenty and ten more for each second since the start; and
  never more than sixteen are inside.
\<close>

lemma relay_rate_is_bounded:
  assumes "gate_run (create_relay_state start) evs = (n, st)" "sorted (start # arrivals evs)"
  shows "100 * int n \<le> 20 * 100 + (last (start # arrivals evs) - start) \<and> rl_concurrent st \<le> 16"
proof -
  have "rl_updated (create_relay_state start) = start" "rl_tokens (create_relay_state start) = 2000"
    "rl_concurrent (create_relay_state start) = 0"
    by (simp_all add: create_relay_state_def token_burst_def token_unit_def)
  with gate_run_bound [OF assms(1)] assms(2) show ?thesis
    by (simp add: token_unit_def max_concurrent_def)
qed

lemma relay_rate_is_bounded_witness:
  "100 * int (fst (gate_run (create_relay_state 0) [Arrives 0, Leaves, Arrives 5])) \<le> 20 * 100 + (5 - 0)
    \<and> fst (gate_run (create_relay_state 0) [Arrives 0, Leaves, Arrives 5]) = 2"
proof
  obtain n st where run: "gate_run (create_relay_state 0) [Arrives 0, Leaves, Arrives 5] = (n, st)" by (rule prod.exhaust)
  have "sorted (0 # arrivals [Arrives 0, Leaves, Arrives 5])" by simp
  from relay_rate_is_bounded [OF run this]
  show "100 * int (fst (gate_run (create_relay_state 0) [Arrives 0, Leaves, Arrives 5])) \<le> 20 * 100 + (5 - 0)"
    using run by simp
  show "fst (gate_run (create_relay_state 0) [Arrives 0, Leaves, Arrives 5]) = 2" by code_simp
qed

text \<open>Whatever becomes of a request, it leaves: the count of those inside is as before.\<close>

definition inside :: "('s, relay_state) cell \<Rightarrow> 's \<Rightarrow> nat" where
  "inside cell s = rl_concurrent (cell_get cell s)"

lemma cell_modify_inside: "cell_ok cell \<Longrightarrow> (\<And>st. rl_concurrent (f st) = rl_concurrent st) \<Longrightarrow> quiet (inside cell) (cell_modify cell f)"
  unfolding cell_modify_def by (rule quiet_modify) (simp add: inside_def cell_ok_def)

lemma admitted_request_leaves:
  assumes "cell_ok cell" "quiet (inside cell) (relay_admitted rh config origin cell req)"
    and "relay_handle rh config origin cell req s = (r, s')"
  shows "inside cell s' = inside cell s"
proof -
  have counters: "rl_concurrent (count_rejected st) = rl_concurrent st" "rl_concurrent (count_failed st) = rl_concurrent st" for st
    by (simp_all add: count_rejected_def count_failed_def)
  have reject: "quiet (inside cell) (relay_reject cell st)" for st
    unfolding relay_reject_def by (intro quiet_intros cell_modify_inside assms(1) counters)
  show ?thesis
  proof (cases "\<not> origin_ok origin req \<or> req_method req \<noteq> ''POST'' \<and> req_method req \<noteq> ''GET''")
    case True
    then have "relay_handle rh config origin cell req = relay_reject cell (if origin_ok origin req then 405 else 403)"
      by (auto simp: relay_handle_def)
    with assms(3) quietD [OF reject] show ?thesis by metis
  next
    case False
    let ?now = "pl_now (rh_platform rh) s"
    let ?s1 = "cell_put cell (snd (relay_admit ?now (cell_get cell s))) s"
    have get1: "cell_get cell ?s1 = snd (relay_admit ?now (cell_get cell s))" using assms(1) by (simp add: cell_ok_def)
    show ?thesis
    proof (cases "fst (relay_admit ?now (cell_get cell s))")
      case True
      have run: "io_finally (io_catch (relay_admitted rh config origin cell req)
          (\<lambda>e. io_bind (cell_modify cell count_failed) (\<lambda>_. io_return (new_response 503 None [])))) (cell_modify cell relay_leave) ?s1 = (r, s')"
        using assms(3) False True by (auto simp: relay_handle_def io_bind_def io_gets_def cell_modify_def io_modify_def)
      have body: "quiet (inside cell) (io_catch (relay_admitted rh config origin cell req)
          (\<lambda>e. io_bind (cell_modify cell count_failed) (\<lambda>_. io_return (new_response 503 None []))))"
        by (intro quiet_intros assms(2) cell_modify_inside assms(1) counters)
      obtain r2 s2 where b: "io_catch (relay_admitted rh config origin cell req)
          (\<lambda>e. io_bind (cell_modify cell count_failed) (\<lambda>_. io_return (new_response 503 None []))) ?s1 = (r2, s2)" by fastforce
      have "s' = cell_put cell (relay_leave (cell_get cell s2)) s2"
        using run b by (simp add: io_finally_def cell_modify_def io_modify_def)
      then have "inside cell s' = inside cell s2 - 1" using assms(1) by (simp add: inside_def cell_ok_def relay_leave_def)
      also have "inside cell s2 = inside cell ?s1" by (rule quietD [OF body b])
      also have "inside cell ?s1 = Suc (inside cell s)"
        using True get1 by (auto simp: inside_def relay_admit_def Let_def split: if_split_asm)
      finally show ?thesis by simp
    next
      case not_admitted: False
      have "relay_reject cell 429 ?s1 = (r, s')"
        using assms(3) False not_admitted by (auto simp: relay_handle_def io_bind_def io_gets_def cell_modify_def io_modify_def)
      from quietD [OF reject this] have "inside cell s' = inside cell ?s1" .
      also have "\<dots> = inside cell s"
        using not_admitted get1 by (auto simp: inside_def relay_admit_def Let_def split: if_split_asm)
      finally show ?thesis .
    qed
  qed
qed

subsection \<open>Examples\<close>

definition demo_relay_platform :: "(fetch_request list \<times> relay_state) platform" where
  "demo_relay_platform = demo_platform\<lparr>pl_fetch := (\<lambda>req timer (log, st).
     (Fetched \<lparr>status = 202, resp_headers = [], resp_body = None, status_text = ''''\<rparr>, (log @ [req], st)))\<rparr>"

definition demo_relay_host :: "(fetch_request list \<times> relay_state) relay_host" where
  "demo_relay_host = \<lparr>rh_platform = demo_relay_platform, rh_hmac = (\<lambda>key v. ''h''), rh_resolve_session = (\<lambda>req. io_return None)\<rparr>"

definition demo_relay_cell :: "(fetch_request list \<times> relay_state, relay_state) cell" where
  "demo_relay_cell = \<lparr>cell_get = snd, cell_put = (\<lambda>st s. (fst s, st))\<rparr>"

definition demo_relay_config :: telemetry_config where
  "demo_relay_config = \<lparr>tc_destination = mk_url ''http'' ''api.test'' [''''] None None, tc_credential = ''a.b'',
     tc_environment = ''test'', tc_release = ''r1''\<rparr>"

definition demo_anonymous :: string where "demo_anonymous = ''0123456789abcdef0123456789abcdef''"

definition demo_relay_request :: relay_request where
  "demo_relay_request =
     \<lparr>req_method = ''POST'', req_url = url.truncate (mk_url ''https'' ''app.test'' [''t''] None None),
      req_headers = [(''content-type'', ''application/json''), (''origin'', ''https://app.test''),
        (''cookie'', cookie_name @ ''='' @ demo_anonymous @ ''.1700000000000.h'')], req_body = '''', req_ip = None,
      rr_parts = Some [BodyBytes (utf8_encode (json_print (JObj [(''context'', JStr ''h'')])))]\<rparr>"

lemma demo_relay_world: "relay_world fst demo_relay_host demo_relay_cell"
  by (auto simp: relay_world_def records_requests_def demo_relay_host_def demo_relay_platform_def demo_relay_cell_def demo_platform_def
      intro: quiet_intros)

lemma demo_relay_wf: "url_wf (tc_destination demo_relay_config)"
  using example_host(2) by (auto simp: demo_relay_config_def seg_simps intro!: mk_url_wf)

lemma demo_forward:
  "\<exists>q st'. relay_forward demo_relay_host demo_relay_config demo_relay_cell wire (log, st) = (Inr (), (log @ [q], st'))"
proof -
  have "parse_url (Some (tc_destination demo_relay_config)) ''/faro'' = Some (mk_url ''http'' ''api.test'' [''faro''] None None)" by code_simp
  then have "new_url_from ''/faro'' (url_href (tc_destination demo_relay_config)) = Inr (mk_url ''http'' ''api.test'' [''faro''] None None)"
    using parse_url_href [OF demo_relay_wf] by (simp add: new_url_from_def)
  then show ?thesis
    by (simp add: relay_forward_def io_catch_def io_bind_def io_return_def io_lift_def cell_modify_def io_modify_def
        demo_relay_host_def demo_relay_platform_def demo_relay_cell_def)
qed

lemma demo_relay_run:
  "\<exists>r q st. relay_handle demo_relay_host demo_relay_config ''https://app.test'' demo_relay_cell demo_relay_request ([], create_relay_state 0)
     = (r, ([q], st))"
proof -
  let ?payload = "[(''context'', JStr ''h'')]"
  have body: "relay_body demo_relay_request = Inr (Some (json_print (JObj ?payload)))"
  proof -
    have "int (length (utf8_encode (json_print (JObj ?payload)))) \<le> batch_bytes" by code_simp
    then show ?thesis by (simp add: relay_body_def demo_relay_request_def utf8_round_trip del: json_print.simps)
  qed
  have parsed: "json_parse (json_print (JObj ?payload)) = Some (JObj ?payload)" by (rule json_parse_print) simp
  have ctx: "page_context demo_relay_host demo_relay_config anon None = ''h''" "session_hash demo_relay_host demo_relay_config anon None = ''h''" for anon
    by (simp_all add: page_context_def session_hash_def context_hmac_def demo_relay_host_def)
  have small: "\<not> utf8_length (fst (relay_wire (\<lambda>_. None) 0 demo_relay_config ''h'' None ?payload)) > batch_bytes" by code_simp
  obtain wire lost where wire: "relay_wire (\<lambda>_. None) 0 demo_relay_config ''h'' None ?payload = (wire, lost)" by (rule prod.exhaust)
  have platform: "pl_date_parse (rh_platform demo_relay_host) = (\<lambda>_. None)" "pl_now (rh_platform demo_relay_host) s = 0" for s
    by (simp_all add: demo_relay_host_def demo_relay_platform_def demo_platform_def)
  have batch: "\<exists>q st'. relay_batch demo_relay_host demo_relay_config demo_relay_cell None anon hs ?payload ([], st)
      = (Inr (new_response 204 None hs), ([q], st'))" for anon hs st
    using small demo_forward [of wire "[]" "count_dropped lost st"]
    by (auto simp: relay_batch_def ctx platform wire text_field_def io_bind_def io_gets_def io_return_def cell_modify_def
        io_modify_def demo_relay_cell_def)
  have post: "relay_post demo_relay_host demo_relay_config demo_relay_cell demo_relay_request None anon hs
      = relay_batch demo_relay_host demo_relay_config demo_relay_cell None anon hs ?payload" for anon hs
  proof -
    have "\<not> h_has (req_headers demo_relay_request) ''content-encoding''"
      "case h_get (req_headers demo_relay_request) ''content-type'' of Some t \<Rightarrow> starts_with t ''application/json'' | None \<Rightarrow> False"
      "\<not> (case h_get (req_headers demo_relay_request) ''content-length'' of Some n \<Rightarrow> number_above (js_to_number n) batch_bytes | None \<Rightarrow> False)"
      by code_simp+
    then show ?thesis by (simp add: relay_post_def body parsed faro_object_def del: json_print.simps)
  qed
  have admitted: "\<exists>r q st'. relay_admitted demo_relay_host demo_relay_config ''https://app.test'' demo_relay_cell demo_relay_request ([], st)
      = (Inr r, ([q], st'))" for st
  proof -
    have "split_char (CHR ''.'') (anonymous_cookie (req_headers demo_relay_request)) = [demo_anonymous, ''1700000000000'', ''h'']"
      "is_hex 32 demo_anonymous" "list_all is_digit ''1700000000000''"
      by code_simp+
    moreover have "digits_val ''1700000000000'' = 1700000000000" by (simp add: digits_val_def digit_val_def)
    ultimately have "known_anonymous demo_relay_host demo_relay_config 0 (req_headers demo_relay_request) = Some demo_anonymous"
      by (simp add: known_anonymous_def context_hmac_def demo_relay_host_def)
    then obtain anon cookie where anon: "anonymous_of demo_relay_host demo_relay_config ''https://app.test'' demo_relay_request ([], st)
        = (Inr (anon, cookie), ([], st))"
      by (auto simp: anonymous_of_def platform io_bind_def io_gets_def io_return_def)
    have "req_method demo_relay_request = ''POST''" by (simp add: demo_relay_request_def)
    moreover have "rh_resolve_session demo_relay_host r = io_return None" for r by (simp add: demo_relay_host_def)
    ultimately show ?thesis
      using batch [of anon "case cookie of Some c \<Rightarrow> h_set (h_of [(''cache-control'', ''no-store'')]) ''set-cookie'' c
                 | None \<Rightarrow> h_of [(''cache-control'', ''no-store'')]" st]
      by (auto simp: relay_admitted_def session_ids_ok_def Let_def post io_bind_def anon io_return_def)
  qed
  have origin: "origin_ok ''https://app.test'' demo_relay_request" by code_simp
  have go: "fst (relay_admit 0 (create_relay_state 0))" by code_simp
  obtain r q st' where "relay_admitted demo_relay_host demo_relay_config ''https://app.test'' demo_relay_cell demo_relay_request
      ([], snd (relay_admit 0 (create_relay_state 0))) = (Inr r, ([q], st'))" using admitted by blast
  then have "relay_handle demo_relay_host demo_relay_config ''https://app.test'' demo_relay_cell demo_relay_request ([], create_relay_state 0)
     = (Inr r, ([q], relay_leave st'))"
    using origin go
    by (simp add: relay_handle_def platform io_bind_def io_gets_def io_catch_def io_finally_def cell_modify_def io_modify_def
        demo_relay_cell_def demo_relay_request_def)
  then show ?thesis by blast
qed

lemma relay_forwards_only_bound_batches_witness:
  "\<exists>q session anon. fst (snd (relay_handle demo_relay_host demo_relay_config ''https://app.test'' demo_relay_cell demo_relay_request
       ([], create_relay_state 0))) = [q]
     \<and> (\<exists>s. vouched_for demo_relay_host demo_relay_config (req_headers demo_relay_request) s anon)
     \<and> forwards_bound demo_relay_host demo_relay_config session anon 0 demo_relay_request q"
proof -
  have now: "pl_now (rh_platform demo_relay_host) s = 0" for s
    by (simp add: demo_relay_host_def demo_relay_platform_def demo_platform_def)
  obtain r q st where run: "relay_handle demo_relay_host demo_relay_config ''https://app.test'' demo_relay_cell demo_relay_request
      ([], create_relay_state 0) = (r, ([q], st))" using demo_relay_run by blast
  from relay_forwards_only_bound_batches [OF demo_relay_world run, unfolded now] show ?thesis unfolding run by fastforce
qed

end
