(* ===== verification/BrowserQueue.thy ===== *)
theory BrowserQueue
  imports Faro Exporter
begin

section \<open>The page's queue of signals (\<open>packages/telemetry/src/browser-queue.ts\<close>)\<close>

text \<open>
  What a page records waits here until it is sent to the relay under the context the relay gave it. A
  change of context (a login, a logout, another organisation) starts a new generation. The closure's
  variables are a record; a piece of code that runs without an \<open>await\<close> is one function on it, which says
  what it has asked of the network, and \<open>queue_step\<close> lets the pieces follow each other in every order. An
  aborted signal is a flag of the drain that holds it; that its request then fails is one of the outcomes.
\<close>

subsection \<open>State\<close>

record queue_item =
  qi_wire :: string
  qi_bytes :: int

record drain_run =
  dn_generation :: nat
  dn_aborted :: bool

text \<open>
  \<open>flushing\<close>: no drain; one that awaits its request, or the release of the answer's body (with the items
  the request carries); one that awaits its own reset; one that has ended but whose promise still stands.
\<close>

datatype drain_phase =
    Resting
  | Sending drain_run "queue_item list"
  | Releasing drain_run "queue_item list"
  | Resetting nat
  | Ending

record browser_queue =
  bq_queue :: "queue_item list"
  bq_stats :: export_stats
  bq_context :: "string option"
  bq_generation :: nat
  bq_resets :: "nat list"
  bq_phase :: drain_phase

datatype queue_effect = Quiet | Requested fetch_request | Threw thrown

definition create_browser_queue :: browser_queue where
  "create_browser_queue =
     \<lparr>bq_queue = [], bq_stats = \<lparr>xs_queued_bytes = 0, xs_exported = 0, xs_dropped = 0, xs_failed = 0\<rparr>,
      bq_context = None, bq_generation = 0, bq_resets = [], bq_phase = Resting\<rparr>"

definition count_lost :: "int \<Rightarrow> browser_queue \<Rightarrow> browser_queue" where
  "count_lost n q = q\<lparr>bq_stats := (bq_stats q)\<lparr>xs_dropped := xs_dropped (bq_stats q) + n\<rparr>\<rparr>"

definition count_error :: "browser_queue \<Rightarrow> browser_queue" where
  "count_error q = q\<lparr>bq_stats := (bq_stats q)\<lparr>xs_failed := xs_failed (bq_stats q) + 1\<rparr>\<rparr>"

definition count_exported :: "int \<Rightarrow> browser_queue \<Rightarrow> browser_queue" where
  "count_exported n q = q\<lparr>bq_stats := (bq_stats q)\<lparr>xs_exported := xs_exported (bq_stats q) + n\<rparr>\<rparr>"

definition item_bytes :: "queue_item list \<Rightarrow> int" where
  "item_bytes items = sum_list (map qi_bytes items)"

definition give_back :: "queue_item list \<Rightarrow> browser_queue \<Rightarrow> browser_queue" where
  "give_back items q = q\<lparr>bq_stats := (bq_stats q)\<lparr>xs_queued_bytes := xs_queued_bytes (bq_stats q) - item_bytes items\<rparr>\<rparr>"

definition clear_queue :: "browser_queue \<Rightarrow> browser_queue" where
  "clear_queue q = (give_back (bq_queue q) (count_lost (int (length (bq_queue q))) q))\<lparr>bq_queue := []\<rparr>"

subsection \<open>A batch\<close>

definition spans_part :: "faro_batch \<Rightarrow> json list" where
  "spans_part b = json_items (obj_get (fb_traces b) ''resourceSpans'')"

definition merge_batches :: "faro_batch \<Rightarrow> faro_batch \<Rightarrow> faro_batch" where
  "merge_batches l r =
     \<lparr>fb_logs = fb_logs l @ fb_logs r, fb_exceptions = fb_exceptions l @ fb_exceptions r,
      fb_measurements = fb_measurements l @ fb_measurements r, fb_events = fb_events l @ fb_events r,
      fb_traces = [(''resourceSpans'', JArr (spans_part l @ spans_part r))]\<rparr>"

definition batch_wire :: "string \<Rightarrow> faro_batch \<Rightarrow> string" where
  "batch_wire c b =
     json_print (case faro_to_json b of JObj ms \<Rightarrow> JObj (ms @ [(''context'', JStr c)]) | v \<Rightarrow> v)"

definition batch_fits :: "string \<Rightarrow> faro_batch \<Rightarrow> bool" where
  "batch_fits c b \<longleftrightarrow>
     length (fb_logs b) \<le> max_events \<and> length (fb_exceptions b) \<le> max_events \<and> length (fb_events b) \<le> max_events
     \<and> length (fb_measurements b) \<le> max_events \<and> length (spans_part b) \<le> max_events
     \<and> utf8_length (batch_wire c b) \<le> batch_bytes"

text \<open>
  The inner loop of \<open>drain\<close>: what the batch takes and its text, what is left, and whether a waiting text
  could not be parsed.
\<close>

fun fill_batch ::
    "(string \<Rightarrow> int option) \<Rightarrow> int \<Rightarrow> string \<Rightarrow> faro_batch \<Rightarrow> string \<Rightarrow> queue_item list \<Rightarrow> queue_item list
      \<Rightarrow> queue_item list \<times> string \<times> queue_item list \<times> bool" where
  "fill_batch date_parse now c b wire taken [] = (taken, wire, [], False)"
| "fill_batch date_parse now c b wire taken (item # rest) =
     (case json_parse (qi_wire item) of
        None \<Rightarrow> (taken, wire, item # rest, True)
      | Some v \<Rightarrow>
          (let candidate = merge_batches b (fst (sanitize_faro_batch date_parse now v)) in
           if \<not> batch_fits c candidate then (taken, wire, item # rest, False)
           else fill_batch date_parse now c candidate (batch_wire c candidate) (taken @ [item]) rest))"

subsection \<open>Operations\<close>

definition context_request :: "full_url \<Rightarrow> fetch_request" where
  "context_request relay =
     \<lparr>fetch_url = url_href relay, fetch_method = ''GET'', fetch_headers = h_of [], fetch_body = None\<rparr>"

definition batch_request :: "full_url \<Rightarrow> string \<Rightarrow> fetch_request" where
  "batch_request relay wire =
     \<lparr>fetch_url = url_href relay, fetch_method = ''POST'',
      fetch_headers = h_of [(''content-type'', ''application/json'')], fetch_body = Some wire\<rparr>"

definition abort_drain :: "drain_phase \<Rightarrow> drain_phase" where
  "abort_drain phase =
     (case phase of
        Sending run items \<Rightarrow> Sending (run\<lparr>dn_aborted := True\<rparr>) items
      | Releasing run items \<Rightarrow> Releasing (run\<lparr>dn_aborted := True\<rparr>) items
      | _ \<Rightarrow> phase)"

text \<open>\<open>resetContext\<close> up to its \<open>await\<close>, and what follows the answer (whether it was a success, and its text).\<close>

definition reset_begin :: "browser_queue \<Rightarrow> browser_queue" where
  "reset_begin q =
     (let g = Suc (bq_generation q) in
      clear_queue (q\<lparr>bq_generation := g, bq_context := None, bq_resets := g # bq_resets q,
                     bq_phase := abort_drain (bq_phase q)\<rparr>))"

definition given_context :: "(bool \<times> string) option \<Rightarrow> string option" where
  "given_context outcome =
     (case outcome of
        None \<Rightarrow> None
      | Some (ok, body) \<Rightarrow>
          (case json_parse body of
             None \<Rightarrow> None
           | Some v \<Rightarrow>
               (case text_field (obj_get (faro_object (Some v)) ''context'') of
                  Some c \<Rightarrow> if ok \<and> length c \<le> max_events then Some c else None
                | None \<Rightarrow> None)))"

definition reset_failed :: "(bool \<times> string) option \<Rightarrow> bool" where
  "reset_failed outcome \<longleftrightarrow> (case outcome of None \<Rightarrow> True | Some (ok, body) \<Rightarrow> json_parse body = None)"

definition reset_settle :: "nat \<Rightarrow> (bool \<times> string) option \<Rightarrow> browser_queue \<Rightarrow> browser_queue" where
  "reset_settle g outcome q =
     (let q1 = (if reset_failed outcome then count_error q
                else if given_context outcome \<noteq> None \<and> bq_generation q = g
                then q\<lparr>bq_context := given_context outcome\<rparr> else q) in
      q1\<lparr>bq_resets := remove1 g (bq_resets q),
         bq_phase := (if bq_phase q = Resetting g then Ending else bq_phase q)\<rparr>)"

text \<open>The item an input becomes, if any, and the number of its signals that were not taken.\<close>

definition item_of :: "(string \<Rightarrow> int option) \<Rightarrow> int \<Rightarrow> json \<Rightarrow> queue_item" where
  "item_of date_parse now input =
     (let wire = json_print (faro_to_json (fst (sanitize_faro_batch date_parse now input))) in
      \<lparr>qi_wire = wire, qi_bytes = utf8_length wire\<rparr>)"

definition enqueue_signals :: "(string \<Rightarrow> int option) \<Rightarrow> int \<Rightarrow> json \<Rightarrow> browser_queue \<Rightarrow> browser_queue" where
  "enqueue_signals date_parse now input q =
     (if bq_context q = None then count_lost 1 q
      else
        (let (sanitized, lost) = sanitize_faro_batch date_parse now input;
             q1 = count_lost lost q; item = item_of date_parse now input in
         if faro_event_count sanitized = 0 then q1
         else if qi_bytes item > event_bytes \<or> qi_bytes item + xs_queued_bytes (bq_stats q1) > browser_buffered_bytes
         then count_lost 1 q1
         else q1\<lparr>bq_queue := bq_queue q1 @ [item],
                 bq_stats := (bq_stats q1)\<lparr>xs_queued_bytes := xs_queued_bytes (bq_stats q1) + qi_bytes item\<rparr>\<rparr>))"

text \<open>What \<open>drain\<close> does once its loop has ended, and the loop from its head to its next \<open>await\<close>.\<close>

definition drain_finish :: "full_url \<Rightarrow> drain_run \<Rightarrow> browser_queue \<Rightarrow> browser_queue \<times> queue_effect" where
  "drain_finish relay run q =
     (if dn_generation run \<noteq> bq_generation q then (q\<lparr>bq_phase := Ending\<rparr>, Quiet)
      else if dn_aborted run then ((clear_queue q)\<lparr>bq_phase := Ending\<rparr>, Quiet)
      else if bq_context q = None
      then ((reset_begin q)\<lparr>bq_phase := Resetting (Suc (bq_generation q))\<rparr>, Requested (context_request relay))
      else (q\<lparr>bq_phase := Ending\<rparr>, Quiet))"

definition drain_advance ::
    "(string \<Rightarrow> int option) \<Rightarrow> full_url \<Rightarrow> int \<Rightarrow> drain_run \<Rightarrow> browser_queue \<Rightarrow> browser_queue \<times> queue_effect" where
  "drain_advance date_parse relay now run q =
     (case bq_context q of
        Some c \<Rightarrow>
          if bq_queue q \<noteq> [] \<and> \<not> dn_aborted run \<and> dn_generation run = bq_generation q then
            (case fill_batch date_parse now c (fst (sanitize_faro_batch date_parse now (JObj []))) '''' [] (bq_queue q) of
               (taken, wire, rest, unparsed) \<Rightarrow>
                 if unparsed then (q\<lparr>bq_queue := rest, bq_phase := Ending\<rparr>, Threw (Err (JsError 0 ''SyntaxError'' ''Unexpected token in JSON'' None None)))
                 else if taken = [] then drain_finish relay run (clear_queue q)
                 else (q\<lparr>bq_queue := rest, bq_phase := Sending run taken\<rparr>, Requested (batch_request relay wire)))
          else drain_finish relay run q
      | None \<Rightarrow> drain_finish relay run q)"

definition flush_queue :: "(string \<Rightarrow> int option) \<Rightarrow> full_url \<Rightarrow> int \<Rightarrow> browser_queue \<Rightarrow> browser_queue \<times> queue_effect" where
  "flush_queue date_parse relay now q =
     (if bq_phase q \<noteq> Resting then (q, Quiet)
      else drain_advance date_parse relay now \<lparr>dn_generation = bq_generation q, dn_aborted = False\<rparr> q)"

definition drain_rejected ::
    "(string \<Rightarrow> int option) \<Rightarrow> full_url \<Rightarrow> int \<Rightarrow> drain_run \<Rightarrow> queue_item list \<Rightarrow> browser_queue \<Rightarrow> browser_queue \<times> queue_effect" where
  "drain_rejected date_parse relay now run items q =
     drain_advance date_parse relay now run (give_back items (count_lost (int (length items)) (count_error q)))"

definition drain_answered :: "drain_run \<Rightarrow> queue_item list \<Rightarrow> nat \<Rightarrow> browser_queue \<Rightarrow> browser_queue" where
  "drain_answered run items st q =
     (let n = int (length items) in
      (if dn_generation run \<noteq> bq_generation q then count_lost n q
       else if st = 409 then count_lost n (clear_queue (q\<lparr>bq_context := None\<rparr>))
       else if 200 \<le> st \<and> st < 300 then count_exported n q
       else count_lost n (count_error q))\<lparr>bq_phase := Releasing run items\<rparr>)"

definition drain_released ::
    "(string \<Rightarrow> int option) \<Rightarrow> full_url \<Rightarrow> int \<Rightarrow> drain_run \<Rightarrow> queue_item list \<Rightarrow> browser_queue \<Rightarrow> browser_queue \<times> queue_effect" where
  "drain_released date_parse relay now run items q = drain_advance date_parse relay now run (give_back items q)"

subsection \<open>What may happen next\<close>

datatype queue_event =
    SignalRecorded int json
  | QueueFlushed int
  | RelayAnswered nat
  | RelayFailed int
  | BodyReleased int
  | ReleaseFailed int
  | DrainEnded
  | FlushExpired
  | ContextReset
  | ContextAnswered nat "(bool \<times> string) option"
  | QueueCleared
  | SignalDropped

inductive queue_step ::
    "(string \<Rightarrow> int option) \<Rightarrow> full_url \<Rightarrow> browser_queue \<Rightarrow> queue_event \<Rightarrow> queue_effect \<Rightarrow> browser_queue \<Rightarrow> bool"
  for date_parse :: "string \<Rightarrow> int option" and relay :: full_url where
  step_recorded: "queue_step date_parse relay q (SignalRecorded now input) Quiet (enqueue_signals date_parse now input q)"
| step_flushed: "flush_queue date_parse relay now q = (q', eff) \<Longrightarrow> queue_step date_parse relay q (QueueFlushed now) eff q'"
| step_answered: "bq_phase q = Sending run items
    \<Longrightarrow> queue_step date_parse relay q (RelayAnswered st) Quiet (drain_answered run items st q)"
| step_failed: "bq_phase q = Sending run items \<Longrightarrow> drain_rejected date_parse relay now run items q = (q', eff)
    \<Longrightarrow> queue_step date_parse relay q (RelayFailed now) eff q'"
| step_released: "bq_phase q = Releasing run items \<Longrightarrow> drain_released date_parse relay now run items q = (q', eff)
    \<Longrightarrow> queue_step date_parse relay q (BodyReleased now) eff q'"
| step_unreleased: "bq_phase q = Releasing run items \<Longrightarrow> drain_rejected date_parse relay now run items q = (q', eff)
    \<Longrightarrow> queue_step date_parse relay q (ReleaseFailed now) eff q'"
| step_drain_ended: "bq_phase q = Ending \<Longrightarrow> queue_step date_parse relay q DrainEnded Quiet (q\<lparr>bq_phase := Resting\<rparr>)"
| step_expired: "queue_step date_parse relay q FlushExpired Quiet (q\<lparr>bq_phase := abort_drain (bq_phase q)\<rparr>)"
| step_reset: "queue_step date_parse relay q ContextReset (Requested (context_request relay)) (reset_begin q)"
| step_context: "g \<in> set (bq_resets q)
    \<Longrightarrow> queue_step date_parse relay q (ContextAnswered g outcome) Quiet (reset_settle g outcome q)"
| step_cleared: "queue_step date_parse relay q QueueCleared Quiet (clear_queue q)"
| step_dropped: "queue_step date_parse relay q SignalDropped Quiet (count_lost 1 q)"

text \<open>A life of the queue: what has happened, each event with the state it found and what it asked for.\<close>

type_synonym queue_log = "(queue_event \<times> browser_queue \<times> queue_effect) list"

inductive queue_life :: "(string \<Rightarrow> int option) \<Rightarrow> full_url \<Rightarrow> queue_log \<Rightarrow> browser_queue \<Rightarrow> bool"
  for date_parse :: "string \<Rightarrow> int option" and relay :: full_url where
  queue_start: "queue_life date_parse relay [] create_browser_queue"
| queue_next: "queue_life date_parse relay log q \<Longrightarrow> queue_step date_parse relay q ev eff q'
    \<Longrightarrow> queue_life date_parse relay (log @ [(ev, q, eff)]) q'"

subsection \<open>Lemmas: a batch\<close>

definition carried :: "(string \<Rightarrow> int option) \<Rightarrow> int \<Rightarrow> faro_batch \<Rightarrow> queue_item list \<Rightarrow> faro_batch" where
  "carried date_parse now b items =
     foldl (\<lambda>b item. merge_batches b (fst (sanitize_faro_batch date_parse now (the (json_parse (qi_wire item)))))) b items"

lemma fill_batch_ok:
  assumes "fill_batch date_parse now c b wire taken items = (taken', wire', rest, unparsed)"
  shows "\<exists>more. taken' = taken @ more \<and> items = more @ rest
    \<and> (more = [] \<and> wire' = wire
       \<or> batch_fits c (carried date_parse now b more) \<and> wire' = batch_wire c (carried date_parse now b more))"
  using assms
proof (induction date_parse now c b wire taken items rule: fill_batch.induct)
  case (2 date_parse now c b wire taken item rest')
  show ?case
  proof (cases "json_parse (qi_wire item)")
    case (Some v)
    let ?candidate = "merge_batches b (fst (sanitize_faro_batch date_parse now v))"
    show ?thesis
    proof (cases "batch_fits c ?candidate")
      case True
      with 2(2) Some have "fill_batch date_parse now c ?candidate (batch_wire c ?candidate) (taken @ [item]) rest' = (taken', wire', rest, unparsed)"
        by (simp add: Let_def)
      from 2(1) [OF Some refl _ this] True obtain more where more: "taken' = (taken @ [item]) @ more" "rest' = more @ rest"
        "more = [] \<and> wire' = batch_wire c ?candidate
         \<or> batch_fits c (carried date_parse now ?candidate more) \<and> wire' = batch_wire c (carried date_parse now ?candidate more)"
        by blast
      have "carried date_parse now b (item # more) = carried date_parse now ?candidate more"
        using Some by (simp add: carried_def)
      moreover have "carried date_parse now ?candidate [] = ?candidate" by (simp add: carried_def)
      ultimately show ?thesis
        using more True by (intro exI [of _ "item # more"]) auto
    qed (use 2(2) Some in simp)
  qed (use 2(2) in simp)
qed simp

lemma item_bytes_append [simp]: "item_bytes (xs @ ys) = item_bytes xs + item_bytes ys"
  by (simp add: item_bytes_def)

lemma item_bytes_Nil [simp]: "item_bytes [] = 0"
  by (simp add: item_bytes_def)

definition kept_item :: "queue_item \<Rightarrow> bool" where
  "kept_item item \<longleftrightarrow> qi_bytes item = utf8_length (qi_wire item) \<and> qi_bytes item \<le> event_bytes"

lemma item_bytes_nonneg: "\<forall>item \<in> set items. kept_item item \<Longrightarrow> 0 \<le> item_bytes items"
  unfolding item_bytes_def by (intro sum_list_nonneg) (auto simp: kept_item_def utf8_length_def)

subsection \<open>Lemmas: what the loop does to the queue\<close>

definition in_hand :: "browser_queue \<Rightarrow> queue_item list" where
  "in_hand q = (case bq_phase q of Sending run items \<Rightarrow> items | Releasing run items \<Rightarrow> items | _ \<Rightarrow> [])"

lemmas counters = count_lost_def count_error_def count_exported_def give_back_def

lemma counters_keep [simp]:
  "bq_queue (count_lost n q) = bq_queue q" "bq_context (count_lost n q) = bq_context q"
  "bq_generation (count_lost n q) = bq_generation q" "bq_resets (count_lost n q) = bq_resets q" "bq_phase (count_lost n q) = bq_phase q"
  "bq_queue (count_error q) = bq_queue q" "bq_context (count_error q) = bq_context q"
  "bq_generation (count_error q) = bq_generation q" "bq_resets (count_error q) = bq_resets q" "bq_phase (count_error q) = bq_phase q"
  "bq_queue (count_exported n q) = bq_queue q" "bq_context (count_exported n q) = bq_context q"
  "bq_generation (count_exported n q) = bq_generation q" "bq_resets (count_exported n q) = bq_resets q"
  "bq_phase (count_exported n q) = bq_phase q"
  "bq_queue (give_back items q) = bq_queue q" "bq_context (give_back items q) = bq_context q"
  "bq_generation (give_back items q) = bq_generation q" "bq_resets (give_back items q) = bq_resets q"
  "bq_phase (give_back items q) = bq_phase q"
  by (simp_all add: counters)

lemma clear_keeps [simp]:
  "bq_queue (clear_queue q) = []" "bq_context (clear_queue q) = bq_context q" "bq_generation (clear_queue q) = bq_generation q"
  "bq_resets (clear_queue q) = bq_resets q" "bq_phase (clear_queue q) = bq_phase q"
  by (simp_all add: clear_queue_def)

lemma reset_keeps [simp]:
  "bq_queue (reset_begin q) = []" "bq_context (reset_begin q) = None" "bq_generation (reset_begin q) = Suc (bq_generation q)"
  "bq_resets (reset_begin q) = Suc (bq_generation q) # bq_resets q" "bq_phase (reset_begin q) = abort_drain (bq_phase q)"
  by (simp_all add: reset_begin_def Let_def)

text \<open>
  The three ways the loop leaves the queue: cut short by a text that does not parse; with a batch sent; or
  ended, with the queue as it was, emptied, or begun anew.
\<close>

inductive advanced :: "(string \<Rightarrow> int option) \<Rightarrow> full_url \<Rightarrow> int \<Rightarrow> drain_run \<Rightarrow> browser_queue \<Rightarrow> browser_queue \<Rightarrow> queue_effect \<Rightarrow> bool"
  for date_parse relay now run q where
  cut_short: "bq_queue q = taken @ rest \<Longrightarrow> advanced date_parse relay now run q (q\<lparr>bq_queue := rest, bq_phase := Ending\<rparr>) (Threw e)"
| batch_sent: "bq_context q = Some c \<Longrightarrow> dn_generation run = bq_generation q \<Longrightarrow> \<not> dn_aborted run
    \<Longrightarrow> bq_queue q = taken @ rest \<Longrightarrow> taken \<noteq> []
    \<Longrightarrow> b = carried date_parse now (fst (sanitize_faro_batch date_parse now (JObj []))) taken \<Longrightarrow> batch_fits c b
    \<Longrightarrow> advanced date_parse relay now run q (q\<lparr>bq_queue := rest, bq_phase := Sending run taken\<rparr>)
          (Requested (batch_request relay (batch_wire c b)))"
| ended: "q0 = q \<or> q0 = clear_queue q \<Longrightarrow> advanced date_parse relay now run q (q0\<lparr>bq_phase := Ending\<rparr>) Quiet"
| begun_anew: "bq_context q = None \<Longrightarrow> advanced date_parse relay now run q
    ((reset_begin q)\<lparr>bq_phase := Resetting (Suc (bq_generation q))\<rparr>) (Requested (context_request relay))"

lemma clear_twice: "clear_queue (clear_queue q) = clear_queue q"
  by (simp add: clear_queue_def counters)

lemma drain_finish_cases:
  assumes "drain_finish relay run q = (q', eff)"
  shows "advanced date_parse relay now run q q' eff"
  using assms
  by (auto simp: drain_finish_def split: if_split_asm intro: advanced.intros)

lemma drain_advance_cases:
  assumes "drain_advance date_parse relay now run q = (q', eff)"
  shows "advanced date_parse relay now run q q' eff"
proof (cases "bq_queue q \<noteq> [] \<and> \<not> dn_aborted run \<and> dn_generation run = bq_generation q \<and> bq_context q \<noteq> None")
  case True
  then obtain c where c: "bq_context q = Some c" by auto
  let ?b = "fst (sanitize_faro_batch date_parse now (JObj []))"
  obtain taken wire rest unparsed where fill: "fill_batch date_parse now c ?b '''' [] (bq_queue q) = (taken, wire, rest, unparsed)"
    by (metis prod_cases4)
  from fill_batch_ok [OF this] have split: "bq_queue q = taken @ rest"
    and made: "taken = [] \<or> batch_fits c (carried date_parse now ?b taken) \<and> wire = batch_wire c (carried date_parse now ?b taken)"
    by auto
  consider "unparsed" | "\<not> unparsed" "taken = []" | "\<not> unparsed" "taken \<noteq> []" by blast
  then show ?thesis
  proof cases
    case 1
    with assms True c fill have "q' = q\<lparr>bq_queue := rest, bq_phase := Ending\<rparr>" "eff = Threw (Err (JsError 0 ''SyntaxError'' ''Unexpected token in JSON'' None None))"
      by (auto simp: drain_advance_def)
    with split show ?thesis by (auto intro: advanced.cut_short)
  next
    case 2
    with assms True c fill have "drain_finish relay run (clear_queue q) = (q', eff)" by (simp add: drain_advance_def)
    then have "q' = (clear_queue q)\<lparr>bq_phase := Ending\<rparr> \<and> eff = Quiet"
      using c by (auto simp: drain_finish_def clear_twice split: if_split_asm)
    then show ?thesis by (auto intro: advanced.intros)
  next
    case 3
    with assms True c fill have "q' = q\<lparr>bq_queue := rest, bq_phase := Sending run taken\<rparr>" "eff = Requested (batch_request relay wire)"
      by (auto simp: drain_advance_def)
    with 3 made advanced.batch_sent [OF c _ _ split _ refl] True show ?thesis by simp
  qed
next
  case False
  with assms have "drain_finish relay run q = (q', eff)"
    by (auto simp: drain_advance_def split: option.splits)
  then show ?thesis by (rule drain_finish_cases)
qed

subsection \<open>Lemmas: the budget\<close>

text \<open>The bytes counted beyond those of the items that wait.\<close>

definition spare :: "browser_queue \<Rightarrow> int" where
  "spare q = xs_queued_bytes (bq_stats q) - item_bytes (bq_queue q)"

definition is_throw :: "queue_effect \<Rightarrow> bool" where
  "is_throw eff \<longleftrightarrow> (case eff of Threw e \<Rightarrow> True | _ \<Rightarrow> False)"

definition unbroken :: "queue_log \<Rightarrow> bool" where
  "unbroken log \<longleftrightarrow> (\<forall>(ev, q, eff) \<in> set log. \<not> is_throw eff)"

definition queue_ok :: "queue_log \<Rightarrow> browser_queue \<Rightarrow> bool" where
  "queue_ok log q \<longleftrightarrow>
     (\<forall>item \<in> set (in_hand q @ bq_queue q). kept_item item) \<and> item_bytes (in_hand q) \<le> spare q
     \<and> (unbroken log \<longrightarrow> spare q = item_bytes (in_hand q)) \<and> xs_queued_bytes (bq_stats q) \<le> browser_buffered_bytes"

lemma unbroken_snoc [simp]: "unbroken (log @ [(ev, q, eff)]) \<longleftrightarrow> unbroken log \<and> \<not> is_throw eff"
  by (auto simp: unbroken_def)

lemma is_throw_simps [simp]: "is_throw (Threw e)" "\<not> is_throw Quiet" "\<not> is_throw (Requested r)"
  by (simp_all add: is_throw_def)

lemma spare_simps [simp]:
  "spare (count_lost n q) = spare q" "spare (count_error q) = spare q" "spare (count_exported n q) = spare q"
  "spare (give_back items q) = spare q - item_bytes items" "spare (clear_queue q) = spare q"
  "spare (q\<lparr>bq_phase := ph\<rparr>) = spare q" "spare (q\<lparr>bq_context := ctx\<rparr>) = spare q" "spare (reset_begin q) = spare q"
  by (simp_all add: spare_def counters clear_queue_def reset_begin_def Let_def)

lemma queued_simps [simp]:
  "xs_queued_bytes (bq_stats (count_lost n q)) = xs_queued_bytes (bq_stats q)"
  "xs_queued_bytes (bq_stats (count_error q)) = xs_queued_bytes (bq_stats q)"
  "xs_queued_bytes (bq_stats (count_exported n q)) = xs_queued_bytes (bq_stats q)"
  "xs_queued_bytes (bq_stats (give_back items q)) = xs_queued_bytes (bq_stats q) - item_bytes items"
  "xs_queued_bytes (bq_stats (clear_queue q)) = xs_queued_bytes (bq_stats q) - item_bytes (bq_queue q)"
  "xs_queued_bytes (bq_stats (reset_begin q)) = xs_queued_bytes (bq_stats q) - item_bytes (bq_queue q)"
  by (simp_all add: counters clear_queue_def reset_begin_def Let_def)

lemma in_hand_simps [simp]:
  "in_hand (count_lost n q) = in_hand q" "in_hand (count_error q) = in_hand q" "in_hand (count_exported n q) = in_hand q"
  "in_hand (give_back items q) = in_hand q" "in_hand (clear_queue q) = in_hand q" "in_hand (q\<lparr>bq_context := ctx\<rparr>) = in_hand q"
  "in_hand (q\<lparr>bq_phase := Sending run items\<rparr>) = items" "in_hand (q\<lparr>bq_phase := Releasing run items\<rparr>) = items"
  "in_hand (q\<lparr>bq_phase := Resetting g\<rparr>) = []" "in_hand (q\<lparr>bq_phase := Ending\<rparr>) = []" "in_hand (q\<lparr>bq_phase := Resting\<rparr>) = []"
  "in_hand (q\<lparr>bq_phase := abort_drain (bq_phase q)\<rparr>) = in_hand q" "in_hand (reset_begin q) = in_hand q"
  by (auto simp: in_hand_def abort_drain_def split: drain_phase.splits)

lemma queue_ok_advanced:
  assumes "advanced date_parse relay now run q q' eff"
    and "\<forall>item \<in> set (bq_queue q). kept_item item" "0 \<le> spare q" "unbroken log \<longrightarrow> spare q = 0"
    and "xs_queued_bytes (bq_stats q) \<le> browser_buffered_bytes"
  shows "queue_ok (log @ [(ev, q0, eff)]) q'"
  using assms(1)
proof cases
  case (cut_short taken rest e)
  with assms(2) have "0 \<le> item_bytes taken" by (intro item_bytes_nonneg) auto
  with cut_short assms show ?thesis by (auto simp: queue_ok_def spare_def in_hand_def)
next
  case (batch_sent c taken rest b)
  with assms show ?thesis by (auto simp: queue_ok_def spare_def in_hand_def)
next
  case (ended q1)
  with assms item_bytes_nonneg [OF assms(2)] show ?thesis by (auto simp: queue_ok_def)
next
  case begun_anew
  with assms item_bytes_nonneg [OF assms(2)] show ?thesis by (auto simp: queue_ok_def)
qed

lemma queue_ok_quiet: "queue_ok log q \<Longrightarrow> queue_ok (log @ [(ev, q0, Quiet)]) q"
  by (simp add: queue_ok_def)

lemma queue_ok_lost: "queue_ok log q \<Longrightarrow> queue_ok log (count_lost n q)"
  by (simp add: queue_ok_def)

definition take_item :: "queue_item \<Rightarrow> browser_queue \<Rightarrow> browser_queue" where
  "take_item item q =
     q\<lparr>bq_queue := bq_queue q @ [item],
       bq_stats := (bq_stats q)\<lparr>xs_queued_bytes := xs_queued_bytes (bq_stats q) + qi_bytes item\<rparr>\<rparr>"

lemma queue_ok_taken:
  assumes "queue_ok log q" "kept_item item" "qi_bytes item + xs_queued_bytes (bq_stats q) \<le> browser_buffered_bytes"
  shows "queue_ok log (take_item item q)"
proof -
  have "in_hand (take_item item q) = in_hand q" by (simp add: take_item_def in_hand_def)
  moreover have "spare (take_item item q) = spare q" by (simp add: take_item_def spare_def item_bytes_def)
  ultimately show ?thesis using assms by (simp add: queue_ok_def take_item_def)
qed

text \<open>A recorded input is lost, or its item joins the queue.\<close>

lemma recorded_cases:
  obtains n where "enqueue_signals date_parse now input q = count_lost n q"
  | n where "bq_context q \<noteq> None" "kept_item (item_of date_parse now input)"
      "qi_bytes (item_of date_parse now input) + xs_queued_bytes (bq_stats q) \<le> browser_buffered_bytes"
      "enqueue_signals date_parse now input q = take_item (item_of date_parse now input) (count_lost n q)"
proof -
  let ?item = "item_of date_parse now input"
  obtain b lost where made: "sanitize_faro_batch date_parse now input = (b, lost)" by (rule prod.exhaust)
  have bytes: "qi_bytes ?item = utf8_length (qi_wire ?item)" by (simp add: item_of_def Let_def)
  have twice: "count_lost 1 (count_lost lost q) = count_lost (lost + 1) q" by (simp add: count_lost_def)
  consider "bq_context q = None" | "bq_context q \<noteq> None" "faro_event_count b = 0"
    | "bq_context q \<noteq> None" "faro_event_count b \<noteq> 0" "qi_bytes ?item > event_bytes \<or> qi_bytes ?item + xs_queued_bytes (bq_stats q) > browser_buffered_bytes"
    | "bq_context q \<noteq> None" "faro_event_count b \<noteq> 0" "qi_bytes ?item \<le> event_bytes" "qi_bytes ?item + xs_queued_bytes (bq_stats q) \<le> browser_buffered_bytes"
    by linarith
  then show thesis
  proof cases
    case 4
    then have "enqueue_signals date_parse now input q = take_item ?item (count_lost lost q)"
      by (auto simp: enqueue_signals_def made Let_def take_item_def)
    with 4 bytes that(2) show thesis by (simp add: kept_item_def)
  next
    case 1
    then show thesis using that(1) [of 1] by (simp add: enqueue_signals_def)
  next
    case 2
    then show thesis using that(1) [of lost] by (auto simp: enqueue_signals_def made Let_def)
  next
    case 3
    then show thesis using that(1) [of "lost + 1"] twice by (auto simp: enqueue_signals_def made Let_def)
  qed
qed

lemma queue_ok_recorded:
  assumes "queue_ok log q"
  shows "queue_ok (log @ [(ev, q, Quiet)]) (enqueue_signals date_parse now input q)"
  by (rule recorded_cases [of date_parse now input q])
    (use assms in \<open>auto intro!: queue_ok_quiet queue_ok_lost queue_ok_taken\<close>)

lemma queue_ok_step:
  assumes "queue_ok log q" "queue_step date_parse relay q ev eff q'"
  shows "queue_ok (log @ [(ev, q, eff)]) q'"
  using assms(2)
proof cases
  case (step_recorded now input)
  with queue_ok_recorded [OF assms(1)] show ?thesis by simp
next
  case (step_flushed now)
  show ?thesis
  proof (cases "bq_phase q = Resting")
    case True
    with step_flushed have "advanced date_parse relay now \<lparr>dn_generation = bq_generation q, dn_aborted = False\<rparr> q q' eff"
      by (auto simp: flush_queue_def intro: drain_advance_cases)
    from queue_ok_advanced [OF this] assms(1) True show ?thesis by (auto simp: queue_ok_def in_hand_def)
  qed (use step_flushed assms(1) in \<open>auto simp: flush_queue_def queue_ok_def\<close>)
next
  case (step_failed run items now)
  then have "advanced date_parse relay now run (give_back items (count_lost (int (length items)) (count_error q))) q' eff"
    by (auto simp: drain_rejected_def intro: drain_advance_cases)
  from queue_ok_advanced [OF this] assms(1) step_failed(2) item_bytes_nonneg [of items] show ?thesis
    by (auto simp: queue_ok_def in_hand_def)
next
  case (step_unreleased run items now)
  then have "advanced date_parse relay now run (give_back items (count_lost (int (length items)) (count_error q))) q' eff"
    by (auto simp: drain_rejected_def intro: drain_advance_cases)
  from queue_ok_advanced [OF this] assms(1) step_unreleased(2) item_bytes_nonneg [of items] show ?thesis
    by (auto simp: queue_ok_def in_hand_def)
next
  case (step_released run items now)
  then have "advanced date_parse relay now run (give_back items q) q' eff"
    by (auto simp: drain_released_def intro: drain_advance_cases)
  from queue_ok_advanced [OF this] assms(1) step_released(2) item_bytes_nonneg [of items] show ?thesis
    by (auto simp: queue_ok_def in_hand_def)
next
  case (step_answered run items st)
  with assms(1) item_bytes_nonneg [of "bq_queue q"] show ?thesis
    by (auto simp: queue_ok_def drain_answered_def Let_def in_hand_def)
next
  case (step_context g outcome)
  then have "in_hand q' = in_hand q" "spare q' = spare q" "bq_queue q' = bq_queue q"
    "xs_queued_bytes (bq_stats q') = xs_queued_bytes (bq_stats q)"
    by (auto simp: reset_settle_def in_hand_def spare_def Let_def split: drain_phase.splits)
  with assms(1) step_context show ?thesis by (simp add: queue_ok_def)
qed (use assms(1) item_bytes_nonneg [of "bq_queue q"] in \<open>auto simp: queue_ok_def in_hand_def [of q]\<close>)

lemma queue_life_ok: "queue_life date_parse relay log q \<Longrightarrow> queue_ok log q"
proof (induction rule: queue_life.induct)
  case queue_start
  show ?case by (simp add: queue_ok_def create_browser_queue_def in_hand_def spare_def browser_buffered_bytes_def)
qed (rule queue_ok_step)

subsection \<open>Lemmas: one context for all that is sent together\<close>

definition recorded_here :: "(string \<Rightarrow> int option) \<Rightarrow> queue_log \<Rightarrow> nat \<Rightarrow> string \<Rightarrow> queue_item \<Rightarrow> bool" where
  "recorded_here date_parse log g c item \<longleftrightarrow>
     (\<exists>now input q eff. (SignalRecorded now input, q, eff) \<in> set log \<and> item = item_of date_parse now input
        \<and> bq_generation q = g \<and> bq_context q = Some c)"

definition given_here :: "queue_log \<Rightarrow> nat \<Rightarrow> string \<Rightarrow> bool" where
  "given_here log g c \<longleftrightarrow>
     (\<exists>outcome q eff. (ContextAnswered g outcome, q, eff) \<in> set log \<and> given_context outcome = Some c)"

definition isolated :: "(string \<Rightarrow> int option) \<Rightarrow> queue_log \<Rightarrow> browser_queue \<Rightarrow> bool" where
  "isolated date_parse log q \<longleftrightarrow>
     distinct (bq_resets q) \<and> (\<forall>g \<in> set (bq_resets q). g \<le> bq_generation q)
     \<and> (bq_generation q \<in> set (bq_resets q) \<longrightarrow> bq_context q = None)
     \<and> (bq_context q = None \<longrightarrow> bq_queue q = [])
     \<and> (\<forall>c. bq_context q = Some c \<longrightarrow> given_here log (bq_generation q) c
          \<and> (\<forall>item \<in> set (bq_queue q). recorded_here date_parse log (bq_generation q) c item))"

lemma recorded_here_mono: "recorded_here date_parse log g c item \<Longrightarrow> recorded_here date_parse (log @ later) g c item"
  by (auto simp: recorded_here_def)

lemma given_here_mono: "given_here log g c \<Longrightarrow> given_here (log @ later) g c"
  by (auto simp: given_here_def)

text \<open>A step that keeps generation, context and resets, and adds nothing to the queue.\<close>

lemma isolated_kept:
  assumes "isolated date_parse log q" "bq_generation q' = bq_generation q" "bq_resets q' = bq_resets q"
    and "bq_context q' = bq_context q" "set (bq_queue q') \<subseteq> set (bq_queue q)"
  shows "isolated date_parse (log @ later) q'"
  using assms subsetD [OF assms(5)] unfolding isolated_def by (auto intro!: recorded_here_mono given_here_mono)

lemma isolated_closed:
  assumes "isolated date_parse log q" "bq_generation q' = bq_generation q" "bq_resets q' = bq_resets q"
    and "bq_context q' = None" "bq_queue q' = []"
  shows "isolated date_parse (log @ later) q'"
  using assms by (auto simp: isolated_def)

lemma isolated_reset:
  assumes "isolated date_parse log q"
    and "bq_generation q' = Suc (bq_generation q)" "bq_resets q' = Suc (bq_generation q) # bq_resets q"
    and "bq_context q' = None" "bq_queue q' = []"
  shows "isolated date_parse (log @ later) q'"
  using assms by (fastforce simp: isolated_def)

lemma isolated_recorded:
  assumes "isolated date_parse log q"
  shows "isolated date_parse (log @ [(SignalRecorded now input, q, eff)]) (enqueue_signals date_parse now input q)"
proof (rule recorded_cases [of date_parse now input q])
  fix n
  assume n: "enqueue_signals date_parse now input q = count_lost n q"
  show ?thesis unfolding n by (rule isolated_kept [OF assms]) simp_all
next
  fix n
  assume some: "bq_context q \<noteq> None"
    and taken: "enqueue_signals date_parse now input q = take_item (item_of date_parse now input) (count_lost n q)"
  then obtain c where c: "bq_context q = Some c" by auto
  let ?log = "log @ [(SignalRecorded now input, q, eff)]"
  have "recorded_here date_parse ?log (bq_generation q) c (item_of date_parse now input)"
    using c by (auto simp: recorded_here_def)
  with assms c show ?thesis
    unfolding taken isolated_def by (auto simp: take_item_def intro: recorded_here_mono given_here_mono)
qed

lemma isolated_settled:
  assumes "isolated date_parse log q" "g \<in> set (bq_resets q)"
  shows "isolated date_parse (log @ [(ContextAnswered g outcome, q, eff)]) (reset_settle g outcome q)"
proof (cases "reset_failed outcome \<or> given_context outcome = None \<or> bq_generation q \<noteq> g")
  case True
  then have "bq_context (reset_settle g outcome q) = bq_context q" "bq_queue (reset_settle g outcome q) = bq_queue q"
    "bq_generation (reset_settle g outcome q) = bq_generation q" "bq_resets (reset_settle g outcome q) = remove1 g (bq_resets q)"
    by (auto simp: reset_settle_def Let_def)
  with assms(1) show ?thesis
    unfolding isolated_def by (auto dest: subsetD [OF set_remove1_subset] intro: recorded_here_mono given_here_mono)
next
  case False
  then obtain c where c: "given_context outcome = Some c" by auto
  with False have "bq_context (reset_settle g outcome q) = Some c" "bq_queue (reset_settle g outcome q) = bq_queue q"
    "bq_generation (reset_settle g outcome q) = g" "bq_resets (reset_settle g outcome q) = remove1 g (bq_resets q)"
    by (auto simp: reset_settle_def Let_def)
  moreover have "given_here (log @ [(ContextAnswered g outcome, q, eff)]) g c"
    using c by (auto simp: given_here_def)
  moreover have "bq_queue q = []" using assms False by (auto simp: isolated_def)
  ultimately show ?thesis
    using assms False by (auto simp: isolated_def dest: notin_set_remove1)
qed

lemma isolated_advanced:
  assumes "advanced date_parse relay now run q q' eff" "isolated date_parse log q"
  shows "isolated date_parse (log @ later) q'"
  using assms(1)
proof cases
  case begun_anew
  then show ?thesis by (intro isolated_reset [OF assms(2)]) simp_all
next
  case (ended q0)
  then show ?thesis by (intro isolated_kept [OF assms(2)]) auto
qed (auto intro!: isolated_kept [OF assms(2)])

lemma isolated_counted: "isolated date_parse log q \<Longrightarrow> bq_generation q' = bq_generation q \<Longrightarrow> bq_resets q' = bq_resets q
    \<Longrightarrow> bq_context q' = bq_context q \<Longrightarrow> bq_queue q' = bq_queue q \<Longrightarrow> isolated date_parse log q'"
  using isolated_kept [of date_parse log q q' "[]"] by simp

lemma isolated_step:
  assumes "isolated date_parse log q" "queue_step date_parse relay q ev eff q'"
  shows "isolated date_parse (log @ [(ev, q, eff)]) q'"
  using assms(2)
proof cases
  case (step_recorded now input)
  with isolated_recorded [OF assms(1)] show ?thesis by simp
next
  case (step_flushed now)
  show ?thesis
  proof (cases "bq_phase q = Resting")
    case True
    with step_flushed have "advanced date_parse relay now \<lparr>dn_generation = bq_generation q, dn_aborted = False\<rparr> q q' eff"
      by (auto simp: flush_queue_def intro: drain_advance_cases)
    from isolated_advanced [OF this assms(1)] show ?thesis .
  qed (use step_flushed isolated_kept [OF assms(1)] in \<open>auto simp: flush_queue_def\<close>)
next
  case (step_failed run items now)
  let ?q = "give_back items (count_lost (int (length items)) (count_error q))"
  from step_failed have "advanced date_parse relay now run ?q q' eff"
    by (auto simp: drain_rejected_def intro: drain_advance_cases)
  moreover have "isolated date_parse log ?q" by (rule isolated_counted [OF assms(1)]) simp_all
  ultimately show ?thesis by (rule isolated_advanced)
next
  case (step_unreleased run items now)
  let ?q = "give_back items (count_lost (int (length items)) (count_error q))"
  from step_unreleased have "advanced date_parse relay now run ?q q' eff"
    by (auto simp: drain_rejected_def intro: drain_advance_cases)
  moreover have "isolated date_parse log ?q" by (rule isolated_counted [OF assms(1)]) simp_all
  ultimately show ?thesis by (rule isolated_advanced)
next
  case (step_released run items now)
  then have "advanced date_parse relay now run (give_back items q) q' eff"
    by (auto simp: drain_released_def intro: drain_advance_cases)
  moreover have "isolated date_parse log (give_back items q)" by (rule isolated_counted [OF assms(1)]) simp_all
  ultimately show ?thesis by (rule isolated_advanced)
next
  case (step_answered run items st)
  show ?thesis
  proof (cases "dn_generation run = bq_generation q \<and> st = 409")
    case True
    with step_answered show ?thesis
      by (intro isolated_closed [OF assms(1)]) (simp_all add: drain_answered_def Let_def)
  next
    case False
    with step_answered show ?thesis
      by (intro isolated_kept [OF assms(1)]) (auto simp: drain_answered_def Let_def)
  qed
next
  case (step_context g outcome)
  with isolated_settled [OF assms(1)] show ?thesis by simp
next
  case step_reset
  then show ?thesis by (intro isolated_reset [OF assms(1)]) simp_all
qed (auto intro!: isolated_kept [OF assms(1)])

text \<open>A batch that is sent now: what it is made of.\<close>

definition posts_isolated :: "(string \<Rightarrow> int option) \<Rightarrow> queue_log \<Rightarrow> browser_queue \<Rightarrow> string \<Rightarrow> bool" where
  "posts_isolated date_parse log q body \<longleftrightarrow>
     (\<exists>c now items. bq_context q = Some c \<and> given_here log (bq_generation q) c \<and> items \<noteq> []
        \<and> (\<forall>item \<in> set items. recorded_here date_parse log (bq_generation q) c item)
        \<and> body = batch_wire c (carried date_parse now (fst (sanitize_faro_batch date_parse now (JObj []))) items)
        \<and> utf8_length body \<le> batch_bytes)"

lemma posts_isolated_advanced:
  assumes "advanced date_parse relay now run q q' (Requested req)" "fetch_body req = Some body" "isolated date_parse log q"
  shows "posts_isolated date_parse log q body"
  using assms(1)
proof cases
  case (batch_sent c taken rest b)
  let ?b = "carried date_parse now (fst (sanitize_faro_batch date_parse now (JObj []))) taken"
  have "given_here log (bq_generation q) c" "\<forall>item \<in> set taken. recorded_here date_parse log (bq_generation q) c item"
    using assms(3) batch_sent by (auto simp: isolated_def)
  moreover have "body = batch_wire c ?b" "utf8_length body \<le> batch_bytes"
    using assms(2) batch_sent by (auto simp: batch_request_def batch_fits_def)
  ultimately show ?thesis
    using batch_sent unfolding posts_isolated_def by blast
next
  case begun_anew
  with assms(2) show ?thesis by (simp add: context_request_def)
qed

lemma posts_isolated_step:
  assumes "isolated date_parse log q" "queue_step date_parse relay q ev (Requested req) q'" "fetch_body req = Some body"
  shows "posts_isolated date_parse log q body"
proof -
  have via: "posts_isolated date_parse log q body"
    if "advanced date_parse relay now run q1 q' (Requested req)" "bq_generation q1 = bq_generation q" "bq_resets q1 = bq_resets q"
      "bq_context q1 = bq_context q" "bq_queue q1 = bq_queue q" for now run q1
    using posts_isolated_advanced [OF that(1) assms(3) isolated_counted [OF assms(1) that(2-5)]] that
    by (simp add: posts_isolated_def)
  from assms(2) show ?thesis
  proof cases
    case (step_flushed now)
    then show ?thesis
      using via [OF drain_advance_cases] by (auto simp: flush_queue_def split: if_split_asm)
  next
    case (step_failed run items now)
    then show ?thesis using via [OF drain_advance_cases] by (auto simp: drain_rejected_def)
  next
    case (step_unreleased run items now)
    then show ?thesis using via [OF drain_advance_cases] by (auto simp: drain_rejected_def)
  next
    case (step_released run items now)
    then show ?thesis using via [OF drain_advance_cases] by (auto simp: drain_released_def)
  qed (use assms(3) in \<open>simp_all add: context_request_def\<close>)
qed

lemma posts_isolated_mono: "posts_isolated date_parse log q body \<Longrightarrow> posts_isolated date_parse (log @ later) q body"
  unfolding posts_isolated_def by (metis recorded_here_mono given_here_mono)

lemma queue_life_isolated:
  "queue_life date_parse relay log q \<Longrightarrow> isolated date_parse log q
    \<and> (\<forall>(ev, q0, eff) \<in> set log. \<forall>req body. eff = Requested req \<and> fetch_body req = Some body
         \<longrightarrow> posts_isolated date_parse log q0 body)"
proof (induction rule: queue_life.induct)
  case queue_start
  show ?case by (simp add: isolated_def create_browser_queue_def)
next
  case (queue_next log q ev eff q')
  then have iso: "isolated date_parse log q" by blast
  show ?case
    using isolated_step [OF iso queue_next(2)] posts_isolated_step [OF iso] queue_next
    by (fastforce intro: posts_isolated_mono)
qed

lemma stale_answer_leaves_context:
  assumes "dn_generation run \<noteq> bq_generation q"
  shows "bq_context (drain_answered run items st q) = bq_context q \<and> bq_queue (drain_answered run items st q) = bq_queue q
    \<and> bq_resets (drain_answered run items st q) = bq_resets q"
  using assms by (simp add: drain_answered_def Let_def)

subsection \<open>What the queue promises\<close>

text \<open>
  C25: What a page records under one context never leaves under another. Whatever the order in which
  signals, flushes, answers, deadlines, resets and the answers to resets come, a batch that is sent carries
  the context the relay gave for the generation the queue is in; every item in it was recorded in that
  generation and under that context; and the whole stays within a batch's size.
\<close>

theorem signals_stay_in_their_context:
  assumes "queue_life date_parse relay log q" "(ev, q0, Requested req) \<in> set log" "fetch_body req = Some body"
  shows "\<exists>c now items. bq_context q0 = Some c \<and> given_here log (bq_generation q0) c \<and> items \<noteq> []
    \<and> (\<forall>item \<in> set items. recorded_here date_parse log (bq_generation q0) c item)
    \<and> body = batch_wire c (carried date_parse now (fst (sanitize_faro_batch date_parse now (JObj []))) items)
    \<and> utf8_length body \<le> batch_bytes"
  using queue_life_isolated [OF assms(1)] assms(2,3) unfolding posts_isolated_def by blast

text \<open>A page that gets a context, records a log line and flushes.\<close>

definition demo_relay :: full_url where
  "demo_relay = (case new_url ''https://app.example/telemetry'' of Inr u \<Rightarrow> u | Inl e \<Rightarrow> undefined)"

definition demo_dates :: "string \<Rightarrow> int option" where "demo_dates s = Some 0"

definition demo_signal :: json where
  "demo_signal = JObj [(''logs'', JArr [JObj [(''message'', JStr ''page.opened'')]])]"

definition demo_answer :: "(bool \<times> string) option" where
  "demo_answer = Some (True, json_print (JObj [(''context'', JStr ''c1'')]))"

definition demo_ready :: browser_queue where "demo_ready = reset_settle 1 demo_answer (reset_begin create_browser_queue)"
definition demo_waiting :: browser_queue where "demo_waiting = enqueue_signals demo_dates 0 demo_signal demo_ready"

lemma demo_ready_state: "bq_context demo_ready = Some ''c1'' \<and> bq_generation demo_ready = 1 \<and> bq_queue demo_ready = []
    \<and> bq_phase demo_ready = Resting \<and> xs_queued_bytes (bq_stats demo_ready) = 0"
proof -
  have "json_parse (json_print (JObj [(''context'', JStr ''c1'')])) = Some (JObj [(''context'', JStr ''c1'')])"
    by (rule json_parse_print) simp
  then have "\<not> reset_failed demo_answer" "given_context demo_answer = Some ''c1''"
    by (simp_all add: reset_failed_def demo_answer_def given_context_def faro_object_def text_field_def max_events_def)
  then show ?thesis
    by (simp add: demo_ready_def reset_settle_def reset_begin_def clear_queue_def counters create_browser_queue_def abort_drain_def Let_def)
qed

definition demo_sanitized :: faro_batch where
  "demo_sanitized =
     \<lparr>fb_logs = [[(''message'', JStr ''page.opened''), (''level'', JStr ''info''),
        (''timestamp'', JStr ''1970-01-01T00:00:00.000Z''), (''context'', JObj []), (''trace'', JObj [])]],
      fb_exceptions = [], fb_measurements = [], fb_events = [], fb_traces = [(''resourceSpans'', JArr [])]\<rparr>"

lemma demo_sanitized_once: "sanitize_faro_batch demo_dates 0 demo_signal = (demo_sanitized, 0)"
  by code_simp

lemma demo_sanitized_again: "sanitize_faro_batch demo_dates 0 (faro_to_json demo_sanitized) = (demo_sanitized, 0)"
  by code_simp

lemma demo_parsed: "json_parse (json_print (faro_to_json demo_sanitized)) = Some (faro_to_json demo_sanitized)"
  by (rule json_parse_print) (simp add: faro_to_json_def demo_sanitized_def)

lemma demo_merged: "merge_batches (fst (sanitize_faro_batch demo_dates 0 (JObj []))) demo_sanitized = demo_sanitized"
  by code_simp

lemma demo_size: "utf8_length (json_print (faro_to_json demo_sanitized)) \<le> 200" "batch_fits ''c1'' demo_sanitized"
  by code_simp+

lemma demo_item: "qi_wire (item_of demo_dates 0 demo_signal) = json_print (faro_to_json demo_sanitized)"
    "qi_bytes (item_of demo_dates 0 demo_signal) \<le> 200"
  using demo_size by (simp_all add: item_of_def demo_sanitized_once Let_def)

lemma demo_waiting_state: "bq_queue demo_waiting = [item_of demo_dates 0 demo_signal] \<and> bq_context demo_waiting = Some ''c1''
    \<and> bq_generation demo_waiting = 1 \<and> bq_phase demo_waiting = Resting"
proof -
  have "faro_event_count demo_sanitized = 1" by (simp add: faro_event_count_def demo_sanitized_def faro_list_def json_items_def)
  then show ?thesis
    using demo_ready_state demo_item
    by (simp add: demo_waiting_def enqueue_signals_def demo_sanitized_once Let_def event_bytes_def browser_buffered_bytes_def)
qed

lemma demo_flush: "\<exists>q'. flush_queue demo_dates demo_relay 0 demo_waiting
    = (q', Requested (batch_request demo_relay (batch_wire ''c1'' demo_sanitized)))"
  using demo_waiting_state demo_size
  by (simp add: flush_queue_def drain_advance_def demo_item demo_parsed demo_sanitized_again demo_merged Let_def)

lemma signals_stay_in_their_context_witness:
  "\<exists>log q q0 body. queue_life demo_dates demo_relay log q
     \<and> (QueueFlushed 0, q0, Requested (batch_request demo_relay body)) \<in> set log
     \<and> utf8_length body \<le> 49152 \<and> given_here log 1 ''c1''"
proof -
  obtain q' where flushed: "flush_queue demo_dates demo_relay 0 demo_waiting
      = (q', Requested (batch_request demo_relay (batch_wire ''c1'' demo_sanitized)))"
    using demo_flush by blast
  let ?first = "[(ContextReset, create_browser_queue, Requested (context_request demo_relay))]"
  let ?second = "?first @ [(ContextAnswered 1 demo_answer, reset_begin create_browser_queue, Quiet)]"
  let ?third = "?second @ [(SignalRecorded 0 demo_signal, demo_ready, Quiet)]"
  let ?log = "?third @ [(QueueFlushed 0, demo_waiting, Requested (batch_request demo_relay (batch_wire ''c1'' demo_sanitized)))]"
  have "queue_life demo_dates demo_relay ([] @ ?first) (reset_begin create_browser_queue)"
    by (rule queue_next [OF queue_start step_reset])
  then have "queue_life demo_dates demo_relay ?second demo_ready"
    unfolding demo_ready_def append_Nil
    by (rule queue_next) (rule step_context, simp add: create_browser_queue_def)
  then have "queue_life demo_dates demo_relay ?third demo_waiting"
    unfolding demo_waiting_def by (rule queue_next) (rule step_recorded)
  then have life: "queue_life demo_dates demo_relay ?log q'"
    by (rule queue_next) (rule step_flushed [OF flushed])
  have entry: "(QueueFlushed 0, demo_waiting, Requested (batch_request demo_relay (batch_wire ''c1'' demo_sanitized))) \<in> set ?log"
    by simp
  have body: "fetch_body (batch_request demo_relay (batch_wire ''c1'' demo_sanitized)) = Some (batch_wire ''c1'' demo_sanitized)"
    by (simp add: batch_request_def)
  from signals_stay_in_their_context [OF life entry body] demo_waiting_state
  have "given_here ?log 1 ''c1'' \<and> utf8_length (batch_wire ''c1'' demo_sanitized) \<le> 49152"
    by (auto simp: batch_bytes_def)
  with life entry show ?thesis by blast
qed

text \<open>
  The page's queue stays within its budget. The bytes of all that waits or is on its way never
  exceed those the queue counts, and those never exceed a quarter of a mebibyte; nothing that waits is above
  one signal's bound; and the count is exact as long as no waiting text failed to parse.
\<close>

lemma browser_queue_keeps_budget:
  assumes "queue_life date_parse relay log q"
  shows "(\<forall>item \<in> set (in_hand q @ bq_queue q). utf8_length (qi_wire item) \<le> 8192)
    \<and> item_bytes (in_hand q @ bq_queue q) \<le> xs_queued_bytes (bq_stats q) \<and> xs_queued_bytes (bq_stats q) \<le> 262144
    \<and> (unbroken log \<longrightarrow> xs_queued_bytes (bq_stats q) = item_bytes (in_hand q @ bq_queue q))"
proof -
  have "queue_ok log q" by (rule queue_life_ok [OF assms])
  moreover have "utf8_length (qi_wire item) \<le> 8192" if "kept_item item" for item
    using that by (simp add: kept_item_def event_bytes_def)
  ultimately show ?thesis by (auto simp: queue_ok_def browser_buffered_bytes_def spare_def)
qed

lemma browser_queue_keeps_budget_witness:
  "\<exists>log. queue_life demo_dates demo_relay log demo_waiting
     \<and> item_bytes (bq_queue demo_waiting) \<le> 262144 \<and> bq_queue demo_waiting \<noteq> []"
proof -
  have life: "queue_life demo_dates demo_relay
      ((([] @ [(ContextReset, create_browser_queue, Requested (context_request demo_relay))])
        @ [(ContextAnswered 1 demo_answer, reset_begin create_browser_queue, Quiet)])
        @ [(SignalRecorded 0 demo_signal, demo_ready, Quiet)]) demo_waiting"
    unfolding demo_waiting_def demo_ready_def
    by (intro queue_next [OF _ step_recorded] queue_next [OF _ step_context] queue_next [OF queue_start step_reset])
      (simp add: create_browser_queue_def)
  have "in_hand demo_waiting = []" using demo_waiting_state by (simp add: in_hand_def)
  with browser_queue_keeps_budget [OF life] demo_waiting_state have "item_bytes (bq_queue demo_waiting) \<le> 262144" by simp
  with life demo_waiting_state show ?thesis by auto
qed

end
