(* ===== verification/ServerTelemetry.thy ===== *)
theory ServerTelemetry
  imports Relay Exporter
begin

section \<open>A server's own telemetry (\<open>packages/telemetry/src/server.ts\<close>, \<open>crash.ts\<close>)\<close>

text \<open>
  Spans, log lines and captured errors of a host, handed to the exporter. The variables of
  \<open>initializeTelemetry\<close> are a cell of the state; the asynchronous context is an argument (\<open>active\<close>), as a
  callback sees the store its caller ran it under, and the \<open>failed\<close> mark of a span is part of what the
  operation returns. The identity of a thrown object and the reading of the high resolution clock belong to
  the surroundings.
\<close>

subsection \<open>State\<close>

record span_context =
  sc_trace_id :: string
  sc_span_id :: string

record telemetry_core =
  tm_exporter :: exporter
  tm_captured :: "nat list"
  tm_capturing :: "nat option"

record 's telemetry_host =
  th_platform :: "'s platform"
  th_log :: "'s log_host"
  th_identity :: "thrown \<Rightarrow> nat option"
  th_elapsed :: "'s \<Rightarrow> 's \<Rightarrow> json"

definition create_telemetry_core :: telemetry_core where
  "create_telemetry_core = \<lparr>tm_exporter = create_exporter, tm_captured = [], tm_capturing = None\<rparr>"

definition span_error :: int where "span_error = 2"
definition span_ok :: int where "span_ok = 1"
definition server_error_status :: nat where "server_error_status = 500"

subsection \<open>The wire form\<close>

fun attribute_value :: "json \<Rightarrow> json" where
  "attribute_value (JNum i) = JObj [(''doubleValue'', JNum i)]"
| "attribute_value (JDec m k) = JObj [(''doubleValue'', JDec m k)]"
| "attribute_value (JBool b) = JObj [(''boolValue'', JBool b)]"
| "attribute_value v = JObj [(''stringValue'', JStr (json_text v))]"

definition span_attributes :: "(string \<times> json) list \<Rightarrow> json" where
  "span_attributes values = JArr (map (\<lambda>(key, v). JObj [(''key'', JStr key), (''value'', attribute_value v)]) values)"

definition timestamp_of :: "int \<Rightarrow> string" where
  "timestamp_of now = int_to_string (now * 1000000)"

definition resource_json :: "telemetry_config \<Rightarrow> json" where
  "resource_json config =
     JObj [(''attributes'', span_attributes [(''deployment.environment.name'', JStr (tc_environment config)),
                                           (''service.version'', JStr (tc_release config))])]"

definition wallow_scope :: "string \<times> json" where
  "wallow_scope = (''scope'', JObj [(''name'', JStr ''wallow.telemetry'')])"

primrec severity_number :: "log_level \<Rightarrow> int" where
  "severity_number LevelDebug = 5"
| "severity_number LevelInfo = 9"
| "severity_number LevelWarn = 13"
| "severity_number LevelError = 17"

definition span_ids :: "span_context option \<Rightarrow> (string \<times> json) list" where
  "span_ids active =
     (case active of None \<Rightarrow> [] | Some sc \<Rightarrow> [(''traceId'', JStr (sc_trace_id sc)), (''spanId'', JStr (sc_span_id sc))])"

definition log_line :: "span_context option \<Rightarrow> int \<Rightarrow> server_log_record \<Rightarrow> json" where
  "log_line active now r =
     JObj ([(''timeUnixNano'', JStr (timestamp_of now)), (''severityText'', JStr (to_upper (level_text (sr_level r)))),
            (''severityNumber'', JNum (severity_number (sr_level r))), (''body'', JObj [(''stringValue'', JStr (sr_event r))]),
            (''attributes'', span_attributes (sanitize_attributes (JObj (sr_attrs r))))] @ span_ids active)"

definition logs_payload :: "telemetry_config \<Rightarrow> json list \<Rightarrow> json" where
  "logs_payload config lines =
     JObj [(''resourceLogs'', JArr [JObj [(''resource'', resource_json config),
       (''scopeLogs'', JArr [JObj [wallow_scope, (''logRecords'', JArr lines)]])]])]"

definition metrics_payload :: "telemetry_config \<Rightarrow> int \<Rightarrow> json \<Rightarrow> json" where
  "metrics_payload config now elapsed =
     JObj [(''resourceMetrics'', JArr [JObj [(''resource'', resource_json config),
       (''scopeMetrics'', JArr [JObj [(''metrics'', JArr [JObj [(''name'', JStr ''wallow.request.duration''), (''unit'', JStr ''ms''),
         (''gauge'', JObj [(''dataPoints'', JArr [JObj [(''timeUnixNano'', JStr (timestamp_of now)), (''asDouble'', elapsed)]])])]])]])]])]"

definition span_json :: "span_context option \<Rightarrow> span_context \<Rightarrow> string \<Rightarrow> int \<Rightarrow> int \<Rightarrow> bool \<Rightarrow> json" where
  "span_json ancestor span name started ended failed =
     JObj ([(''traceId'', JStr (sc_trace_id span)), (''spanId'', JStr (sc_span_id span))]
       @ opt_member ''parentSpanId'' (map_option (\<lambda>a. JStr (sc_span_id a)) ancestor)
       @ [(''name'', JStr (if is_identifier name then name else ''request'')), (''kind'', JNum 2),
          (''startTimeUnixNano'', JStr (timestamp_of started)), (''endTimeUnixNano'', JStr (timestamp_of ended)),
          (''status'', JObj [(''code'', JNum (if failed then span_error else span_ok))])])"

definition traces_payload :: "telemetry_config \<Rightarrow> json \<Rightarrow> json" where
  "traces_payload config span =
     JObj [(''resourceSpans'', JArr [JObj [(''resource'', resource_json config),
       (''scopeSpans'', JArr [JObj [wallow_scope, (''spans'', JArr [span])]])]])]"

subsection \<open>The context on the wire\<close>

definition all_zero :: "string \<Rightarrow> bool" where
  "all_zero s \<longleftrightarrow> s \<noteq> '''' \<and> list_all (\<lambda>c. c = CHR ''0'') s"

definition parent_context :: "string option \<Rightarrow> span_context option" where
  "parent_context header =
     (case split_char (CHR ''-'') (case header of Some h \<Rightarrow> h | None \<Rightarrow> '''') of
        [ver, t, s, flags] \<Rightarrow>
          if ver = ''00'' \<and> is_hex 32 t \<and> is_hex 16 s \<and> (flags = ''00'' \<or> flags = ''01'') \<and> \<not> all_zero t \<and> \<not> all_zero s
          then Some \<lparr>sc_trace_id = t, sc_span_id = s\<rparr> else None
      | _ \<Rightarrow> None)"

definition traceparent_of :: "span_context \<Rightarrow> string" where
  "traceparent_of sc = ''00-'' @ sc_trace_id sc @ ''-'' @ sc_span_id sc @ ''-01''"

subsection \<open>Log lines and captured errors\<close>

definition export_signal ::
    "('s, telemetry_core) cell \<Rightarrow> signal \<Rightarrow> json \<Rightarrow> nat option \<Rightarrow> ('s, unit) io" where
  "export_signal cell sig payload on_exported =
     cell_modify cell (\<lambda>tm. tm\<lparr>tm_exporter := enqueue (tm_exporter tm) sig (Some (json_print payload)) on_exported\<rparr>)"

text \<open>The sink of the logger: the record's lines, and the object that is being captured, if any.\<close>

definition telemetry_sink ::
    "'s telemetry_host \<Rightarrow> ('s, telemetry_core) cell \<Rightarrow> telemetry_config \<Rightarrow> span_context option \<Rightarrow> 's log_sink" where
  "telemetry_sink th cell config active records =
     io_bind (io_gets (\<lambda>s. (pl_now (th_platform th) s, tm_capturing (cell_get cell s)))) (\<lambda>(now, capturing).
     io_bind (export_signal cell SignalLogs (logs_payload config (map (log_line active now) records)) capturing) (\<lambda>_.
     io_return (io_return ())))"

definition core_logger_options ::
    "'s telemetry_host \<Rightarrow> ('s, telemetry_core) cell \<Rightarrow> telemetry_config \<Rightarrow> span_context option \<Rightarrow> 's server_logger_options" where
  "core_logger_options th cell config active =
     \<lparr>sl_service = ''registered-server'', sl_level = None, sl_otlp_endpoint = None, sl_attrs = None, sl_redact = None,
      sl_sink = Some (telemetry_sink th cell config active), sl_console = Some False\<rparr>"

definition event_name_ok :: "string \<Rightarrow> bool" where
  "event_name_ok s \<longleftrightarrow>
     next_is (\<lambda>c. 97 \<le> code c \<and> code c \<le> 122) s \<and> length s \<le> 128
     \<and> list_all (\<lambda>c. 97 \<le> code c \<and> code c \<le> 122 \<or> is_digit c \<or> c \<in> {CHR ''_'', CHR ''.'', CHR ''-''}) s"

definition emit_log ::
    "'s telemetry_host \<Rightarrow> ('s, telemetry_core) cell \<Rightarrow> telemetry_config \<Rightarrow> span_context option \<Rightarrow> (string \<times> json) list
      \<Rightarrow> log_level \<Rightarrow> string \<Rightarrow> (string \<times> json) list \<Rightarrow> thrown option \<Rightarrow> ('s, unit) io" where
  "emit_log th cell config active base level event attrs error =
     (if \<not> event_name_ok event then io_return ()
      else
        io_catch
          (let values = sanitize_attributes (JObj (obj_spread base attrs)) in
           create_server_logger (th_log th) (core_logger_options th cell config active) level event
             (Some (case error of None \<Rightarrow> values | Some e \<Rightarrow> obj_spread values (sanitize_exception (lh_stack (th_log th)) e))) None)
          (\<lambda>_. io_return ()))"

definition capture_exception ::
    "'s telemetry_host \<Rightarrow> ('s, telemetry_core) cell \<Rightarrow> telemetry_config \<Rightarrow> span_context option \<Rightarrow> thrown \<Rightarrow> bool \<Rightarrow> ('s, unit) io" where
  "capture_exception th cell config active error expected =
     (let i = th_identity th error in
      io_bind (io_gets (\<lambda>s. case i of Some n \<Rightarrow> n \<in> set (tm_captured (cell_get cell s)) | None \<Rightarrow> False)) (\<lambda>seen.
      if seen then io_return ()
      else
        io_bind (cell_modify cell (\<lambda>tm. tm\<lparr>tm_captured := (case i of Some n \<Rightarrow> n # tm_captured tm | None \<Rightarrow> tm_captured tm),
                                            tm_capturing := i\<rparr>)) (\<lambda>_.
        io_bind (if expected then emit_log th cell config active [] LevelWarn ''exception.handled'' [] (Some error)
                 else emit_log th cell config active [] LevelError ''exception.unexpected'' [] (Some error)) (\<lambda>_.
        cell_modify cell (\<lambda>tm. tm\<lparr>tm_capturing := None\<rparr>)))))"

subsection \<open>Spans\<close>

text \<open>
  \<open>trace\<close>: the identities are drawn, the operation runs under the new span and returns its value and
  whether it has marked the span as failed, and whatever it does the duration and the span are exported.
\<close>

definition report_span ::
    "'s telemetry_host \<Rightarrow> ('s, telemetry_core) cell \<Rightarrow> telemetry_config \<Rightarrow> span_context option \<Rightarrow> span_context \<Rightarrow> string
      \<Rightarrow> int \<Rightarrow> 's \<Rightarrow> bool \<Rightarrow> ('s, unit) io" where
  "report_span th cell config ancestor span name started start failed =
     io_bind (io_gets (\<lambda>s. (pl_now (th_platform th) s, th_elapsed th start s))) (\<lambda>(now, elapsed).
     io_bind (export_signal cell SignalMetrics (metrics_payload config now elapsed) None) (\<lambda>_.
     io_bind (io_gets (pl_now (th_platform th))) (\<lambda>ended.
     export_signal cell SignalTraces (traces_payload config (span_json ancestor span name started ended failed)) None)))"

definition run_span ::
    "'s telemetry_host \<Rightarrow> ('s, telemetry_core) cell \<Rightarrow> telemetry_config \<Rightarrow> span_context option \<Rightarrow> string
      \<Rightarrow> (span_context \<Rightarrow> ('s, 'a \<times> bool) io) \<Rightarrow> span_context \<Rightarrow> ('s, 'a) io" where
  "run_span th cell config ancestor name operation span =
     (\<lambda>s. case operation span s of
        (Inr (a, failed), s1) \<Rightarrow>
          (Inr a, snd (report_span th cell config ancestor span name (pl_now (th_platform th) s) s failed s1))
      | (Inl e, s1) \<Rightarrow>
          (Inl e, snd (report_span th cell config ancestor span name (pl_now (th_platform th) s) s True
            (snd (capture_exception th cell config (Some span) e False s1)))))"

definition trace_operation ::
    "'s telemetry_host \<Rightarrow> ('s, telemetry_core) cell \<Rightarrow> telemetry_config \<Rightarrow> span_context option \<Rightarrow> string
      \<Rightarrow> (span_context \<Rightarrow> ('s, 'a \<times> bool) io) \<Rightarrow> span_context option \<Rightarrow> ('s, 'a) io" where
  "trace_operation th cell config active name operation incoming =
     (let ancestor = (case incoming of Some p \<Rightarrow> Some p | None \<Rightarrow> active) in
      io_bind (case ancestor of
                 Some p \<Rightarrow> io_return (sc_trace_id p)
               | None \<Rightarrow> io_bind (io_lift (pl_random (th_platform th) trace_bytes)) (\<lambda>bytes. io_return (bytes_hex bytes))) (\<lambda>t.
      io_bind (io_lift (pl_random (th_platform th) span_bytes)) (\<lambda>bytes.
      run_span th cell config ancestor name operation \<lparr>sc_trace_id = t, sc_span_id = bytes_hex bytes\<rparr>)))"

definition route_name :: "string \<Rightarrow> string" where
  "route_name route = take identity_length (map (\<lambda>c. if identifier_char c then c else CHR ''.'') route)"

text \<open>\<open>instrument\<close>: a handler under a span that continues the caller's trace; an answer of a failure marks it.\<close>

definition instrument ::
    "'s telemetry_host \<Rightarrow> ('s, telemetry_core) cell \<Rightarrow> telemetry_config \<Rightarrow> span_context option
      \<Rightarrow> (span_context \<Rightarrow> request \<Rightarrow> ('s, response) io) \<Rightarrow> string \<Rightarrow> request \<Rightarrow> ('s, response) io" where
  "instrument th cell config active handler route req =
     trace_operation th cell config active (route_name route)
       (\<lambda>span. io_bind (handler span req) (\<lambda>r.
          if status r \<ge> server_error_status
          then io_bind (emit_log th cell config (Some span) [] LevelError ''request.failed''
                 [(''http.response.status_code'', JNum (int (status r)))] None) (\<lambda>_. io_return (r, True))
          else io_return (r, False)))
       (parent_context (h_get (req_headers req) ''traceparent''))"

definition telemetry_fetch ::
    "'s telemetry_host \<Rightarrow> string list \<Rightarrow> span_context option \<Rightarrow> out_request \<Rightarrow> replay_body option \<Rightarrow> ('s, response) io" where
  "telemetry_fetch th owned_origins active req replay =
     fetch_with_context (th_platform th) owned_origins (map_option traceparent_of active) max_redirects req replay"

subsection \<open>A crash (\<open>crash.ts\<close>)\<close>

text \<open>
  What the child process of a dying server sends, unless the error has already been delivered. Both values
  of \<open>sanitizeException\<close> are texts.
\<close>

definition crash_payload :: "int \<Rightarrow> (string \<times> json) list \<Rightarrow> json" where
  "crash_payload now scrubbed_error =
     JObj [(''resourceLogs'', JArr [JObj [(''scopeLogs'', JArr [JObj [(''logRecords'', JArr [JObj
       [(''timeUnixNano'', JStr (timestamp_of now)), (''severityNumber'', JNum 17), (''severityText'', JStr ''ERROR''),
        (''body'', JObj [(''stringValue'', JStr ''exception.unexpected'')]),
        (''attributes'', JArr (map (\<lambda>(key, v). JObj [(''key'', JStr key), (''value'', JObj [(''stringValue'', JStr (js_text v))])])
           scrubbed_error))]])]])]])]"

definition monitor_crash ::
    "'s telemetry_host \<Rightarrow> exporter_options \<Rightarrow> nat list \<Rightarrow> int \<Rightarrow> thrown \<Rightarrow> fetch_request option" where
  "monitor_crash th options delivered now error =
     (if (case th_identity th error of Some n \<Rightarrow> n \<in> set delivered | None \<Rightarrow> False) then None
      else Some (export_request options
        \<lparr>xi_signal = SignalLogs, xi_body = json_print (crash_payload now (sanitize_exception (lh_stack (th_log th)) error)),
         xi_bytes = 0, xi_on_exported = None\<rparr>))"

definition telemetry_exporter_options :: "telemetry_config \<Rightarrow> exporter_options" where
  "telemetry_exporter_options config =
     \<lparr>eo_endpoint = (let href = url_href (tc_destination config) in if ends_with href ''/'' then butlast href else href),
      eo_credential = tc_credential config, eo_environment = tc_environment config, eo_release = tc_release config\<rparr>"

subsection \<open>Lemmas: the context crosses the wire\<close>

definition ids_ok :: "span_context \<Rightarrow> bool" where
  "ids_ok sc \<longleftrightarrow> is_hex 32 (sc_trace_id sc) \<and> is_hex 16 (sc_span_id sc) \<and> \<not> all_zero (sc_trace_id sc) \<and> \<not> all_zero (sc_span_id sc)"

lemma hex_no_dash: "is_hex n s \<Longrightarrow> CHR ''-'' \<notin> set s"
  by (auto simp: is_hex_def list_all_iff lower_hex_char_def is_digit_def)

lemma split_char_single: "split_char x s = [p] \<Longrightarrow> p = s"
  using js_join_split [of x s] by (simp add: js_join_singleton)

lemma split_traceparent:
  "split_char (CHR ''-'') (traceparent_of sc)
    = ''00'' # split_char (CHR ''-'') (sc_trace_id sc) @ split_char (CHR ''-'') (sc_span_id sc) @ [''01'']"
proof -
  have "traceparent_of sc = ''00'' @ CHR ''-'' # (sc_trace_id sc @ CHR ''-'' # (sc_span_id sc @ CHR ''-'' # ''01''))"
    by (simp add: traceparent_of_def)
  then show ?thesis by (simp only: split_char_append_sep) (simp add: split_char_notin)
qed

lemma traceparent_crosses_wire: "parent_context (Some (traceparent_of sc)) = (if ids_ok sc then Some sc else None)"
proof (cases "length (split_char (CHR ''-'') (sc_trace_id sc)) = 1 \<and> length (split_char (CHR ''-'') (sc_span_id sc)) = 1")
  case True
  then obtain t s where "split_char (CHR ''-'') (sc_trace_id sc) = [t]" "split_char (CHR ''-'') (sc_span_id sc) = [s]"
    by (auto simp: length_Suc_conv)
  with split_char_single have "split_char (CHR ''-'') (traceparent_of sc) = [''00'', sc_trace_id sc, sc_span_id sc, ''01'']"
    by (simp add: split_traceparent)
  then show ?thesis by (auto simp: parent_context_def ids_ok_def)
next
  case False
  have "1 \<le> length (split_char (CHR ''-'') v)" for v by (simp add: Suc_le_eq)
  then have "1 \<le> length (split_char (CHR ''-'') (sc_trace_id sc))" "1 \<le> length (split_char (CHR ''-'') (sc_span_id sc))"
    by blast+
  moreover have "length (split_char (CHR ''-'') (traceparent_of sc))
      = 2 + length (split_char (CHR ''-'') (sc_trace_id sc)) + length (split_char (CHR ''-'') (sc_span_id sc))"
    by (simp add: split_traceparent)
  ultimately have "length (split_char (CHR ''-'') (traceparent_of sc)) \<noteq> 4"
    using False by arith
  then have "parent_context (Some (traceparent_of sc)) = None"
    by (auto simp: parent_context_def split: list.splits)
  moreover have "\<not> ids_ok sc"
    using False split_char_notin [OF hex_no_dash] by (auto simp: ids_ok_def)
  ultimately show ?thesis by simp
qed

subsection \<open>Lemmas: telemetry leaves the operation alone\<close>

lemma cell_modify_apply [io_simps]: "cell_modify c f s = (Inr (), cell_put c (f (cell_get c s)) s)"
  by (simp add: cell_modify_def io_simps)

lemma export_signal_apply [io_simps]:
  "export_signal cell sig payload d s
    = (Inr (), cell_put cell ((cell_get cell s)\<lparr>tm_exporter := enqueue (tm_exporter (cell_get cell s)) sig (Some (json_print payload)) d\<rparr>) s)"
  by (simp add: export_signal_def cell_modify_apply)

text \<open>A log line either leaves the state, or adds one record to the exporter.\<close>

lemma emit_log_cases:
  obtains "emit_log th cell config active base level event attrs error s = (Inr (), s)"
  | payload where "emit_log th cell config active base level event attrs error s
      = (Inr (), snd (export_signal cell SignalLogs payload (tm_capturing (cell_get cell s)) s))"
proof (cases "event_name_ok event \<and> is_at_least level LevelInfo")
  case True
  show thesis
  proof (cases "to_iso_string (lh_now (th_log th) s)")
    case (Inl e)
    with True that(1) show thesis
      by (simp add: emit_log_def create_server_logger_def server_log_at_def core_logger_options_def Let_def io_catch_def io_bind_def io_simps)
  next
    case (Inr t)
    with True that(2) show thesis
      by (simp add: emit_log_def create_server_logger_def server_log_at_def core_logger_options_def server_sink_def telemetry_sink_def
          Let_def io_catch_def io_bind_def io_simps)
  qed
next
  case False
  with that(1) show thesis
    by (auto simp: emit_log_def create_server_logger_def server_log_at_def core_logger_options_def Let_def io_catch_def io_simps)
qed

lemma emit_log_returns: "fst (emit_log th cell config active base level event attrs error s) = Inr ()"
  by (rule emit_log_cases [of th cell config active base level event attrs error s]) simp_all

text \<open>The state an operation begins in: the identities have been drawn.\<close>

definition drawn :: "'s telemetry_host \<Rightarrow> span_context option \<Rightarrow> 's \<Rightarrow> 's" where
  "drawn th ancestor s =
     snd (pl_random (th_platform th) span_bytes
       (case ancestor of Some p \<Rightarrow> s | None \<Rightarrow> snd (pl_random (th_platform th) trace_bytes s)))"

definition after_operation ::
    "'s telemetry_host \<Rightarrow> ('s, telemetry_core) cell \<Rightarrow> telemetry_config \<Rightarrow> span_context \<Rightarrow> (thrown + 'a) \<times> 's \<Rightarrow> 's" where
  "after_operation th cell config span outcome =
     (case fst outcome of
        Inr a \<Rightarrow> snd outcome
      | Inl e \<Rightarrow> snd (capture_exception th cell config (Some span) e False (snd outcome)))"

lemma report_span_exports:
  assumes "cell_ok cell"
  shows "\<exists>ended measure. tm_exporter (cell_get cell (snd (report_span th cell config ancestor span name started start failed s)))
    = enqueue (enqueue (tm_exporter (cell_get cell s)) SignalMetrics (Some measure) None) SignalTraces (Some (json_print (traces_payload config (span_json ancestor span name started ended failed)))) None"
  using assms by (auto simp: report_span_def io_bind_def io_simps cell_ok_def)

lemma run_span_exports:
  assumes "cell_ok cell"
  shows "\<exists>started ended measure.
      fst (run_span th cell config ancestor name operation span s0) = map_sum id fst (fst (operation span s0))
      \<and> tm_exporter (cell_get cell (snd (run_span th cell config ancestor name operation span s0)))
        = enqueue (enqueue (tm_exporter (cell_get cell (after_operation th cell config span (operation span s0))))
            SignalMetrics (Some measure) None) SignalTraces (Some (json_print (traces_payload config
            (span_json ancestor span name started ended
              (case fst (operation span s0) of Inl e \<Rightarrow> True | Inr (a, failed) \<Rightarrow> failed))))) None"
proof (cases "operation span s0")
  case (Pair r s1)
  show ?thesis
  proof (cases r)
    case (Inl e)
    with Pair report_span_exports [OF assms, of th config ancestor span name "pl_now (th_platform th) s0" s0 True
        "snd (capture_exception th cell config (Some span) e False s1)"]
    show ?thesis by (auto simp: run_span_def after_operation_def)
  next
    case (Inr a)
    with Pair report_span_exports [OF assms, of th config ancestor span name "pl_now (th_platform th) s0" s0 "snd a" s1]
    show ?thesis by (cases a) (auto simp: run_span_def after_operation_def)
  qed
qed

lemma trace_operation_runs:
  assumes "ancestor = (case incoming of Some p \<Rightarrow> Some p | None \<Rightarrow> active)"
  obtains span where
    "trace_operation th cell config active name operation incoming s
      = run_span th cell config ancestor name operation span (drawn th ancestor s)"
    "\<forall>p. ancestor = Some p \<longrightarrow> sc_trace_id span = sc_trace_id p"
proof (cases ancestor)
  case None
  with that show thesis
    by (simp add: trace_operation_def drawn_def Let_def io_bind_def io_simps flip: assms)
next
  case (Some p)
  with that show thesis
    by (simp add: trace_operation_def drawn_def Let_def io_bind_def io_simps flip: assms)
qed

subsection \<open>Lemmas: an error is told of once\<close>

lemma emit_log_keeps:
  assumes "cell_ok cell"
  shows "tm_captured (cell_get cell (snd (emit_log th cell config active base level event attrs error s))) = tm_captured (cell_get cell s)"
  by (rule emit_log_cases [of th cell config active base level event attrs error s])
    (use assms in \<open>simp_all add: io_simps cell_ok_def\<close>)

lemma capture_again:
  "th_identity th error = Some n \<Longrightarrow> n \<in> set (tm_captured (cell_get cell s))
    \<Longrightarrow> capture_exception th cell config active error expected s = (Inr (), s)"
  by (simp add: capture_exception_def Let_def io_bind_def io_simps)

lemma capture_exception_notes:
  assumes "cell_ok cell" "th_identity th error = Some n"
  shows "n \<in> set (tm_captured (cell_get cell (snd (capture_exception th cell config active error expected s))))"
proof (cases "n \<in> set (tm_captured (cell_get cell s))")
  case True
  with assms(2) show ?thesis by (simp add: capture_again)
next
  case False
  let ?s1 = "cell_put cell ((cell_get cell s)\<lparr>tm_captured := n # tm_captured (cell_get cell s), tm_capturing := Some n\<rparr>) s"
  let ?log = "if expected then emit_log th cell config active [] LevelWarn ''exception.handled'' [] (Some error)
    else emit_log th cell config active [] LevelError ''exception.unexpected'' [] (Some error)"
  obtain s2 where s2: "?log ?s1 = (Inr (), s2)"
  proof -
    have "fst (?log ?s1) = Inr ()" by (cases expected) (simp_all add: emit_log_returns)
    then show thesis using that by (metis prod.collapse)
  qed
  have "tm_captured (cell_get cell s2) = n # tm_captured (cell_get cell s)"
  proof -
    have "tm_captured (cell_get cell (snd (?log ?s1))) = tm_captured (cell_get cell ?s1)"
      by (cases expected) (simp_all only: if_True if_False emit_log_keeps [OF assms(1)])
    then show ?thesis using s2 assms(1) by (simp add: cell_ok_def)
  qed
  moreover have "snd (capture_exception th cell config active error expected s)
      = cell_put cell ((cell_get cell s2)\<lparr>tm_capturing := None\<rparr>) s2"
    using False s2 assms(2) by (simp add: capture_exception_def Let_def io_bind_def io_simps)
  ultimately show ?thesis using assms(1) by (simp add: cell_ok_def)
qed

text \<open>An object is captured at most once: capturing it again changes nothing.\<close>

lemma captured_once:
  assumes "cell_ok cell" "th_identity th error = Some n"
  shows "capture_exception th cell config active' error expected' (snd (capture_exception th cell config active error expected s))
    = (Inr (), snd (capture_exception th cell config active error expected s))"
  using capture_exception_notes [OF assms] assms(2) by (intro capture_again)

text \<open>A crash does not report what an answered request has already delivered.\<close>

lemma delivered_not_reported:
  assumes "xi_on_exported item = Some n" "th_identity th error = Some n"
  shows "monitor_crash th options (ex_delivered (drain_settle ex item (Some True))) now error = None"
  using assms by (simp add: monitor_crash_def drain_settle_def Let_def)

subsection \<open>Lemmas: the observed handler\<close>

definition observed ::
    "'s telemetry_host \<Rightarrow> ('s, telemetry_core) cell \<Rightarrow> telemetry_config \<Rightarrow> (span_context \<Rightarrow> request \<Rightarrow> ('s, response) io)
      \<Rightarrow> request \<Rightarrow> span_context \<Rightarrow> ('s, response \<times> bool) io" where
  "observed th cell config handler req =
     (\<lambda>span. io_bind (handler span req) (\<lambda>r.
        if status r \<ge> server_error_status
        then io_bind (emit_log th cell config (Some span) [] LevelError ''request.failed''
               [(''http.response.status_code'', JNum (int (status r)))] None) (\<lambda>_. io_return (r, True))
        else io_return (r, False)))"

lemma observed_outcome:
  "map_sum id fst (fst (observed th cell config handler req span s0)) = fst (handler span req s0)
    \<and> (case fst (observed th cell config handler req span s0) of Inl e \<Rightarrow> True | Inr (a, failed) \<Rightarrow> failed)
      = (case fst (handler span req s0) of Inl e \<Rightarrow> True | Inr r \<Rightarrow> 500 \<le> status r)
    \<and> (\<forall>r. fst (handler span req s0) = Inr r \<and> status r < 500
         \<longrightarrow> after_operation th cell config span (observed th cell config handler req span s0) = snd (handler span req s0))"
proof (cases "handler span req s0")
  case (Pair r s1)
  show ?thesis
  proof (cases r)
    case (Inr a)
    obtain s2 where "emit_log th cell config (Some span) [] LevelError ''request.failed''
        [(''http.response.status_code'', JNum (int (status a)))] None s1 = (Inr (), s2)"
      using emit_log_returns by (metis prod.collapse)
    with Pair Inr show ?thesis
      by (simp add: observed_def after_operation_def io_bind_def io_simps server_error_status_def)
  qed (use Pair in \<open>simp add: observed_def io_bind_def\<close>)
qed

subsection \<open>What the instrumentation promises\<close>

text \<open>
  Instrumentation only observes. An instrumented handler answers, or throws, exactly what the
  handler does once the identities are drawn, whatever the logger and the exporter make of it. The handler
  runs under a span of the caller's trace when the request carries a context; and when it has ended, one
  measure and one span go to the exporter: the span with the caller's as its parent, the route's name, and the
  status of a failure exactly if the handler threw or answered with one. An answer that is no failure
  leaves nothing else there.
\<close>

lemma instrument_only_observes:
  assumes "cell_ok cell" "ancestor = (case parent_context (h_get (req_headers req) ''traceparent'') of Some p \<Rightarrow> Some p | None \<Rightarrow> active)"
  shows "\<exists>span started ended measure ex.
      fst (instrument th cell config active handler route req s) = fst (handler span req (drawn th ancestor s))
      \<and> (\<forall>caller. h_get (req_headers req) ''traceparent'' = Some (traceparent_of caller) \<and> ids_ok caller
           \<longrightarrow> sc_trace_id span = sc_trace_id caller)
      \<and> tm_exporter (cell_get cell (snd (instrument th cell config active handler route req s)))
        = enqueue (enqueue ex SignalMetrics (Some measure) None) SignalTraces (Some (json_print (traces_payload config
            (span_json ancestor span (route_name route) started ended
              (case fst (handler span req (drawn th ancestor s)) of Inl e \<Rightarrow> True | Inr r \<Rightarrow> 500 \<le> status r))))) None
      \<and> (\<forall>r. fst (handler span req (drawn th ancestor s)) = Inr r \<and> status r < 500
           \<longrightarrow> ex = tm_exporter (cell_get cell (snd (handler span req (drawn th ancestor s)))))"
proof -
  let ?parent = "parent_context (h_get (req_headers req) ''traceparent'')"
  obtain span where run: "instrument th cell config active handler route req s
      = run_span th cell config ancestor (route_name route) (observed th cell config handler req) span (drawn th ancestor s)"
    "\<forall>p. ancestor = Some p \<longrightarrow> sc_trace_id span = sc_trace_id p"
    unfolding instrument_def observed_def by (rule trace_operation_runs [OF assms(2)])
  have "sc_trace_id span = sc_trace_id caller"
    if "h_get (req_headers req) ''traceparent'' = Some (traceparent_of caller) \<and> ids_ok caller" for caller
    using that run(2) by (simp add: traceparent_crosses_wire assms(2))
  moreover obtain started ended measure where
    "fst (instrument th cell config active handler route req s) = fst (handler span req (drawn th ancestor s))"
    "tm_exporter (cell_get cell (snd (instrument th cell config active handler route req s)))
      = enqueue (enqueue (tm_exporter (cell_get cell (after_operation th cell config span
            (observed th cell config handler req span (drawn th ancestor s))))) SignalMetrics (Some measure) None)
          SignalTraces (Some (json_print (traces_payload config (span_json ancestor span (route_name route) started ended
            (case fst (handler span req (drawn th ancestor s)) of Inl e \<Rightarrow> True | Inr r \<Rightarrow> 500 \<le> status r))))) None"
    using run_span_exports [OF assms(1), of th config ancestor "route_name route" "observed th cell config handler req" span "drawn th ancestor s"]
    unfolding run(1) conjunct1 [OF observed_outcome] conjunct1 [OF conjunct2 [OF observed_outcome]] by blast
  moreover have "\<forall>r. fst (handler span req (drawn th ancestor s)) = Inr r \<and> status r < 500
      \<longrightarrow> tm_exporter (cell_get cell (after_operation th cell config span (observed th cell config handler req span (drawn th ancestor s))))
        = tm_exporter (cell_get cell (snd (handler span req (drawn th ancestor s))))"
    using conjunct2 [OF conjunct2 [OF observed_outcome]] by metis
  ultimately show ?thesis by blast
qed

definition demo_telemetry_cell :: "(telemetry_core, telemetry_core) cell" where
  "demo_telemetry_cell = \<lparr>cell_get = (\<lambda>s. s), cell_put = (\<lambda>tm s. tm)\<rparr>"

definition demo_telemetry_host :: "telemetry_core telemetry_host" where
  "demo_telemetry_host =
     \<lparr>th_platform = demo_platform,
      th_log = \<lparr>lh_now = (\<lambda>_. 1700000000000), lh_date_parse = (\<lambda>_. None), lh_fetch = (\<lambda>_ s. (Faulted (new_error ''down'') False, s)),
        lh_log = (\<lambda>_ s. s), lh_warn = (\<lambda>_ _ _ s. s), lh_stack = (\<lambda>_. None), lh_read_body = (\<lambda>req. io_return (req_body req))\<rparr>,
      th_identity = (\<lambda>_. None), th_elapsed = (\<lambda>_ _. JNum 3)\<rparr>"

definition demo_caller :: span_context where
  "demo_caller = \<lparr>sc_trace_id = replicate 32 (CHR ''a''), sc_span_id = replicate 16 (CHR ''b'')\<rparr>"

lemma instrument_only_observes_witness:
  "let run = instrument demo_telemetry_host demo_telemetry_cell demo_relay_config None (\<lambda>span req. io_return (new_response 503 None []))
       ''/orders/:id'' (demo_request ''GET'' [] [(''traceparent'', traceparent_of demo_caller)]) create_telemetry_core in
   fst run = Inr (new_response 503 None [])
   \<and> (\<exists>span started ended ex. sc_trace_id span = replicate 32 (CHR ''a'')
        \<and> tm_exporter (snd run) = enqueue ex SignalTraces (Some (json_print (traces_payload demo_relay_config
            (span_json (Some demo_caller) span ''.orders..id'' started ended True)))) None)"
proof -
  let ?req = "demo_request ''GET'' [] [(''traceparent'', traceparent_of demo_caller)]"
  have ok: "ids_ok demo_caller" by code_simp
  have header: "h_get (req_headers ?req) ''traceparent'' = Some (traceparent_of demo_caller)"
    by (simp add: demo_request_def h_get_def h_values_def to_lower_def lower_char_def)
  have route: "route_name ''/orders/:id'' = ''.orders..id''" by code_simp
  have cell: "cell_ok demo_telemetry_cell" by (simp add: cell_ok_def demo_telemetry_cell_def)
  let ?handler = "\<lambda>span req. io_return (new_response 503 None []) :: (telemetry_core, response) io"
  let ?run = "instrument demo_telemetry_host demo_telemetry_cell demo_relay_config None ?handler ''/orders/:id'' ?req create_telemetry_core"
  have parent: "Some demo_caller = (case parent_context (h_get (req_headers ?req) ''traceparent'') of Some p \<Rightarrow> Some p | None \<Rightarrow> None)"
    by (simp only: header traceparent_crosses_wire ok if_True option.case)
  obtain span started ended ex where seen: "fst ?run = Inr (new_response 503 None [])"
    "sc_trace_id span = sc_trace_id demo_caller"
    "tm_exporter (cell_get demo_telemetry_cell (snd ?run)) = enqueue ex SignalTraces (Some (json_print (traces_payload demo_relay_config
       (span_json (Some demo_caller) span ''.orders..id'' started ended True)))) None"
    using instrument_only_observes [OF cell parent, where th = demo_telemetry_host and config = demo_relay_config
        and handler = ?handler and route = "''/orders/:id''" and s = create_telemetry_core]
    unfolding route using header ok by (auto simp: io_return_def)
  then have "tm_exporter (snd ?run) = enqueue ex SignalTraces (Some (json_print (traces_payload demo_relay_config
       (span_json (Some demo_caller) span ''.orders..id'' started ended True)))) None"
    by (simp add: demo_telemetry_cell_def)
  moreover have "sc_trace_id span = replicate 32 (CHR ''a'')" using seen(2) by (simp add: demo_caller_def)
  ultimately show ?thesis using seen(1) unfolding Let_def by blast
qed

end
