(* ===== verification/Spec2Isabelle.thy ===== *)
theory Spec2Isabelle
  imports ClientAddress Forwarding Problems Config Stores JsNumber AuthOidc Handlers Proxy Backchannel Passthrough BffServer Service RefreshRace AuthHost Browser BrowserLog Exporter Relay BrowserQueue ServerTelemetry
begin

text \<open>
  Wallow's TypeScript side is a set of web applications that reach the platform's API through a
  server of their own. That server is \<open>packages/sdk/src/server\<close>: a backend for frontend that keeps
  the tokens of a signed-in user out of the browser. This development models that server whole, the
  failure vocabulary it answers with (\<open>packages/api-errors\<close>), the browser's end of its contract
  (\<open>packages/sdk/src\<close>), the deployment values both ends read (\<open>packages/env\<close>), the log events
  that a page and a server record (\<open>packages/logger\<close>), what their telemetry may say and to whom
  (\<open>packages/telemetry\<close>), and the decisions of the sign-in application (\<open>apps/wallow-auth\<close>).

  How the parts interact. A browser starts at \<open>/bff/login\<close>: the handler seals a transaction into a
  cookie and sends the browser to the issuer; \<open>/bff/callback\<close> opens the transaction, exchanges the
  code, and writes the session through a store, which answers with the reference that the session
  cookies carry. Every \<open>/api\<close> request then passes the proxy: it resolves the reference, checks the
  CSRF token, refreshes the tokens when they are about to expire (under the store's lock), and
  forwards the request with the bearer token and with headers that say who the caller is. A session
  ends by a logout, by the issuer's front-channel or back-channel call, or when a refresh fails.

  Which theory models what.

    \<^item> \<open>Prelude\<close>, \<open>Http\<close>, \<open>Json\<close>, \<open>JsNumber\<close>, \<open>Base64\<close>, \<open>Url\<close>: the JavaScript and web-standard values the
      source computes with (strings, plain objects, \<open>Headers\<close>, \<open>JSON\<close>, \<open>Number\<close>, base64url, \<open>URL\<close> and
      \<open>URLSearchParams\<close>), each with the laws its clients use; PKCE (\<open>pkce.ts\<close>) is in \<open>Base64\<close>.
    \<^item> \<open>Effects\<close>, \<open>Platform\<close>: an \<open>async\<close> function is a function from a state to an outcome (thrown or
      returned) and a state; the state is a type parameter, and what the platform provides (\<open>fetch\<close>, the
      clock, randomness, the seal, cookie syntax) is a record of operations over it.
    \<^item> \<open>ApiErrors\<close> (\<open>packages/api-errors\<close>), \<open>Problems\<close> (\<open>problem.ts\<close>, \<open>errors.ts\<close>): failures read from
      responses, and the problem answers and scrubbed logs of the server.
    \<^item> \<open>ClientAddress\<close> (\<open>client-address.ts\<close>), \<open>Forwarding\<close> (\<open>forwarded.ts\<close>, \<open>request-origin.ts\<close>,
      \<open>request-id.ts\<close>, \<open>csrf.ts\<close>): who the caller is, and what a hop tells the next one.
    \<^item> \<open>Config\<close> (\<open>config.ts\<close>, \<open>cookie-secret.ts\<close>): the environment contract.
    \<^item> \<open>Session\<close> (\<open>session.ts\<close>, \<open>txstate.ts\<close>, \<open>claims.ts\<close>), \<open>Redis\<close> and \<open>Stores\<close> (\<open>store/*.ts\<close>): what is
      kept, and where. The locale \<open>redis_like\<close> is the Redis port, \<open>session_store\<close> and \<open>revocable_store\<close>
      are the store's contract; they are interpreted on the in-process server and on both stores.
    \<^item> \<open>Oidc\<close> (\<open>oidc.ts\<close>), \<open>AuthOidc\<close> (\<open>auth-oidc.ts\<close>), \<open>Handlers\<close> (\<open>handlers.ts\<close>), \<open>Backchannel\<close>
      (\<open>backchannel-logout.ts\<close>): the issuer's side and the browser's side of a session's life.
    \<^item> \<open>Proxy\<close> (\<open>proxy.ts\<close>), \<open>RefreshRace\<close> (its refreshes when requests run at the same time),
      \<open>Passthrough\<close> (\<open>passthrough.ts\<close>), \<open>Service\<close> (\<open>service.ts\<close>), \<open>BffServer\<close> (\<open>bff-server.ts\<close>): what is
      forwarded, and the server an application mounts.
    \<^item> \<open>Deployment\<close> (\<open>packages/env\<close>, \<open>wallow-auth/src/shared/lib\<close>): base paths, origins from the
      environment, and the value a page publishes to its own scripts.
    \<^item> \<open>LogEvents\<close> (\<open>logger/src/log-event.ts\<close>, \<open>rate-limit.ts\<close>), \<open>LogIngest\<close> (\<open>server.ts\<close>, \<open>otlp.ts\<close> and
      the \<open>log-ingest.server.ts\<close> and \<open>log.server.ts\<close> of both applications), \<open>BrowserLog\<close> (\<open>index.ts\<close>): the
      event contract and the request limiter, the route that takes a page's batches and the records
      it stamps for the collector, and the buffer a page keeps and flushes.
    \<^item> \<open>Propagation\<close> (\<open>telemetry/src/limits.ts\<close>, \<open>configuration.ts\<close>, \<open>propagation.ts\<close>), \<open>Exporter\<close>
      (\<open>exporter.ts\<close>), \<open>JsRegex\<close> and \<open>Privacy\<close> (\<open>privacy.ts\<close>), \<open>Faro\<close> (\<open>faro-privacy.ts\<close>), \<open>Relay\<close>
      (\<open>relay.ts\<close>), \<open>BrowserQueue\<close> (\<open>browser-queue.ts\<close>), \<open>ServerTelemetry\<close> (\<open>server.ts\<close>, \<open>crash.ts\<close>): the
      traced \<open>fetch\<close> of a server, its export queue as a step relation, the scrubbing of what leaves, the
      route that takes a page's signals, the queue the page keeps them in (a step relation too), and the
      spans, log lines and captured errors of a server. \<open>JsRegex\<close> is the backtracking matcher the
      scrubbing runs on, with a declarative relation it agrees with.
    \<^item> \<open>AuthHost\<close> (\<open>apps/wallow-auth/src\<close>): what the sign-in application decides: where a sign-in, a
      second factor or a registration goes next, which forms pass, and who may frame a page.
    \<^item> \<open>Browser\<close> (\<open>sdk/src/csrf.ts\<close>, \<open>auth.ts\<close>, \<open>auth-extras.ts\<close>, \<open>create-sdk.ts\<close>, \<open>runtime-config.ts\<close>,
      \<open>route-context.ts\<close>, \<open>web-push.ts\<close>): what runs in the page, and the links it hands to the server.

  Each definition has the name of its function (in Isabelle's spelling) and takes what the function
  reads from its surroundings as arguments. An early return, a throw and a \<open>catch\<close> of the source are
  branches of the definition.

  What the lemmas show. The resolver of client addresses believes no header that a trusted proxy did
  not write, and equals its one-line specification; the proxy sends nothing for a request without a
  live session and a matching CSRF token, and only below the configured API; a login's transaction
  can be completed by the browser that started it and lands on the own site; a session ends for every
  holder of its reference by each of the ways listed above; revocation by subject reaches every
  session, as an invariant of the store's index; the refresh lock excludes as long as no lock lapses,
  for any number of requests and any interleaving, and a request on its own refreshes exactly as the
  code says; two deployed applications share no key; the machine-to-machine client ends every call
  and spends one grant for all replicas; the token the server sets in its readable cookie comes back
  from the page as the proxy expects it, unless the page also holds a cookie of that kind that cannot be
  decoded, and the page's login link reaches the login handler with the
  parameters it was built from; a sign-in ends on the own site or at a destination the server vetted.
  The log route's sink takes only vetted records with the server's own stamps, the limiter lets at
  most twice its allowance through in any window, a flush sends the buffer in order and in bodies
  below the cap, the buffer never exceeds its ceiling, and a batch survives the wire.
  A traced fetch takes its context to the configured origins only and drops credentials for good at the
  first foreign hop; the exporter keeps one byte budget and accounts for every record, in any order of
  its events; no e-mail address survives the scrubbing of a text without URLs; a sanitised batch has
  the type of its schema, says of a signal's owner what the server says, and leaves the relay only for
  a caller whose session the server resolved or whose id the relay itself signed or drew; what a page
  records under one context never leaves under another, and its queue keeps its budget; an instrumented
  handler answers or throws what the bare one does.
  Where the code does not keep what its comments promise, the
  statement says what it does (\<open>stale_reader_ends_rotated_session\<close>, \<open>lapsed_lock_admits_third\<close>,
  \<open>destroy_unindexes_newer_login\<close>, \<open>long_backlog_is_refused\<close>, \<open>proto_key_loads_empty_secret\<close>,
  \<open>malformed_csrf_cookie_blocks_requests\<close>).

  Hypotheses on code outside the repository. The seal (iron-webcrypto) opens what it sealed under
  the same password, within its lifetime (\<open>timeless_seal\<close>, \<open>timed_seal\<close>); the openid-client and jose
  libraries are records of operations, of which a property assumes at most that they leave the
  store's data alone (\<open>quiet\<close>, \<open>race_world\<close>) or the one outcome it is about; a Redis server keeps the
  laws of \<open>redis_like\<close>. Every property with hypotheses has a witness on concrete operations.

  Conventions and bounds. A string is a list of code units below 256 (\<open>JSON\<close> escapes above are
  refused by the reader); a number is an integer, milliseconds where the source has them; a cast
  \<open>as T\<close> of a value of another shape reads as absent. URLs are \<open>http\<close> and \<open>https\<close> ones;
  \<open>Date.parse\<close> is an argument. Concurrent calls inside one function (\<open>Promise.all\<close>, joins of a pending
  promise) run in one of the orders they allow; interleaving between requests is modelled in
  \<open>RefreshRace\<close>, \<open>Exporter\<close> and \<open>BrowserQueue\<close>, cut at the awaits. While a page's log flush awaits its
  request, nothing is recorded (\<open>page_posts\<close>, \<open>page_world\<close>). Loops end by a measure, except the wait for
  another replica's token, which is a \<open>partial_function\<close> whose end is proved (\<open>service_call_ends\<close>).

  Not modelled. The generated API client and its query bindings, which are printed by a generator
  from the API's description; components, styles and pages (React trees without state of their own
  worth stating); the packages that configure tools (lint, testing, config, styles);
  the set-up of the Faro library in \<open>telemetry/src/browser.ts\<close>; and the .NET API under
  \<open>api/\<close>, which is another program. The bodies of requests and responses are strings: their streaming is not modelled.
\<close>

end
